(* ===== verification/Prelude.thy ===== *)
theory Prelude
  imports Complex_Main
begin

text \<open>
  Shared vocabulary of the development: the JavaScript values the program uses (strings as
  lists of UTF-16 code units, numbers as exact reals or integers), the string, array and
  \<open>Math\<close> operations of the standard library that the source calls, the error values of
  a thrown exception, and the generic lemmas on lists that several components share.
  Numbers are exact: the rounding of binary floating point is not modelled, except where a
  theory says so.
\<close>

named_theorems js_defs "definitions of the modelled standard library operations"
named_theorems inv_intros "preservation lemmas, one per operation"

section \<open>Strings\<close>

text \<open>A JavaScript string is a sequence of UTF-16 code units.\<close>

type_synonym jschar = nat
type_synonym jsstring = "nat list"

text \<open>The JavaScript string of an ASCII literal.\<close>

definition js :: "string \<Rightarrow> jsstring" where
  "js s = map of_char s"

text \<open>A thrown exception is a value of this type.\<close>

datatype js_error = TypeError | RangeError

type_synonym 'a res = "js_error + 'a"

text \<open>\<open>s.slice(a, b)\<close> for non-negative arguments, \<open>s.substring(a)\<close>, and
  \<open>s.substr(start, n)\<close>, whose negative start counts from the end.\<close>

definition js_slice :: "'a list \<Rightarrow> nat \<Rightarrow> nat \<Rightarrow> 'a list" where
  "js_slice s a b = take (b - a) (drop a s)"

definition js_substr :: "'a list \<Rightarrow> int \<Rightarrow> nat \<Rightarrow> 'a list" where
  "js_substr s start n =
     take n (drop (nat (if start < 0 then max 0 (int (length s) + start) else start)) s)"

text \<open>\<open>s.indexOf(c)\<close> of a one-unit string, \<open>None\<close> for -1.\<close>

fun js_indexOf :: "'a list \<Rightarrow> 'a \<Rightarrow> nat option" where
  "js_indexOf [] c = None"
| "js_indexOf (x # xs) c = (if x = c then Some 0 else map_option Suc (js_indexOf xs c))"

text \<open>\<open>s.replace(/c/g, '')\<close> of one unit.\<close>

definition js_remove_all :: "'a \<Rightarrow> 'a list \<Rightarrow> 'a list" where
  "js_remove_all c s = filter (\<lambda>x. x \<noteq> c) s"

text \<open>\<open>s.split(c)\<close> of a one-unit separator: \<open>''\<close> splits to one empty part.\<close>

fun js_split :: "'a \<Rightarrow> 'a list \<Rightarrow> 'a list list" where
  "js_split c [] = [[]]"
| "js_split c (x # xs) =
     (if x = c then [] # js_split c xs
      else (case js_split c xs of [] \<Rightarrow> [[x]] | p # ps \<Rightarrow> (x # p) # ps))"

text \<open>\<open>toLowerCase\<close> on ASCII and the Latin-1 letters (the multiplication and division signs have no
  case); \<open>toUpperCase\<close> on every code point below 384, among them the letters whose capitals are two
  letters or leave Latin-1. Letters of other scripts stay as they are.\<close>

definition lower_unit :: "jschar \<Rightarrow> jschar" where
  "lower_unit c =
     (if (65 \<le> c \<and> c \<le> 90) \<or> (192 \<le> c \<and> c \<le> 222 \<and> c \<noteq> 215) then c + 32 else c)"

definition upper_unit :: "jschar \<Rightarrow> jschar" where
  "upper_unit c =
     (if (97 \<le> c \<and> c \<le> 122) \<or> (224 \<le> c \<and> c \<le> 254 \<and> c \<noteq> 247) then c - 32
      else if (256 \<le> c \<and> c \<le> 311 \<or> 330 \<le> c \<and> c \<le> 375) \<and> odd c then c - 1
      else if (313 \<le> c \<and> c \<le> 328 \<or> 377 \<le> c \<and> c \<le> 382) \<and> even c then c - 1
      else c)"

definition upper_units :: "jschar \<Rightarrow> jsstring" where
  "upper_units c =
     (if c = 181 then [924] else if c = 223 then [83, 83] else if c = 255 then [376]
      else if c = 305 then [73] else if c = 329 then [700, 78] else if c = 383 then [83]
      else [upper_unit c])"

definition js_toLowerCase :: "jsstring \<Rightarrow> jsstring" where
  "js_toLowerCase s = map lower_unit s"

definition js_toUpperCase :: "jsstring \<Rightarrow> jsstring" where
  "js_toUpperCase s = concat (map upper_units s)"

lemma js_toUpperCase_ascii: "\<forall>c\<in>set s. c < 128 \<Longrightarrow> js_toUpperCase s = map upper_unit s"
  by (induction s) (simp_all add: js_toUpperCase_def upper_units_def)

section \<open>Numbers and their strings\<close>

text \<open>The value of a digit of \<open>parseInt\<close>: 0-9, a-z, A-Z.\<close>

definition digit_value :: "jschar \<Rightarrow> nat option" where
  "digit_value c =
     (if 48 \<le> c \<and> c \<le> 57 then Some (c - 48)
      else if 97 \<le> c \<and> c \<le> 122 then Some (c - 87)
      else if 65 \<le> c \<and> c \<le> 90 then Some (c - 55)
      else None)"

definition is_digit_of :: "nat \<Rightarrow> jschar \<Rightarrow> bool" where
  "is_digit_of r c = (case digit_value c of None \<Rightarrow> False | Some d \<Rightarrow> d < r)"

definition num_of_digits :: "nat \<Rightarrow> jsstring \<Rightarrow> nat" where
  "num_of_digits r s =
     foldl (\<lambda>a c. a * r + (case digit_value c of None \<Rightarrow> 0 | Some d \<Rightarrow> d)) 0 s"

definition is_space :: "jschar \<Rightarrow> bool" where
  "is_space c \<longleftrightarrow> c \<in> {9, 10, 11, 12, 13, 32, 160, 5760, 8232, 8233, 8239, 8287, 12288, 65279}
     \<or> (8192 \<le> c \<and> c \<le> 8202)"

text \<open>\<open>parseInt(s, r)\<close>: white space and a sign are skipped, a \<open>0x\<close> prefix is dropped for
  radix 16 (and chooses radix 16 when no radix is given, \<open>None\<close>), then the longest prefix
  of digits is read. No digit gives NaN, \<open>None\<close>.\<close>

definition parseInt :: "jsstring \<Rightarrow> nat option \<Rightarrow> int option" where
  "parseInt s radix =
     (let s1 = dropWhile is_space s;
          neg = (case s1 of c # _ \<Rightarrow> c = 45 | [] \<Rightarrow> False);
          s2 = (case s1 of c # cs \<Rightarrow> if c = 45 \<or> c = 43 then cs else s1 | [] \<Rightarrow> s1);
          hexp = (case s2 of a # b # _ \<Rightarrow> a = 48 \<and> (b = 120 \<or> b = 88) | _ \<Rightarrow> False);
          hex = hexp \<and> (radix = None \<or> radix = Some 16);
          r = (if hex then 16 else case radix of None \<Rightarrow> 10 | Some r \<Rightarrow> r);
          ds = takeWhile (is_digit_of r) (if hex then drop 2 s2 else s2)
      in if ds = [] then None
         else Some (if neg then - int (num_of_digits r ds) else int (num_of_digits r ds)))"

text \<open>\<open>String(n)\<close> and \<open>n.toString(16)\<close> of a whole number. \<open>String\<close> is decimal
  for every whole number below \<open>10 ^ 21\<close> in absolute value.\<close>

fun digits_of :: "nat \<Rightarrow> nat \<Rightarrow> nat list" where
  "digits_of r n = (if n < r \<or> r < 2 then [n] else digits_of r (n div r) @ [n mod r])"

declare digits_of.simps [simp del]

definition digit_unit :: "nat \<Rightarrow> jschar" where
  "digit_unit d = (if d < 10 then 48 + d else 87 + d)"

definition nat_to_string :: "nat \<Rightarrow> nat \<Rightarrow> jsstring" where
  "nat_to_string r n = map digit_unit (digits_of r n)"

definition int_to_string :: "int \<Rightarrow> jsstring" where
  "int_to_string n =
     (if n < 0 then 45 # nat_to_string 10 (nat (- n)) else nat_to_string 10 (nat n))"

text \<open>\<open>Math.round\<close> rounds halves up; \<open>Math.floor\<close> is \<open>floor\<close>; \<open>a % b\<close> of
  whole numbers takes the sign of the dividend.\<close>

definition math_round :: "real \<Rightarrow> int" where
  "math_round r = \<lfloor>r + 1 / 2\<rfloor>"

definition js_rem :: "int \<Rightarrow> int \<Rightarrow> int" where
  "js_rem a b = sgn a * (\<bar>a\<bar> mod \<bar>b\<bar>)"

section \<open>Arrays\<close>

text \<open>\<open>xs[i]\<close>: \<open>None\<close> is \<open>undefined\<close>.\<close>

definition js_get :: "'a list \<Rightarrow> nat \<Rightarrow> 'a option" where
  "js_get xs i = (if i < length xs then Some (xs ! i) else None)"

text \<open>\<open>xs.splice(i, 1)\<close> and \<open>xs.splice(i, 0, x)\<close> for a non-negative position.\<close>

definition splice_out :: "'a list \<Rightarrow> nat \<Rightarrow> 'a list" where
  "splice_out xs i = take i xs @ drop (Suc i) xs"

definition splice_in :: "'a list \<Rightarrow> nat \<Rightarrow> 'a \<Rightarrow> 'a list" where
  "splice_in xs i x = take i xs @ x # drop i xs"

text \<open>\<open>arr.push(x)\<close>.\<close>

definition js_push :: "'a list \<Rightarrow> 'a \<Rightarrow> 'a list" where
  "js_push xs x = xs @ [x]"

text \<open>The first element with a property, with its index: a loop that returns.\<close>

fun find_index :: "('a \<Rightarrow> bool) \<Rightarrow> 'a list \<Rightarrow> nat option" where
  "find_index P [] = None"
| "find_index P (x # xs) = (if P x then Some 0 else map_option Suc (find_index P xs))"

declare js_slice_def [js_defs] js_substr_def [js_defs] js_remove_all_def [js_defs]
  math_round_def [js_defs] js_get_def [js_defs] splice_out_def [js_defs]
  splice_in_def [js_defs] js_push_def [js_defs] js_def [js_defs]

section \<open>Numbers that division can produce\<close>

text \<open>A quotient whose divisor may be zero: JavaScript gives an infinity or NaN. The sign of a
  zero divisor is taken as positive.\<close>

datatype jsnum = Fin real | PosInf | NegInf | NaN

definition js_div :: "real \<Rightarrow> real \<Rightarrow> jsnum" where
  "js_div a b =
     (if b \<noteq> 0 then Fin (a / b) else if 0 < a then PosInf else if a < 0 then NegInf else NaN)"

fun js_scale :: "real \<Rightarrow> jsnum \<Rightarrow> jsnum" where
  "js_scale c (Fin r) = Fin (c * r)"
| "js_scale c PosInf = (if 0 < c then PosInf else if c < 0 then NegInf else NaN)"
| "js_scale c NegInf = (if 0 < c then NegInf else if c < 0 then PosInf else NaN)"
| "js_scale c NaN = NaN"

fun js_shift :: "real \<Rightarrow> jsnum \<Rightarrow> jsnum" where
  "js_shift c (Fin r) = Fin (r + c)"
| "js_shift c n = n"

fun js_neg :: "jsnum \<Rightarrow> jsnum" where
  "js_neg (Fin r) = Fin (- r)"
| "js_neg PosInf = NegInf"
| "js_neg NegInf = PosInf"
| "js_neg NaN = NaN"

fun js_mul :: "jsnum \<Rightarrow> jsnum \<Rightarrow> jsnum" where
  "js_mul (Fin a) n = js_scale a n"
| "js_mul PosInf (Fin b) = js_scale b PosInf"
| "js_mul NegInf (Fin b) = js_scale b NegInf"
| "js_mul PosInf n = n"
| "js_mul NegInf n = js_neg n"
| "js_mul NaN n = NaN"

text \<open>\<open>Math.round\<close> of an extended number.\<close>

fun js_round :: "jsnum \<Rightarrow> jsnum" where
  "js_round (Fin r) = Fin (of_int \<lfloor>r + 1 / 2\<rfloor>)"
| "js_round n = n"

fun js_less :: "jsnum \<Rightarrow> jsnum \<Rightarrow> bool" where
  "js_less (Fin a) (Fin b) = (a < b)"
| "js_less NegInf (Fin b) = True"
| "js_less NegInf PosInf = True"
| "js_less (Fin a) PosInf = True"
| "js_less _ _ = False"

text \<open>\<open>a <= b\<close>: false when either is NaN.\<close>

fun js_le :: "jsnum \<Rightarrow> jsnum \<Rightarrow> bool" where
  "js_le (Fin a) (Fin b) = (a \<le> b)"
| "js_le NaN b = False"
| "js_le a NaN = False"
| "js_le NegInf b = True"
| "js_le a PosInf = True"
| "js_le _ _ = False"

text \<open>The whole number that an extended number is, 0 when it is not finite.\<close>

fun js_int :: "jsnum \<Rightarrow> int" where
  "js_int (Fin r) = \<lfloor>r\<rfloor>"
| "js_int n = 0"

section \<open>Lemmas\<close>

lemma js_Nil [simp]: "js [] = []"
  by (simp add: js_def)

lemma js_Cons [simp]: "js (c # cs) = of_char c # js cs"
  by (simp add: js_def)

lemma js_push_length [simp]: "length (js_push xs x) = Suc (length xs)"
  by (simp add: js_push_def)

lemma js_push_set [simp]: "set (js_push xs x) = insert x (set xs)"
  by (auto simp: js_push_def)

lemma js_get_Some: "js_get xs i = Some x \<longleftrightarrow> i < length xs \<and> xs ! i = x"
  by (auto simp: js_get_def)

lemma js_get_in: "js_get xs i = Some x \<Longrightarrow> x \<in> set xs"
  by (auto simp: js_get_def split: if_splits)

lemma js_get_None: "js_get xs i = None \<longleftrightarrow> length xs \<le> i"
  by (auto simp: js_get_def)

lemma length_splice_out [simp]: "i < length xs \<Longrightarrow> length (splice_out xs i) = length xs - 1"
  by (simp add: splice_out_def)

lemma length_splice_in [simp]: "length (splice_in xs i x) = Suc (length xs)"
  by (simp add: splice_in_def min_def)

lemma set_splice_out: "set (splice_out xs i) \<subseteq> set xs"
  by (auto simp: splice_out_def dest: in_set_takeD in_set_dropD)

lemma splice_in_out: "i < length xs \<Longrightarrow> splice_in (splice_out xs i) i (xs ! i) = xs"
  by (simp add: splice_in_def splice_out_def id_take_nth_drop [symmetric])

lemma find_index_Some:
  "find_index P xs = Some i \<Longrightarrow> i < length xs \<and> P (xs ! i) \<and> (\<forall>j < i. \<not> P (xs ! j))"
proof (induction xs arbitrary: i)
  case Nil
  then show ?case by simp
next
  case (Cons x xs)
  show ?case
  proof (cases "P x")
    case True
    with Cons.prems show ?thesis by simp
  next
    case False
    with Cons.prems obtain k where k: "find_index P xs = Some k" "i = Suc k" by auto
    from Cons.IH [OF k(1)] False show ?thesis
      unfolding k(2) by (auto simp: less_Suc_eq_0_disj)
  qed
qed

lemma find_index_None: "find_index P xs = None \<longleftrightarrow> (\<forall>x \<in> set xs. \<not> P x)"
  by (induction xs) auto

lemma js_indexOf_None [simp]: "js_indexOf s c = None \<longleftrightarrow> c \<notin> set s"
  by (induction s) auto

lemma js_indexOf_append:
  "c \<notin> set xs \<Longrightarrow> js_indexOf (xs @ c # ys) c = Some (length xs)"
  by (induction xs) auto

lemma js_indexOf_Some:
  "js_indexOf s c = Some i \<Longrightarrow> i < length s \<and> s ! i = c \<and> c \<notin> set (take i s)"
proof (induction s arbitrary: i)
  case Nil
  then show ?case by simp
next
  case (Cons x xs)
  then show ?case by (cases i) (auto split: if_splits)
qed

lemma js_remove_all_append [simp]:
  "js_remove_all c (xs @ ys) = js_remove_all c xs @ js_remove_all c ys"
  by (simp add: js_remove_all_def)

lemma js_remove_all_id [simp]: "c \<notin> set xs \<Longrightarrow> js_remove_all c xs = xs"
  by (auto simp: js_remove_all_def filter_id_conv)

lemma js_remove_all_Nil [simp]: "js_remove_all c [] = []"
  by (simp add: js_remove_all_def)

lemma js_remove_all_Cons [simp]:
  "js_remove_all c (x # xs) = (if x = c then js_remove_all c xs else x # js_remove_all c xs)"
  by (simp add: js_remove_all_def)

text \<open>Splitting loses nothing: joining the parts with the separator gives the string back.\<close>

fun js_join :: "'a \<Rightarrow> 'a list list \<Rightarrow> 'a list" where
  "js_join c [] = []"
| "js_join c [p] = p"
| "js_join c (p # q # ps) = p @ c # js_join c (q # ps)"

lemma js_split_nonempty [simp]: "js_split c s \<noteq> []"
  by (induction s) (auto split: list.splits)

lemma js_join_Cons:
  "ps \<noteq> [] \<Longrightarrow> js_join c (p # ps) = p @ c # js_join c ps"
  by (cases ps) auto

lemma js_join_split: "js_join c (js_split c s) = s"
proof (induction s)
  case Nil
  then show ?case by simp
next
  case (Cons x xs)
  obtain p ps where p: "js_split c xs = p # ps" by (cases "js_split c xs") auto
  with Cons show ?case by (cases ps) auto
qed

lemma js_split_parts: "p \<in> set (js_split c s) \<Longrightarrow> c \<notin> set p"
proof (induction s arbitrary: p)
  case Nil
  then show ?case by simp
next
  case (Cons x xs)
  then show ?case by (auto split: if_splits list.splits)
qed

text \<open>Digits of a number, and reading them back.\<close>

lemma digits_of_small: "2 \<le> r \<Longrightarrow> d \<in> set (digits_of r n) \<Longrightarrow> d < r"
proof (induction r n rule: digits_of.induct)
  case (1 r n)
  show ?case
  proof (cases "n < r")
    case True
    with "1.prems" show ?thesis by (simp add: digits_of.simps [of r n])
  next
    case False
    with "1.prems" "1.IH" show ?thesis
      by (auto simp: digits_of.simps [of r n])
  qed
qed

lemma digits_of_nonempty [simp]: "digits_of r n \<noteq> []"
  by (subst digits_of.simps) simp

lemma digit_value_unit: "d < 36 \<Longrightarrow> digit_value (digit_unit d) = Some d"
  by (auto simp: digit_value_def digit_unit_def)

lemma num_of_digits_append:
  "num_of_digits r (s @ [c]) =
     num_of_digits r s * r + (case digit_value c of None \<Rightarrow> 0 | Some d \<Rightarrow> d)"
  by (simp add: num_of_digits_def)

lemma num_of_digits_Nil [simp]: "num_of_digits r [] = 0"
  by (simp add: num_of_digits_def)

lemma num_of_digits_zero: "num_of_digits r (48 # s) = num_of_digits r s"
  by (simp add: num_of_digits_def digit_value_def)

lemma num_of_nat_to_string:
  "2 \<le> r \<Longrightarrow> r \<le> 36 \<Longrightarrow> num_of_digits r (nat_to_string r n) = n"
proof (induction r n rule: digits_of.induct)
  case (1 r n)
  show ?case
  proof (cases "n < r")
    case True
    with "1.prems" show ?thesis
      by (simp add: nat_to_string_def digits_of.simps [of r n] num_of_digits_def
          digit_value_unit)
  next
    case False
    have "num_of_digits r (nat_to_string r (n div r)) = n div r"
      using False "1.prems" "1.IH" by simp
    moreover have "n mod r < 36" using "1.prems"
      by (meson less_le_trans mod_less_divisor zero_less_numeral order_less_le_trans)
    ultimately show ?thesis using False "1.prems"
      by (simp add: nat_to_string_def digits_of.simps [of r n] num_of_digits_append
          digit_value_unit)
  qed
qed

lemma nat_to_string_nonempty [simp]: "nat_to_string r n \<noteq> []"
  by (simp add: nat_to_string_def)

lemma nat_to_string_digits:
  "2 \<le> r \<Longrightarrow> r \<le> 36 \<Longrightarrow> c \<in> set (nat_to_string r n) \<Longrightarrow> is_digit_of r c"
  by (auto simp: nat_to_string_def is_digit_of_def digit_value_unit dest!: digits_of_small)

lemma nat_to_string_decimal:
  "c \<in> set (nat_to_string 10 n) \<Longrightarrow> 48 \<le> c \<and> c \<le> 57"
  by (auto simp: nat_to_string_def digit_unit_def dest!: digits_of_small [rotated])

lemma math_round_int [simp]: "math_round (of_int n) = n"
  by (simp add: math_round_def floor_unique)

lemma nat_to_string_small: "n < 10 \<Longrightarrow> nat_to_string 10 n = [48 + n]"
  by (simp add: nat_to_string_def digits_of.simps [of 10 n] digit_unit_def)

end
