(* ===== verification/Canvas.thy ===== *)
theory Canvas
  imports Prelude
begin

text \<open>
  The drawing context: the program draws by calling methods of a
  \<open>CanvasRenderingContext2D\<close> and by assigning its attributes. A context is modelled by the
  history of those calls, in order; a drawing routine takes the history and returns it
  extended. \<open>measureText\<close> depends on the attributes set so far, so it is a parameter
  \<open>tm\<close> of the drawing routines that may depend on the whole history.
\<close>

datatype paint = PUndef | PColor jsstring | PGrad

datatype gfx =
    SetFont "real option"  \<comment> \<open>\<open>ctx.font = size + 'px ' + font_name\<close>\<close>
  | SetLineWidth "real option"
  | SetStroke paint
  | SetFill paint
  | CreateGrad real real real real  \<comment> \<open>\<open>grd = ctx.createLinearGradient(..)\<close>\<close>
  | AddStop real jsstring
  | BeginPath
  | MoveTo real real
  | LineTo real real
  | QuadTo real real real real
  | RectPath real real real real
  | Arc real real real real real
  | Ellipse real real real real real real real
  | ClosePath
  | Fill
  | Stroke
  | FillRect real real real real
  | StrokeRect real real real real
  | ClearRect real real real real
  | FillText jsstring real real
  | FillTextMax jsstring real real real
  | StrokeText jsstring real real
  | StrokeTextMax jsstring real real real
  | Save
  | Restore
  | Translate real real
  | RotateBy real
  | DrawImage jsstring real real real real

type_synonym ctx = "gfx list"
type_synonym text_measure = "ctx \<Rightarrow> jsstring \<Rightarrow> real"

definition emit :: "gfx list \<Rightarrow> ctx \<Rightarrow> ctx" where
  "emit cmds c = c @ cmds"

text \<open>An optional colour: \<open>undefined\<close> when the option is missing.\<close>

definition opt_color :: "jsstring option \<Rightarrow> paint" where
  "opt_color col = (case col of None \<Rightarrow> PUndef | Some c \<Rightarrow> PColor c)"

section \<open>Well-nested drawing\<close>

text \<open>The depth of the context's state stack: \<open>None\<close> if a \<open>restore\<close> has no matching
  \<open>save\<close> inside the commands.\<close>

fun depth_after :: "nat \<Rightarrow> gfx list \<Rightarrow> nat option" where
  "depth_after d [] = Some d"
| "depth_after d (Save # cs) = depth_after (Suc d) cs"
| "depth_after d (Restore # cs) = (case d of 0 \<Rightarrow> None | Suc d' \<Rightarrow> depth_after d' cs)"
| "depth_after d (c # cs) = depth_after d cs"

definition well_nested :: "gfx list \<Rightarrow> bool" where
  "well_nested cs \<longleftrightarrow> (\<forall>d. depth_after d cs = Some d)"

lemma depth_after_append:
  "depth_after d (xs @ ys) = (case depth_after d xs of None \<Rightarrow> None | Some e \<Rightarrow> depth_after e ys)"
  by (induction d xs rule: depth_after.induct) (auto split: nat.splits)

lemma well_nested_Nil [simp]: "well_nested []"
  by (simp add: well_nested_def)

text \<open>A command that is neither \<open>save\<close> nor \<open>restore\<close> does not matter.\<close>

lemma well_nested_plain [simp]:
  "well_nested (SetFont a # cs) = well_nested cs" "well_nested (SetLineWidth a # cs) = well_nested cs"
  "well_nested (SetStroke p # cs) = well_nested cs" "well_nested (SetFill p # cs) = well_nested cs"
  "well_nested (CreateGrad x y z w # cs) = well_nested cs"
  "well_nested (AddStop x s # cs) = well_nested cs" "well_nested (BeginPath # cs) = well_nested cs"
  "well_nested (MoveTo x y # cs) = well_nested cs" "well_nested (LineTo x y # cs) = well_nested cs"
  "well_nested (QuadTo x y z w # cs) = well_nested cs"
  "well_nested (RectPath x y z w # cs) = well_nested cs"
  "well_nested (Arc x y z w v # cs) = well_nested cs"
  "well_nested (Ellipse x y z w v u r # cs) = well_nested cs"
  "well_nested (ClosePath # cs) = well_nested cs" "well_nested (Fill # cs) = well_nested cs"
  "well_nested (Stroke # cs) = well_nested cs" "well_nested (FillRect x y z w # cs) = well_nested cs"
  "well_nested (StrokeRect x y z w # cs) = well_nested cs"
  "well_nested (ClearRect x y z w # cs) = well_nested cs"
  "well_nested (FillText s x y # cs) = well_nested cs"
  "well_nested (FillTextMax s x y z # cs) = well_nested cs"
  "well_nested (StrokeText s x y # cs) = well_nested cs"
  "well_nested (StrokeTextMax s x y z # cs) = well_nested cs"
  "well_nested (Translate x y # cs) = well_nested cs" "well_nested (RotateBy r # cs) = well_nested cs"
  "well_nested (DrawImage s x y z w # cs) = well_nested cs"
  by (simp_all add: well_nested_def)

lemma well_nested_append: "well_nested xs \<Longrightarrow> well_nested ys \<Longrightarrow> well_nested (xs @ ys)"
  by (simp add: well_nested_def depth_after_append)

lemma well_nested_concat: "(\<And>x. x \<in> set xs \<Longrightarrow> well_nested x) \<Longrightarrow> well_nested (concat xs)"
  by (induction xs) (auto intro: well_nested_append)

text \<open>A routine draws well nested if whatever it appends to the history is.\<close>

definition draws_nested :: "(ctx \<Rightarrow> ctx) \<Rightarrow> bool" where
  "draws_nested f \<longleftrightarrow> (\<forall>c. \<exists>cs. f c = c @ cs \<and> well_nested cs)"

lemma draws_nested_emit [intro]: "well_nested cs \<Longrightarrow> draws_nested (emit cs)"
  by (auto simp: draws_nested_def emit_def)

lemma draws_nested_id [intro]: "draws_nested (\<lambda>c. c)"
  by (auto simp: draws_nested_def intro: exI [of _ "[]"])

lemma draws_nested_comp:
  assumes "draws_nested f" "draws_nested g"
  shows "draws_nested (\<lambda>c. g (f c))"
  unfolding draws_nested_def
proof
  fix c
  obtain cs where cs: "f c = c @ cs" "well_nested cs"
    using assms(1) unfolding draws_nested_def by blast
  obtain ds where ds: "g (f c) = f c @ ds" "well_nested ds"
    using assms(2) unfolding draws_nested_def by blast
  show "\<exists>es. g (f c) = c @ es \<and> well_nested es"
    using cs ds by (auto intro: well_nested_append)
qed

lemma draws_nested_if [intro]:
  "(b \<Longrightarrow> draws_nested f) \<Longrightarrow> (\<not> b \<Longrightarrow> draws_nested g) \<Longrightarrow>
     draws_nested (\<lambda>c. if b then f c else g c)"
  by (cases b) auto

lemma draws_nested_fold [intro]:
  "(\<And>x. x \<in> set xs \<Longrightarrow> draws_nested (f x)) \<Longrightarrow> draws_nested (fold f xs)"
proof (induction xs)
  case Nil
  then show ?case by (simp add: id_def draws_nested_id)
next
  case (Cons x xs)
  have "draws_nested (fold f xs)" by (rule Cons.IH) (simp add: Cons.prems)
  then have "draws_nested (\<lambda>c. fold f xs (f x c))"
    by (rule draws_nested_comp [rotated]) (simp add: Cons.prems)
  then show ?case by (simp add: comp_def)
qed

text \<open>Nesting of the bracket that \<open>save\<close> and \<open>restore\<close> form.\<close>

lemma well_nested_bracket: "well_nested cs \<Longrightarrow> well_nested (Save # cs @ [Restore])"
  by (simp add: well_nested_def depth_after_append)

end
