(* ===== verification/CanvasHelpers.thy ===== *)
theory CanvasHelpers
  imports Canvas "HOL-Library.Word"
begin

text \<open>
  The helper functions of \<open>canvasuijs/canvashelpers.js\<close>: the rounded rectangle, rotation of a
  point, the keyboard decoder \<open>GetPressedKeyChar\<close>, colour conversion, amounts of money as
  text, line breaking, and the sizing helpers.
\<close>

unbundle bit_operations_syntax

section \<open>Drawing and geometry\<close>

definition roundRect :: "real \<Rightarrow> real \<Rightarrow> real \<Rightarrow> real \<Rightarrow> real \<Rightarrow> real option \<Rightarrow> ctx \<Rightarrow> ctx" where
  "roundRect x y w h radius line_width c =
     (let r = x + w; b = y + h;
          c1 = emit
            [SetLineWidth line_width,
             BeginPath,
             MoveTo (x + radius) y,
             LineTo (r - radius) y,
             QuadTo r y r (y + radius),
             LineTo r (y + h - radius),
             QuadTo r b (r - radius) b,
             LineTo (x + radius) b,
             QuadTo x b x (b - radius),
             LineTo x (y + radius),
             QuadTo x y (x + radius) y,
             Fill] c
      in (case line_width of
            None \<Rightarrow> c1
          | Some lw \<Rightarrow> if lw > 0 then emit [Stroke] c1 else c1))"

definition rotate :: "real \<Rightarrow> real \<Rightarrow> real \<Rightarrow> real \<Rightarrow> real \<Rightarrow> real \<times> real" where
  "rotate cx cy x y angle =
     (let radians = (pi / 180) * angle;
          cs = cos radians;
          sn = sin radians;
          nx = (cs * (x - cx)) + (sn * (y - cy)) + cx;
          ny = (cs * (y - cy)) - (sn * (x - cx)) + cy
      in (nx, ny))"

section \<open>Keyboard decoding\<close>

text \<open>A decoded key is a text (a letter, a blank, a comma, or the words \<open>backspace\<close> and
  \<open>delete\<close>) or, for the digit keys, a number. The decoder's only state is whether shift is
  down. \<open>keydown\<close> also says whether it called \<open>e.preventDefault()\<close>.\<close>

datatype keychar = KText jsstring | KNum nat

record pressed_key =
  pk_uppercase :: bool

definition new_pressed_key :: pressed_key where
  "new_pressed_key = \<lparr>pk_uppercase = False\<rparr>"

definition pk_keyup :: "nat \<Rightarrow> pressed_key \<Rightarrow> pressed_key" where
  "pk_keyup keycode st = (if keycode = 16 then st\<lparr>pk_uppercase := False\<rparr> else st)"

definition pk_keydown :: "nat \<Rightarrow> pressed_key \<Rightarrow> pressed_key \<times> keychar option \<times> bool" where
  "pk_keydown keycode st =
     (let st1 = (if keycode = 16 then st\<lparr>pk_uppercase := True\<rparr> else st);
          t1 = (if 65 \<le> keycode \<and> keycode \<le> 90 then Some [keycode] else None);
          t2 = (if keycode = 186 then Some [220] else t1);
          t3 = (if keycode = 192 then Some [214] else t2);
          t4 = (if keycode = 222 then Some [196] else t3);
          t5 = (if \<not> pk_uppercase st1 then map_option js_toLowerCase t4 else t4);
          t6 = (if keycode = 32 then Some [32] else t5);
          t7 = (if keycode = 8 then Some (js ''backspace'') else t6);
          t8 = (if keycode = 46 then Some (js ''delete'') else t7);
          k1 = map_option KText t8;
          k2 = (if 48 \<le> keycode \<and> keycode \<le> 57 then Some (KNum (keycode - 48)) else k1);
          k3 = (if 96 \<le> keycode \<and> keycode \<le> 105 then Some (KNum (keycode - 96)) else k2);
          k4 = (if (keycode = 188 \<or> keycode = 108) \<and> \<not> pk_uppercase st1
                then Some (KText (js '','')) else k3)
      in (st1, k4, k4 \<noteq> None))"

section \<open>Colours\<close>

text \<open>\<open>r << 16 | g << 8 | b\<close> works on 32-bit two's complement integers. The zeros come from
  \<open>new Array(7 - h.length)\<close>, which throws when the length is negative.\<close>

definition RGBToHex :: "int \<Rightarrow> int \<Rightarrow> int \<Rightarrow> jsstring res" where
  "RGBToHex r g b =
     (let bin = sint ((push_bit 16 (of_int r) OR push_bit 8 (of_int g) OR of_int b) :: 32 word);
          h = js_toUpperCase
                (if bin < 0 then 45 # nat_to_string 16 (nat (- bin)) else nat_to_string 16 (nat bin))
      in if length h > 7 then Inl RangeError
         else Inr (replicate (7 - length h - 1) 48 @ h))"

text \<open>A colour of four characters gives an object with fields \<open>r\<close>, \<open>g\<close>, \<open>b\<close>, any other
  one an array. A component that does not parse is NaN, \<open>None\<close>.\<close>

datatype rgb =
    RGBObject "int option" "int option" "int option"
  | RGBArray "int option" "int option" "int option"

definition fullHex :: "jsstring \<Rightarrow> rgb" where
  "fullHex hex =
     (let r = js_slice hex 1 2; g = js_slice hex 2 3; b = js_slice hex 3 4
      in RGBObject (parseInt (r @ r) (Some 16)) (parseInt (g @ g) (Some 16))
           (parseInt (b @ b) (Some 16)))"

definition HexToRGB :: "jsstring \<Rightarrow> rgb" where
  "HexToRGB hex =
     (if length hex = 4 then fullHex hex
      else RGBArray (parseInt (js_slice hex 1 3) (Some 16)) (parseInt (js_slice hex 3 5) (Some 16))
             (parseInt (js_slice hex 5 7) (Some 16)))"

text \<open>\<open>rgb_color[i]\<close>: an object without numeric fields yields \<open>undefined\<close>, which is NaN in
  the sum.\<close>

fun rgb_at :: "rgb \<Rightarrow> nat \<Rightarrow> int option" where
  "rgb_at (RGBObject r g b) i = None"
| "rgb_at (RGBArray r g b) i = (if i = 0 then r else if i = 1 then g else if i = 2 then b else None)"

definition isValidHexaCode :: "jsstring \<Rightarrow> bool" where
  "isValidHexaCode str =
     (if js_get str 0 \<noteq> Some 35 then False
      else if \<not> (length str = 4 \<or> length str = 7) then False
      else list_all (\<lambda>c. (c \<le> 48 \<and> c \<le> 9) \<or> (c \<ge> 97 \<and> c \<le> 102) \<or> (c \<ge> 65 \<or> c \<le> 70))
             (drop 1 str))"

definition getForegroundColor :: "jsstring \<Rightarrow> jsstring res" where
  "getForegroundColor hex_color =
     (let rgb_color = HexToRGB hex_color;
          over = (case (rgb_at rgb_color 0, rgb_at rgb_color 1, rgb_at rgb_color 2) of
                    (Some r, Some g, Some b) \<Rightarrow> (real_of_int (r + g + b)) / 3 > 100
                  | _ \<Rightarrow> False);
          foreground = (if over then 0 else 255)
      in (case RGBToHex foreground foreground foreground of
            Inl e \<Rightarrow> Inl e
          | Inr h \<Rightarrow> Inr (35 # h)))"

section \<open>Money\<close>

text \<open>\<open>while (cents_str.length < 3) cents_str = '0' + cents_str\<close>.\<close>

function pad_cents :: "jsstring \<Rightarrow> jsstring" where
  "pad_cents s = (if length s < 3 then pad_cents (48 # s) else s)"
  by pat_completeness auto
termination
  by (relation "measure (\<lambda>s. 3 - length s)") auto

declare pad_cents.simps [simp del]

definition group_thousands :: "jsstring \<Rightarrow> jsstring" where
  "group_thousands first_part =
     fold (\<lambda>i acc. 46 # js_substr first_part (int (length first_part) - (int i + 1) * 3) 3 @ acc)
       [0..<(length first_part - 1) div 3] []"

definition centToEuros_text :: "jsstring \<Rightarrow> jsstring" where
  "centToEuros_text cents =
     (let isnegative = (js_get cents 0 = Some 45);
          s0 = (if isnegative then js_substr cents 1 (length cents - 1) else cents);
          s = pad_cents s0;
          first_part = js_substr s 0 (length s - 2);
          last_part = 44 # js_substr s (- 2) (length s);
          new_first_part = group_thousands first_part;
          euros = (if length first_part mod 3 \<noteq> 0
                   then js_substr first_part 0 (length first_part mod 3) @ new_first_part @ last_part
                   else js_substr first_part 0 3 @ new_first_part @ last_part)
      in if isnegative then 45 # euros else euros)"

definition centToEuros :: "int \<Rightarrow> jsstring" where
  "centToEuros cents = centToEuros_text (int_to_string cents)"

text \<open>\<open>cents\<close> is a number on the path with a comma and a text on the other; either way
  \<open>parseInt\<close> reads its text. \<open>None\<close> is NaN.\<close>

definition eurosToCent :: "jsstring \<Rightarrow> int option" where
  "eurosToCent euros =
     (let s0 = js_remove_all 46 euros;
          isnegative = (js_get s0 0 = Some 45);
          s1 = (if isnegative then js_substr s0 1 (length s0 - 1) else s0);
          cents = (case js_indexOf euros 44 of
              Some comma_position \<Rightarrow>
                (let after_comma = int (length euros) - 1 - int comma_position;
                     zeros_missing = 2 - after_comma;
                     s2 = s1 @ replicate (nat zeros_missing) 48;
                     s3 = js_remove_all 44 s2
                 in (case parseInt s3 None of None \<Rightarrow> js ''NaN'' | Some n \<Rightarrow> int_to_string n))
            | None \<Rightarrow> s1 @ js ''00'');
          cents' = (if isnegative then 45 # cents else cents)
      in parseInt cents' None)"

section \<open>Line breaking\<close>

text \<open>\<open>mt\<close> is \<open>ctx.measureText(..).width\<close> in the context at the time of the call, which
  the function does not change.\<close>

definition break_letter ::
  "(jsstring \<Rightarrow> real) \<Rightarrow> real \<Rightarrow> jschar \<Rightarrow> jsstring list \<times> jsstring \<times> real \<Rightarrow>
     jsstring list \<times> jsstring \<times> real" where
  "break_letter mt maxWidth letter st =
     (case st of (lines, currentLine, letters_width) \<Rightarrow>
        (let letterWidth = mt [letter];
             (lines1, currentLine1, letters_width1) =
               (if letters_width + letterWidth > maxWidth
                then (lines @ [currentLine], [], 0) else (lines, currentLine, letters_width))
         in (lines1, currentLine1 @ [letter], letters_width1 + letterWidth)))"

definition break_word ::
  "(jsstring \<Rightarrow> real) \<Rightarrow> real \<Rightarrow> jsstring \<Rightarrow> jsstring list \<times> jsstring \<Rightarrow> jsstring list \<times> jsstring"
  where
  "break_word mt maxWidth word st =
     (case st of (lines, currentLine) \<Rightarrow>
        (let wordWidth = mt word; width = mt (currentLine @ word)
         in if wordWidth > maxWidth then
              (let lines1 = (if length currentLine > 0 then lines @ [currentLine] else lines);
                   (lines2, currentLine2, _) =
                     fold (break_letter mt maxWidth) word (lines1, [], 0)
               in (lines2, currentLine2 @ [32]))
            else
              (let (lines1, currentLine1) =
                     (if width > maxWidth then (lines @ [currentLine], []) else (lines, currentLine))
               in (lines1, currentLine1 @ word @ [32]))))"

definition autoLineBreak :: "(jsstring \<Rightarrow> real) \<Rightarrow> jsstring \<Rightarrow> real \<Rightarrow> jsstring list" where
  "autoLineBreak mt text maxWidth =
     (let (lines, currentLine) = fold (break_word mt maxWidth) (js_split 32 text) ([], [])
      in if length currentLine > 0 then
           (let currentLine1 = (if last currentLine = 32
                                then js_substr currentLine 0 (length currentLine - 1)
                                else currentLine)
            in lines @ [currentLine1])
         else lines)"

section \<open>Sizes and event propagation\<close>

text \<open>The elements of the page with their sizes: an element that is not there is \<open>null\<close>.\<close>

definition getCanvasWidthHeight :: "(jsstring \<Rightarrow> (real \<times> real) option) \<Rightarrow> jsstring \<Rightarrow> (real \<times> real) res" where
  "getCanvasWidthHeight page canvas =
     (case page canvas of None \<Rightarrow> Inl TypeError | Some wh \<Rightarrow> Inr wh)"

definition getSizeMultiplier :: "real \<Rightarrow> real \<Rightarrow> real \<Rightarrow> jsnum" where
  "getSizeMultiplier innerWidth innerHeight min_size =
     (let m1 = (if innerWidth < min_size then js_div min_size innerWidth else Fin 1)
      in if js_less (js_scale innerHeight m1) (Fin min_size) then js_div min_size innerHeight else m1)"

text \<open>\<open>store_w\<close> and \<open>store_h\<close> are the browser's rule for the value an assignment to
  \<open>canvas.width\<close> and \<open>canvas.height\<close> leaves there.\<close>

definition setCanvasWindowSize ::
  "(real \<Rightarrow> real) \<Rightarrow> (real \<Rightarrow> real) \<Rightarrow> real \<Rightarrow> real \<Rightarrow> real \<Rightarrow> real \<times> real" where
  "setCanvasWindowSize store_w store_h innerWidth innerHeight size_multiplier =
     (let w = store_w (innerWidth * size_multiplier - 350);
          h = store_h (innerHeight * size_multiplier - 100);
          w1 = (if w < 400 then store_w 400 else w);
          h1 = (if h < 300 then store_h 300 else h)
      in (w1, h1))"

definition getPixel :: "real \<Rightarrow> real \<Rightarrow> real" where
  "getPixel max_value percentage = percentage * max_value / 100"

text \<open>Each handler that \<open>eventPropagation\<close> installs calls the same handler of every child of
  every parent, in this order; \<open>call\<close> is that handler.\<close>

definition eventPropagation :: "('p \<Rightarrow> 'c \<Rightarrow> 's \<Rightarrow> 's) \<Rightarrow> 'p list \<Rightarrow> 'c list \<Rightarrow> 's \<Rightarrow> 's" where
  "eventPropagation call parents children s =
     fold (\<lambda>parent s1. fold (\<lambda>child s2. call parent child s2) children s1) parents s"

section \<open>Rotation\<close>

lemma rotate_center [simp]: "rotate cx cy cx cy a = (cx, cy)"
  by (simp add: rotate_def Let_def)

lemma rotate_zero [simp]: "rotate cx cy x y 0 = (x, y)"
  by (simp add: rotate_def Let_def)

lemma rotate_inverse:
  "rotate cx cy (fst (rotate cx cy x y a)) (snd (rotate cx cy x y a)) (- a) = (x, y)"
proof -
  define c s where "c = cos (pi * a / 180)" and "s = sin (pi * a / 180)"
  have cs: "c * c + s * s = 1"
    using sin_cos_squared_add3 [of "pi * a / 180"] by (simp add: c_def s_def)
  have "c * (c * u + s * v) - s * (c * v - s * u) = (c * c + s * s) * u"
    and "c * (c * v - s * u) + s * (c * u + s * v) = (c * c + s * s) * v" for u v
    by (simp_all add: algebra_simps)
  with cs show ?thesis
    by (simp add: rotate_def Let_def c_def [symmetric] s_def [symmetric])
qed

text \<open>Rotation by an angle is affine: it commutes with translation of point and centre.\<close>

lemma rotate_translate:
  "rotate (cx + dx) (cy + dy) (x + dx) (y + dy) a =
     (fst (rotate cx cy x y a) + dx, snd (rotate cx cy x y a) + dy)"
  by (simp add: rotate_def Let_def algebra_simps)

section \<open>Colour conversion\<close>

lemma or_shifted:
  assumes "0 \<le> (x::int)" "x < 2 ^ n"
  shows "push_bit n a OR x = a * 2 ^ n + x"
proof -
  have x: "take_bit n x = x" using assms by (simp add: take_bit_int_eq_self)
  have "push_bit n a AND take_bit n x = 0"
    by (auto simp: bit_eq_iff bit_simps)
  then have "push_bit n a + x = push_bit n a OR x"
    by (simp add: disjunctive_add_eq_or x)
  then show ?thesis by (simp add: push_bit_eq_mult)
qed

text \<open>The digits of a number below \<open>r ^ k\<close>, padded with zeros to \<open>k\<close> digits.\<close>

fun fixed_digits :: "nat \<Rightarrow> nat \<Rightarrow> nat \<Rightarrow> nat list" where
  "fixed_digits r 0 n = []"
| "fixed_digits r (Suc k) n = fixed_digits r k (n div r) @ [n mod r]"

lemma fixed_digits_zero [simp]: "fixed_digits r k 0 = replicate k 0"
  by (induction k) (simp_all add: replicate_append_same)

lemma length_digits_of_pos: "0 < length (digits_of r n)"
  by simp

lemma pad_digits_of:
  assumes "2 \<le> r"
  shows "n < r ^ k \<Longrightarrow> 0 < k \<Longrightarrow>
    length (digits_of r n) \<le> k \<and>
    replicate (k - length (digits_of r n)) 0 @ digits_of r n = fixed_digits r k n"
proof (induction k arbitrary: n)
  case 0
  then show ?case by simp
next
  case (Suc k)
  show ?case
  proof (cases "n < r")
    case True
    then show ?thesis by (simp add: digits_of.simps [of r n])
  next
    case False
    from Suc.prems(1) have "n div r < r ^ k"
      by (simp add: less_mult_imp_div_less mult.commute)
    moreover from this False assms have "0 < k"
      by (cases k) (auto simp: div_eq_0_iff)
    ultimately have IH: "length (digits_of r (n div r)) \<le> k"
      "replicate (k - length (digits_of r (n div r))) 0 @ digits_of r (n div r)
         = fixed_digits r k (n div r)"
      using Suc.IH by blast+
    from False assms have "digits_of r n = digits_of r (n div r) @ [n mod r]"
      by (subst digits_of.simps) simp
    with IH show ?thesis by (simp add: append_assoc [symmetric] del: append_assoc)
  qed
qed

lemma upper_digit_value: "d < 16 \<Longrightarrow> digit_value (upper_unit (digit_unit d)) = Some d"
  by (auto simp: digit_value_def digit_unit_def upper_unit_def)

lemma upper_digit_facts:
  "d < 16 \<Longrightarrow> is_digit_of 16 (upper_unit (digit_unit d))"
  "d < 16 \<Longrightarrow> \<not> is_space (upper_unit (digit_unit d))"
  "d < 16 \<Longrightarrow> upper_unit (digit_unit d) \<noteq> 45"
  "d < 16 \<Longrightarrow> upper_unit (digit_unit d) \<noteq> 43"
  "d < 16 \<Longrightarrow> upper_unit (digit_unit d) \<noteq> 120"
  "d < 16 \<Longrightarrow> upper_unit (digit_unit d) \<noteq> 88"
  by (auto simp: is_digit_of_def upper_digit_value)
    (auto simp: is_space_def digit_unit_def upper_unit_def split: if_splits)

lemma parse_hex_pair:
  "a < 16 \<Longrightarrow> b < 16 \<Longrightarrow>
     parseInt [upper_unit (digit_unit a), upper_unit (digit_unit b)] (Some 16)
       = Some (int (16 * a + b))"
  by (simp add: parseInt_def Let_def upper_digit_facts num_of_digits_def upper_digit_value)

lemma RGBToHex_bytes:
  assumes "0 \<le> r" "r \<le> 255" "0 \<le> g" "g \<le> 255" "0 \<le> b" "b \<le> 255"
  shows "RGBToHex r g b =
    Inr (map (\<lambda>d. upper_unit (digit_unit d)) (fixed_digits 16 6 (nat (r * 65536 + g * 256 + b))))"
proof -
  define n where "n = r * 65536 + g * 256 + b"
  have n: "0 \<le> n" "n < 16777216" using assms by (simp_all add: n_def)
  have gb: "push_bit 8 g OR b = g * 256 + b"
    using or_shifted [of b 8 g] assms by simp
  have "push_bit 16 r OR (g * 256 + b) = r * 65536 + (g * 256 + b)"
    using or_shifted [of "g * 256 + b" 16 r] assms by simp
  with gb have "push_bit 16 r OR push_bit 8 g OR b = n"
    by (simp add: n_def or.assoc)
  then have "(push_bit 16 (of_int r) OR push_bit 8 (of_int g) OR of_int b :: 32 word) = of_int n"
    by (simp add: push_bit_of_int of_int_or_eq [symmetric] del: of_int_or_eq)
  moreover have "sint (of_int n :: 32 word) = n"
    using n by (simp add: signed_of_int signed_take_bit_int_eq_self)
  ultimately have bin:
    "sint ((push_bit 16 (of_int r) OR push_bit 8 (of_int g) OR of_int b) :: 32 word) = n"
    by simp
  have "nat n < 16 ^ 6" using n by simp
  from pad_digits_of [OF _ this]
  have len: "length (digits_of 16 (nat n)) \<le> 6"
    and pad: "replicate (6 - length (digits_of 16 (nat n))) 0 @ digits_of 16 (nat n)
                = fixed_digits 16 6 (nat n)"
    by simp_all
  let ?u = "\<lambda>d. upper_unit (digit_unit d)"
  have "\<forall>c\<in>set (nat_to_string 16 (nat n)). c < 128"
    using digits_of_small [of 16 _ "nat n"] by (fastforce simp: nat_to_string_def digit_unit_def)
  then have "js_toUpperCase (nat_to_string 16 (nat n)) = map ?u (digits_of 16 (nat n))"
    by (simp add: js_toUpperCase_ascii nat_to_string_def)
  moreover have "replicate (6 - length (digits_of 16 (nat n))) 48
      = map ?u (replicate (6 - length (digits_of 16 (nat n))) 0)"
    by (simp add: digit_unit_def upper_unit_def)
  ultimately show ?thesis
    using n len unfolding RGBToHex_def Let_def bin n_def [symmetric]
    by (simp add: pad [symmetric])
qed

lemma fixed_digits_split:
  "fixed_digits r (j + k) n = fixed_digits r j (n div r ^ k) @ fixed_digits r k n"
  by (induction k arbitrary: n) (simp_all add: div_mult2_eq)

lemma fixed_digits_pair: "fixed_digits 16 2 n = [n div 16 mod 16, n mod 16]"
  by (simp add: numeral_2_eq_2)

lemma byte_digits:
  assumes "r < 256" "g < 256" "b < (256::nat)"
  shows "fixed_digits 16 6 (r * 65536 + g * 256 + b)
    = [r div 16, r mod 16, g div 16, g mod 16, b div 16, b mod 16]"
proof -
  define m where "m = r * 256 + g"
  define n where "n = m * 256 + b"
  have pair: "fixed_digits 16 2 (k * 256 + x) = [x div 16, x mod 16]" if "x < 256" for k x :: nat
  proof -
    have k: "k * 256 + x = x + 16 * (16 * k)" by simp
    have "(k * 256 + x) div 16 = x div 16 + 16 * k" unfolding k by simp
    then have "(k * 256 + x) div 16 mod 16 = x div 16" using that by simp
    moreover have "(k * 256 + x) mod 16 = x mod 16"
      unfolding k by (rule mod_mult_self2)
    ultimately show ?thesis by (simp add: fixed_digits_pair)
  qed
  have "n div 256 = m" "m div 256 = r" using assms by (simp_all add: n_def m_def)
  then have "fixed_digits 16 6 n
      = fixed_digits 16 2 r @ fixed_digits 16 2 m @ fixed_digits 16 2 n"
    using fixed_digits_split [of 16 4 2 n] fixed_digits_split [of 16 2 2 m] by simp
  also have "fixed_digits 16 2 r = [r div 16, r mod 16]"
    using pair [of r 0] assms by simp
  also have "fixed_digits 16 2 m = [g div 16, g mod 16]"
    using pair [of g r] assms by (simp add: m_def)
  also have "fixed_digits 16 2 n = [b div 16, b mod 16]"
    using pair [of b m] assms by (simp add: n_def)
  finally have "fixed_digits 16 6 n
    = [r div 16, r mod 16] @ [g div 16, g mod 16] @ [b div 16, b mod 16]" .
  moreover have "n = r * 65536 + g * 256 + b" by (simp add: n_def m_def add_mult_distrib)
  ultimately show ?thesis by (simp only: append.simps)
qed

lemma foreground_of_byte:
  "getForegroundColor hex = (case HexToRGB hex of
      RGBArray (Some r) (Some g) (Some b) \<Rightarrow>
        Inr (35 # (if 300 < r + g + b then js ''000000'' else js ''FFFFFF''))
    | _ \<Rightarrow> Inr (35 # js ''FFFFFF''))"
proof -
  have z: "RGBToHex 0 0 0 = Inr (js ''000000'')" and f: "RGBToHex 255 255 255 = Inr (js ''FFFFFF'')"
    using RGBToHex_bytes [of 0 0 0] RGBToHex_bytes [of 255 255 255]
      byte_digits [of 0 0 0] byte_digits [of 255 255 255]
    by (simp_all add: digit_unit_def upper_unit_def del: fixed_digits_zero)
  have "(100 < real_of_int s / 3) = (300 < s)" for s :: int by linarith
  with z f show ?thesis
    by (simp add: getForegroundColor_def Let_def split: rgb.splits option.splits)
qed

lemma rgb_hex_read:
  assumes "0 \<le> r" "r \<le> 255" "0 \<le> g" "g \<le> 255" "0 \<le> b" "b \<le> 255"
  shows "\<exists>h. RGBToHex r g b = Inr h \<and> length h = 6 \<and>
    HexToRGB (35 # h) = RGBArray (Some r) (Some g) (Some b)"
proof -
  let ?u = "\<lambda>d. upper_unit (digit_unit d)"
  have "nat (r * 65536 + g * 256 + b) = nat r * 65536 + nat g * 256 + nat b"
    using assms by (simp add: nat_add_distrib nat_mult_distrib)
  with assms have "RGBToHex r g b = Inr (map ?u [nat r div 16, nat r mod 16, nat g div 16,
      nat g mod 16, nat b div 16, nat b mod 16])"
    using byte_digits [of "nat r" "nat g" "nat b"] by (simp add: RGBToHex_bytes)
  moreover have "parseInt [?u (nat x div 16), ?u (nat x mod 16)] (Some 16) = Some x"
    if "0 \<le> x" "x \<le> 255" for x
    using parse_hex_pair [of "nat x div 16" "nat x mod 16"] that by simp
  ultimately show ?thesis using assms
    by (simp add: HexToRGB_def js_slice_def drop_Cons')
qed

text \<open>Converting three colour components from 0 to 255 with \<open>RGBToHex\<close> gives six
  characters without an exception, and \<open>HexToRGB\<close> of them behind a number sign reads the three
  components back.\<close>

theorem rgb_hex_roundtrip:
  assumes "0 \<le> r" "r \<le> 255" "0 \<le> g" "g \<le> 255" "0 \<le> b" "b \<le> 255"
  shows "\<exists>h. RGBToHex r g b = Inr h \<and> length h = 6 \<and>
    HexToRGB (35 # h) = RGBArray (Some r) (Some g) (Some b)"
  by (rule rgb_hex_read [OF assms])

theorem rgb_hex_roundtrip_witness:
  "\<exists>h. RGBToHex 18 171 255 = Inr h \<and> length h = 6 \<and>
    HexToRGB (35 # h) = RGBArray (Some 18) (Some 171) (Some 255)"
  using rgb_hex_roundtrip [of 18 171 255] by simp

text \<open>\<open>getForegroundColor\<close> of a colour in the short form of four characters is always
  white, also for the short form of white itself, because \<open>HexToRGB\<close> returns an object there
  and an array otherwise; of a long form it is black exactly when the mean component exceeds 100.\<close>

theorem foreground_color_cases:
  "(length hex = 4 \<longrightarrow> getForegroundColor hex = Inr (js ''#FFFFFF'')) \<and>
   (HexToRGB hex = RGBArray (Some r) (Some g) (Some b) \<longrightarrow>
     getForegroundColor hex = Inr (if 300 < r + g + b then js ''#000000'' else js ''#FFFFFF''))"
  by (simp add: foreground_of_byte HexToRGB_def fullHex_def Let_def)

theorem foreground_color_cases_witness:
  "getForegroundColor (js ''#fff'') = Inr (js ''#FFFFFF'') \<and>
   getForegroundColor (js ''#ffffff'') = Inr (js ''#000000'')"
proof -
  have "HexToRGB (js ''#ffffff'') = RGBArray (Some 255) (Some 255) (Some 255)"
    by (simp add: HexToRGB_def js_slice_def parseInt_def is_space_def is_digit_of_def
        digit_value_def num_of_digits_def)
  with foreground_color_cases [of "js ''#ffffff''" 255 255 255]
    foreground_color_cases [of "js ''#fff''" 0 0 0]
  show ?thesis by simp
qed

text \<open>\<open>isValidHexaCode\<close> accepts every string of four or seven characters that begins
  with a number sign, whatever the other characters are.\<close>

theorem valid_hexa_accepts_any:
  "isValidHexaCode str \<longleftrightarrow> (\<exists>rest. str = 35 # rest \<and> (length rest = 3 \<or> length rest = 6))"
proof -
  have "list_all (\<lambda>c. (c \<le> 48 \<and> c \<le> 9) \<or> (c \<ge> 97 \<and> c \<le> 102) \<or> (c \<ge> 65 \<or> c \<le> 70)) xs"
    for xs :: "nat list"
    by (induction xs) auto
  then show ?thesis
    by (cases str) (auto simp: isValidHexaCode_def js_get_def)
qed

section \<open>Sizes\<close>

text \<open>With positive window sizes \<open>getSizeMultiplier\<close> is a finite factor of at least 1 that
  scales both window dimensions to at least the minimum.\<close>

theorem size_multiplier_sufficient:
  assumes "0 < innerWidth" "0 < innerHeight"
  shows "\<exists>m. getSizeMultiplier innerWidth innerHeight min_size = Fin m \<and> 1 \<le> m \<and>
    min_size \<le> innerWidth * m \<and> min_size \<le> innerHeight * m"
proof -
  define m where "m = (if innerWidth < min_size then min_size / innerWidth else 1)"
  have m: "1 \<le> m" "min_size \<le> innerWidth * m"
    using assms by (auto simp: m_def field_simps)
  have g: "getSizeMultiplier innerWidth innerHeight min_size
      = Fin (if innerHeight * m < min_size then min_size / innerHeight else m)"
    using assms by (auto simp: getSizeMultiplier_def Let_def js_div_def m_def)
  show ?thesis
  proof (cases "innerHeight * m < min_size")
    case True
    then have "m < min_size / innerHeight" using assms by (simp add: field_simps)
    moreover from this have "innerWidth * m \<le> innerWidth * (min_size / innerHeight)"
      using assms by (intro mult_left_mono) auto
    moreover have "1 \<le> min_size / innerHeight" using calculation(1) m(1) by linarith
    moreover have "innerHeight * (min_size / innerHeight) = min_size" using assms by simp
    ultimately show ?thesis using g m(2) True by auto
  next
    case False
    with g m show ?thesis by simp
  qed
qed

theorem size_multiplier_sufficient_witness:
  "\<exists>m. getSizeMultiplier 800 400 1000 = Fin m \<and> 1 \<le> m \<and> 1000 \<le> 800 * m \<and> 1000 \<le> 400 * m"
  using size_multiplier_sufficient [of 800 400 1000] by simp

section \<open>Money\<close>

definition decimal :: "jsstring \<Rightarrow> bool" where
  "decimal s \<longleftrightarrow> (\<forall>c \<in> set s. 48 \<le> c \<and> c \<le> 57)"

lemma decimal_append [simp]: "decimal (xs @ ys) \<longleftrightarrow> decimal xs \<and> decimal ys"
  by (auto simp: decimal_def)

lemma decimal_Cons [simp]: "decimal (c # ys) \<longleftrightarrow> 48 \<le> c \<and> c \<le> 57 \<and> decimal ys"
  by (auto simp: decimal_def)

lemma decimal_Nil [simp]: "decimal []"
  by (simp add: decimal_def)

lemma decimal_replicate [simp]: "decimal (replicate n 48)"
  by (auto simp: decimal_def)

lemma decimal_not_in: "decimal s \<Longrightarrow> c < 48 \<Longrightarrow> c \<notin> set s"
  by (auto simp: decimal_def)

lemma decimal_take_drop: "decimal s \<Longrightarrow> decimal (take n s) \<and> decimal (drop n s)"
  by (auto simp: decimal_def dest: in_set_takeD in_set_dropD)

lemma decimal_nat_to_string [simp]: "decimal (nat_to_string 10 n)"
  using nat_to_string_decimal by (auto simp: decimal_def)

lemma decimal_digit: "48 \<le> c \<Longrightarrow> c \<le> 57 \<Longrightarrow> is_digit_of 10 c \<and> \<not> is_space c"
  by (auto simp: is_digit_of_def digit_value_def is_space_def)

lemma takeWhile_decimal: "decimal s \<Longrightarrow> takeWhile (is_digit_of 10) s = s"
  by (induction s) (auto dest: decimal_digit)

lemma no_hex_prefix:
  "decimal s \<Longrightarrow> (case s of a # b # _ \<Rightarrow> a = (48::nat) \<and> (b = 120 \<or> b = 88) | _ \<Rightarrow> False) = False"
  by (auto split: list.splits)

lemma parseInt_decimal:
  assumes "decimal s" "s \<noteq> []"
  shows "parseInt s None = Some (int (num_of_digits 10 s))"
    and "parseInt (45 # s) None = Some (- int (num_of_digits 10 s))"
proof -
  obtain c cs where s: "s = c # cs" using assms(2) by (cases s) auto
  have c: "48 \<le> c" "c \<le> 57" using assms(1) s by auto
  then have d: "dropWhile is_space s = s" "dropWhile is_space (45 # s) = 45 # s"
    using decimal_digit [of c] by (auto simp: s is_space_def)
  have sgn: "c \<noteq> 45" "c \<noteq> 43" using c by auto
  have hp: "\<not> (case cs of [] \<Rightarrow> False | b # x \<Rightarrow> c = 48 \<and> (b = 120 \<or> b = 88))"
    using assms(1) by (auto simp: s split: list.splits)
  show "parseInt s None = Some (int (num_of_digits 10 s))"
    unfolding parseInt_def Let_def d(1)
    using assms sgn hp by (simp add: s takeWhile_decimal del: takeWhile.simps)
  show "parseInt (45 # s) None = Some (- int (num_of_digits 10 s))"
    unfolding parseInt_def Let_def d(2)
    using assms hp by (simp add: s takeWhile_decimal del: takeWhile.simps)
qed

lemma parseInt_int_to_string: "parseInt (int_to_string n) None = Some n"
  by (simp add: int_to_string_def parseInt_decimal num_of_nat_to_string)

lemma pad_cents_eq: "pad_cents s = replicate (3 - length s) 48 @ s"
proof (induction s rule: pad_cents.induct)
  case (1 s)
  show ?case
  proof (cases "length s < 3")
    case True
    then have "3 - length s = Suc (2 - length s)" by simp
    with 1 True show ?thesis
      by (simp add: pad_cents.simps [of s] replicate_append_same [symmetric])
  next
    case False
    then show ?thesis by (simp add: pad_cents.simps [of s])
  qed
qed

lemma num_of_padded: "num_of_digits r (replicate k 48 @ s) = num_of_digits r s"
  by (induction k) (simp_all add: num_of_digits_zero)

lemma group_thousands_aux:
  assumes "46 \<notin> set s"
  shows "3 * n < length s \<Longrightarrow>
    js_remove_all 46 (fold (\<lambda>i acc. 46 # js_substr s (int (length s) - (int i + 1) * 3) 3 @ acc)
      [0..<n] []) = drop (length s - 3 * n) s"
proof (induction n)
  case 0
  then show ?case by simp
next
  case (Suc n)
  let ?k = "length s - 3 * Suc n"
  have k: "nat (int (length s) - (int n + 1) * 3) = ?k" using Suc.prems by simp
  have "js_substr s (int (length s) - (int n + 1) * 3) 3 = take 3 (drop ?k s)"
    using Suc.prems unfolding js_substr_def k [symmetric] by simp
  moreover have "46 \<notin> set (take 3 (drop ?k s))"
    using assms by (auto dest: in_set_takeD in_set_dropD)
  moreover have "take 3 (drop ?k s) @ drop (length s - 3 * n) s = drop ?k s"
  proof -
    have "drop (length s - 3 * n) s = drop 3 (drop ?k s)" using Suc.prems by simp
    then show ?thesis by (simp only: append_take_drop_id)
  qed
  ultimately show ?case using Suc by simp
qed

lemma group_thousands_digits:
  assumes "46 \<notin> set s" "s \<noteq> []"
  shows "js_remove_all 46 (group_thousands s) = drop (length s - 3 * ((length s - 1) div 3)) s"
proof -
  have "3 * ((length s - 1) div 3) < length s" using assms(2) by (cases s) auto
  from group_thousands_aux [OF assms(1) this] show ?thesis
    by (simp add: group_thousands_def)
qed

lemma group_thousands_set: "c \<in> set (group_thousands s) \<Longrightarrow> c = 46 \<or> c \<in> set s"
proof -
  have "c \<in> set (fold (\<lambda>i acc. 46 # js_substr s (int (length s) - (int i + 1) * 3) 3 @ acc) is a)
     \<Longrightarrow> c = 46 \<or> c \<in> set s \<or> c \<in> set a" for "is" and a :: jsstring
  proof (induction "is" arbitrary: a)
    case Nil
    then show ?case by simp
  next
    case (Cons i "is")
    from Cons.prems Cons.IH show ?case
      by (fastforce simp: js_substr_def dest: in_set_takeD in_set_dropD)
  qed
  from this [of _ "[]"] show "c \<in> set (group_thousands s) \<Longrightarrow> c = 46 \<or> c \<in> set s"
    unfolding group_thousands_def by fastforce
qed

text \<open>The text of an amount: its padded digits split before the last two, with dots between
  groups that carry no information.\<close>

lemma centToEuros_digits:
  assumes "decimal d" "d \<noteq> []"
  shows "\<exists>pre L. centToEuros_text d = pre @ 44 # L \<and> length L = 2 \<and> 44 \<notin> set pre \<and>
    js_remove_all 46 (pre @ 44 # L) = (let p = pad_cents d in take (length p - 2) p @ 44 # L) \<and>
    L = drop (length (pad_cents d) - 2) (pad_cents d) \<and> js_get (pre @ 44 # L) 0 \<noteq> Some 45
    \<and> centToEuros_text (45 # d) = 45 # pre @ 44 # L"
proof -
  define p where "p = pad_cents d"
  have len: "3 \<le> length p" and dec: "decimal p"
    using assms by (simp_all add: p_def pad_cents_eq)
  define F where "F = take (length p - 2) p"
  define L where "L = drop (length p - 2) p"
  have F: "decimal F" "F \<noteq> []" and L: "decimal L" "length L = 2"
    using dec len decimal_take_drop [of p "length p - 2"] by (auto simp: F_def L_def)
  have nF: "46 \<notin> set F" "44 \<notin> set F" "45 \<notin> set F" and nL: "46 \<notin> set L"
    using decimal_not_in F(1) L(1) by simp_all
  define k where "k = (if length F mod 3 \<noteq> 0 then length F mod 3 else 3)"
  have k: "k = length F - 3 * ((length F - 1) div 3)" "0 < k"
  proof -
    obtain m where m: "length F = Suc m" using F(2) by (cases F) auto
    have "(if Suc m mod 3 \<noteq> 0 then Suc m mod 3 else 3) = Suc m - 3 * (m div 3)" by presburger
    then show "k = length F - 3 * ((length F - 1) div 3)" by (simp only: k_def m diff_Suc_1)
    show "0 < k" by (simp add: k_def)
  qed
  define pre where "pre = take k F @ group_thousands F"
  have sub: "js_substr p 0 (length p - 2) = F" "js_substr p (- 2) (length p) = L"
    using len by (simp_all add: js_substr_def F_def L_def nat_diff_distrib')
  have dpos: "js_get d 0 \<noteq> Some 45" "js_get d 0 \<noteq> None"
    using assms by (cases d; auto simp: js_get_def)+
  have fr: "js_substr F 0 (length F mod 3) = take (length F mod 3) F" "js_substr F 0 3 = take 3 F"
    by (simp_all add: js_substr_def)
  have pos: "centToEuros_text d = pre @ 44 # L"
    using dpos(1) by (simp add: centToEuros_text_def Let_def p_def [symmetric] sub fr pre_def k_def)
  have neg: "centToEuros_text (45 # d) = 45 # pre @ 44 # L"
    by (simp add: centToEuros_text_def Let_def js_get_def js_substr_def [of "45 # d"]
        p_def [symmetric] sub fr pre_def k_def)
  have npre: "44 \<notin> set pre"
    using nF(2) group_thousands_set [of 44 F] by (auto simp: pre_def dest: in_set_takeD)
  have "js_remove_all 46 (take k F) = take k F"
    using nF(1) by (intro js_remove_all_id) (auto dest: in_set_takeD)
  moreover have "js_remove_all 46 (group_thousands F) = drop k F"
    using group_thousands_digits [OF nF(1) F(2)] by (simp only: k(1) [symmetric])
  ultimately have "js_remove_all 46 pre = take k F @ drop k F"
    by (simp only: pre_def js_remove_all_append)
  then have "js_remove_all 46 (pre @ 44 # L) = F @ 44 # L" using nL by simp
  moreover have "js_get (pre @ 44 # L) 0 \<noteq> Some 45"
    using F k(2) by (cases F; cases k) (auto simp: js_get_def pre_def)
  ultimately show ?thesis using pos neg npre L
    by (intro exI [of _ pre] exI [of _ L]) (simp add: p_def [symmetric] F_def L_def Let_def)
qed

text \<open>C37: \<open>eurosToCent\<close> reads back the amount that \<open>centToEuros\<close> wrote, for every amount of
  cents that a JavaScript number represents exactly.\<close>

theorem cents_euros_roundtrip:
  assumes "\<bar>c\<bar> \<le> 9007199254740991"
  shows "eurosToCent (centToEuros c) = Some c"
proof -
  define d where "d = nat_to_string 10 (nat \<bar>c\<bar>)"
  define p where "p = pad_cents d"
  obtain pre L where pL: "centToEuros_text d = pre @ 44 # L" "length L = 2" "44 \<notin> set pre"
    "js_remove_all 46 (pre @ 44 # L) = take (length p - 2) p @ 44 # L"
    "L = drop (length p - 2) p" "js_get (pre @ 44 # L) 0 \<noteq> Some 45"
    "centToEuros_text (45 # d) = 45 # pre @ 44 # L"
    using centToEuros_digits [of d] by (auto simp: d_def p_def Let_def)
  have dp: "decimal p" "p \<noteq> []" by (simp_all add: p_def d_def pad_cents_eq)
  have n44: "44 \<notin> set (take (length p - 2) p)" "44 \<notin> set L"
    using decimal_take_drop [OF dp(1)] decimal_not_in pL(5) by auto
  have rm: "js_remove_all 44 (take (length p - 2) p @ 44 # L) = p"
    using n44 pL(5) by simp
  have val: "parseInt p None = Some \<bar>c\<bar>"
    using dp by (simp add: parseInt_decimal p_def pad_cents_eq num_of_padded d_def
        num_of_nat_to_string)
  have "45 \<notin> set (take (length p - 2) p @ 44 # L)"
    using decimal_take_drop [OF dp(1)] decimal_not_in pL(5) by auto
  then have first: "js_get (take (length p - 2) p @ 44 # L) 0 \<noteq> Some 45"
    by (auto dest: js_get_in)
  show ?thesis
  proof (cases "c < 0")
    case False
    then have "centToEuros c = pre @ 44 # L"
      using pL(1) by (simp add: centToEuros_def int_to_string_def d_def)
    with False show ?thesis
      using pL first rm val js_indexOf_append [OF pL(3), of L]
      by (simp add: eurosToCent_def Let_def parseInt_int_to_string)
  next
    case True
    then have "centToEuros c = 45 # pre @ 44 # L"
      using pL(7) by (simp add: centToEuros_def int_to_string_def d_def)
    moreover have "js_indexOf (45 # pre @ 44 # L) 44 = Some (Suc (length pre))"
      using js_indexOf_append [OF pL(3), of L] by simp
    moreover have "parseInt (45 # int_to_string \<bar>c\<bar>) None = Some c"
      using True by (simp add: int_to_string_def parseInt_decimal num_of_nat_to_string)
    ultimately show ?thesis
      using pL rm val
      by (simp add: eurosToCent_def Let_def js_get_def js_substr_def)
  qed
qed

theorem cents_euros_roundtrip_witness:
  "eurosToCent (centToEuros (- 123456789)) = Some (- 123456789)"
  using cents_euros_roundtrip [of "- 123456789"] by simp

section \<open>Line breaking\<close>

abbreviation unspaced :: "jsstring \<Rightarrow> jsstring" where
  "unspaced \<equiv> js_remove_all 32"

lemma break_letters_content:
  assumes "fold (break_letter mt w) word (ls, cur, lw) = (ls', cur', lw')"
  shows "concat ls' @ cur' = concat ls @ cur @ word"
  using assms
proof (induction word arbitrary: ls cur lw)
  case Nil
  then show ?case by simp
next
  case (Cons c word)
  then show ?case
    by (auto simp: break_letter_def Let_def split: if_splits dest!: Cons.IH)
qed

lemma break_word_content:
  assumes "break_word mt w word (ls, cur) = (ls', cur')" "32 \<notin> set word"
  shows "unspaced (concat ls' @ cur') = unspaced (concat ls @ cur) @ word"
proof (cases "mt word > w")
  case True
  define ls1 where "ls1 = (if length cur > 0 then ls @ [cur] else ls)"
  obtain ls2 cur2 lw where f: "fold (break_letter mt w) word (ls1, [], 0) = (ls2, cur2, lw)"
    by (cases "fold (break_letter mt w) word (ls1, [], 0)") auto
  from break_letters_content [OF f] have "concat ls2 @ cur2 = concat ls @ cur @ word"
    by (auto simp: ls1_def)
  then have "unspaced (concat ls2) @ unspaced cur2 = unspaced (concat ls) @ unspaced cur @ word"
    using assms(2) by (metis js_remove_all_append js_remove_all_id)
  with True f assms(1) show ?thesis
    by (auto simp: break_word_def Let_def ls1_def)
next
  case False
  with assms show ?thesis by (auto simp: break_word_def Let_def split: if_splits)
qed

lemma break_words_content:
  assumes "fold (break_word mt w) words (ls, cur) = (ls', cur')"
    "\<And>p. p \<in> set words \<Longrightarrow> 32 \<notin> set p"
  shows "unspaced (concat ls' @ cur') = unspaced (concat ls @ cur) @ concat words"
  using assms
proof (induction words arbitrary: ls cur)
  case Nil
  then show ?case by simp
next
  case (Cons p words)
  obtain ls1 cur1 where b: "break_word mt w p (ls, cur) = (ls1, cur1)"
    by (cases "break_word mt w p (ls, cur)")
  with Cons.prems Cons.IH [of ls1 cur1] break_word_content [OF b]
  show ?case by simp
qed

lemma concat_split_unspaced: "concat (js_split 32 s) = unspaced s"
proof (induction s)
  case Nil
  then show ?case by simp
next
  case (Cons c s)
  then show ?case by (auto split: list.splits)
qed

text \<open>\<open>autoLineBreak\<close> neither loses nor invents text: whatever the font measures, the lines
  put one after the other are the text, blanks aside.\<close>

theorem autoLineBreak_content:
  "unspaced (concat (autoLineBreak mt text maxWidth)) = unspaced text"
proof -
  obtain ls cur where f: "fold (break_word mt maxWidth) (js_split 32 text) ([], []) = (ls, cur)"
    by (cases "fold (break_word mt maxWidth) (js_split 32 text) ([], [])")
  from break_words_content [OF f js_split_parts]
  have c: "unspaced (concat ls) @ unspaced cur = unspaced text"
    by (simp add: concat_split_unspaced)
  have last: "unspaced (js_substr cur 0 (length cur - 1)) = unspaced cur"
    if "cur \<noteq> []" "last cur = 32"
  proof -
    have "cur = butlast cur @ [32]" using that by (metis append_butlast_last_id)
    then have "unspaced cur = unspaced (butlast cur) @ unspaced [32]"
      by (metis js_remove_all_append)
    then show ?thesis by (simp add: js_substr_def butlast_conv_take)
  qed
  show ?thesis
    using f c last by (auto simp: autoLineBreak_def Let_def)
qed

text \<open>The text of a line without the blank that the word breaker appends.\<close>

definition strip_blank :: "jsstring \<Rightarrow> jsstring" where
  "strip_blank s = (if s \<noteq> [] \<and> last s = 32 then butlast s else s)"

definition additive_width :: "(jsstring \<Rightarrow> real) \<Rightarrow> bool" where
  "additive_width mt \<longleftrightarrow> (\<forall>s t. mt (s @ t) = mt s + mt t) \<and> (\<forall>s. 0 \<le> mt s)"

lemma additive_width_Nil: "additive_width mt \<Longrightarrow> mt [] = 0"
  unfolding additive_width_def by (metis add_cancel_right_left append_Nil2)

lemma strip_blank_width: "additive_width mt \<Longrightarrow> mt (strip_blank s) \<le> mt s"
proof (cases "s \<noteq> [] \<and> last s = 32")
  case True
  assume a: "additive_width mt"
  have "mt s = mt (butlast s) + mt [32]"
    using a True unfolding additive_width_def by (metis append_butlast_last_id)
  with a True show ?thesis by (auto simp: strip_blank_def additive_width_def)
qed (auto simp: strip_blank_def)

lemma strip_blank_snoc: "strip_blank (s @ [32]) = s"
  by (simp add: strip_blank_def)

lemma break_letters_width:
  assumes mt: "additive_width mt" and w: "\<And>c. c \<in> set word \<Longrightarrow> mt [c] \<le> w"
    and st: "mt cur = lw" "lw \<le> w" "\<forall>l \<in> set ls. mt (strip_blank l) \<le> w"
    and f: "fold (break_letter mt w) word (ls, cur, lw) = (ls', cur', lw')"
  shows "mt cur' \<le> w \<and> (\<forall>l \<in> set ls'. mt (strip_blank l) \<le> w)"
  using w st f
proof (induction word arbitrary: ls cur lw)
  case Nil
  then show ?case by simp
next
  case (Cons c word)
  define fits where "fits \<longleftrightarrow> \<not> lw + mt [c] > w"
  define cur1 where "cur1 = (if fits then cur else []) @ [c]"
  define ls1 where "ls1 = (if fits then ls else ls @ [cur])"
  define lw1 where "lw1 = (if fits then lw else 0) + mt [c]"
  have step: "break_letter mt w c (ls, cur, lw) = (ls1, cur1, lw1)"
    by (auto simp: break_letter_def Let_def fits_def cur1_def ls1_def lw1_def)
  have "mt cur1 = lw1"
    using mt Cons.prems(2) additive_width_Nil [OF mt]
    by (auto simp: cur1_def lw1_def additive_width_def)
  moreover have "lw1 \<le> w" using Cons.prems(1) [of c] by (auto simp: lw1_def fits_def)
  moreover have "\<forall>l \<in> set ls1. mt (strip_blank l) \<le> w"
    using Cons.prems(2-4) strip_blank_width [OF mt, of cur] by (auto simp: ls1_def)
  ultimately show ?case
    using Cons.IH [of cur1 lw1 ls1] Cons.prems(1,5) step by simp
qed

lemma break_word_width:
  assumes mt: "additive_width mt" and w: "0 \<le> w" "\<And>c. c \<in> set word \<Longrightarrow> mt [c] \<le> w"
    and st: "mt (strip_blank cur) \<le> w" "\<forall>l \<in> set ls. mt (strip_blank l) \<le> w"
    and b: "break_word mt w word (ls, cur) = (ls', cur')"
  shows "mt (strip_blank cur') \<le> w \<and> (\<forall>l \<in> set ls'. mt (strip_blank l) \<le> w)"
proof (cases "mt word > w")
  case True
  define ls1 where "ls1 = (if length cur > 0 then ls @ [cur] else ls)"
  obtain ls2 cur2 lw where f: "fold (break_letter mt w) word (ls1, [], 0) = (ls2, cur2, lw)"
    by (cases "fold (break_letter mt w) word (ls1, [], 0)") auto
  have "\<forall>l \<in> set ls1. mt (strip_blank l) \<le> w" using st by (auto simp: ls1_def)
  from break_letters_width [OF mt w(2) _ w(1) this f]
  have "mt cur2 \<le> w \<and> (\<forall>l \<in> set ls2. mt (strip_blank l) \<le> w)"
    by (simp add: additive_width_Nil [OF mt])
  moreover from True f b have "ls' = ls2" "cur' = cur2 @ [32]"
    by (simp_all add: break_word_def Let_def ls1_def)
  ultimately show ?thesis by (simp add: strip_blank_snoc)
next
  case False
  show ?thesis
  proof (cases "mt (cur @ word) > w")
    case True
    with b False have "ls' = ls @ [cur]" "cur' = word @ [32]"
      by (simp_all add: break_word_def Let_def)
    with st False show ?thesis by (auto simp: strip_blank_snoc)
  next
    case fits: False
    with b False have "ls' = ls" "cur' = (cur @ word) @ [32]"
      by (simp_all add: break_word_def Let_def)
    with st(2) fits show ?thesis by (simp only: strip_blank_snoc) simp
  qed
qed

lemma break_words_width:
  assumes mt: "additive_width mt" and w: "0 \<le> w"
    and ws: "\<And>p c. p \<in> set words \<Longrightarrow> c \<in> set p \<Longrightarrow> mt [c] \<le> w"
    and st: "mt (strip_blank cur) \<le> w" "\<forall>l \<in> set ls. mt (strip_blank l) \<le> w"
    and f: "fold (break_word mt w) words (ls, cur) = (ls', cur')"
  shows "mt (strip_blank cur') \<le> w \<and> (\<forall>l \<in> set ls'. mt (strip_blank l) \<le> w)"
  using ws st f
proof (induction words arbitrary: ls cur)
  case Nil
  then show ?case by simp
next
  case (Cons p words)
  obtain ls1 cur1 where b: "break_word mt w p (ls, cur) = (ls1, cur1)"
    by (cases "break_word mt w p (ls, cur)")
  have "mt (strip_blank cur1) \<le> w \<and> (\<forall>l \<in> set ls1. mt (strip_blank l) \<le> w)"
    by (rule break_word_width [OF mt w _ _ _ b]) (use Cons.prems(1-3) in auto)
  moreover have "fold (break_word mt w) words (ls1, cur1) = (ls', cur')"
    using Cons.prems(4) b by simp
  moreover have "mt [c] \<le> w" if "q \<in> set words" "c \<in> set q" for q c
    using Cons.prems(1) [of q c] that by simp
  ultimately show ?case using Cons.IH [of cur1 ls1] by blast
qed

lemma set_js_split: "p \<in> set (js_split c s) \<Longrightarrow> set p \<subseteq> set s"
proof (induction s arbitrary: p)
  case Nil
  then show ?case by simp
next
  case (Cons x xs)
  then show ?case by (fastforce split: if_splits list.splits)
qed

text \<open>With a font whose widths add up, and a maximal width that every single character of
  the text fits, no line that \<open>autoLineBreak\<close> returns is wider than the maximal width, the blank
  that may end a line aside.\<close>

theorem autoLineBreak_width:
  assumes "additive_width mt" "0 \<le> maxWidth" "\<And>c. c \<in> set text \<Longrightarrow> mt [c] \<le> maxWidth"
    and "line \<in> set (autoLineBreak mt text maxWidth)"
  shows "mt (strip_blank line) \<le> maxWidth"
proof -
  obtain ls cur where f: "fold (break_word mt maxWidth) (js_split 32 text) ([], []) = (ls, cur)"
    by (cases "fold (break_word mt maxWidth) (js_split 32 text) ([], [])")
  have "mt (strip_blank cur) \<le> maxWidth \<and> (\<forall>l \<in> set ls. mt (strip_blank l) \<le> maxWidth)"
    using assms(2,3) set_js_split
    by (intro break_words_width [OF assms(1,2) _ _ _ f])
      (fastforce simp: strip_blank_def additive_width_Nil [OF assms(1)])+
  moreover have "mt (strip_blank (js_substr cur 0 (length cur - 1))) \<le> mt (strip_blank cur)"
    if "cur \<noteq> []" "last cur = 32"
    using strip_blank_width [OF assms(1), of "butlast cur"] that
    by (simp add: strip_blank_def [of cur] js_substr_def butlast_conv_take)
  ultimately show ?thesis
    using assms(4) f by (force simp: autoLineBreak_def Let_def split: if_splits)
qed

theorem autoLineBreak_width_witness:
  "real (length (strip_blank (hd (autoLineBreak (\<lambda>s. real (length s)) (js ''one three'') 5)))) \<le> 5"
proof -
  have "hd (autoLineBreak (\<lambda>s. real (length s)) (js ''one three'') 5)
      \<in> set (autoLineBreak (\<lambda>s. real (length s)) (js ''one three'') 5)"
    by (rule hd_in_set) (simp add: autoLineBreak_def break_word_def Let_def split_beta)
  then show ?thesis
    using autoLineBreak_width [of "\<lambda>s. real (length s)" 5 "js ''one three''"]
    by (simp add: additive_width_def)
qed

end
