(* ===== verification/Widgets.thy ===== *)
theory Widgets
  imports CanvasHelpers
begin

text \<open>
  What the widget classes of \<open>canvasuijs\<close> share: the events a handler causes outside its own
  object, loops over the array of a class that update its elements, hit tests, the drawing of
  an element's label, and the interface of a collection of named elements that every class
  offers to \<open>UIView\<close>.

  A handler runs to completion before the next event, and a callback is recorded, with its
  data, as an event at the place where the code calls it. The code that owns the callback then
  says what the callback does.
\<close>

section \<open>Events and loops\<close>

datatype 'cb ui_event =
    Callback 'cb
  | Repaint                 \<comment> \<open>\<open>triggerRepaint()\<close>\<close>
  | PreventDefault
  | OpenUpload              \<comment> \<open>\<open>$("#upload").trigger('click')\<close>\<close>
  | ReadFile 'cb            \<comment> \<open>a \<open>FileReader\<close> that calls back with the file it read\<close>
  | SetCursor jsstring      \<comment> \<open>\<open>$(canvas).css('cursor', ..)\<close>\<close>

text \<open>The callbacks among the events, in the order they are called.\<close>

definition callbacks :: "'cb ui_event list \<Rightarrow> 'cb list" where
  "callbacks evs = concat (map (\<lambda>e. case e of Callback c \<Rightarrow> [c] | _ \<Rightarrow> []) evs)"

lemma callbacks_simps [simp]:
  "callbacks [] = []" "callbacks (xs @ ys) = callbacks xs @ callbacks ys"
  "callbacks (Callback c # xs) = c # callbacks xs" "callbacks (Repaint # xs) = callbacks xs"
  "callbacks (OpenUpload # xs) = callbacks xs" "callbacks (PreventDefault # xs) = callbacks xs"
  "callbacks (SetCursor s # xs) = callbacks xs" "callbacks (ReadFile r # xs) = callbacks xs"
  by (simp_all add: callbacks_def)

lemma callbacks_concat: "callbacks (concat ess) = concat (map callbacks ess)"
  by (induction ess) simp_all

text \<open>\<open>for (i in xs)\<close> with a body that updates element \<open>i\<close> and a state, and the same loop
  with a body that may return.\<close>

fun for_each :: "(nat \<Rightarrow> 'a \<Rightarrow> 's \<Rightarrow> 'a \<times> 's) \<Rightarrow> nat \<Rightarrow> 'a list \<Rightarrow> 's \<Rightarrow> 'a list \<times> 's" where
  "for_each f i [] s = ([], s)"
| "for_each f i (x # xs) s =
     (let (x', s') = f i x s; (xs', s'') = for_each f (Suc i) xs s' in (x' # xs', s''))"

fun for_until ::
  "(nat \<Rightarrow> 'a \<Rightarrow> 's \<Rightarrow> 'a \<times> 's \<times> bool) \<Rightarrow> nat \<Rightarrow> 'a list \<Rightarrow> 's \<Rightarrow> 'a list \<times> 's \<times> bool" where
  "for_until f i [] s = ([], s, False)"
| "for_until f i (x # xs) s =
     (let (x', s', stop) = f i x s
      in if stop then (x' # xs, s', True)
         else (let (xs', s'', b) = for_until f (Suc i) xs s' in (x' # xs', s'', b)))"

text \<open>A loop whose body may never end, which is \<open>None\<close>.\<close>

fun for_each_opt ::
  "(nat \<Rightarrow> 'a \<Rightarrow> 's \<Rightarrow> ('a \<times> 's) option) \<Rightarrow> nat \<Rightarrow> 'a list \<Rightarrow> 's \<Rightarrow> ('a list \<times> 's) option" where
  "for_each_opt f i [] s = Some ([], s)"
| "for_each_opt f i (x # xs) s =
     (case f i x s of
        None \<Rightarrow> None
      | Some (x', s') \<Rightarrow>
          (case for_each_opt f (Suc i) xs s' of
             None \<Rightarrow> None
           | Some (xs', s'') \<Rightarrow> Some (x' # xs', s'')))"

lemma case_opt_total:
  "x \<noteq> None \<Longrightarrow> (\<And>y. h y \<noteq> None) \<Longrightarrow> (case x of None \<Rightarrow> None | Some y \<Rightarrow> h y) \<noteq> None"
  by (cases x) simp_all

lemma for_each_opt_total:
  "(\<And>i x s. x \<in> set xs \<Longrightarrow> f i x s \<noteq> None) \<Longrightarrow> for_each_opt f i xs s \<noteq> None"
proof (induction xs arbitrary: i s)
  case Nil
  then show ?case by simp
next
  case (Cons x xs)
  obtain x' s' where "f i x s = Some (x', s')" using Cons.prems [of x i s] by auto
  moreover have "for_each_opt f (Suc i) xs s' \<noteq> None" using Cons by simp
  ultimately show ?case by auto
qed

lemma for_each_opt_state:
  assumes "\<And>s. R s s" "\<And>a b c. R a b \<Longrightarrow> R b c \<Longrightarrow> R a c"
    "\<And>i x s x' s'. f i x s = Some (x', s') \<Longrightarrow> R s s'"
  shows "for_each_opt f i xs s = Some (xs', s') \<Longrightarrow> R s s'"
proof (induction xs arbitrary: i s xs')
  case Nil
  then show ?case using assms(1) by simp
next
  case (Cons x xs)
  obtain x1 s1 where f: "f i x s = Some (x1, s1)"
    using Cons.prems by (auto split: option.splits)
  then obtain xs1 where r: "for_each_opt f (Suc i) xs s1 = Some (xs1, s')"
    using Cons.prems by (auto split: option.splits)
  show ?case using assms(2) [OF assms(3) [OF f] Cons.IH [OF r]] .
qed

lemma for_each_opt_map:
  assumes "\<And>i x s x' s'. f i x s = Some (x', s') \<Longrightarrow> g x' = g x"
  shows "for_each_opt f i xs s = Some (xs', s') \<Longrightarrow> map g xs' = map g xs"
proof (induction xs arbitrary: i s xs')
  case Nil
  then show ?case by simp
next
  case (Cons x xs)
  obtain x1 s1 where f: "f i x s = Some (x1, s1)"
    using Cons.prems by (auto split: option.splits)
  then obtain xs1 where r: "for_each_opt f (Suc i) xs s1 = Some (xs1, s')" "xs' = x1 # xs1"
    using Cons.prems by (auto split: option.splits)
  then show ?case using assms [OF f] Cons.IH [OF r(1)] by simp
qed

lemma for_each_length [simp]: "length (fst (for_each f i xs s)) = length xs"
  by (induction xs arbitrary: i s) (auto split: prod.splits simp: Let_def, metis fst_conv)

lemma for_until_length [simp]: "length (fst (for_until f i xs s)) = length xs"
  by (induction xs arbitrary: i s) (auto split: prod.splits simp: Let_def, metis fst_conv)

lemma for_each_callbacks:
  assumes "\<And>i d evs. callbacks (snd (f i d evs)) = callbacks evs @ g i d"
  shows "callbacks (snd (for_each f i ds evs)) =
    callbacks evs @ concat (map (\<lambda>(i, d). g i d) (enumerate i ds))"
proof (induction ds arbitrary: i evs)
  case Nil
  then show ?case by simp
next
  case (Cons d ds)
  show ?case using Cons [of "Suc i" "snd (f i d evs)"] assms [of i d evs]
    by (simp add: split_beta Let_def)
qed

text \<open>A property of elements that the body keeps holds of every element afterwards.\<close>

lemma for_each_inv:
  assumes "\<And>i x s. P x \<Longrightarrow> P (fst (f i x s))" "\<forall>x \<in> set xs. P x"
  shows "\<forall>x \<in> set (fst (for_each f i xs s)). P x"
  using assms(2)
proof (induction xs arbitrary: i s)
  case Nil
  then show ?case by simp
next
  case (Cons x xs)
  obtain x' s' where f: "f i x s = (x', s')" by (cases "f i x s")
  obtain xs' s'' where r: "for_each f (Suc i) xs s' = (xs', s'')"
    by (cases "for_each f (Suc i) xs s'")
  have "P x'" using assms(1) [of x i s] Cons.prems f by simp
  moreover have "\<forall>y \<in> set xs'. P y" using Cons.IH [of "Suc i" s'] Cons.prems r by simp
  ultimately show ?case by (simp add: f r)
qed

lemma for_until_inv:
  assumes "\<And>i x s. P x \<Longrightarrow> P (fst (f i x s))" "\<forall>x \<in> set xs. P x"
  shows "\<forall>x \<in> set (fst (for_until f i xs s)). P x"
  using assms(2)
proof (induction xs arbitrary: i s)
  case Nil
  then show ?case by simp
next
  case (Cons x xs)
  obtain x' s' b where f: "f i x s = (x', s', b)" by (cases "f i x s") auto
  obtain xs' s'' b' where r: "for_until f (Suc i) xs s' = (xs', s'', b')"
    by (cases "for_until f (Suc i) xs s'") auto
  have "P x'" using assms(1) [of x i s] Cons.prems f by simp
  moreover have "\<forall>y \<in> set xs'. P y" using Cons.IH [of "Suc i" s'] Cons.prems r by simp
  ultimately show ?case using Cons.prems by (auto simp: f r)
qed

text \<open>A relation of the state to itself that every step of a loop respects.\<close>

lemma for_each_state:
  assumes "\<And>s. R s s" "\<And>a b c. R a b \<Longrightarrow> R b c \<Longrightarrow> R a c" "\<And>i x s. R s (snd (f i x s))"
  shows "R s (snd (for_each f i xs s))"
proof (induction xs arbitrary: i s)
  case Nil
  then show ?case using assms(1) by simp
next
  case (Cons x xs)
  obtain x' s' where f: "f i x s = (x', s')" by (cases "f i x s")
  obtain xs' s'' where r: "for_each f (Suc i) xs s' = (xs', s'')"
    by (cases "for_each f (Suc i) xs s'")
  have "R s s'" using assms(3) [of s i x] f by simp
  moreover have "R s' s''" using Cons.IH [of s' "Suc i"] r by simp
  ultimately show ?case using assms(2) by (auto simp: f r)
qed

text \<open>The elements of an array whose index lies in a window.\<close>

lemma map_filter_append: "List.map_filter g (us @ vs) = List.map_filter g us @ List.map_filter g vs"
  by (simp add: List.map_filter_def)

lemma map_filter_window:
  assumes "\<And>j x. f j x = (if a \<le> j \<and> j < a + c then Some (h (j - a) x) else None)"
  shows "List.map_filter (\<lambda>(j, x). f j x) (enumerate 0 xs)
    = map (\<lambda>(k, x). h k x) (enumerate 0 (take c (drop a xs)))"
proof (induction xs rule: rev_induct)
  case Nil
  then show ?case by (simp add: map_filter_simps)
next
  case (snoc x xs)
  have e: "enumerate 0 (xs @ [x]) = enumerate 0 xs @ [(length xs, x)]"
    by (simp add: enumerate_append_eq)
  note mf = map_filter_append
  consider "length xs < a" | "a \<le> length xs" "length xs < a + c" | "a + c \<le> length xs"
    by linarith
  then show ?case
  proof cases
    case 1
    then show ?thesis using snoc.IH by (simp add: e mf map_filter_simps assms)
  next
    case 2
    then have "take c (drop a (xs @ [x])) = take c (drop a xs) @ [x]"
      "length (take c (drop a xs)) = length xs - a"
      by simp_all
    then show ?thesis using snoc.IH 2
      by (simp add: e mf map_filter_simps assms enumerate_append_eq)
  next
    case 3
    then have "take c (drop a (xs @ [x])) = take c (drop a xs)" by simp
    then show ?thesis using snoc.IH 3 by (simp add: e mf map_filter_simps assms)
  qed
qed

section \<open>Hit tests\<close>

definition in_box :: "real \<Rightarrow> real \<Rightarrow> real \<Rightarrow> real \<Rightarrow> real \<Rightarrow> real \<Rightarrow> bool" where
  "in_box startx starty endx endy x y \<longleftrightarrow> x \<ge> startx \<and> x \<le> endx \<and> y \<ge> starty \<and> y \<le> endy"

section \<open>Labels\<close>

text \<open>The option \<open>displaytext\<close> is a string or an array of strings.\<close>

datatype dtext = DText jsstring | DLines "jsstring list"
datatype grd_type = Horizontal | Vertical
datatype align = AlignLeft | AlignRight | AlignCenter

text \<open>A string is false when empty, an array is always true; drawing a string wraps it into an
  array.\<close>

fun truthy_text :: "dtext option \<Rightarrow> bool" where
  "truthy_text None = False"
| "truthy_text (Some (DText s)) = (s \<noteq> [])"
| "truthy_text (Some (DLines ls)) = True"

fun text_array :: "dtext \<Rightarrow> jsstring list" where
  "text_array (DText s) = [s]"
| "text_array (DLines ls) = ls"

text \<open>The gradient of an element: creation, then one colour stop per background colour with
  the gradient as fill style after each; a single background colour then replaces it.\<close>

definition create_gradient :: "grd_type option \<Rightarrow> real \<Rightarrow> real \<Rightarrow> real \<Rightarrow> real \<Rightarrow> gfx list" where
  "create_gradient g x y w h =
     (case g of
        Some Horizontal \<Rightarrow> [CreateGrad x y (x + w) y]
      | Some Vertical \<Rightarrow> [CreateGrad x y x (y + h)]
      | None \<Rightarrow> [])"

definition gradient_stops :: "jsstring list \<Rightarrow> gfx list" where
  "gradient_stops background =
     (let step_size = 1 / real (length background)
      in concat (map (\<lambda>(j, col). [AddStop (step_size * real j) col, SetFill PGrad])
           (enumerate 0 background)))"

definition single_fill :: "jsstring list \<Rightarrow> gfx list" where
  "single_fill background =
     (if length background = 1 then [SetFill (PColor (background ! 0))] else [])"

text \<open>\<open>border_width > 0\<close>, and \<open>border_width != 0 && border_width != undefined\<close>.\<close>

definition has_border :: "real option \<Rightarrow> bool" where
  "has_border bw = (case bw of None \<Rightarrow> False | Some b \<Rightarrow> b > 0)"

definition border_set :: "real option \<Rightarrow> bool" where
  "border_set bw = (case bw of None \<Rightarrow> False | Some b \<Rightarrow> b \<noteq> 0)"

text \<open>\<open>!border_radius\<close> of an optional number.\<close>

definition no_radius :: "real option \<Rightarrow> bool" where
  "no_radius r = (case r of None \<Rightarrow> True | Some v \<Rightarrow> v = 0)"

text \<open>The label that buttons, circles and images draw: every line of the text broken to the
  element's width, then drawn below each other. The context ignores calls with a coordinate
  that is not a number, which is what a missing font size gives, so they are left out.\<close>

definition wrap_lines ::
  "(jsstring \<Rightarrow> real) \<Rightarrow> real option \<Rightarrow> real \<Rightarrow> jsstring list \<Rightarrow> jsstring list" where
  "wrap_lines mt border_width width displaytext =
     concat (map (\<lambda>t. autoLineBreak mt t
       (case border_width of
          Some b \<Rightarrow> if b > 0 then width - b * 2 else width
        | None \<Rightarrow> width)) displaytext)"

fun draw_lines ::
  "text_measure \<Rightarrow> align option \<Rightarrow> real \<Rightarrow> real \<Rightarrow> real \<Rightarrow> real \<Rightarrow> jsstring list \<Rightarrow> ctx \<Rightarrow> ctx" where
  "draw_lines tm al x width font_size yoffs [] c = c"
| "draw_lines tm al x width font_size yoffs (t # ts) c =
     (let text_width = tm c t;
          tx = (case al of
              Some AlignRight \<Rightarrow> x + width - text_width - 8
            | Some AlignLeft \<Rightarrow> x + 8
            | _ \<Rightarrow> x + (width / 2) - (text_width / 2))
      in draw_lines tm al x width font_size (yoffs + font_size * 1.1) ts
           (emit [FillText t tx yoffs] c))"

definition draw_label ::
  "text_measure \<Rightarrow> real \<Rightarrow> real \<Rightarrow> real \<Rightarrow> real \<Rightarrow> real option \<Rightarrow> real option \<Rightarrow> align option \<Rightarrow>
     jsstring list \<Rightarrow> ctx \<Rightarrow> ctx" where
  "draw_label tm x y width height font_size border_width al displaytext c =
     (let new_displaytext = wrap_lines (tm c) border_width width displaytext
      in (case font_size of
            None \<Rightarrow> c
          | Some fs \<Rightarrow>
              (let yoffs =
                 (if length new_displaytext > 1
                  then y + height / 2 - (real (length new_displaytext - 1) * (fs * 0.80)) / 2
                  else y + (height / 2) + fs / 3.3)
               in draw_lines tm al x width fs yoffs new_displaytext c)))"

text \<open>The translation function \<open>_trquote\<close> (\<open>canvasuijs/trhelper.js\<close>) gives its argument back.\<close>

definition trquote :: "jsstring \<Rightarrow> jsstring" where
  "trquote txt = txt"

section \<open>Drawing is well nested\<close>

lemma roundRect_emits:
  "\<exists>cs. roundRect x y w h r lw c = c @ cs \<and> well_nested cs"
proof -
  have "draws_nested (roundRect x y w h r lw)"
    unfolding roundRect_def Let_def
    by (cases lw) (auto simp: draws_nested_def emit_def well_nested_def)
  then show ?thesis by (auto simp: draws_nested_def)
qed

lemma draws_nested_roundRect [intro]: "draws_nested (roundRect x y w h r lw)"
  using roundRect_emits by (auto simp: draws_nested_def)

lemma draws_nested_draw_lines [intro]: "draws_nested (draw_lines m al x w fs yo ts)"
proof (induction ts arbitrary: yo)
  case Nil
  then show ?case by (simp add: draws_nested_id)
next
  case (Cons t ts)
  show ?case
    unfolding draws_nested_def
  proof
    fix c
    define tx where "tx = (case al of
              Some AlignRight \<Rightarrow> x + w - m c t - 8
            | Some AlignLeft \<Rightarrow> x + 8
            | _ \<Rightarrow> x + (w / 2) - (m c t / 2))"
    from Cons [of "yo + fs * 1.1"] obtain cs where
      "draw_lines m al x w fs (yo + fs * 1.1) ts (c @ [FillText t tx yo])
         = (c @ [FillText t tx yo]) @ cs" "well_nested cs"
      unfolding draws_nested_def by blast
    then show "\<exists>cs. draw_lines m al x w fs yo (t # ts) c = c @ cs \<and> well_nested cs"
      by (intro exI [of _ "FillText t tx yo # cs"])
        (simp add: tx_def emit_def Let_def well_nested_def)
  qed
qed

lemma draws_nested_draw_label [intro]: "draws_nested (draw_label m x y w h fs bw al ts)"
  unfolding draws_nested_def draw_label_def Let_def
proof
  fix c
  show "\<exists>cs. (case fs of None \<Rightarrow> c
      | Some fs \<Rightarrow> draw_lines m al x w fs
          (if length (wrap_lines (m c) bw w ts) > 1
           then y + h / 2 - (real (length (wrap_lines (m c) bw w ts) - 1) * (fs * 0.80)) / 2
           else y + (h / 2) + fs / 3.3) (wrap_lines (m c) bw w ts) c) = c @ cs \<and> well_nested cs"
    using draws_nested_draw_lines unfolding draws_nested_def
    by (cases fs) (auto intro: exI [of _ "[]"])
qed

lemma well_nested_gradient [simp]: "well_nested (create_gradient g x y w h)"
  by (auto simp: create_gradient_def well_nested_def split: option.splits grd_type.splits)

lemma well_nested_stops [simp]: "well_nested (gradient_stops bg)"
  by (auto simp: gradient_stops_def Let_def well_nested_def [of "[_, _]"]
      intro!: well_nested_concat split: prod.splits)

lemma well_nested_single [simp]: "well_nested (single_fill bg)"
  by (simp add: single_fill_def well_nested_def)

section \<open>Collections of named elements\<close>

text \<open>
  Every class keeps an array of the elements added to it. \<open>add\<close> appends the (completed)
  options, \<open>find\<close> returns the first element of a name, \<open>clear\<close> empties the array. \<open>UIView\<close>
  and the classes that contain other classes use them through these laws only.
\<close>

locale named_collection =
  fixes items :: "'s \<Rightarrow> 'a list"
    and name_of :: "'a \<Rightarrow> jsstring option"
    and prepare :: "'a \<Rightarrow> 'a"
    and add_item :: "'a \<Rightarrow> 's \<Rightarrow> 's"
    and find_item :: "jsstring option \<Rightarrow> 's \<Rightarrow> 'a option"
    and clear_items :: "'s \<Rightarrow> 's"
  assumes items_add: "items (add_item a s) = items s @ [prepare a]"
    and name_prepare: "name_of (prepare a) = name_of a"
    and find_items: "find_item n s = List.find (\<lambda>a. name_of a = n) (items s)"
    and items_clear: "items (clear_items s) = []"
begin

lemma find_after_clear: "find_item n (clear_items s) = None"
  by (simp add: find_items items_clear)

lemma find_append:
  "List.find P (xs @ ys) = (case List.find P xs of None \<Rightarrow> List.find P ys | Some x \<Rightarrow> Some x)"
  by (induction xs) auto

lemma find_add_same:
  "find_item (name_of a) s = None \<Longrightarrow> find_item (name_of a) (add_item a s) = Some (prepare a)"
proof -
  assume "find_item (name_of a) s = None"
  then show ?thesis by (simp add: find_items items_add find_append name_prepare)
qed

lemma find_add_old: "find_item n s = Some b \<Longrightarrow> find_item n (add_item a s) = Some b"
  by (simp add: find_items items_add find_append)

lemma find_add_other: "n \<noteq> name_of a \<Longrightarrow> find_item n (add_item a s) = find_item n s"
  by (simp add: find_items items_add find_append name_prepare split: option.splits)

lemma find_name: "find_item n s = Some a \<Longrightarrow> name_of a = n \<and> a \<in> set (items s)"
  by (auto simp: find_items find_Some_iff)

lemma find_build:
  assumes "distinct (map name_of as)" "a \<in> set as"
  shows "find_item (name_of a) (fold add_item as (clear_items s)) = Some (prepare a)"
proof -
  have i: "items (fold add_item as t) = items t @ map prepare as" for t
    by (induction as arbitrary: t) (simp_all add: items_add)
  have "List.find (\<lambda>b. name_of b = name_of a) (map prepare as) = Some (prepare a)"
    using assms by (induction as) (auto simp: name_prepare)
  then show ?thesis by (simp add: find_items i items_clear)
qed

end

end
