(* ===== verification/Buttons.thy ===== *)
theory Buttons
  imports Widgets
begin

text \<open>
  \<open>UIButton\<close> (\<open>canvasuijs/uibutton.js\<close>) and \<open>UIArrowButton\<close> (\<open>canvasuijs/uiarrowbutton.js\<close>).

  A button's options object is a record; a missing option is \<open>None\<close>. \<open>bt_callback\<close> stands for
  the call \<open>button.callback(button.callbackData)\<close>, \<open>bt_name\<close> is the option \<open>name\<close> that
  \<open>find\<close> compares. The index that \<open>mouse_down_on\<close> holds is \<open>None\<close> for \<open>null\<close> and \<open>-1\<close> after
  a press outside every button.
\<close>

section \<open>UIButton\<close>

record 'cb button =
  bt_x :: real
  bt_y :: real
  bt_width :: real
  bt_height :: real
  bt_background :: "jsstring list"
  bt_foreground :: jsstring
  bt_border :: "jsstring option"
  bt_hover_border :: "jsstring option"
  bt_border_width :: "real option"
  bt_border_radius :: "real option"
  bt_font_size :: "real option"
  bt_grd_type :: "grd_type option"
  bt_align :: "align option"
  bt_displaytext :: "dtext option"
  bt_accept_keycode :: "nat list"
  bt_select_file :: bool
  bt_selector_opened :: bool
  bt_active :: bool
  bt_name :: "jsstring option"
  bt_callback :: 'cb

record 'b uibutton =
  ub_hovering_on :: "nat option"
  ub_buttons :: "'b list"
  ub_mouse_down_on :: "int option"

definition new_UIButton :: "'b uibutton" where
  "new_UIButton = \<lparr>ub_hovering_on = None, ub_buttons = [], ub_mouse_down_on = None\<rparr>"

definition UIButton_setActive :: "bool \<Rightarrow> ('cb, 'm) button_scheme \<Rightarrow> ('cb, 'm) button_scheme" where
  "UIButton_setActive active b = b\<lparr>bt_active := active\<rparr>"

definition UIButton_prepare :: "('cb, 'm) button_scheme \<Rightarrow> ('cb, 'm) button_scheme" where
  "UIButton_prepare b =
     (let b1 = b\<lparr>bt_active := True\<rparr>
      in if bt_grd_type b1 = None then b1\<lparr>bt_grd_type := Some Vertical\<rparr> else b1)"

definition UIButton_add ::
  "('cb, 'm) button_scheme \<Rightarrow> ('cb, 'm) button_scheme uibutton \<Rightarrow> ('cb, 'm) button_scheme uibutton"
  where
  "UIButton_add b st = st\<lparr>ub_buttons := ub_buttons st @ [UIButton_prepare b]\<rparr>"

definition UIButton_render_one ::
  "text_measure \<Rightarrow> nat option \<Rightarrow> int option \<Rightarrow> nat \<Rightarrow> ('cb, 'm) button_scheme \<Rightarrow> ctx \<Rightarrow>
     ('cb, 'm) button_scheme \<times> ctx" where
  "UIButton_render_one tm hovering_on mouse_down_on i b c =
     (if \<not> bt_active b then (b, c)
      else
        (let c1 = emit
               ([SetFont (bt_font_size b),
                 SetLineWidth (bt_border_width b),
                 (if Some i = hovering_on then SetStroke (opt_color (bt_hover_border b))
                  else SetStroke (opt_color (bt_border b)))]
                @ create_gradient (bt_grd_type b) (bt_x b) (bt_y b) (bt_width b) (bt_height b)
                @ (if bt_grd_type b \<noteq> None then
                     (if Some (int i) = mouse_down_on
                      then [SetFill (opt_color
                              (js_get (bt_background b) (length (bt_background b) - 1)))]
                      else gradient_stops (bt_background b))
                   else [])
                @ single_fill (bt_background b)) c;
             c2 = (if no_radius (bt_border_radius b)
                   then emit [FillRect (bt_x b) (bt_y b) (bt_width b) (bt_height b),
                              StrokeRect (bt_x b) (bt_y b) (bt_width b) (bt_height b)] c1
                   else roundRect (bt_x b) (bt_y b) (bt_width b) (bt_height b)
                          (the (bt_border_radius b)) (bt_border_width b) c1);
             c3 = emit [SetFill (PColor (bt_foreground b)), SetStroke (PColor (bt_foreground b))] c2
         in if truthy_text (bt_displaytext b) then
              (let ls = text_array (the (bt_displaytext b))
               in (b\<lparr>bt_displaytext := Some (DLines ls)\<rparr>,
                   draw_label tm (bt_x b) (bt_y b) (bt_width b) (bt_height b) (bt_font_size b)
                     (bt_border_width b) (bt_align b) ls c3))
            else (b, c3)))"

definition UIButton_render ::
  "text_measure \<Rightarrow> ('cb, 'm) button_scheme uibutton \<Rightarrow> ctx \<Rightarrow>
     ('cb, 'm) button_scheme uibutton \<times> ctx" where
  "UIButton_render tm st c =
     (let (bs, c') = for_each (UIButton_render_one tm (ub_hovering_on st) (ub_mouse_down_on st))
                       0 (ub_buttons st) c
      in (st\<lparr>ub_buttons := bs\<rparr>, c'))"

text \<open>The file readers finish after the loop, when the variable \<open>callback_button\<close> they share
  holds the last button whose selector was open: each of them calls that button's callback.\<close>

definition UIButton_file_open :: "('cb, 'm) button_scheme \<Rightarrow> bool" where
  "UIButton_file_open b \<longleftrightarrow> bt_select_file b \<and> bt_selector_opened b"

definition UIButton_onFileInput ::
  "('cb, 'm) button_scheme uibutton \<Rightarrow> ('cb, 'm) button_scheme uibutton \<times> 'cb ui_event list" where
  "UIButton_onFileInput st =
     (let opened = filter UIButton_file_open (ub_buttons st)
      in (st\<lparr>ub_buttons := map (\<lambda>b. if UIButton_file_open b
                                   then b\<lparr>bt_selector_opened := False\<rparr> else b) (ub_buttons st)\<rparr>,
          map (\<lambda>_. ReadFile (bt_callback (last opened))) opened))"

definition button_hit :: "real \<Rightarrow> real \<Rightarrow> ('cb, 'm) button_scheme \<Rightarrow> bool" where
  "button_hit x y b =
     in_box (bt_x b) (bt_y b) (bt_x b + bt_width b) (bt_y b + bt_height b) x y"

definition UIButton_click_one ::
  "real \<Rightarrow> real \<Rightarrow> int option \<Rightarrow> nat \<Rightarrow> ('cb, 'm) button_scheme \<Rightarrow> 'cb ui_event list \<Rightarrow>
     ('cb, 'm) button_scheme \<times> 'cb ui_event list" where
  "UIButton_click_one x y mouse_down_on i b evs =
     (if bt_active b then
        (let b1 = b\<lparr>bt_selector_opened := False\<rparr>
         in if button_hit x y b1 \<and> mouse_down_on = Some (int i) then
              (if bt_select_file b1
               then (b1\<lparr>bt_selector_opened := True\<rparr>, evs @ [OpenUpload, Repaint])
               else (b1, evs @ [Callback (bt_callback b1), Repaint]))
            else (b1, evs))
      else (b, evs))"

definition UIButton_onClick ::
  "real \<Rightarrow> real \<Rightarrow> ('cb, 'm) button_scheme uibutton \<Rightarrow>
     ('cb, 'm) button_scheme uibutton \<times> 'cb ui_event list" where
  "UIButton_onClick x y st =
     (let (bs, evs) = for_each (UIButton_click_one x y (ub_mouse_down_on st)) 0 (ub_buttons st) []
      in (st\<lparr>ub_buttons := bs, ub_mouse_down_on := None\<rparr>, evs))"

definition UIButton_onMouseDown ::
  "real \<Rightarrow> real \<Rightarrow> ('cb, 'm) button_scheme uibutton \<Rightarrow>
     ('cb, 'm) button_scheme uibutton \<times> 'cb ui_event list" where
  "UIButton_onMouseDown x y st =
     (case find_index (\<lambda>b. bt_active b \<and> button_hit x y b) (ub_buttons st) of
        Some i \<Rightarrow> (st\<lparr>ub_mouse_down_on := Some (int i)\<rparr>, [Repaint])
      | None \<Rightarrow> (st\<lparr>ub_mouse_down_on := Some (- 1)\<rparr>, []))"

definition UIButton_onMouseUp ::
  "real \<Rightarrow> real \<Rightarrow> ('cb, 'm) button_scheme uibutton \<Rightarrow>
     ('cb, 'm) button_scheme uibutton \<times> 'cb ui_event list" where
  "UIButton_onMouseUp x y st = (st, [])"

text \<open>The loop returns at the first button under the mouse that may be hovered: any one when no
  button is pressed, the pressed one otherwise.\<close>

definition UIButton_onMouseMove ::
  "real \<Rightarrow> real \<Rightarrow> ('cb, 'm) button_scheme uibutton \<Rightarrow>
     ('cb, 'm) button_scheme uibutton \<times> 'cb ui_event list" where
  "UIButton_onMouseMove x y st =
     (case find_index (\<lambda>(i, b). button_hit x y b \<and>
              (ub_mouse_down_on st = None \<or> ub_mouse_down_on st = Some (int i)))
            (enumerate 0 (ub_buttons st)) of
        Some i \<Rightarrow> (st\<lparr>ub_hovering_on := Some i\<rparr>, [Repaint])
      | None \<Rightarrow> (st\<lparr>ub_hovering_on := None\<rparr>,
                if ub_hovering_on st \<noteq> None then [Repaint] else []))"

definition UIButton_find ::
  "jsstring option \<Rightarrow> ('cb, 'm) button_scheme uibutton \<Rightarrow> ('cb, 'm) button_scheme option" where
  "UIButton_find name st = List.find (\<lambda>b. bt_name b = name) (ub_buttons st)"

definition UIButton_clear ::
  "('cb, 'm) button_scheme uibutton \<Rightarrow> ('cb, 'm) button_scheme uibutton" where
  "UIButton_clear st = st\<lparr>ub_mouse_down_on := None, ub_hovering_on := None, ub_buttons := []\<rparr>"

definition UIButton_onKeyDown ::
  "nat \<Rightarrow> ('cb, 'm) button_scheme uibutton \<Rightarrow> 'cb ui_event list" where
  "UIButton_onKeyDown keyCode st =
     concat (map (\<lambda>b. concat (map (\<lambda>k. if k = keyCode
                                      then [PreventDefault, Callback (bt_callback b), Repaint]
                                      else []) (bt_accept_keycode b))) (ub_buttons st))"

section \<open>UIArrowButton\<close>

text \<open>An arrow button's options object is also the only element of its own \<open>UIButton\<close>. The
  three corners of the arrow are relative to \<open>a_x\<close> and the button's \<open>y\<close>.\<close>

datatype direction = DirUp | DirDown | DirLeft | DirRight

record 'b arrowbutton =
  ab_button :: "'b uibutton"
  ab_y :: real
  ab_a_x :: real
  ab_point1 :: "real \<times> real"
  ab_point2 :: "real \<times> real"
  ab_point3 :: "real \<times> real"

record 'b uiarrowbutton =
  ua_arrowbuttons :: "'b arrowbutton list"

definition new_UIArrowButton :: "'b uiarrowbutton" where
  "new_UIArrowButton = \<lparr>ua_arrowbuttons = []\<rparr>"

fun arrow_points :: "direction \<Rightarrow> real \<Rightarrow> (real \<times> real) \<times> (real \<times> real) \<times> (real \<times> real)" where
  "arrow_points DirDown h = ((0, 0), (h, 0), (h / 2, h))"
| "arrow_points DirUp h = ((0, h), (h, h), (h / 2, 0))"
| "arrow_points DirRight h = ((0, 0), (h, h / 2), (0, h))"
| "arrow_points DirLeft h = ((h, 0), (h, h), (0, h / 2))"

definition UIArrowButton_add ::
  "direction \<Rightarrow> ('cb, 'm) button_scheme \<Rightarrow> ('cb, 'm) button_scheme uiarrowbutton \<Rightarrow>
     ('cb, 'm) button_scheme uiarrowbutton" where
  "UIArrowButton_add dir b st =
     (let (p1, p2, p3) = arrow_points dir (bt_height b)
      in st\<lparr>ua_arrowbuttons := ua_arrowbuttons st @
            [\<lparr>ab_button = UIButton_add b new_UIButton, ab_y = bt_y b,
              ab_a_x = bt_x b + bt_width b / 2 - bt_height b / 2,
              ab_point1 = p1, ab_point2 = p2, ab_point3 = p3\<rparr>]\<rparr>)"

definition UIArrowButton_render_one ::
  "text_measure \<Rightarrow> nat \<Rightarrow> ('cb, 'm) button_scheme arrowbutton \<Rightarrow> ctx \<Rightarrow>
     ('cb, 'm) button_scheme arrowbutton \<times> ctx" where
  "UIArrowButton_render_one tm i a c =
     (let (ub, c1) = UIButton_render tm (ab_button a) c
      in (a\<lparr>ab_button := ub\<rparr>,
          emit [BeginPath,
                MoveTo (ab_a_x a + fst (ab_point1 a)) (ab_y a + snd (ab_point1 a)),
                LineTo (ab_a_x a + fst (ab_point2 a)) (ab_y a + snd (ab_point2 a)),
                LineTo (ab_a_x a + fst (ab_point3 a)) (ab_y a + snd (ab_point3 a)),
                Fill] c1))"

definition UIArrowButton_render ::
  "text_measure \<Rightarrow> ('cb, 'm) button_scheme uiarrowbutton \<Rightarrow> ctx \<Rightarrow>
     ('cb, 'm) button_scheme uiarrowbutton \<times> ctx" where
  "UIArrowButton_render tm st c =
     (let (as, c') = for_each (UIArrowButton_render_one tm) 0 (ua_arrowbuttons st) c
      in (st\<lparr>ua_arrowbuttons := as\<rparr>, c'))"

text \<open>The mouse handlers pass the event to the button of every arrow.\<close>

definition arrow_forward ::
  "('b uibutton \<Rightarrow> 'b uibutton \<times> 'cb ui_event list) \<Rightarrow> 'b uiarrowbutton \<Rightarrow>
     'b uiarrowbutton \<times> 'cb ui_event list" where
  "arrow_forward h st =
     (let (as, evs) = for_each (\<lambda>i a evs. let (ub, es) = h (ab_button a)
                                          in (a\<lparr>ab_button := ub\<rparr>, evs @ es))
                        0 (ua_arrowbuttons st) []
      in (st\<lparr>ua_arrowbuttons := as\<rparr>, evs))"

definition UIArrowButton_onClick where
  "UIArrowButton_onClick x y = arrow_forward (UIButton_onClick x y)"

definition UIArrowButton_onMouseDown where
  "UIArrowButton_onMouseDown x y = arrow_forward (UIButton_onMouseDown x y)"

definition UIArrowButton_onMouseUp where
  "UIArrowButton_onMouseUp x y = arrow_forward (UIButton_onMouseUp x y)"

definition UIArrowButton_onMouseMove where
  "UIArrowButton_onMouseMove x y = arrow_forward (UIButton_onMouseMove x y)"

text \<open>\<open>find\<close> looks into every button but returns nothing.\<close>

definition UIArrowButton_find ::
  "jsstring option \<Rightarrow> ('cb, 'm) button_scheme uiarrowbutton \<Rightarrow> ('cb, 'm) button_scheme option" where
  "UIArrowButton_find name st = None"

definition UIArrowButton_clear :: "'b uiarrowbutton \<Rightarrow> 'b uiarrowbutton" where
  "UIArrowButton_clear st = st\<lparr>ua_arrowbuttons := []\<rparr>"
section \<open>Clicks\<close>

text \<open>What a click does to one button, and the events it causes.\<close>

definition clicked :: "real \<Rightarrow> real \<Rightarrow> ('cb, 'm) button_scheme \<Rightarrow> 'cb ui_event list" where
  "clicked x y b =
     (if bt_active b \<and> button_hit x y b
      then (if bt_select_file b then [OpenUpload, Repaint] else [Callback (bt_callback b), Repaint])
      else [])"

lemma button_hit_selector [simp]: "button_hit x y (b\<lparr>bt_selector_opened := v\<rparr>) = button_hit x y b"
  by (simp add: button_hit_def)

lemma click_one_events:
  "snd (UIButton_click_one x y m i b evs) = evs @ (if m = Some (int i) then clicked x y b else [])"
  by (simp add: UIButton_click_one_def clicked_def Let_def)

lemma click_loop_none:
  "(\<forall>j < length bs. m \<noteq> Some (int (i + j))) \<Longrightarrow>
     snd (for_each (UIButton_click_one x y m) i bs evs) = evs"
proof (induction bs arbitrary: i evs)
  case Nil
  then show ?case by simp
next
  case (Cons b bs)
  have "m \<noteq> Some (int i)" using Cons.prems by (auto dest: spec [of _ 0])
  moreover have "\<forall>j < length bs. m \<noteq> Some (int (Suc i + j))"
    using Cons.prems by (metis Suc_less_eq add_Suc add_Suc_right length_Cons)
  ultimately show ?case
    using Cons.IH [of "Suc i" evs] click_one_events [of x y m i b evs]
    by (auto simp: Let_def split: prod.splits)
qed

lemma click_loop_some:
  "j < length bs \<Longrightarrow>
     snd (for_each (UIButton_click_one x y (Some (int (i + j)))) i bs evs) = evs @ clicked x y (bs ! j)"
proof (induction bs arbitrary: i j evs)
  case Nil
  then show ?case by simp
next
  case (Cons b bs)
  let ?m = "Some (int (i + j))"
  have e: "snd (UIButton_click_one x y ?m i b evs) = evs @ (if j = 0 then clicked x y b else [])"
    by (simp add: click_one_events)
  show ?case
  proof (cases j)
    case 0
    have "\<forall>k < length bs. Some (int i) \<noteq> Some (int (Suc i + k))" by simp
    from click_loop_none [OF this, of x y "evs @ clicked x y b"] e 0
    show ?thesis by (auto simp: Let_def split: prod.splits)
  next
    case (Suc k)
    with Cons.prems have k: "k < length bs" by simp
    show ?thesis using Cons.IH [OF k, of "Suc i" evs] e Suc
      by (auto simp: Let_def split: prod.splits)
  qed
qed

lemma click_events:
  "snd (UIButton_onClick x y st) =
     (case ub_mouse_down_on st of
        Some k \<Rightarrow> if 0 \<le> k \<and> nat k < length (ub_buttons st)
                  then clicked x y (ub_buttons st ! nat k) else []
      | None \<Rightarrow> [])"
proof (cases "ub_mouse_down_on st")
  case None
  then show ?thesis
    using click_loop_none [of "ub_buttons st" None 0 x y "[]"]
    by (auto simp: UIButton_onClick_def Let_def split: prod.splits)
next
  case (Some k)
  show ?thesis
  proof (cases "0 \<le> k \<and> nat k < length (ub_buttons st)")
    case True
    then show ?thesis
      using click_loop_some [of "nat k" "ub_buttons st" x y 0 "[]"] Some
      by (auto simp: UIButton_onClick_def Let_def split: prod.splits)
  next
    case False
    have "\<forall>j < length (ub_buttons st). Some k \<noteq> Some (int (0 + j))" using False by auto
    from click_loop_none [OF this, of x y "[]"] show ?thesis using Some False
      by (auto simp: UIButton_onClick_def Let_def split: prod.splits)
  qed
qed

text \<open>A press and the click that follows it fire one button at most: the first active one
  under the press, provided it is also under the release. A file button opens the file
  selector instead of calling back. Whatever was pressed before does not matter.\<close>

theorem UIButton_press_release:
  "snd (UIButton_onClick x' y' (fst (UIButton_onMouseDown x y st))) =
     (case find_index (\<lambda>b. bt_active b \<and> button_hit x y b) (ub_buttons st) of
        None \<Rightarrow> []
      | Some i \<Rightarrow>
          (let b = ub_buttons st ! i
           in if \<not> button_hit x' y' b then []
              else if bt_select_file b then [OpenUpload, Repaint]
              else [Callback (bt_callback b), Repaint]))"
  by (auto simp: click_events UIButton_onMouseDown_def clicked_def Let_def
      split: option.splits dest: find_index_Some)

text \<open>What a handler leaves unchanged: all a button shows and where it is.\<close>

definition same_button :: "('cb, 'm) button_scheme \<Rightarrow> ('cb, 'm) button_scheme \<Rightarrow> bool" where
  "same_button b b' \<longleftrightarrow>
     b'\<lparr>bt_selector_opened := False, bt_displaytext := None\<rparr>
       = b\<lparr>bt_selector_opened := False, bt_displaytext := None\<rparr>"

lemma for_each_all2:
  assumes "\<And>i x s. R x (fst (f i x s))"
  shows "list_all2 R xs (fst (for_each f i xs s))"
proof (induction xs arbitrary: i s)
  case Nil
  then show ?case by simp
next
  case (Cons x xs)
  then show ?case using assms by (auto simp: Let_def split: prod.splits) (metis fst_conv)+
qed

lemma click_keeps_buttons:
  "list_all2 same_button (ub_buttons st) (ub_buttons (fst (UIButton_onClick x y st)))"
proof -
  have "same_button b (fst (UIButton_click_one x y m i b evs))" for m i evs
    and b :: "('a, 'b) button_scheme"
    by (simp add: UIButton_click_one_def same_button_def Let_def)
  from for_each_all2 [of same_button, OF this] show ?thesis
    by (simp add: UIButton_onClick_def Let_def split_beta)
qed

text \<open>A click ends the press and clears the selector flag of every active button but the one
  it opened; position, callback and everything else of every button stay as they were, so
  a second click without a press fires nothing.\<close>

theorem UIButton_click_ends_press:
  "ub_mouse_down_on (fst (UIButton_onClick x y st)) = None \<and>
   ub_hovering_on (fst (UIButton_onClick x y st)) = ub_hovering_on st \<and>
   list_all2 same_button (ub_buttons st) (ub_buttons (fst (UIButton_onClick x y st))) \<and>
   snd (UIButton_onClick x' y' (fst (UIButton_onClick x y st))) = []"
  using click_keeps_buttons [of st x y]
  by (simp add: click_events [of x' y']) (simp add: UIButton_onClick_def Let_def split_beta)

section \<open>Drawing\<close>

lemma render_one_nested: "draws_nested (\<lambda>c. snd (UIButton_render_one tm h m i b c))"
proof -
  define pre where "pre = [SetFont (bt_font_size b), SetLineWidth (bt_border_width b),
      (if Some i = h then SetStroke (opt_color (bt_hover_border b))
       else SetStroke (opt_color (bt_border b)))]
     @ create_gradient (bt_grd_type b) (bt_x b) (bt_y b) (bt_width b) (bt_height b)
     @ (if bt_grd_type b \<noteq> None then
          (if Some (int i) = m
           then [SetFill (opt_color (js_get (bt_background b) (length (bt_background b) - 1)))]
           else gradient_stops (bt_background b))
        else [])
     @ single_fill (bt_background b)"
  define box where "box = (\<lambda>c. if no_radius (bt_border_radius b)
     then emit [FillRect (bt_x b) (bt_y b) (bt_width b) (bt_height b),
                StrokeRect (bt_x b) (bt_y b) (bt_width b) (bt_height b)] c
     else roundRect (bt_x b) (bt_y b) (bt_width b) (bt_height b)
            (the (bt_border_radius b)) (bt_border_width b) c)"
  define post where
    "post = [SetFill (PColor (bt_foreground b)), SetStroke (PColor (bt_foreground b))]"
  define lab where "lab = (\<lambda>c. if truthy_text (bt_displaytext b)
     then draw_label tm (bt_x b) (bt_y b) (bt_width b) (bt_height b) (bt_font_size b)
            (bt_border_width b) (bt_align b) (text_array (the (bt_displaytext b))) c else c)"
  have pre: "draws_nested (emit pre)"
    unfolding pre_def
    by (intro draws_nested_emit well_nested_append)
      (auto simp: well_nested_def [of "[_]"] well_nested_def [of "[_, _, _]"])
  have post: "draws_nested (emit post)"
    by (auto simp: post_def well_nested_def intro!: draws_nested_emit)
  have box: "draws_nested box" unfolding box_def
    by (intro draws_nested_if draws_nested_emit draws_nested_roundRect)
      (simp add: well_nested_def)
  have lab: "draws_nested lab" unfolding lab_def
    by (intro draws_nested_if draws_nested_draw_label draws_nested_id)
  have "snd (UIButton_render_one tm h m i b c) =
      (if \<not> bt_active b then c else lab (emit post (box (emit pre c))))" for c
    unfolding UIButton_render_one_def Let_def pre_def [symmetric] post_def [symmetric]
      box_def [symmetric] lab_def
    by (auto simp: box_def)
  then show ?thesis
    using draws_nested_comp [OF draws_nested_comp [OF draws_nested_comp [OF pre box] post] lab]
    by (simp add: draws_nested_if draws_nested_id)
qed

text \<open>A loop whose body draws well nested draws well nested.\<close>

lemma for_each_nested:
  assumes "\<And>i x. draws_nested (\<lambda>c. snd (f i x c))"
  shows "draws_nested (\<lambda>c. snd (for_each f i xs c))"
proof -
  have "\<exists>cs. snd (for_each f i xs c) = c @ cs \<and> well_nested cs" for c
    by (rule for_each_state [where R = "\<lambda>c d. \<exists>cs. d = c @ cs \<and> well_nested cs"])
      (use assms in \<open>auto simp: draws_nested_def intro: well_nested_append\<close>)
  then show ?thesis by (simp add: draws_nested_def)
qed

lemma UIButton_render_nested: "draws_nested (\<lambda>c. snd (UIButton_render tm st c))"
  using for_each_nested [of "UIButton_render_one tm (ub_hovering_on st) (ub_mouse_down_on st)",
      OF render_one_nested, of 0 "ub_buttons st"]
  by (simp add: UIButton_render_def Let_def split_beta)

lemma render_one_keeps: "same_button b (fst (UIButton_render_one tm h m i b c))"
  by (simp add: UIButton_render_one_def same_button_def Let_def)

lemma render_keeps_buttons:
  "list_all2 same_button (ub_buttons st) (ub_buttons (fst (UIButton_render tm st c)))"
  using for_each_all2 [of same_button, OF render_one_keeps]
  by (simp add: UIButton_render_def split_beta Let_def)

text \<open>Drawing only appends to the context, every \<open>save\<close> has its \<open>restore\<close>, and it changes
  no button but for wrapping its text into an array: the next press and click hit the same
  buttons and cause the same events as without drawing.\<close>

theorem UIButton_render_pure:
  "(\<exists>cs. snd (UIButton_render tm st c) = c @ cs \<and> well_nested cs) \<and>
   list_all2 same_button (ub_buttons st) (ub_buttons (fst (UIButton_render tm st c))) \<and>
   snd (UIButton_onClick x y (fst (UIButton_render tm st c))) = snd (UIButton_onClick x y st)"
proof (intro conjI)
  show "\<exists>cs. snd (UIButton_render tm st c) = c @ cs \<and> well_nested cs"
    using UIButton_render_nested [of tm st] by (simp add: draws_nested_def)
  have m: "ub_mouse_down_on (fst (UIButton_render tm st c)) = ub_mouse_down_on st"
    by (simp add: UIButton_render_def split_beta Let_def)
  show all: "list_all2 same_button (ub_buttons st) (ub_buttons (fst (UIButton_render tm st c)))"
    by (rule render_keeps_buttons)
  have "clicked x y b = clicked x y b'" if "same_button b b'" for b b' :: "('a, 'b) button_scheme"
    using that unfolding same_button_def clicked_def button_hit_def
    by (cases b; cases b') simp
  with all have "i < length (ub_buttons st) \<Longrightarrow>
      clicked x y (ub_buttons (fst (UIButton_render tm st c)) ! i)
        = clicked x y (ub_buttons st ! i)" for i
    by (auto simp: list_all2_conv_all_nth)
  with m list_all2_lengthD [OF all]
  show "snd (UIButton_onClick x y (fst (UIButton_render tm st c))) = snd (UIButton_onClick x y st)"
    by (auto simp: click_events split: option.splits)
qed

section \<open>The buttons as a named collection\<close>

interpretation ub: named_collection ub_buttons bt_name UIButton_prepare UIButton_add
    UIButton_find UIButton_clear
  by unfold_locales
    (simp_all add: UIButton_add_def UIButton_prepare_def UIButton_find_def UIButton_clear_def Let_def)

text \<open>An arrow button cannot be found by its name: \<open>find\<close> has no \<open>return\<close>. The arrow itself
  works like a button that draws a triangle on top.\<close>

lemma UIArrowButton_find_never:
  "UIArrowButton_find n (UIArrowButton_add d b st) = None"
  by (simp add: UIArrowButton_find_def)

definition all_inactive ::
  "('cb, 'm) button_scheme uibutton \<Rightarrow> ('cb, 'm) button_scheme uibutton" where
  "all_inactive st = st\<lparr>ub_buttons := map (UIButton_setActive False) (ub_buttons st)\<rparr>"

text \<open>A button that \<open>setActive(false)\<close> took off the screen is neither drawn nor clickable,
  but the keys it accepts still fire it: \<open>onKeyDown\<close> never looks at \<open>active\<close>.\<close>

theorem UIButton_inactive_keys:
  "snd (UIButton_render tm (all_inactive st) c) = c \<and>
   snd (UIButton_onClick x' y' (fst (UIButton_onMouseDown x y (all_inactive st)))) = [] \<and>
   UIButton_onKeyDown k (all_inactive st) = UIButton_onKeyDown k st"
proof (intro conjI)
  have "snd (for_each (UIButton_render_one tm h m) i (map (UIButton_setActive False) bs) c) = c"
    for h m i and bs :: "('a, 'b) button_scheme list" and c
    by (induction bs arbitrary: i c)
      (auto simp: UIButton_render_one_def UIButton_setActive_def Let_def split: prod.splits,
        metis snd_conv)
  then show "snd (UIButton_render tm (all_inactive st) c) = c"
    by (simp add: UIButton_render_def split_beta Let_def all_inactive_def)
  have "find_index (\<lambda>b. bt_active b \<and> button_hit x y b) (ub_buttons (all_inactive st)) = None"
    by (auto simp: find_index_None all_inactive_def UIButton_setActive_def)
  then show "snd (UIButton_onClick x' y' (fst (UIButton_onMouseDown x y (all_inactive st)))) = []"
    by (simp add: click_events UIButton_onMouseDown_def)
  have "bt_callback (UIButton_setActive False b) = bt_callback b"
    "bt_accept_keycode (UIButton_setActive False b) = bt_accept_keycode b"
    for b :: "('a, 'b) button_scheme"
    by (simp_all add: UIButton_setActive_def)
  then show "UIButton_onKeyDown k (all_inactive st) = UIButton_onKeyDown k st"
    by (simp add: UIButton_onKeyDown_def all_inactive_def comp_def cong: if_cong)
qed

section \<open>Arrow buttons\<close>

lemma for_each_events:
  "snd (for_each (\<lambda>i a evs. (a\<lparr>ab_button := fst (h (ab_button a))\<rparr>, evs @ snd (h (ab_button a))))
          i as evs)
     = evs @ concat (map (\<lambda>a. snd (h (ab_button a))) as)"
proof (induction as arbitrary: i evs)
  case Nil
  then show ?case by simp
next
  case (Cons a as)
  then show ?case by (simp add: split_beta)
qed

lemma arrow_forward_events:
  "snd (arrow_forward h st) = concat (map (\<lambda>a. snd (h (ab_button a))) (ua_arrowbuttons st))"
  using for_each_events [of h 0 "ua_arrowbuttons st" "[]"]
  by (simp add: arrow_forward_def split_beta Let_def)

lemma UIArrowButton_render_nested: "draws_nested (\<lambda>c. snd (UIArrowButton_render tm st c))"
proof -
  have "draws_nested (\<lambda>c. snd (UIArrowButton_render_one tm i a c))" for i and a :: "('a, 'b) button_scheme arrowbutton"
  proof -
    let ?tri = "[BeginPath,
        MoveTo (ab_a_x a + fst (ab_point1 a)) (ab_y a + snd (ab_point1 a)),
        LineTo (ab_a_x a + fst (ab_point2 a)) (ab_y a + snd (ab_point2 a)),
        LineTo (ab_a_x a + fst (ab_point3 a)) (ab_y a + snd (ab_point3 a)), Fill]"
    have "draws_nested (emit ?tri)" by (intro draws_nested_emit) (simp add: well_nested_def)
    from draws_nested_comp [OF UIButton_render_nested this]
    show ?thesis by (simp add: UIArrowButton_render_one_def split_beta Let_def)
  qed
  from for_each_nested [of "UIArrowButton_render_one tm", OF this, of 0 "ua_arrowbuttons st"]
  show ?thesis
    by (simp add: UIArrowButton_render_def split_beta Let_def)
qed

text \<open>The triangle stays inside the height by height square that it is drawn in.\<close>

lemma arrow_points_inside:
  assumes "0 \<le> h" "arrow_points d h = (p, q, r)"
  shows "\<forall>v \<in> {p, q, r}. 0 \<le> fst v \<and> fst v \<le> h \<and> 0 \<le> snd v \<and> snd v \<le> h"
  using assms by (cases d) auto

end
