(* ===== verification/Lists.thy ===== *)
theory Lists
  imports Buttons
begin

text \<open>
  \<open>UIList\<close> (\<open>canvasuijs/uilist.js\<close>): grids of buttons in pages, with an arrow button to the page
  before and one to the page after. The scroll position is \<open>undefined\<close> until \<open>setList\<close> is called;
  nothing reads it before, because the list is empty.

  The options of a list that its closures (\<open>setList\<close>, \<open>increaseScrollPosition\<close>,
  \<open>decreaseScrollPosition\<close>) change are fields of the record \<open>ulist\<close>; the closures are
  definitions on the \<open>UIList\<close> with the index of their list. A callback of an arrow button is
  a \<open>list_cmd\<close> and is carried out where the handler calls it; a callback of an item belongs to
  the program around and is returned as an event. A list size is not negative.
\<close>

section \<open>State\<close>

datatype list_cmd = IncreaseScrollPosition | DecreaseScrollPosition

text \<open>\<open>elementOptions\<close>: what it defines goes over the item's own option of that name.\<close>

record 'cb element_options =
  eo_width :: real
  eo_height :: real
  eo_gap :: real
  eo_background :: "jsstring list option"
  eo_foreground :: "jsstring option"
  eo_border :: "jsstring option"
  eo_hover_border :: "jsstring option"
  eo_border_width :: "real option"
  eo_border_radius :: "real option"
  eo_font_size :: "real option"
  eo_grd_type :: "grd_type option"
  eo_align :: "align option"
  eo_displaytext :: "dtext option"
  eo_callback :: "'cb option"

record 'cb ulist =
  ls_x :: real
  ls_y :: real
  ls_width :: real
  ls_height :: real
  ls_scrollbarwidth :: "real option"
  ls_elementOptions :: "'cb element_options"
  ls_name :: "jsstring option"
  ls_button :: "'cb button uibutton"
  ls_arrowbutton :: "list_cmd button uiarrowbutton"
  ls_editmode :: bool
  ls_items :: "'cb button list"
  ls_mouse_down_on :: "nat option"
  ls_scrollPosition :: int

record 'cb uilist =
  ul_lists :: "'cb ulist list"

definition new_UIList :: "'cb uilist" where
  "new_UIList = \<lparr>ul_lists = []\<rparr>"

definition UIList_prepare :: "'cb ulist \<Rightarrow> 'cb ulist" where
  "UIList_prepare l =
     l\<lparr>ls_button := new_UIButton, ls_arrowbutton := new_UIArrowButton, ls_items := [],
       ls_mouse_down_on := None,
       ls_scrollbarwidth := Some (case ls_scrollbarwidth l of None \<Rightarrow> 50 | Some w \<Rightarrow> w)\<rparr>"

definition UIList_add :: "'cb ulist \<Rightarrow> 'cb uilist \<Rightarrow> 'cb uilist" where
  "UIList_add l st = st\<lparr>ul_lists := ul_lists st @ [UIList_prepare l]\<rparr>"

definition scrollbar_of :: "'cb ulist \<Rightarrow> real" where
  "scrollbar_of l = (case ls_scrollbarwidth l of None \<Rightarrow> 50 | Some w \<Rightarrow> w)"

section \<open>Building the page\<close>

text \<open>\<open>{...item, ...list.elementOptions}\<close>\<close>

definition spread_button :: "'cb button \<Rightarrow> 'cb element_options \<Rightarrow> 'cb button" where
  "spread_button item eo =
     item\<lparr>bt_width := eo_width eo,
       bt_height := eo_height eo,
       bt_background := (case eo_background eo of None \<Rightarrow> bt_background item | Some v \<Rightarrow> v),
       bt_foreground := (case eo_foreground eo of None \<Rightarrow> bt_foreground item | Some v \<Rightarrow> v),
       bt_border := (case eo_border eo of None \<Rightarrow> bt_border item | v \<Rightarrow> v),
       bt_hover_border := (case eo_hover_border eo of None \<Rightarrow> bt_hover_border item | v \<Rightarrow> v),
       bt_border_width := (case eo_border_width eo of None \<Rightarrow> bt_border_width item | v \<Rightarrow> v),
       bt_border_radius := (case eo_border_radius eo of None \<Rightarrow> bt_border_radius item | v \<Rightarrow> v),
       bt_font_size := (case eo_font_size eo of None \<Rightarrow> bt_font_size item | v \<Rightarrow> v),
       bt_grd_type := (case eo_grd_type eo of None \<Rightarrow> bt_grd_type item | v \<Rightarrow> v),
       bt_align := (case eo_align eo of None \<Rightarrow> bt_align item | v \<Rightarrow> v),
       bt_displaytext := (case eo_displaytext eo of None \<Rightarrow> bt_displaytext item | v \<Rightarrow> v),
       bt_callback := (case eo_callback eo of None \<Rightarrow> bt_callback item | Some v \<Rightarrow> v)\<rparr>"

text \<open>How many elements fit: \<open>Math.round(size / element - 0.49)\<close>, \<open>None\<close> when the quotient is
  not finite. The remainder and the quotient of \<open>getItemPosition\<close> are not finite when no column
  fits.\<close>

definition max_fit :: "real \<Rightarrow> real \<Rightarrow> int option" where
  "max_fit len elem = (if elem = 0 then None else Some (math_round (len / elem - 49 / 100)))"

definition getItemPosition :: "int \<Rightarrow> int \<Rightarrow> (int \<times> int) option" where
  "getItemPosition max_x_buttons item_index =
     (if max_x_buttons = 0 then None
      else Some (js_rem item_index max_x_buttons,
                 math_round (real_of_int item_index / real_of_int max_x_buttons - 49 / 100)))"

definition max_x_buttons :: "'cb ulist \<Rightarrow> int option" where
  "max_x_buttons l = max_fit (ls_width l - scrollbar_of l)
     (eo_width (ls_elementOptions l) + eo_gap (ls_elementOptions l))"

definition max_y_buttons :: "'cb ulist \<Rightarrow> int option" where
  "max_y_buttons l = max_fit (ls_height l)
     (eo_height (ls_elementOptions l) + eo_gap (ls_elementOptions l))"

text \<open>The button of item \<open>j\<close>, when its place is on the page shown.\<close>

definition item_button :: "int \<Rightarrow> int \<Rightarrow> 'cb ulist \<Rightarrow> nat \<Rightarrow> 'cb button \<Rightarrow> 'cb button option" where
  "item_button mx my l j item =
     (let b = spread_button item (ls_elementOptions l);
          gap = eo_gap (ls_elementOptions l)
      in case getItemPosition mx (int j - (mx * my) * ls_scrollPosition l) of
           None \<Rightarrow> None
         | Some (x, y) \<Rightarrow>
             if y < my \<and> y \<ge> 0
             then Some (b\<lparr>bt_x := ls_x l + real_of_int x * (bt_width b + gap),
                          bt_y := ls_y l + real_of_int y * (bt_height b + gap)\<rparr>)
             else None)"

text \<open>The options object of a scroll button.\<close>

definition scroll_button :: "real \<Rightarrow> real \<Rightarrow> real \<Rightarrow> 'c \<Rightarrow> 'c button" where
  "scroll_button x y w cb =
     \<lparr>bt_x = x, bt_y = y, bt_width = w, bt_height = w, bt_background = [js ''#ffffff''],
      bt_foreground = js ''#000000'', bt_border = Some (js ''#000000''),
      bt_hover_border = Some (js ''#000000''), bt_border_width = Some 3, bt_border_radius = None,
      bt_font_size = None, bt_grd_type = None, bt_align = None, bt_displaytext = None,
      bt_accept_keycode = [], bt_select_file = False, bt_selector_opened = False,
      bt_active = False, bt_name = None, bt_callback = cb\<rparr>"

definition shows_down :: "int option \<Rightarrow> 'cb ulist \<Rightarrow> bool" where
  "shows_down cap l \<longleftrightarrow> ls_items l \<noteq> [] \<and>
     (case cap of None \<Rightarrow> False
      | Some c \<Rightarrow> c * (ls_scrollPosition l + 1) < int (length (ls_items l)))"

definition shows_up :: "'cb ulist \<Rightarrow> bool" where
  "shows_up l \<longleftrightarrow> ls_items l \<noteq> [] \<and> ls_scrollPosition l \<noteq> 0"

definition page_capacity :: "'cb ulist \<Rightarrow> int option" where
  "page_capacity l =
     (case (max_x_buttons l, max_y_buttons l) of (Some mx, Some my) \<Rightarrow> Some (mx * my) | _ \<Rightarrow> None)"

definition createList_one :: "'cb ulist \<Rightarrow> 'cb ulist" where
  "createList_one l =
     (let add_item = (\<lambda>(j, item) ub.
            case (max_x_buttons l, max_y_buttons l) of
              (Some mx, Some my) \<Rightarrow>
                (case item_button mx my l j item of None \<Rightarrow> ub | Some b \<Rightarrow> UIButton_add b ub)
            | _ \<Rightarrow> ub);
          ub = fold add_item (enumerate 0 (ls_items l)) (UIButton_clear (ls_button l));
          sw = scrollbar_of l;
          scroll_x = ls_x l + ls_width l - sw;
          ua = UIArrowButton_clear (ls_arrowbutton l);
          ua1 = (if shows_down (page_capacity l) l
                 then UIArrowButton_add DirDown (scroll_button scroll_x (ls_y l + ls_height l - sw)
                        sw IncreaseScrollPosition) ua
                 else ua);
          ua2 = (if shows_up l
                 then UIArrowButton_add DirUp (scroll_button scroll_x (ls_y l) sw
                        DecreaseScrollPosition) ua1
                 else ua1)
      in l\<lparr>ls_button := ub, ls_arrowbutton := ua2\<rparr>)"

definition UIList_createList :: "'cb uilist \<Rightarrow> 'cb uilist" where
  "UIList_createList st = st\<lparr>ul_lists := map createList_one (ul_lists st)\<rparr>"

section \<open>The closures of a list\<close>

definition UIList_setList :: "nat \<Rightarrow> 'cb button list \<Rightarrow> 'cb uilist \<Rightarrow> 'cb uilist" where
  "UIList_setList i params st =
     UIList_createList (st\<lparr>ul_lists := (ul_lists st)
       [i := (ul_lists st ! i)\<lparr>ls_items := params, ls_scrollPosition := 0\<rparr>]\<rparr>)"

definition UIList_getList :: "nat \<Rightarrow> 'cb uilist \<Rightarrow> 'cb button list" where
  "UIList_getList i st = ls_items (ul_lists st ! i)"

definition UIList_edit :: "nat \<Rightarrow> bool \<Rightarrow> 'cb uilist \<Rightarrow> 'cb uilist" where
  "UIList_edit i state st =
     (if state then st\<lparr>ul_lists := (ul_lists st)[i := (ul_lists st ! i)\<lparr>ls_editmode := True\<rparr>]\<rparr>
      else st)"

fun scroll_step :: "list_cmd \<Rightarrow> int" where
  "scroll_step IncreaseScrollPosition = 1"
| "scroll_step DecreaseScrollPosition = - 1"

definition UIList_scroll :: "nat \<Rightarrow> list_cmd \<Rightarrow> 'cb uilist \<Rightarrow> 'cb uilist" where
  "UIList_scroll i cmd st =
     UIList_createList (st\<lparr>ul_lists := (ul_lists st)
       [i := (ul_lists st ! i)
          \<lparr>ls_scrollPosition := ls_scrollPosition (ul_lists st ! i) + scroll_step cmd\<rparr>]\<rparr>)"

section \<open>Drawing and handlers\<close>

definition UIList_render_one :: "text_measure \<Rightarrow> nat \<Rightarrow> 'cb ulist \<Rightarrow> ctx \<Rightarrow> 'cb ulist \<times> ctx" where
  "UIList_render_one tm i l c =
     (let (ub, c1) = UIButton_render tm (ls_button l) c;
          (ua, c2) = UIArrowButton_render tm (ls_arrowbutton l) c1
      in (l\<lparr>ls_button := ub, ls_arrowbutton := ua\<rparr>, c2))"

definition UIList_render :: "text_measure \<Rightarrow> 'cb uilist \<Rightarrow> ctx \<Rightarrow> 'cb uilist \<times> ctx" where
  "UIList_render tm st c =
     (let (ls, c') = for_each (UIList_render_one tm) 0 (ul_lists st) c
      in (st\<lparr>ul_lists := ls\<rparr>, c'))"

text \<open>A click on one list: first its buttons, then its arrows, whose callbacks rebuild all
  lists before the next list is looked at.\<close>

fun run_list_event ::
  "nat \<Rightarrow> list_cmd ui_event \<Rightarrow> 'cb uilist \<times> 'cb ui_event list \<Rightarrow> 'cb uilist \<times> 'cb ui_event list" where
  "run_list_event i (Callback cmd) (st, evs) = (UIList_scroll i cmd st, evs)"
| "run_list_event i OpenUpload (st, evs) = (st, evs @ [OpenUpload])"
| "run_list_event i _ (st, evs) = (st, evs @ [Repaint])"

definition UIList_click_at ::
  "real \<Rightarrow> real \<Rightarrow> nat \<Rightarrow> 'cb uilist \<times> 'cb ui_event list \<Rightarrow> 'cb uilist \<times> 'cb ui_event list" where
  "UIList_click_at x y i = (\<lambda>(st, evs).
     (let l = ul_lists st ! i;
          (ub, es) = UIButton_onClick x y (ls_button l);
          (ua, cmds) = UIArrowButton_onClick x y (ls_arrowbutton l);
          st1 = st\<lparr>ul_lists := (ul_lists st)[i := l\<lparr>ls_button := ub, ls_arrowbutton := ua\<rparr>]\<rparr>
      in fold (run_list_event i) cmds (st1, evs @ es)))"

definition UIList_onClick ::
  "real \<Rightarrow> real \<Rightarrow> 'cb uilist \<Rightarrow> 'cb uilist \<times> 'cb ui_event list" where
  "UIList_onClick x y st = fold (UIList_click_at x y) [0..<length (ul_lists st)] (st, [])"

text \<open>The index \<open>j\<close> of a \<open>for .. in\<close> loop is a string, so \<open>j + 1\<close> appends a digit: it equals the
  number of buttons when ten times the index plus one does.\<close>

definition mouse_down_scan :: "real \<Rightarrow> real \<Rightarrow> 'cb button list \<Rightarrow> nat option \<Rightarrow> nat option" where
  "mouse_down_scan x y bs =
     fold (\<lambda>(j, b) m.
       (let m1 = (if button_hit x y b then Some j else m)
        in if 10 * j + 1 = length bs then None else m1)) (enumerate 0 bs)"

definition UIList_down_one ::
  "real \<Rightarrow> real \<Rightarrow> nat \<Rightarrow> 'cb ulist \<Rightarrow> 'cb ui_event list \<Rightarrow> 'cb ulist \<times> 'cb ui_event list" where
  "UIList_down_one x y i l evs =
     (let (ub, es) = UIButton_onMouseDown x y (ls_button l);
          (ua, cmds) = UIArrowButton_onMouseDown x y (ls_arrowbutton l)
      in (l\<lparr>ls_button := ub, ls_arrowbutton := ua,
            ls_mouse_down_on := mouse_down_scan x y (ub_buttons ub) (ls_mouse_down_on l)\<rparr>,
          evs @ es @ map (\<lambda>_. Repaint) (cmds :: list_cmd ui_event list)))"

definition UIList_onMouseDown ::
  "real \<Rightarrow> real \<Rightarrow> 'cb uilist \<Rightarrow> 'cb uilist \<times> 'cb ui_event list" where
  "UIList_onMouseDown x y st =
     (let (ls, evs) = for_each (UIList_down_one x y) 0 (ul_lists st) []
      in (st\<lparr>ul_lists := ls\<rparr>, evs))"

definition UIList_onMouseUp ::
  "real \<Rightarrow> real \<Rightarrow> 'cb uilist \<Rightarrow> 'cb uilist \<times> 'cb ui_event list" where
  "UIList_onMouseUp x y st =
     (st\<lparr>ul_lists := map (\<lambda>l. l\<lparr>ls_button := fst (UIButton_onMouseUp x y (ls_button l)),
        ls_arrowbutton :=
          fst (UIArrowButton_onMouseUp x y (ls_arrowbutton l) :: _ \<times> list_cmd ui_event list),
        ls_mouse_down_on := None\<rparr>) (ul_lists st)\<rparr>, [])"

definition UIList_getButtonUnderMouse :: "real \<Rightarrow> real \<Rightarrow> 'cb uilist \<Rightarrow> 'cb button option" where
  "UIList_getButtonUnderMouse x y st =
     List.find (button_hit x y) (concat (map (\<lambda>l. ub_buttons (ls_button l)) (ul_lists st)))"

definition UIList_move_one ::
  "real \<Rightarrow> real \<Rightarrow> nat \<Rightarrow> 'cb ulist \<Rightarrow> 'cb ui_event list \<Rightarrow> 'cb ulist \<times> 'cb ui_event list" where
  "UIList_move_one x y i l evs =
     (let (ub, es) = UIButton_onMouseMove x y (ls_button l);
          (ua, cmds) = UIArrowButton_onMouseMove x y (ls_arrowbutton l)
      in (l\<lparr>ls_button := ub, ls_arrowbutton := ua\<rparr>,
          evs @ es @ map (\<lambda>_. Repaint) (cmds :: list_cmd ui_event list)))"

definition UIList_onMouseMove ::
  "real \<Rightarrow> real \<Rightarrow> 'cb uilist \<Rightarrow> 'cb uilist \<times> 'cb ui_event list" where
  "UIList_onMouseMove x y st =
     (let (ls, evs) = for_each (UIList_move_one x y) 0 (ul_lists st) []
      in (st\<lparr>ul_lists := ls\<rparr>, evs))"

definition UIList_find :: "jsstring option \<Rightarrow> 'cb uilist \<Rightarrow> 'cb ulist option" where
  "UIList_find name st = List.find (\<lambda>l. ls_name l = name) (ul_lists st)"

definition UIList_clear :: "'cb uilist \<Rightarrow> 'cb uilist" where
  "UIList_clear st = st\<lparr>ul_lists := []\<rparr>"
section \<open>What a page shows\<close>

lemma floor_quotient:
  assumes "0 < m" "m < (100 :: int)"
  shows "\<lfloor>real_of_int i / real_of_int m + 1 / 100\<rfloor> = i div m"
proof (rule floor_unique)
  have i: "real_of_int i = real_of_int (i div m) * real_of_int m + real_of_int (i mod m)"
    by (metis div_mult_mod_eq of_int_add of_int_mult)
  have q: "real_of_int i / real_of_int m = real_of_int (i div m) + real_of_int (i mod m) / real_of_int m"
    using assms(1) by (subst i) (simp add: add_divide_distrib)
  have lo: "0 \<le> real_of_int (i mod m) / real_of_int m"
    using assms(1) by simp
  have "real_of_int (i mod m) \<le> real_of_int m - 1"
    using pos_mod_bound [OF assms(1), of i] by linarith
  then have "100 * real_of_int (i mod m) < 99 * real_of_int m"
    using assms(2) by linarith
  then have hi: "real_of_int (i mod m) / real_of_int m < 99 / 100"
    using assms(1) by (simp add: field_simps)
  show "real_of_int (i div m) \<le> real_of_int i / real_of_int m + 1 / 100" using q lo by simp
  show "real_of_int i / real_of_int m + 1 / 100 < real_of_int (i div m) + 1" using q hi by linarith
qed

lemma getItemPosition_div_mod:
  assumes "0 < m" "m < 100"
  shows "getItemPosition m i = Some (js_rem i m, i div m)"
  using floor_quotient [OF assms, of i] assms(1)
  by (simp add: getItemPosition_def math_round_def algebra_simps)

lemma js_rem_nonneg: "0 \<le> i \<Longrightarrow> 0 < m \<Longrightarrow> js_rem i m = i mod m"
  by (auto simp: js_rem_def sgn_if)

lemma on_page:
  assumes "0 < (m :: int)"
  shows "(i div m < k \<and> 0 \<le> i div m) \<longleftrightarrow> 0 \<le> i \<and> i < m * k"
proof -
  have "i div m < k \<longleftrightarrow> i < m * k"
  proof
    assume "i div m < k"
    then have "i div m + 1 \<le> k" by simp
    then have "m * (i div m + 1) \<le> m * k" using assms by simp
    moreover have "i < m * (i div m + 1)"
      using pos_mod_bound [OF assms, of i] mult_div_mod_eq [of m i]
      by (simp only: distrib_left mult_1_right)
    ultimately show "i < m * k" by linarith
  next
    assume i: "i < m * k"
    show "i div m < k"
    proof (rule ccontr)
      assume "\<not> i div m < k"
      then have "m * k \<le> m * (i div m)" using assms by simp
      moreover have "m * (i div m) \<le> i"
        using mult_div_mod_eq [of m i] pos_mod_sign [OF assms, of i] by linarith
      ultimately show False using i by linarith
    qed
  qed
  moreover have "0 \<le> i div m \<longleftrightarrow> 0 \<le> i" using assms by (simp add: pos_imp_zdiv_nonneg_iff)
  ultimately show ?thesis by auto
qed

text \<open>The button of place \<open>k\<close> of a page.\<close>

definition placed :: "int \<Rightarrow> 'cb ulist \<Rightarrow> nat \<Rightarrow> 'cb button \<Rightarrow> 'cb button" where
  "placed mx l k item =
     (let b = spread_button item (ls_elementOptions l);
          gap = eo_gap (ls_elementOptions l)
      in b\<lparr>bt_x := ls_x l + real_of_int (int k mod mx) * (bt_width b + gap),
           bt_y := ls_y l + real_of_int (int k div mx) * (bt_height b + gap)\<rparr>)"

lemma item_button_cases:
  assumes "0 < mx" "mx < 100" "0 < my" "0 \<le> ls_scrollPosition l"
  shows "item_button mx my l j item =
    (let a = nat (mx * my * ls_scrollPosition l) in
       if a \<le> j \<and> j < a + nat (mx * my) then Some (placed mx l (j - a) item) else None)"
proof -
  define a where "a = nat (mx * my * ls_scrollPosition l)"
  have a: "mx * my * ls_scrollPosition l = int a" using assms by (simp add: a_def)
  have c: "int (nat (mx * my)) = mx * my" using assms by simp
  define i where "i = int j - int a"
  have shown: "(i div mx < my \<and> 0 \<le> i div mx) \<longleftrightarrow> a \<le> j \<and> j < a + nat (mx * my)"
    unfolding on_page [OF assms(1)] i_def using c by linarith
  have "item_button mx my l j item =
     (if i div mx < my \<and> 0 \<le> i div mx
      then (let b = spread_button item (ls_elementOptions l); gap = eo_gap (ls_elementOptions l)
            in Some (b\<lparr>bt_x := ls_x l + real_of_int (js_rem i mx) * (bt_width b + gap),
                       bt_y := ls_y l + real_of_int (i div mx) * (bt_height b + gap)\<rparr>))
      else None)"
    unfolding item_button_def a i_def getItemPosition_div_mod [OF assms(1,2)] Let_def
    by simp
  moreover have "js_rem i mx = int (j - a) mod mx" "i div mx = int (j - a) div mx" if "a \<le> j"
    using that assms(1) by (simp_all add: i_def js_rem_nonneg of_nat_diff)
  ultimately show ?thesis
    unfolding Let_def a_def [symmetric] shown
    by (simp add: placed_def Let_def)
qed

lemma fold_add_buttons:
  "ub_buttons (fold (\<lambda>(j, x) ub. case f j x of None \<Rightarrow> ub | Some b \<Rightarrow> UIButton_add b ub) jxs ub) =
     ub_buttons ub @ map UIButton_prepare (List.map_filter (\<lambda>(j, x). f j x) jxs)"
  by (induction jxs arbitrary: ub)
    (auto simp: map_filter_simps ub.items_add split: option.splits)

lemma UIList_page_buttons:
  assumes "max_x_buttons l = Some mx" "max_y_buttons l = Some my"
    "0 < mx" "mx < 100" "0 < my" "0 \<le> ls_scrollPosition l"
  shows "ub_buttons (ls_button (createList_one l)) =
    map (\<lambda>(k, item). UIButton_prepare (placed mx l k item))
      (enumerate 0 (take (nat (mx * my))
        (drop (nat (mx * my * ls_scrollPosition l)) (ls_items l))))"
proof -
  let ?a = "nat (mx * my * ls_scrollPosition l)"
  have w: "item_button mx my l j x =
      (if ?a \<le> j \<and> j < ?a + nat (mx * my) then Some (placed mx l (j - ?a) x) else None)" for j x
    using item_button_cases [OF assms(3-6)] by (simp add: Let_def)
  have "ub_buttons (ls_button (createList_one l)) =
      map UIButton_prepare (List.map_filter (\<lambda>(j, x). item_button mx my l j x)
        (enumerate 0 (ls_items l)))"
    by (simp add: createList_one_def Let_def assms(1,2) fold_add_buttons ub.items_clear)
  then show ?thesis
    unfolding map_filter_window [where h = "placed mx l", OF w]
    by (simp add: comp_def split_beta)
qed

text \<open>Page \<open>p\<close> of a list whose area holds \<open>mx\<close> columns and \<open>my\<close> rows shows exactly the
  items from \<open>mx * my * p\<close> on, \<open>mx * my\<close> of them or as many as are left, in their order, row
  by row from the list's corner: \<open>Math.round(v - 0.49)\<close> is the integer quotient.\<close>

theorem UIList_page:
  assumes "max_x_buttons l = Some mx" "max_y_buttons l = Some my"
    "0 < mx" "mx < 100" "0 < my" "0 \<le> ls_scrollPosition l"
  shows "ub_buttons (ls_button (createList_one l)) =
    map (\<lambda>(k, item). UIButton_prepare (placed mx l k item))
      (enumerate 0 (take (nat (mx * my))
        (drop (nat (mx * my * ls_scrollPosition l)) (ls_items l))))"
  by (rule UIList_page_buttons [OF assms])

definition demo_item :: "string \<Rightarrow> nat button" where
  "demo_item n = (scroll_button 0 0 0 0)\<lparr>bt_name := Some (js n)\<rparr>"

definition demo_list :: "nat ulist" where
  "demo_list = \<lparr>ls_x = 0, ls_y = 0, ls_width = 250, ls_height = 60, ls_scrollbarwidth = Some 50,
     ls_elementOptions = \<lparr>eo_width = 90, eo_height = 50, eo_gap = 10, eo_background = None,
       eo_foreground = None, eo_border = None, eo_hover_border = None, eo_border_width = None,
       eo_border_radius = None, eo_font_size = None, eo_grd_type = None, eo_align = None,
       eo_displaytext = None, eo_callback = None\<rparr>,
     ls_name = None, ls_button = new_UIButton, ls_arrowbutton = new_UIArrowButton,
     ls_editmode = False, ls_items = [demo_item ''a'', demo_item ''b'', demo_item ''c''],
     ls_mouse_down_on = None, ls_scrollPosition = 1\<rparr>"

lemma demo_list_fits: "max_x_buttons demo_list = Some 2" "max_y_buttons demo_list = Some 1"
  by (simp_all add: max_x_buttons_def max_y_buttons_def max_fit_def math_round_def demo_list_def
      scrollbar_of_def)

theorem UIList_page_witness:
  "ub_buttons (ls_button (createList_one demo_list)) =
     [UIButton_prepare (placed 2 demo_list 0 (demo_item ''c''))]"
  using UIList_page [OF demo_list_fits] by (simp add: demo_list_def)
text \<open>Reading the pages one after the other gives every item exactly once, in order.\<close>

theorem UIList_pages_complete:
  assumes "max_x_buttons l = Some mx" "max_y_buttons l = Some my"
    "0 < mx" "mx < 100" "0 < my"
    "int (length (ls_items l)) \<le> mx * my * int n"
  shows "concat (map (\<lambda>p. map bt_name (ub_buttons
             (ls_button (createList_one (l\<lparr>ls_scrollPosition := int p\<rparr>))))) [0..<n])
       = map bt_name (ls_items l)"
proof -
  define c where "c = nat (mx * my)"
  have c: "mx * my = int c" using assms by (simp add: c_def)
  have page: "map bt_name (ub_buttons (ls_button (createList_one (l\<lparr>ls_scrollPosition := int p\<rparr>))))
      = take c (drop (c * p) (map bt_name (ls_items l)))" for p
  proof -
    have f: "max_x_buttons (l\<lparr>ls_scrollPosition := int p\<rparr>) = Some mx"
      "max_y_buttons (l\<lparr>ls_scrollPosition := int p\<rparr>) = Some my"
      using assms(1,2) by (simp_all add: max_x_buttons_def max_y_buttons_def scrollbar_of_def)
    have n: "bt_name (UIButton_prepare (placed mx l' k item)) = bt_name item" for l' k item
      by (simp add: UIButton_prepare_def placed_def spread_button_def Let_def)
    have a: "nat (mx * my * int p) = c * p" unfolding c by (simp flip: of_nat_mult)
    show ?thesis
      unfolding UIList_page_buttons [OF f assms(3-5), simplified] c_def [symmetric] a
      by (simp add: comp_def split_beta n take_map drop_map flip: map_map [of bt_name snd, unfolded comp_def])
  qed
  have "concat (map (\<lambda>p. take c (drop (c * p) xs)) [0..<n]) = take (c * n) xs"
    for xs :: "jsstring option list"
  proof (induction n)
    case 0
    then show ?case by simp
  next
    case (Suc n)
    have "c * Suc n = c * n + c" by simp
    then show ?case using Suc by (simp only: take_add upt_Suc_append) simp
  qed
  moreover have "length (ls_items l) \<le> c * n" using assms(6) unfolding c
    by (simp flip: of_nat_mult)
  ultimately show ?thesis by (simp add: page)
qed
theorem UIList_pages_complete_witness:
  "concat (map (\<lambda>p. map bt_name (ub_buttons
       (ls_button (createList_one (demo_list\<lparr>ls_scrollPosition := int p\<rparr>))))) [0..<2])
     = [Some (js ''a''), Some (js ''b''), Some (js ''c'')]"
  using UIList_pages_complete [OF demo_list_fits, of 2]
  by (simp add: demo_list_def demo_item_def)







section \<open>Paging by the arrows\<close>

text \<open>The page shown has an item (unless there is none at all), and the arrows are those that
  lead to another page.\<close>

definition page_ok :: "'cb ulist \<Rightarrow> bool" where
  "page_ok l \<longleftrightarrow> ls_items l = [] \<or>
     (0 \<le> ls_scrollPosition l \<and>
      (case page_capacity l of
         None \<Rightarrow> ls_scrollPosition l = 0
       | Some c \<Rightarrow> c * ls_scrollPosition l < int (length (ls_items l))))"

definition arrow_cmds :: "'b button uiarrowbutton \<Rightarrow> 'b list list" where
  "arrow_cmds ua = map (\<lambda>a. map bt_callback (ub_buttons (ab_button a))) (ua_arrowbuttons ua)"

definition list_ok :: "'cb ulist \<Rightarrow> bool" where
  "list_ok l \<longleftrightarrow> page_ok l \<and>
     arrow_cmds (ls_arrowbutton l) =
       (if shows_down (page_capacity l) l then [[IncreaseScrollPosition]] else []) @
       (if shows_up l then [[DecreaseScrollPosition]] else [])"

lemma list_geometry [simp]:
  "page_capacity (l\<lparr>ls_button := b\<rparr>) = page_capacity l"
  "page_capacity (l\<lparr>ls_arrowbutton := a\<rparr>) = page_capacity l"
  "page_capacity (l\<lparr>ls_mouse_down_on := m\<rparr>) = page_capacity l"
  "page_capacity (l\<lparr>ls_editmode := e\<rparr>) = page_capacity l"
  "page_capacity (l\<lparr>ls_items := xs\<rparr>) = page_capacity l"
  "page_capacity (l\<lparr>ls_scrollPosition := p\<rparr>) = page_capacity l"
  by (simp_all add: page_capacity_def max_x_buttons_def max_y_buttons_def scrollbar_of_def)

lemma page_ok_frame [simp]:
  "page_ok (l\<lparr>ls_button := b\<rparr>) = page_ok l"
  "page_ok (l\<lparr>ls_arrowbutton := a\<rparr>) = page_ok l"
  "page_ok (l\<lparr>ls_mouse_down_on := m\<rparr>) = page_ok l"
  "page_ok (l\<lparr>ls_editmode := e\<rparr>) = page_ok l"
  by (simp_all add: page_ok_def split: option.splits)

lemma createList_one_fields [simp]:
  "ls_items (createList_one l) = ls_items l"
  "ls_scrollPosition (createList_one l) = ls_scrollPosition l"
  "page_capacity (createList_one l) = page_capacity l"
  by (simp_all add: createList_one_def Let_def)

lemma createList_one_shows [simp]:
  "shows_down c (createList_one l) = shows_down c l"
  "shows_up (createList_one l) = shows_up l"
  by (simp_all add: shows_down_def shows_up_def split: option.splits)

lemma createList_list_ok: "page_ok l \<Longrightarrow> list_ok (createList_one l)"
  unfolding list_ok_def
proof
  assume "page_ok l"
  then show "page_ok (createList_one l)" by (simp add: page_ok_def split: option.splits)
  show "arrow_cmds (ls_arrowbutton (createList_one l)) =
      (if shows_down (page_capacity (createList_one l)) (createList_one l)
       then [[IncreaseScrollPosition]] else []) @
      (if shows_up (createList_one l) then [[DecreaseScrollPosition]] else [])"
    unfolding createList_one_shows createList_one_fields
    by (simp add: createList_one_def Let_def arrow_cmds_def UIArrowButton_add_def
        UIArrowButton_clear_def UIButton_add_def UIButton_prepare_def new_UIButton_def
        scroll_button_def)
qed

definition lists_ok :: "'cb uilist \<Rightarrow> bool" where
  "lists_ok st \<longleftrightarrow> (\<forall>l \<in> set (ul_lists st). list_ok l)"

lemma lists_ok_createList:
  "\<forall>l \<in> set (ul_lists st). page_ok l \<Longrightarrow> lists_ok (UIList_createList st)"
  by (auto simp: lists_ok_def UIList_createList_def intro: createList_list_ok)

lemma lists_ok_change:
  assumes "lists_ok st" "page_ok l'"
  shows "lists_ok (UIList_createList (st\<lparr>ul_lists := (ul_lists st)[i := l']\<rparr>))"
  by (rule lists_ok_createList)
    (use assms set_update_subset_insert [of "ul_lists st" i l'] in \<open>auto simp: lists_ok_def list_ok_def\<close>)

lemma lists_ok_update:
  assumes "lists_ok st" "list_ok l'"
  shows "lists_ok (st\<lparr>ul_lists := (ul_lists st)[i := l']\<rparr>)"
  using assms set_update_subset_insert [of "ul_lists st" i l'] by (auto simp: lists_ok_def)

lemma lists_ok_for_each:
  assumes "lists_ok st" "\<And>i l s. list_ok l \<Longrightarrow> list_ok (fst (f i l s))"
  shows "lists_ok (st\<lparr>ul_lists := fst (for_each f i (ul_lists st) s)\<rparr>)"
  using for_each_inv [of list_ok f, OF assms(2)] assms(1) by (simp add: lists_ok_def)

lemma page_ok_scroll:
  assumes "page_ok l" "cmd = IncreaseScrollPosition \<Longrightarrow> shows_down (page_capacity l) l"
    "cmd = DecreaseScrollPosition \<Longrightarrow> shows_up l"
  shows "page_ok (l\<lparr>ls_scrollPosition := ls_scrollPosition l + scroll_step cmd\<rparr>)"
proof (cases cmd)
  case IncreaseScrollPosition
  then show ?thesis using assms
    by (auto simp: page_ok_def shows_down_def split: option.splits)
next
  case DecreaseScrollPosition
  have "c * (p - 1) < n" if "0 < p" "c * p < n" "0 < n" for c p n :: int
  proof (cases "0 \<le> c")
    case True
    then show ?thesis using that by (simp add: algebra_simps)
  next
    case False
    then have "c * (p - 1) \<le> 0" using that by (simp add: mult_nonpos_nonneg)
    then show ?thesis using that by simp
  qed
  with DecreaseScrollPosition show ?thesis using assms
    by (auto simp: page_ok_def shows_up_def split: option.splits)
qed

text \<open>The callbacks that a click on the arrows of a list causes.\<close>

lemma one_button_click:
  assumes "map bt_callback (ub_buttons ub) = [c]"
  shows "callbacks (snd (UIButton_onClick x y ub)) \<in> {[], [c]}"
  using assms by (auto simp: click_events clicked_def split: option.splits)

lemma same_button_callback: "same_button b b' \<Longrightarrow> bt_callback b' = bt_callback b"
  by (cases b; cases b') (simp add: same_button_def)

lemma same_buttons_callbacks:
  "list_all2 same_button bs bs' \<Longrightarrow> map bt_callback bs' = map bt_callback bs"
  by (induction rule: list_all2_induct) (auto dest: same_button_callback)
text \<open>Handlers that keep the arrows' callbacks keep a list in order.\<close>

lemma list_ok_arrows:
  assumes "list_ok l" "arrow_cmds ua = arrow_cmds (ls_arrowbutton l)"
  shows "list_ok (l\<lparr>ls_button := ub, ls_arrowbutton := ua\<rparr>)"
  using assms by (auto simp: list_ok_def shows_down_def shows_up_def split: option.splits)

lemma list_ok_mouse [simp]: "list_ok (l\<lparr>ls_mouse_down_on := m\<rparr>) = list_ok l"
  by (simp add: list_ok_def shows_down_def shows_up_def split: option.splits)

lemma list_ok_edit [simp]: "list_ok (l\<lparr>ls_editmode := m\<rparr>) = list_ok l"
  by (simp add: list_ok_def shows_down_def shows_up_def split: option.splits)

lemma arrow_cmds_for_each:
  assumes "\<And>i a s. map bt_callback (ub_buttons (ab_button (fst (f i a s)))) =
      map bt_callback (ub_buttons (ab_button a))"
  shows "arrow_cmds (ua\<lparr>ua_arrowbuttons := fst (for_each f i (ua_arrowbuttons ua) s)\<rparr>)
    = arrow_cmds ua"
proof -
  have "map (\<lambda>a. map bt_callback (ub_buttons (ab_button a))) (fst (for_each f i as s)) =
      map (\<lambda>a. map bt_callback (ub_buttons (ab_button a))) as" for i as s
  proof (induction as arbitrary: i s)
    case Nil
    then show ?case by simp
  next
    case (Cons a as)
    then show ?case by (simp add: assms split_beta Let_def)
  qed
  then show ?thesis by (simp add: arrow_cmds_def)
qed

lemma arrow_cmds_forward:
  assumes "\<And>ub. map bt_callback (ub_buttons (fst (h ub))) = map bt_callback (ub_buttons ub)"
  shows "arrow_cmds (fst (arrow_forward h ua)) = arrow_cmds ua"
  unfolding arrow_forward_def split_beta Let_def fst_conv
  by (rule arrow_cmds_for_each) (simp add: assms)

lemma arrow_cmds_handlers [simp]:
  "arrow_cmds (fst (UIArrowButton_onClick x y ua)) = arrow_cmds ua"
  "arrow_cmds (fst (UIArrowButton_onMouseDown x y ua)) = arrow_cmds ua"
  "arrow_cmds (fst (UIArrowButton_onMouseUp x y ua)) = arrow_cmds ua"
  "arrow_cmds (fst (UIArrowButton_onMouseMove x y ua)) = arrow_cmds ua"
  subgoal unfolding UIArrowButton_onClick_def
    by (rule arrow_cmds_forward) (rule same_buttons_callbacks [OF click_keeps_buttons])
  subgoal unfolding UIArrowButton_onMouseDown_def
    by (rule arrow_cmds_forward) (simp add: UIButton_onMouseDown_def split: option.splits)
  subgoal unfolding UIArrowButton_onMouseUp_def
    by (rule arrow_cmds_forward) (simp add: UIButton_onMouseUp_def)
  subgoal unfolding UIArrowButton_onMouseMove_def
    by (rule arrow_cmds_forward) (simp add: UIButton_onMouseMove_def split: option.splits)
  done

lemma arrow_cmds_render [simp]: "arrow_cmds (fst (UIArrowButton_render tm ua c)) = arrow_cmds ua"
  unfolding UIArrowButton_render_def split_beta Let_def fst_conv
  by (rule arrow_cmds_for_each)
    (simp add: UIArrowButton_render_one_def split_beta Let_def
      same_buttons_callbacks [OF render_keeps_buttons])

text \<open>A click on the arrows of a list in order pages forward, backward, or both in turn.\<close>

lemma arrow_click_cmds:
  assumes "list_ok l"
  obtains d u where
    "callbacks (snd (UIArrowButton_onClick x y (ls_arrowbutton l))) =
       (if d then [IncreaseScrollPosition] else []) @ (if u then [DecreaseScrollPosition] else [])"
    "d \<Longrightarrow> shows_down (page_capacity l) l" "u \<Longrightarrow> shows_up l"
proof -
  define as where "as = ua_arrowbuttons (ls_arrowbutton l)"
  define g :: "list_cmd button arrowbutton \<Rightarrow> list_cmd list"
    where "g = (\<lambda>a. callbacks (snd (UIButton_onClick x y (ab_button a))))"
  have cb: "callbacks (snd (UIArrowButton_onClick x y (ls_arrowbutton l))) = concat (map g as)"
    by (simp add: UIArrowButton_onClick_def arrow_forward_events as_def g_def
        callbacks_concat comp_def)
  have m: "map (\<lambda>a. map bt_callback (ub_buttons (ab_button a))) as =
      (if shows_down (page_capacity l) l then [[IncreaseScrollPosition]] else []) @
      (if shows_up l then [[DecreaseScrollPosition]] else [])"
    using assms by (simp add: list_ok_def arrow_cmds_def as_def)
  have one: "g a \<in> {[], [c]}" if "map bt_callback (ub_buttons (ab_button a)) = [c]" for a c
    unfolding g_def by (rule one_button_click [OF that])
  show thesis
  proof (cases "shows_down (page_capacity l) l")
    case D: True
    show thesis
    proof (cases "shows_up l")
      case True
      then obtain a b where "as = [a, b]" "map bt_callback (ub_buttons (ab_button a)) = [IncreaseScrollPosition]"
        "map bt_callback (ub_buttons (ab_button b)) = [DecreaseScrollPosition]"
        using m D by (auto simp: map_eq_Cons_conv)
      then show thesis using that [of "g a \<noteq> []" "g b \<noteq> []"] one [of a] one [of b] D True cb by auto
    next
      case False
      then obtain a where "as = [a]" "map bt_callback (ub_buttons (ab_button a)) = [IncreaseScrollPosition]"
        using m D by (auto simp: map_eq_Cons_conv)
      then show thesis using that [of "g a \<noteq> []" False] one [of a] D cb by auto
    qed
  next
    case D: False
    show thesis
    proof (cases "shows_up l")
      case True
      then obtain b where "as = [b]" "map bt_callback (ub_buttons (ab_button b)) = [DecreaseScrollPosition]"
        using m D by (auto simp: map_eq_Cons_conv)
      then show thesis using that [of False "g b \<noteq> []"] one [of b] True cb by auto
    next
      case False
      then show thesis using that [of False False] m D cb by auto
    qed
  qed
qed
lemma run_list_events:
  "fst (fold (run_list_event i) cmds (st, evs)) = fold (UIList_scroll i) (callbacks cmds) st"
proof (induction cmds arbitrary: st evs)
  case Nil
  then show ?case by simp
next
  case (Cons e cmds)
  then show ?case by (cases e) simp_all
qed

lemma UIList_scroll_nth:
  "i < length (ul_lists st) \<Longrightarrow>
     ul_lists (UIList_scroll i cmd st) ! i = createList_one ((ul_lists st ! i)
       \<lparr>ls_scrollPosition := ls_scrollPosition (ul_lists st ! i) + scroll_step cmd\<rparr>)"
  by (simp add: UIList_scroll_def UIList_createList_def)

lemma UIList_scroll_length [simp]:
  "length (ul_lists (UIList_scroll i cmd st)) = length (ul_lists st)"
  by (simp add: UIList_scroll_def UIList_createList_def)

lemma UIList_scroll_ok:
  assumes "lists_ok st" "i < length (ul_lists st)"
    "cmd = IncreaseScrollPosition \<Longrightarrow> shows_down (page_capacity (ul_lists st ! i)) (ul_lists st ! i)"
    "cmd = DecreaseScrollPosition \<Longrightarrow> shows_up (ul_lists st ! i)"
  shows "lists_ok (UIList_scroll i cmd st)"
  unfolding UIList_scroll_def
proof (rule lists_ok_change [OF assms(1) page_ok_scroll])
  show "page_ok (ul_lists st ! i)"
    using assms(1,2) by (auto simp: lists_ok_def list_ok_def)
qed (use assms(3,4) in auto)

lemma UIList_click_at_ok:
  assumes "lists_ok st" "i < length (ul_lists st)"
  shows "lists_ok (fst (UIList_click_at x y i (st, evs))) \<and>
    length (ul_lists (fst (UIList_click_at x y i (st, evs)))) = length (ul_lists st)"
proof -
  define l where "l = ul_lists st ! i"
  have l: "list_ok l" using assms by (auto simp: lists_ok_def l_def)
  define ub where "ub = UIButton_onClick x y (ls_button l)"
  define ua where "ua = UIArrowButton_onClick x y (ls_arrowbutton l)"
  define l1 where "l1 = l\<lparr>ls_button := fst ub, ls_arrowbutton := fst ua\<rparr>"
  define st1 where "st1 = st\<lparr>ul_lists := (ul_lists st)[i := l1]\<rparr>"
  have l1: "list_ok l1" unfolding l1_def by (rule list_ok_arrows [OF l]) (simp add: ua_def)
  have st1: "lists_ok st1" "i < length (ul_lists st1)" "ul_lists st1 ! i = l1"
    using lists_ok_update [OF assms(1) l1] assms(2) by (simp_all add: st1_def)
  have r: "fst (UIList_click_at x y i (st, evs)) = fold (UIList_scroll i) (callbacks (snd ua)) st1"
    by (simp add: UIList_click_at_def Let_def split_beta run_list_events st1_def l1_def ub_def
        ua_def l_def)
  obtain d u where cb: "callbacks (snd ua) =
      (if d then [IncreaseScrollPosition] else []) @ (if u then [DecreaseScrollPosition] else [])"
    and d: "d \<Longrightarrow> shows_down (page_capacity l) l" and u: "u \<Longrightarrow> shows_up l"
    using arrow_click_cmds [OF l] unfolding ua_def by metis
  have shows1: "shows_down c l1 = shows_down c l" "shows_up l1 = shows_up l"
    "page_capacity l1 = page_capacity l" "ls_scrollPosition l1 = ls_scrollPosition l" for c
    by (simp_all add: l1_def shows_down_def shows_up_def split: option.splits)
  have len: "length (ul_lists (fold (UIList_scroll i) cs s)) = length (ul_lists s)" for cs s
    by (induction cs arbitrary: s) simp_all
  have "lists_ok (fold (UIList_scroll i) (callbacks (snd ua)) st1)"
  proof (cases d)
    case False
    with u show ?thesis unfolding cb
      by (auto intro!: UIList_scroll_ok st1 simp: st1 shows1)
  next
    case True
    let ?st2 = "UIList_scroll i IncreaseScrollPosition st1"
    have st2: "lists_ok ?st2"
      using d [OF True] by (intro UIList_scroll_ok st1) (simp_all add: st1 shows1)
    have "shows_up (ul_lists ?st2 ! i)" if u
    proof -
      have "page_ok l" using l by (simp add: list_ok_def)
      with u [OF that] have "ls_items l \<noteq> []" "0 \<le> ls_scrollPosition l"
        by (auto simp: shows_up_def page_ok_def)
      then show ?thesis
        by (simp add: UIList_scroll_nth [OF st1(2)] st1(3) shows1)
          (simp add: shows_up_def l1_def)
    qed
    with True st2 show ?thesis unfolding cb
      by (auto intro!: UIList_scroll_ok simp: st1)
  qed
  then show ?thesis unfolding r by (simp add: len) (simp add: st1_def)
qed

lemma UIList_onClick_ok:
  assumes "lists_ok st"
  shows "lists_ok (fst (UIList_onClick x y st))"
proof -
  have "lists_ok (fst (fold (UIList_click_at x y) is (s, evs)))"
    if "\<forall>i \<in> set is. i < n" "lists_ok s" "length (ul_lists s) = n" for "is" s evs n
    using that
  proof (induction "is" arbitrary: s evs)
    case Nil
    then show ?case by simp
  next
    case (Cons i "is")
    obtain s' evs' where s': "UIList_click_at x y i (s, evs) = (s', evs')"
      by (cases "UIList_click_at x y i (s, evs)")
    with UIList_click_at_ok [of s i x y evs] Cons.prems have "lists_ok s'" "length (ul_lists s') = n"
      by simp_all
    with Cons.IH [of s' evs'] Cons.prems show ?case by (simp add: s')
  qed
  from this [of "[0..<length (ul_lists st)]" "length (ul_lists st)" st "[]"] assms
  show ?thesis by (simp add: UIList_onClick_def)
qed

text \<open>Everything that can happen to a \<open>UIList\<close>.\<close>

inductive UIList_reach :: "'cb uilist \<Rightarrow> bool" where
  reach_new: "UIList_reach new_UIList"
| reach_add: "UIList_reach st \<Longrightarrow> UIList_reach (UIList_add l st)"
| reach_clear: "UIList_reach st \<Longrightarrow> UIList_reach (UIList_clear st)"
| reach_setList: "UIList_reach st \<Longrightarrow> UIList_reach (UIList_setList i items st)"
| reach_edit: "UIList_reach st \<Longrightarrow> UIList_reach (UIList_edit i b st)"
| reach_render: "UIList_reach st \<Longrightarrow> UIList_reach (fst (UIList_render tm st c))"
| reach_click: "UIList_reach st \<Longrightarrow> UIList_reach (fst (UIList_onClick x y st))"
| reach_down: "UIList_reach st \<Longrightarrow> UIList_reach (fst (UIList_onMouseDown x y st))"
| reach_up: "UIList_reach st \<Longrightarrow> UIList_reach (fst (UIList_onMouseUp x y st))"
| reach_move: "UIList_reach st \<Longrightarrow> UIList_reach (fst (UIList_onMouseMove x y st))"

lemma reach_lists_ok: "UIList_reach st \<Longrightarrow> lists_ok st"
proof (induction rule: UIList_reach.induct)
  case reach_new
  then show ?case by (simp add: lists_ok_def new_UIList_def)
next
  case (reach_add st l)
  have "list_ok (UIList_prepare l)"
    by (simp add: list_ok_def page_ok_def UIList_prepare_def arrow_cmds_def new_UIArrowButton_def
        shows_down_def shows_up_def)
  with reach_add show ?case by (auto simp: lists_ok_def UIList_add_def)
next
  case (reach_setList st i items)
  have "page_ok ((ul_lists st ! i)\<lparr>ls_items := items, ls_scrollPosition := 0\<rparr>)"
    by (auto simp: page_ok_def split: option.splits)
  with reach_setList show ?case unfolding UIList_setList_def by (intro lists_ok_change)
next
  case (reach_edit st i b)
  show ?case
  proof (cases "i < length (ul_lists st)")
    case True
    then have "list_ok ((ul_lists st ! i)\<lparr>ls_editmode := True\<rparr>)"
      using reach_edit by (simp add: lists_ok_def)
    with reach_edit show ?thesis by (simp add: UIList_edit_def lists_ok_update)
  next
    case False
    with reach_edit show ?thesis by (simp add: UIList_edit_def lists_ok_def not_less list_update_beyond)
  qed
next
  case (reach_render st tm c)
  show ?case unfolding UIList_render_def split_beta Let_def fst_conv
    by (rule lists_ok_for_each [OF reach_render(2)])
      (simp add: UIList_render_one_def split_beta Let_def list_ok_arrows)
next
  case (reach_down st x y)
  show ?case unfolding UIList_onMouseDown_def split_beta Let_def fst_conv
    by (rule lists_ok_for_each [OF reach_down(2)])
      (simp add: UIList_down_one_def split_beta Let_def list_ok_arrows)
next
  case (reach_move st x y)
  show ?case unfolding UIList_onMouseMove_def split_beta Let_def fst_conv
    by (rule lists_ok_for_each [OF reach_move(2)])
      (simp add: UIList_move_one_def split_beta Let_def list_ok_arrows)
next
  case (reach_up st x y)
  then show ?case by (auto simp: UIList_onMouseUp_def lists_ok_def list_ok_arrows)
next
  case (reach_click st x y)
  then show ?case by (simp add: UIList_onClick_ok)
qed (simp add: lists_ok_def UIList_clear_def)

section \<open>What is on the screen\<close>

text \<open>The buttons of the page at the scroll position, for a list whose area holds \<open>mx\<close> columns and \<open>my\<close>
  rows, and a list that shows them (up to the texts that drawing breaks and the state of a file button).\<close>

definition page_buttons :: "int \<Rightarrow> int \<Rightarrow> 'cb ulist \<Rightarrow> 'cb button list" where
  "page_buttons mx my l =
     map (\<lambda>(k, item). UIButton_prepare (placed mx l k item))
       (enumerate 0 (take (nat (mx * my)) (drop (nat (mx * my * ls_scrollPosition l)) (ls_items l))))"

definition fits :: "'cb ulist \<Rightarrow> int \<Rightarrow> int \<Rightarrow> bool" where
  "fits l mx my \<longleftrightarrow> max_x_buttons l = Some mx \<and> max_y_buttons l = Some my \<and> 0 < mx \<and> mx < 100 \<and> 0 < my"

definition page_shown :: "'cb ulist \<Rightarrow> bool" where
  "page_shown l \<longleftrightarrow> (\<forall>mx my. fits l mx my \<longrightarrow>
     list_all2 same_button (page_buttons mx my l) (ub_buttons (ls_button l)))"

definition lists_shown :: "'cb uilist \<Rightarrow> bool" where
  "lists_shown st \<longleftrightarrow> (\<forall>l \<in> set (ul_lists st). page_shown l)"

lemma same_button_trans: "same_button a b \<Longrightarrow> same_button b c \<Longrightarrow> same_button a c"
  by (simp add: same_button_def)

lemma same_button_refl: "list_all2 same_button bs bs"
  by (simp add: list_all2_refl same_button_def)

lemma page_fields [simp]:
  "fits (l\<lparr>ls_button := ub, ls_arrowbutton := ua\<rparr>) mx my = fits l mx my"
  "page_buttons mx my (l\<lparr>ls_button := ub, ls_arrowbutton := ua\<rparr>) = page_buttons mx my l"
  by (simp_all add: fits_def max_x_buttons_def max_y_buttons_def scrollbar_of_def page_buttons_def
      placed_def Let_def)

lemma page_shown_frame [simp]:
  "page_shown (l\<lparr>ls_mouse_down_on := m\<rparr>) = page_shown l" "page_shown (l\<lparr>ls_editmode := e\<rparr>) = page_shown l"
  by (simp_all add: page_shown_def fits_def max_x_buttons_def max_y_buttons_def scrollbar_of_def
      page_buttons_def placed_def Let_def)

lemma createList_shown: "page_ok l \<Longrightarrow> page_shown (createList_one l)"
proof -
  assume ok: "page_ok l"
  obtain ub ua where c: "createList_one l = l\<lparr>ls_button := ub, ls_arrowbutton := ua\<rparr>"
    by (simp add: createList_one_def Let_def)
  have "ub_buttons (ls_button (createList_one l)) = page_buttons mx my l" if "fits l mx my" for mx my
  proof (cases "ls_items l = []")
    case True
    then show ?thesis
      by (simp add: createList_one_def Let_def fold_add_buttons ub.items_clear page_buttons_def)
  next
    case False
    then have "0 \<le> ls_scrollPosition l" using ok by (simp add: page_ok_def)
    then show ?thesis using that UIList_page_buttons [of l mx my] by (simp add: fits_def page_buttons_def)
  qed
  then show ?thesis by (simp add: page_shown_def c same_button_refl)
qed

lemma lists_shown_createList: "lists_ok (UIList_createList st) \<Longrightarrow> lists_shown (UIList_createList st)"
  by (auto simp: lists_ok_def lists_shown_def UIList_createList_def list_ok_def page_ok_def
      intro!: createList_shown split: option.splits)

lemma page_shown_handler:
  assumes "page_shown l" "list_all2 same_button (ub_buttons (ls_button l)) (ub_buttons ub)"
  shows "page_shown (l\<lparr>ls_button := ub, ls_arrowbutton := ua\<rparr>)"
  unfolding page_shown_def page_fields
proof (intro allI impI)
  fix mx my assume "fits l mx my"
  then have "list_all2 same_button (page_buttons mx my l) (ub_buttons (ls_button l))"
    using assms(1) by (simp add: page_shown_def)
  from list_all2_trans [OF same_button_trans this assms(2)]
  show "list_all2 same_button (page_buttons mx my l) (ub_buttons (ls_button (l\<lparr>ls_button := ub, ls_arrowbutton := ua\<rparr>)))"
    by simp
qed

lemma lists_shown_update:
  "lists_shown st \<Longrightarrow> page_shown l' \<Longrightarrow> lists_shown (st\<lparr>ul_lists := (ul_lists st)[i := l']\<rparr>)"
  using set_update_subset_insert [of "ul_lists st" i l'] by (auto simp: lists_shown_def)

lemma lists_shown_for_each:
  assumes "lists_shown st" "\<And>i l s. page_shown l \<Longrightarrow> page_shown (fst (f i l s))"
  shows "lists_shown (st\<lparr>ul_lists := fst (for_each f i (ul_lists st) s)\<rparr>)"
  using for_each_inv [of page_shown f, OF assms(2)] assms(1) by (simp add: lists_shown_def)

lemma mouse_keeps_buttons:
  "list_all2 same_button (ub_buttons ub) (ub_buttons (fst (UIButton_onMouseDown x y ub)))"
  "list_all2 same_button (ub_buttons ub) (ub_buttons (fst (UIButton_onMouseUp x y ub)))"
  "list_all2 same_button (ub_buttons ub) (ub_buttons (fst (UIButton_onMouseMove x y ub)))"
  by (simp_all add: UIButton_onMouseDown_def UIButton_onMouseUp_def UIButton_onMouseMove_def
      same_button_refl split: option.splits)

lemma click_at_shown:
  assumes "lists_ok st" "lists_shown st" "i < length (ul_lists st)"
  shows "lists_shown (fst (UIList_click_at x y i (st, evs)))"
proof -
  define l where "l = ul_lists st ! i"
  define cs where "cs = callbacks (snd (UIArrowButton_onClick x y (ls_arrowbutton l)))"
  define st1 where "st1 = st\<lparr>ul_lists := (ul_lists st)[i := l\<lparr>ls_button := fst (UIButton_onClick x y (ls_button l)),
      ls_arrowbutton := fst (UIArrowButton_onClick x y (ls_arrowbutton l))\<rparr>]\<rparr>"
  have r: "fst (UIList_click_at x y i (st, evs)) = fold (UIList_scroll i) cs st1"
    by (simp add: UIList_click_at_def Let_def split_beta run_list_events st1_def l_def cs_def)
  show ?thesis
  proof (cases cs rule: rev_cases)
    case Nil
    have "page_shown l" using assms(2,3) by (simp add: lists_shown_def l_def)
    then show ?thesis unfolding r Nil st1_def
      by (simp add: lists_shown_update assms(2) page_shown_handler click_keeps_buttons)
  next
    case (snoc cs' c)
    have "lists_ok (UIList_scroll i c (fold (UIList_scroll i) cs' st1))"
      using UIList_click_at_ok [OF assms(1,3), of x y evs] unfolding r snoc by simp
    then show ?thesis unfolding r snoc fold_append comp_apply fold_simps
      unfolding UIList_scroll_def [of i c] by (rule lists_shown_createList)
  qed
qed

lemma onClick_shown:
  assumes "lists_ok st" "lists_shown st"
  shows "lists_shown (fst (UIList_onClick x y st))"
proof -
  have "lists_shown (fst (fold (UIList_click_at x y) is (s, evs)))"
    if "\<forall>i \<in> set is. i < n" "lists_ok s" "lists_shown s" "length (ul_lists s) = n" for "is" s evs n
    using that
  proof (induction "is" arbitrary: s evs)
    case (Cons i "is")
    obtain s' evs' where s': "UIList_click_at x y i (s, evs) = (s', evs')"
      by (cases "UIList_click_at x y i (s, evs)")
    with UIList_click_at_ok [of s i x y evs] click_at_shown [of s i x y evs] Cons.prems
    have "lists_ok s'" "lists_shown s'" "length (ul_lists s') = n" by simp_all
    with Cons.IH [of s' evs'] Cons.prems show ?case by (simp add: s')
  qed simp
  from this [of "[0..<length (ul_lists st)]" "length (ul_lists st)" st "[]"] assms
  show ?thesis by (simp add: UIList_onClick_def)
qed

lemma reach_lists_shown: "UIList_reach st \<Longrightarrow> lists_shown st"
proof (induction rule: UIList_reach.induct)
  case (reach_add st l)
  have "page_shown (UIList_prepare l)"
    by (simp add: page_shown_def UIList_prepare_def page_buttons_def new_UIButton_def)
  with reach_add show ?case by (auto simp: lists_shown_def UIList_add_def)
next
  case (reach_setList st i items)
  have "lists_ok (UIList_setList i items st)"
    by (rule reach_lists_ok [OF UIList_reach.reach_setList [OF reach_setList(1)]])
  then show ?case unfolding UIList_setList_def by (rule lists_shown_createList)
next
  case (reach_edit st i b)
  show ?case
  proof (cases "i < length (ul_lists st)")
    case True
    then have "page_shown ((ul_lists st ! i)\<lparr>ls_editmode := True\<rparr>)"
      using reach_edit by (simp add: lists_shown_def)
    with reach_edit show ?thesis by (simp add: UIList_edit_def lists_shown_update)
  next
    case False
    with reach_edit show ?thesis by (simp add: UIList_edit_def lists_shown_def not_less list_update_beyond)
  qed
next
  case (reach_render st tm c)
  show ?case unfolding UIList_render_def split_beta Let_def fst_conv
    by (rule lists_shown_for_each [OF reach_render(2)])
      (simp add: UIList_render_one_def split_beta Let_def page_shown_handler render_keeps_buttons)
next
  case (reach_down st x y)
  show ?case unfolding UIList_onMouseDown_def split_beta Let_def fst_conv
    by (rule lists_shown_for_each [OF reach_down(2)])
      (simp add: UIList_down_one_def split_beta Let_def page_shown_handler mouse_keeps_buttons)
next
  case (reach_move st x y)
  show ?case unfolding UIList_onMouseMove_def split_beta Let_def fst_conv
    by (rule lists_shown_for_each [OF reach_move(2)])
      (simp add: UIList_move_one_def split_beta Let_def page_shown_handler mouse_keeps_buttons)
next
  case (reach_up st x y)
  then show ?case
    by (auto simp: UIList_onMouseUp_def lists_shown_def page_shown_handler mouse_keeps_buttons)
next
  case (reach_click st x y)
  then show ?case by (intro onClick_shown reach_lists_ok)
qed (simp_all add: lists_shown_def UIList_clear_def new_UIList_def)

text \<open>C15: Whatever the user clicks and whatever lists the program sets, a list with items whose area holds at
  least one row and one column (and fewer than a hundred columns) shows buttons: those of the items of its page,
  in their places, at least one. Its arrows are exactly those that lead to another page with items.\<close>

theorem UIList_never_empty_page:
  assumes "UIList_reach st" "l \<in> set (ul_lists st)" "ls_items l \<noteq> []"
    and "max_x_buttons l = Some mx" "max_y_buttons l = Some my" "0 < mx" "mx < 100" "0 < my"
  shows "0 \<le> ls_scrollPosition l \<and> ub_buttons (ls_button l) \<noteq> [] \<and>
    list_all2 same_button
      (map (\<lambda>(k, item). UIButton_prepare (placed mx l k item))
        (enumerate 0 (take (nat (mx * my)) (drop (nat (mx * my * ls_scrollPosition l)) (ls_items l)))))
      (ub_buttons (ls_button l)) \<and>
    arrow_cmds (ls_arrowbutton l) =
      (if mx * my * (ls_scrollPosition l + 1) < int (length (ls_items l)) then [[IncreaseScrollPosition]] else []) @
      (if ls_scrollPosition l \<noteq> 0 then [[DecreaseScrollPosition]] else [])"
proof -
  have ok: "list_ok l" using reach_lists_ok [OF assms(1)] assms(2) by (simp add: lists_ok_def)
  have c: "page_capacity l = Some (mx * my)" using assms(4,5) by (simp add: page_capacity_def)
  have p: "0 \<le> ls_scrollPosition l" "mx * my * ls_scrollPosition l < int (length (ls_items l))"
    using ok assms(3) c by (simp_all add: list_ok_def page_ok_def)
  have s: "list_all2 same_button (page_buttons mx my l) (ub_buttons (ls_button l))"
    using reach_lists_shown [OF assms(1)] assms(2,4-8)
    by (simp add: lists_shown_def page_shown_def fits_def)
  have "0 < mx * my" using assms(6,8) by simp
  moreover have "nat (mx * my * ls_scrollPosition l) < length (ls_items l)" proof -
    have "0 < length (ls_items l)" using assms(3) by simp
    then show ?thesis using p(2) by linarith
  qed
  ultimately have "page_buttons mx my l \<noteq> []"
    by (simp add: page_buttons_def flip: length_greater_0_conv)
  then have "ub_buttons (ls_button l) \<noteq> []" using s by auto
  moreover have "arrow_cmds (ls_arrowbutton l) =
      (if mx * my * (ls_scrollPosition l + 1) < int (length (ls_items l)) then [[IncreaseScrollPosition]] else []) @
      (if ls_scrollPosition l \<noteq> 0 then [[DecreaseScrollPosition]] else [])"
    using ok assms(3) by (simp add: list_ok_def shows_down_def shows_up_def c)
  ultimately show ?thesis using p(1) s by (simp add: page_buttons_def)
qed

definition demo_state :: "nat uilist" where
  "demo_state = UIList_setList 0 (ls_items demo_list) (UIList_add demo_list new_UIList)"

theorem UIList_never_empty_page_witness:
  "ub_buttons (ls_button (ul_lists demo_state ! 0)) \<noteq> [] \<and>
   arrow_cmds (ls_arrowbutton (ul_lists demo_state ! 0)) = [[IncreaseScrollPosition]]"
proof -
  have r: "UIList_reach demo_state"
    unfolding demo_state_def by (intro reach_setList reach_add reach_new)
  obtain ub ua where l: "ul_lists demo_state =
      [(UIList_prepare demo_list)\<lparr>ls_items := ls_items demo_list, ls_scrollPosition := 0, ls_button := ub,
         ls_arrowbutton := ua\<rparr>]"
    by (simp add: demo_state_def UIList_setList_def UIList_createList_def UIList_add_def new_UIList_def
        createList_one_def Let_def)
  have "max_x_buttons (ul_lists demo_state ! 0) = Some 2" "max_y_buttons (ul_lists demo_state ! 0) = Some 1"
    using demo_list_fits by (simp_all add: l max_x_buttons_def max_y_buttons_def scrollbar_of_def UIList_prepare_def demo_list_def)
  from UIList_never_empty_page [OF r _ _ this] show ?thesis
    by (simp add: l) (simp add: demo_list_def UIList_prepare_def)
qed

section \<open>The lists as a named collection\<close>

interpretation ul: named_collection ul_lists ls_name UIList_prepare UIList_add UIList_find UIList_clear
  by unfold_locales
    (simp_all add: UIList_add_def UIList_prepare_def UIList_find_def UIList_clear_def)

lemma UIList_render_nested: "draws_nested (\<lambda>c. snd (UIList_render tm st c))"
proof -
  have "draws_nested (\<lambda>c. snd (UIList_render_one tm i l c))" for i and l :: "'a ulist"
    using draws_nested_comp [OF UIButton_render_nested [of tm "ls_button l"]
        UIArrowButton_render_nested [of tm "ls_arrowbutton l"]]
    by (simp add: UIList_render_one_def split_beta Let_def)
  from for_each_nested [of "UIList_render_one tm", OF this, of 0 "ul_lists st"] show ?thesis
    by (simp add: UIList_render_def split_beta Let_def)
qed

end
