(* ===== verification/ScrollLists.thy ===== *)
theory ScrollLists
  imports Buttons
begin

text \<open>
  \<open>UIListItem\<close> (\<open>canvasuijs/uilistitem.js\<close>), the lines of a list, and \<open>UIScrollList\<close>
  (\<open>canvasuijs/uiscrolllist.js\<close>), which shows a window of its list through them.

  A line's callback is the closure \<open>setSelected\<close> of its list with the line's id; an id is the
  index of the line's item. The closures that \<open>add\<close> puts into the options of a scroll list are
  definitions on the record \<open>scrolllist\<close> that also count their calls of \<open>update()\<close>; the calls
  are carried out on all scroll lists. An item provides the type, the parts, the quantity and the
  article of its line. The texts that drawing writes into the parts of a line are kept in the
  line, not in the item it was made from.
\<close>

section \<open>UIListItem\<close>

datatype line_type = LineText | LineTextline | LineOther

record lineitem =
  lp_location :: real
  lp_align :: "align option"
  lp_displaytext :: jsstring
  lp_start :: real
  lp_end :: real

record listitem =
  li_x :: real
  li_y :: real
  li_width :: real
  li_height :: real
  li_font_size :: real
  li_border_width :: real
  li_selected :: "nat option"
  li_id :: nat
  li_selectedBackground :: "jsstring option"
  li_foreground :: "jsstring option"
  li_type :: line_type
  li_qty :: "int option"
  li_article_price :: "int option"
  li_lineitem :: "lineitem list"

record uilistitem =
  ui_listitems :: "listitem list"
  ui_mouse_down_on :: "nat option"

definition new_UIListItem :: uilistitem where
  "new_UIListItem = \<lparr>ui_listitems = [], ui_mouse_down_on = None\<rparr>"

definition UIListItem_add :: "listitem \<Rightarrow> uilistitem \<Rightarrow> uilistitem" where
  "UIListItem_add l st = st\<lparr>ui_listitems := ui_listitems st @ [l]\<rparr>"

text \<open>The text of a part: the quantity is part 1 and the price part 3 of an article's line. A
  missing quantity makes the price \<open>NaN\<close>.\<close>

definition line_text :: "listitem \<Rightarrow> nat \<Rightarrow> lineitem \<Rightarrow> jsstring" where
  "line_text l j p =
     (case li_qty l of
        Some q \<Rightarrow> if q \<noteq> 0 \<and> j = 1 then int_to_string q
                  else (case li_article_price l of
                          Some price \<Rightarrow> if j = 3 then centToEuros (price * q) else lp_displaytext p
                        | None \<Rightarrow> lp_displaytext p)
      | None \<Rightarrow> (case li_article_price l of
                   Some price \<Rightarrow> if j = 3 then centToEuros_text (js ''NaN'') else lp_displaytext p
                 | None \<Rightarrow> lp_displaytext p))"

text \<open>How often the loop \<open>for (k = 0; k <= Math.round(linewidth / text_width - 0.49); k++)\<close>
  runs; \<open>None\<close> when the bound is infinite and the loop never ends.\<close>

definition textline_count :: "real \<Rightarrow> real \<Rightarrow> nat option" where
  "textline_count linewidth text_width =
     (case js_shift (- (49 / 100)) (js_div linewidth text_width) of
        Fin r \<Rightarrow> Some (nat (math_round r + 1))
      | PosInf \<Rightarrow> None
      | _ \<Rightarrow> Some 0)"

definition line_y :: "listitem \<Rightarrow> real" where
  "line_y l = li_y l + li_height l / 2 + li_font_size l / (27 / 10)"

definition render_part ::
  "text_measure \<Rightarrow> listitem \<Rightarrow> nat \<Rightarrow> lineitem \<Rightarrow> ctx \<Rightarrow> (lineitem \<times> ctx) option" where
  "render_part tm l j p c =
     (case li_type l of
        LineText \<Rightarrow>
          (case lp_align p of
             Some AlignRight \<Rightarrow>
               (let t = line_text l j p
                in Some (p\<lparr>lp_displaytext := t\<rparr>,
                         emit [FillText t (li_x l + li_width l * lp_location p) (line_y l)] c))
           | Some AlignLeft \<Rightarrow>
               (let t = line_text l j p
                in Some (p\<lparr>lp_displaytext := t\<rparr>,
                         emit [FillText t (li_x l + li_width l * lp_location p - tm c t)
                                 (line_y l)] c))
           | _ \<Rightarrow> Some (p, c))
      | LineTextline \<Rightarrow>
          (let linewidth = li_width l * (lp_end p - lp_start p)
           in case textline_count linewidth (tm c (lp_displaytext p)) of
                None \<Rightarrow> None
              | Some n \<Rightarrow>
                  Some (p, emit [FillText (concat (replicate n (lp_displaytext p)))
                                   (li_x l + li_width l * lp_start p) (line_y l)] c))
      | LineOther \<Rightarrow> Some (p, c))"

definition UIListItem_render_one ::
  "text_measure \<Rightarrow> nat \<Rightarrow> listitem \<Rightarrow> ctx \<Rightarrow> (listitem \<times> ctx) option" where
  "UIListItem_render_one tm i l c =
     (let c1 = emit ([SetFill (opt_color (li_selectedBackground l))]
                 @ (if li_selected l = Some (li_id l)
                    then [FillRect (li_x l + li_border_width l / (18 / 10))
                            (li_y l + li_border_width l / 2)
                            (li_width l - li_border_width l * (12 / 10)) (li_height l)] else [])
                 @ [SetFill (opt_color (li_foreground l)), SetStroke (opt_color (li_foreground l)),
                    SetFont (Some (li_font_size l))]) c
      in case for_each_opt (render_part tm l) 0 (li_lineitem l) c1 of
           None \<Rightarrow> None
         | Some (ps, c2) \<Rightarrow> Some (l\<lparr>li_lineitem := ps\<rparr>, c2))"

definition UIListItem_render ::
  "text_measure \<Rightarrow> uilistitem \<Rightarrow> ctx \<Rightarrow> (uilistitem \<times> ctx) option" where
  "UIListItem_render tm st c =
     (case for_each_opt (UIListItem_render_one tm) 0 (ui_listitems st) c of
        None \<Rightarrow> None
      | Some (ls, c') \<Rightarrow> Some (st\<lparr>ui_listitems := ls\<rparr>, c'))"

definition line_hit :: "real \<Rightarrow> real \<Rightarrow> listitem \<Rightarrow> bool" where
  "line_hit x y l =
     (let startx = li_x l + li_border_width l / (18 / 10);
          starty = li_y l + li_border_width l / 2
      in in_box startx starty (li_width l - li_border_width l * (12 / 10) + startx)
           (starty + li_height l) x y)"

text \<open>The events are the calls of \<open>listitem.callback(listitem.id)\<close>.\<close>

definition UIListItem_onClick :: "real \<Rightarrow> real \<Rightarrow> uilistitem \<Rightarrow> uilistitem \<times> nat ui_event list" where
  "UIListItem_onClick x y st =
     (st\<lparr>ui_mouse_down_on := None\<rparr>,
      concat (map (\<lambda>(i, l). if line_hit x y l \<and> ui_mouse_down_on st = Some i
                            then [Callback (li_id l)] else []) (enumerate 0 (ui_listitems st))))"

definition UIListItem_onMouseDown :: "real \<Rightarrow> real \<Rightarrow> uilistitem \<Rightarrow> uilistitem" where
  "UIListItem_onMouseDown x y st =
     st\<lparr>ui_mouse_down_on :=
       fold (\<lambda>(i, l) m. if line_hit x y l then Some i else m) (enumerate 0 (ui_listitems st))
         (ui_mouse_down_on st)\<rparr>"

definition UIListItem_onMouseUp :: "real \<Rightarrow> real \<Rightarrow> uilistitem \<Rightarrow> uilistitem" where
  "UIListItem_onMouseUp x y st = st"

definition UIListItem_onMouseMove :: "real \<Rightarrow> real \<Rightarrow> uilistitem \<Rightarrow> uilistitem" where
  "UIListItem_onMouseMove x y st = st"

definition UIListItem_find :: "jsstring option \<Rightarrow> uilistitem \<Rightarrow> listitem option" where
  "UIListItem_find name st = None"

definition UIListItem_clear :: "uilistitem \<Rightarrow> uilistitem" where
  "UIListItem_clear st = st\<lparr>ui_listitems := []\<rparr>"

section \<open>UIScrollList\<close>

datatype scroll_cmd = ScrollUp | ScrollDown | PreviousPage | NextPage

text \<open>An item of the list, and the options that a list is added with.\<close>

record scroll_item =
  si_type :: line_type
  si_qty :: "int option"
  si_article_price :: "int option"
  si_lineitem :: "lineitem list"

record scrolllist =
  sl_x :: real
  sl_y :: real
  sl_width :: real
  sl_height :: real
  sl_pagescrollbuttonheight :: real
  sl_scrollbarwidth :: real
  sl_border_width :: real
  sl_border_radius :: "real option"
  sl_border :: "jsstring option"
  sl_hover_border :: "jsstring option"
  sl_background :: "jsstring list"
  sl_foreground :: jsstring
  sl_scrollbarbackground :: "jsstring option"
  sl_grd_type :: "grd_type option"
  sl_font_size :: "real option"
  sl_item_height :: real
  sl_item_font_size :: real
  sl_item_selectedBackground :: "jsstring option"
  sl_name :: "jsstring option"
  sl_callback :: bool
  sl_selectedID :: "nat option"
  sl_listitem :: uilistitem
  sl_arrowbutton :: "scroll_cmd button uiarrowbutton"
  sl_scrollposition :: int
  sl_list :: "scroll_item list"
  sl_max_scrolllist_items :: int
  sl_scrollbarsize :: jsnum
  sl_scrollbar_y :: jsnum
  sl_mousedown_scrollbar_y :: "jsnum option"

record uiscrolllist =
  us_scrolllists :: "scrolllist list"

definition new_UIScrollList :: uiscrolllist where
  "new_UIScrollList = \<lparr>us_scrolllists = []\<rparr>"

definition max_scrollbarheight :: "scrolllist \<Rightarrow> real" where
  "max_scrollbarheight l =
     sl_height l - sl_pagescrollbuttonheight l - 2 * sl_scrollbarwidth l - sl_border_width l"

definition scroll_arrow :: "scrolllist \<Rightarrow> real \<Rightarrow> real \<Rightarrow> real \<Rightarrow> real \<Rightarrow> scroll_cmd \<Rightarrow> scroll_cmd button" where
  "scroll_arrow l x y w h cb =
     \<lparr>bt_x = x, bt_y = y, bt_width = w, bt_height = h, bt_background = sl_background l,
      bt_foreground = sl_foreground l, bt_border = sl_border l,
      bt_hover_border = sl_hover_border l, bt_border_width = Some (sl_border_width l),
      bt_border_radius = None, bt_font_size = None, bt_grd_type = None, bt_align = None,
      bt_displaytext = None, bt_accept_keycode = [], bt_select_file = False,
      bt_selector_opened = False, bt_active = False, bt_name = None, bt_callback = cb\<rparr>"

definition UIScrollList_prepare :: "scrolllist \<Rightarrow> scrolllist" where
  "UIScrollList_prepare l =
     (let sw = sl_scrollbarwidth l; ph = sl_pagescrollbuttonheight l;
          right = sl_x l + sl_width l - sw;
          bottom = sl_y l + sl_height l - ph + 5;
          ua = fold (\<lambda>(d, b). UIArrowButton_add d b)
            [(DirUp, scroll_arrow l right (sl_y l) sw sw ScrollUp),
             (DirDown, scroll_arrow l right (sl_y l + sl_height l - sw - ph) sw sw ScrollDown),
             (DirUp, scroll_arrow l (sl_x l) bottom (sl_width l / 2 - 2) ph PreviousPage),
             (DirDown, scroll_arrow l (sl_x l + sl_width l / 2 + 2) bottom (sl_width l / 2 - 2) ph
                NextPage)]
            new_UIArrowButton
      in l\<lparr>sl_listitem := new_UIListItem, sl_arrowbutton := ua, sl_scrollposition := 0, sl_list := [],
           sl_max_scrolllist_items :=
             math_round ((sl_height l - (ph + 5)) / sl_item_height l - 49 / 100),
           sl_scrollbarsize := Fin (max_scrollbarheight l),
           sl_scrollbar_y := Fin (sw + sl_border_width l / 2),
           sl_mousedown_scrollbar_y := None\<rparr>)"

definition UIScrollList_add :: "scrolllist \<Rightarrow> uiscrolllist \<Rightarrow> uiscrolllist" where
  "UIScrollList_add l st = st\<lparr>us_scrolllists := us_scrolllists st @ [UIScrollList_prepare l]\<rparr>"

text \<open>\<open>1 / (list_length / max_items)\<close>, at most 1.\<close>

definition getScrollbarSize :: "int \<Rightarrow> int \<Rightarrow> jsnum" where
  "getScrollbarSize max_items list_length =
     (let s = (if list_length \<noteq> 0
               then (if max_items = 0 then Fin 0
                     else Fin (real_of_int max_items / real_of_int list_length))
               else if max_items = 0 then NaN
               else if max_items > 0 then PosInf else NegInf)
      in if js_less (Fin 1) s then Fin 1 else s)"

section \<open>update\<close>

definition scroll_line :: "scrolllist \<Rightarrow> nat \<Rightarrow> scroll_item \<Rightarrow> listitem option" where
  "scroll_line l j item =
     (let index = int j - sl_scrollposition l
      in if index < sl_max_scrolllist_items l \<and> index \<ge> 0
         then Some \<lparr>li_x = sl_x l, li_y = sl_y l + sl_item_height l * real_of_int index,
                    li_width = sl_width l - sl_scrollbarwidth l, li_height = sl_item_height l,
                    li_font_size = sl_item_font_size l, li_border_width = sl_border_width l,
                    li_selected = sl_selectedID l, li_id = j,
                    li_selectedBackground = sl_item_selectedBackground l,
                    li_foreground = Some (sl_foreground l), li_type = si_type item,
                    li_qty = si_qty item, li_article_price = si_article_price item,
                    li_lineitem = si_lineitem item\<rparr>
         else None)"

definition update_one :: "scrolllist \<Rightarrow> scrolllist" where
  "update_one l =
     (let max_h = max_scrollbarheight l;
          n = int (length (sl_list l));
          size = js_scale max_h (getScrollbarSize (sl_max_scrolllist_items l) n);
          base = sl_scrollbarwidth l + sl_border_width l / 2;
          y = js_shift base (js_mul (js_shift max_h (js_neg size))
                (js_div (real_of_int (sl_scrollposition l))
                        (real_of_int (n - sl_max_scrolllist_items l))));
          y' = (if y = NaN \<or> y = Fin 0 then Fin base else y);
          li = fold (\<lambda>(j, item) li. case scroll_line l j item of
                        None \<Rightarrow> li | Some x \<Rightarrow> UIListItem_add x li)
                 (enumerate 0 (sl_list l)) (UIListItem_clear (sl_listitem l))
      in l\<lparr>sl_listitem := li, sl_scrollbarsize := size, sl_scrollbar_y := y'\<rparr>)"

definition UIScrollList_update :: "uiscrolllist \<Rightarrow> uiscrolllist" where
  "UIScrollList_update st = st\<lparr>us_scrolllists := map update_one (us_scrolllists st)\<rparr>"
section \<open>The closures of a list\<close>

text \<open>Each gives the list and the number of its calls of \<open>update()\<close>. \<open>setScrollPosition\<close>
  compares an extended number because a drag may pass one that is not finite.\<close>

definition sl_setScrollPosition :: "jsnum \<Rightarrow> scrolllist \<Rightarrow> scrolllist \<times> nat" where
  "sl_setScrollPosition position l =
     (let top = int (length (sl_list l)) - sl_max_scrolllist_items l
      in if sl_max_scrolllist_items l \<le> int (length (sl_list l)) then
           (if js_le position (Fin (real_of_int top)) \<and> js_less (Fin 0) position
            then (l\<lparr>sl_scrollposition := js_int position\<rparr>, 1)
            else if js_less (Fin (real_of_int top)) (js_shift 1 position)
            then (l\<lparr>sl_scrollposition := top\<rparr>, 1)
            else if js_less position (Fin 0)
            then (l\<lparr>sl_scrollposition := 0\<rparr>, 1)
            else (l, 0))
         else (l, 0))"

definition sl_setList :: "scroll_item list option \<Rightarrow> scrolllist \<Rightarrow> scrolllist \<times> nat" where
  "sl_setList params l =
     (case params of
        None \<Rightarrow> (l\<lparr>sl_list := []\<rparr>, 0)
      | Some xs \<Rightarrow>
          (let n = int (length xs); mx = sl_max_scrolllist_items l;
               l1 = l\<lparr>sl_list := xs\<rparr>;
               l2 = (if n > mx then l1\<lparr>sl_scrollposition := n - mx\<rparr>
                     else if n < mx then l1\<lparr>sl_scrollposition := 0\<rparr> else l1);
               l3 = (case sl_selectedID l2 of
                       Some s \<Rightarrow> if length xs \<le> s then l2\<lparr>sl_selectedID := None\<rparr> else l2
                     | None \<Rightarrow> l2)
           in (l3, 1)))"

definition sl_getSelectedItemIndex :: "scrolllist \<Rightarrow> nat option" where
  "sl_getSelectedItemIndex l = sl_selectedID l"

definition sl_deleteSelected :: "scrolllist \<Rightarrow> scrolllist \<times> nat" where
  "sl_deleteSelected l =
     (case sl_getSelectedItemIndex l of
        None \<Rightarrow> (l, 0)
      | Some index \<Rightarrow>
          (let l1 = l\<lparr>sl_list := splice_out (sl_list l) index, sl_selectedID := None\<rparr>;
               (l2, n) = sl_setScrollPosition (Fin (real_of_int (sl_scrollposition l1 - 1))) l1
           in (l2, n + 1)))"

definition sl_previousPage :: "scrolllist \<Rightarrow> scrolllist \<times> nat" where
  "sl_previousPage l =
     (if sl_max_scrolllist_items l < int (length (sl_list l))
      then (if sl_scrollposition l - sl_max_scrolllist_items l > 0
            then (l\<lparr>sl_scrollposition := sl_scrollposition l - sl_max_scrolllist_items l\<rparr>, 1)
            else (l\<lparr>sl_scrollposition := 0\<rparr>, 1))
      else (l, 0))"

definition sl_nextPage :: "scrolllist \<Rightarrow> scrolllist \<times> nat" where
  "sl_nextPage l =
     (let mx = sl_max_scrolllist_items l; n = int (length (sl_list l))
      in if mx < n
         then (if sl_scrollposition l + 2 * mx \<le> n
               then (l\<lparr>sl_scrollposition := sl_scrollposition l + mx\<rparr>, 1)
               else (l\<lparr>sl_scrollposition := n - mx\<rparr>, 1))
         else (l, 0))"

definition sl_scrollup :: "scrolllist \<Rightarrow> scrolllist \<times> nat" where
  "sl_scrollup l =
     (if sl_scrollposition l > 0 then (l\<lparr>sl_scrollposition := sl_scrollposition l - 1\<rparr>, 1)
      else (l, 0))"

definition sl_scrolldown :: "scrolllist \<Rightarrow> scrolllist \<times> nat" where
  "sl_scrolldown l =
     (if sl_scrollposition l + sl_max_scrolllist_items l + 1 \<le> int (length (sl_list l))
      then (l\<lparr>sl_scrollposition := sl_scrollposition l + 1\<rparr>, 1)
      else (l, 0))"

definition sl_setSelected :: "nat option \<Rightarrow> scrolllist \<Rightarrow> scrolllist \<times> nat" where
  "sl_setSelected sid l = (l\<lparr>sl_selectedID := sid\<rparr>, 1)"

fun sl_arrow :: "scroll_cmd \<Rightarrow> scrolllist \<Rightarrow> scrolllist \<times> nat" where
  "sl_arrow ScrollUp = sl_scrollup"
| "sl_arrow ScrollDown = sl_scrolldown"
| "sl_arrow PreviousPage = sl_previousPage"
| "sl_arrow NextPage = sl_nextPage"

text \<open>A closure of list \<open>i\<close>, run on the \<open>UIScrollList\<close>; every call of \<open>update()\<close> asks for a
  repaint.\<close>

definition sl_call ::
  "nat \<Rightarrow> (scrolllist \<Rightarrow> scrolllist \<times> nat) \<Rightarrow> uiscrolllist \<Rightarrow> uiscrolllist \<times> (nat \<times> nat) ui_event list"
  where
  "sl_call i f st =
     (let (l', n) = f (us_scrolllists st ! i)
      in ((UIScrollList_update ^^ n) (st\<lparr>us_scrolllists := (us_scrolllists st)[i := l']\<rparr>),
          replicate n Repaint))"

text \<open>\<open>setSelected\<close> also calls the callback of the options, \<open>(i, id)\<close> for list \<open>i\<close>.\<close>

definition UIScrollList_setSelected ::
  "nat \<Rightarrow> nat option \<Rightarrow> uiscrolllist \<Rightarrow> uiscrolllist \<times> (nat \<times> nat) ui_event list" where
  "UIScrollList_setSelected i sid st =
     (let (st', evs) = sl_call i (sl_setSelected sid) st
      in (st', (case sid of
                  Some k \<Rightarrow> if sl_callback (us_scrolllists st ! i) then [Callback (i, k)] else []
                | None \<Rightarrow> []) @ evs))"

definition UIScrollList_getList :: "nat \<Rightarrow> uiscrolllist \<Rightarrow> scroll_item list" where
  "UIScrollList_getList i st = sl_list (us_scrolllists st ! i)"

section \<open>Drawing and handlers\<close>

text \<open>\<open>fillRect\<close> with an argument that is not finite draws nothing.\<close>

fun fill_rect_num :: "real \<Rightarrow> jsnum \<Rightarrow> real \<Rightarrow> jsnum \<Rightarrow> gfx list" where
  "fill_rect_num x (Fin y) w (Fin h) = [FillRect x y w h]"
| "fill_rect_num x _ w _ = []"

definition scroll_gradient :: "scrolllist \<Rightarrow> gfx list" where
  "scroll_gradient l =
     create_gradient (sl_grd_type l) (sl_x l) (sl_y l) (sl_width l)
       (sl_height l - sl_pagescrollbuttonheight l)
     @ (if sl_grd_type l \<noteq> None then gradient_stops (sl_background l) else [])
     @ single_fill (sl_background l)"

definition UIScrollList_render_one ::
  "text_measure \<Rightarrow> nat \<Rightarrow> scrolllist \<Rightarrow> ctx \<Rightarrow> (scrolllist \<times> ctx) option" where
  "UIScrollList_render_one tm i l c =
     (let h = sl_height l - sl_pagescrollbuttonheight l;
          bw = sl_border_width l; sw = sl_scrollbarwidth l;
          c1 = emit ([SetFont (sl_font_size l), SetStroke (opt_color (sl_border l)),
                      SetLineWidth (Some bw)] @ scroll_gradient l) c;
          c2 = (if no_radius (sl_border_radius l)
                then emit [FillRect (sl_x l) (sl_y l) (sl_width l) h,
                           StrokeRect (sl_x l) (sl_y l) (sl_width l) h] c1
                else roundRect (sl_x l) (sl_y l) (sl_width l) h (the (sl_border_radius l))
                       (Some bw) c1);
          c3 = emit ([SetFill (opt_color (sl_scrollbarbackground l)),
                      FillRect (sl_x l + sl_width l - sw - bw / 2) (sl_y l + sw) (sw + bw / 2) (h - sw),
                      SetFill (PColor (sl_foreground l))]
                     @ fill_rect_num (sl_x l + sl_width l - sw - bw / 2)
                         (js_shift (sl_y l) (sl_scrollbar_y l)) (sw + bw / 2) (sl_scrollbarsize l)) c2
      in case UIListItem_render tm (sl_listitem l) c3 of
           None \<Rightarrow> None
         | Some (li, c4) \<Rightarrow>
             (let (ua, c5) = UIArrowButton_render tm (sl_arrowbutton l) c4
              in Some (l\<lparr>sl_listitem := li, sl_arrowbutton := ua\<rparr>, c5)))"

definition UIScrollList_render ::
  "text_measure \<Rightarrow> uiscrolllist \<Rightarrow> ctx \<Rightarrow> (uiscrolllist \<times> ctx) option" where
  "UIScrollList_render tm st c =
     (case for_each_opt (UIScrollList_render_one tm) 0 (us_scrolllists st) c of
        None \<Rightarrow> None
      | Some (ls, c') \<Rightarrow> Some (st\<lparr>us_scrolllists := ls\<rparr>, c'))"

text \<open>Callbacks of lines and arrows run at once, on all lists.\<close>

fun run_line_event ::
  "nat \<Rightarrow> nat ui_event \<Rightarrow> uiscrolllist \<times> (nat \<times> nat) ui_event list \<Rightarrow>
     uiscrolllist \<times> (nat \<times> nat) ui_event list" where
  "run_line_event i (Callback k) (st, evs) =
     (let (st', es) = UIScrollList_setSelected i (Some k) st in (st', evs @ es))"
| "run_line_event i _ (st, evs) = (st, evs @ [Repaint])"

fun run_arrow_event ::
  "nat \<Rightarrow> scroll_cmd ui_event \<Rightarrow> uiscrolllist \<times> (nat \<times> nat) ui_event list \<Rightarrow>
     uiscrolllist \<times> (nat \<times> nat) ui_event list" where
  "run_arrow_event i (Callback cmd) (st, evs) =
     (let (st', es) = sl_call i (sl_arrow cmd) st in (st', evs @ es))"
| "run_arrow_event i OpenUpload (st, evs) = (st, evs @ [OpenUpload])"
| "run_arrow_event i _ (st, evs) = (st, evs @ [Repaint])"

definition set_line :: "nat \<Rightarrow> uilistitem \<Rightarrow> uiscrolllist \<Rightarrow> uiscrolllist" where
  "set_line i li st = st\<lparr>us_scrolllists :=
     (us_scrolllists st)[i := (us_scrolllists st ! i)\<lparr>sl_listitem := li\<rparr>]\<rparr>"

definition set_arrow :: "nat \<Rightarrow> scroll_cmd button uiarrowbutton \<Rightarrow> uiscrolllist \<Rightarrow> uiscrolllist" where
  "set_arrow i ua st = st\<lparr>us_scrolllists :=
     (us_scrolllists st)[i := (us_scrolllists st ! i)\<lparr>sl_arrowbutton := ua\<rparr>]\<rparr>"

text \<open>\<open>UIListItem.onClick\<close> calls back before it resets \<open>mouse_down_on\<close>; what the callback
  changes does not include it.\<close>

definition UIScrollList_click_at ::
  "real \<Rightarrow> real \<Rightarrow> nat \<Rightarrow> uiscrolllist \<times> (nat \<times> nat) ui_event list \<Rightarrow>
     uiscrolllist \<times> (nat \<times> nat) ui_event list" where
  "UIScrollList_click_at x y i = (\<lambda>(st, evs).
     (let (li, lines) = UIListItem_onClick x y (sl_listitem (us_scrolllists st ! i));
          (st1, evs1) = fold (run_line_event i) lines (set_line i li st, evs);
          (ua, cmds) = UIArrowButton_onClick x y (sl_arrowbutton (us_scrolllists st1 ! i))
      in fold (run_arrow_event i) cmds (set_arrow i ua st1, evs1)))"

definition UIScrollList_onClick ::
  "real \<Rightarrow> real \<Rightarrow> uiscrolllist \<Rightarrow> uiscrolllist \<times> (nat \<times> nat) ui_event list" where
  "UIScrollList_onClick x y st =
     fold (UIScrollList_click_at x y) [0..<length (us_scrolllists st)] (st, [])"

text \<open>A press on list \<open>i\<close>; the last value tells whether the loop returns.\<close>

definition UIScrollList_down_at ::
  "real \<Rightarrow> real \<Rightarrow> nat \<Rightarrow> uiscrolllist \<Rightarrow> uiscrolllist \<times> (nat \<times> nat) ui_event list \<times> bool" where
  "UIScrollList_down_at x y i st =
     (let (ua, cmds) = UIArrowButton_onMouseDown x y (sl_arrowbutton (us_scrolllists st ! i));
          evs = map (\<lambda>_. Repaint) (cmds :: scroll_cmd ui_event list);
          li = UIListItem_onMouseDown x y (sl_listitem (us_scrolllists st ! i));
          st1 = set_line i li (set_arrow i ua st);
          l = us_scrolllists st1 ! i;
          sw = sl_scrollbarwidth l; bw = sl_border_width l;
          startx = sl_x l + sl_width l - sw - bw / 2;
          endx = sl_x l + sl_width l + sw + bw / 2;
          top = js_shift (sl_y l) (sl_scrollbar_y l);
          bottom = (case sl_scrollbarsize l of Fin s \<Rightarrow> js_shift s top
                    | PosInf \<Rightarrow> (case top of Fin _ \<Rightarrow> PosInf | _ \<Rightarrow> NaN)
                    | NegInf \<Rightarrow> (case top of Fin _ \<Rightarrow> NegInf | _ \<Rightarrow> NaN)
                    | NaN \<Rightarrow> NaN)
      in if in_box startx (sl_y l + sw) endx
              (sl_y l + sl_height l - sl_pagescrollbuttonheight l - sw) x y
         then
           (if js_le top (Fin y) \<and> js_le (Fin y) bottom
            then (st1\<lparr>us_scrolllists := (us_scrolllists st1)
                    [i := l\<lparr>sl_mousedown_scrollbar_y := Some (js_shift y (js_neg top))\<rparr>]\<rparr>,
                  evs, True)
            else if js_less (Fin y) top
            then (let (st2, es) = sl_call i sl_previousPage st1 in (st2, evs @ es, True))
            else if js_less bottom (Fin y)
            then (let (st2, es) = sl_call i sl_nextPage st1 in (st2, evs @ es, True))
            else (st1, evs, True))
         else (st1, evs, False))"

fun scroll_down_from ::
  "real \<Rightarrow> real \<Rightarrow> nat list \<Rightarrow> uiscrolllist \<Rightarrow> uiscrolllist \<times> (nat \<times> nat) ui_event list" where
  "scroll_down_from x y [] st = (st, [])"
| "scroll_down_from x y (i # is) st =
     (let (st1, evs, ret) = UIScrollList_down_at x y i st
      in if ret then (st1, evs)
         else (let (st2, es) = scroll_down_from x y is st1 in (st2, evs @ es)))"

definition UIScrollList_onMouseDown ::
  "real \<Rightarrow> real \<Rightarrow> uiscrolllist \<Rightarrow> uiscrolllist \<times> (nat \<times> nat) ui_event list" where
  "UIScrollList_onMouseDown x y st = scroll_down_from x y [0..<length (us_scrolllists st)] st"

definition UIScrollList_onMouseUp ::
  "real \<Rightarrow> real \<Rightarrow> uiscrolllist \<Rightarrow> uiscrolllist \<times> (nat \<times> nat) ui_event list" where
  "UIScrollList_onMouseUp x y st =
     (st\<lparr>us_scrolllists := map (\<lambda>l. l
        \<lparr>sl_arrowbutton :=
           fst (UIArrowButton_onMouseUp x y (sl_arrowbutton l) :: _ \<times> scroll_cmd ui_event list),
         sl_listitem := UIListItem_onMouseUp x y (sl_listitem l),
         sl_mousedown_scrollbar_y := None\<rparr>) (us_scrolllists st)\<rparr>, [])"

text \<open>The position that a drag of the bar to \<open>y\<close> asks for.\<close>

definition drag_position :: "real \<Rightarrow> jsnum \<Rightarrow> scrolllist \<Rightarrow> jsnum" where
  "drag_position y grab l =
     (let scroll_y = js_shift (y - (sl_y l + sl_scrollbarwidth l)) (js_neg grab);
          empty = js_shift (max_scrollbarheight l) (js_neg (sl_scrollbarsize l));
          n = real_of_int (int (length (sl_list l)) - sl_max_scrolllist_items l)
      in js_round (js_mul (case empty of Fin e \<Rightarrow> js_div n e | NaN \<Rightarrow> NaN | _ \<Rightarrow> Fin 0) scroll_y))"

definition UIScrollList_move_at ::
  "real \<Rightarrow> real \<Rightarrow> nat \<Rightarrow> uiscrolllist \<times> (nat \<times> nat) ui_event list \<Rightarrow>
     uiscrolllist \<times> (nat \<times> nat) ui_event list" where
  "UIScrollList_move_at x y i = (\<lambda>(st, evs).
     (let (ua, cmds) = UIArrowButton_onMouseMove x y (sl_arrowbutton (us_scrolllists st ! i));
          evs1 = evs @ map (\<lambda>_. Repaint) (cmds :: scroll_cmd ui_event list);
          li = UIListItem_onMouseMove x y (sl_listitem (us_scrolllists st ! i));
          st1 = set_line i li (set_arrow i ua st);
          l = us_scrolllists st1 ! i
      in case sl_mousedown_scrollbar_y l of
           None \<Rightarrow> (st1, evs1)
         | Some grab \<Rightarrow>
             (let (st2, es) = sl_call i (sl_setScrollPosition (drag_position y grab l)) st1
              in (st2, evs1 @ es @ [Repaint]))))"

definition UIScrollList_onMouseMove ::
  "real \<Rightarrow> real \<Rightarrow> uiscrolllist \<Rightarrow> uiscrolllist \<times> (nat \<times> nat) ui_event list" where
  "UIScrollList_onMouseMove x y st =
     fold (UIScrollList_move_at x y) [0..<length (us_scrolllists st)] (st, [])"

definition UIScrollList_find :: "jsstring option \<Rightarrow> uiscrolllist \<Rightarrow> scrolllist option" where
  "UIScrollList_find name st = List.find (\<lambda>l. sl_name l = name) (us_scrolllists st)"
section \<open>The window of a list\<close>

text \<open>The ids of the lines shown, and a list whose position and lines are what they should be.\<close>

definition shown_ids :: "scrolllist \<Rightarrow> nat list" where
  "shown_ids l = map li_id (ui_listitems (sl_listitem l))"

definition window :: "scrolllist \<Rightarrow> nat list" where
  "window l = [nat (sl_scrollposition l) ..<
     min (nat (sl_scrollposition l) + nat (sl_max_scrolllist_items l)) (length (sl_list l))]"

definition position_ok :: "bool \<Rightarrow> scrolllist \<Rightarrow> bool" where
  "position_ok plain l \<longleftrightarrow> 0 \<le> sl_max_scrolllist_items l \<and> 0 \<le> sl_scrollposition l \<and>
     (plain \<or> sl_max_scrolllist_items l < int (length (sl_list l)) \<longrightarrow>
        sl_scrollposition l \<le> max 0 (int (length (sl_list l)) - sl_max_scrolllist_items l))"

definition shown_ok :: "bool \<Rightarrow> scrolllist \<Rightarrow> bool" where
  "shown_ok plain l \<longleftrightarrow> shown_ids l = window l \<or> \<not> plain \<and> sl_list l = []"

lemma update_one_fields [simp]:
  "sl_list (update_one l) = sl_list l"
  "sl_scrollposition (update_one l) = sl_scrollposition l"
  "sl_max_scrolllist_items (update_one l) = sl_max_scrolllist_items l"
  "max_scrollbarheight (update_one l) = max_scrollbarheight l"
  "sl_y (update_one l) = sl_y l" "sl_scrollbarwidth (update_one l) = sl_scrollbarwidth l"
  "sl_border_width (update_one l) = sl_border_width l"
  by (simp_all add: update_one_def Let_def max_scrollbarheight_def)

lemma position_ok_update [simp]: "position_ok plain (update_one l) = position_ok plain l"
  by (simp add: position_ok_def)

lemma fold_add_lines:
  "ui_listitems (fold (\<lambda>(j, x) li. case f j x of None \<Rightarrow> li | Some b \<Rightarrow> UIListItem_add b li) jxs li) =
     ui_listitems li @ List.map_filter (\<lambda>(j, x). f j x) jxs"
  by (induction jxs arbitrary: li)
    (auto simp: map_filter_simps UIListItem_add_def split: option.splits)

definition line_at :: "scrolllist \<Rightarrow> nat \<Rightarrow> scroll_item \<Rightarrow> listitem" where
  "line_at l k item =
     \<lparr>li_x = sl_x l, li_y = sl_y l + sl_item_height l * real k,
      li_width = sl_width l - sl_scrollbarwidth l, li_height = sl_item_height l,
      li_font_size = sl_item_font_size l, li_border_width = sl_border_width l,
      li_selected = sl_selectedID l, li_id = nat (sl_scrollposition l) + k,
      li_selectedBackground = sl_item_selectedBackground l,
      li_foreground = Some (sl_foreground l), li_type = si_type item,
      li_qty = si_qty item, li_article_price = si_article_price item,
      li_lineitem = si_lineitem item\<rparr>"

lemma update_one_lines:
  assumes "0 \<le> sl_scrollposition l"
  shows "ui_listitems (sl_listitem (update_one l)) =
    map (\<lambda>(k, item). line_at l k item)
      (enumerate 0 (take (nat (sl_max_scrolllist_items l))
        (drop (nat (sl_scrollposition l)) (sl_list l))))"
proof -
  let ?p = "nat (sl_scrollposition l)" and ?m = "nat (sl_max_scrolllist_items l)"
  have w: "scroll_line l j item =
      (if ?p \<le> j \<and> j < ?p + ?m then Some (line_at l (j - ?p) item) else None)" for j item
    using assms by (auto simp: scroll_line_def line_at_def Let_def)
  have "ui_listitems (sl_listitem (update_one l)) =
      List.map_filter (\<lambda>(j, x). scroll_line l j x) (enumerate 0 (sl_list l))"
    by (simp add: update_one_def Let_def fold_add_lines UIListItem_clear_def)
  then show ?thesis unfolding map_filter_window [where h = "line_at l", OF w] .
qed

lemma shown_update: "0 \<le> sl_scrollposition l \<Longrightarrow> shown_ids (update_one l) = window l"
proof -
  assume p: "0 \<le> sl_scrollposition l"
  have e: "map (\<lambda>(k, x). a + k) (enumerate 0 xs) = [a..<a + length xs]" for a and xs :: "'z list"
    by (induction xs rule: rev_induct) (simp_all add: enumerate_append_eq)
  have "shown_ids (update_one l) = map (\<lambda>(k, x). nat (sl_scrollposition l) + k)
      (enumerate 0 (take (nat (sl_max_scrolllist_items l))
        (drop (nat (sl_scrollposition l)) (sl_list l))))"
    by (simp add: shown_ids_def update_one_lines [OF p] comp_def split_beta line_at_def)
  also have "\<dots> = window l"
    unfolding e window_def
    by (cases "nat (sl_scrollposition l) \<le> length (sl_list l)")
      (auto simp: min_def intro: arg_cong2 [where f = upt])
  finally show ?thesis .
qed

lemma shown_ok_update: "position_ok plain l \<Longrightarrow> shown_ok plain (update_one l)"
  by (simp add: shown_ok_def shown_update position_ok_def window_def)

section \<open>The contract of the closures\<close>

text \<open>A closure keeps the position inside the list, and calls \<open>update()\<close> whenever it changes
  anything. \<open>plain\<close> is true when no list is set without an argument or with exactly as many items as fit:
  \<open>setList\<close> without an argument only empties the list, and with exactly as many items as fit it leaves the
  position where it was.\<close>

locale scroll_closure =
  fixes plain :: bool and f :: "scrolllist \<Rightarrow> scrolllist \<times> nat"
  assumes keeps_position: "position_ok plain l \<Longrightarrow> position_ok plain (fst (f l))"
    and silent: "snd (f l) = 0 \<Longrightarrow> fst (f l) = l \<or> \<not> plain \<and> sl_list (fst (f l)) = []"
begin

lemma call_keeps:
  assumes "\<forall>l \<in> set (us_scrolllists st). position_ok plain l \<and> shown_ok plain l"
  shows "\<forall>l \<in> set (us_scrolllists (fst (sl_call i f st))). position_ok plain l \<and> shown_ok plain l"
proof -
  obtain l' n where f: "f (us_scrolllists st ! i) = (l', n)" by (cases "f (us_scrolllists st ! i)")
  let ?st1 = "st\<lparr>us_scrolllists := (us_scrolllists st)[i := l']\<rparr>"
  have one: "i < length (us_scrolllists st) \<Longrightarrow> position_ok plain l'"
    using keeps_position [of "us_scrolllists st ! i"] assms f by auto
  have pos: "\<forall>l \<in> set (us_scrolllists ?st1). position_ok plain l"
  proof (cases "i < length (us_scrolllists st)")
    case True
    then show ?thesis
      using assms one set_update_subset_insert [of "us_scrolllists st" i l'] by auto
  next
    case False
    then show ?thesis using assms by (simp add: list_update_beyond)
  qed
  have upd: "\<forall>l \<in> set (us_scrolllists ((UIScrollList_update ^^ Suc m) ?st1)).
      position_ok plain l \<and> shown_ok plain l" for m
  proof -
    have "\<forall>l \<in> set (us_scrolllists ((UIScrollList_update ^^ m) ?st1)). position_ok plain l"
      by (induction m) (use pos in \<open>auto simp: UIScrollList_update_def\<close>)
    then show ?thesis
      by (auto simp: UIScrollList_update_def shown_ok_update)
  qed
  show ?thesis
  proof (cases n)
    case 0
    then have "l' = us_scrolllists st ! i \<or> \<not> plain \<and> sl_list l' = []"
      using silent [of "us_scrolllists st ! i"] f by simp
    moreover have "fst (sl_call i f st) = ?st1" using f 0 by (simp add: sl_call_def)
    ultimately show ?thesis
      using assms pos set_update_subset_insert [of "us_scrolllists st" i l']
      by (cases "i < length (us_scrolllists st)") (auto simp: shown_ok_def list_update_beyond)
  next
    case (Suc m)
    then show ?thesis using upd [of m] f by (simp add: sl_call_def)
  qed
qed

end

text \<open>A closure that in some cases moves the position to one inside the list, and otherwise
  changes nothing.\<close>

lemma scroll_closureI:
  assumes f: "\<And>l. f l = (if c l then (l\<lparr>sl_scrollposition := p l\<rparr>, 1) else (l, 0))"
    and p: "\<And>l. position_ok plain l \<Longrightarrow> c l \<Longrightarrow> 0 \<le> p l \<and>
      (plain \<or> sl_max_scrolllist_items l < int (length (sl_list l)) \<longrightarrow>
        p l \<le> max 0 (int (length (sl_list l)) - sl_max_scrolllist_items l))"
  shows "scroll_closure plain f"
proof
  fix l
  show "position_ok plain (fst (f l))" if "position_ok plain l"
    using p [OF that] that unfolding f by (cases "c l") (simp_all add: position_ok_def)
  show "fst (f l) = l \<or> \<not> plain \<and> sl_list (fst (f l)) = []" if "snd (f l) = 0"
    using that unfolding f by (cases "c l") simp_all
qed

definition set_target :: "jsnum \<Rightarrow> scrolllist \<Rightarrow> int option" where
  "set_target position l =
     (let top = int (length (sl_list l)) - sl_max_scrolllist_items l
      in if \<not> sl_max_scrolllist_items l \<le> int (length (sl_list l)) then None
         else if js_le position (Fin (real_of_int top)) \<and> js_less (Fin 0) position
         then Some (js_int position)
         else if js_less (Fin (real_of_int top)) (js_shift 1 position) then Some top
         else if js_less position (Fin 0) then Some 0
         else None)"

lemma if_target:
  "(if A then (if B then (g x, n) else if C then (g y, n) else if D then (g z, n) else (l, m))
    else (l, m)) =
   (if (if \<not> A then None else if B then Some x else if C then Some y else if D then Some z
        else None) \<noteq> None
    then (g (the (if \<not> A then None else if B then Some x else if C then Some y
                  else if D then Some z else None)), n)
    else (l, m))"
  by simp

lemma set_position_target:
  "sl_setScrollPosition position l =
     (if set_target position l \<noteq> None
      then (l\<lparr>sl_scrollposition := the (set_target position l)\<rparr>, 1) else (l, 0))"
  unfolding sl_setScrollPosition_def set_target_def Let_def
  by (rule if_target [where g = "\<lambda>p. l\<lparr>sl_scrollposition := p\<rparr>"])

lemma set_target_inside:
  "set_target position l = Some p \<Longrightarrow>
     0 \<le> p \<and> p \<le> int (length (sl_list l)) - sl_max_scrolllist_items l"
proof -
  assume s: "set_target position l = Some p"
  define t where "t = int (length (sl_list l)) - sl_max_scrolllist_items l"
  have "sl_max_scrolllist_items l \<le> int (length (sl_list l))"
    using s unfolding set_target_def Let_def by (auto split: if_splits)
  then have t: "0 \<le> t" by (simp add: t_def)
  consider "p = t" | "p = 0"
    | "js_le position (Fin (real_of_int t))" "js_less (Fin 0) position" "p = js_int position"
    using s unfolding set_target_def Let_def t_def [symmetric] by (auto split: if_splits)
  then show "0 \<le> p \<and> p \<le> t"
  proof cases
    case 3
    then obtain r where "position = Fin r" "r \<le> real_of_int t" "0 < r" by (cases position) auto
    then show ?thesis using 3(3) by simp linarith
  qed (use t in simp_all)
qed

interpretation set_position: scroll_closure plain "sl_setScrollPosition position" for plain position
proof (rule scroll_closureI [OF set_position_target])
  fix l
  assume "set_target position l \<noteq> None"
  then show "0 \<le> the (set_target position l) \<and>
      (plain \<or> sl_max_scrolllist_items l < int (length (sl_list l)) \<longrightarrow> the (set_target position l)
        \<le> max 0 (int (length (sl_list l)) - sl_max_scrolllist_items l))"
    using set_target_inside [of position l] by auto
qed

interpretation previous_page: scroll_closure plain sl_previousPage for plain
  by (rule scroll_closureI [where c = "\<lambda>l. sl_max_scrolllist_items l < int (length (sl_list l))"
        and p = "\<lambda>l. max 0 (sl_scrollposition l - sl_max_scrolllist_items l)"])
    (simp_all add: sl_previousPage_def position_ok_def max_def)

interpretation next_page: scroll_closure plain sl_nextPage for plain
  by (rule scroll_closureI [where c = "\<lambda>l. sl_max_scrolllist_items l < int (length (sl_list l))"
        and p = "\<lambda>l. min (sl_scrollposition l + sl_max_scrolllist_items l)
                          (int (length (sl_list l)) - sl_max_scrolllist_items l)"])
    (auto simp: sl_nextPage_def position_ok_def min_def Let_def)

interpretation scroll_up: scroll_closure plain sl_scrollup for plain
  by (rule scroll_closureI [where c = "\<lambda>l. 0 < sl_scrollposition l"
        and p = "\<lambda>l. sl_scrollposition l - 1"])
    (auto simp: sl_scrollup_def position_ok_def)

interpretation scroll_down: scroll_closure plain sl_scrolldown for plain
  by (rule scroll_closureI [where
        c = "\<lambda>l. sl_scrollposition l + sl_max_scrolllist_items l + 1 \<le> int (length (sl_list l))"
        and p = "\<lambda>l. sl_scrollposition l + 1"])
    (simp_all add: sl_scrolldown_def position_ok_def)

interpretation arrow: scroll_closure plain "sl_arrow cmd" for plain cmd
  by (cases cmd) (simp_all add: previous_page.scroll_closure_axioms next_page.scroll_closure_axioms
    scroll_up.scroll_closure_axioms scroll_down.scroll_closure_axioms)

interpretation set_selected: scroll_closure plain "sl_setSelected sid" for plain sid
  by unfold_locales (auto simp: sl_setSelected_def position_ok_def)
lemma splice_out_length_le: "length (splice_out xs i) \<ge> length xs - 1"
  by (simp add: splice_out_def min_def)

lemma splice_out_length_ub: "length (splice_out xs i) \<le> length xs"
  by (simp add: splice_out_def min_def)

lemma deleteSelected_position:
  assumes "position_ok plain l" "sl_selectedID l = Some i"
  shows "position_ok plain (fst (sl_deleteSelected l))"
proof -
  define l1 where "l1 = l\<lparr>sl_list := splice_out (sl_list l) i, sl_selectedID := None\<rparr>"
  have l1: "sl_max_scrolllist_items l1 = sl_max_scrolllist_items l"
    "sl_scrollposition l1 = sl_scrollposition l" "sl_list l1 = splice_out (sl_list l) i"
    by (simp_all add: l1_def)
  have len: "int (length (sl_list l)) - 1 \<le> int (length (sl_list l1))"
    using splice_out_length_le [of "sl_list l" i] unfolding l1 by linarith
  have r: "fst (sl_deleteSelected l) =
      fst (sl_setScrollPosition (Fin (real_of_int (sl_scrollposition l1 - 1))) l1)"
    by (simp add: sl_deleteSelected_def sl_getSelectedItemIndex_def assms(2) Let_def split_beta l1_def)
  define t where "t = int (length (sl_list l1)) - sl_max_scrolllist_items l1"
  define target where "target = set_target (Fin (real_of_int (sl_scrollposition l1 - 1))) l1"
  have m: "0 \<le> sl_max_scrolllist_items l" "0 \<le> sl_scrollposition l"
    "plain \<Longrightarrow> sl_scrollposition l \<le> max 0 (int (length (sl_list l)) - sl_max_scrolllist_items l)"
    using assms(1) by (simp_all add: position_ok_def)
  show ?thesis
  proof (cases target)
    case (Some q)
    then have "0 \<le> q \<and> q \<le> t" using set_target_inside unfolding target_def t_def by blast
    then show ?thesis unfolding r set_position_target target_def [symmetric]
      using Some m l1(1) by (simp add: position_ok_def t_def)
  next
    case None
    have "t < 0 \<or> 0 < t \<and> sl_scrollposition l1 = 1"
      using None m(2) l1(2) unfolding target_def set_target_def Let_def t_def [symmetric]
      by (simp add: t_def split: if_splits)
    then have "plain \<or> sl_max_scrolllist_items l1 < int (length (sl_list l1)) \<longrightarrow> sl_scrollposition l1 \<le> max 0 t"
      using m(3) len l1(1,2) unfolding t_def by auto
    then have "position_ok plain l1" using m l1 by (simp add: position_ok_def t_def)
    then show ?thesis unfolding r set_position_target target_def [symmetric] using None by simp
  qed
qed

interpretation delete_selected: scroll_closure plain sl_deleteSelected for plain
proof
  show "position_ok plain (fst (sl_deleteSelected l))" if "position_ok plain l" for l
    using deleteSelected_position [OF that] that
    by (cases "sl_selectedID l")
      (simp_all add: sl_deleteSelected_def sl_getSelectedItemIndex_def)
  show "snd (sl_deleteSelected l) = 0 \<Longrightarrow> fst (sl_deleteSelected l) = l \<or> \<not> plain \<and> sl_list (fst (sl_deleteSelected l)) = []" for l
    by (cases "sl_selectedID l")
      (simp_all add: sl_deleteSelected_def sl_getSelectedItemIndex_def Let_def split_beta)
qed

text \<open>\<open>setList\<close> keeps the contract; the plain one when it gets a list whose length is not
  \<open>max_scrolllist_items\<close>.\<close>

definition plain_call :: "scroll_item list option \<Rightarrow> scrolllist \<Rightarrow> bool" where
  "plain_call v l \<longleftrightarrow> (case v of None \<Rightarrow> False | Some xs \<Rightarrow> int (length xs) \<noteq> sl_max_scrolllist_items l)"

definition sets_list :: "bool \<Rightarrow> scroll_item list option \<Rightarrow> scrolllist \<Rightarrow> scrolllist \<times> nat" where
  "sets_list plain v l = (if plain \<and> \<not> plain_call v l then (l, 0) else sl_setList v l)"

interpretation set_list: scroll_closure plain "sets_list plain v" for plain v
proof
  have pos: "sl_scrollposition (fst (sl_setList (Some xs) l)) =
      (if int (length xs) > sl_max_scrolllist_items l then int (length xs) - sl_max_scrolllist_items l
       else if int (length xs) < sl_max_scrolllist_items l then 0 else sl_scrollposition l)"
    "sl_list (fst (sl_setList (Some xs) l)) = xs"
    "sl_max_scrolllist_items (fst (sl_setList (Some xs) l)) = sl_max_scrolllist_items l" for l xs
    by (auto simp: sl_setList_def Let_def split: option.splits)
  show "position_ok plain (fst (sets_list plain v l))" if "position_ok plain l" for l
  proof (cases v)
    case None
    then show ?thesis using that
      by (simp add: sets_list_def plain_call_def sl_setList_def position_ok_def)
  next
    case (Some xs)
    then show ?thesis using that pos [of xs l]
      by (simp add: sets_list_def plain_call_def position_ok_def)
  qed
  show "fst (sets_list plain v l) = l \<or> \<not> plain \<and> sl_list (fst (sets_list plain v l)) = []"
    if "snd (sets_list plain v l) = 0" for l
  proof (cases "plain \<and> \<not> plain_call v l")
    case True
    then show ?thesis by (simp add: sets_list_def)
  next
    case False
    then have f: "sets_list plain v l = sl_setList v l" unfolding sets_list_def by (rule if_not_P)
    show ?thesis
    proof (cases v)
      case None
      then show ?thesis using False unfolding f by (simp add: plain_call_def sl_setList_def)
    next
      case (Some xs)
      then have "snd (sl_setList v l) = 1" by (simp add: sl_setList_def Let_def)
      then show ?thesis using that unfolding f by simp
    qed
  qed
qed

section \<open>Reachable scroll lists\<close>

definition lines_ok :: "bool \<Rightarrow> uiscrolllist \<Rightarrow> bool" where
  "lines_ok plain st \<longleftrightarrow> (\<forall>l \<in> set (us_scrolllists st). position_ok plain l \<and> shown_ok plain l)"

lemma call_lines_ok: "scroll_closure plain f \<Longrightarrow> lines_ok plain st \<Longrightarrow> lines_ok plain (fst (sl_call i f st))"
  unfolding lines_ok_def by (rule scroll_closure.call_keeps)

lemma replace_lines_ok:
  assumes "lines_ok plain st" "position_ok plain l' = position_ok plain (us_scrolllists st ! i)"
    "shown_ok plain l' = shown_ok plain (us_scrolllists st ! i)"
  shows "lines_ok plain (st\<lparr>us_scrolllists := (us_scrolllists st)[i := l']\<rparr>)"
proof (cases "i < length (us_scrolllists st)")
  case True
  then show ?thesis
    using assms set_update_subset_insert [of "us_scrolllists st" i l']
    by (auto simp: lines_ok_def)
next
  case False
  then show ?thesis using assms(1) by (simp add: lines_ok_def list_update_beyond)
qed

lemma scroll_frame [simp]:
  "position_ok plain (l\<lparr>sl_listitem := li\<rparr>) = position_ok plain l"
  "position_ok plain (l\<lparr>sl_arrowbutton := ua\<rparr>) = position_ok plain l"
  "position_ok plain (l\<lparr>sl_mousedown_scrollbar_y := m\<rparr>) = position_ok plain l"
  "window (l\<lparr>sl_listitem := li\<rparr>) = window l"
  "window (l\<lparr>sl_arrowbutton := ua\<rparr>) = window l"
  "window (l\<lparr>sl_mousedown_scrollbar_y := m\<rparr>) = window l"
  "shown_ids (l\<lparr>sl_arrowbutton := ua\<rparr>) = shown_ids l"
  "shown_ids (l\<lparr>sl_mousedown_scrollbar_y := m\<rparr>) = shown_ids l"
  "shown_ids (l\<lparr>sl_listitem := li\<rparr>) = map li_id (ui_listitems li)"
  "shown_ok plain (l\<lparr>sl_arrowbutton := ua\<rparr>) = shown_ok plain l"
  "shown_ok plain (l\<lparr>sl_mousedown_scrollbar_y := m\<rparr>) = shown_ok plain l"
  by (simp_all add: position_ok_def window_def shown_ids_def shown_ok_def)

lemma set_arrow_ok: "lines_ok plain st \<Longrightarrow> lines_ok plain (set_arrow i ua st)"
  unfolding set_arrow_def by (rule replace_lines_ok) simp_all

lemma set_line_ok:
  "lines_ok plain st \<Longrightarrow> ui_listitems li = ui_listitems (sl_listitem (us_scrolllists st ! i)) \<Longrightarrow>
     lines_ok plain (set_line i li st)"
  unfolding set_line_def by (rule replace_lines_ok) (simp_all add: shown_ids_def shown_ok_def)

lemma listitem_handlers [simp]:
  "ui_listitems (fst (UIListItem_onClick x y li)) = ui_listitems li"
  "ui_listitems (UIListItem_onMouseDown x y li) = ui_listitems li"
  "UIListItem_onMouseUp x y li = li" "UIListItem_onMouseMove x y li = li"
  by (simp_all add: UIListItem_onClick_def UIListItem_onMouseDown_def UIListItem_onMouseUp_def
      UIListItem_onMouseMove_def)

lemma run_line_ok: "lines_ok plain st \<Longrightarrow> lines_ok plain (fst (run_line_event i e (st, evs)))"
proof (cases e)
  case (Callback k)
  assume "lines_ok plain st"
  then show ?thesis
    using call_lines_ok [OF set_selected.scroll_closure_axioms [of plain "Some k"], of st i]
    by (simp add: Callback UIScrollList_setSelected_def split_beta Let_def)
qed simp_all

lemma run_arrow_ok: "lines_ok plain st \<Longrightarrow> lines_ok plain (fst (run_arrow_event i e (st, evs)))"
proof (cases e)
  case (Callback cmd)
  assume "lines_ok plain st"
  then show ?thesis
    using call_lines_ok [OF arrow.scroll_closure_axioms [of plain cmd], of st i]
    by (simp add: Callback split_beta Let_def)
qed simp_all

lemma fold_pair_ok:
  assumes "\<And>e st evs. ok st \<Longrightarrow> ok (fst (f e (st, evs)))" "ok st"
  shows "ok (fst (fold f es (st, evs)))"
  using assms(2)
proof (induction es arbitrary: st evs)
  case Nil
  then show ?case by simp
next
  case (Cons e es)
  obtain st' evs' where "f e (st, evs) = (st', evs')" by (cases "f e (st, evs)")
  with Cons assms(1) [OF Cons.prems, of e evs] show ?case by simp
qed

lemma click_at_ok: "lines_ok plain st \<Longrightarrow> lines_ok plain (fst (UIScrollList_click_at x y i (st, evs)))"
proof -
  assume ok: "lines_ok plain st"
  define li where "li = UIListItem_onClick x y (sl_listitem (us_scrolllists st ! i))"
  define r where "r = fold (run_line_event i) (snd li) (set_line i (fst li) st, evs)"
  define ua where "ua = UIArrowButton_onClick x y (sl_arrowbutton (us_scrolllists (fst r) ! i))"
  have "lines_ok plain (fst r)" unfolding r_def
    by (rule fold_pair_ok [of "lines_ok plain" "run_line_event i", OF run_line_ok]) (simp_all add: set_line_ok ok li_def)
  then have "lines_ok plain (fst (fold (run_arrow_event i) (snd ua) (set_arrow i (fst ua) (fst r), snd r)))"
    by (intro fold_pair_ok [of "lines_ok plain" "run_arrow_event i", OF run_arrow_ok] set_arrow_ok)
  then show ?thesis
    by (simp add: UIScrollList_click_at_def Let_def split_beta li_def r_def ua_def)
qed

lemma move_at_ok: "lines_ok plain st \<Longrightarrow> lines_ok plain (fst (UIScrollList_move_at x y i (st, evs)))"
proof -
  assume ok: "lines_ok plain st"
  define ua where "ua = (UIArrowButton_onMouseMove x y (sl_arrowbutton (us_scrolllists st ! i))
     :: _ \<times> scroll_cmd ui_event list)"
  define st1 where "st1 = set_line i (sl_listitem (us_scrolllists st ! i)) (set_arrow i (fst ua) st)"
  have "sl_listitem (us_scrolllists (set_arrow i (fst ua) st) ! i) =
      sl_listitem (us_scrolllists st ! i)"
    by (cases "i < length (us_scrolllists st)") (simp_all add: set_arrow_def list_update_beyond)
  then have st1: "lines_ok plain st1" unfolding st1_def by (intro set_line_ok set_arrow_ok ok) simp
  show ?thesis
    unfolding UIScrollList_move_at_def Let_def split_beta fst_conv snd_conv listitem_handlers
      ua_def [symmetric] st1_def [symmetric]
    using st1 call_lines_ok [OF set_position.scroll_closure_axioms st1]
    by (simp split: option.splits)
qed

lemma down_at_ok: "lines_ok plain st \<Longrightarrow> lines_ok plain (fst (UIScrollList_down_at x y i st))"
proof -
  assume ok: "lines_ok plain st"
  define ua where "ua = (UIArrowButton_onMouseDown x y (sl_arrowbutton (us_scrolllists st ! i))
     :: _ \<times> scroll_cmd ui_event list)"
  define st1 where "st1 = set_line i
     (UIListItem_onMouseDown x y (sl_listitem (us_scrolllists st ! i))) (set_arrow i (fst ua) st)"
  have "sl_listitem (us_scrolllists (set_arrow i (fst ua) st) ! i) =
      sl_listitem (us_scrolllists st ! i)"
    by (cases "i < length (us_scrolllists st)") (simp_all add: set_arrow_def list_update_beyond)
  then have st1: "lines_ok plain st1" unfolding st1_def by (intro set_line_ok set_arrow_ok ok) simp
  have grab: "lines_ok plain (st1\<lparr>us_scrolllists := (us_scrolllists st1)
      [i := (us_scrolllists st1 ! i)\<lparr>sl_mousedown_scrollbar_y := m\<rparr>]\<rparr>)" for m
    by (rule replace_lines_ok [OF st1]) simp_all
  show ?thesis
    unfolding UIScrollList_down_at_def Let_def split_beta ua_def [symmetric] st1_def [symmetric]
    using st1 grab call_lines_ok [OF previous_page.scroll_closure_axioms st1]
      call_lines_ok [OF next_page.scroll_closure_axioms st1]
    by simp
qed

lemma scroll_down_ok: "lines_ok plain st \<Longrightarrow> lines_ok plain (fst (scroll_down_from x y is st))"
proof (induction "is" arbitrary: st)
  case Nil
  then show ?case by simp
next
  case (Cons i "is")
  from down_at_ok [OF Cons.prems, of x y i] Cons.IH show ?case
    by (auto simp: split_beta Let_def)
qed

lemma render_ids:
  assumes "UIScrollList_render tm st c = Some (st', c')" "lines_ok plain st"
  shows "lines_ok plain st'"
proof -
  have li: "map li_id (ui_listitems li') = map li_id (ui_listitems li)"
    if r: "UIListItem_render tm li c = Some (li', c')" for li li' c c'
  proof -
    have "li_id l' = li_id l" if "UIListItem_render_one tm i l s = Some (l', s')" for i l s l' s'
      using that by (auto simp: UIListItem_render_one_def Let_def split: option.splits)
    from for_each_opt_map [of "UIListItem_render_one tm" li_id, OF this] r show ?thesis
      by (auto simp: UIListItem_render_def split: option.splits)
  qed
  define g where "g = (\<lambda>l. (position_ok plain l, shown_ok plain l))"
  have "g l' = g l" if "UIScrollList_render_one tm i l s = Some (l', s')" for i l s l' s'
    using that li
    by (auto simp: UIScrollList_render_one_def Let_def g_def split_beta split: option.splits)
      (auto simp: shown_ids_def shown_ok_def)
  from for_each_opt_map [of "UIScrollList_render_one tm" g, OF this] assms(1)
  have "map g (us_scrolllists st') = map g (us_scrolllists st)"
    by (auto simp: UIScrollList_render_def split: option.splits)
  then have "set (map g (us_scrolllists st')) = set (map g (us_scrolllists st))" by simp
  then show ?thesis using assms(2) unfolding lines_ok_def g_def
    by (auto simp: set_eq_iff image_iff)
qed
text \<open>Everything that can happen to a \<open>UIScrollList\<close> but lists too low to hold their page buttons. With
  \<open>plain\<close>, \<open>setList\<close> is called with a list whose length is not \<open>max_scrolllist_items\<close>; without, it may be
  called in every way.\<close>

inductive UIScrollList_reach :: "bool \<Rightarrow> uiscrolllist \<Rightarrow> bool" for plain where
  sr_new: "UIScrollList_reach plain new_UIScrollList"
| sr_add: "UIScrollList_reach plain st \<Longrightarrow> 0 \<le> sl_max_scrolllist_items (UIScrollList_prepare l) \<Longrightarrow>
    UIScrollList_reach plain (UIScrollList_add l st)"
| sr_setList: "UIScrollList_reach plain st \<Longrightarrow> plain \<longrightarrow> plain_call v (us_scrolllists st ! i) \<Longrightarrow>
    UIScrollList_reach plain (fst (sl_call i (sl_setList v) st))"
| sr_delete: "UIScrollList_reach plain st \<Longrightarrow> UIScrollList_reach plain (fst (sl_call i sl_deleteSelected st))"
| sr_arrow: "UIScrollList_reach plain st \<Longrightarrow> UIScrollList_reach plain (fst (sl_call i (sl_arrow cmd) st))"
| sr_position: "UIScrollList_reach plain st \<Longrightarrow>
    UIScrollList_reach plain (fst (sl_call i (sl_setScrollPosition p) st))"
| sr_selected: "UIScrollList_reach plain st \<Longrightarrow>
    UIScrollList_reach plain (fst (UIScrollList_setSelected i sid st))"
| sr_click: "UIScrollList_reach plain st \<Longrightarrow> UIScrollList_reach plain (fst (UIScrollList_onClick x y st))"
| sr_down: "UIScrollList_reach plain st \<Longrightarrow> UIScrollList_reach plain (fst (UIScrollList_onMouseDown x y st))"
| sr_up: "UIScrollList_reach plain st \<Longrightarrow> UIScrollList_reach plain (fst (UIScrollList_onMouseUp x y st))"
| sr_move: "UIScrollList_reach plain st \<Longrightarrow> UIScrollList_reach plain (fst (UIScrollList_onMouseMove x y st))"
| sr_render: "UIScrollList_reach plain st \<Longrightarrow> UIScrollList_render tm st c = Some (st', c') \<Longrightarrow>
    UIScrollList_reach plain st'"

lemma reach_lines_ok: "UIScrollList_reach plain st \<Longrightarrow> lines_ok plain st"
proof (induction rule: UIScrollList_reach.induct)
  case sr_new
  then show ?case by (simp add: lines_ok_def new_UIScrollList_def)
next
  case (sr_add st l)
  have "shown_ids (UIScrollList_prepare l) = []" "window (UIScrollList_prepare l) = []"
    "sl_scrollposition (UIScrollList_prepare l) = 0"
    by (simp_all add: UIScrollList_prepare_def Let_def shown_ids_def window_def new_UIListItem_def)
  with sr_add show ?case by (simp add: lines_ok_def UIScrollList_add_def position_ok_def shown_ok_def)
next
  case (sr_setList st v i)
  have "\<not> (plain \<and> \<not> plain_call v (us_scrolllists st ! i))" using sr_setList(2) by blast
  then have "sl_setList v (us_scrolllists st ! i) = sets_list plain v (us_scrolllists st ! i)"
    by (auto simp: sets_list_def)
  then have "sl_call i (sl_setList v) st = sl_call i (sets_list plain v) st"
    by (simp add: sl_call_def)
  then show ?case
    using call_lines_ok [OF set_list.scroll_closure_axioms sr_setList(3)] by simp
next
  case (sr_delete st i)
  then show ?case by (intro call_lines_ok delete_selected.scroll_closure_axioms)
next
  case (sr_arrow st i cmd)
  then show ?case by (intro call_lines_ok arrow.scroll_closure_axioms)
next
  case (sr_position st i p)
  then show ?case by (intro call_lines_ok set_position.scroll_closure_axioms)
next
  case (sr_selected st i sid)
  then show ?case
    using call_lines_ok [OF set_selected.scroll_closure_axioms [of plain sid], of st i]
    by (simp add: UIScrollList_setSelected_def split_beta Let_def)
next
  case (sr_click st x y)
  then show ?case unfolding UIScrollList_onClick_def
    by (intro fold_pair_ok [of "lines_ok plain" "UIScrollList_click_at x y", OF click_at_ok])
next
  case (sr_move st x y)
  then show ?case unfolding UIScrollList_onMouseMove_def
    by (intro fold_pair_ok [of "lines_ok plain" "UIScrollList_move_at x y", OF move_at_ok])
next
  case (sr_down st x y)
  then show ?case unfolding UIScrollList_onMouseDown_def by (intro scroll_down_ok)
next
  case (sr_up st x y)
  then show ?case
    by (auto simp: UIScrollList_onMouseUp_def lines_ok_def shown_ok_def shown_ids_def)
next
  case (sr_render st tm c st' c')
  then show ?case using render_ids by blast
qed

text \<open>C16: In every reachable state, whatever lists are set, a scroll list with more items than fit shows a
  full window of them at a position inside the list, and one with items shows those from its position on, as many
  as fit. When \<open>setList\<close> is never called without a list or with exactly as many items as fit, a list whose items
  all fit stands at position 0 and shows them all.\<close>

theorem UIScrollList_full_window:
  fixes plain :: bool and l :: scrolllist
  assumes "UIScrollList_reach plain st" "l \<in> set (us_scrolllists st)"
  defines "n \<equiv> int (length (sl_list l))" and "m \<equiv> sl_max_scrolllist_items l" and "p \<equiv> sl_scrollposition l"
  shows "0 \<le> p \<and>
    (m < n \<longrightarrow> p + m \<le> n \<and> shown_ids l = [nat p ..< nat (p + m)]) \<and>
    (sl_list l \<noteq> [] \<longrightarrow> shown_ids l = [nat p ..< nat (min (p + m) n)]) \<and>
    (plain \<and> n \<le> m \<longrightarrow> p = 0 \<and> shown_ids l = [0 ..< length (sl_list l)])"
proof -
  have ok: "position_ok plain l" "shown_ok plain l"
    using reach_lines_ok [OF assms(1)] assms(2) by (auto simp: lines_ok_def)
  then have p: "0 \<le> m" "0 \<le> p" "plain \<or> m < n \<longrightarrow> p \<le> max 0 (n - m)"
    by (simp_all add: position_ok_def n_def m_def p_def)
  have w: "window l = [nat p ..< nat (min (p + m) n)]"
    using p(1,2) by (simp add: window_def n_def m_def p_def min_def nat_add_distrib nat_le_iff)
  have s: "shown_ids l = window l" if "plain \<or> sl_list l \<noteq> []" using ok(2) that by (auto simp: shown_ok_def)
  have "m < n \<Longrightarrow> sl_list l \<noteq> []" using p(1) by (auto simp: n_def)
  then have "m < n \<longrightarrow> p + m \<le> n \<and> shown_ids l = [nat p ..< nat (p + m)]"
    using s w p by (auto simp: min_def)
  moreover have "p = 0 \<and> shown_ids l = [0 ..< length (sl_list l)]" if "plain" "n \<le> m"
  proof -
    have "p = 0" using p that by simp
    then have "window l = [0 ..< nat n]" using w that(2) by (simp add: min_def)
    then show ?thesis using s that \<open>p = 0\<close> by (simp add: n_def)
  qed
  moreover have "sl_list l \<noteq> [] \<longrightarrow> shown_ids l = [nat p ..< nat (min (p + m) n)]" using s w by simp
  ultimately show ?thesis using p(2) by blast
qed

text \<open>The size and the place of the bar as numbers.\<close>

lemma bar_values:
  assumes "0 < sl_max_scrolllist_items l" "sl_max_scrolllist_items l < int (length (sl_list l))"
    "0 \<le> sl_scrollposition l" "0 < max_scrollbarheight l" "0 < sl_scrollbarwidth l"
    "0 \<le> sl_border_width l"
  defines "H \<equiv> max_scrollbarheight l" and "b \<equiv> sl_scrollbarwidth l + sl_border_width l / 2"
    and "m \<equiv> real_of_int (sl_max_scrolllist_items l)" and "n \<equiv> real (length (sl_list l))"
    and "p \<equiv> real_of_int (sl_scrollposition l)"
  shows "sl_scrollbarsize (update_one l) = Fin (H * (m / n))" (is ?size)
    "sl_scrollbar_y (update_one l) = Fin ((H - H * (m / n)) * (p / (n - m)) + b)" (is ?y)
    "0 < m" "m < n" "0 < H * (m / n)" "H * (m / n) < H" "0 < b" "0 \<le> p / (n - m)"
proof -
  have "m < of_int (int (length (sl_list l)))"
    using assms(2) unfolding m_def by (simp only: of_int_less_iff)
  then have r: "0 < m" "m < n" "0 \<le> p" "0 < H" "0 < b"
    using assms by simp_all
  then show "0 < m" "m < n" "0 < b" by simp_all
  show s: "0 < H * (m / n)" "H * (m / n) < H"
    using r mult_strict_left_mono [of "m / n" 1 H] by simp_all
  show q: "0 \<le> p / (n - m)" using r by simp
  have size: "getScrollbarSize (sl_max_scrolllist_items l) (int (length (sl_list l))) = Fin (m / n)"
    using r assms(1,2) by (auto simp: getScrollbarSize_def m_def n_def Let_def field_simps)
  have diff: "real_of_int (int (length (sl_list l)) - sl_max_scrolllist_items l) = n - m"
    by (simp add: n_def m_def)
  show ?size by (simp add: update_one_def Let_def size H_def)
  have "0 \<le> (H - H * (m / n)) * (p / (n - m))" using s q by (intro mult_nonneg_nonneg) simp_all
  then have nz: "(H - H * (m / n)) * (p / (n - m)) + b \<noteq> 0" using r by linarith
  have quot: "js_div p (real_of_int (int (length (sl_list l)) - sl_max_scrolllist_items l)) =
      Fin (p / (n - m))"
    unfolding diff using r by (simp add: js_div_def)
  show ?y using nz
    unfolding update_one_def Let_def size H_def [symmetric] b_def [symmetric] p_def [symmetric] quot
    by simp
qed

text \<open>With more items than fit, the bar stays inside its track: its top edge is at or below
  the track's start and its bottom edge at or above the track's end, and it touches the ends
  exactly at the first and the last position.\<close>

theorem UIScrollList_bar_inside:
  assumes "0 < sl_max_scrolllist_items l" "sl_max_scrolllist_items l < int (length (sl_list l))"
    "0 \<le> sl_scrollposition l"
    "sl_scrollposition l \<le> int (length (sl_list l)) - sl_max_scrolllist_items l"
    "0 < max_scrollbarheight l" "0 < sl_scrollbarwidth l" "0 \<le> sl_border_width l"
  shows "\<exists>s t. sl_scrollbarsize (update_one l) = Fin s \<and> sl_scrollbar_y (update_one l) = Fin t \<and>
    0 < s \<and> sl_scrollbarwidth l + sl_border_width l / 2 \<le> t \<and>
    t + s \<le> sl_scrollbarwidth l + sl_border_width l / 2 + max_scrollbarheight l \<and>
    (t = sl_scrollbarwidth l + sl_border_width l / 2 \<longleftrightarrow> sl_scrollposition l = 0) \<and>
    (t + s = sl_scrollbarwidth l + sl_border_width l / 2 + max_scrollbarheight l \<longleftrightarrow>
      sl_scrollposition l = int (length (sl_list l)) - sl_max_scrolllist_items l)"
proof -
  define H where "H = max_scrollbarheight l"
  define b where "b = sl_scrollbarwidth l + sl_border_width l / 2"
  define m where "m = real_of_int (sl_max_scrolllist_items l)"
  define n where "n = real (length (sl_list l))"
  define p where "p = real_of_int (sl_scrollposition l)"
  define s where "s = H * (m / n)"
  define t where "t = (H - s) * (p / (n - m)) + b"
  note v = bar_values [OF assms(1-3,5-7), folded H_def b_def m_def n_def p_def, folded s_def,
      folded t_def]
  have "p \<le> of_int (int (length (sl_list l)) - sl_max_scrolllist_items l)"
    using assms(4) unfolding p_def by (simp only: of_int_le_iff)
  then have q: "p / (n - m) \<le> 1" using v(3,4) by (simp add: n_def m_def field_simps)
  have "(H - s) * (p / (n - m)) \<le> (H - s) * 1" "0 \<le> (H - s) * (p / (n - m))"
    using v(6,8) q by (intro mult_left_mono mult_nonneg_nonneg; simp)+
  then have t: "b \<le> t" "t + s \<le> b + H" by (simp_all add: t_def)
  have top: "t = b \<longleftrightarrow> sl_scrollposition l = 0"
    using v(4,6) by (simp add: t_def p_def)
  have "t + s = b + H \<longleftrightarrow> (H - s) * (p / (n - m)) = (H - s) * 1" by (auto simp: t_def)
  also have "\<dots> \<longleftrightarrow> p / (n - m) = 1" using v(6) by (subst mult_left_cancel) simp_all
  also have "\<dots> \<longleftrightarrow> p = n - m" using v(4) by (auto simp: field_simps)
  also have "\<dots> \<longleftrightarrow> sl_scrollposition l = int (length (sl_list l)) - sl_max_scrolllist_items l"
    unfolding p_def n_def m_def by linarith
  finally show ?thesis using v(1,2,5) t top unfolding H_def [symmetric] b_def [symmetric] by blast
qed

definition demo_scroll :: scrolllist where
  "demo_scroll = UIScrollList_prepare
     \<lparr>sl_x = 0, sl_y = 0, sl_width = 300, sl_height = 255, sl_pagescrollbuttonheight = 50,
      sl_scrollbarwidth = 40, sl_border_width = 4, sl_border_radius = None, sl_border = None,
      sl_hover_border = None, sl_background = [], sl_foreground = [],
      sl_scrollbarbackground = None, sl_grd_type = None, sl_font_size = None,
      sl_item_height = 100, sl_item_font_size = 20, sl_item_selectedBackground = None,
      sl_name = None, sl_callback = True, sl_selectedID = None, sl_listitem = new_UIListItem,
      sl_arrowbutton = new_UIArrowButton, sl_scrollposition = 0, sl_list = [],
      sl_max_scrolllist_items = 0, sl_scrollbarsize = NaN, sl_scrollbar_y = NaN,
      sl_mousedown_scrollbar_y = None\<rparr>"

definition demo_line :: scroll_item where
  "demo_line = \<lparr>si_type = LineText, si_qty = None, si_article_price = None, si_lineitem = []\<rparr>"

lemma demo_scroll_fields:
  "sl_max_scrolllist_items demo_scroll = 2" "sl_scrollposition demo_scroll = 0"
  "sl_list demo_scroll = []" "max_scrollbarheight demo_scroll = 121"
  "sl_scrollbarwidth demo_scroll = 40" "sl_border_width demo_scroll = 4"
  by (simp_all add: demo_scroll_def UIScrollList_prepare_def Let_def math_round_def
      max_scrollbarheight_def)

theorem UIScrollList_full_window_witness:
  "shown_ids (us_scrolllists (fst (sl_call 0 (sl_setList (Some [demo_line, demo_line, demo_line]))
     (UIScrollList_add demo_scroll new_UIScrollList))) ! 0) = [1, 2]"
proof -
  let ?st = "UIScrollList_add demo_scroll new_UIScrollList"
  let ?st' = "fst (sl_call 0 (sl_setList (Some [demo_line, demo_line, demo_line])) ?st)"
  have m: "sl_max_scrolllist_items (UIScrollList_prepare demo_scroll) = 2"
    by (simp add: demo_scroll_def UIScrollList_prepare_def Let_def math_round_def)
  have l: "us_scrolllists ?st = [UIScrollList_prepare demo_scroll]"
    by (simp add: UIScrollList_add_def new_UIScrollList_def)
  have r: "UIScrollList_reach True ?st'"
    by (rule sr_setList, rule sr_add, rule sr_new) (simp_all add: m l plain_call_def)
  have l': "us_scrolllists ?st' =
      [update_one (fst (sl_setList (Some [demo_line, demo_line, demo_line]) (UIScrollList_prepare demo_scroll)))]"
    by (simp add: sl_call_def l UIScrollList_update_def sl_setList_def Let_def split_beta)
  define l where "l = us_scrolllists ?st' ! 0"
  have "sl_scrollposition l = 1" "sl_max_scrolllist_items l = 2" "length (sl_list l) = 3"
    using m by (simp_all add: l_def l' sl_setList_def Let_def split: option.splits)
  moreover have "l \<in> set (us_scrolllists ?st')" by (simp add: l_def l')
  moreover have "[1..<3] = [1, 2 :: nat]" by (simp add: upt_rec)
  ultimately show ?thesis
    using UIScrollList_full_window [OF r, of l] by (simp add: l_def)
qed

theorem UIScrollList_bar_inside_witness:
  "\<exists>s t. sl_scrollbarsize (update_one (demo_scroll\<lparr>sl_list := replicate 3 demo_line\<rparr>)) = Fin s \<and>
     sl_scrollbar_y (update_one (demo_scroll\<lparr>sl_list := replicate 3 demo_line\<rparr>)) = Fin t \<and>
     0 < s \<and> t + s \<le> 163"
proof -
  let ?l = "demo_scroll\<lparr>sl_list := replicate 3 demo_line\<rparr>"
  have "max_scrollbarheight ?l = 121"
    using demo_scroll_fields(4) by (simp add: max_scrollbarheight_def)
  then show ?thesis
    using UIScrollList_bar_inside [of ?l] demo_scroll_fields by auto
qed

text \<open>\<open>setScrollPosition\<close> clamps a whole position to the window's range, except that
  position 0 is ignored while there are more items than fit: the list cannot be scrolled to its
  start by asking for 0. Nothing happens to a list with fewer items than fit.\<close>

theorem setScrollPosition_cases:
  "sl_setScrollPosition (Fin (real_of_int p)) l =
     (let top = int (length (sl_list l)) - sl_max_scrolllist_items l
      in if top < 0 \<or> (p = 0 \<and> 0 < top) then (l, 0)
         else (l\<lparr>sl_scrollposition := max 0 (min p top)\<rparr>, 1))"
proof -
  define t where "t = int (length (sl_list l)) - sl_max_scrolllist_items l"
  have le: "sl_max_scrolllist_items l \<le> int (length (sl_list l)) \<longleftrightarrow> 0 \<le> t" by (simp add: t_def)
  have less: "real_of_int t < real_of_int p + 1 \<longleftrightarrow> t < p + 1" by linarith
  have less': "real_of_int t < 1 + real_of_int p \<longleftrightarrow> t < p + 1" by linarith
  show ?thesis
    unfolding sl_setScrollPosition_def Let_def t_def [symmetric] le
    by (auto simp: less less' min_def max_def)
qed

text \<open>\<open>setList\<close> with exactly as many items as fit leaves the scroll position of the list
  before. If that was at least the number of lines, nothing of the new list is shown.\<close>

theorem setList_exact_stale:
  assumes "int (length xs) = sl_max_scrolllist_items l"
    "sl_max_scrolllist_items l \<le> sl_scrollposition l"
  shows "shown_ids (update_one (fst (sl_setList (Some xs) l))) = []"
proof -
  let ?l = "fst (sl_setList (Some xs) l)"
  have f: "sl_scrollposition ?l = sl_scrollposition l" "sl_list ?l = xs"
    "sl_max_scrolllist_items ?l = sl_max_scrolllist_items l"
    using assms(1) by (auto simp: sl_setList_def Let_def split: option.splits)
  have "0 \<le> sl_scrollposition ?l" using assms f by linarith
  then have "shown_ids (update_one ?l) = window ?l" by (rule shown_update)
  also have "\<dots> = []" using assms f by (simp add: window_def)
  finally show ?thesis .
qed

theorem setList_exact_stale_witness:
  "shown_ids (update_one (fst (sl_setList (Some [demo_line, demo_line])
     (demo_scroll\<lparr>sl_scrollposition := 3, sl_list := replicate 5 demo_line\<rparr>)))) = []"
  by (rule setList_exact_stale) (simp_all add: demo_scroll_fields)

text \<open>Dragging the bar from where it was grabbed to \<open>d\<close> below moves the list in proportion
  to the free track, but half a border too far: the grab is measured from the bar, the position
  from the end of the arrow button.\<close>

theorem UIScrollList_drag:
  assumes "0 < sl_max_scrolllist_items l" "sl_max_scrolllist_items l < int (length (sl_list l))"
    "0 < max_scrollbarheight l" "0 < sl_scrollbarwidth l" "0 \<le> sl_border_width l"
    "0 \<le> sl_scrollposition l"
    "sl_scrollbar_y (update_one l) = Fin t" "sl_scrollbarsize (update_one l) = Fin s"
  shows "drag_position (y + d) (Fin (y - (sl_y l + t))) (update_one l) =
    Fin (real_of_int (math_round (real_of_int (sl_scrollposition l) +
      (real (length (sl_list l)) - real_of_int (sl_max_scrolllist_items l))
        / (max_scrollbarheight l - s) * (d + sl_border_width l / 2))))"
proof -
  define H where "H = max_scrollbarheight l"
  define b where "b = sl_scrollbarwidth l + sl_border_width l / 2"
  define m where "m = real_of_int (sl_max_scrolllist_items l)"
  define n where "n = real (length (sl_list l))"
  define p where "p = real_of_int (sl_scrollposition l)"
  define e where "e = sl_border_width l / 2"
  note v = bar_values [OF assms(1,2,6,3-5), folded H_def b_def m_def n_def p_def]
  have s: "s = H * (m / n)" using v(1) assms(8) by simp
  have t: "t = (H - s) * (p / (n - m)) + b" using v(2) assms(7) by (simp add: s)
  have sH: "0 < H - s" "0 < n - m" using v(4,6) by (simp_all add: s)
  have grab: "y + d - (sl_y l + sl_scrollbarwidth l) - (y - (sl_y l + t)) =
      (H - s) * (p / (n - m)) + (d + e)"
    by (simp add: t b_def e_def)
  have "(n - m) / (H - s) * ((H - s) * (p / (n - m)) + (d + e)) =
      ((n - m) / (n - m)) * ((H - s) / (H - s)) * p + (n - m) / (H - s) * (d + e)"
    by (simp only: distrib_left times_divide_eq_left times_divide_eq_right mult_ac)
  then have q: "(n - m) / (H - s) * ((H - s) * (p / (n - m)) + (d + e)) =
      p + (n - m) / (H - s) * (d + e)"
    using sH by simp
  have diff: "real_of_int (int (length (sl_list l)) - sl_max_scrolllist_items l) = n - m"
    by (simp add: n_def m_def)
  have "drag_position (y + d) (Fin (y - (sl_y l + t))) (update_one l) =
      js_round (js_mul (js_div (n - m) (H - s))
        (js_shift (y + d - (sl_y l + sl_scrollbarwidth l)) (js_neg (Fin (y - (sl_y l + t))))))"
    unfolding drag_position_def Let_def update_one_fields assms(8) diff H_def by simp
  also have "\<dots> = js_round (Fin ((n - m) / (H - s) * ((H - s) * (p / (n - m)) + (d + e))))"
    unfolding grab [symmetric] using sH(1) by (simp add: js_div_def algebra_simps)
  finally show ?thesis unfolding q
    by (simp add: math_round_def p_def n_def m_def H_def e_def)
qed

theorem UIScrollList_drag_witness:
  "drag_position (100 + 30) (Fin (100 - 42)) (update_one (demo_scroll\<lparr>sl_list := replicate 3 demo_line\<rparr>)) =
     Fin 1"
proof -
  let ?l = "demo_scroll\<lparr>sl_list := replicate 3 demo_line\<rparr>"
  have h: "max_scrollbarheight ?l = 121"
    using demo_scroll_fields(4) by (simp add: max_scrollbarheight_def)
  have y: "sl_y ?l = 0"
    by (simp add: demo_scroll_def UIScrollList_prepare_def Let_def)
  note v = bar_values(1,2) [of ?l, unfolded h]
  have st: "sl_scrollbarsize (update_one ?l) = Fin (242 / 3)" "sl_scrollbar_y (update_one ?l) = Fin 42"
    using v demo_scroll_fields by simp_all
  have "math_round (32 / (121 - 242 / 3)) = 1"
    unfolding math_round_def by (rule floor_unique) simp_all
  then show ?thesis
    using UIScrollList_drag [of ?l 42 "242 / 3" 100 30] st demo_scroll_fields by (simp add: h y)
qed
section \<open>Drawing ends and is well nested\<close>

lemma textline_count_None: "textline_count w t = None \<longleftrightarrow> t = 0 \<and> 0 < w"
  by (auto simp: textline_count_def js_div_def)

text \<open>C36: Drawing the lines ends when every text that fills a line (\<open>type: 'textline'\<close>) has a
  positive width. A filled line whose text has no width, such as the empty text, on an area of
  positive width repeats the text for ever.\<close>

theorem UIListItem_render_ends:
  assumes "\<And>l p d. l \<in> set (ui_listitems st) \<Longrightarrow> li_type l = LineTextline \<Longrightarrow>
      p \<in> set (li_lineitem l) \<Longrightarrow>
      tm d (lp_displaytext p) \<noteq> 0 \<or> li_width l * (lp_end p - lp_start p) \<le> 0"
  shows "UIListItem_render tm st c \<noteq> None"
proof -
  have one: "UIListItem_render_one tm i l d \<noteq> None" if l: "l \<in> set (ui_listitems st)" for i l d
  proof -
    have part: "render_part tm l j p e \<noteq> None" if p: "p \<in> set (li_lineitem l)" for j p e
    proof (cases "li_type l")
      case LineText
      then show ?thesis
        by (auto simp: render_part_def Let_def split: option.splits align.splits)
    next
      case LineTextline
      then have "textline_count (li_width l * (lp_end p - lp_start p)) (tm e (lp_displaytext p)) \<noteq> None"
        using assms [OF l LineTextline p, of e] unfolding textline_count_None by auto
      then show ?thesis using LineTextline
        by (auto simp: render_part_def Let_def split: option.splits)
    next
      case LineOther
      then show ?thesis by (simp add: render_part_def)
    qed
    have "for_each_opt (render_part tm l) 0 (li_lineitem l) e \<noteq> None" for e
      by (rule for_each_opt_total) (rule part)
    then show ?thesis unfolding UIListItem_render_one_def Let_def
      by (rule case_opt_total) (simp add: split_beta)
  qed
  have "for_each_opt (UIListItem_render_one tm) 0 (ui_listitems st) c \<noteq> None"
    by (rule for_each_opt_total) (rule one)
  then show ?thesis by (auto simp: UIListItem_render_def split: option.splits)
qed

definition demo_textline :: "jsstring \<Rightarrow> uilistitem" where
  "demo_textline t = UIListItem_add
     ((line_at demo_scroll 0 demo_line)\<lparr>li_type := LineTextline, li_lineitem :=
        [\<lparr>lp_location = 0, lp_align = None, lp_displaytext = t, lp_start = 0, lp_end = 1\<rparr>]\<rparr>)
     new_UIListItem"

lemma textline_without_width_never_ends:
  "UIListItem_render (\<lambda>c t. real (length t)) (demo_textline []) c = None"
  by (simp add: demo_textline_def UIListItem_render_def UIListItem_render_one_def UIListItem_add_def
      new_UIListItem_def line_at_def render_part_def textline_count_def js_div_def Let_def
      demo_scroll_def UIScrollList_prepare_def)

theorem UIListItem_render_ends_witness:
  "UIListItem_render (\<lambda>c t. real (length t)) (demo_textline (js ''='')) [] \<noteq> None"
  by (rule UIListItem_render_ends)
    (simp add: demo_textline_def UIListItem_add_def new_UIListItem_def)

lemma part_nested:
  "render_part tm l j p c = Some (p', c') \<Longrightarrow> \<exists>cs. c' = c @ cs \<and> well_nested cs"
  by (auto simp: render_part_def Let_def emit_def well_nested_def
      split: line_type.splits option.splits align.splits)

lemma line_nested:
  assumes "UIListItem_render_one tm i l c = Some (l', c')"
  shows "\<exists>cs. c' = c @ cs \<and> well_nested cs"
proof -
  define pre where "pre = [SetFill (opt_color (li_selectedBackground l))]
     @ (if li_selected l = Some (li_id l)
        then [FillRect (li_x l + li_border_width l / (18 / 10)) (li_y l + li_border_width l / 2)
                (li_width l - li_border_width l * (12 / 10)) (li_height l)] else [])
     @ [SetFill (opt_color (li_foreground l)), SetStroke (opt_color (li_foreground l)),
        SetFont (Some (li_font_size l))]"
  have pre: "well_nested pre" by (simp add: pre_def well_nested_def)
  obtain ps where "for_each_opt (render_part tm l) 0 (li_lineitem l) (emit pre c) = Some (ps, c')"
    using assms unfolding UIListItem_render_one_def Let_def pre_def [symmetric]
    by (auto split: option.splits)
  then have "\<exists>cs. c' = emit pre c @ cs \<and> well_nested cs"
    by (rule for_each_opt_state [where R = "\<lambda>c d. \<exists>cs. d = c @ cs \<and> well_nested cs", rotated 3])
      (auto intro: well_nested_append part_nested)
  then show ?thesis using pre by (auto simp: emit_def intro: well_nested_append)
qed

lemma UIListItem_render_nested:
  assumes "UIListItem_render tm st c = Some (st', c')"
  shows "\<exists>cs. c' = c @ cs \<and> well_nested cs"
proof -
  obtain ls where "for_each_opt (UIListItem_render_one tm) 0 (ui_listitems st) c = Some (ls, c')"
    using assms by (auto simp: UIListItem_render_def split: option.splits)
  then show ?thesis
    by (rule for_each_opt_state [where R = "\<lambda>c d. \<exists>cs. d = c @ cs \<and> well_nested cs", rotated 3])
      (auto intro: well_nested_append line_nested)
qed

lemma fill_rect_num_nested [simp]: "well_nested (fill_rect_num x y w h)"
  by (cases "(x, y, w, h)" rule: fill_rect_num.cases) (simp_all add: well_nested_def)

lemma UIScrollList_render_nested:
  assumes "UIScrollList_render tm st c = Some (st', c')"
  shows "\<exists>cs. c' = c @ cs \<and> well_nested cs"
proof -
  have one: "\<exists>cs. d' = d @ cs \<and> well_nested cs"
    if r: "UIScrollList_render_one tm i l d = Some (l', d')" for i l d l' d'
  proof -
    define h where "h = sl_height l - sl_pagescrollbuttonheight l"
    define c1 where "c1 = emit ([SetFont (sl_font_size l), SetStroke (opt_color (sl_border l)),
        SetLineWidth (Some (sl_border_width l))] @ scroll_gradient l)"
    define c2 where "c2 = (\<lambda>d. if no_radius (sl_border_radius l)
        then emit [FillRect (sl_x l) (sl_y l) (sl_width l) h,
                   StrokeRect (sl_x l) (sl_y l) (sl_width l) h] d
        else roundRect (sl_x l) (sl_y l) (sl_width l) h (the (sl_border_radius l))
               (Some (sl_border_width l)) d)"
    define c3 where "c3 = emit ([SetFill (opt_color (sl_scrollbarbackground l)),
        FillRect (sl_x l + sl_width l - sl_scrollbarwidth l - sl_border_width l / 2)
          (sl_y l + sl_scrollbarwidth l) (sl_scrollbarwidth l + sl_border_width l / 2)
          (h - sl_scrollbarwidth l), SetFill (PColor (sl_foreground l))]
       @ fill_rect_num (sl_x l + sl_width l - sl_scrollbarwidth l - sl_border_width l / 2)
           (js_shift (sl_y l) (sl_scrollbar_y l)) (sl_scrollbarwidth l + sl_border_width l / 2)
           (sl_scrollbarsize l))"
    have "draws_nested c1" "draws_nested c3" "draws_nested c2"
      unfolding c1_def c2_def c3_def scroll_gradient_def
      by (intro draws_nested_emit well_nested_append draws_nested_if draws_nested_roundRect; simp)+
    from draws_nested_comp [OF draws_nested_comp [OF this(1,3)] this(2)]
    have pre: "\<exists>cs. c3 (c2 (c1 d)) = d @ cs \<and> well_nested cs" by (simp add: draws_nested_def)
    obtain li e where e: "UIListItem_render tm (sl_listitem l) (c3 (c2 (c1 d))) = Some (li, e)"
      "d' = snd (UIArrowButton_render tm (sl_arrowbutton l) e)"
      using r unfolding UIScrollList_render_one_def Let_def h_def [symmetric] c1_def [symmetric]
        c3_def [symmetric]
      by (auto simp: c2_def split_beta split: option.splits)
    show ?thesis
      using pre UIListItem_render_nested [OF e(1)] UIArrowButton_render_nested [of tm "sl_arrowbutton l"]
      unfolding e(2) draws_nested_def by (metis append.assoc well_nested_append)
  qed
  obtain ls where "for_each_opt (UIScrollList_render_one tm) 0 (us_scrolllists st) c = Some (ls, c')"
    using assms by (auto simp: UIScrollList_render_def split: option.splits)
  then show ?thesis
    by (rule for_each_opt_state [where R = "\<lambda>c d. \<exists>cs. d = c @ cs \<and> well_nested cs", rotated 3])
      (auto intro: well_nested_append one)
qed

end
