(* ===== verification/Shapes.thy ===== *)
theory Shapes
  imports Buttons
begin

text \<open>
  The elements that show something and take few or no events: \<open>UIText\<close>, \<open>UITextBox\<close>, \<open>UILine\<close>,
  \<open>UICircle\<close>, \<open>UIImage\<close> and \<open>UICheckBox\<close> (\<open>canvasuijs/uitext.js\<close>, \<open>uitextbox.js\<close>,
  \<open>uiline.js\<close>, \<open>uicircle.js\<close>, \<open>uiimage.js\<close>, \<open>uicheckbox.js\<close>).

  A context method that is called with \<open>undefined\<close> for a coordinate does nothing, so it is left
  out. The context that \<open>UICheckBox\<close> keeps is the one it is drawn on.
\<close>

section \<open>What the classes share\<close>

text \<open>\<open>translate(center_x, center_y); rotate(angle * PI / 180); translate(-center_x, -center_y)\<close>\<close>

definition turn_about :: "real option \<Rightarrow> real option \<Rightarrow> real option \<Rightarrow> gfx list" where
  "turn_about center_x center_y angle =
     (case (center_x, center_y) of (Some x, Some y) \<Rightarrow> [Translate x y] | _ \<Rightarrow> [])
     @ (case angle of Some a \<Rightarrow> [RotateBy (a * pi / 180)] | None \<Rightarrow> [])
     @ (case (center_x, center_y) of (Some x, Some y) \<Rightarrow> [Translate (- x) (- y)] | _ \<Rightarrow> [])"

text \<open>The border of an element that a plan may highlight: red when another element is searched
  for, its own border normally, and cyan when its text is the one searched for. An array equals
  the string of its joined elements.\<close>

fun dtext_string :: "dtext \<Rightarrow> jsstring" where
  "dtext_string (DText s) = s"
| "dtext_string (DLines ls) = js_join 44 ls"

definition highlight_border ::
  "bool \<Rightarrow> jsstring option \<Rightarrow> dtext option \<Rightarrow> jsstring option \<Rightarrow> real option \<Rightarrow> gfx list" where
  "highlight_border highlight main_highlight displaytext border border_width =
     (let other = (case displaytext of None \<Rightarrow> True
                   | Some d \<Rightarrow> main_highlight \<noteq> Some (dtext_string d))
      in if highlight \<and> other then [SetStroke (PColor (js ''#ff0000'')), SetLineWidth (Some 8)]
         else if other then [SetStroke (opt_color border), SetLineWidth border_width]
         else [SetStroke (PColor (js ''#00ffff'')), SetLineWidth (Some 8)])"

lemma well_nested_turn [simp]: "well_nested (turn_about x y a)"
  by (auto simp: turn_about_def intro!: well_nested_append split: option.splits)

lemma well_nested_highlight [simp]: "well_nested (highlight_border h m d b w)"
  by (simp add: highlight_border_def Let_def)

lemma well_nested_app [simp]: "well_nested xs \<Longrightarrow> well_nested (xs @ ys) = well_nested ys"
  by (simp add: well_nested_def depth_after_append)

lemma well_nested_saved [simp]: "well_nested xs \<Longrightarrow> well_nested ys \<Longrightarrow>
    well_nested (Save # xs @ Restore # ys)"
  by (simp add: well_nested_def depth_after_append)

section \<open>UIText\<close>

record textelem =
  tx_x :: real
  tx_y :: real
  tx_width :: "real option"
  tx_height :: "real option"
  tx_font_size :: "real option"
  tx_border :: "jsstring option"
  tx_border_width :: "real option"
  tx_background :: "jsstring list option"
  tx_center_x :: "real option"
  tx_center_y :: "real option"
  tx_angle :: "real option"
  tx_displaytext :: "jsstring option"
  tx_active :: "bool option"
  tx_name :: "jsstring option"

record uitext =
  ut_texts :: "textelem list"

definition new_UIText :: uitext where
  "new_UIText = \<lparr>ut_texts = []\<rparr>"

definition UIText_prepare :: "textelem \<Rightarrow> textelem" where
  "UIText_prepare t = (if tx_active t = None then t\<lparr>tx_active := Some True\<rparr> else t)"

definition UIText_add :: "textelem \<Rightarrow> uitext \<Rightarrow> uitext" where
  "UIText_add t st = st\<lparr>ut_texts := ut_texts st @ [UIText_prepare t]\<rparr>"

definition UIText_setText :: "jsstring option \<Rightarrow> textelem \<Rightarrow> textelem" where
  "UIText_setText params t = t\<lparr>tx_displaytext := params\<rparr>"

definition UIText_getText :: "textelem \<Rightarrow> jsstring option" where
  "UIText_getText t = tx_displaytext t"

definition text_lines :: "text_measure \<Rightarrow> textelem \<Rightarrow> ctx \<Rightarrow> gfx list" where
  "text_lines tm t c =
     (case tx_displaytext t of
        None \<Rightarrow> []
      | Some s \<Rightarrow>
          if s = [] then []
          else
            (let text_width = tm c s; stroke = border_set (tx_border_width t)
             in case (tx_width t, tx_height t) of
                  (Some w, Some h) \<Rightarrow>
                    (let y = tx_y t + h / 2 + h / (33 / 10)
                     in if text_width > w
                        then [FillTextMax s (tx_x t) y w]
                             @ (if stroke then [StrokeTextMax s (tx_x t) y w] else [])
                        else [FillText s (tx_x t + (w - text_width) / 2) y]
                             @ (if stroke then [StrokeText s (tx_x t + (w - text_width) / 2) y]
                                else []))
                | _ \<Rightarrow>
                    (case tx_font_size t of
                       None \<Rightarrow> []
                     | Some fs \<Rightarrow>
                         [FillText s (tx_x t) (tx_y t + fs / (33 / 10))]
                         @ (if stroke then [StrokeText s (tx_x t) (tx_y t + fs / (33 / 10))]
                            else []))))"

definition UIText_render_one :: "text_measure \<Rightarrow> textelem \<Rightarrow> ctx \<Rightarrow> ctx" where
  "UIText_render_one tm t c =
     (if tx_active t = Some True then
        (let pre = [SetFont (case tx_height t of Some h \<Rightarrow> Some h | None \<Rightarrow> tx_font_size t),
                    SetStroke (opt_color (tx_border t)), SetLineWidth (tx_border_width t),
                    SetFill (case tx_background t of
                               Some bg \<Rightarrow> opt_color (js_get bg 0) | None \<Rightarrow> PUndef)];
             turn = turn_about (tx_center_x t) (tx_center_y t) (tx_angle t);
             c1 = emit (pre @ Save # turn) c
         in emit (text_lines tm t c1 @ [Restore]) c1)
      else c)"

definition UIText_render :: "text_measure \<Rightarrow> uitext \<Rightarrow> ctx \<Rightarrow> ctx" where
  "UIText_render tm st = fold (UIText_render_one tm) (ut_texts st)"

text \<open>\<open>onClick\<close>, \<open>onMouseDown\<close>, \<open>onMouseUp\<close> and \<open>onMouseMove\<close> of \<open>UIText\<close>, \<open>UITextBox\<close>,
  \<open>UILine\<close>, \<open>UICircle\<close> and \<open>UIImage\<close> return at once.\<close>

definition no_handler :: "real \<Rightarrow> real \<Rightarrow> 's \<Rightarrow> 's" where
  "no_handler x y st = st"

definition UIText_find :: "jsstring option \<Rightarrow> uitext \<Rightarrow> textelem option" where
  "UIText_find name st = List.find (\<lambda>t. tx_name t = name) (ut_texts st)"

definition UIText_clear :: "uitext \<Rightarrow> uitext" where
  "UIText_clear st = st\<lparr>ut_texts := []\<rparr>"

interpretation ut: named_collection ut_texts tx_name UIText_prepare UIText_add UIText_find UIText_clear
  by unfold_locales
    (simp_all add: UIText_add_def UIText_prepare_def UIText_find_def UIText_clear_def)

section \<open>UITextBox\<close>

record textbox =
  tb_x :: real
  tb_y :: real
  tb_width :: real
  tb_height :: real
  tb_background :: "jsstring list"
  tb_foreground :: "jsstring option"
  tb_border :: "jsstring option"
  tb_border_width :: "real option"
  tb_border_radius :: "real option"
  tb_font_size :: "real option"
  tb_grd_type :: "grd_type option"
  tb_align :: "align option"
  tb_center_x :: "real option"
  tb_center_y :: "real option"
  tb_angle :: "real option"
  tb_label :: "jsstring option"
  tb_displaytext :: jsstring
  tb_highlight :: bool
  tb_main_highlight :: "jsstring option"
  tb_active :: "bool option"
  tb_name :: "jsstring option"

record 'm uitextbox =
  ux_textboxes :: "'m textbox_scheme list"

definition new_UITextBox :: "'m uitextbox" where
  "new_UITextBox = \<lparr>ux_textboxes = []\<rparr>"

text \<open>The text of a box is a string: \<open>add\<close> and \<open>setText\<close> convert what they are given, and a
  missing text becomes the empty one.\<close>

definition UITextBox_prepare :: "'m textbox_scheme \<Rightarrow> 'm textbox_scheme" where
  "UITextBox_prepare t = (if tb_active t = None then t\<lparr>tb_active := Some True\<rparr> else t)"

definition UITextBox_add :: "'m textbox_scheme \<Rightarrow> 'm uitextbox \<Rightarrow> 'm uitextbox" where
  "UITextBox_add t st = st\<lparr>ux_textboxes := ux_textboxes st @ [UITextBox_prepare t]\<rparr>"

definition UITextBox_setText :: "jsstring \<Rightarrow> 'm textbox_scheme \<Rightarrow> 'm textbox_scheme" where
  "UITextBox_setText params t = t\<lparr>tb_displaytext := params\<rparr>"

definition UITextBox_getText :: "'m textbox_scheme \<Rightarrow> jsstring" where
  "UITextBox_getText t = tb_displaytext t"

text \<open>The lines of a text with line feeds, 18 below each other.\<close>

fun box_lines :: "text_measure \<Rightarrow> 'm textbox_scheme \<Rightarrow> real \<Rightarrow> jsstring list \<Rightarrow> ctx \<Rightarrow> ctx" where
  "box_lines tm t yoffs [] c = c"
| "box_lines tm t yoffs (l # ls) c =
     box_lines tm t (yoffs + 18) ls
       (emit [FillText l (if tb_align t = Some AlignRight
                          then tb_x t + tb_width t - tm c l - 8 else tb_x t + 8) yoffs] c)"

definition box_text :: "text_measure \<Rightarrow> 'm textbox_scheme \<Rightarrow> ctx \<Rightarrow> ctx" where
  "box_text tm t c =
     (if tb_displaytext t = [] then c
      else if 10 \<notin> set (tb_displaytext t) then
        (case tb_font_size t of
           None \<Rightarrow> c
         | Some fs \<Rightarrow>
             (let w = tm c (tb_displaytext t);
                  y = tb_y t + tb_height t / 2 + fs / (33 / 10);
                  x = (case tb_align t of
                         Some AlignRight \<Rightarrow> tb_x t + tb_width t - w - 8
                       | Some AlignLeft \<Rightarrow> tb_x t + 8
                       | _ \<Rightarrow> tb_x t + (tb_width t - w) / 2)
              in emit [FillText (tb_displaytext t) x y] c))
      else
        (let blines = js_split 10 (tb_displaytext t)
         in box_lines tm t (tb_y t + (tb_height t / 2 - 9 * real (length blines - 1))) blines c))"

definition UITextBox_render_one :: "text_measure \<Rightarrow> 'm textbox_scheme \<Rightarrow> ctx \<Rightarrow> ctx" where
  "UITextBox_render_one tm t c =
     (if tb_active t = Some True then
        (let pre = highlight_border (tb_highlight t) (tb_main_highlight t)
                     (Some (DText (tb_displaytext t))) (tb_border t) (tb_border_width t)
                   @ [SetFont (tb_font_size t)];
             inner = turn_about (tb_center_x t) (tb_center_y t) (tb_angle t)
                   @ create_gradient (tb_grd_type t) (tb_x t) (tb_y t) (tb_width t) (tb_height t)
                   @ (if tb_grd_type t \<noteq> None then gradient_stops (tb_background t) else [])
                   @ single_fill (tb_background t);
             c1 = emit (pre @ Save # inner) c;
             c2 = (if no_radius (tb_border_radius t)
                   then emit ([FillRect (tb_x t) (tb_y t) (tb_width t) (tb_height t)]
                          @ (if border_set (tb_border_width t)
                             then [StrokeRect (tb_x t) (tb_y t) (tb_width t) (tb_height t)] else [])) c1
                   else roundRect (tb_x t) (tb_y t) (tb_width t) (tb_height t)
                          (the (tb_border_radius t)) (tb_border_width t) c1);
             c3 = emit [Restore, SetFill (opt_color (tb_foreground t)),
                        SetStroke (opt_color (tb_foreground t))] c2;
             c4 = (case (tb_label t, tb_font_size t) of
                     (Some s, Some fs) \<Rightarrow>
                       emit [FillText s (tb_x t - tm c3 s - 5)
                               (tb_y t + tb_height t / 2 + fs / (33 / 10))] c3
                   | _ \<Rightarrow> c3)
         in box_text tm t c4)
      else c)"

definition UITextBox_render :: "text_measure \<Rightarrow> 'm uitextbox \<Rightarrow> ctx \<Rightarrow> ctx" where
  "UITextBox_render tm st = fold (UITextBox_render_one tm) (ux_textboxes st)"

definition UITextBox_find :: "jsstring option \<Rightarrow> 'm uitextbox \<Rightarrow> 'm textbox_scheme option" where
  "UITextBox_find name st = List.find (\<lambda>t. tb_name t = name) (ux_textboxes st)"

definition UITextBox_clear :: "'m uitextbox \<Rightarrow> 'm uitextbox" where
  "UITextBox_clear st = st\<lparr>ux_textboxes := []\<rparr>"

interpretation ux: named_collection ux_textboxes tb_name UITextBox_prepare UITextBox_add
    UITextBox_find UITextBox_clear
  by unfold_locales
    (simp_all add: UITextBox_add_def UITextBox_prepare_def UITextBox_find_def UITextBox_clear_def)

section \<open>UILine\<close>

record lineelem =
  ln_x :: real
  ln_y :: real
  ln_width :: real
  ln_height :: real
  ln_background :: "jsstring option"
  ln_thickness :: "real option"

record uiline =
  ul_lines :: "lineelem list"

definition new_UILine :: uiline where
  "new_UILine = \<lparr>ul_lines = []\<rparr>"

definition UILine_add :: "lineelem \<Rightarrow> uiline \<Rightarrow> uiline" where
  "UILine_add l st = st\<lparr>ul_lines := ul_lines st @ [l]\<rparr>"

definition UILine_render_one :: "lineelem \<Rightarrow> ctx \<Rightarrow> ctx" where
  "UILine_render_one l =
     emit [SetStroke (opt_color (ln_background l)), SetLineWidth (ln_thickness l), BeginPath,
           MoveTo (ln_x l) (ln_y l), LineTo (ln_x l + ln_width l) (ln_y l + ln_height l), Stroke]"

definition UILine_render :: "uiline \<Rightarrow> ctx \<Rightarrow> ctx" where
  "UILine_render st = fold UILine_render_one (ul_lines st)"

definition UILine_find :: "jsstring option \<Rightarrow> uiline \<Rightarrow> lineelem option" where
  "UILine_find name st = None"
section \<open>UICircle\<close>

record circle =
  ci_x :: real
  ci_y :: real
  ci_width :: real
  ci_height :: real
  ci_background :: "jsstring list"
  ci_foreground :: "jsstring option"
  ci_border :: "jsstring option"
  ci_border_width :: "real option"
  ci_font_size :: "real option"
  ci_grd_type :: "grd_type option"
  ci_align :: "align option"
  ci_center_x :: "real option"
  ci_center_y :: "real option"
  ci_angle :: "real option"
  ci_displaytext :: "dtext option"
  ci_highlight :: bool
  ci_main_highlight :: "jsstring option"
  ci_active :: "bool option"

record uicircle =
  uc_circles :: "circle list"

definition new_UICircle :: uicircle where
  "new_UICircle = \<lparr>uc_circles = []\<rparr>"

definition UICircle_add :: "circle \<Rightarrow> uicircle \<Rightarrow> uicircle" where
  "UICircle_add t st = st\<lparr>uc_circles := uc_circles st
     @ [if ci_active t = None then t\<lparr>ci_active := Some True\<rparr> else t]\<rparr>"

definition UICircle_render_one :: "text_measure \<Rightarrow> nat \<Rightarrow> circle \<Rightarrow> ctx \<Rightarrow> circle \<times> ctx" where
  "UICircle_render_one tm i t c =
     (if ci_active t = Some True then
        (let pre = [SetFont (ci_font_size t)]
                @ highlight_border (ci_highlight t) (ci_main_highlight t) (ci_displaytext t)
                    (ci_border t) (ci_border_width t)
                @ create_gradient (ci_grd_type t) (ci_x t) (ci_y t) (ci_width t) (ci_height t)
                @ (if ci_grd_type t \<noteq> None then gradient_stops (ci_background t) else [])
                @ single_fill (ci_background t);
             radius_y = ci_height t / 2;
             radius_x = ci_width t / 2;
             inner = turn_about (ci_center_x t) (ci_center_y t) (ci_angle t)
                @ [BeginPath, Ellipse (ci_x t + radius_x) (ci_y t + radius_y) radius_x radius_y
                                0 0 (2 * pi), Fill]
                @ (if border_set (ci_border_width t) then [Stroke] else []);
             c1 = emit (pre @ Save # inner @ [Restore, SetFill (opt_color (ci_foreground t)),
                                              SetStroke (opt_color (ci_foreground t))]) c
         in if truthy_text (ci_displaytext t) then
              (let ls = text_array (the (ci_displaytext t))
               in (t\<lparr>ci_displaytext := Some (DLines ls)\<rparr>,
                   draw_label tm (ci_x t) (ci_y t) (ci_width t) (ci_height t) (ci_font_size t)
                     (ci_border_width t) (ci_align t) ls c1))
            else (t, c1))
      else (t, c))"

definition UICircle_render :: "text_measure \<Rightarrow> uicircle \<Rightarrow> ctx \<Rightarrow> uicircle \<times> ctx" where
  "UICircle_render tm st c =
     (let (cs, c') = for_each (UICircle_render_one tm) 0 (uc_circles st) c
      in (st\<lparr>uc_circles := cs\<rparr>, c'))"

definition UICircle_find :: "jsstring option \<Rightarrow> uicircle \<Rightarrow> circle option" where
  "UICircle_find name st = None"

definition UICircle_clear :: "uicircle \<Rightarrow> uicircle" where
  "UICircle_clear st = st\<lparr>uc_circles := []\<rparr>"

section \<open>UIImage\<close>

text \<open>Images are kept by the hash of their data in the store of the table plan, \<open>tableplanhandler\<close>, which is
  not part of the framework. It is a parameter: an object of which only its two methods are known.
  \<open>retrieveImage\<close> gives an answer (\<open>None\<close> is \<open>undefined\<close>) and, as it may note the request, the object after
  it; \<open>storeImage\<close> gives the object after it. Nothing is assumed of the answers here.
  The hash function \<open>sha\<close> is a parameter. An \<open>Image\<close> is its \<open>src\<close> and, once it is chosen, its
  \<open>currentSrc\<close>.\<close>

record dom_image =
  im_src :: jsstring
  im_currentSrc :: "jsstring option"

codatatype image_store =
  ImageStore (retrieveImage: "jsstring option \<Rightarrow> jsstring option \<times> image_store")
    (storeImage: "jsstring \<Rightarrow> jsstring \<Rightarrow> image_store")

record imageelem =
  ie_x :: real
  ie_y :: real
  ie_width :: real
  ie_height :: real
  ie_foreground :: "jsstring option"
  ie_border :: "jsstring option"
  ie_border_width :: "real option"
  ie_font_size :: "real option"
  ie_align :: "align option"
  ie_center_x :: "real option"
  ie_center_y :: "real option"
  ie_angle :: "real option"
  ie_displaytext :: "dtext option"
  ie_highlight :: bool
  ie_main_highlight :: "jsstring option"
  ie_active :: "bool option"
  ie_image :: "dom_image option"
  ie_image_hash :: "jsstring option"
  ie_image_data :: "jsstring option"

record uiimage =
  um_images :: "imageelem list"

definition new_UIImage :: uiimage where
  "new_UIImage = \<lparr>um_images = []\<rparr>"

definition load_image :: "jsstring \<Rightarrow> dom_image" where
  "load_image src = \<lparr>im_src = src, im_currentSrc = Some src\<rparr>"

definition UIImage_add ::
  "(jsstring \<Rightarrow> jsstring) \<Rightarrow> imageelem \<Rightarrow> uiimage \<times> image_store \<Rightarrow> uiimage \<times> image_store" where
  "UIImage_add sha e = (\<lambda>(st, store).
     (let e1 = (if ie_active e = None then e\<lparr>ie_active := Some True\<rparr> else e);
          (e2, store2) =
            (case (ie_image_hash e1, ie_image e1) of
               (None, Some im) \<Rightarrow>
                 (case im_currentSrc im of
                    Some src \<Rightarrow>
                      (e1\<lparr>ie_image_hash := Some (sha src), ie_image_data := Some src\<rparr>,
                       storeImage store (sha src) src)
                  | None \<Rightarrow> (e1, store))
             | _ \<Rightarrow> (e1, store));
          e3 = (case (ie_image e2, ie_image_data e2) of
                  (None, Some d) \<Rightarrow> e2\<lparr>ie_image := Some (load_image d)\<rparr>
                | _ \<Rightarrow> e2)
      in (st\<lparr>um_images := um_images st @ [e3]\<rparr>, store2)))"

text \<open>The image of an element, drawn: an image without an entry in the store is stored, an
  element that only has a hash takes its image from the store, which is asked three times. The \<open>src\<close> of an
  image that is set to \<open>undefined\<close> is that word.\<close>

definition src_text :: "jsstring option \<Rightarrow> jsstring" where
  "src_text v = (case v of None \<Rightarrow> js ''undefined'' | Some s \<Rightarrow> s)"

definition draw_image ::
  "(jsstring \<Rightarrow> jsstring) \<Rightarrow> imageelem \<Rightarrow> image_store \<Rightarrow> imageelem \<times> image_store \<times> gfx list" where
  "draw_image sha e store =
     (let draw = (\<lambda>im. [DrawImage (im_src im) (ie_x e) (ie_y e) (ie_width e) (ie_height e)])
      in case ie_image e of
           Some im \<Rightarrow>
             (let (known, store1) = retrieveImage store (ie_image_hash e)
              in if known = None then
                   (case (ie_image_hash e, ie_image_data e) of
                      (Some h, Some d) \<Rightarrow> (e, storeImage store1 h (im_src im), draw im)
                    | (None, Some d) \<Rightarrow> (e\<lparr>ie_image_hash := Some (sha d)\<rparr>, storeImage store1 (sha d) d, draw im)
                    | _ \<Rightarrow> (e, store1, draw im))
                 else (e, store1, draw im))
         | None \<Rightarrow>
             (if ie_image_hash e = None then (e, store, [])
              else let (known, store1) = retrieveImage store (ie_image_hash e)
                   in if known = None then (e, store1, [])
                      else let (src, store2) = retrieveImage store1 (ie_image_hash e);
                               im = load_image (src_text src);
                               (d, store3) = retrieveImage store2 (ie_image_hash e)
                           in (e\<lparr>ie_image := Some im, ie_image_data := d\<rparr>, store3, draw im)))"

definition UIImage_render_one ::
  "(jsstring \<Rightarrow> jsstring) \<Rightarrow> text_measure \<Rightarrow> nat \<Rightarrow> imageelem \<Rightarrow> image_store \<times> ctx \<Rightarrow>
     imageelem \<times> image_store \<times> ctx" where
  "UIImage_render_one sha tm i e = (\<lambda>(store, c).
     (if ie_active e = Some True then
        (let pre = highlight_border (ie_highlight e) (ie_main_highlight e) (ie_displaytext e)
                     (ie_border e) (ie_border_width e) @ [SetFont (ie_font_size e)];
             (e1, store1, drawn) = draw_image sha e store;
             inner = turn_about (ie_center_x e) (ie_center_y e) (ie_angle e) @ [BeginPath] @ drawn
                @ [Fill]
                @ (if border_set (ie_border_width e)
                   then [StrokeRect (ie_x e) (ie_y e) (ie_width e) (ie_height e)] else []);
             c1 = emit (pre @ Save # inner @ [Restore, SetFill (opt_color (ie_foreground e)),
                                              SetStroke (opt_color (ie_foreground e))]) c
         in if truthy_text (ie_displaytext e) then
              (let ls = text_array (the (ie_displaytext e))
               in (e1\<lparr>ie_displaytext := Some (DLines ls)\<rparr>, store1,
                   draw_label tm (ie_x e) (ie_y e) (ie_width e) (ie_height e) (ie_font_size e)
                     (ie_border_width e) (ie_align e) ls c1))
            else (e1, store1, c1))
      else (e, store, c)))"

definition UIImage_render ::
  "(jsstring \<Rightarrow> jsstring) \<Rightarrow> text_measure \<Rightarrow> uiimage \<Rightarrow> image_store \<times> ctx \<Rightarrow>
     uiimage \<times> image_store \<times> ctx" where
  "UIImage_render sha tm st sc =
     (let (es, sc') = for_each (UIImage_render_one sha tm) 0 (um_images st) sc
      in (st\<lparr>um_images := es\<rparr>, sc'))"

definition UIImage_find :: "jsstring option \<Rightarrow> uiimage \<Rightarrow> imageelem option" where
  "UIImage_find name st = None"

definition UIImage_clear :: "uiimage \<Rightarrow> uiimage" where
  "UIImage_clear st = st\<lparr>um_images := []\<rparr>"

section \<open>UICheckBox\<close>

record checkbox =
  cb_x :: real
  cb_y :: real
  cb_width :: real
  cb_height :: real
  cb_background :: "jsstring list"
  cb_foreground :: "jsstring option"
  cb_border :: "jsstring option"
  cb_border_width :: real
  cb_border_radius :: real
  cb_font_size :: real
  cb_align :: "align option"
  cb_displaytext :: "jsstring option"
  cb_text_width :: real
  cb_checked :: bool
  cb_mousedown :: bool

record uicheckbox =
  uk_checkboxes :: "checkbox list"

definition new_UICheckBox :: uicheckbox where
  "new_UICheckBox = \<lparr>uk_checkboxes = []\<rparr>"

definition UICheckBox_add ::
  "text_measure \<Rightarrow> checkbox \<Rightarrow> uicheckbox \<Rightarrow> ctx \<Rightarrow> uicheckbox \<times> ctx" where
  "UICheckBox_add tm b st c =
     (let (b1, c1) =
        (case cb_displaytext b of
           Some s \<Rightarrow> (let c1 = emit [SetFont (Some (cb_font_size b))] c
                      in (b\<lparr>cb_text_width := tm c1 s\<rparr>, c1))
         | None \<Rightarrow> (b, c))
      in (st\<lparr>uk_checkboxes := uk_checkboxes st @ [b1]\<rparr>, c1))"

definition check_mark :: jsstring where
  "check_mark = [10004]"

definition UICheckBox_render_one :: "text_measure \<Rightarrow> nat \<Rightarrow> checkbox \<Rightarrow> ctx \<Rightarrow> checkbox \<times> ctx" where
  "UICheckBox_render_one tm i b c =
     (let c1 = emit [SetFill (opt_color (js_get (cb_background b) 0)),
                     SetStroke (opt_color (cb_border b))] c;
          c2 = roundRect (cb_x b) (cb_y b) (cb_width b) (cb_height b) (cb_border_radius b)
                 (Some (cb_border_width b)) c1;
          c3 = emit ([Stroke]
                 @ (if cb_checked b
                    then [SetFill (PColor (js ''#00ff00'')),
                          SetFont (Some (cb_height b * (13 / 10) - cb_border_width b)),
                          FillText check_mark (cb_x b) (cb_y b + cb_height b - cb_border_width b)]
                    else [])) c2
      in case cb_displaytext b of
           None \<Rightarrow> (b, c3)
         | Some s \<Rightarrow>
             (let c4 = emit [SetFill (opt_color (cb_foreground b)), SetFont (Some (cb_font_size b)),
                             SetFont (Some (cb_font_size b))] c3;
                  y = cb_y b + cb_height b / 2 + cb_font_size b / (33 / 10)
              in if cb_align b = Some AlignLeft then
                   (let w = tm c4 s
                    in (b\<lparr>cb_text_width := w\<rparr>, emit [FillText s (cb_x b - w - 5) y] c4))
                 else (b, emit [FillText s (cb_x b + cb_width b + cb_border_width b + 5) y] c4)))"

definition UICheckBox_render :: "text_measure \<Rightarrow> uicheckbox \<Rightarrow> ctx \<Rightarrow> uicheckbox \<times> ctx" where
  "UICheckBox_render tm st c =
     (let (bs, c') = for_each (UICheckBox_render_one tm) 0 (uk_checkboxes st) c
      in (st\<lparr>uk_checkboxes := bs\<rparr>, c'))"

definition checkbox_hit :: "real \<Rightarrow> real \<Rightarrow> checkbox \<Rightarrow> bool" where
  "checkbox_hit x y b =
     (let startx = (if cb_align b = Some AlignLeft \<and> cb_displaytext b \<noteq> None
                    then cb_x b - cb_text_width b - 5 else cb_x b);
          endx = (if cb_align b \<noteq> Some AlignLeft \<and> cb_displaytext b \<noteq> None
                  then cb_x b + cb_width b + 5 + cb_text_width b else cb_x b + cb_width b)
      in in_box startx (cb_y b) endx (cb_y b + cb_height b) x y)"

definition UICheckBox_onMouseDown :: "real \<Rightarrow> real \<Rightarrow> uicheckbox \<Rightarrow> uicheckbox" where
  "UICheckBox_onMouseDown x y st =
     (case find_index (checkbox_hit x y) (uk_checkboxes st) of
        Some i \<Rightarrow> st\<lparr>uk_checkboxes :=
          (uk_checkboxes st)[i := (uk_checkboxes st ! i)\<lparr>cb_mousedown := True\<rparr>]\<rparr>
      | None \<Rightarrow> st)"

text \<open>The callback of box \<open>i\<close> is called with its new state.\<close>

definition UICheckBox_up_one ::
  "real \<Rightarrow> real \<Rightarrow> nat \<Rightarrow> checkbox \<Rightarrow> (nat \<times> bool) ui_event list \<Rightarrow>
     checkbox \<times> (nat \<times> bool) ui_event list" where
  "UICheckBox_up_one x y i b evs =
     (if checkbox_hit x y b \<and> cb_mousedown b
      then (b\<lparr>cb_checked := \<not> cb_checked b, cb_mousedown := False\<rparr>,
            evs @ [Callback (i, \<not> cb_checked b), Repaint])
      else (b\<lparr>cb_mousedown := False\<rparr>, evs))"

definition UICheckBox_onMouseUp ::
  "real \<Rightarrow> real \<Rightarrow> uicheckbox \<Rightarrow> uicheckbox \<times> (nat \<times> bool) ui_event list" where
  "UICheckBox_onMouseUp x y st =
     (let (bs, evs) = for_each (UICheckBox_up_one x y) 0 (uk_checkboxes st) []
      in (st\<lparr>uk_checkboxes := bs\<rparr>, evs))"

definition UICheckBox_find :: "jsstring option \<Rightarrow> uicheckbox \<Rightarrow> checkbox option" where
  "UICheckBox_find name st = None"

definition UICheckBox_clear :: "uicheckbox \<Rightarrow> uicheckbox" where
  "UICheckBox_clear st = st\<lparr>uk_checkboxes := []\<rparr>"
section \<open>Drawing is well nested\<close>

lemma well_nested_text_lines [simp]: "well_nested (text_lines tm t c)"
  by (auto simp: text_lines_def Let_def split: option.splits)

lemma UIText_one_nested: "draws_nested (UIText_render_one tm t)"
  unfolding draws_nested_def
proof
  fix c
  show "\<exists>cs. UIText_render_one tm t c = c @ cs \<and> well_nested cs"
  proof (cases "tx_active t = Some True")
    case False
    then show ?thesis by (simp add: UIText_render_one_def)
  next
    case True
    define pre where "pre = [SetFont (case tx_height t of Some h \<Rightarrow> Some h | None \<Rightarrow> tx_font_size t),
        SetStroke (opt_color (tx_border t)), SetLineWidth (tx_border_width t),
        SetFill (case tx_background t of Some bg \<Rightarrow> opt_color (js_get bg 0) | None \<Rightarrow> PUndef)]"
    define turn where "turn = turn_about (tx_center_x t) (tx_center_y t) (tx_angle t)"
    define c1 where "c1 = emit (pre @ Save # turn) c"
    have "UIText_render_one tm t c =
        c @ (pre @ Save # (turn @ text_lines tm t c1) @ Restore # [])"
      using True by (simp add: UIText_render_one_def Let_def pre_def turn_def c1_def emit_def)
    moreover have "well_nested (pre @ Save # (turn @ text_lines tm t c1) @ Restore # [])"
      by (intro well_nested_append well_nested_saved) (simp_all add: pre_def turn_def)
    ultimately show ?thesis by blast
  qed
qed

lemma UIText_render_nested: "draws_nested (UIText_render tm st)"
  unfolding UIText_render_def by (rule draws_nested_fold) (rule UIText_one_nested)

lemma box_lines_nested: "draws_nested (box_lines tm t yo ls)"
proof (induction ls arbitrary: yo)
  case Nil
  then show ?case by (simp add: draws_nested_id)
next
  case (Cons l ls)
  show ?case unfolding draws_nested_def
  proof
    fix c
    obtain x where x: "box_lines tm t yo (l # ls) c = box_lines tm t (yo + 18) ls (c @ [FillText l x yo])"
      by (simp add: emit_def)
    from Cons [of "yo + 18"] obtain cs where
      "box_lines tm t (yo + 18) ls (c @ [FillText l x yo]) = (c @ [FillText l x yo]) @ cs" "well_nested cs"
      unfolding draws_nested_def by blast
    then show "\<exists>cs. box_lines tm t yo (l # ls) c = c @ cs \<and> well_nested cs"
      unfolding x by (intro exI [of _ "FillText l x yo # cs"]) simp
  qed
qed

lemma box_text_nested: "draws_nested (box_text tm t)"
  unfolding draws_nested_def
proof
  fix c
  show "\<exists>cs. box_text tm t c = c @ cs \<and> well_nested cs"
  proof (cases "tb_displaytext t = [] \<or> 10 \<notin> set (tb_displaytext t)")
    case True
    then show ?thesis by (auto simp: box_text_def Let_def emit_def split: option.splits)
  next
    case False
    then have "box_text tm t c = box_lines tm t (tb_y t + (tb_height t / 2 -
        9 * real (length (js_split 10 (tb_displaytext t)) - 1))) (js_split 10 (tb_displaytext t)) c"
      by (simp add: box_text_def Let_def)
    then show ?thesis
      by (simp only: spec [OF box_lines_nested [unfolded draws_nested_def]])
  qed
qed

text \<open>Bracketing with \<open>save\<close> and \<open>restore\<close>.\<close>

lemma nested_bracket:
  assumes "well_nested pre" "draws_nested f" "draws_nested g"
  shows "draws_nested (\<lambda>c. g (emit [Restore] (f (emit (pre @ [Save]) c))))"
  unfolding draws_nested_def
proof
  fix c
  obtain fs where f: "f (emit (pre @ [Save]) c) = (c @ pre @ [Save]) @ fs" "well_nested fs"
    using assms(2) unfolding draws_nested_def emit_def by blast
  obtain gs where "g (emit [Restore] (f (emit (pre @ [Save]) c))) =
      emit [Restore] (f (emit (pre @ [Save]) c)) @ gs" and gs: "well_nested gs"
    using assms(3) unfolding draws_nested_def by blast
  then have g: "g (emit [Restore] (f (emit (pre @ [Save]) c))) =
      ((c @ pre @ [Save]) @ fs) @ [Restore] @ gs"
    unfolding f(1) by (simp add: emit_def)
  have "well_nested (pre @ Save # fs @ Restore # gs)"
    by (intro well_nested_append well_nested_saved assms f gs)
  then show "\<exists>cs. g (emit [Restore] (f (emit (pre @ [Save]) c))) = c @ cs \<and> well_nested cs"
    unfolding g by (intro exI [of _ "pre @ Save # fs @ Restore # gs"]) simp
qed

lemma emit_append: "emit (xs @ ys) c = emit ys (emit xs c)"
  by (simp add: emit_def)

lemma emit_Cons: "emit (x # xs) c = emit xs (emit [x] c)"
  by (simp add: emit_def)

lemma UITextBox_one_nested: "draws_nested (UITextBox_render_one tm t)"
proof (cases "tb_active t = Some True")
  case False
  then have "UITextBox_render_one tm t = (\<lambda>c. c)" by (intro ext) (simp add: UITextBox_render_one_def)
  then show ?thesis by (simp add: draws_nested_id)
next
  case True
  define pre where "pre = highlight_border (tb_highlight t) (tb_main_highlight t)
     (Some (DText (tb_displaytext t))) (tb_border t) (tb_border_width t) @ [SetFont (tb_font_size t)]"
  define inner where "inner = turn_about (tb_center_x t) (tb_center_y t) (tb_angle t)
     @ create_gradient (tb_grd_type t) (tb_x t) (tb_y t) (tb_width t) (tb_height t)
     @ (if tb_grd_type t \<noteq> None then gradient_stops (tb_background t) else [])
     @ single_fill (tb_background t)"
  define rect where "rect = (\<lambda>c. if no_radius (tb_border_radius t)
     then emit ([FillRect (tb_x t) (tb_y t) (tb_width t) (tb_height t)]
            @ (if border_set (tb_border_width t)
               then [StrokeRect (tb_x t) (tb_y t) (tb_width t) (tb_height t)] else [])) c
     else roundRect (tb_x t) (tb_y t) (tb_width t) (tb_height t)
            (the (tb_border_radius t)) (tb_border_width t) c)"
  define fill where "fill = [SetFill (opt_color (tb_foreground t)), SetStroke (opt_color (tb_foreground t))]"
  define label where "label = (\<lambda>c. case (tb_label t, tb_font_size t) of
       (Some s, Some fs) \<Rightarrow>
         emit [FillText s (tb_x t - tm c s - 5) (tb_y t + tb_height t / 2 + fs / (33 / 10))] c
     | _ \<Rightarrow> c)"
  have "draws_nested (emit inner)" unfolding inner_def
    by (intro draws_nested_emit well_nested_append) simp_all
  moreover have "draws_nested rect" unfolding rect_def
    by (intro draws_nested_if draws_nested_emit draws_nested_roundRect; simp)
  ultimately have f: "draws_nested (\<lambda>c. rect (emit inner c))" by (rule draws_nested_comp)
  have "draws_nested (emit fill)" by (intro draws_nested_emit) (simp add: fill_def)
  moreover have "draws_nested label"
    unfolding draws_nested_def label_def by (auto simp: emit_def split: option.splits)
  ultimately have "draws_nested (\<lambda>c. label (emit fill c))" by (rule draws_nested_comp)
  from draws_nested_comp [OF this box_text_nested]
  have g: "draws_nested (\<lambda>c. box_text tm t (label (emit fill c)))" .
  have "UITextBox_render_one tm t =
      (\<lambda>c. box_text tm t (label (emit fill (emit [Restore] (rect (emit inner (emit (pre @ [Save]) c)))))))"
  proof
    fix c
    have e: "emit inner (emit (pre @ [Save]) c) = emit (pre @ Save # inner) c"
      "emit fill (emit [Restore] d) = emit [Restore, SetFill (opt_color (tb_foreground t)),
         SetStroke (opt_color (tb_foreground t))] d" for d
      by (simp_all add: emit_def fill_def)
    show "UITextBox_render_one tm t c = box_text tm t (label (emit fill (emit [Restore]
        (rect (emit inner (emit (pre @ [Save]) c))))))"
      unfolding UITextBox_render_one_def Let_def pre_def [symmetric] inner_def [symmetric] e
        rect_def label_def
      by (simp only: True simp_thms if_True)
  qed
  then show ?thesis
    using nested_bracket [OF _ f g, of pre] by (simp add: pre_def)
qed

lemma UITextBox_render_nested: "draws_nested (UITextBox_render tm st)"
  unfolding UITextBox_render_def by (rule draws_nested_fold) (rule UITextBox_one_nested)

lemma UILine_render_nested: "draws_nested (UILine_render st)"
  unfolding UILine_render_def
  by (rule draws_nested_fold) (simp add: UILine_render_one_def draws_nested_emit)

text \<open>A bracket followed by a label, as circles and images draw it.\<close>

lemma bracket_label_nested:
  assumes "well_nested pre" "well_nested inner"
  shows "draws_nested (\<lambda>c. draw_label tm x y w h fs bw al ls
      (emit (pre @ Save # inner @ [Restore, SetFill p, SetStroke q]) c))"
    "draws_nested (emit (pre @ Save # inner @ [Restore, SetFill p, SetStroke q]))"
proof -
  have "well_nested (pre @ Save # inner @ Restore # [SetFill p, SetStroke q])"
    using assms by (intro well_nested_append well_nested_saved) simp_all
  then show e: "draws_nested (emit (pre @ Save # inner @ [Restore, SetFill p, SetStroke q]))"
    by (intro draws_nested_emit) simp
  show "draws_nested (\<lambda>c. draw_label tm x y w h fs bw al ls
      (emit (pre @ Save # inner @ [Restore, SetFill p, SetStroke q]) c))"
    by (rule draws_nested_comp [OF e draws_nested_draw_label])
qed

lemma UICircle_one_nested: "draws_nested (\<lambda>c. snd (UICircle_render_one tm i t c))"
proof (cases "ci_active t = Some True")
  case True
  define pre where "pre = [SetFont (ci_font_size t)]
     @ highlight_border (ci_highlight t) (ci_main_highlight t) (ci_displaytext t) (ci_border t)
         (ci_border_width t)
     @ create_gradient (ci_grd_type t) (ci_x t) (ci_y t) (ci_width t) (ci_height t)
     @ (if ci_grd_type t \<noteq> None then gradient_stops (ci_background t) else [])
     @ single_fill (ci_background t)"
  define inner where "inner = turn_about (ci_center_x t) (ci_center_y t) (ci_angle t)
     @ [BeginPath, Ellipse (ci_x t + ci_width t / 2) (ci_y t + ci_height t / 2) (ci_width t / 2)
          (ci_height t / 2) 0 0 (2 * pi), Fill]
     @ (if border_set (ci_border_width t) then [Stroke] else [])"
  have w: "well_nested pre" "well_nested inner"
    unfolding pre_def inner_def by (intro well_nested_append; simp)+
  show ?thesis
    using bracket_label_nested [OF w] True
    unfolding UICircle_render_one_def Let_def pre_def [symmetric] inner_def [symmetric]
    by (cases "truthy_text (ci_displaytext t)") simp_all
qed (simp add: UICircle_render_one_def draws_nested_id)

lemma UICircle_render_nested: "draws_nested (\<lambda>c. snd (UICircle_render tm st c))"
  using for_each_nested [of "UICircle_render_one tm", OF UICircle_one_nested, of 0 "uc_circles st"]
  by (simp add: UICircle_render_def Let_def split_beta)

lemma UIImage_one_nested:
  "\<exists>cs. snd (snd (UIImage_render_one sha tm i e (store, c))) = c @ cs \<and> well_nested cs"
proof (cases "ie_active e = Some True")
  case True
  define pre where "pre = highlight_border (ie_highlight e) (ie_main_highlight e) (ie_displaytext e)
     (ie_border e) (ie_border_width e) @ [SetFont (ie_font_size e)]"
  obtain e1 s1 drawn where d: "draw_image sha e store = (e1, s1, drawn)"
    by (cases "draw_image sha e store") auto
  then have "well_nested drawn"
    by (auto simp: draw_image_def Let_def split: option.splits if_splits prod.splits)
  define inner where "inner = turn_about (ie_center_x e) (ie_center_y e) (ie_angle e) @ [BeginPath]
     @ drawn @ [Fill] @ (if border_set (ie_border_width e)
        then [StrokeRect (ie_x e) (ie_y e) (ie_width e) (ie_height e)] else [])"
  have w: "well_nested pre" "well_nested inner"
    unfolding pre_def inner_def using \<open>well_nested drawn\<close>
    by (intro well_nested_append; simp)+
  show ?thesis
    using bracket_label_nested [OF w] True
    unfolding UIImage_render_one_def Let_def pre_def [symmetric] inner_def [symmetric] draws_nested_def d
    by (simp add: inner_def d flip: pre_def)
qed (simp add: UIImage_render_one_def)

lemma UIImage_render_nested:
  "\<exists>cs. snd (snd (UIImage_render sha tm st (store, c))) = c @ cs \<and> well_nested cs"
proof -
  have "\<exists>cs. snd (snd (for_each (UIImage_render_one sha tm) 0 (um_images st) (store, c)))
      = snd (store, c) @ cs \<and> well_nested cs"
  proof (rule for_each_state [where R = "\<lambda>a b. \<exists>cs. snd b = snd a @ cs \<and> well_nested cs"])
    show "\<exists>cs. snd (snd (UIImage_render_one sha tm i x s)) = snd s @ cs \<and> well_nested cs" for i x s
      using UIImage_one_nested [of sha tm i x "fst s" "snd s"] by simp
  qed (auto intro: well_nested_append)
  then show ?thesis by (simp add: UIImage_render_def Let_def split_beta)
qed

lemma UICheckBox_one_nested: "draws_nested (\<lambda>c. snd (UICheckBox_render_one tm i b c))"
  unfolding draws_nested_def
proof
  fix c
  define c1 where "c1 = emit [SetFill (opt_color (js_get (cb_background b) 0)),
      SetStroke (opt_color (cb_border b))] c"
  obtain rs where r: "roundRect (cb_x b) (cb_y b) (cb_width b) (cb_height b) (cb_border_radius b)
      (Some (cb_border_width b)) c1 = c1 @ rs" "well_nested rs"
    using roundRect_emits by blast
  show "\<exists>cs. snd (UICheckBox_render_one tm i b c) = c @ cs \<and> well_nested cs"
    unfolding UICheckBox_render_one_def Let_def c1_def [symmetric] r(1)
    using r(2) by (auto simp: emit_def c1_def split: option.splits)
qed

lemma UICheckBox_render_nested: "draws_nested (\<lambda>c. snd (UICheckBox_render tm st c))"
  using for_each_nested [of "UICheckBox_render_one tm", OF UICheckBox_one_nested, of 0 "uk_checkboxes st"]
  by (simp add: UICheckBox_render_def Let_def split_beta)
text \<open>Text, boxes, lines, circles, images and check boxes only append to the context and close
  every state they save: the transformation and the styles of one element do not leak into the
  next through the state stack.\<close>

theorem shapes_restore:
  "(\<exists>cs. UIText_render tm texts c = c @ cs \<and> well_nested cs) \<and>
   (\<exists>cs. UITextBox_render tm boxes c = c @ cs \<and> well_nested cs) \<and>
   (\<exists>cs. UILine_render lines c = c @ cs \<and> well_nested cs) \<and>
   (\<exists>cs. snd (UICircle_render tm circles c) = c @ cs \<and> well_nested cs) \<and>
   (\<exists>cs. snd (snd (UIImage_render sha tm images (store, c))) = c @ cs \<and> well_nested cs) \<and>
   (\<exists>cs. snd (UICheckBox_render tm checks c) = c @ cs \<and> well_nested cs)"
  using UIText_render_nested [of tm texts] UITextBox_render_nested [of tm boxes]
    UILine_render_nested [of lines] UICircle_render_nested [of tm circles]
    UIImage_render_nested [of sha tm images store c] UICheckBox_render_nested [of tm checks]
  unfolding draws_nested_def by blast

section \<open>Check boxes\<close>

definition none_pressed :: "uicheckbox \<Rightarrow> bool" where
  "none_pressed st \<longleftrightarrow> (\<forall>b \<in> set (uk_checkboxes st). \<not> cb_mousedown b)"

lemma checkbox_hit_mousedown [simp]:
  "checkbox_hit x y (b\<lparr>cb_mousedown := m\<rparr>) = checkbox_hit x y b"
  by (simp add: checkbox_hit_def)

lemma up_loop_none:
  "\<forall>b \<in> set bs. \<not> cb_mousedown b \<Longrightarrow> for_each (UICheckBox_up_one x y) i bs evs = (bs, evs)"
proof (induction bs arbitrary: i evs)
  case Nil
  then show ?case by simp
next
  case (Cons b bs)
  have "b\<lparr>cb_mousedown := False\<rparr> = b" using Cons.prems by (cases b) simp
  with Cons show ?case by (simp add: UICheckBox_up_one_def)
qed

lemma up_loop_one:
  assumes "k < length bs" "\<forall>b \<in> set bs. \<not> cb_mousedown b"
  shows "for_each (UICheckBox_up_one x y) i (bs[k := (bs ! k)\<lparr>cb_mousedown := True\<rparr>]) evs =
    (if checkbox_hit x y (bs ! k)
     then (bs[k := (bs ! k)\<lparr>cb_checked := \<not> cb_checked (bs ! k)\<rparr>],
           evs @ [Callback (i + k, \<not> cb_checked (bs ! k)), Repaint])
     else (bs, evs))"
  using assms
proof (induction bs arbitrary: i k evs)
  case Nil
  then show ?case by simp
next
  case (Cons b bs)
  have b: "b\<lparr>cb_mousedown := False\<rparr> = b" using Cons.prems(2) by (cases b) simp
  show ?case
  proof (cases k)
    case 0
    have "b\<lparr>cb_checked := v, cb_mousedown := False\<rparr> = b\<lparr>cb_checked := v\<rparr>" for v
      using Cons.prems(2) by (cases b) simp
    then have "UICheckBox_up_one x y i (b\<lparr>cb_mousedown := True\<rparr>) evs =
        (if checkbox_hit x y b then (b\<lparr>cb_checked := \<not> cb_checked b\<rparr>,
            evs @ [Callback (i, \<not> cb_checked b), Repaint]) else (b, evs))"
      using b by (simp add: UICheckBox_up_one_def)
    with 0 show ?thesis using up_loop_none [of bs x y "Suc i"] Cons.prems(2) by simp
  next
    case (Suc j)
    then have j: "j < length bs" "\<forall>b \<in> set bs. \<not> cb_mousedown b" using Cons.prems by simp_all
    have "UICheckBox_up_one x y i b evs = (b, evs)"
      using Cons.prems(2) b by (simp add: UICheckBox_up_one_def)
    then show ?thesis using Cons.IH [OF j, of "Suc i" evs] Suc by simp
  qed
qed

text \<open>A press followed by a release toggles one check box at most: the first one under the
  press, if the release is on it too. Its callback gets the new state, every other box stays as
  it was, and no box remains pressed.\<close>

theorem UICheckBox_press_release:
  assumes "none_pressed st"
  shows "UICheckBox_onMouseUp x' y' (UICheckBox_onMouseDown x y st) =
    (case find_index (checkbox_hit x y) (uk_checkboxes st) of
       None \<Rightarrow> (st, [])
     | Some i \<Rightarrow>
         (let b = uk_checkboxes st ! i
          in if checkbox_hit x' y' b
             then (st\<lparr>uk_checkboxes := (uk_checkboxes st)[i := b\<lparr>cb_checked := \<not> cb_checked b\<rparr>]\<rparr>,
                   [Callback (i, \<not> cb_checked b), Repaint])
             else (st, [])))"
proof (cases "find_index (checkbox_hit x y) (uk_checkboxes st)")
  case None
  then show ?thesis using assms up_loop_none [of "uk_checkboxes st" x' y' 0 "[]"]
    by (simp add: UICheckBox_onMouseUp_def UICheckBox_onMouseDown_def none_pressed_def)
next
  case (Some i)
  then have "i < length (uk_checkboxes st)" by (auto dest: find_index_Some)
  from up_loop_one [OF this, of x' y' 0 "[]"] Some assms show ?thesis
    by (simp add: UICheckBox_onMouseUp_def UICheckBox_onMouseDown_def none_pressed_def Let_def)
qed

definition demo_check :: "real \<Rightarrow> checkbox" where
  "demo_check x = \<lparr>cb_x = x, cb_y = 0, cb_width = 20, cb_height = 20, cb_background = [],
     cb_foreground = None, cb_border = None, cb_border_width = 1, cb_border_radius = 2,
     cb_font_size = 10, cb_align = None, cb_displaytext = None, cb_text_width = 0,
     cb_checked = False, cb_mousedown = False\<rparr>"

theorem UICheckBox_press_release_witness:
  "snd (UICheckBox_onMouseUp 35 10 (UICheckBox_onMouseDown 31 5
     \<lparr>uk_checkboxes = [demo_check 0, demo_check 30]\<rparr>)) = [Callback (1, True), Repaint]"
  using UICheckBox_press_release [of "\<lparr>uk_checkboxes = [demo_check 0, demo_check 30]\<rparr>" 35 10 31 5]
  by (simp add: none_pressed_def demo_check_def checkbox_hit_def in_box_def Let_def)

section \<open>Images\<close>

text \<open>What the code needs of the store: it answers with what was stored last under a name.\<close>

locale image_keeper =
  fixes keeper :: "(jsstring \<Rightarrow> jsstring option) \<Rightarrow> image_store \<Rightarrow> bool"
  assumes retrieves: "keeper m s \<Longrightarrow>
      fst (retrieveImage s h) = Option.bind h m \<and> keeper m (snd (retrieveImage s h))"
    and stores: "keeper m s \<Longrightarrow> keeper (m(k \<mapsto> d)) (storeImage s k d)"
begin

lemma draw_known:
  assumes "keeper m store" "ie_image e = None" "ie_image_hash e = Some h" "m h = Some d"
  obtains store' where "keeper m store'"
    "draw_image sha e store = (e\<lparr>ie_image := Some (load_image d), ie_image_data := Some d\<rparr>, store',
       [DrawImage d (ie_x e) (ie_y e) (ie_width e) (ie_height e)])"
proof -
  define s1 where "s1 = snd (retrieveImage store (Some h))"
  define s2 where "s2 = snd (retrieveImage s1 (Some h))"
  define s3 where "s3 = snd (retrieveImage s2 (Some h))"
  have k: "keeper m s1" "keeper m s2" "keeper m s3"
    using retrieves assms(1) by (simp_all add: s1_def s2_def s3_def)
  have "retrieveImage store (Some h) = (Some d, s1)" "retrieveImage s1 (Some h) = (Some d, s2)"
    "retrieveImage s2 (Some h) = (Some d, s3)"
    using retrieves [OF assms(1), of "Some h"] retrieves [OF k(1), of "Some h"] retrieves [OF k(2), of "Some h"]
      assms(4) by (simp_all add: s1_def s2_def s3_def prod_eq_iff)
  then show ?thesis using that [OF k(3)] assms(2,3)
    by (simp add: draw_image_def src_text_def load_image_def)
qed

text \<open>An image that was added without a hash is drawn by an element that only has its hash.\<close>

lemma draws_by_hash:
  assumes "ie_image e = Some im" "im_currentSrc im = Some src" "ie_image_hash e = None"
    "ie_image e' = None" "ie_image_hash e' = Some (sha src)" "keeper m store"
  shows "snd (snd (draw_image sha e' (snd (UIImage_add sha e (st, store))))) =
    [DrawImage src (ie_x e') (ie_y e') (ie_width e') (ie_height e')]"
proof -
  have a: "snd (UIImage_add sha e (st, store)) = storeImage store (sha src) src"
    using assms(1-3) by (simp add: UIImage_add_def Let_def)
  obtain s' where "draw_image sha e' (storeImage store (sha src) src) =
      (e'\<lparr>ie_image := Some (load_image src), ie_image_data := Some src\<rparr>, s',
       [DrawImage src (ie_x e') (ie_y e') (ie_width e') (ie_height e')])"
    by (rule draw_known [OF stores [OF assms(6), of "sha src" src] assms(4,5), of src sha]) simp_all
  then show ?thesis by (simp add: a)
qed

end

text \<open>A store over a map.\<close>

primcorec map_store :: "(jsstring \<Rightarrow> jsstring option) \<Rightarrow> image_store" where
  "retrieveImage (map_store m) = (\<lambda>h. map_prod id map_store (Option.bind h m, m))"
| "storeImage (map_store m) = (\<lambda>h d. map_store (m(h \<mapsto> d)))"

definition empty_store :: image_store where
  "empty_store = map_store Map.empty"

interpretation map_keeper: image_keeper "\<lambda>m s. s = map_store m"
  by unfold_locales simp_all

end
