(* ===== verification/TextInputs.thy ===== *)
theory TextInputs
  imports Shapes
begin

text \<open>
  \<open>UITextInput\<close> (\<open>canvasuijs/uitextinput.js\<close>): text boxes with a cursor that take the keyboard
  while they have the focus (\<open>mouseDown\<close>).

  The options of an input are also the options of its text box, so the record \<open>textinput\<close>
  extends \<open>textbox\<close> and the box that is drawn is the input itself. \<open>now\<close> is the time in
  milliseconds. A callback is \<open>(i, text)\<close> for input \<open>i\<close>. The context that the class keeps is the
  one it is drawn on.
\<close>

section \<open>State\<close>

datatype input_type = TypeText | TypeNumber | TypeFloat | TypeEuro | TypeOther jsstring

record textinput = textbox +
  ti_type :: input_type
  ti_always_active :: bool
  ti_mouseDown :: bool
  ti_always_show_cursor :: bool
  ti_cursorPos :: nat
  ti_show_cursor :: bool
  ti_milliseconds :: int
  ti_has_callback :: bool

record uitextinput =
  un_textinputs :: "textinput list"
  un_pressedKey :: pressed_key

definition new_UITextInput :: uitextinput where
  "new_UITextInput = \<lparr>un_textinputs = [], un_pressedKey = new_pressed_key\<rparr>"

definition UITextInput_prepare :: "int \<Rightarrow> textinput \<Rightarrow> textinput" where
  "UITextInput_prepare now t =
     (let t1 = UITextBox_prepare t;
          t2 = (if ti_always_active t1 then t1\<lparr>ti_mouseDown := True\<rparr> else t1)
      in t2\<lparr>ti_always_show_cursor := False, ti_cursorPos := 0, ti_show_cursor := False,
            ti_milliseconds := now\<rparr>)"

definition UITextInput_add :: "int \<Rightarrow> textinput \<Rightarrow> uitextinput \<Rightarrow> uitextinput" where
  "UITextInput_add now t st =
     st\<lparr>un_textinputs := un_textinputs st @ [UITextInput_prepare now t]\<rparr>"

definition UITextInput_getText :: "textinput \<Rightarrow> jsstring" where
  "UITextInput_getText t = tb_displaytext t"

definition UITextInput_setText :: "jsstring \<Rightarrow> textinput \<Rightarrow> textinput" where
  "UITextInput_setText s t = t\<lparr>tb_displaytext := s\<rparr>"

section \<open>Drawing\<close>

text \<open>The cursor blinks every half second. It is only placed for texts aligned left or right.\<close>

definition blink :: "int \<Rightarrow> textinput \<Rightarrow> textinput" where
  "blink now t =
     (if ti_mouseDown t \<and> now \<ge> ti_milliseconds t + 500
      then t\<lparr>ti_milliseconds := now, ti_show_cursor := \<not> ti_show_cursor t\<rparr> else t)"

definition cursor_line :: "textinput \<Rightarrow> real \<Rightarrow> gfx list" where
  "cursor_line t text_width =
     [BeginPath] @ (if tb_border t \<noteq> None then [SetStroke (opt_color (tb_border t))] else [])
     @ (case (tb_align t, tb_font_size t) of
          (Some AlignRight, Some fs) \<Rightarrow>
            [MoveTo (tb_x t + tb_width t - 8) (tb_y t + tb_height t / 2 - fs / 2),
             LineTo (tb_x t + tb_width t - 8) (tb_y t + tb_height t / 2 + fs / 2)]
        | (Some AlignLeft, Some fs) \<Rightarrow>
            [MoveTo (tb_x t + 8 + text_width) (tb_y t + tb_height t / 2 - fs / 2),
             LineTo (tb_x t + 8 + text_width) (tb_y t + tb_height t / 2 + fs / 2)]
        | _ \<Rightarrow> [])
     @ [Stroke]"

definition UITextInput_render_one ::
  "text_measure \<Rightarrow> int \<Rightarrow> nat \<Rightarrow> textinput \<Rightarrow> ctx \<Rightarrow> textinput \<times> ctx" where
  "UITextInput_render_one tm now i t c =
     (let c1 = emit [SetFont (tb_font_size t)] (UITextBox_render_one tm t c);
          t1 = blink now t
      in if ti_show_cursor t1 \<and> ti_mouseDown t1 \<or> ti_always_show_cursor t1
         then (t1, emit (cursor_line t1 (tm c1 (js_slice (tb_displaytext t1) 0 (ti_cursorPos t1)))) c1)
         else (t1, c1))"

definition UITextInput_render ::
  "text_measure \<Rightarrow> int \<Rightarrow> uitextinput \<Rightarrow> ctx \<Rightarrow> uitextinput \<times> ctx" where
  "UITextInput_render tm now st c =
     (let (ts, c') = for_each (UITextInput_render_one tm now) 0 (un_textinputs st) c
      in (st\<lparr>un_textinputs := ts\<rparr>, c'))"

section \<open>Mouse\<close>

definition input_hit :: "real \<Rightarrow> real \<Rightarrow> textinput \<Rightarrow> bool" where
  "input_hit x y t = in_box (tb_x t) (tb_y t) (tb_x t + tb_width t) (tb_y t + tb_height t) x y"

definition last_unit :: "jsstring \<Rightarrow> jsstring" where
  "last_unit s = drop (length s - 1) s"

text \<open>Where a click at \<open>rel\<close> puts the cursor, looking at the places from left to right;
  \<open>None\<close> leaves it. Every look sets the font of the context.\<close>

definition cursor_at :: "(jsstring \<Rightarrow> real) \<Rightarrow> textinput \<Rightarrow> real \<Rightarrow> nat \<Rightarrow> nat option" where
  "cursor_at w t rel j =
     (let s = tb_displaytext t;
          new_text = js_slice s 0 j; new_text_next = js_slice s 0 (j + 1);
          text_width = w new_text; text_width_next = w new_text_next;
          letter_width = w (last_unit new_text);
          letter_width_next = w (last_unit new_text_next)
      in case tb_align t of
           Some AlignLeft \<Rightarrow>
             (if rel > text_width - letter_width / 2
                 \<and> rel < text_width_next - letter_width_next / 2 then Some (length new_text)
              else if rel > w s - w (last_unit s) / 2 then Some (length s)
              else if rel < w (take 1 s) / 2 then Some 0
              else None)
         | Some AlignRight \<Rightarrow>
             (let offset = tb_width t - w s - 8
              in if rel > offset + text_width - letter_width / 2
                    \<and> offset + rel < text_width_next - letter_width_next / 2
                 then Some (length new_text)
                 else if rel > offset + w s - w (last_unit s) / 2 then Some (length s)
                 else if rel < offset + w (take 1 s) / 2 then Some 0
                 else None)
         | _ \<Rightarrow> None)"

fun place_cursor :: "text_measure \<Rightarrow> real \<Rightarrow> nat list \<Rightarrow> textinput \<Rightarrow> ctx \<Rightarrow> textinput \<times> ctx" where
  "place_cursor tm rel [] t c = (t, c)"
| "place_cursor tm rel (j # ks) t c =
     (let c1 = emit [SetFont (tb_font_size t)] c;
          t1 = (if \<not> ti_always_active t then t\<lparr>ti_show_cursor := False\<rparr> else t)
      in case cursor_at (tm c1) t1 rel j of
           Some p \<Rightarrow> (t1\<lparr>ti_cursorPos := p\<rparr>, c1)
         | None \<Rightarrow> place_cursor tm rel ks t1 c1)"

definition UITextInput_down_one ::
  "text_measure \<Rightarrow> real \<Rightarrow> real \<Rightarrow> nat \<Rightarrow> textinput \<Rightarrow> ctx \<times> (nat \<times> jsstring) ui_event list \<Rightarrow>
     textinput \<times> ctx \<times> (nat \<times> jsstring) ui_event list" where
  "UITextInput_down_one tm x y i t = (\<lambda>(c, evs).
     (if input_hit x y t then
        (let (t1, c1) = place_cursor tm (x - tb_x t - 8) [0..<length (tb_displaytext t)]
                          (t\<lparr>ti_mouseDown := True\<rparr>) c
         in (t1, c1, evs @ [Repaint]))
      else if ti_mouseDown t \<and> \<not> ti_always_active t
      then (t\<lparr>ti_mouseDown := False\<rparr>, c, evs @ [Repaint])
      else (t, c, evs)))"

definition UITextInput_onMouseDown ::
  "text_measure \<Rightarrow> real \<Rightarrow> real \<Rightarrow> uitextinput \<Rightarrow> ctx \<Rightarrow>
     uitextinput \<times> ctx \<times> (nat \<times> jsstring) ui_event list" where
  "UITextInput_onMouseDown tm x y st c =
     (let (ts, c', evs) = for_each (UITextInput_down_one tm x y) 0 (un_textinputs st) (c, [])
      in (st\<lparr>un_textinputs := ts\<rparr>, c', evs))"

definition UITextInput_onMouseMove ::
  "real \<Rightarrow> real \<Rightarrow> uitextinput \<Rightarrow> uitextinput \<times> (nat \<times> jsstring) ui_event list" where
  "UITextInput_onMouseMove x y st =
     (st, if \<exists>t \<in> set (un_textinputs st). input_hit x y t then [SetCursor (js ''text'')] else [])"

section \<open>Keyboard\<close>

text \<open>The number that a key stands for in a comparison: a blank string is 0, any other text that
  \<open>keydown\<close> gives is not a number.\<close>

fun key_number :: "keychar \<Rightarrow> nat option" where
  "key_number (KNum n) = Some n"
| "key_number (KText s) = (if list_all is_space s then Some 0 else None)"

fun key_text :: "keychar \<Rightarrow> jsstring" where
  "key_text (KNum n) = nat_to_string 10 n"
| "key_text (KText s) = s"

definition insert_key :: "keychar \<Rightarrow> textinput \<Rightarrow> textinput" where
  "insert_key k t =
     (let s = tb_displaytext t; p = ti_cursorPos t
      in t\<lparr>tb_displaytext := js_slice s 0 p @ key_text k @ js_slice s p (length s),
           ti_cursorPos := p + 1, ti_always_show_cursor := True\<rparr>)"

text \<open>Typing a character: \<open>None\<close> when the handler returns.\<close>

definition type_key :: "keychar \<Rightarrow> textinput \<Rightarrow> textinput option" where
  "type_key k t =
     (let s = tb_displaytext t; number = key_number k \<noteq> None; comma = (k = KText (js '',''))
      in case ti_type t of
           TypeText \<Rightarrow> Some (insert_key k t)
         | TypeNumber \<Rightarrow>
             (if number then (if key_number k = Some 0 \<and> s = [] then None else Some (insert_key k t))
              else None)
         | TypeFloat \<Rightarrow> (if number \<or> comma then Some (insert_key k t) else None)
         | TypeEuro \<Rightarrow>
             (if number \<or> comma then
                (if comma \<and> 44 \<in> set s then None
                 else (case js_indexOf s 44 of
                         Some q \<Rightarrow> if length (drop (q + 1) s) \<ge> 2 \<and> ti_cursorPos t > q then None
                                   else Some (insert_key k t)
                       | None \<Rightarrow> Some (insert_key k t)))
              else None)
         | TypeOther _ \<Rightarrow> None)"

definition key_backspace :: keychar where "key_backspace = KText (js ''backspace'')"
definition key_delete :: keychar where "key_delete = KText (js ''delete'')"

definition erase_before :: "textinput \<Rightarrow> textinput" where
  "erase_before t =
     (let s = tb_displaytext t; p = ti_cursorPos t
      in if p > 0 then t\<lparr>tb_displaytext := js_slice s 0 (p - 1) @ js_slice s p (length s),
                         ti_always_show_cursor := True, ti_cursorPos := p - 1\<rparr> else t)"

definition erase_after :: "textinput \<Rightarrow> textinput" where
  "erase_after t =
     (let s = tb_displaytext t; p = ti_cursorPos t
      in if p < length s then t\<lparr>tb_displaytext := js_slice s 0 p @ js_slice s (p + 1) (length s),
                                ti_always_show_cursor := True\<rparr> else t)"

definition clamp_cursor :: "textinput \<Rightarrow> textinput" where
  "clamp_cursor t =
     (if ti_cursorPos t > length (tb_displaytext t)
      then t\<lparr>ti_cursorPos := length (tb_displaytext t)\<rparr> else t)"

definition arrow_key :: "nat \<Rightarrow> textinput \<Rightarrow> textinput \<times> (nat \<times> jsstring) ui_event list" where
  "arrow_key keyCode t =
     (if keyCode = 37 \<and> ti_cursorPos t > 0
      then (t\<lparr>ti_always_show_cursor := True, ti_cursorPos := ti_cursorPos t - 1\<rparr>, [Repaint])
      else if keyCode = 39 \<and> ti_cursorPos t < length (tb_displaytext t)
      then (t\<lparr>ti_always_show_cursor := True, ti_cursorPos := ti_cursorPos t + 1\<rparr>, [Repaint])
      else (t, []))"

definition key_input ::
  "nat \<Rightarrow> keychar option \<Rightarrow> nat \<Rightarrow> textinput \<Rightarrow> (nat \<times> jsstring) ui_event list \<Rightarrow>
     textinput \<times> (nat \<times> jsstring) ui_event list \<times> bool" where
  "key_input keyCode char i t evs =
     (if ti_mouseDown t then
        (let (t1, moved) = arrow_key keyCode (clamp_cursor t);
             typed = (case char of
                        None \<Rightarrow> None
                      | Some k \<Rightarrow>
                          if k = key_backspace then Some (erase_before t1)
                          else if k = key_delete then Some (erase_after t1)
                          else type_key k t1)
         in case typed of
              None \<Rightarrow> (t1, evs @ moved, True)
            | Some t2 \<Rightarrow>
                (t2, evs @ moved @ (if ti_has_callback t2 then [Callback (i, tb_displaytext t2)] else [])
                       @ [Repaint], False))
      else (t, evs, False))"

definition UITextInput_onKeyDown ::
  "nat \<Rightarrow> uitextinput \<Rightarrow> uitextinput \<times> (nat \<times> jsstring) ui_event list" where
  "UITextInput_onKeyDown keyCode st =
     (let (pk, char, prevent) = pk_keydown keyCode (un_pressedKey st);
          (ts, evs, stopped) = for_until (key_input keyCode char) 0 (un_textinputs st)
                                 (if prevent then [PreventDefault] else [])
      in (st\<lparr>un_textinputs := ts, un_pressedKey := pk\<rparr>, evs))"

definition UITextInput_onKeyUp :: "nat \<Rightarrow> uitextinput \<Rightarrow> uitextinput" where
  "UITextInput_onKeyUp keyCode st =
     st\<lparr>un_pressedKey := pk_keyup keyCode (un_pressedKey st),
        un_textinputs := map (\<lambda>t. t\<lparr>ti_always_show_cursor := False\<rparr>) (un_textinputs st)\<rparr>"

definition UITextInput_find :: "jsstring option \<Rightarrow> uitextinput \<Rightarrow> textinput option" where
  "UITextInput_find name st = List.find (\<lambda>t. tb_name t = name) (un_textinputs st)"

definition UITextInput_clear :: "uitextinput \<Rightarrow> uitextinput" where
  "UITextInput_clear st = st\<lparr>un_textinputs := []\<rparr>"

interpretation un: named_collection un_textinputs tb_name "UITextInput_prepare now"
    "UITextInput_add now" UITextInput_find UITextInput_clear for now
  by unfold_locales
    (simp_all add: UITextInput_add_def UITextInput_prepare_def UITextBox_prepare_def
      UITextInput_find_def UITextInput_clear_def Let_def)
section \<open>The cursor\<close>

definition cursor_ok :: "textinput \<Rightarrow> bool" where
  "cursor_ok t \<longleftrightarrow> ti_cursorPos t \<le> length (tb_displaytext t)"

text \<open>Every key gives one unit of text, and the two keys that erase.\<close>

lemma keydown_text:
  assumes "pk_keydown keyCode st = (st', Some k, prevent)" "k \<noteq> key_backspace" "k \<noteq> key_delete"
  shows "\<exists>u. key_text k = [u] \<and> (key_number k \<noteq> None \<longrightarrow> u = 32 \<or> 48 \<le> u \<and> u \<le> 57) \<and>
    (k = KText (js '','') \<longrightarrow> u = 44)"
proof (cases k)
  case (KNum n)
  with assms(1) have "n < 10" by (auto simp: pk_keydown_def Let_def split: if_splits)
  then show ?thesis using KNum by (simp add: nat_to_string_small)
next
  case (KText s)
  have "(\<exists>u. s = [u] \<and> \<not> is_space u) \<or> s = [32] \<or> s = js ''backspace'' \<or> s = js ''delete''"
    using assms(1) KText
    by (auto simp: pk_keydown_def Let_def is_space_def js_toLowerCase_def lower_unit_def
        split: if_splits)
  then show ?thesis using assms(2,3) KText
    by (auto simp: key_backspace_def key_delete_def)
qed

lemma clamp_cursor_ok [simp]: "cursor_ok (clamp_cursor t)"
  by (simp add: cursor_ok_def clamp_cursor_def)

lemma arrow_key_ok: "cursor_ok t \<Longrightarrow> cursor_ok (fst (arrow_key keyCode t))"
  by (auto simp: cursor_ok_def arrow_key_def)

lemma erase_ok:
  "cursor_ok t \<Longrightarrow> cursor_ok (erase_before t)" "cursor_ok t \<Longrightarrow> cursor_ok (erase_after t)"
  by (auto simp: cursor_ok_def erase_before_def erase_after_def js_slice_def Let_def)

lemma type_key_cases:
  "type_key k t = Some t' \<Longrightarrow> t' = insert_key k t"
  by (auto simp: type_key_def Let_def split: input_type.splits if_splits option.splits)

lemma insert_key_ok: "key_text k = [u] \<Longrightarrow> cursor_ok t \<Longrightarrow> cursor_ok (insert_key k t)"
  by (auto simp: cursor_ok_def insert_key_def js_slice_def Let_def min_def)

text \<open>After any key, whatever the cursor was before, the cursor of an input that has the focus
  and was reached by the handler stands inside its text.\<close>

theorem key_input_cursor:
  assumes "pk_keydown keyCode st = (st', char, prevent)" "ti_mouseDown t"
  shows "ti_cursorPos (fst (key_input keyCode char i t evs))
    \<le> length (tb_displaytext (fst (key_input keyCode char i t evs)))"
proof -
  obtain t1 moved where a: "arrow_key keyCode (clamp_cursor t) = (t1, moved)"
    by (cases "arrow_key keyCode (clamp_cursor t)")
  then have ok: "cursor_ok t1" using arrow_key_ok [of "clamp_cursor t" keyCode] by simp
  show ?thesis
  proof (cases char)
    case None
    then show ?thesis using ok a assms(2) by (simp add: key_input_def cursor_ok_def)
  next
    case (Some k)
    have "cursor_ok t2" if "type_key k t1 = Some t2" "k \<noteq> key_backspace" "k \<noteq> key_delete" for t2
      using keydown_text [OF assms(1) [unfolded Some] that(2,3)] type_key_cases [OF that(1)] ok
        insert_key_ok by auto
    then show ?thesis using Some ok a assms(2) erase_ok [OF ok]
      by (auto simp: key_input_def cursor_ok_def split: option.splits)
  qed
qed

definition demo_input :: "input_type \<Rightarrow> jsstring \<Rightarrow> textinput" where
  "demo_input ty s = \<lparr>tb_x = 0, tb_y = 0, tb_width = 200, tb_height = 50, tb_background = [],
     tb_foreground = None, tb_border = None, tb_border_width = None, tb_border_radius = None,
     tb_font_size = None, tb_grd_type = None, tb_align = None, tb_center_x = None,
     tb_center_y = None, tb_angle = None, tb_label = None, tb_displaytext = s,
     tb_highlight = False, tb_main_highlight = None, tb_active = None, tb_name = None,
     ti_type = ty, ti_always_active = True, ti_mouseDown = True, ti_always_show_cursor = False,
     ti_cursorPos = 7, ti_show_cursor = False, ti_milliseconds = 0, ti_has_callback = False\<rparr>"

lemma demo_key: "pk_keydown 65 new_pressed_key = (new_pressed_key, Some (KText [97]), True)"
  by (simp add: pk_keydown_def new_pressed_key_def Let_def js_toLowerCase_def lower_unit_def)

theorem key_input_cursor_witness:
  "ti_cursorPos (fst (key_input 65 (Some (KText [97])) 0 (demo_input TypeText (js ''xy'')) []))
     \<le> length (tb_displaytext (fst (key_input 65 (Some (KText [97])) 0 (demo_input TypeText (js ''xy'')) [])))"
  by (rule key_input_cursor [OF demo_key]) (simp add: demo_input_def)

text \<open>Typing a character into a text input and taking it back with the backspace key gives
  the text and the cursor of before.\<close>

theorem type_then_backspace:
  assumes "pk_keydown keyCode st = (st', Some k, prevent)" "k \<noteq> key_backspace" "k \<noteq> key_delete"
    "ti_mouseDown t" "ti_type t = TypeText" "ti_cursorPos t \<le> length (tb_displaytext t)"
    "keyCode \<noteq> 37" "keyCode \<noteq> 39"
  shows "let t1 = fst (key_input keyCode (Some k) i t evs);
             t2 = fst (key_input 8 (Some key_backspace) i t1 evs')
         in tb_displaytext t2 = tb_displaytext t \<and> ti_cursorPos t2 = ti_cursorPos t \<and>
            tb_displaytext t1 =
              take (ti_cursorPos t) (tb_displaytext t) @ key_text k @ drop (ti_cursorPos t) (tb_displaytext t)"
proof -
  obtain u where u: "key_text k = [u]" using keydown_text [OF assms(1-3)] by blast
  define p where "p = ti_cursorPos t"
  define s where "s = tb_displaytext t"
  have c: "clamp_cursor t = t" using assms(6) by (simp add: clamp_cursor_def)
  have t1: "fst (key_input keyCode (Some k) i t evs) = insert_key k t"
    using assms c by (simp add: key_input_def arrow_key_def type_key_def)
  have ps: "p \<le> length s" using assms(6) by (simp add: p_def s_def)
  have i: "tb_displaytext (insert_key k t) = take p s @ [u] @ drop p s"
    "ti_cursorPos (insert_key k t) = p + 1" "ti_mouseDown (insert_key k t)"
    using assms(4) by (simp_all add: insert_key_def Let_def js_slice_def u p_def s_def)
  have c': "clamp_cursor (insert_key k t) = insert_key k t"
    using i ps by (simp add: clamp_cursor_def)
  have "fst (key_input 8 (Some key_backspace) i (insert_key k t) evs') = erase_before (insert_key k t)"
    using i c' by (simp add: key_input_def arrow_key_def)
  moreover have "tb_displaytext (erase_before (insert_key k t)) = s"
    "ti_cursorPos (erase_before (insert_key k t)) = p"
    using i ps by (simp_all add: erase_before_def Let_def js_slice_def)
  ultimately show ?thesis
    unfolding t1 Let_def p_def [symmetric] s_def [symmetric] using i(1) u by simp
qed

theorem type_then_backspace_witness:
  "tb_displaytext (fst (key_input 8 (Some key_backspace) 0
     (fst (key_input 65 (Some (KText [97])) 0
        ((demo_input TypeText (js ''xy''))\<lparr>ti_cursorPos := 1\<rparr>) [])) [])) = js ''xy''"
  using type_then_backspace [OF demo_key, of "(demo_input TypeText (js ''xy''))\<lparr>ti_cursorPos := 1\<rparr>" 0 "[]" "[]"]
  by (simp add: demo_input_def key_backspace_def key_delete_def Let_def)
section \<open>Amounts\<close>

text \<open>What a euro input holds: digits, blanks and one comma at most.\<close>

definition euro_ok :: "textinput \<Rightarrow> bool" where
  "euro_ok t \<longleftrightarrow> (ti_type t = TypeEuro \<longrightarrow>
     (\<forall>u \<in> set (tb_displaytext t). u = 32 \<or> u = 44 \<or> (48 \<le> u \<and> u \<le> 57)) \<and>
     count_list (tb_displaytext t) 44 \<le> 1)"

lemma count_list_slice: "count_list (take p s) x + count_list (drop p s) x = count_list s x"
  by (metis append_take_drop_id count_list_append)

lemma euro_ok_frame [simp]:
  "euro_ok (clamp_cursor t) = euro_ok t" "euro_ok (fst (arrow_key keyCode t)) = euro_ok t"
  by (simp_all add: euro_ok_def clamp_cursor_def arrow_key_def)

lemma euro_ok_sub:
  assumes "euro_ok t" "ti_type t' = ti_type t" "tb_displaytext t' = take p (tb_displaytext t) @ drop q (tb_displaytext t)"
    "p \<le> q"
  shows "euro_ok t'"
proof -
  have "count_list (drop q s) x \<le> count_list (drop p s) x" if "p \<le> q" for s :: jsstring and x
    using count_list_slice [of "q - p" "drop p s" x] that by (simp add: drop_drop)
  from this [OF assms(4), of "tb_displaytext t" 44]
  have "count_list (tb_displaytext t') 44 \<le> count_list (tb_displaytext t) 44"
    using count_list_slice [of p "tb_displaytext t" 44] assms(3) by simp
  then show ?thesis using assms
    by (auto simp: euro_ok_def dest: in_set_takeD in_set_dropD)
qed

lemma euro_erase:
  "euro_ok t \<Longrightarrow> euro_ok (erase_before t)" "euro_ok t \<Longrightarrow> euro_ok (erase_after t)"
  by (auto simp: erase_before_def erase_after_def js_slice_def Let_def intro: euro_ok_sub)

lemma euro_type:
  assumes "euro_ok t" "type_key k t = Some t'" "key_text k = [u]"
    "key_number k \<noteq> None \<longrightarrow> u = 32 \<or> 48 \<le> u \<and> u \<le> 57" "k = KText (js '','') \<longrightarrow> u = 44"
  shows "euro_ok t'"
proof (cases "ti_type t = TypeEuro")
  case False
  then show ?thesis using type_key_cases [OF assms(2)]
    by (simp add: euro_ok_def insert_key_def Let_def)
next
  case True
  have t': "t' = insert_key k t" by (rule type_key_cases [OF assms(2)])
  define s where "s = tb_displaytext t"
  define p where "p = ti_cursorPos t"
  have tx: "tb_displaytext t' = take p s @ u # drop p s" "ti_type t' = TypeEuro"
    using True by (simp_all add: t' insert_key_def Let_def js_slice_def assms(3) s_def p_def)
  have key: "key_number k \<noteq> None \<or> (k = KText (js '','') \<and> 44 \<notin> set s)"
    using assms(2) True by (auto simp: type_key_def Let_def s_def split: if_splits option.splits)
  have "count_list (tb_displaytext t') 44 \<le> 1"
    using key
  proof
    assume "key_number k \<noteq> None"
    then have "u \<noteq> 44" using assms(4) by auto
    then show ?thesis using tx count_list_slice [of p s 44] assms(1) True
      by (simp add: euro_ok_def s_def)
  next
    assume "k = KText (js '','') \<and> 44 \<notin> set s"
    then have "count_list s 44 = 0" by (simp add: count_list_0_iff)
    then show ?thesis using tx(1) count_list_slice [of p s 44] by simp
  qed
  moreover have "u = 32 \<or> u = 44 \<or> (48 \<le> u \<and> u \<le> 57)" using key assms(4,5) by auto
  ultimately show ?thesis using tx assms(1) True
    by (auto simp: euro_ok_def s_def dest: in_set_takeD in_set_dropD)
qed

lemma euro_key_input:
  assumes "pk_keydown keyCode st = (st', char, prevent)" "euro_ok t"
  shows "euro_ok (fst (key_input keyCode char i t evs))"
proof -
  obtain t1 moved where a: "arrow_key keyCode (clamp_cursor t) = (t1, moved)"
    by (cases "arrow_key keyCode (clamp_cursor t)")
  then have ok: "euro_ok t1" using assms(2) euro_ok_frame(2) [of keyCode "clamp_cursor t"] by simp
  show ?thesis
  proof (cases char)
    case None
    then show ?thesis using ok a assms(2) by (simp add: key_input_def)
  next
    case (Some k)
    have "euro_ok t2" if "type_key k t1 = Some t2" "k \<noteq> key_backspace" "k \<noteq> key_delete" for t2
    proof -
      note typed = that
      obtain u where "key_text k = [u]" "key_number k \<noteq> None \<longrightarrow> u = 32 \<or> 48 \<le> u \<and> u \<le> 57"
        "k = KText (js '','') \<longrightarrow> u = 44"
        using keydown_text [OF assms(1) [unfolded Some] typed(2,3)] by blast
      then show ?thesis by (rule euro_type [OF ok typed(1)])
    qed
    then show ?thesis using Some ok a assms(2) euro_erase [OF ok]
      by (auto simp: key_input_def split: option.splits)
  qed
qed

definition type_keys :: "nat list \<Rightarrow> uitextinput \<Rightarrow> uitextinput" where
  "type_keys ks = fold (\<lambda>k st. fst (UITextInput_onKeyDown k st)) ks"

lemma type_keys_simps [simp]:
  "type_keys [] st = st"
  "type_keys (k # ks) st = type_keys ks (fst (UITextInput_onKeyDown k st))"
  by (simp_all add: type_keys_def)

text \<open>C35: Whatever keys are pressed, a euro input that was empty holds nothing but digits,
  blanks and at most one comma.\<close>

theorem euro_input_characters:
  assumes "t \<in> set (un_textinputs (type_keys ks st))" "ti_type t = TypeEuro"
    and "\<And>t. t \<in> set (un_textinputs st) \<Longrightarrow> ti_type t = TypeEuro \<Longrightarrow> tb_displaytext t = []"
  shows "(\<forall>u \<in> set (tb_displaytext t). u = 32 \<or> u = 44 \<or> (48 \<le> u \<and> u \<le> 57)) \<and>
    count_list (tb_displaytext t) 44 \<le> 1"
proof -
  have "\<forall>t \<in> set (un_textinputs (type_keys ks s)). euro_ok t"
    if "\<forall>t \<in> set (un_textinputs s). euro_ok t" for s
    using that
  proof (induction ks arbitrary: s)
    case Nil
    then show ?case by simp
  next
    case (Cons k ks)
    obtain pk char prevent where d: "pk_keydown k (un_pressedKey s) = (pk, char, prevent)"
      by (cases "pk_keydown k (un_pressedKey s)") auto
    have "\<forall>t \<in> set (fst (for_until (key_input k char) 0 (un_textinputs s) evs)). euro_ok t" for evs
      by (rule for_until_inv [OF _ Cons.prems]) (rule euro_key_input [OF d])
    then have "\<forall>t \<in> set (un_textinputs (fst (UITextInput_onKeyDown k s))). euro_ok t"
      by (simp add: UITextInput_onKeyDown_def d split_beta Let_def)
    then show ?case using Cons.IH by simp
  qed
  moreover have "\<forall>t \<in> set (un_textinputs st). euro_ok t" using assms(3) by (auto simp: euro_ok_def)
  ultimately show ?thesis using assms(1,2) by (auto simp: euro_ok_def)
qed

definition demo_inputs :: "input_type \<Rightarrow> uitextinput" where
  "demo_inputs ty = UITextInput_add 0 (demo_input ty []) new_UITextInput"

lemma demo_inputs_unfold:
  "demo_inputs ty = \<lparr>un_textinputs = [(demo_input ty [])\<lparr>tb_active := Some True, ti_cursorPos := 0\<rparr>],
     un_pressedKey = new_pressed_key\<rparr>"
  by (simp add: demo_inputs_def demo_input_def UITextInput_add_def UITextInput_prepare_def
      UITextBox_prepare_def new_UITextInput_def Let_def)

lemmas key_simps = UITextInput_onKeyDown_def key_input_def pk_keydown_def arrow_key_def
  clamp_cursor_def type_key_def insert_key_def key_backspace_def key_delete_def js_slice_def
  nat_to_string_small

theorem euro_input_characters_witness:
  "count_list (tb_displaytext (hd (un_textinputs (type_keys [49, 188, 188] (demo_inputs TypeEuro))))) 44 \<le> 1"
proof -
  let ?t = "hd (un_textinputs (type_keys [49, 188, 188] (demo_inputs TypeEuro)))"
  have t: "?t \<in> set (un_textinputs (type_keys [49, 188, 188] (demo_inputs TypeEuro)))"
    "ti_type ?t = TypeEuro"
    by (simp_all add: demo_inputs_unfold demo_input_def key_simps new_pressed_key_def)
  show ?thesis
    by (rule conjunct2 [OF euro_input_characters [OF t]])
      (simp add: demo_inputs_unfold demo_input_def)
qed

text \<open>A euro input does not keep to two decimals: a comma can be put in front of any number
  of digits, and a blank passes the test for digits because it compares as 0.\<close>

theorem euro_input_leaks:
  "tb_displaytext (hd (un_textinputs (type_keys [49, 50, 51, 52, 37, 37, 37, 188] (demo_inputs TypeEuro))))
     = js ''1,234'' \<and>
   tb_displaytext (hd (un_textinputs (type_keys [49, 32, 50] (demo_inputs TypeEuro)))) = js ''1 2''"
  by (simp add: demo_inputs_unfold demo_input_def key_simps new_pressed_key_def is_space_def)
lemma UITextInput_render_nested: "draws_nested (\<lambda>c. snd (UITextInput_render tm now st c))"
proof -
  have "draws_nested (\<lambda>c. snd (UITextInput_render_one tm now i t c))" for i t
    unfolding draws_nested_def
  proof
    fix c
    obtain cs where cs: "UITextBox_render_one tm t c = c @ cs" "well_nested cs"
      using UITextBox_one_nested unfolding draws_nested_def by blast
    have "well_nested (cursor_line u w)" for u w
      by (auto simp: cursor_line_def split: option.splits align.splits)
    then show "\<exists>cs. snd (UITextInput_render_one tm now i t c) = c @ cs \<and> well_nested cs"
      using cs by (simp add: UITextInput_render_one_def Let_def emit_def)
  qed
  from for_each_nested [of "UITextInput_render_one tm now", OF this, of 0 "un_textinputs st"]
  show ?thesis by (simp add: UITextInput_render_def Let_def split_beta)
qed

end
