(* ===== verification/Editors.thy ===== *)
theory Editors
  imports TextInputs
begin

text \<open>
  A specification of the text inputs of \<open>TextInputs\<close>: an editor that keeps the text before and the
  text after the cursor, and the proof that \<open>UITextInput\<close> implements it for any keys.
\<close>

section \<open>An editor as a specification\<close>

text \<open>The text before the cursor and the text after it, and what a key does to them.\<close>

type_synonym editor = "jsstring \<times> jsstring"

fun editor_left :: "editor \<Rightarrow> editor" where
  "editor_left (l, r) = (if l = [] then (l, r) else (butlast l, last l # r))"

fun editor_right :: "editor \<Rightarrow> editor" where
  "editor_right (l, []) = (l, [])"
| "editor_right (l, u # r) = (l @ [u], r)"

definition editor_char :: "keychar option \<Rightarrow> editor \<Rightarrow> editor" where
  "editor_char char z =
     (case char of
        None \<Rightarrow> z
      | Some k \<Rightarrow> if k = key_backspace then (butlast (fst z), snd z)
                  else if k = key_delete then (fst z, tl (snd z))
                  else (fst z @ key_text k, snd z))"

definition editor_key :: "nat \<Rightarrow> pressed_key \<times> editor \<Rightarrow> pressed_key \<times> editor" where
  "editor_key keyCode = (\<lambda>(pk, z).
     (let (pk', char, prevent) = pk_keydown keyCode pk
      in (pk', editor_char char
            (if keyCode = 37 then editor_left z else if keyCode = 39 then editor_right z else z))))"

definition split_at :: "textinput \<Rightarrow> editor" where
  "split_at t = (take (ti_cursorPos t) (tb_displaytext t), drop (ti_cursorPos t) (tb_displaytext t))"

definition editing :: "textinput \<Rightarrow> bool" where
  "editing t \<longleftrightarrow> ti_mouseDown t \<and> ti_type t = TypeText \<and> cursor_ok t"

lemma editor_arrow:
  assumes "editing t"
  shows "editing (fst (arrow_key keyCode t)) \<and> split_at (fst (arrow_key keyCode t)) =
    (if keyCode = 37 then editor_left (split_at t) else if keyCode = 39 then editor_right (split_at t)
     else split_at t)"
proof -
  have c: "ti_cursorPos t \<le> length (tb_displaytext t)" using assms by (simp add: editing_def cursor_ok_def)
  have l: "editor_left (take n s, drop n s) = (take (n - 1) s, drop (n - 1) s)" if "n \<le> length s" for n and s :: jsstring
    using that by (cases n) (auto simp: take_Suc_conv_app_nth butlast_snoc Cons_nth_drop_Suc)
  have r: "editor_right (take n s, drop n s) = (take (Suc n) s, drop (Suc n) s)" if "n < length s" for n and s :: jsstring
    using that by (simp add: Cons_nth_drop_Suc [symmetric] take_Suc_conv_app_nth)
  show ?thesis
    using assms l [OF c] r [of "ti_cursorPos t" "tb_displaytext t"] c
    by (cases "ti_cursorPos t < length (tb_displaytext t)")
      (auto simp: arrow_key_def split_at_def editing_def cursor_ok_def)
qed

lemma editor_insert:
  assumes "editing t" "key_text k = [u]"
  shows "editing (insert_key k t) \<and> split_at (insert_key k t) = (fst (split_at t) @ key_text k, snd (split_at t))"
  using assms
  by (simp add: editing_def cursor_ok_def insert_key_def split_at_def js_slice_def Let_def min_absorb1)

lemma editor_erase:
  assumes "editing t"
  shows "editing (erase_before t) \<and> split_at (erase_before t) = (butlast (fst (split_at t)), snd (split_at t))"
    "editing (erase_after t) \<and> split_at (erase_after t) = (fst (split_at t), tl (snd (split_at t)))"
  using assms
  by (auto simp: editing_def cursor_ok_def erase_before_def erase_after_def split_at_def js_slice_def
      Let_def butlast_take tl_drop drop_Suc min_absorb1)

lemma editor_key_input:
  assumes "editing t" "pk_keydown keyCode st = (st', char, prevent)"
  shows "editing (fst (key_input keyCode char i t evs)) \<and>
    split_at (fst (key_input keyCode char i t evs)) = editor_char char
      (if keyCode = 37 then editor_left (split_at t) else if keyCode = 39 then editor_right (split_at t)
       else split_at t)"
proof -
  have cl: "clamp_cursor t = t" using assms(1) by (simp add: clamp_cursor_def editing_def cursor_ok_def)
  obtain t1 moved where a: "arrow_key keyCode t = (t1, moved)" by fastforce
  note t1 = editor_arrow [OF assms(1), of keyCode, unfolded a fst_conv]
  have ty: "type_key k t1 = Some (insert_key k t1)" for k
    using t1 by (simp add: type_key_def editing_def)
  have m: "ti_mouseDown t" using assms(1) by (simp add: editing_def)
  show ?thesis
  proof (cases char)
    case None
    then show ?thesis using t1 a m by (simp add: key_input_def cl editor_char_def)
  next
    case (Some k)
    show ?thesis
    proof (cases "k = key_backspace \<or> k = key_delete")
      case True
      then show ?thesis using Some t1 a m editor_erase [of t1]
        by (auto simp: key_input_def cl editor_char_def key_backspace_def key_delete_def)
    next
      case False
      then obtain u where "key_text k = [u]" using keydown_text [OF assms(2) [unfolded Some]] by blast
      from editor_insert [OF _ this, of t1] show ?thesis using Some False t1 a m ty
        by (simp add: key_input_def cl editor_char_def)
    qed
  qed
qed

text \<open>C10: A text input that has the focus implements a text editor: whatever keys are pressed, in
  whatever order, its text and cursor are those of the editor that keeps the text before and
  after the cursor apart.\<close>

theorem text_input_refines_editor:
  assumes "un_textinputs st = [t]" "ti_mouseDown t" "ti_type t = TypeText"
    "ti_cursorPos t \<le> length (tb_displaytext t)"
  shows "\<exists>t'. un_textinputs (type_keys ks st) = [t'] \<and>
    (un_pressedKey (type_keys ks st), take (ti_cursorPos t') (tb_displaytext t'),
       drop (ti_cursorPos t') (tb_displaytext t')) =
    fold editor_key ks (un_pressedKey st, take (ti_cursorPos t) (tb_displaytext t),
       drop (ti_cursorPos t) (tb_displaytext t))"
proof -
  have "\<exists>t'. un_textinputs (type_keys ks st) = [t'] \<and> editing t' \<and>
      (un_pressedKey (type_keys ks st), split_at t') = fold editor_key ks (un_pressedKey st, split_at t)"
    if "un_textinputs st = [t]" "editing t"
    using that
  proof (induction ks arbitrary: st t)
    case Nil
    then show ?case by (simp add: type_keys_simps)
  next
    case (Cons k ks)
    obtain pk char prevent where p: "pk_keydown k (un_pressedKey st) = (pk, char, prevent)"
      by (cases "pk_keydown k (un_pressedKey st)")
    define t1 where "t1 = fst (key_input k char 0 t (if prevent then [PreventDefault] else []))"
    define st1 where "st1 = fst (UITextInput_onKeyDown k st)"
    have st1: "un_textinputs st1 = [t1]" "un_pressedKey st1 = pk"
      using Cons.prems(1) by (simp_all add: st1_def t1_def UITextInput_onKeyDown_def p Let_def split_beta)
    note e = editor_key_input [OF Cons.prems(2) p, of 0 "if prevent then [PreventDefault] else []", folded t1_def]
    obtain t' where "un_textinputs (type_keys ks st1) = [t']" "editing t'"
      "(un_pressedKey (type_keys ks st1), split_at t') = fold editor_key ks (pk, split_at t1)"
      using Cons.IH [OF st1(1)] e st1(2) by auto
    moreover have "editor_key k (un_pressedKey st, split_at t) = (pk, split_at t1)"
      using e by (simp add: editor_key_def p)
    ultimately show ?case by (auto simp: st1_def [symmetric])
  qed
  from this [OF assms(1)] show ?thesis
    using assms(2-) by (auto simp: editing_def cursor_ok_def split_at_def)
qed

theorem text_input_refines_editor_witness:
  "\<exists>t'. un_textinputs (type_keys [65, 37, 66, 8, 39] (new_UITextInput\<lparr>un_textinputs :=
      [(demo_input TypeText (js ''xy''))\<lparr>ti_cursorPos := 1\<rparr>]\<rparr>)) = [t'] \<and>
    take (ti_cursorPos t') (tb_displaytext t') = js ''xa'' \<and> drop (ti_cursorPos t') (tb_displaytext t') = js ''y''"
  using text_input_refines_editor [of "new_UITextInput\<lparr>un_textinputs :=
      [(demo_input TypeText (js ''xy''))\<lparr>ti_cursorPos := 1\<rparr>]\<rparr>"
      "(demo_input TypeText (js ''xy''))\<lparr>ti_cursorPos := 1\<rparr>" "[65, 37, 66, 8, 39]"]
  by (simp add: demo_input_def editor_key_def editor_char_def new_UITextInput_def key_simps new_pressed_key_def
      key_backspace_def key_delete_def js_toLowerCase_def lower_unit_def del: type_keys_simps) blast

end
