(* ===== verification/Panels.thy ===== *)
theory Panels
  imports Lists
begin

text \<open>
  Two classes made of other classes: \<open>UINumpad\<close> (\<open>canvasuijs/uinumpad.js\<close>), a pad of buttons, and
  \<open>UIColorPalet\<close> (\<open>canvasuijs/uicolorpalet.js\<close>), a list of colours.
\<close>

section \<open>UINumpad\<close>

text \<open>The options of a pad are also those of its buttons (\<open>Object.assign({}, options, button)\<close>), so
  the record extends \<open>button\<close>. \<open>np_callback\<close> is the call \<open>callback({key: .., value: text})\<close> for the
  text of a key.\<close>

record 'cb numpad = "'cb button" +
  np_gap :: real
  np_show_x :: bool
  np_show_ZWS :: bool
  np_show_pm :: bool
  np_allow_keyboard :: bool
  np_callback :: "jsstring \<Rightarrow> 'cb"

record 'cb uinumpad =
  up_button :: "'cb button uibutton"
  up_numpads :: "'cb numpad list"

definition new_UINumpad :: "'cb uinumpad" where
  "new_UINumpad = \<lparr>up_button = new_UIButton, up_numpads = []\<rparr>"

text \<open>The keys of the pad with their key codes; \<open>None\<close> is a key that is not shown.\<close>

definition numpad_keys :: "bool \<Rightarrow> bool \<Rightarrow> bool \<Rightarrow> (jsstring \<times> nat list) option list list" where
  "numpad_keys show_x show_ZWS show_pm =
     [[if show_pm then Some (trquote (js ''+/-''), []) else None,
       if show_ZWS then Some (trquote (js ''ZWS''), []) else None,
       if show_x then Some (trquote [215], [106]) else None],
      [Some (trquote (js ''7''), [103, 55]), Some (trquote (js ''8''), [104, 56]),
       Some (trquote (js ''9''), [57, 105])],
      [Some (trquote (js ''4''), [100, 52]), Some (trquote (js ''5''), [101, 53]),
       Some (trquote (js ''6''), [102, 54])],
      [Some (trquote (js ''1''), [97, 49]), Some (trquote (js ''2''), [98, 50]),
       Some (trquote (js ''3''), [99, 51])],
      [Some (trquote (js '',''), [108, 188]), Some (trquote (js ''0''), [96, 48]),
       Some (trquote [9003], [8])]]"

definition numpad_small :: "'cb numpad \<Rightarrow> bool" where
  "numpad_small np = (\<not> np_show_x np \<and> \<not> np_show_ZWS np \<and> \<not> np_show_pm np)"

definition numpad_button_height :: "'cb numpad \<Rightarrow> real" where
  "numpad_button_height np = bt_height np / (if numpad_small np then 4 else 5) - np_gap np"

definition numpad_button_width :: "'cb numpad \<Rightarrow> real" where
  "numpad_button_width np = bt_width np / 3 - np_gap np"

definition numpad_button :: "'cb numpad \<Rightarrow> nat \<Rightarrow> nat \<Rightarrow> jsstring \<times> nat list \<Rightarrow> 'cb button" where
  "numpad_button np by bx key =
     (let h = numpad_button_height np; w = numpad_button_width np;
          row = (if numpad_small np then real by - 1 else real by)
      in (button.truncate np)
           \<lparr>bt_displaytext := Some (DText (fst key)),
            bt_accept_keycode := (if np_allow_keyboard np then snd key else []),
            bt_x := bt_x np + (w + np_gap np) * real bx, bt_y := bt_y np + (h + np_gap np) * row,
            bt_width := w, bt_height := h, bt_callback := np_callback np (fst key)\<rparr>)"

definition numpad_buttons :: "'cb numpad \<Rightarrow> 'cb button list" where
  "numpad_buttons np =
     concat (map (\<lambda>(by, row). concat (map (\<lambda>(bx, k). case k of None \<Rightarrow> []
                                                     | Some key \<Rightarrow> [numpad_button np by bx key])
                                      (enumerate 0 row)))
       (enumerate 0 (numpad_keys (np_show_x np) (np_show_ZWS np) (np_show_pm np))))"

definition UINumpad_add :: "'cb numpad \<Rightarrow> 'cb uinumpad \<Rightarrow> 'cb uinumpad" where
  "UINumpad_add np st =
     st\<lparr>up_numpads := up_numpads st @ [np],
        up_button := fold UIButton_add (numpad_buttons np) (up_button st)\<rparr>"

definition UINumpad_render :: "text_measure \<Rightarrow> 'cb uinumpad \<Rightarrow> ctx \<Rightarrow> 'cb uinumpad \<times> ctx" where
  "UINumpad_render tm st c =
     (let (ub, c') = UIButton_render tm (up_button st) c in (st\<lparr>up_button := ub\<rparr>, c'))"

definition numpad_forward ::
  "('cb button uibutton \<Rightarrow> 'cb button uibutton \<times> 'cb ui_event list) \<Rightarrow> 'cb uinumpad \<Rightarrow>
     'cb uinumpad \<times> 'cb ui_event list" where
  "numpad_forward h st = (let (ub, evs) = h (up_button st) in (st\<lparr>up_button := ub\<rparr>, evs))"

definition UINumpad_onClick where
  "UINumpad_onClick x y = numpad_forward (UIButton_onClick x y)"

definition UINumpad_onMouseDown where
  "UINumpad_onMouseDown x y = numpad_forward (UIButton_onMouseDown x y)"

definition UINumpad_onMouseUp where
  "UINumpad_onMouseUp x y = numpad_forward (UIButton_onMouseUp x y)"

definition UINumpad_onMouseMove where
  "UINumpad_onMouseMove x y = numpad_forward (UIButton_onMouseMove x y)"

definition UINumpad_onKeyDown :: "nat \<Rightarrow> 'cb uinumpad \<Rightarrow> 'cb ui_event list" where
  "UINumpad_onKeyDown keyCode st = UIButton_onKeyDown keyCode (up_button st)"

definition UINumpad_find :: "jsstring option \<Rightarrow> 'cb uinumpad \<Rightarrow> 'cb numpad option" where
  "UINumpad_find name st = None"

definition UINumpad_clear :: "'cb uinumpad \<Rightarrow> 'cb uinumpad" where
  "UINumpad_clear st = st\<lparr>up_numpads := [], up_button := UIButton_clear (up_button st)\<rparr>"

section \<open>UIColorPalet\<close>

text \<open>The callback of a colour gets its background and its foreground.\<close>

type_synonym color_call = "jsstring \<times> jsstring"

fun collect_res :: "'a res list \<Rightarrow> 'a list res" where
  "collect_res [] = Inr []"
| "collect_res (Inl e # rs) = Inl e"
| "collect_res (Inr x # rs) =
     (case collect_res rs of Inl e \<Rightarrow> Inl e | Inr xs \<Rightarrow> Inr (x # xs))"

text \<open>The components are whole numbers for 2, 4, 6, 16 colours and so on; the shifts of
  \<open>RGBToHex\<close> drop the fractional part of others.\<close>

definition palet_color :: "nat \<Rightarrow> nat \<Rightarrow> nat \<Rightarrow> nat \<Rightarrow> color_call res" where
  "palet_color color_count red green blue =
     (let multiplier = 255 / (real color_count - 1);
          r = real red * multiplier; g = real green * multiplier; b = real blue * multiplier;
          foreground = (if (r + g + b) / 3 > 100 then 0 else 255)
      in case RGBToHex \<lfloor>r\<rfloor> \<lfloor>g\<rfloor> \<lfloor>b\<rfloor> of
           Inl e \<Rightarrow> Inl e
         | Inr bg \<Rightarrow>
             (case RGBToHex foreground foreground foreground of
                Inl e \<Rightarrow> Inl e
              | Inr fg \<Rightarrow> Inr (35 # bg, 35 # fg)))"

definition generateColorPalet :: "nat \<Rightarrow> color_call list res" where
  "generateColorPalet color_count =
     (case collect_res (concat (map (\<lambda>red. concat (map (\<lambda>green.
             map (\<lambda>blue. palet_color color_count red green blue) [0..<color_count])
           [0..<color_count])) [0..<color_count])) of
        Inl e \<Rightarrow> Inl e
      | Inr combined \<Rightarrow> Inr (combined @ [(js ''#ffffff00'', js ''#000000'')]))"

record colorpalet =
  cp_x :: real
  cp_y :: real
  cp_width :: real
  cp_height :: real
  cp_name :: "jsstring option"
  cp_list :: "color_call uilist"

record uicolorpalet =
  ucp_colorpalets :: "colorpalet list"

definition new_UIColorPalet :: uicolorpalet where
  "new_UIColorPalet = \<lparr>ucp_colorpalets = []\<rparr>"

definition palet_elements :: "color_call element_options" where
  "palet_elements = \<lparr>eo_width = 35, eo_height = 35, eo_gap = 7, eo_background = None,
     eo_foreground = None, eo_border = Some (js ''#ffffff''),
     eo_hover_border = Some (js ''#ffffff''), eo_border_width = Some 3, eo_border_radius = Some 3,
     eo_font_size = None, eo_grd_type = None, eo_align = None, eo_displaytext = None,
     eo_callback = None\<rparr>"

definition palet_item :: "color_call \<Rightarrow> color_call button" where
  "palet_item v =
     \<lparr>bt_x = 0, bt_y = 0, bt_width = 0, bt_height = 0, bt_background = [fst v],
      bt_foreground = snd v, bt_border = None, bt_hover_border = None, bt_border_width = None,
      bt_border_radius = None, bt_font_size = None, bt_grd_type = None, bt_align = None,
      bt_displaytext = None, bt_accept_keycode = [], bt_select_file = False,
      bt_selector_opened = False, bt_active = False, bt_name = None, bt_callback = v\<rparr>"

definition palet_list :: "colorpalet \<Rightarrow> color_call ulist" where
  "palet_list p =
     \<lparr>ls_x = cp_x p, ls_y = cp_y p, ls_width = cp_width p, ls_height = cp_height p - 10,
      ls_scrollbarwidth = Some 30, ls_elementOptions = palet_elements,
      ls_name = Some (js ''colors''), ls_button = new_UIButton,
      ls_arrowbutton = new_UIArrowButton, ls_editmode = False, ls_items = [],
      ls_mouse_down_on = None, ls_scrollPosition = 0\<rparr>"

definition UIColorPalet_add :: "colorpalet \<Rightarrow> uicolorpalet \<Rightarrow> uicolorpalet res" where
  "UIColorPalet_add p st =
     (case generateColorPalet 4 of
        Inl e \<Rightarrow> Inl e
      | Inr values \<Rightarrow>
          Inr (st\<lparr>ucp_colorpalets := ucp_colorpalets st @
            [p\<lparr>cp_list := UIList_setList 0 (map palet_item values)
                  (UIList_add (palet_list p) new_UIList)\<rparr>]\<rparr>))"

definition UIColorPalet_render ::
  "text_measure \<Rightarrow> uicolorpalet \<Rightarrow> ctx \<Rightarrow> uicolorpalet \<times> ctx" where
  "UIColorPalet_render tm st c =
     (let (ps, c') = for_each (\<lambda>i p c. let (l, c1) = UIList_render tm (cp_list p) c
                                       in (p\<lparr>cp_list := l\<rparr>, c1)) 0 (ucp_colorpalets st) c
      in (st\<lparr>ucp_colorpalets := ps\<rparr>, c'))"

definition palet_forward ::
  "(color_call uilist \<Rightarrow> color_call uilist \<times> color_call ui_event list) \<Rightarrow> uicolorpalet \<Rightarrow>
     uicolorpalet \<times> color_call ui_event list" where
  "palet_forward h st =
     (let (ps, evs) = for_each (\<lambda>i p evs. let (l, es) = h (cp_list p)
                                         in (p\<lparr>cp_list := l\<rparr>, evs @ es)) 0 (ucp_colorpalets st) []
      in (st\<lparr>ucp_colorpalets := ps\<rparr>, evs))"

definition UIColorPalet_onClick where
  "UIColorPalet_onClick x y = palet_forward (UIList_onClick x y)"

definition UIColorPalet_onMouseDown where
  "UIColorPalet_onMouseDown x y = palet_forward (UIList_onMouseDown x y)"

definition UIColorPalet_onMouseUp where
  "UIColorPalet_onMouseUp x y = palet_forward (UIList_onMouseUp x y)"

definition UIColorPalet_onMouseMove where
  "UIColorPalet_onMouseMove x y = palet_forward (UIList_onMouseMove x y)"

definition UIColorPalet_find :: "jsstring option \<Rightarrow> uicolorpalet \<Rightarrow> colorpalet option" where
  "UIColorPalet_find name st = List.find (\<lambda>p. cp_name p = name) (ucp_colorpalets st)"

definition UIColorPalet_clear :: "uicolorpalet \<Rightarrow> uicolorpalet" where
  "UIColorPalet_clear st = st\<lparr>ucp_colorpalets := []\<rparr>"
section \<open>The pad\<close>

lemma numpad_member:
  assumes "b \<in> set (numpad_buttons np)"
  obtains r k key where "b = numpad_button np r k key" "r < 5" "k < 3"
    "numpad_small np \<Longrightarrow> 0 < r"
  using assms
  by (auto simp: numpad_buttons_def numpad_keys_def numpad_small_def split: if_splits
      intro: that)

text \<open>Every key of a pad lies inside the pad's area, for a pad that is large enough for
  its gaps: also when the first row is left out and the others move up and grow.\<close>

theorem UINumpad_inside:
  assumes "b \<in> set (numpad_buttons np)" "0 \<le> np_gap np" "0 \<le> bt_width np" "0 \<le> bt_height np"
  shows "bt_x np \<le> bt_x b \<and> bt_x b + bt_width b \<le> bt_x np + bt_width np \<and>
    bt_y np \<le> bt_y b \<and> bt_y b + bt_height b \<le> bt_y np + bt_height np"
proof -
  obtain r k key where b: "b = numpad_button np r k key" "r < 5" "k < 3"
    "numpad_small np \<Longrightarrow> 0 < r"
    using numpad_member [OF assms(1)] by metis
  define n where "n = (if numpad_small np then 4 else 5 :: real)"
  define row where "row = (if numpad_small np then real r - 1 else real r)"
  have n: "0 < n" "0 \<le> row" "row + 1 \<le> n" using b(2,4) by (auto simp: n_def row_def)
  have xy: "bt_x b = bt_x np + bt_width np / 3 * real k" "bt_width b = bt_width np / 3 - np_gap np"
    "bt_y b = bt_y np + bt_height np / n * row" "bt_height b = bt_height np / n - np_gap np"
    by (simp_all add: b(1) numpad_button_def Let_def numpad_button_width_def
        numpad_button_height_def n_def row_def)
  have k: "real k + 1 \<le> 3" using b(3) by simp
  have "bt_width np / 3 * (real k + 1) \<le> bt_width np / 3 * 3"
    by (rule mult_left_mono [OF k]) (use assms(3) in simp)
  moreover have "bt_height np / n * (row + 1) \<le> bt_height np / n * n"
    by (rule mult_left_mono [OF n(3)]) (use assms(4) n(1) in simp)
  moreover have "0 \<le> bt_width np / 3 * real k" using assms(3) by simp
  moreover have "0 \<le> bt_height np / n * row"
    using assms(4) n by (intro mult_nonneg_nonneg) simp_all
  ultimately show ?thesis using assms(2) n(1) unfolding xy by (simp add: distrib_left)
qed

definition demo_pad :: "bool \<Rightarrow> jsstring numpad" where
  "demo_pad show = button.extend (scroll_button 10 20 300 [])
     \<lparr>np_gap = 5, np_show_x = show, np_show_ZWS = False, np_show_pm = False,
      np_allow_keyboard = True, np_callback = (\<lambda>s. s)\<rparr>"

lemma demo_pad_fields:
  "bt_x (demo_pad s) = 10" "bt_y (demo_pad s) = 20" "bt_width (demo_pad s) = 300"
  "bt_height (demo_pad s) = 300" "np_gap (demo_pad s) = 5" "np_show_x (demo_pad s) = s"
  "np_show_ZWS (demo_pad s) = False" "np_show_pm (demo_pad s) = False"
  "np_allow_keyboard (demo_pad s) = True" "np_callback (demo_pad s) = (\<lambda>s. s)"
  by (simp_all add: demo_pad_def scroll_button_def button.extend_def)

theorem UINumpad_inside_witness:
  "bt_y (demo_pad False) \<le> bt_y (hd (numpad_buttons (demo_pad False)))"
proof -
  have "hd (numpad_buttons (demo_pad False)) \<in> set (numpad_buttons (demo_pad False))"
    by (rule hd_in_set) (simp add: numpad_buttons_def numpad_keys_def)
  from UINumpad_inside [OF this] show ?thesis by (simp add: demo_pad_fields)
qed

text \<open>On a pad that takes the keyboard, the two codes of a digit key each call back once,
  with that digit.\<close>

theorem UINumpad_digit_keys:
  assumes "np_allow_keyboard np" "d < 10"
  shows "callbacks (UINumpad_onKeyDown (48 + d) (UINumpad_add np new_UINumpad)) =
      [np_callback np (nat_to_string 10 d)] \<and>
    callbacks (UINumpad_onKeyDown (96 + d) (UINumpad_add np new_UINumpad)) =
      [np_callback np (nat_to_string 10 d)]"
proof -
  have add: "ub_buttons (fold UIButton_add bs ub) = ub_buttons ub @ map UIButton_prepare bs"
    for bs :: "'a button list" and ub
    by (induction bs arbitrary: ub) (simp_all add: ub.items_add)
  have key: "bt_accept_keycode (UIButton_prepare (numpad_button np r k key)) = snd key"
    "bt_callback (UIButton_prepare (numpad_button np r k key)) = np_callback np (fst key)" for r k key
    using assms(1) by (simp_all add: UIButton_prepare_def numpad_button_def Let_def)
  have b: "ub_buttons (up_button (UINumpad_add np new_UINumpad)) =
      map UIButton_prepare (numpad_buttons np)"
    by (simp add: UINumpad_add_def new_UINumpad_def new_UIButton_def add)
  have keys: "callbacks (UINumpad_onKeyDown k (UINumpad_add np new_UINumpad)) =
      callbacks (concat (map (\<lambda>b. concat (map (\<lambda>x. if x = k
        then [PreventDefault, Callback (bt_callback b), Repaint] else []) (bt_accept_keycode b))) (map UIButton_prepare (numpad_buttons np))))" for k
    by (simp only: UINumpad_onKeyDown_def UIButton_onKeyDown_def b)
  have "d \<in> {0, 1, 2, 3, 4, 5, 6, 7, 8, 9}" using assms(2) by auto
  then show ?thesis unfolding keys
    by (elim insertE emptyE)
      (simp_all add: numpad_buttons_def numpad_keys_def trquote_def key nat_to_string_small)
qed

theorem UINumpad_digit_keys_witness:
  "callbacks (UINumpad_onKeyDown 55 (UINumpad_add (demo_pad True) new_UINumpad)) = [js ''7'']"
  using UINumpad_digit_keys [of "demo_pad True" 7] by (simp add: demo_pad_fields nat_to_string_small)

section \<open>The palette\<close>

lemma collect_res_Inr: "collect_res (map Inr xs) = Inr xs"
  by (induction xs) simp_all

lemma palet_color_4:
  assumes "r < 4" "g < 4" "b < 4"
  shows "\<exists>bg fg. palet_color 4 r g b = Inr (bg, fg) \<and> length bg = 7 \<and>
    HexToRGB bg = RGBArray (Some (85 * int r)) (Some (85 * int g)) (Some (85 * int b)) \<and>
    getForegroundColor bg = Inr fg"
proof -
  have m: "real x * (255 / (real 4 - 1)) = real_of_int (85 * int x)" for x by simp
  have f: "\<lfloor>real x * (255 / (real 4 - 1))\<rfloor> = 85 * int x" for x unfolding m by (rule floor_of_int)
  have "85 * int r \<le> 255" "85 * int g \<le> 255" "85 * int b \<le> 255" using assms by simp_all
  then obtain h where h: "RGBToHex (85 * int r) (85 * int g) (85 * int b) = Inr h" "length h = 6"
    "HexToRGB (35 # h) = RGBArray (Some (85 * int r)) (Some (85 * int g)) (Some (85 * int b))"
    using rgb_hex_read [of "85 * int r" "85 * int g" "85 * int b"] by auto
  obtain z where z: "RGBToHex 0 0 0 = Inr z" using rgb_hex_read [of 0 0 0] by auto
  obtain w where w: "RGBToHex 255 255 255 = Inr w" using rgb_hex_read [of 255 255 255] by auto
  define s where "s = 85 * int r + 85 * int g + 85 * int b"
  have s: "(real r * (255 / (real 4 - 1)) + real g * (255 / (real 4 - 1)) + real b * (255 / (real 4 - 1))) / 3 > 100
      \<longleftrightarrow> 300 < s"
  proof -
    have third: "(real_of_int n / 3 > 100) = (300 < n)" for n by linarith
    show ?thesis unfolding m s_def of_int_add [symmetric] by (rule third)
  qed
  have "palet_color 4 r g b = Inr (35 # h, 35 # (if 300 < s then z else w))"
    unfolding palet_color_def Let_def f s h(1) using z w by simp
  moreover have "getForegroundColor (35 # h) = Inr (35 # (if 300 < s then z else w))"
  proof -
    have "(real_of_int s / 3 > 100) = (300 < s)" by linarith
    then show ?thesis
      using z w by (simp add: getForegroundColor_def Let_def h(3) s_def)
  qed
  ultimately show ?thesis using h by auto
qed

definition cube_index :: "(nat \<times> nat \<times> nat) list" where
  "cube_index = concat (map (\<lambda>r. concat (map (\<lambda>g. map (\<lambda>b. (r, g, b)) [0..<4]) [0..<4])) [0..<4])"

lemma cube_index_unfold:
  "cube_index = concat (map (\<lambda>r. concat (map (\<lambda>g. map (\<lambda>b. (r, g, b)) [0, 1, 2, 3]) [0, 1, 2, 3]))
     [0, 1, 2, 3])"
  by (simp add: cube_index_def upt_rec)

lemma cube_index_facts: "length cube_index = 64" "distinct cube_index"
  "list_all (\<lambda>(r, g, b). r < 4 \<and> g < 4 \<and> b < 4) cube_index"
  unfolding cube_index_unfold by simp_all

text \<open>The palette of a colour chooser consists of the 64 colours whose components are
  multiples of 85, all different, in the order of red, green and blue, each with the foreground
  that \<open>getForegroundColor\<close> gives it, and at the end the transparent white.\<close>

theorem generateColorPalet_cube:
  "\<exists>vs. generateColorPalet 4 = Inr vs \<and> length vs = 65 \<and> distinct (map fst vs) \<and>
     map (HexToRGB \<circ> fst) (butlast vs) =
       map (\<lambda>(r, g, b). RGBArray (Some (85 * int r)) (Some (85 * int g)) (Some (85 * int b))) cube_index \<and>
     map (getForegroundColor \<circ> fst) (butlast vs) = map (Inr \<circ> snd) (butlast vs) \<and>
     last vs = (js ''#ffffff00'', js ''#000000'')"
proof -
  define F where "F = (\<lambda>(r, g, b). case palet_color 4 r g b of Inr v \<Rightarrow> v | Inl _ \<Rightarrow> ([], []))"
  have F: "palet_color 4 r g b = Inr (F (r, g, b)) \<and> length (fst (F (r, g, b))) = 7 \<and>
      HexToRGB (fst (F (r, g, b))) =
        RGBArray (Some (85 * int r)) (Some (85 * int g)) (Some (85 * int b)) \<and>
      getForegroundColor (fst (F (r, g, b))) = Inr (snd (F (r, g, b)))"
    if "(r, g, b) \<in> set cube_index" for r g b
  proof -
    have "r < 4 \<and> g < 4 \<and> b < 4" using that cube_index_facts(3) by (auto simp: list_all_iff)
    then show ?thesis using palet_color_4 [of r g b] by (auto simp: F_def)
  qed
  define us where "us = map F cube_index"
  have "concat (map (\<lambda>r. concat (map (\<lambda>g. map (\<lambda>b. palet_color 4 r g b) [0..<4]) [0..<4])) [0..<4])
      = map (\<lambda>(r, g, b). palet_color 4 r g b) cube_index"
    unfolding cube_index_def by (simp add: map_concat comp_def)
  also have "\<dots> = map Inr us"
    unfolding us_def map_map by (rule map_cong [OF refl]) (use F in auto)
  finally have gen: "generateColorPalet 4 = Inr (us @ [(js ''#ffffff00'', js ''#000000'')])"
    unfolding generateColorPalet_def by (simp only: collect_res_Inr sum.case)
  have hex: "map (HexToRGB \<circ> fst) us =
      map (\<lambda>(r, g, b). RGBArray (Some (85 * int r)) (Some (85 * int g)) (Some (85 * int b))) cube_index"
    unfolding us_def map_map by (rule map_cong [OF refl]) (use F in auto)
  have "inj_on (\<lambda>(r, g, b). RGBArray (Some (85 * int r)) (Some (85 * int g)) (Some (85 * int b)))
      (set cube_index)"
    by (auto simp: inj_on_def)
  then have "distinct (map (HexToRGB \<circ> fst) us)"
    unfolding hex using cube_index_facts(2) by (simp add: distinct_map)
  then have "distinct (map fst us)" by (simp add: distinct_map inj_on_def) 
  moreover have "length bg = 7" if "bg \<in> set (map fst us)" for bg
    using that F by (auto simp: us_def)
  then have "js ''#ffffff00'' \<notin> set (map fst us)" by fastforce
  moreover have "map (getForegroundColor \<circ> fst) us = map (Inr \<circ> snd) us"
    unfolding us_def map_map by (rule map_cong [OF refl]) (use F in auto)
  ultimately show ?thesis unfolding gen
    using hex cube_index_facts(1)
    by (intro exI [of _ "us @ [(js ''#ffffff00'', js ''#000000'')]"]) (simp add: us_def)
qed
section \<open>Drawing is well nested\<close>

lemma UINumpad_render_nested: "draws_nested (\<lambda>c. snd (UINumpad_render tm st c))"
  using UIButton_render_nested [of tm "up_button st"] by (simp add: UINumpad_render_def split_beta Let_def)

lemma UIColorPalet_render_nested: "draws_nested (\<lambda>c. snd (UIColorPalet_render tm st c))"
proof -
  have "draws_nested (\<lambda>c. snd (let (l, c1) = UIList_render tm (cp_list p) c in (p\<lparr>cp_list := l\<rparr>, c1)))" for p
    using UIList_render_nested [of tm "cp_list p"] by (simp add: split_beta Let_def)
  from for_each_nested [of "\<lambda>i p c. let (l, c1) = UIList_render tm (cp_list p) c in (p\<lparr>cp_list := l\<rparr>, c1)",
      OF this, of 0 "ucp_colorpalets st"]
  show ?thesis by (simp add: UIColorPalet_render_def split_beta Let_def)
qed

end
