(* ===== verification/Dialogs.thy ===== *)
theory Dialogs
  imports ScrollLists TextInputs
begin

text \<open>
  \<open>UIDialog\<close> (\<open>canvasuijs/uidialog.js\<close>): a window with a title, two buttons and, depending on
  its type, a text input or a list. Each dialog owns an instance of the classes it shows; the
  handlers forward to them. The callback of a dialog is recorded as an event and runs after the
  handler.
\<close>

section \<open>UIDialog\<close>

text \<open>The callback of a dialog gets the name of the button. The dialog's input and list have no
  callback of their own; the title's and the input's other options are the constants of the
  source. A dialog is named by its index in \<open>dialogs\<close>.\<close>

datatype dialog_call = CallOk | CallCancel
datatype dialog_type = DlgTextInput | DlgEuro | DlgConformation | DlgAlert | DlgSelect | DlgOther

record dialog =
  dg_type :: dialog_type
  dg_name :: "jsstring option"
  dg_alpha_x :: real
  dg_alpha_y :: real
  dg_alpha_width :: real
  dg_alpha_height :: real
  dg_width :: real
  dg_height :: real
  dg_border_width :: "real option"
  dg_background :: "jsstring list"
  dg_foreground :: "jsstring option"
  dg_displaytext :: "jsstring option"
  dg_text :: "jsstring option"
  dg_list_data :: "scroll_item list option"
  dg_button :: "dialog_call button uibutton"
  dg_textinput :: uitextinput
  dg_list :: uiscrolllist
  dg_title :: uitext

record uidialog =
  ud_pressed_char :: pressed_key
  ud_dialogs :: "dialog list"

definition new_UIDialog :: uidialog where
  "new_UIDialog = \<lparr>ud_pressed_char = new_pressed_key, ud_dialogs = []\<rparr>"

definition dialog_button ::
  "dialog \<Rightarrow> jsstring \<Rightarrow> nat \<Rightarrow> jsstring list \<Rightarrow> jsstring \<Rightarrow> jsstring \<Rightarrow> real option \<Rightarrow> real \<Rightarrow> real \<Rightarrow>
     dialog_call \<Rightarrow> dialog_call button" where
  "dialog_button d txt key bg border hover bw left width call =
     \<lparr>bt_x = dg_alpha_x d + dg_alpha_width d / 2 + dg_width d / 2 - left,
      bt_y = dg_alpha_y d + dg_alpha_height d / 2 + dg_height d / 2 - 50,
      bt_width = width, bt_height = 45, bt_background = bg, bt_foreground = js ''#000000'',
      bt_border = Some border, bt_hover_border = Some hover, bt_border_width = bw,
      bt_border_radius = Some 20, bt_font_size = Some 18, bt_grd_type = Some Vertical,
      bt_align = None, bt_displaytext = Some (DText (trquote txt)), bt_accept_keycode = [key],
      bt_select_file = False, bt_selector_opened = False, bt_active = False, bt_name = None,
      bt_callback = call\<rparr>"

text \<open>The characters of the labels outside ASCII: U+1F5D9 (two units) and U+2713.\<close>

definition cancel_button :: "dialog \<Rightarrow> dialog_call button" where
  "cancel_button d = dialog_button d ([55357, 56793] @ js '' Cancel'') 27
     [js ''#ff948c'', js ''#ff1100''] (js ''#ff948c'') (js ''#ff1100'') (dg_border_width d) 155 150
     CallCancel"

definition ok_button :: "dialog \<Rightarrow> real \<Rightarrow> dialog_call button" where
  "ok_button d left = dialog_button d ([10003] @ js '' OK'') 13 [js ''#39f500'', js ''#32d600'']
     (js ''#39f500'') (js ''#32d600'') (Some 3) left 100 CallOk"

definition dialog_input :: "dialog \<Rightarrow> input_type \<Rightarrow> textinput" where
  "dialog_input d ty =
     \<lparr>tb_x = dg_alpha_x d + dg_alpha_width d / 2 - 100,
      tb_y = dg_alpha_y d + dg_alpha_height d / 2 - 25, tb_width = 200, tb_height = 50,
      tb_background = [js ''#ffffff''], tb_foreground = Some (js ''#000000''),
      tb_border = Some (js ''#000000''), tb_border_width = Some 3, tb_border_radius = None,
      tb_font_size = Some 30, tb_grd_type = None, tb_align = Some AlignLeft, tb_center_x = None,
      tb_center_y = None, tb_angle = None, tb_label = None,
      tb_displaytext = (case dg_text d of None \<Rightarrow> [] | Some s \<Rightarrow> s), tb_highlight = False,
      tb_main_highlight = None, tb_active = None, tb_name = Some (js ''input''),
      ti_type = ty, ti_always_active = False, ti_mouseDown = False,
      ti_always_show_cursor = False, ti_cursorPos = 0, ti_show_cursor = False,
      ti_milliseconds = 0, ti_has_callback = False\<rparr>"

definition dialog_title :: "dialog \<Rightarrow> real \<Rightarrow> real \<Rightarrow> textelem" where
  "dialog_title d x y =
     \<lparr>tx_x = x, tx_y = y, tx_width = None, tx_height = None, tx_font_size = Some 30,
      tx_border = None, tx_border_width = None, tx_background = None, tx_center_x = None,
      tx_center_y = None, tx_angle = None, tx_displaytext = dg_displaytext d, tx_active = None,
      tx_name = None\<rparr>"

definition dialog_list :: "dialog \<Rightarrow> scrolllist" where
  "dialog_list d =
     \<lparr>sl_x = dg_alpha_x d + dg_alpha_width d / 2 - dg_width d / 2 + 20,
      sl_y = dg_alpha_y d + dg_alpha_height d / 2 - dg_height d / 2 + 40,
      sl_width = dg_width d - 40, sl_height = dg_height d - 120, sl_pagescrollbuttonheight = 35,
      sl_scrollbarwidth = 30, sl_border_width = 3, sl_border_radius = None,
      sl_border = Some (js ''#000000''), sl_hover_border = Some (js ''#A9A9A9''),
      sl_background = [js ''#ffffff''], sl_foreground = js ''#000000'',
      sl_scrollbarbackground = Some (js ''#A9A9A9''), sl_grd_type = None, sl_font_size = None,
      sl_item_height = 30, sl_item_font_size = 25,
      sl_item_selectedBackground = Some (js ''#00ffff''), sl_name = Some (js ''menuList''),
      sl_callback = False, sl_selectedID = None, sl_listitem = new_UIListItem,
      sl_arrowbutton = new_UIArrowButton, sl_scrollposition = 0, sl_list = [],
      sl_max_scrolllist_items = 0, sl_scrollbarsize = NaN, sl_scrollbar_y = NaN,
      sl_mousedown_scrollbar_y = None\<rparr>"

text \<open>\<open>add\<close> makes the parts of the dialog anew; \<open>now\<close> is the time.\<close>

definition dialog_parts :: "int \<Rightarrow> dialog \<Rightarrow> dialog" where
  "dialog_parts now d =
     (let cx = dg_alpha_x d + dg_alpha_width d / 2; cy = dg_alpha_y d + dg_alpha_height d / 2;
          data = (case dg_list_data d of None \<Rightarrow> [] | Some xs \<Rightarrow> xs);
          ub = (if dg_type d \<noteq> DlgAlert
                then UIButton_add (ok_button d 270) (UIButton_add (cancel_button d) new_UIButton)
                else UIButton_add (ok_button d 105) new_UIButton);
          ti = (if dg_type d = DlgTextInput
                then UITextInput_add now (dialog_input d TypeText) new_UITextInput
                else if dg_type d = DlgEuro
                then UITextInput_add now (dialog_input d TypeEuro) new_UITextInput
                else new_UITextInput);
          title = (case dg_type d of
                     DlgTextInput \<Rightarrow> UIText_add (dialog_title d (cx - 100) (cy - 50)) new_UIText
                   | DlgEuro \<Rightarrow> UIText_add (dialog_title d (cx - 100) (cy - 50)) new_UIText
                   | DlgConformation \<Rightarrow> UIText_add (dialog_title d (cx - 100) (cy - 55)) new_UIText
                   | DlgAlert \<Rightarrow> UIText_add (dialog_title d (cx - 100) (cy - 55)) new_UIText
                   | DlgSelect \<Rightarrow> UIText_add (dialog_title d (cx - dg_width d / 2 + 20)
                                   (cy - dg_height d / 2 + 20)) new_UIText
                   | DlgOther \<Rightarrow> new_UIText);
          sl = (if dg_type d = DlgSelect
                then fst (sl_call 0 (sl_setList (Some data))
                       (UIScrollList_add (dialog_list d) new_UIScrollList))
                else new_UIScrollList)
      in d\<lparr>dg_list_data := Some data, dg_button := ub, dg_textinput := ti, dg_title := title,
           dg_list := sl\<rparr>)"

definition UIDialog_add :: "int \<Rightarrow> dialog \<Rightarrow> uidialog \<Rightarrow> uidialog" where
  "UIDialog_add now d st = st\<lparr>ud_dialogs := ud_dialogs st @ [dialog_parts now d]\<rparr>"

text \<open>The closures of a dialog. A method of \<open>undefined\<close> throws.\<close>

definition UIDialog_removeSelf :: "nat \<Rightarrow> uidialog \<Rightarrow> uidialog" where
  "UIDialog_removeSelf i st = st\<lparr>ud_dialogs := splice_out (ud_dialogs st) i\<rparr>"

definition dialog_setList :: "scroll_item list option \<Rightarrow> dialog \<Rightarrow> dialog res" where
  "dialog_setList data d =
     (if dg_type d = DlgSelect then
        (if UIScrollList_find (Some (js ''menuList'')) (dg_list d) = None then Inl TypeError
         else Inr (d\<lparr>dg_list_data := data,
                     dg_list := fst (sl_call 0 (sl_setList data) (dg_list d))\<rparr>))
      else Inr d)"

definition dialog_getList :: "dialog \<Rightarrow> textinput option res" where
  "dialog_getList d =
     (if dg_type d = DlgSelect then
        (case UITextInput_find (Some (js ''menuList'')) (dg_textinput d) of
           None \<Rightarrow> Inl TypeError
         | Some t \<Rightarrow> Inl TypeError)
      else Inr None)"

definition dialog_getSelectedItemIndex :: "dialog \<Rightarrow> nat option res" where
  "dialog_getSelectedItemIndex d =
     (if dg_type d = DlgSelect then
        (case UIScrollList_find (Some (js ''menuList'')) (dg_list d) of
           None \<Rightarrow> Inl TypeError
         | Some l \<Rightarrow> Inr (sl_getSelectedItemIndex l))
      else Inr None)"

definition dialog_getText :: "dialog \<Rightarrow> jsstring option" where
  "dialog_getText d =
     map_option UITextInput_getText (UITextInput_find (Some (js ''input'')) (dg_textinput d))"

definition UIDialog_recreateDialog ::
  "int \<Rightarrow> real \<Rightarrow> real \<Rightarrow> real \<Rightarrow> real \<Rightarrow> uidialog \<Rightarrow> uidialog res" where
  "UIDialog_recreateDialog now alpha_x alpha_y alpha_width alpha_height st =
     (case ud_dialogs st of
        [] \<Rightarrow> Inr st
      | d # _ \<Rightarrow>
          (let d1 = d\<lparr>dg_alpha_x := alpha_x, dg_alpha_y := alpha_y,
                       dg_alpha_width := alpha_width, dg_alpha_height := alpha_height\<rparr>;
               input = (dg_type d = DlgTextInput \<or> dg_type d = DlgEuro)
           in if input \<and> dialog_getText d = None then Inl TypeError
              else Inr (UIDialog_add now (if input then d1\<lparr>dg_text := dialog_getText d\<rparr> else d1)
                     (st\<lparr>ud_dialogs := []\<rparr>))))"

definition UIDialog_render_one ::
  "text_measure \<Rightarrow> int \<Rightarrow> nat \<Rightarrow> dialog \<Rightarrow> ctx \<Rightarrow> (dialog \<times> ctx) option" where
  "UIDialog_render_one tm now i d c =
     (let left = dg_alpha_x d + dg_alpha_width d / 2 - dg_width d / 2;
          c1 = emit [SetFill (PColor (js ''#636363d8'')),
                     FillRect (dg_alpha_x d) (dg_alpha_y d) (dg_alpha_width d) (dg_alpha_height d),
                     SetFill (opt_color (js_get (dg_background d) 0)),
                     FillRect left (dg_alpha_y d + dg_alpha_height d / 2 - dg_height d / 2)
                       (dg_width d) (dg_height d),
                     SetFill (opt_color (dg_foreground d)),
                     FillRect left (dg_alpha_y d + dg_alpha_height d / 2 + dg_height d / 2 - 55)
                       (dg_width d) 55] c;
          (ub, c2) = UIButton_render tm (dg_button d) c1;
          (ti, c3) = UITextInput_render tm now (dg_textinput d) c2;
          c4 = UIText_render tm (dg_title d) c3
      in case UIScrollList_render tm (dg_list d) c4 of
           None \<Rightarrow> None
         | Some (sl, c5) \<Rightarrow> Some (d\<lparr>dg_button := ub, dg_textinput := ti, dg_list := sl\<rparr>, c5))"

definition UIDialog_render ::
  "text_measure \<Rightarrow> int \<Rightarrow> uidialog \<Rightarrow> ctx \<Rightarrow> (uidialog \<times> ctx) option" where
  "UIDialog_render tm now st c =
     (case for_each_opt (UIDialog_render_one tm now) 0 (ud_dialogs st) c of
        None \<Rightarrow> None
      | Some (ds, c') \<Rightarrow> Some (st\<lparr>ud_dialogs := ds\<rparr>, c'))"

text \<open>Events: a call of dialog \<open>i\<close>'s callback, or a repaint of one of its parts. The input and the
  list of a dialog have no callbacks.\<close>

definition part_events :: "'p ui_event list \<Rightarrow> 'q ui_event list" where
  "part_events evs = concat (map (\<lambda>e. case e of
       Repaint \<Rightarrow> [Repaint] | PreventDefault \<Rightarrow> [PreventDefault] | SetCursor s \<Rightarrow> [SetCursor s]
     | OpenUpload \<Rightarrow> [OpenUpload] | _ \<Rightarrow> []) evs)"

definition dialog_events :: "nat \<Rightarrow> dialog_call ui_event list \<Rightarrow> (nat \<times> dialog_call) ui_event list" where
  "dialog_events i = map (map_ui_event (Pair i))"

definition UIDialog_click_one ::
  "real \<Rightarrow> real \<Rightarrow> nat \<Rightarrow> dialog \<Rightarrow> (nat \<times> dialog_call) ui_event list \<Rightarrow>
     dialog \<times> (nat \<times> dialog_call) ui_event list" where
  "UIDialog_click_one x y i d evs =
     (let (ub, es) = UIButton_onClick x y (dg_button d);
          (sl, ls) = UIScrollList_onClick x y (dg_list d)
      in (d\<lparr>dg_button := ub, dg_list := sl\<rparr>, evs @ dialog_events i es @ part_events ls))"

definition UIDialog_onClick ::
  "real \<Rightarrow> real \<Rightarrow> uidialog \<Rightarrow> uidialog \<times> (nat \<times> dialog_call) ui_event list" where
  "UIDialog_onClick x y st =
     (let (ds, evs) = for_each (UIDialog_click_one x y) 0 (ud_dialogs st) []
      in (st\<lparr>ud_dialogs := ds\<rparr>, evs))"

definition UIDialog_down_one ::
  "text_measure \<Rightarrow> real \<Rightarrow> real \<Rightarrow> nat \<Rightarrow> dialog \<Rightarrow> ctx \<times> (nat \<times> dialog_call) ui_event list \<Rightarrow>
     dialog \<times> ctx \<times> (nat \<times> dialog_call) ui_event list" where
  "UIDialog_down_one tm x y i d = (\<lambda>(c, evs).
     (let (ub, es) = UIButton_onMouseDown x y (dg_button d);
          (ti, c1, ts) = UITextInput_onMouseDown tm x y (dg_textinput d) c;
          (sl, ls) = UIScrollList_onMouseDown x y (dg_list d)
      in (d\<lparr>dg_button := ub, dg_textinput := ti, dg_list := sl\<rparr>, c1,
          evs @ dialog_events i es @ part_events ts @ part_events ls)))"

definition UIDialog_onMouseDown ::
  "text_measure \<Rightarrow> real \<Rightarrow> real \<Rightarrow> uidialog \<Rightarrow> ctx \<Rightarrow>
     uidialog \<times> ctx \<times> (nat \<times> dialog_call) ui_event list" where
  "UIDialog_onMouseDown tm x y st c =
     (let (ds, c', evs) = for_each (UIDialog_down_one tm x y) 0 (ud_dialogs st) (c, [])
      in (st\<lparr>ud_dialogs := ds\<rparr>, c', evs))"

definition UIDialog_onMouseUp ::
  "real \<Rightarrow> real \<Rightarrow> uidialog \<Rightarrow> uidialog \<times> (nat \<times> dialog_call) ui_event list" where
  "UIDialog_onMouseUp x y st =
     (st\<lparr>ud_dialogs := map (\<lambda>d. d
        \<lparr>dg_button := fst (UIButton_onMouseUp x y (dg_button d) :: _ \<times> dialog_call ui_event list),
         dg_list := fst (UIScrollList_onMouseUp x y (dg_list d))\<rparr>) (ud_dialogs st)\<rparr>, [])"

definition UIDialog_move_one ::
  "real \<Rightarrow> real \<Rightarrow> nat \<Rightarrow> dialog \<Rightarrow> (nat \<times> dialog_call) ui_event list \<Rightarrow>
     dialog \<times> (nat \<times> dialog_call) ui_event list" where
  "UIDialog_move_one x y i d evs =
     (let (ub, es) = UIButton_onMouseMove x y (dg_button d);
          (ti, ts) = UITextInput_onMouseMove x y (dg_textinput d);
          (sl, ls) = UIScrollList_onMouseMove x y (dg_list d)
      in (d\<lparr>dg_button := ub, dg_textinput := ti, dg_list := sl\<rparr>,
          evs @ dialog_events i es @ part_events ts @ part_events ls))"

definition UIDialog_onMouseMove ::
  "real \<Rightarrow> real \<Rightarrow> uidialog \<Rightarrow> uidialog \<times> (nat \<times> dialog_call) ui_event list" where
  "UIDialog_onMouseMove x y st =
     (let (ds, evs) = for_each (UIDialog_move_one x y) 0 (ud_dialogs st) []
      in (st\<lparr>ud_dialogs := ds\<rparr>, evs))"

definition UIDialog_key_one ::
  "nat \<Rightarrow> nat \<Rightarrow> dialog \<Rightarrow> (nat \<times> dialog_call) ui_event list \<Rightarrow>
     dialog \<times> (nat \<times> dialog_call) ui_event list" where
  "UIDialog_key_one keyCode i d evs =
     (let es = UIButton_onKeyDown keyCode (dg_button d);
          (ti, ts) = UITextInput_onKeyDown keyCode (dg_textinput d)
      in (d\<lparr>dg_textinput := ti\<rparr>, evs @ dialog_events i es @ part_events ts))"

definition UIDialog_onKeyDown ::
  "nat \<Rightarrow> uidialog \<Rightarrow> uidialog \<times> (nat \<times> dialog_call) ui_event list" where
  "UIDialog_onKeyDown keyCode st =
     (let (ds, evs) = for_each (UIDialog_key_one keyCode) 0 (ud_dialogs st) []
      in (st\<lparr>ud_dialogs := ds\<rparr>, evs))"

definition UIDialog_onKeyUp :: "nat \<Rightarrow> uidialog \<Rightarrow> uidialog" where
  "UIDialog_onKeyUp keyCode st =
     st\<lparr>ud_dialogs := map (\<lambda>d. d\<lparr>dg_textinput := UITextInput_onKeyUp keyCode (dg_textinput d)\<rparr>)
        (ud_dialogs st)\<rparr>"

definition UIDialog_find :: "jsstring option \<Rightarrow> uidialog \<Rightarrow> dialog option" where
  "UIDialog_find name st = List.find (\<lambda>d. dg_name d = name) (ud_dialogs st)"

definition UIDialog_clear :: "uidialog \<Rightarrow> uidialog" where
  "UIDialog_clear st = st\<lparr>ud_dialogs := []\<rparr>"

interpretation ud: named_collection ud_dialogs dg_name "dialog_parts now" "UIDialog_add now"
    UIDialog_find UIDialog_clear for now
  by unfold_locales
    (simp_all add: UIDialog_add_def dialog_parts_def UIDialog_find_def UIDialog_clear_def Let_def)
section \<open>The buttons of a dialog\<close>

lemma dialog_parts_buttons:
  "dg_button (dialog_parts now d) =
     \<lparr>ub_hovering_on = None,
      ub_buttons = map UIButton_prepare
        (if dg_type d \<noteq> DlgAlert then [cancel_button d, ok_button d 270] else [ok_button d 105]),
      ub_mouse_down_on = None\<rparr>"
  by (simp add: dialog_parts_def Let_def UIButton_add_def new_UIButton_def)

lemma dialog_buttons_prepared:
  "UIButton_prepare (cancel_button d) = (cancel_button d)\<lparr>bt_active := True\<rparr>"
  "UIButton_prepare (ok_button d l) = (ok_button d l)\<lparr>bt_active := True\<rparr>"
  by (simp_all add: UIButton_prepare_def cancel_button_def ok_button_def dialog_button_def)

lemma dialog_button_fields:
  "bt_accept_keycode (cancel_button d) = [27]" "bt_accept_keycode (ok_button d l) = [13]"
  "bt_select_file (cancel_button d) = False" "bt_select_file (ok_button d l) = False"
  "bt_callback (cancel_button d) = CallCancel" "bt_callback (ok_button d l) = CallOk"
  by (simp_all add: cancel_button_def ok_button_def dialog_button_def)

lemma callbacks_part [simp]: "callbacks (part_events evs) = []"
  by (induction evs) (auto simp: part_events_def split: ui_event.splits)

lemma callbacks_dialog [simp]:
  "callbacks (dialog_events i evs) = map (Pair i) (callbacks evs)"
  by (induction evs) (auto simp: dialog_events_def callbacks_def split: ui_event.splits)

lemma ud_dialogs_build: "ud_dialogs (fold (UIDialog_add now) ds st) = ud_dialogs st @ map (dialog_parts now) ds"
  by (induction ds arbitrary: st) (simp_all add: ud.items_add)

text \<open>Enter confirms and Escape cancels every dialog that is open, an alert only has the former;
  no other key calls a dialog back, whatever is typed into its input.\<close>

theorem UIDialog_keys:
  "callbacks (snd (UIDialog_onKeyDown k (fold (UIDialog_add now) ds new_UIDialog))) =
     concat (map (\<lambda>(i, d). if k = 13 then [(i, CallOk)]
                          else if k = 27 \<and> dg_type d \<noteq> DlgAlert then [(i, CallCancel)] else [])
       (enumerate 0 ds))"
proof -
  have one: "callbacks (snd (UIDialog_key_one k i d evs)) =
      callbacks evs @ map (Pair i) (callbacks (UIButton_onKeyDown k (dg_button d)))" for i d evs
    by (simp add: UIDialog_key_one_def split_beta Let_def)
  have keys: "callbacks (UIButton_onKeyDown k (dg_button (dialog_parts now d))) =
      (if k = 13 then [CallOk] else if k = 27 \<and> dg_type d \<noteq> DlgAlert then [CallCancel] else [])" for d
    by (cases "dg_type d = DlgAlert")
      (simp_all add: dialog_parts_buttons dialog_buttons_prepared UIButton_onKeyDown_def
        dialog_button_fields)
  have "enumerate n (map (dialog_parts now) ds) = map (\<lambda>(i, d). (i, dialog_parts now d)) (enumerate n ds)"
    for n by (induction ds arbitrary: n) simp_all
  then show ?thesis
    by (simp add: UIDialog_onKeyDown_def split_beta Let_def for_each_callbacks [of _
          "\<lambda>i d. map (Pair i) (callbacks (UIButton_onKeyDown k (dg_button d)))", OF one]
        ud_dialogs_build new_UIDialog_def keys comp_def)
      (rule arg_cong [of _ _ concat], rule map_cong [OF refl], auto)
qed

text \<open>Where the buttons are.\<close>

definition ok_left :: "dialog \<Rightarrow> real" where
  "ok_left d = (if dg_type d = DlgAlert then 105 else 270)"

definition in_button :: "dialog \<Rightarrow> real \<Rightarrow> real \<Rightarrow> real \<Rightarrow> real \<Rightarrow> bool" where
  "in_button d left width x y =
     (let right = dg_alpha_x d + dg_alpha_width d / 2 + dg_width d / 2;
          bottom = dg_alpha_y d + dg_alpha_height d / 2 + dg_height d / 2
      in in_box (right - left) (bottom - 50) (right - left + width) (bottom - 50 + 45) x y)"

text \<open>A press and a click at the same place of a dialog confirm it inside the OK button, 100 wide,
  cancel it inside the Cancel button, 150 wide, and do nothing anywhere else: the two never
  overlap, and an alert has no Cancel.\<close>

theorem UIDialog_click:
  "callbacks (snd (UIDialog_onClick x y
       (fst (UIDialog_onMouseDown tm x y (UIDialog_add now d new_UIDialog) c)))) =
     (if in_button d (ok_left d) 100 x y then [(0, CallOk)]
      else if dg_type d \<noteq> DlgAlert \<and> in_button d 155 150 x y then [(0, CallCancel)] else [])"
proof -
  let ?d = "dialog_parts now d"
  let ?b = "fst (UIButton_onMouseDown x y (dg_button ?d))"
  have hits: "button_hit x y ((cancel_button d)\<lparr>bt_active := True\<rparr>) = in_button d 155 150 x y"
    "button_hit x y ((ok_button d l)\<lparr>bt_active := True\<rparr>) = in_button d l 100 x y" for l
    by (auto simp: button_hit_def in_button_def cancel_button_def ok_button_def dialog_button_def
        Let_def in_box_def)
  have apart: "in_button d 270 100 x y \<Longrightarrow> \<not> in_button d 155 150 x y"
    by (simp add: in_button_def in_box_def Let_def)
  have click: "callbacks (snd (UIButton_onClick x y ?b)) =
      (if in_button d (ok_left d) 100 x y then [CallOk]
       else if dg_type d \<noteq> DlgAlert \<and> in_button d 155 150 x y then [CallCancel] else [])"
    using apart
    by (cases "dg_type d = DlgAlert")
      (simp_all add: click_events dialog_parts_buttons dialog_buttons_prepared
        UIButton_onMouseDown_def clicked_def hits dialog_button_fields ok_left_def)
  have st: "ud_dialogs (fst (UIDialog_onMouseDown tm x y (UIDialog_add now d new_UIDialog) c)) =
      [fst (UIDialog_down_one tm x y 0 ?d (c, []))]"
    by (simp add: UIDialog_onMouseDown_def UIDialog_add_def new_UIDialog_def split_beta Let_def)
  have "dg_button (fst (UIDialog_down_one tm x y 0 ?d (c, []))) = ?b"
    by (simp add: UIDialog_down_one_def split_beta Let_def)
  then show ?thesis
    by (simp add: UIDialog_onClick_def st UIDialog_click_one_def split_beta Let_def click)
qed

section \<open>The text and the list of a dialog\<close>

lemma dialog_parts_text:
  assumes "dg_type d \<in> {DlgTextInput, DlgEuro}"
  shows "dialog_getText (dialog_parts now d) = Some (case dg_text d of None \<Rightarrow> [] | Some s \<Rightarrow> s)"
proof -
  have n: "tb_name (dialog_input d ty) = Some (js ''input'')"
    "tb_displaytext (dialog_input d ty) = (case dg_text d of None \<Rightarrow> [] | Some s \<Rightarrow> s)" for ty
    by (simp_all add: dialog_input_def)
  have "UITextInput_find (Some (js ''input'')) (UITextInput_add now (dialog_input d ty) new_UITextInput)
      = Some (UITextInput_prepare now (dialog_input d ty))" for ty
    using un.find_add_same [of "dialog_input d ty" new_UITextInput now]
    by (simp only: n) (simp add: UITextInput_find_def new_UITextInput_def)
  moreover have "tb_displaytext (UITextInput_prepare now t) = tb_displaytext t" for t
    by (simp add: UITextInput_prepare_def UITextBox_prepare_def Let_def)
  ultimately show ?thesis using assms
    by (auto simp: dialog_parts_def Let_def dialog_getText_def UITextInput_getText_def n)
qed

text \<open>When the view is resized, the first dialog is made anew at its new place and keeps what was
  typed into it; the other dialogs are gone.\<close>

theorem UIDialog_recreate_keeps_text:
  assumes "ud_dialogs st = d # ds" "dg_type d \<in> {DlgTextInput, DlgEuro}" "dialog_getText d = Some t"
  shows "\<exists>st' d'. UIDialog_recreateDialog now x y w h st = Inr st' \<and> ud_dialogs st' = [d'] \<and>
    dialog_getText d' = Some t \<and> dg_type d' = dg_type d \<and> dg_name d' = dg_name d \<and>
    (dg_alpha_x d', dg_alpha_y d', dg_alpha_width d', dg_alpha_height d') = (x, y, w, h)"
proof -
  let ?d = "d\<lparr>dg_alpha_x := x, dg_alpha_y := y, dg_alpha_width := w, dg_alpha_height := h,
      dg_text := Some t\<rparr>"
  have "UIDialog_recreateDialog now x y w h st = Inr (UIDialog_add now ?d (st\<lparr>ud_dialogs := []\<rparr>))"
    using assms by (auto simp: UIDialog_recreateDialog_def Let_def)
  moreover have "dialog_getText (dialog_parts now ?d) = Some t"
    using dialog_parts_text [of ?d now] assms(2) by simp
  ultimately show ?thesis
    by (intro exI [of _ "UIDialog_add now ?d (st\<lparr>ud_dialogs := []\<rparr>)"]
        exI [of _ "dialog_parts now ?d"])
      (simp add: UIDialog_add_def dialog_parts_def Let_def)
qed

definition demo_dialog :: "dialog_type \<Rightarrow> dialog" where
  "demo_dialog ty =
     \<lparr>dg_type = ty, dg_name = None, dg_alpha_x = 0, dg_alpha_y = 0, dg_alpha_width = 800,
      dg_alpha_height = 600, dg_width = 400, dg_height = 300, dg_border_width = None,
      dg_background = [], dg_foreground = None, dg_displaytext = None, dg_text = None,
      dg_list_data = None, dg_button = new_UIButton, dg_textinput = new_UITextInput,
      dg_list = new_UIScrollList, dg_title = new_UIText\<rparr>"

theorem UIDialog_recreate_keeps_text_witness:
  "\<exists>st' d'. UIDialog_recreateDialog 0 5 5 100 100
      (UIDialog_add 0 ((demo_dialog DlgEuro)\<lparr>dg_text := Some (js ''12'')\<rparr>) new_UIDialog) = Inr st' \<and>
    ud_dialogs st' = [d'] \<and> dialog_getText d' = Some (js ''12'')"
proof -
  let ?d = "(demo_dialog DlgEuro)\<lparr>dg_text := Some (js ''12'')\<rparr>"
  have "ud_dialogs (UIDialog_add 0 ?d new_UIDialog) = [dialog_parts 0 ?d]"
    "dg_type (dialog_parts 0 ?d) \<in> {DlgTextInput, DlgEuro}"
    by (simp_all add: UIDialog_add_def new_UIDialog_def dialog_parts_def Let_def demo_dialog_def)
  moreover have "dialog_getText (dialog_parts 0 ?d) = Some (js ''12'')"
    by (subst dialog_parts_text) (simp_all add: demo_dialog_def)
  ultimately show ?thesis using UIDialog_recreate_keeps_text [of _ _ "[]" _ 0 5 5 100 100] by blast
qed

lemma update_keeps:
  assumes "\<And>l. f (update_one l) = f l"
  shows "map f (us_scrolllists ((UIScrollList_update ^^ n) st)) = map f (us_scrolllists st)"
  by (induction n) (simp_all add: UIScrollList_update_def comp_def assms)

lemma update_one_keeps [simp]: "sl_name (update_one l) = sl_name l" "sl_list (update_one l) = sl_list l"
  by (simp_all add: update_one_def Let_def split_beta)

lemma setList_keeps: "sl_name (fst (sl_setList (Some xs) l)) = sl_name l"
  "sl_list (fst (sl_setList (Some xs) l)) = xs"
  by (simp_all add: sl_setList_def Let_def split: option.splits)

lemma sl_call_setList:
  assumes "map sl_name (us_scrolllists st) = [n]"
  shows "map sl_name (us_scrolllists (fst (sl_call 0 (sl_setList (Some xs)) st))) = [n] \<and>
    map sl_list (us_scrolllists (fst (sl_call 0 (sl_setList (Some xs)) st))) = [xs]"
proof -
  obtain l where l: "us_scrolllists st = [l]" "sl_name l = n" using assms by auto
  show ?thesis using setList_keeps [of xs l]
    by (simp add: sl_call_def split_beta Let_def update_keeps [of sl_name] update_keeps [of sl_list] l)
qed

text \<open>The list of a dialog of type \<open>select\<close> can be set and its selection read, but reading the list
  itself always throws: \<open>getList\<close> looks for it among the text inputs.\<close>

theorem dialog_getList_throws:
  "dialog_getList (dialog_parts now (d\<lparr>dg_type := DlgSelect\<rparr>)) = Inl TypeError \<and>
   (\<exists>i. dialog_getSelectedItemIndex (dialog_parts now (d\<lparr>dg_type := DlgSelect\<rparr>)) = Inr i) \<and>
   (\<exists>d'. dialog_setList (Some xs) (dialog_parts now (d\<lparr>dg_type := DlgSelect\<rparr>)) = Inr d' \<and>
      map sl_list (us_scrolllists (dg_list d')) = [xs])"
proof -
  let ?d = "d\<lparr>dg_type := DlgSelect\<rparr>"
  let ?p = "dialog_parts now ?d"
  have ty: "dg_type ?p = DlgSelect" by (simp add: dialog_parts_def Let_def)
  have "map sl_name (us_scrolllists (UIScrollList_add (dialog_list ?d) new_UIScrollList)) =
      [Some (js ''menuList'')]"
    by (simp add: UIScrollList_add_def new_UIScrollList_def UIScrollList_prepare_def dialog_list_def
        UIScrollList_update_def Let_def)
  then have n: "map sl_name (us_scrolllists (dg_list ?p)) = [Some (js ''menuList'')]"
    using sl_call_setList by (auto simp: dialog_parts_def Let_def)
  then obtain l where l: "us_scrolllists (dg_list ?p) = [l]" "sl_name l = Some (js ''menuList'')"
    by auto
  then have "UIScrollList_find (Some (js ''menuList'')) (dg_list ?p) = Some l"
    by (simp add: UIScrollList_find_def)
  then show ?thesis using sl_call_setList [OF n, of xs] ty
    by (auto simp: dialog_getList_def dialog_getSelectedItemIndex_def dialog_setList_def
        split: option.splits)
qed
section \<open>Drawing\<close>

lemma UIDialog_one_nested:
  assumes "UIDialog_render_one tm now i d c = Some (d', c')"
  shows "\<exists>cs. c' = c @ cs \<and> well_nested cs"
proof -
  define left where "left = dg_alpha_x d + dg_alpha_width d / 2 - dg_width d / 2"
  define pre where "pre = [SetFill (PColor (js ''#636363d8'')),
                     FillRect (dg_alpha_x d) (dg_alpha_y d) (dg_alpha_width d) (dg_alpha_height d),
                     SetFill (opt_color (js_get (dg_background d) 0)),
                     FillRect left (dg_alpha_y d + dg_alpha_height d / 2 - dg_height d / 2)
                       (dg_width d) (dg_height d),
                     SetFill (opt_color (dg_foreground d)),
                     FillRect left (dg_alpha_y d + dg_alpha_height d / 2 + dg_height d / 2 - 55)
                       (dg_width d) 55]"
  define c4 where "c4 = UIText_render tm (dg_title d) (snd (UITextInput_render tm now (dg_textinput d)
      (snd (UIButton_render tm (dg_button d) (emit pre c)))))"
  have "draws_nested (emit pre)" by (rule draws_nested_emit) (simp add: pre_def)
  from draws_nested_comp [OF draws_nested_comp [OF draws_nested_comp [OF this UIButton_render_nested]
        UITextInput_render_nested] UIText_render_nested]
  obtain cs where cs: "c4 = c @ cs" "well_nested cs" unfolding c4_def draws_nested_def by blast
  obtain sl where "UIScrollList_render tm (dg_list d) c4 = Some (sl, c')"
    using assms unfolding UIDialog_render_one_def Let_def left_def [symmetric] pre_def [symmetric]
    by (auto simp: c4_def split_beta split: option.splits)
  from UIScrollList_render_nested [OF this] show ?thesis
    using cs by (auto intro: well_nested_append)
qed

lemma UIDialog_render_nested:
  assumes "UIDialog_render tm now st c = Some (st', c')"
  shows "\<exists>cs. c' = c @ cs \<and> well_nested cs"
proof -
  obtain ds where "for_each_opt (UIDialog_render_one tm now) 0 (ud_dialogs st) c = Some (ds, c')"
    using assms by (auto simp: UIDialog_render_def split: option.splits)
  then show ?thesis
    by (rule for_each_opt_state [where R = "\<lambda>c d. \<exists>cs. d = c @ cs \<and> well_nested cs", rotated 3])
      (auto intro: well_nested_append UIDialog_one_nested)
qed

end
