(* ===== verification/DragNDrop.thy ===== *)
theory DragNDrop
  imports Shapes "HOL-Library.Multiset"
begin

text \<open>
  \<open>UIDragNDrop\<close> (\<open>canvasuijs/uidragndrop.js\<close>): boxes, circles, images and texts that can be
  selected, moved, resized and turned inside a container.

  An element is drawn by the class of its type, whose array is replaced by the element before it
  is drawn; the options of all types are fields of the record \<open>dragndrop\<close>. The functions that the
  options hold are named by \<open>dd_callback\<close>; \<open>isSelected\<close> and \<open>callback\<close> are called without a test
  and are taken to be given, \<open>addToUndoable\<close> may be missing. \<open>this.canvas\<close> is the selector of the
  canvas, a string, so that its \<open>width\<close> and \<open>height\<close> are \<open>undefined\<close>: a container without a size
  has the size NaN, which is \<open>None\<close>, and every comparison with it is false. The distance of the
  grid is not zero. The functions \<open>setText\<close> and \<open>getText\<close> that an inner class adds to the
  element are not modelled.
\<close>

section \<open>State\<close>

datatype dd_type = DdCircle | DdImage | DdText | DdBox

datatype dd_action = NoAction | NResize | SResize | EResize | WResize | NEResize | NWResize
  | SEResize | SWResize | Crosshair

datatype vertical_line = NoVertical | BackLine | FrontLine
datatype horizontal_line = NoHorizontal | TopLine | BottomLine

record 'cb dragndrop =
  dd_type :: dd_type
  dd_x :: real
  dd_y :: real
  dd_width :: real
  dd_height :: real
  dd_angle :: real
  dd_center_x :: real
  dd_center_y :: real
  dd_contain_x :: real
  dd_contain_y :: real
  dd_contain_width :: "real option"
  dd_contain_height :: "real option"
  dd_grid_active :: bool
  dd_distance :: real
  dd_active :: bool
  dd_editable :: bool
  dd_edit_mode :: bool
  dd_selected :: bool
  dd_resizeable :: bool
  dd_moveable :: bool
  dd_highlight :: bool
  dd_changed :: bool
  dd_mouse_down_on :: bool
  dd_mouse_down_action :: dd_action
  dd_resizedirection :: dd_action
  dd_drawVerticalLine :: vertical_line
  dd_drawHorizontalLine :: horizontal_line
  dd_group_id :: "jsstring option"
  dd_has_undo :: bool
  dd_callback :: 'cb
  dd_background :: "jsstring list"
  dd_foreground :: "jsstring option"
  dd_border :: "jsstring option"
  dd_border_width :: "real option"
  dd_border_radius :: "real option"
  dd_font_size :: "real option"
  dd_grd_type :: "grd_type option"
  dd_align :: "align option"
  dd_label :: "jsstring option"
  dd_displaytext :: "dtext option"
  dd_main_highlight :: "jsstring option"
  dd_image :: "dom_image option"
  dd_image_hash :: "jsstring option"
  dd_image_data :: "jsstring option"

record 'cb uidragndrop =
  uy_textbox :: "unit uitextbox"
  uy_circle :: uicircle
  uy_image :: uiimage
  uy_text :: uitext
  uy_dragndrops :: "'cb dragndrop list"
  uy_mouse_down :: bool
  uy_mouse_down_x :: "real option"
  uy_mouse_down_y :: "real option"

definition new_UIDragNDrop :: "'cb uidragndrop" where
  "new_UIDragNDrop = \<lparr>uy_textbox = new_UITextBox, uy_circle = new_UICircle, uy_image = new_UIImage,
     uy_text = new_UIText, uy_dragndrops = [], uy_mouse_down = False, uy_mouse_down_x = None,
     uy_mouse_down_y = None\<rparr>"

definition box_size :: real where "box_size = 23"
definition box_size_half :: real where "box_size_half = box_size / 2"

text \<open>The calls of an element's functions: \<open>callback(displaytext)\<close>, \<open>isSelected(dragndrop)\<close> or
  \<open>isSelected(null)\<close>, and \<open>addToUndoable()\<close>.\<close>

datatype 'cb dd_call = DdClick 'cb "dtext option" | DdSelected 'cb bool | DdUndo 'cb

section \<open>The inner classes\<close>

definition as_circle :: "'cb dragndrop \<Rightarrow> circle" where
  "as_circle d =
     \<lparr>ci_x = dd_x d, ci_y = dd_y d, ci_width = dd_width d, ci_height = dd_height d,
      ci_background = dd_background d, ci_foreground = dd_foreground d, ci_border = dd_border d,
      ci_border_width = dd_border_width d, ci_font_size = dd_font_size d,
      ci_grd_type = dd_grd_type d, ci_align = dd_align d, ci_center_x = Some (dd_center_x d),
      ci_center_y = Some (dd_center_y d), ci_angle = Some (dd_angle d),
      ci_displaytext = dd_displaytext d, ci_highlight = dd_highlight d,
      ci_main_highlight = dd_main_highlight d, ci_active = Some (dd_active d)\<rparr>"

definition as_image :: "'cb dragndrop \<Rightarrow> imageelem" where
  "as_image d =
     \<lparr>ie_x = dd_x d, ie_y = dd_y d, ie_width = dd_width d, ie_height = dd_height d,
      ie_foreground = dd_foreground d, ie_border = dd_border d,
      ie_border_width = dd_border_width d, ie_font_size = dd_font_size d, ie_align = dd_align d,
      ie_center_x = Some (dd_center_x d), ie_center_y = Some (dd_center_y d),
      ie_angle = Some (dd_angle d), ie_displaytext = dd_displaytext d,
      ie_highlight = dd_highlight d, ie_main_highlight = dd_main_highlight d,
      ie_active = Some (dd_active d), ie_image = dd_image d, ie_image_hash = dd_image_hash d,
      ie_image_data = dd_image_data d\<rparr>"

definition as_text :: "'cb dragndrop \<Rightarrow> textelem" where
  "as_text d =
     \<lparr>tx_x = dd_x d, tx_y = dd_y d, tx_width = Some (dd_width d), tx_height = Some (dd_height d),
      tx_font_size = dd_font_size d, tx_border = dd_border d,
      tx_border_width = dd_border_width d, tx_background = Some (dd_background d),
      tx_center_x = Some (dd_center_x d), tx_center_y = Some (dd_center_y d),
      tx_angle = Some (dd_angle d), tx_displaytext = map_option dtext_string (dd_displaytext d),
      tx_active = Some (dd_active d), tx_name = None\<rparr>"

definition as_textbox :: "'cb dragndrop \<Rightarrow> textbox" where
  "as_textbox d =
     \<lparr>tb_x = dd_x d, tb_y = dd_y d, tb_width = dd_width d, tb_height = dd_height d,
      tb_background = dd_background d, tb_foreground = dd_foreground d, tb_border = dd_border d,
      tb_border_width = dd_border_width d, tb_border_radius = dd_border_radius d,
      tb_font_size = dd_font_size d, tb_grd_type = dd_grd_type d, tb_align = dd_align d,
      tb_center_x = Some (dd_center_x d), tb_center_y = Some (dd_center_y d),
      tb_angle = Some (dd_angle d), tb_label = dd_label d,
      tb_displaytext = (case dd_displaytext d of None \<Rightarrow> [] | Some t \<Rightarrow> dtext_string t),
      tb_highlight = dd_highlight d, tb_main_highlight = dd_main_highlight d,
      tb_active = Some (dd_active d), tb_name = None\<rparr>"

definition with_image :: "imageelem \<Rightarrow> 'cb dragndrop \<Rightarrow> 'cb dragndrop" where
  "with_image e d = d\<lparr>dd_image := ie_image e, dd_image_hash := ie_image_hash e,
     dd_image_data := ie_image_data e, dd_displaytext := ie_displaytext e\<rparr>"

text \<open>Adding an element to the class of its type; the element comes back with what that \<open>add\<close>
  changed in it. The store holds the images of the table plan.\<close>

definition inner_add ::
  "(jsstring \<Rightarrow> jsstring) \<Rightarrow> 'cb dragndrop \<Rightarrow> 'cb uidragndrop \<times> image_store \<Rightarrow>
     'cb dragndrop \<times> 'cb uidragndrop \<times> image_store" where
  "inner_add sha d = (\<lambda>(st, store).
     (case dd_type d of
        DdCircle \<Rightarrow> (d, st\<lparr>uy_circle := UICircle_add (as_circle d) (uy_circle st)\<rparr>, store)
      | DdImage \<Rightarrow>
          (let (im, store') = UIImage_add sha (as_image d) (uy_image st, store)
           in (with_image (last (um_images im)) d, st\<lparr>uy_image := im\<rparr>, store'))
      | DdText \<Rightarrow> (d, st\<lparr>uy_text := UIText_add (as_text d) (uy_text st)\<rparr>, store)
      | DdBox \<Rightarrow> (d\<lparr>dd_displaytext := Some (DText (tb_displaytext (as_textbox d)))\<rparr>,
                  st\<lparr>uy_textbox := UITextBox_add (as_textbox d) (uy_textbox st)\<rparr>, store)))"

definition inner_clear :: "'cb uidragndrop \<Rightarrow> 'cb uidragndrop" where
  "inner_clear st = st\<lparr>uy_circle := UICircle_clear (uy_circle st),
     uy_image := UIImage_clear (uy_image st), uy_text := UIText_clear (uy_text st),
     uy_textbox := UITextBox_clear (uy_textbox st)\<rparr>"

section \<open>add\<close>

text \<open>The options \<open>angle\<close>, \<open>contain_x\<close>, \<open>contain_y\<close> and \<open>active\<close>, \<open>editable\<close> of the record are
  those that \<open>add\<close> has completed with their defaults 0, 0, 0, true and false.\<close>

definition dd_prepare :: "'cb dragndrop \<Rightarrow> 'cb dragndrop" where
  "dd_prepare d = d\<lparr>dd_drawVerticalLine := NoVertical, dd_drawHorizontalLine := NoHorizontal,
     dd_highlight := False, dd_selected := False, dd_resizeable := False,
     dd_center_x := dd_x d + dd_width d / 2, dd_center_y := dd_y d + dd_height d / 2,
     dd_resizedirection := NoAction, dd_changed := False, dd_mouse_down_action := NoAction,
     dd_moveable := False, dd_mouse_down_on := False\<rparr>"

definition UIDragNDrop_add ::
  "(jsstring \<Rightarrow> jsstring) \<Rightarrow> 'cb dragndrop \<Rightarrow> 'cb uidragndrop \<times> image_store \<Rightarrow>
     'cb uidragndrop \<times> image_store" where
  "UIDragNDrop_add sha d s =
     (let (d', st, store) = inner_add sha (dd_prepare d) s
      in (st\<lparr>uy_dragndrops := uy_dragndrops st @ [d']\<rparr>, store))"

text \<open>The closures of an element.\<close>

definition dd_setActive :: "bool \<Rightarrow> 'cb dragndrop \<Rightarrow> 'cb dragndrop" where
  "dd_setActive state d = d\<lparr>dd_active := state\<rparr>"

definition dd_setHighlight :: "bool \<Rightarrow> 'cb dragndrop \<Rightarrow> 'cb dragndrop" where
  "dd_setHighlight state d = d\<lparr>dd_highlight := state\<rparr>"

definition dd_setMainHighlight :: "jsstring option \<Rightarrow> 'cb dragndrop \<Rightarrow> 'cb dragndrop" where
  "dd_setMainHighlight number d = d\<lparr>dd_main_highlight := number\<rparr>"

definition changeHandler :: "'cb dragndrop \<Rightarrow> 'cb dragndrop \<times> 'cb dd_call ui_event list" where
  "changeHandler d =
     (if dd_changed d
      then (d\<lparr>dd_changed := False\<rparr>,
            if dd_has_undo d then [Callback (DdUndo (dd_callback d))] else [])
      else (d, []))"

definition dd_change :: "'cb dragndrop \<Rightarrow> 'cb dragndrop \<times> 'cb dd_call ui_event list" where
  "dd_change d = (if dd_has_undo d then changeHandler (d\<lparr>dd_changed := True\<rparr>) else (d, []))"

section \<open>Corners\<close>

definition calculateUnsortedCornerPositions ::
  "real \<Rightarrow> real \<Rightarrow> real \<Rightarrow> real \<Rightarrow> real \<Rightarrow> real list \<times> real list" where
  "calculateUnsortedCornerPositions x y width height angle =
     (let center_x = x + width / 2; center_y = y + height / 2;
          r = (\<lambda>px py. rotate center_x center_y px py angle)
      in ([fst (r x y), fst (r (x + width) y), fst (r (x + width) (y + height)),
           fst (r x (y + height))],
          [snd (r (x + width) (y + height)), snd (r x (y + height)), snd (r x y),
           snd (r (x + width) y)]))"

text \<open>The program never passes \<open>sort_x\<close> or \<open>sort_y\<close>, so both lists are sorted.\<close>

definition calculateCornerPositions ::
  "real \<Rightarrow> real \<Rightarrow> real \<Rightarrow> real \<Rightarrow> real \<Rightarrow> real list \<times> real list" where
  "calculateCornerPositions x y width height angle =
     (let (xs, ys) = calculateUnsortedCornerPositions x y width height angle in (sort xs, sort ys))"

definition snapAngle :: "real \<Rightarrow> real" where
  "snapAngle angle =
     (let new_angle = \<bar>angle\<bar> - 45 * real_of_int \<lfloor>\<bar>angle\<bar> / 45\<rfloor>
      in if new_angle \<ge> 40 then - real_of_int (math_round (\<bar>angle\<bar> + 45 - new_angle))
         else if new_angle \<le> 5 then - real_of_int (math_round (\<bar>angle\<bar> - new_angle))
         else angle)"

text \<open>\<open>array_move\<close> with indices inside the array.\<close>

definition array_move :: "'a list \<Rightarrow> nat \<Rightarrow> nat \<Rightarrow> 'a list" where
  "array_move arr old_index new_index =
     (if old_index < length arr
      then splice_in (splice_out arr old_index) new_index (arr ! old_index) else arr)"

text \<open>\<open>Math.atan2(y, x)\<close>; the two zeros are one.\<close>

definition js_atan2 :: "real \<Rightarrow> real \<Rightarrow> real" where
  "js_atan2 y x =
     (if 0 < x then arctan (y / x)
      else if x < 0 then (if 0 \<le> y then arctan (y / x) + pi else arctan (y / x) - pi)
      else if 0 < y then pi / 2 else if y < 0 then - pi / 2 else 0)"

text \<open>A bound that may be NaN.\<close>

definition le_bound :: "real \<Rightarrow> real \<Rightarrow> real option \<Rightarrow> bool" where
  "le_bound v start len = (case len of None \<Rightarrow> False | Some l \<Rightarrow> v \<le> start + l)"

definition less_bound :: "real \<Rightarrow> real \<Rightarrow> real option \<Rightarrow> bool" where
  "less_bound v start len = (case len of None \<Rightarrow> False | Some l \<Rightarrow> v < start + l)"

definition beyond_bound :: "real \<Rightarrow> real \<Rightarrow> real option \<Rightarrow> bool" where
  "beyond_bound v start len = (case len of None \<Rightarrow> False | Some l \<Rightarrow> v > start + l)"

definition corners_contained :: "'cb dragndrop \<Rightarrow> real list \<Rightarrow> real list \<Rightarrow> bool" where
  "corners_contained d x_corners y_corners \<longleftrightarrow>
     le_bound (y_corners ! 3) (dd_contain_y d) (dd_contain_height d) \<and>
     y_corners ! 0 \<ge> dd_contain_y d \<and> x_corners ! 0 \<ge> dd_contain_x d \<and>
     le_bound (x_corners ! 3) (dd_contain_x d) (dd_contain_width d)"
section \<open>Drawing\<close>

definition draw_shape ::
  "(jsstring \<Rightarrow> jsstring) \<Rightarrow> text_measure \<Rightarrow> nat \<Rightarrow> 'cb dragndrop \<Rightarrow>
     'cb uidragndrop \<times> image_store \<times> ctx \<Rightarrow> 'cb dragndrop \<times> 'cb uidragndrop \<times> image_store \<times> ctx" where
  "draw_shape sha tm j d = (\<lambda>(st, store, c).
     (case dd_type d of
        DdCircle \<Rightarrow>
          (let (uc, c') = UICircle_render tm ((uy_circle st)\<lparr>uc_circles := [as_circle d]\<rparr>) c
           in (d\<lparr>dd_displaytext := ci_displaytext (hd (uc_circles uc))\<rparr>, st\<lparr>uy_circle := uc\<rparr>, store, c'))
      | DdImage \<Rightarrow>
          (let (im, store', c') =
                 UIImage_render sha tm ((uy_image st)\<lparr>um_images := [as_image d]\<rparr>) (store, c)
           in (with_image (hd (um_images im)) d, st\<lparr>uy_image := im\<rparr>, store', c'))
      | DdText \<Rightarrow>
          (let ut = (uy_text st)\<lparr>ut_texts := [as_text d]\<rparr>
           in (d, st\<lparr>uy_text := ut\<rparr>, store, UIText_render tm ut c))
      | DdBox \<Rightarrow>
          (let ux = (uy_textbox st)\<lparr>ux_textboxes := [as_textbox d]\<rparr>
           in (d, st\<lparr>uy_textbox := ux\<rparr>, store, UITextBox_render tm ux c))))"

definition handle_rect :: "real \<Rightarrow> real \<Rightarrow> gfx" where
  "handle_rect x y = RectPath (x - box_size_half) (y - box_size_half) box_size box_size"

definition frame_handles :: "'cb dragndrop \<Rightarrow> gfx list" where
  "frame_handles d =
     (let x = dd_x d; y = dd_y d; w = dd_width d; h = dd_height d
      in [Save] @ turn_about (Some (dd_center_x d)) (Some (dd_center_y d)) (Some (dd_angle d))
         @ [SetStroke (PColor (js ''black'')), SetLineWidth (Some 2),
            SetFill (PColor (js ''black'')), BeginPath, RectPath x y w h, Stroke,
            SetStroke (PColor (js ''white'')), SetLineWidth (Some 1), BeginPath,
            handle_rect x y, handle_rect x (y + h), handle_rect (x + w) y,
            handle_rect (x + w) (y + h), Fill, Stroke, BeginPath,
            Arc (x + w / 2) (y - box_size_half * 3) box_size_half 0 (2 * pi), Fill, BeginPath,
            SetStroke (PColor (js ''black'')), MoveTo (x + w / 2) y,
            LineTo (x + w / 2) (y - box_size_half * 3), Stroke,
            SetStroke (PColor (js ''white'')), BeginPath]
         @ (if w > 2 * box_size
            then [handle_rect (x + w / 2) y, handle_rect (x + w / 2) (y + h)] else [])
         @ (if h > 2 * box_size
            then [handle_rect x (y + h / 2), handle_rect (x + w) (y + h / 2)] else [])
         @ [Fill, Stroke, Restore])"

text \<open>A line to a coordinate that is NaN is not drawn.\<close>

definition grid_line :: "gfx list \<Rightarrow> gfx list" where
  "grid_line path = [BeginPath] @ path @ [Stroke, Fill]"

definition grid_lines :: "'cb dragndrop \<Rightarrow> gfx list" where
  "grid_lines d =
     (let (xs, ys) = calculateCornerPositions (dd_x d) (dd_y d) (dd_width d) (dd_height d) (dd_angle d);
          vertical = (\<lambda>x. grid_line (MoveTo x (dd_contain_y d) # (case dd_contain_height d of
              Some h \<Rightarrow> [LineTo x (dd_contain_y d + h)] | None \<Rightarrow> [])));
          horizontal = (\<lambda>y. grid_line (MoveTo (dd_contain_x d) y # (case dd_contain_width d of
              Some w \<Rightarrow> [LineTo (dd_contain_x d + w) y] | None \<Rightarrow> [])))
      in [SetStroke (PColor (js ''red'')), SetLineWidth (Some 2)]
         @ (case dd_drawVerticalLine d of
              BackLine \<Rightarrow> vertical (xs ! 3) | FrontLine \<Rightarrow> vertical (xs ! 0) | NoVertical \<Rightarrow> [])
         @ (case dd_drawHorizontalLine d of
              TopLine \<Rightarrow> horizontal (ys ! 0) | BottomLine \<Rightarrow> horizontal (ys ! 3)
            | NoHorizontal \<Rightarrow> []))"

text \<open>\<open>clearRect\<close> gets the undefined size of the canvas and clears nothing.\<close>

definition draw_selection :: "'cb dragndrop \<Rightarrow> gfx list" where
  "draw_selection d =
     (if dd_active d \<and> dd_editable d \<and> dd_selected d
      then frame_handles d @ (if dd_moveable d then grid_lines d else []) else [])"

definition UIDragNDrop_render ::
  "(jsstring \<Rightarrow> jsstring) \<Rightarrow> text_measure \<Rightarrow> 'cb uidragndrop \<times> image_store \<times> ctx \<Rightarrow>
     'cb uidragndrop \<times> image_store \<times> ctx" where
  "UIDragNDrop_render sha tm = (\<lambda>(st, store, c).
     (let (ds, st', store', c') = for_each (draw_shape sha tm) 0 (uy_dragndrops st) (st, store, c)
      in (st'\<lparr>uy_dragndrops := ds\<rparr>, store', emit (concat (map draw_selection ds)) c')))"

section \<open>Operations on all elements\<close>

definition UIDragNDrop_setEditable :: "bool \<Rightarrow> 'cb uidragndrop \<Rightarrow> 'cb uidragndrop" where
  "UIDragNDrop_setEditable state st =
     st\<lparr>uy_dragndrops := map (\<lambda>d. let d1 = d\<lparr>dd_editable := state\<rparr>
        in if \<not> state then d1\<lparr>dd_selected := False\<rparr> else d1) (uy_dragndrops st)\<rparr>"

definition UIDragNDrop_setGrid :: "bool \<Rightarrow> real \<Rightarrow> 'cb uidragndrop \<Rightarrow> 'cb uidragndrop" where
  "UIDragNDrop_setGrid state distance st =
     st\<lparr>uy_dragndrops := map (\<lambda>d. d\<lparr>dd_grid_active := state, dd_distance := distance\<rparr>)
        (uy_dragndrops st)\<rparr>"

definition UIDragNDrop_setActiveByGroupID ::
  "jsstring option \<Rightarrow> bool \<Rightarrow> 'cb uidragndrop \<Rightarrow> 'cb uidragndrop" where
  "UIDragNDrop_setActiveByGroupID group_id state st =
     st\<lparr>uy_dragndrops := map (\<lambda>d. if dd_group_id d = group_id then d\<lparr>dd_active := state\<rparr> else d)
        (uy_dragndrops st)\<rparr>"

definition UIDragNDrop_clear :: "'cb uidragndrop \<Rightarrow> 'cb uidragndrop" where
  "UIDragNDrop_clear st = (inner_clear st)\<lparr>uy_dragndrops := [], uy_mouse_down := False,
     uy_mouse_down_x := None, uy_mouse_down_y := None\<rparr>"

definition UIDragNDrop_find :: "jsstring option \<Rightarrow> 'cb uidragndrop \<Rightarrow> 'cb dragndrop option" where
  "UIDragNDrop_find name st = None"

text \<open>\<open>deleteSelected\<close> visits the indices that the array had at the start, as far as they still
  exist: after a deletion the next element has moved to the index just visited and is skipped.
  For every element left, a copy of the deleted one is added to an inner class, a text to the
  text boxes. A deleted element without \<open>addToUndoable\<close> throws.\<close>

definition inner_copy ::
  "(jsstring \<Rightarrow> jsstring) \<Rightarrow> 'cb dragndrop \<Rightarrow> 'cb uidragndrop \<times> image_store \<Rightarrow> 'cb uidragndrop \<times> image_store"
  where
  "inner_copy sha d s = snd (inner_add sha d s)"

fun delete_from ::
  "(jsstring \<Rightarrow> jsstring) \<Rightarrow> jsstring option \<Rightarrow> nat list \<Rightarrow> 'cb uidragndrop \<times> image_store \<Rightarrow>
     ('cb uidragndrop \<times> image_store) \<times> 'cb dd_call ui_event list \<times> js_error option" where
  "delete_from sha group_id [] s = (s, [], None)"
| "delete_from sha group_id (i # ks) (st, store) =
     (case js_get (uy_dragndrops st) i of
        None \<Rightarrow> delete_from sha group_id ks (st, store)
      | Some d \<Rightarrow>
          (if dd_active d \<and> dd_selected d \<and> dd_group_id d = group_id then
             (let st1 = st\<lparr>uy_dragndrops := splice_out (uy_dragndrops st) i\<rparr>;
                  copy = d\<lparr>dd_type := (if dd_type d = DdText then DdBox else dd_type d)\<rparr>;
                  s2 = fold (\<lambda>_. inner_copy sha copy) (uy_dragndrops st1) (st1, store)
              in if dd_has_undo d then
                   (let (s3, evs, err) = delete_from sha group_id ks s2
                    in (s3, Callback (DdUndo (dd_callback d)) # evs, err))
                 else (s2, [], Some TypeError))
           else delete_from sha group_id ks (st, store)))"

definition UIDragNDrop_deleteSelected ::
  "(jsstring \<Rightarrow> jsstring) \<Rightarrow> jsstring option \<Rightarrow> 'cb uidragndrop \<times> image_store \<Rightarrow>
     ('cb uidragndrop \<times> image_store) \<times> 'cb dd_call ui_event list \<times> js_error option" where
  "UIDragNDrop_deleteSelected sha group_id = (\<lambda>(st, store).
     delete_from sha group_id [0..<length (uy_dragndrops st)] (inner_clear st, store))"

text \<open>\<open>replaceElementsByGropID\<close> puts copies into a new array: those of the other groups, then the
  list's. The inner classes get further copies, so what their \<open>add\<close> changes does not show in the
  new array.\<close>

definition UIDragNDrop_replaceElementsByGropID ::
  "(jsstring \<Rightarrow> jsstring) \<Rightarrow> jsstring option \<Rightarrow> 'cb dragndrop list \<Rightarrow> bool \<Rightarrow>
     'cb uidragndrop \<times> image_store \<Rightarrow> ('cb uidragndrop \<times> image_store) \<times> 'cb dd_call ui_event list" where
  "UIDragNDrop_replaceElementsByGropID sha group_id elementList active = (\<lambda>(st, store).
     (let kept = filter (\<lambda>d. dd_group_id d \<noteq> group_id) (uy_dragndrops st);
          added = map (\<lambda>d. if active then d\<lparr>dd_active := True\<rparr> else d) elementList;
          s1 = fold (inner_copy sha) (kept @ added) (inner_clear st, store);
          selected = filter dd_selected added;
          evs = map (\<lambda>d. Callback (DdSelected (dd_callback d) True)) selected
              @ (case kept @ added of
                   d # _ \<Rightarrow> if selected = [] then [Callback (DdSelected (dd_callback d) False)] else []
                 | [] \<Rightarrow> [])
      in ((fst s1\<lparr>uy_dragndrops := kept @ added\<rparr>, snd s1), evs)))"

definition UIDragNDrop_loadSaved ::
  "(jsstring \<Rightarrow> jsstring) \<Rightarrow> 'cb dragndrop list \<Rightarrow> 'cb uidragndrop \<times> image_store \<Rightarrow>
     'cb uidragndrop \<times> image_store" where
  "UIDragNDrop_loadSaved sha elementList = (\<lambda>(st, store).
     fold (UIDragNDrop_add sha) elementList (UIDragNDrop_clear st, store))"

section \<open>Mouse down\<close>

definition inside_local :: "'cb dragndrop \<Rightarrow> real \<Rightarrow> real \<Rightarrow> bool" where
  "inside_local d nx ny = in_box (dd_x d) (dd_y d) (dd_x d + dd_width d) (dd_y d + dd_height d) nx ny"

definition circle_hit :: "'cb dragndrop \<Rightarrow> real \<Rightarrow> real \<Rightarrow> bool" where
  "circle_hit d nx ny =
     (let mx = nx - dd_center_x d; my = ny - dd_center_y d;
          angle = js_atan2 mx my + pi / 2;
          a = dd_width d / 2; b = dd_height d / 2;
          radius = (a * b) / sqrt (a\<^sup>2 * (sin angle)\<^sup>2 + b\<^sup>2 * (cos angle)\<^sup>2);
          center_distance = \<bar>mx / cos angle\<bar>
      in center_distance < radius)"

definition dd_hit :: "'cb dragndrop \<Rightarrow> real \<Rightarrow> real \<Rightarrow> bool" where
  "dd_hit d x y =
     (let (nx, ny) = rotate (dd_center_x d) (dd_center_y d) x y (dd_angle d)
      in inside_local d nx ny \<and>
         (case dd_type d of DdCircle \<Rightarrow> circle_hit d nx ny | DdText \<Rightarrow> False | _ \<Rightarrow> True))"

text \<open>The centre is computed anew from the position and the size, as seen through the rotation
  about the old centre.\<close>

definition recentre :: "'cb dragndrop \<Rightarrow> 'cb dragndrop" where
  "recentre d =
     (let (cx, cy) = rotate (dd_center_x d) (dd_center_y d) (dd_x d + dd_width d / 2)
                       (dd_y d + dd_height d / 2) (- dd_angle d)
      in d\<lparr>dd_center_x := cx, dd_center_y := cy, dd_x := cx - dd_width d / 2,
           dd_y := cy - dd_height d / 2\<rparr>)"

definition press_hit :: "real \<Rightarrow> real \<Rightarrow> 'cb dragndrop \<Rightarrow> 'cb dragndrop" where
  "press_hit x y d = (if dd_active d \<and> dd_hit d x y then d\<lparr>dd_mouse_down_on := True\<rparr> else d)"

text \<open>The loop over the elements from the last to the first, that returns when it finds an element
  to resize or to select: what it has found is the flag.\<close>

fun down_select ::
  "real \<Rightarrow> real \<Rightarrow> nat \<Rightarrow> 'cb uidragndrop \<Rightarrow> 'cb uidragndrop \<times> 'cb dd_call ui_event list \<times> bool" where
  "down_select x y 0 st = (st, [], False)"
| "down_select x y (Suc i) st =
     (let ds = uy_dragndrops st; d = ds ! i; last_index = length ds - 1
      in if dd_active d \<and> dd_edit_mode d \<and> dd_editable d then
           (let (nx, ny) = rotate (dd_center_x d) (dd_center_y d) x y (dd_angle d);
                d1 = recentre d
            in if dd_resizeable d1 \<and> dd_editable d1 \<and> dd_selected d1 then
                 (let d2 = recentre (d1\<lparr>dd_mouse_down_action := dd_resizedirection d1\<rparr>)
                  in (st\<lparr>uy_mouse_down := True, uy_mouse_down_x := Some (x - dd_x d1),
                         uy_mouse_down_y := Some (y - dd_y d1),
                         uy_dragndrops := array_move (ds[i := d2]) i last_index\<rparr>, [], True))
               else
                 (let d2 = d1\<lparr>dd_mouse_down_action := NoAction\<rparr>
                  in if inside_local d2 nx ny then
                       (let d3 = d2\<lparr>dd_selected := True\<rparr>;
                            others = map (\<lambda>(j, e). if dd_group_id e = dd_group_id d3 \<and> j \<noteq> i
                              then e\<lparr>dd_selected := False\<rparr> else e) (enumerate 0 (ds[i := d3]))
                        in (st\<lparr>uy_mouse_down := True, uy_mouse_down_x := Some (x - dd_x d3),
                               uy_mouse_down_y := Some (y - dd_y d3),
                               uy_dragndrops := array_move others i last_index\<rparr>,
                            [Callback (DdSelected (dd_callback d3) True), Repaint], True))
                     else down_select x y i (st\<lparr>uy_dragndrops := ds[i := d2]\<rparr>)))
         else down_select x y i st)"

definition over_container :: "real \<Rightarrow> real \<Rightarrow> 'cb dragndrop \<Rightarrow> bool" where
  "over_container x y d \<longleftrightarrow> x > dd_contain_x d \<and> less_bound x (dd_contain_x d) (dd_contain_width d) \<and>
     y > dd_contain_y d \<and> less_bound y (dd_contain_y d) (dd_contain_height d)"

definition UIDragNDrop_onMouseDown ::
  "real \<Rightarrow> real \<Rightarrow> 'cb uidragndrop \<Rightarrow> 'cb uidragndrop \<times> 'cb dd_call ui_event list" where
  "UIDragNDrop_onMouseDown x y st =
     (let st1 = st\<lparr>uy_dragndrops := map (press_hit x y) (uy_dragndrops st)\<rparr>;
          (st2, evs, found) = down_select x y (length (uy_dragndrops st1)) st1
      in if found then (st2, evs)
         else
           (let deselected = (\<lambda>d. dd_active d \<and> over_container x y d)
            in (st2\<lparr>uy_dragndrops := map (\<lambda>d. if deselected d then d\<lparr>dd_selected := False\<rparr> else d)
                      (uy_dragndrops st2)\<rparr>,
                map (\<lambda>d. Callback (DdSelected (dd_callback d) False))
                  (filter deselected (rev (uy_dragndrops st2))) @ [Repaint])))"

section \<open>Mouse up\<close>

definition up_one ::
  "real \<Rightarrow> real \<Rightarrow> nat \<Rightarrow> 'cb dragndrop \<Rightarrow> 'cb dd_call ui_event list \<Rightarrow>
     'cb dragndrop \<times> 'cb dd_call ui_event list" where
  "up_one x y i d evs =
     (if dd_active d then
        (let (d1, changed) = changeHandler (recentre d);
             d2 = d1\<lparr>dd_mouse_down_action := NoAction\<rparr>;
             lines = (dd_drawHorizontalLine d2 \<noteq> NoHorizontal \<or> dd_drawVerticalLine d2 \<noteq> NoVertical);
             d3 = (if lines then d2\<lparr>dd_drawVerticalLine := NoVertical, dd_drawHorizontalLine := NoHorizontal\<rparr>
                   else d2);
             click = (dd_hit d3 x y \<and> dd_mouse_down_on d3)
         in (d3\<lparr>dd_mouse_down_on := False\<rparr>,
             evs @ changed @ (if lines then [Repaint] else [])
               @ (if click then [Callback (DdClick (dd_callback d3) (dd_displaytext d3))] else [])))
      else (d, evs))"

definition UIDragNDrop_onMouseUp ::
  "real \<Rightarrow> real \<Rightarrow> 'cb uidragndrop \<Rightarrow> 'cb uidragndrop \<times> 'cb dd_call ui_event list" where
  "UIDragNDrop_onMouseUp x y st =
     (let (ds, evs) = for_each (up_one x y) 0 (uy_dragndrops st) []
      in (st\<lparr>uy_dragndrops := ds, uy_mouse_down := False, uy_mouse_down_x := None,
             uy_mouse_down_y := None\<rparr>, evs))"

section \<open>Mouse move\<close>

fun action_cursor :: "dd_action \<Rightarrow> jsstring" where
  "action_cursor NoAction = []"
| "action_cursor NResize = js ''n-resize''"
| "action_cursor SResize = js ''s-resize''"
| "action_cursor EResize = js ''e-resize''"
| "action_cursor WResize = js ''w-resize''"
| "action_cursor NEResize = js ''ne-resize''"
| "action_cursor NWResize = js ''nw-resize''"
| "action_cursor SEResize = js ''se-resize''"
| "action_cursor SWResize = js ''sw-resize''"
| "action_cursor Crosshair = js ''crosshair''"

text \<open>The new position and size of an element whose edges follow the mouse; 25 is the least size.\<close>

definition resized :: "'cb dragndrop \<Rightarrow> real \<Rightarrow> real \<Rightarrow> 'cb dragndrop" where
  "resized d nx ny =
     (let act = dd_mouse_down_action d; least = box_size + 2;
          h1 = (if act \<in> {SResize, SEResize, SWResize}
                then (if ny - dd_y d \<le> least then least else ny - dd_y d) else dd_height d);
          w1 = (if act \<in> {EResize, NEResize, SEResize}
                then (if nx - dd_x d \<le> least then least else nx - dd_x d) else dd_width d);
          (y2, h2) = (if act \<in> {NResize, NEResize, NWResize}
                then (let h = dd_height d + (dd_y d - ny)
                      in if h \<le> least then (ny - (least - h), least) else (ny, h))
                else (dd_y d, h1));
          (x2, w2) = (if act \<in> {WResize, NWResize, SWResize}
                then (let w = dd_width d + (dd_x d - nx)
                      in if w \<le> least then (nx - (least - w), least) else (nx, w))
                else (dd_x d, w1))
      in d\<lparr>dd_x := x2, dd_y := y2, dd_width := w2, dd_height := h2\<rparr>)"

definition contained_at :: "'cb dragndrop \<Rightarrow> real \<Rightarrow> bool" where
  "contained_at d angle =
     (let (xs, ys) = calculateCornerPositions (dd_x d) (dd_y d) (dd_width d) (dd_height d) angle
      in corners_contained d xs ys)"

definition turned :: "real \<Rightarrow> real \<Rightarrow> 'cb dragndrop \<Rightarrow> 'cb dragndrop" where
  "turned x y d =
     (let result = js_atan2 (x - dd_center_x d) (y - dd_center_y d);
          angle = - 180 - (result * 180) / pi
      in if dd_grid_active d \<and> contained_at d (snapAngle angle) then d\<lparr>dd_angle := snapAngle angle\<rparr>
         else if contained_at d angle then d\<lparr>dd_angle := angle\<rparr>
         else d)"

definition resize_to :: "real \<Rightarrow> real \<Rightarrow> 'cb dragndrop \<Rightarrow> 'cb dragndrop" where
  "resize_to x y d =
     (let (nx, ny) = rotate (dd_center_x d) (dd_center_y d) x y (dd_angle d);
          d1 = recentre (resized d nx ny)
      in if contained_at d1 (dd_angle d1) then
           (let d2 = d1\<lparr>dd_changed := True\<rparr>
            in if dd_mouse_down_action d2 = Crosshair then turned x y d2 else d2)
         else d)"

text \<open>How far a coordinate is behind the last line of the grid.\<close>

definition grid_rest :: "real \<Rightarrow> real \<Rightarrow> real \<Rightarrow> real" where
  "grid_rest v start distance =
     ((v - start) / distance - real_of_int \<lfloor>(v - start) / distance\<rfloor>) * distance"

definition drag_to :: "real \<Rightarrow> real \<Rightarrow> 'cb dragndrop \<Rightarrow> 'cb dragndrop" where
  "drag_to px py d =
     (let (xs, ys) = calculateCornerPositions px py (dd_width d) (dd_height d) (dd_angle d);
          center_x = (xs ! 0 + xs ! 1 + xs ! 2 + xs ! 3) / 4;
          center_y = (ys ! 0 + ys ! 1 + ys ! 2 + ys ! 3) / 4;
          grid = (dd_grid_active d \<and> dd_moveable d);
          rx0 = grid_rest (xs ! 0) (dd_contain_x d) (dd_distance d);
          rx3 = grid_rest (xs ! 3) (dd_contain_x d) (dd_distance d);
          ry0 = grid_rest (ys ! 0) (dd_contain_y d) (dd_distance d);
          ry3 = grid_rest (ys ! 3) (dd_contain_y d) (dd_distance d);
          x1 = (if grid then (if rx0 \<le> rx3 then px - rx0 else px - rx3) else px);
          y1 = (if grid then (if ry0 \<le> ry3 then py - ry0 else py - ry3) else py);
          x2 = (if xs ! 0 < dd_contain_x d
                then center_x - xs ! 0 - dd_width d / 2 + dd_contain_x d else x1);
          x3 = (if beyond_bound (xs ! 3) (dd_contain_x d) (dd_contain_width d)
                then dd_contain_x d - (xs ! 3 - center_x - dd_width d / 2)
                     + the (dd_contain_width d) - dd_width d else x2);
          y2 = (if ys ! 0 < dd_contain_y d
                then center_y - ys ! 0 - dd_height d / 2 + dd_contain_y d else y1);
          y3 = (if beyond_bound (ys ! 3) (dd_contain_y d) (dd_contain_height d)
                then dd_contain_y d - (ys ! 3 - center_y - dd_height d / 2)
                     + the (dd_contain_height d) - dd_height d else y2)
      in d\<lparr>dd_drawVerticalLine := (if grid then (if rx0 \<le> rx3 then FrontLine else BackLine) else NoVertical),
           dd_drawHorizontalLine := (if grid then (if ry0 \<le> ry3 then TopLine else BottomLine) else NoHorizontal),
           dd_x := x3, dd_y := y3, dd_center_x := x3 + dd_width d / 2,
           dd_center_y := y3 + dd_height d / 2, dd_changed := True\<rparr>)"

text \<open>\<open>null\<close> counts as 0.\<close>

definition null_zero :: "real option \<Rightarrow> real" where
  "null_zero v = (case v of None \<Rightarrow> 0 | Some r \<Rightarrow> r)"

definition move_pressed ::
  "real \<Rightarrow> real \<Rightarrow> 'cb uidragndrop \<Rightarrow> 'cb dragndrop \<Rightarrow> 'cb dragndrop \<times> 'cb dd_call ui_event list" where
  "move_pressed x y st d =
     (if \<not> dd_active d then (d, [])
      else if dd_mouse_down_action d \<noteq> NoAction \<and> dd_editable d \<and> dd_selected d
      then (resize_to x y d, [SetCursor (action_cursor (dd_mouse_down_action d)), Repaint])
      else (drag_to (x - null_zero (uy_mouse_down_x st)) (y - null_zero (uy_mouse_down_y st)) d,
            [SetCursor (js ''move''), Repaint]))"

definition setCursorAtLocation ::
  "real \<Rightarrow> real \<Rightarrow> real \<Rightarrow> real \<Rightarrow> dd_action \<Rightarrow> 'cb dragndrop \<times> 'cb dd_call ui_event list \<Rightarrow>
     'cb dragndrop \<times> 'cb dd_call ui_event list" where
  "setCursorAtLocation mouse_x mouse_y x y cursor_type = (\<lambda>(d, evs).
     (if in_box x y (x + box_size) (y + box_size) mouse_x mouse_y
      then (d\<lparr>dd_resizeable := True, dd_resizedirection := cursor_type\<rparr>,
            evs @ [SetCursor (action_cursor cursor_type)])
      else (d, evs)))"

definition cursor_places :: "'cb dragndrop \<Rightarrow> (real \<times> real \<times> dd_action) list" where
  "cursor_places d =
     (let x = dd_x d - box_size_half; y = dd_y d - box_size_half; w = dd_width d; h = dd_height d
      in [(x, y, NWResize), (x, dd_y d + h - box_size_half, SWResize),
          (dd_x d + w - box_size_half, y, NEResize),
          (dd_x d + w - box_size_half, dd_y d + h - box_size_half, SEResize),
          (dd_x d + w / 2 - box_size_half, dd_y d - box_size * 2, Crosshair)]
         @ (if w > 2 * box_size
            then [(dd_x d + w / 2 - box_size_half, y, NResize),
                  (dd_x d + w / 2 - box_size_half, dd_y d + h - box_size_half, SResize)] else [])
         @ (if h > 2 * box_size
            then [(x, dd_y d + h / 2 - box_size_half, WResize),
                  (dd_x d + w - box_size_half, dd_y d + h / 2 - box_size_half, EResize)] else []))"

definition hover_one ::
  "real \<Rightarrow> real \<Rightarrow> 'cb dragndrop \<Rightarrow> 'cb dragndrop \<times> 'cb dd_call ui_event list" where
  "hover_one x y d =
     (let (nx, ny) = rotate (dd_center_x d) (dd_center_y d) x y (dd_angle d);
          over = (inside_local d nx ny \<and> dd_mouse_down_action d = NoAction);
          d1 = d\<lparr>dd_resizeable := False, dd_moveable := over\<rparr>;
          evs = (if over then [SetCursor (js ''move'')] else [])
      in if dd_editable d1 \<and> dd_selected d1
         then fold (\<lambda>(px, py, a). setCursorAtLocation nx ny px py a) (cursor_places d1) (d1, evs)
         else (d1, evs))"

fun hover ::
  "real \<Rightarrow> real \<Rightarrow> nat \<Rightarrow> 'cb dragndrop list \<Rightarrow> 'cb dd_call ui_event list \<Rightarrow>
     'cb dragndrop list \<times> 'cb dd_call ui_event list" where
  "hover x y 0 ds evs = (ds, evs @ [SetCursor (js ''default'')])"
| "hover x y (Suc i) ds evs =
     (if dd_active (ds ! i) then
        (let (d, es) = hover_one x y (ds ! i)
         in if dd_moveable d \<or> dd_resizeable d then (ds[i := d], evs @ es)
            else hover x y i (ds[i := d]) (evs @ es))
      else hover x y i ds evs)"

definition UIDragNDrop_onMouseMove ::
  "real \<Rightarrow> real \<Rightarrow> 'cb uidragndrop \<Rightarrow> ('cb uidragndrop \<times> 'cb dd_call ui_event list) res" where
  "UIDragNDrop_onMouseMove x y st =
     (let ds = uy_dragndrops st
      in if uy_mouse_down st \<and> ds = [] then Inl TypeError
         else
           (let (ds1, evs) = (if uy_mouse_down st
                  then (let (d, es) = move_pressed x y st (last ds) in (butlast ds @ [d], es))
                  else (ds, []));
                (ds2, evs2) = hover x y (length ds1) ds1 evs
            in Inr (st\<lparr>uy_dragndrops := ds2\<rparr>, evs2)))"

end
