(* ===== verification/DragMoves.thy ===== *)
theory DragMoves
  imports DragNDrop
begin

text \<open>
  What holds of \<open>UIDragNDrop\<close>: the geometry of turned rectangles, that no operation moves an element
  out of its container, that resizing follows the mouse, that a group has one selected element, and
  what a click on elements calls.
\<close>

section \<open>Turned rectangles\<close>

text \<open>Half of the extent of a turned rectangle along the axes.\<close>

definition half_x :: "real \<Rightarrow> real \<Rightarrow> real \<Rightarrow> real" where
  "half_x w h a = (let c = cos (pi / 180 * a); s = sin (pi / 180 * a)
     in max \<bar>c * w / 2 + s * h / 2\<bar> \<bar>c * w / 2 - s * h / 2\<bar>)"

definition half_y :: "real \<Rightarrow> real \<Rightarrow> real \<Rightarrow> real" where
  "half_y w h a = (let c = cos (pi / 180 * a); s = sin (pi / 180 * a)
     in max \<bar>c * h / 2 + s * w / 2\<bar> \<bar>c * h / 2 - s * w / 2\<bar>)"

lemma sorted_ends:
  fixes xs :: "real list"
  assumes "length xs = Suc n"
  shows "sort xs ! 0 \<in> set xs" "sort xs ! n \<in> set xs"
    "v \<in> set xs \<Longrightarrow> sort xs ! 0 \<le> v" "v \<in> set xs \<Longrightarrow> v \<le> sort xs ! n"
proof -
  have len: "length (sort xs) = Suc n" using assms by simp
  show "sort xs ! 0 \<in> set xs" "sort xs ! n \<in> set xs"
    using len nth_mem [of 0 "sort xs"] nth_mem [of n "sort xs"] by simp_all
  assume "v \<in> set xs"
  then obtain i where i: "i < Suc n" "sort xs ! i = v"
    using len by (metis in_set_conv_nth set_sort)
  then show "sort xs ! 0 \<le> v" "v \<le> sort xs ! n"
    using sorted_nth_mono [of "sort xs" 0 i] sorted_nth_mono [of "sort xs" i n] len by auto
qed

lemma four_corners:
  fixes k p q :: real
  assumes "set xs = {k - p, k + q, k + p, k - q}" "length xs = 4" "sum_list xs = 4 * k"
  shows "sort xs ! 0 = k - max \<bar>p\<bar> \<bar>q\<bar>" "sort xs ! 3 = k + max \<bar>p\<bar> \<bar>q\<bar>"
    "(sort xs ! 0 + sort xs ! 1 + sort xs ! 2 + sort xs ! 3) / 4 = k"
proof -
  note e = sorted_ends [of xs 3, unfolded assms(1)]
  show "sort xs ! 0 = k - max \<bar>p\<bar> \<bar>q\<bar>"
    using e(1) e(3) [of "k - p"] e(3) [of "k + q"] e(3) [of "k + p"] e(3) [of "k - q"] assms(2)
    by auto
  show "sort xs ! 3 = k + max \<bar>p\<bar> \<bar>q\<bar>"
    using e(2) e(4) [of "k - p"] e(4) [of "k + q"] e(4) [of "k + p"] e(4) [of "k - q"] assms(2)
    by auto
  have "sum_list (sort xs) = sum_list xs" by (metis mset_sort sum_mset_sum_list)
  moreover have "sum_list ys = ys ! 0 + ys ! 1 + ys ! 2 + ys ! 3" if "length ys = 4" for ys :: "real list"
    using that by (auto simp: numeral_eq_Suc length_Suc_conv)
  ultimately show "(sort xs ! 0 + sort xs ! 1 + sort xs ! 2 + sort xs ! 3) / 4 = k"
    using assms(2,3) by simp
qed

lemma corners:
  assumes "calculateCornerPositions x y w h a = (xs, ys)"
  shows "xs ! 0 = x + w / 2 - half_x w h a" "xs ! 3 = x + w / 2 + half_x w h a"
    "(xs ! 0 + xs ! 1 + xs ! 2 + xs ! 3) / 4 = x + w / 2"
    "ys ! 0 = y + h / 2 - half_y w h a" "ys ! 3 = y + h / 2 + half_y w h a"
    "(ys ! 0 + ys ! 1 + ys ! 2 + ys ! 3) / 4 = y + h / 2"
proof -
  define c s where "c = cos (pi / 180 * a)" and "s = sin (pi / 180 * a)"
  define us vs where "us = fst (calculateUnsortedCornerPositions x y w h a)"
    and "vs = snd (calculateUnsortedCornerPositions x y w h a)"
  have xs: "xs = sort us" "ys = sort vs"
    using assms by (auto simp: calculateCornerPositions_def us_def vs_def split_beta)
  define p q where "p = c * w / 2 + s * h / 2" and "q = c * w / 2 - s * h / 2"
  define u v where "u = c * h / 2 + s * w / 2" and "v = c * h / 2 - s * w / 2"
  have rot: "rotate cx cy px py a = (c * (px - cx) + s * (py - cy) + cx, c * (py - cy) - s * (px - cx) + cy)"
    for cx cy px py by (simp add: rotate_def Let_def c_def s_def)
  have us: "us = [x + w / 2 - p, x + w / 2 + q, x + w / 2 + p, x + w / 2 - q]"
    by (simp add: us_def calculateUnsortedCornerPositions_def Let_def rot p_def q_def field_simps)
  have vs: "vs = [y + h / 2 + v, y + h / 2 + u, y + h / 2 - v, y + h / 2 - u]"
    by (simp add: vs_def calculateUnsortedCornerPositions_def Let_def rot u_def v_def field_simps)
  have hx: "half_x w h a = max \<bar>p\<bar> \<bar>q\<bar>" "half_y w h a = max \<bar>u\<bar> \<bar>v\<bar>"
    by (simp_all add: half_x_def half_y_def Let_def p_def q_def u_def v_def c_def s_def)
  show "xs ! 0 = x + w / 2 - half_x w h a" "xs ! 3 = x + w / 2 + half_x w h a"
    "(xs ! 0 + xs ! 1 + xs ! 2 + xs ! 3) / 4 = x + w / 2"
    unfolding xs hx by (rule four_corners; simp add: us)+
  show "ys ! 0 = y + h / 2 - half_y w h a" "ys ! 3 = y + h / 2 + half_y w h a"
    "(ys ! 0 + ys ! 1 + ys ! 2 + ys ! 3) / 4 = y + h / 2"
    unfolding xs hx by (rule four_corners; auto simp: vs)+
qed

lemma half_nonneg: "0 \<le> half_x w h a" "0 \<le> half_y w h a"
  by (simp_all add: half_x_def half_y_def Let_def)

text \<open>What lies inside a range that may be NaN.\<close>

definition in_range :: "real \<Rightarrow> real \<Rightarrow> real \<Rightarrow> real option \<Rightarrow> bool" where
  "in_range middle half start len \<longleftrightarrow>
     start \<le> middle - half \<and> (\<exists>l. len = Some l \<and> middle + half \<le> start + l)"

lemma contained_iff:
  "contained_at d a \<longleftrightarrow>
     in_range (dd_x d + dd_width d / 2) (half_x (dd_width d) (dd_height d) a)
       (dd_contain_x d) (dd_contain_width d) \<and>
     in_range (dd_y d + dd_height d / 2) (half_y (dd_width d) (dd_height d) a)
       (dd_contain_y d) (dd_contain_height d)"
proof -
  obtain xs ys where c: "calculateCornerPositions (dd_x d) (dd_y d) (dd_width d) (dd_height d) a = (xs, ys)"
    by (cases "calculateCornerPositions (dd_x d) (dd_y d) (dd_width d) (dd_height d) a") auto
  show ?thesis using corners [OF c]
    by (auto simp: contained_at_def c corners_contained_def in_range_def le_bound_def split: option.splits)
qed

text \<open>The corners that the tests use turn the other way than the drawing does; for a rectangle the
  least and the greatest coordinates are the same.\<close>

lemma half_turn: "half_x w h (- a) = half_x w h a" "half_y w h (- a) = half_y w h a"
  by (simp_all add: half_x_def half_y_def Let_def max.commute)

section \<open>Dragging\<close>

lemma grid_rest_bounds:
  assumes "0 < e"
  shows "0 \<le> grid_rest v s e" "grid_rest v s e < e" "s \<le> v \<Longrightarrow> grid_rest v s e \<le> v - s"
    "v - grid_rest v s e = s + real_of_int \<lfloor>(v - s) / e\<rfloor> * e"
proof -
  have r: "grid_rest v s e = (v - s) - real_of_int \<lfloor>(v - s) / e\<rfloor> * e"
  proof -
    have "(v - s) / e * e = v - s" using assms by simp
    then show ?thesis unfolding grid_rest_def left_diff_distrib by simp
  qed
  have f: "0 \<le> (v - s) / e - real_of_int \<lfloor>(v - s) / e\<rfloor>"
    "(v - s) / e - real_of_int \<lfloor>(v - s) / e\<rfloor> < 1" by linarith+
  show "0 \<le> grid_rest v s e" "grid_rest v s e < e"
    using f assms unfolding grid_rest_def by (simp, simp add: mult_less_cancel_right1)
  show "v - grid_rest v s e = s + real_of_int \<lfloor>(v - s) / e\<rfloor> * e" by (simp add: r)
  assume "s \<le> v"
  then have "0 \<le> real_of_int \<lfloor>(v - s) / e\<rfloor>" using assms by simp
  then have "0 \<le> real_of_int \<lfloor>(v - s) / e\<rfloor> * e" using assms by simp
  then show "grid_rest v s e \<le> v - s" by (simp add: r)
qed
text \<open>The drag along one axis.\<close>

definition drag_coord ::
  "bool \<Rightarrow> real \<Rightarrow> real \<Rightarrow> real \<Rightarrow> real \<Rightarrow> real \<Rightarrow> real option \<Rightarrow> real" where
  "drag_coord grid e p sz half start len =
     (let lo = p + sz / 2 - half; hi = p + sz / 2 + half;
          p1 = (if grid then p - min (grid_rest lo start e) (grid_rest hi start e) else p);
          p2 = (if lo < start then start + half - sz / 2 else p1)
      in if beyond_bound hi start len then start + the len - half - sz / 2 else p2)"

lemma drag_to_axes:
  "dd_x (drag_to px py d) = drag_coord (dd_grid_active d \<and> dd_moveable d) (dd_distance d) px (dd_width d)
     (half_x (dd_width d) (dd_height d) (dd_angle d)) (dd_contain_x d) (dd_contain_width d)"
  "dd_y (drag_to px py d) = drag_coord (dd_grid_active d \<and> dd_moveable d) (dd_distance d) py (dd_height d)
     (half_y (dd_width d) (dd_height d) (dd_angle d)) (dd_contain_y d) (dd_contain_height d)"
proof -
  obtain xs ys where c: "calculateCornerPositions px py (dd_width d) (dd_height d) (dd_angle d) = (xs, ys)"
    by (cases "calculateCornerPositions px py (dd_width d) (dd_height d) (dd_angle d)") auto
  note k = corners [OF c]
  show "dd_x (drag_to px py d) = drag_coord (dd_grid_active d \<and> dd_moveable d) (dd_distance d) px
     (dd_width d) (half_x (dd_width d) (dd_height d) (dd_angle d)) (dd_contain_x d) (dd_contain_width d)"
    by (simp only: drag_to_def c Let_def prod.case k(3,6))
      (simp add: k(1,2) drag_coord_def Let_def min_def)
  show "dd_y (drag_to px py d) = drag_coord (dd_grid_active d \<and> dd_moveable d) (dd_distance d) py
     (dd_height d) (half_y (dd_width d) (dd_height d) (dd_angle d)) (dd_contain_y d) (dd_contain_height d)"
    by (simp only: drag_to_def c Let_def prod.case k(3,6))
      (simp add: k(4,5) drag_coord_def Let_def min_def)
qed

lemma drag_to_fields [simp]:
  "dd_width (drag_to px py d) = dd_width d" "dd_height (drag_to px py d) = dd_height d"
  "dd_angle (drag_to px py d) = dd_angle d" "dd_contain_x (drag_to px py d) = dd_contain_x d"
  "dd_contain_y (drag_to px py d) = dd_contain_y d"
  "dd_contain_width (drag_to px py d) = dd_contain_width d"
  "dd_contain_height (drag_to px py d) = dd_contain_height d"
  "dd_grid_active (drag_to px py d) = dd_grid_active d" "dd_distance (drag_to px py d) = dd_distance d"
  "dd_selected (drag_to px py d) = dd_selected d" "dd_group_id (drag_to px py d) = dd_group_id d"
  "dd_active (drag_to px py d) = dd_active d"
  "dd_center_x (drag_to px py d) = dd_x (drag_to px py d) + dd_width d / 2"
  "dd_center_y (drag_to px py d) = dd_y (drag_to px py d) + dd_height d / 2"
  by (simp_all add: drag_to_def Let_def split_beta)

lemma drag_coord_in_range:
  assumes "len = Some l" "2 * half \<le> l" "0 \<le> half" "grid \<Longrightarrow> 0 < e"
  shows "in_range (drag_coord grid e p sz half start len + sz / 2) half start len"
proof (cases "grid \<and> start \<le> p + sz / 2 - half \<and> p + sz / 2 + half \<le> start + l")
  case True
  define lo hi where "lo = p + sz / 2 - half" and "hi = p + sz / 2 + half"
  have "grid_rest lo start e \<le> lo - start" "0 \<le> grid_rest lo start e" "0 \<le> grid_rest hi start e"
    using grid_rest_bounds [OF assms(4)] True by (simp_all add: lo_def)
  then show ?thesis using True assms(1)
    by (auto simp: drag_coord_def Let_def in_range_def beyond_bound_def lo_def [symmetric]
        hi_def [symmetric]) (auto simp: lo_def hi_def)
next
  case False
  then show ?thesis using assms
    by (auto simp: drag_coord_def Let_def in_range_def beyond_bound_def)
qed

text \<open>Dragging never takes an element out of its container, turned or not, with or without the
  grid, wherever the mouse goes; the centre of rotation goes along.\<close>

theorem drag_stays_inside:
  assumes "dd_contain_width d = Some cw" "2 * half_x (dd_width d) (dd_height d) (dd_angle d) \<le> cw"
    "dd_contain_height d = Some ch" "2 * half_y (dd_width d) (dd_height d) (dd_angle d) \<le> ch"
    "dd_grid_active d \<Longrightarrow> 0 < dd_distance d"
  shows "contained_at (drag_to px py d) (dd_angle d) \<and>
    dd_center_x (drag_to px py d) = dd_x (drag_to px py d) + dd_width d / 2 \<and>
    dd_center_y (drag_to px py d) = dd_y (drag_to px py d) + dd_height d / 2"
  unfolding contained_iff drag_to_fields drag_to_axes using assms
  by (simp add: drag_coord_in_range half_nonneg)

definition demo_drag :: "real \<Rightarrow> nat dragndrop" where
  "demo_drag a =
     \<lparr>dd_type = DdBox, dd_x = 40, dd_y = 40, dd_width = 60, dd_height = 30, dd_angle = a,
      dd_center_x = 70, dd_center_y = 55, dd_contain_x = 0, dd_contain_y = 0,
      dd_contain_width = Some 500, dd_contain_height = Some 400, dd_grid_active = True,
      dd_distance = 20, dd_active = True, dd_editable = True, dd_edit_mode = True,
      dd_selected = True, dd_resizeable = False, dd_moveable = True, dd_highlight = False,
      dd_changed = False, dd_mouse_down_on = False, dd_mouse_down_action = NoAction,
      dd_resizedirection = NoAction, dd_drawVerticalLine = NoVertical,
      dd_drawHorizontalLine = NoHorizontal, dd_group_id = None, dd_has_undo = True,
      dd_callback = 1, dd_background = [], dd_foreground = None, dd_border = None,
      dd_border_width = None, dd_border_radius = None, dd_font_size = None, dd_grd_type = None,
      dd_align = None, dd_label = None, dd_displaytext = Some (DText (js ''T1'')),
      dd_main_highlight = None, dd_image = None, dd_image_hash = None, dd_image_data = None\<rparr>"

lemma half_straight: "0 \<le> w \<Longrightarrow> 0 \<le> h \<Longrightarrow> half_x w h 0 = w / 2" "0 \<le> w \<Longrightarrow> 0 \<le> h \<Longrightarrow> half_y w h 0 = h / 2"
  "0 \<le> w \<Longrightarrow> 0 \<le> h \<Longrightarrow> half_x w h 90 = h / 2" "0 \<le> w \<Longrightarrow> 0 \<le> h \<Longrightarrow> half_y w h 90 = w / 2"
  by (simp_all add: half_x_def half_y_def)

theorem drag_stays_inside_witness: "contained_at (drag_to 5000 (- 7) (demo_drag 90)) 90"
  using drag_stays_inside [of "demo_drag 90" 500 400 5000 "- 7"]
  by (simp add: demo_drag_def half_straight)

text \<open>C34: On a grid, an element dragged inside its container ends less than one grid distance before
  the mouse with one of its outer edges on a line, the one that the red line is drawn at.\<close>

theorem drag_snaps:
  assumes "dd_grid_active d" "dd_moveable d" "0 < dd_distance d"
    "in_range (px + dd_width d / 2) (half_x (dd_width d) (dd_height d) (dd_angle d))
       (dd_contain_x d) (dd_contain_width d)"
  shows "0 \<le> px - dd_x (drag_to px py d) \<and> px - dd_x (drag_to px py d) < dd_distance d \<and>
    (\<exists>k. dd_center_x (drag_to px py d) +
        (if dd_drawVerticalLine (drag_to px py d) = FrontLine then - 1 else 1)
          * half_x (dd_width d) (dd_height d) (dd_angle d)
      = dd_contain_x d + real_of_int k * dd_distance d)"
proof -
  obtain xs ys where c: "calculateCornerPositions px py (dd_width d) (dd_height d) (dd_angle d) = (xs, ys)"
    by (cases "calculateCornerPositions px py (dd_width d) (dd_height d) (dd_angle d)") auto
  define H where "H = half_x (dd_width d) (dd_height d) (dd_angle d)"
  define lo hi where "lo = px + dd_width d / 2 - H" and "hi = px + dd_width d / 2 + H"
  have line: "dd_drawVerticalLine (drag_to px py d) =
      (if grid_rest lo (dd_contain_x d) (dd_distance d) \<le> grid_rest hi (dd_contain_x d) (dd_distance d)
       then FrontLine else BackLine)"
    using assms(1,2) corners(1,2) [OF c]
    by (simp add: drag_to_def Let_def c lo_def hi_def H_def)
  have x: "dd_x (drag_to px py d) = px - min (grid_rest lo (dd_contain_x d) (dd_distance d))
      (grid_rest hi (dd_contain_x d) (dd_distance d))"
    using assms(1,2,4) unfolding drag_to_axes
    by (auto simp: drag_coord_def Let_def in_range_def beyond_bound_def lo_def hi_def H_def)
  note g = grid_rest_bounds [OF assms(3), of _ "dd_contain_x d"]
  show ?thesis
  proof (cases "grid_rest lo (dd_contain_x d) (dd_distance d) \<le> grid_rest hi (dd_contain_x d) (dd_distance d)")
    case True
    then show ?thesis using g(1,2) [of lo] g(4) [of lo]
      unfolding line drag_to_fields x H_def [symmetric]
      by (intro conjI exI [of _ "\<lfloor>(lo - dd_contain_x d) / dd_distance d\<rfloor>"]) (simp_all add: min_def lo_def)
  next
    case False
    then show ?thesis using g(1,2) [of hi] g(4) [of hi]
      unfolding line drag_to_fields x H_def [symmetric]
      by (intro conjI exI [of _ "\<lfloor>(hi - dd_contain_x d) / dd_distance d\<rfloor>"]) (simp_all add: min_def hi_def)
  qed
qed

theorem drag_snaps_witness: "47 - dd_x (drag_to 47 40 (demo_drag 0)) < 20"
  using drag_snaps [of "demo_drag 0" 47 40]
  by (simp add: demo_drag_def half_straight in_range_def)
section \<open>Resizing and turning\<close>

text \<open>Where the point of an element at an offset from its corner is seen.\<close>

definition on_screen :: "'cb dragndrop \<Rightarrow> real \<Rightarrow> real \<Rightarrow> real \<times> real" where
  "on_screen d u v = rotate (dd_center_x d) (dd_center_y d) (dd_x d + u) (dd_y d + v) (- dd_angle d)"

lemma recentre_keeps_place: "on_screen (recentre d) u v = on_screen d u v"
  by (simp add: on_screen_def recentre_def rotate_def Let_def algebra_simps)

lemma recentre_fields [simp]:
  "dd_width (recentre d) = dd_width d" "dd_height (recentre d) = dd_height d"
  "dd_angle (recentre d) = dd_angle d" "dd_contain_x (recentre d) = dd_contain_x d"
  "dd_contain_y (recentre d) = dd_contain_y d"
  "dd_contain_width (recentre d) = dd_contain_width d"
  "dd_contain_height (recentre d) = dd_contain_height d"
  "dd_grid_active (recentre d) = dd_grid_active d" "dd_distance (recentre d) = dd_distance d"
  "dd_selected (recentre d) = dd_selected d" "dd_group_id (recentre d) = dd_group_id d"
  "dd_active (recentre d) = dd_active d" "dd_editable (recentre d) = dd_editable d"
  "dd_mouse_down_action (recentre d) = dd_mouse_down_action d"
  "dd_changed (recentre d) = dd_changed d" "dd_type (recentre d) = dd_type d"
  "dd_mouse_down_on (recentre d) = dd_mouse_down_on d"
  "dd_drawVerticalLine (recentre d) = dd_drawVerticalLine d"
  "dd_drawHorizontalLine (recentre d) = dd_drawHorizontalLine d"
  "dd_callback (recentre d) = dd_callback d" "dd_displaytext (recentre d) = dd_displaytext d"
  "dd_has_undo (recentre d) = dd_has_undo d" "dd_resizeable (recentre d) = dd_resizeable d"
  "dd_resizedirection (recentre d) = dd_resizedirection d"
  "dd_edit_mode (recentre d) = dd_edit_mode d" "dd_moveable (recentre d) = dd_moveable d"
  by (simp_all add: recentre_def split_beta)

text \<open>The centre of rotation is the middle of the element.\<close>

definition centred :: "'cb dragndrop \<Rightarrow> bool" where
  "centred d \<longleftrightarrow> dd_center_x d = dd_x d + dd_width d / 2 \<and> dd_center_y d = dd_y d + dd_height d / 2"

lemma recentre_centred: "centred (recentre d)"
  by (simp add: centred_def recentre_def split_beta)

lemma recentre_id: "centred d \<Longrightarrow> recentre d = d"
  by (cases d) (simp add: centred_def recentre_def rotate_def Let_def)

text \<open>The corner that a handle drags, and the one it leaves, as parts of the width and the height.\<close>

fun dragged_corner :: "dd_action \<Rightarrow> (real \<times> real) option" where
  "dragged_corner SEResize = Some (1, 1)"
| "dragged_corner NEResize = Some (1, 0)"
| "dragged_corner SWResize = Some (0, 1)"
| "dragged_corner NWResize = Some (0, 0)"
| "dragged_corner _ = None"

definition corner_at :: "'cb dragndrop \<Rightarrow> real \<Rightarrow> real \<Rightarrow> real \<times> real" where
  "corner_at d fx fy = on_screen d (fx * dd_width d) (fy * dd_height d)"

lemma resized_fields [simp]:
  "dd_angle (resized d nx ny) = dd_angle d" "dd_center_x (resized d nx ny) = dd_center_x d"
  "dd_center_y (resized d nx ny) = dd_center_y d"
  "dd_contain_x (resized d nx ny) = dd_contain_x d" "dd_contain_y (resized d nx ny) = dd_contain_y d"
  "dd_contain_width (resized d nx ny) = dd_contain_width d"
  "dd_contain_height (resized d nx ny) = dd_contain_height d"
  "dd_grid_active (resized d nx ny) = dd_grid_active d" "dd_distance (resized d nx ny) = dd_distance d"
  "dd_selected (resized d nx ny) = dd_selected d" "dd_group_id (resized d nx ny) = dd_group_id d"
  "dd_mouse_down_action (resized d nx ny) = dd_mouse_down_action d"
  by (simp_all add: resized_def Let_def split_beta)

lemma resized_corner:
  assumes "dragged_corner (dd_mouse_down_action d) = Some (fx, fy)" "e = resized d nx ny"
  shows "dd_x e + (1 - fx) * dd_width e = dd_x d + (1 - fx) * dd_width d"
    "dd_y e + (1 - fy) * dd_height e = dd_y d + (1 - fy) * dd_height d"
    "25 \<le> dd_width e" "25 \<le> dd_height e"
    "25 < dd_width e \<Longrightarrow> dd_x e + fx * dd_width e = nx"
    "25 < dd_height e \<Longrightarrow> dd_y e + fy * dd_height e = ny"
    "dd_width e = max 25 ((2 * fx - 1) * (nx - (dd_x d + (1 - fx) * dd_width d)))"
    "dd_height e = max 25 ((2 * fy - 1) * (ny - (dd_y d + (1 - fy) * dd_height d)))"
  using assms(1) unfolding assms(2)
  by (cases "dd_mouse_down_action d"; simp add: resized_def Let_def box_size_def split: if_splits)+

lemma rotate_back: "rotate cx cy (fst (rotate cx cy x y a)) (snd (rotate cx cy x y a)) (- a) = (x, y)"
  by (rule rotate_inverse)

text \<open>All four corners are seen inside the container; a container without a size holds nothing.\<close>

definition corners_inside :: "'cb dragndrop \<Rightarrow> bool" where
  "corners_inside e \<longleftrightarrow> (\<exists>w h. dd_contain_width e = Some w \<and> dd_contain_height e = Some h \<and>
     (\<forall>fx\<in>{0, 1}. \<forall>fy\<in>{0, 1}. case corner_at e fx fy of (cx, cy) \<Rightarrow>
        dd_contain_x e \<le> cx \<and> cx \<le> dd_contain_x e + w \<and>
        dd_contain_y e \<le> cy \<and> cy \<le> dd_contain_y e + h))"

lemma contained_corners:
  assumes "centred e"
  shows "contained_at e (dd_angle e) \<longleftrightarrow> corners_inside e"
proof -
  define c s where "c = cos (pi / 180 * dd_angle e)" and "s = sin (pi / 180 * dd_angle e)"
  define p q where "p = c * dd_width e / 2 + s * dd_height e / 2" and "q = c * dd_width e / 2 - s * dd_height e / 2"
  define u v where "u = c * dd_height e / 2 + s * dd_width e / 2" and "v = c * dd_height e / 2 - s * dd_width e / 2"
  let ?x = "dd_x e + dd_width e / 2" and ?y = "dd_y e + dd_height e / 2"
  have mid: "dd_center_x e = ?x" "dd_center_y e = ?y" using assms by (simp_all add: centred_def)
  have rot: "rotate cx cy px py (- dd_angle e) = (c * (px - cx) - s * (py - cy) + cx, c * (py - cy) + s * (px - cx) + cy)"
    for cx cy px py by (simp add: rotate_def Let_def c_def s_def)
  have at: "corner_at e 0 0 = (?x - q, ?y - u)" "corner_at e 1 0 = (?x + p, ?y - v)"
    "corner_at e 0 1 = (?x - p, ?y + v)" "corner_at e 1 1 = (?x + q, ?y + u)"
    by (simp_all add: corner_at_def on_screen_def mid rot p_def q_def u_def v_def field_simps)
  have half: "half_x (dd_width e) (dd_height e) (dd_angle e) = max \<bar>p\<bar> \<bar>q\<bar>"
    "half_y (dd_width e) (dd_height e) (dd_angle e) = max \<bar>u\<bar> \<bar>v\<bar>"
    by (simp_all add: half_x_def half_y_def Let_def p_def q_def u_def v_def c_def s_def)
  have "(\<forall>fx\<in>{0, 1}. \<forall>fy\<in>{0, 1}. case corner_at e fx fy of (cx, cy) \<Rightarrow>
        dd_contain_x e \<le> cx \<and> cx \<le> dd_contain_x e + w \<and> dd_contain_y e \<le> cy \<and> cy \<le> dd_contain_y e + h) \<longleftrightarrow>
      dd_contain_x e \<le> ?x - max \<bar>p\<bar> \<bar>q\<bar> \<and> ?x + max \<bar>p\<bar> \<bar>q\<bar> \<le> dd_contain_x e + w \<and>
      dd_contain_y e \<le> ?y - max \<bar>u\<bar> \<bar>v\<bar> \<and> ?y + max \<bar>u\<bar> \<bar>v\<bar> \<le> dd_contain_y e + h" for w h
    unfolding at ball_simps by (simp add: at) linarith
  note box = this
  show ?thesis unfolding contained_iff in_range_def half corners_inside_def box by blast
qed

text \<open>C17: Dragging a corner of an element, turned by any angle, makes it the element, else the same, that has
  the distance of the mouse from the opposite corner, along its own axes, for its width and height, or 25 where
  that is less, whose middle it turns about, whose opposite corner is seen where it was and whose dragged corner, unless a side is 25, is seen under the
  mouse. It happens exactly when all four corners of that element are seen inside the container; otherwise
  nothing changes.\<close>

theorem resize_corner:
  assumes "dragged_corner (dd_mouse_down_action d) = Some (fx, fy)"
    and "rotate (dd_center_x d) (dd_center_y d) x y (dd_angle d) = (nx, ny)"
  shows "\<exists>e. dd_width e = max 25 ((2 * fx - 1) * (nx - (dd_x d + (1 - fx) * dd_width d))) \<and>
    dd_height e = max 25 ((2 * fy - 1) * (ny - (dd_y d + (1 - fy) * dd_height d))) \<and>
    e = d\<lparr>dd_x := dd_x e, dd_y := dd_y e, dd_width := dd_width e, dd_height := dd_height e,
          dd_center_x := dd_center_x e, dd_center_y := dd_center_y e\<rparr> \<and> centred e \<and>
    corner_at e (1 - fx) (1 - fy) = corner_at d (1 - fx) (1 - fy) \<and>
    (25 < dd_width e \<and> 25 < dd_height e \<longrightarrow> corner_at e fx fy = (x, y)) \<and>
    resize_to x y d = (if corners_inside e then e\<lparr>dd_changed := True\<rparr> else d)"
proof -
  have bk: "rotate (dd_center_x d) (dd_center_y d) nx ny (- dd_angle d) = (x, y)"
    using rotate_back [of "dd_center_x d" "dd_center_y d" x y "dd_angle d"] assms(2) by simp
  let ?e = "resized d nx ny"
  note r = resized_corner [OF assms(1) refl, of nx ny]
  have seen: "on_screen (recentre ?e) u v =
      rotate (dd_center_x d) (dd_center_y d) (dd_x ?e + u) (dd_y ?e + v) (- dd_angle d)" for u v
    unfolding recentre_keeps_place by (simp add: on_screen_def)
  have "contained_at (recentre ?e) (dd_angle d) = corners_inside (recentre ?e)"
    using contained_corners [OF recentre_centred, of ?e] by (simp add: recentre_fields)
  then have res: "resize_to x y d = (if corners_inside (recentre ?e) then (recentre ?e)\<lparr>dd_changed := True\<rparr> else d)"
    using assms by (cases "dd_mouse_down_action d") (auto simp: resize_to_def Let_def)
  have "corner_at (recentre ?e) (1 - fx) (1 - fy) = corner_at d (1 - fx) (1 - fy)"
    unfolding corner_at_def seen by (simp only: recentre_fields r(1,2) on_screen_def)
  moreover have "corner_at (recentre ?e) fx fy = (x, y)"
    if "25 < dd_width (recentre ?e)" "25 < dd_height (recentre ?e)"
    using that unfolding corner_at_def seen using bk by (simp only: recentre_fields r(5,6))
  moreover have "recentre ?e = d\<lparr>dd_x := dd_x (recentre ?e), dd_y := dd_y (recentre ?e),
      dd_width := dd_width (recentre ?e), dd_height := dd_height (recentre ?e),
      dd_center_x := dd_center_x (recentre ?e), dd_center_y := dd_center_y (recentre ?e)\<rparr>"
    by (simp add: recentre_def resized_def Let_def split_beta)
  ultimately show ?thesis using r(7,8) res
    by (intro exI [of _ "recentre ?e"]) (simp add: recentre_centred)
qed

theorem resize_corner_witness:
  "\<exists>e. dd_width e = 260 \<and> dd_height e = 160 \<and> corner_at e 0 0 = corner_at (demo_drag 0) 0 0 \<and>
    resize_to 300 200 ((demo_drag 0)\<lparr>dd_mouse_down_action := SEResize\<rparr>) =
      (if corners_inside e then e\<lparr>dd_changed := True\<rparr> else (demo_drag 0)\<lparr>dd_mouse_down_action := SEResize\<rparr>)"
proof -
  let ?d = "(demo_drag 0)\<lparr>dd_mouse_down_action := SEResize\<rparr>"
  have rot: "rotate (dd_center_x ?d) (dd_center_y ?d) 300 200 (dd_angle ?d) = (300, 200)"
    by (simp add: demo_drag_def rotate_def)
  have act: "dragged_corner (dd_mouse_down_action ?d) = Some (1, 1)" by simp
  have v: "dd_x ?d = 40" "dd_width ?d = 60" "dd_y ?d = 40" "dd_height ?d = 30" "dd_angle ?d = 0"
    by (simp_all add: demo_drag_def)
  have c: "corner_at ?d 0 0 = corner_at (demo_drag 0) 0 0" by (simp add: corner_at_def on_screen_def)
  from resize_corner [OF act rot] obtain e where
    "dd_width e = max 25 ((2 * 1 - 1) * (300 - (dd_x ?d + (1 - 1) * dd_width ?d)))"
    "dd_height e = max 25 ((2 * 1 - 1) * (200 - (dd_y ?d + (1 - 1) * dd_height ?d)))"
    "corner_at e (1 - 1) (1 - 1) = corner_at ?d (1 - 1) (1 - 1)"
    "resize_to 300 200 ?d = (if corners_inside e then e\<lparr>dd_changed := True\<rparr> else ?d)"
    by blast
  then show ?thesis unfolding v diff_self c by (intro exI [of _ e]) simp
qed

text \<open>A turn with the grid snaps to a multiple of 45 degrees from at most 5 degrees away and leaves
  every other angle as it is.\<close>

theorem snapAngle_nearest:
  assumes "a \<le> 0"
  shows "(\<exists>k. snapAngle a = 45 * real_of_int k \<and> \<bar>snapAngle a - a\<bar> \<le> 5) \<or>
    snapAngle a = a \<and> (\<forall>k. 5 < \<bar>a - 45 * real_of_int k\<bar>)"
proof -
  define k where "k = \<lfloor>- a / 45\<rfloor>"
  define r where "r = - a - 45 * real_of_int k"
  have k: "real_of_int k \<le> - a / 45" "- a / 45 < real_of_int k + 1" unfolding k_def by linarith+
  then have r: "0 \<le> r" "r < 45" by (simp_all add: r_def)
  have abs: "\<bar>a\<bar> = - a" using assms by simp
  have snap: "snapAngle a = (if r \<ge> 40 then - real_of_int (math_round (- a + 45 - r))
      else if r \<le> 5 then - real_of_int (math_round (- a - r)) else a)"
    unfolding snapAngle_def Let_def abs k_def [symmetric] r_def [symmetric] by simp
  have "- a + 45 - r = real_of_int (45 * (k + 1))" "- a - r = real_of_int (45 * k)"
    by (simp_all add: r_def)
  then have up: "math_round (- a + 45 - r) = 45 * (k + 1)" "math_round (- a - r) = 45 * k"
    by (simp_all only: math_round_int)
  consider "r \<ge> 40" | "r \<le> 5" "r < 40" | "5 < r" "r < 40" by linarith
  then show ?thesis
  proof cases
    case 1
    then have "snapAngle a = 45 * real_of_int (- (k + 1))"
      unfolding snap up by simp
    moreover have "\<bar>45 * real_of_int (- (k + 1)) - a\<bar> \<le> 5" using 1 r by (simp add: r_def abs_if)
    ultimately show ?thesis by metis
  next
    case 2
    then have "snapAngle a = 45 * real_of_int (- k)"
      unfolding snap up by simp
    moreover have "\<bar>45 * real_of_int (- k) - a\<bar> \<le> 5" using 2 r by (simp add: r_def)
    ultimately show ?thesis by metis
  next
    case 3
    have "5 < \<bar>a - 45 * real_of_int j\<bar>" for j
    proof -
      have "j \<le> - k - 1 \<or> - k \<le> j" by linarith
      then have "real_of_int j \<le> real_of_int (- k - 1) \<or> real_of_int (- k) \<le> real_of_int j"
        by (simp only: of_int_le_iff)
      then show ?thesis using 3 by (auto simp: r_def abs_if)
    qed
    then show ?thesis using 3 by (simp add: snap)
  qed
qed

theorem snapAngle_nearest_witness:
  "(\<exists>k. snapAngle (- 92) = 45 * real_of_int k \<and> \<bar>snapAngle (- 92) - (- 92)\<bar> \<le> 5)"
proof -
  have "\<not> (\<forall>k. 5 < \<bar>(- 92) - 45 * real_of_int k\<bar>)" by (rule notI, drule spec [of _ "- 2"]) simp
  then show ?thesis using snapAngle_nearest [of "- 92"] by auto
qed
section \<open>Circles\<close>

lemma arctan_quotient:
  assumes "x \<noteq> 0"
  shows "sin (arctan (y / x)) = sgn x * y / sqrt (x\<^sup>2 + y\<^sup>2)" "cos (arctan (y / x)) = \<bar>x\<bar> / sqrt (x\<^sup>2 + y\<^sup>2)"
proof -
  have "1 + (y / x)\<^sup>2 = (x\<^sup>2 + y\<^sup>2) / x\<^sup>2" using assms by (simp add: field_simps)
  then have "sqrt (1 + (y / x)\<^sup>2) = sqrt (x\<^sup>2 + y\<^sup>2) / \<bar>x\<bar>" by (simp add: real_sqrt_divide)
  then show "sin (arctan (y / x)) = sgn x * y / sqrt (x\<^sup>2 + y\<^sup>2)" "cos (arctan (y / x)) = \<bar>x\<bar> / sqrt (x\<^sup>2 + y\<^sup>2)"
    using assms by (simp_all add: sin_arctan cos_arctan sgn_if)
qed

lemma js_atan2_sin_cos:
  assumes "x \<noteq> 0 \<or> y \<noteq> 0"
  shows "sin (js_atan2 y x) = y / sqrt (x\<^sup>2 + y\<^sup>2) \<and> cos (js_atan2 y x) = x / sqrt (x\<^sup>2 + y\<^sup>2)"
proof (cases "x = 0")
  case True
  then show ?thesis using assms by (auto simp: js_atan2_def)
next
  case False
  then show ?thesis using arctan_quotient [OF False, of y]
    by (auto simp: js_atan2_def sgn_if)
qed

lemma circle_radius:
  fixes a b :: real
  assumes "0 < a" "0 < b" "0 < r" "u\<^sup>2 + v\<^sup>2 = r\<^sup>2"
  shows "r < (a * b) / sqrt (a\<^sup>2 * (v / r)\<^sup>2 + b\<^sup>2 * (u / r)\<^sup>2) \<longleftrightarrow> (u / a)\<^sup>2 + (v / b)\<^sup>2 < 1"
proof -
  have "a\<^sup>2 * (v / r)\<^sup>2 + b\<^sup>2 * (u / r)\<^sup>2 = (a\<^sup>2 * v\<^sup>2 + b\<^sup>2 * u\<^sup>2) / r\<^sup>2"
    by (simp add: power_divide add_divide_distrib)
  then have s: "sqrt (a\<^sup>2 * (v / r)\<^sup>2 + b\<^sup>2 * (u / r)\<^sup>2) = sqrt (a\<^sup>2 * v\<^sup>2 + b\<^sup>2 * u\<^sup>2) / r"
    using assms(3) by (simp add: real_sqrt_divide)
  have "u \<noteq> 0 \<or> v \<noteq> 0" using assms(3,4) by auto
  then have pos: "0 < a\<^sup>2 * v\<^sup>2 + b\<^sup>2 * u\<^sup>2"
    using assms(1,2) by (auto simp: add_pos_nonneg add_nonneg_pos)
  have "r < (a * b) / sqrt (a\<^sup>2 * (v / r)\<^sup>2 + b\<^sup>2 * (u / r)\<^sup>2) \<longleftrightarrow> sqrt (a\<^sup>2 * v\<^sup>2 + b\<^sup>2 * u\<^sup>2) < a * b"
    unfolding s using assms(3) pos by (simp add: pos_less_divide_eq mult.commute)
  also have "\<dots> \<longleftrightarrow> a\<^sup>2 * v\<^sup>2 + b\<^sup>2 * u\<^sup>2 < (a * b)\<^sup>2"
    using assms(1,2) real_sqrt_less_iff [of "a\<^sup>2 * v\<^sup>2 + b\<^sup>2 * u\<^sup>2" "(a * b)\<^sup>2"] by (simp add: real_sqrt_abs abs_mult)
  also have "\<dots> \<longleftrightarrow> (u / a)\<^sup>2 + (v / b)\<^sup>2 < 1"
  proof -
    have "(u / a)\<^sup>2 + (v / b)\<^sup>2 = (a\<^sup>2 * v\<^sup>2 + b\<^sup>2 * u\<^sup>2) / (a * b)\<^sup>2"
      using assms(1,2) by (simp add: power_divide power_mult_distrib add_frac_eq algebra_simps)
    then show ?thesis using assms(1,2) by (simp add: pos_divide_less_eq)
  qed
  finally show ?thesis .
qed

text \<open>A circle is hit where its ellipse is: the sine and cosine arithmetic of the handler decides the
  equation of the ellipse; only on the axis through the middle the end points count too.\<close>

theorem circle_hit_ellipse:
  assumes "0 < dd_width d" "0 < dd_height d"
  shows "circle_hit d nx ny \<longleftrightarrow> nx = dd_center_x d \<or>
    ((nx - dd_center_x d) / (dd_width d / 2))\<^sup>2 + ((ny - dd_center_y d) / (dd_height d / 2))\<^sup>2 < 1"
proof -
  define u v a b where "u = nx - dd_center_x d" and "v = ny - dd_center_y d"
    and "a = dd_width d / 2" and "b = dd_height d / 2"
  have ab: "0 < a" "0 < b" using assms by (simp_all add: a_def b_def)
  define t where "t = js_atan2 u v"
  have hit: "circle_hit d nx ny \<longleftrightarrow>
      \<bar>u / - sin t\<bar> < a * b / sqrt (a\<^sup>2 * (cos t)\<^sup>2 + b\<^sup>2 * (sin t)\<^sup>2)"
    unfolding circle_hit_def Let_def u_def [symmetric] v_def [symmetric] a_def [symmetric]
      b_def [symmetric] t_def [symmetric] by (simp add: sin_add cos_add)
  show ?thesis unfolding u_def [symmetric] v_def [symmetric] a_def [symmetric] b_def [symmetric]
  proof (cases "u = 0")
    case True
    have "0 < a\<^sup>2 * (cos t)\<^sup>2 + b\<^sup>2 * (sin t)\<^sup>2"
    proof (cases "sin t = 0")
      case True
      then have "cos t \<noteq> 0" using sin_cos_squared_add [of t] by auto
      then show ?thesis using ab by (simp add: add_pos_nonneg)
    qed (use ab in \<open>simp add: add_nonneg_pos\<close>)
    then have "circle_hit d nx ny" using ab unfolding hit True by simp
    then show "circle_hit d nx ny \<longleftrightarrow> nx = dd_center_x d \<or> (u / a)\<^sup>2 + (v / b)\<^sup>2 < 1"
      using True by (simp add: u_def)
  next
    case False
    define r where "r = sqrt (v\<^sup>2 + u\<^sup>2)"
    have r: "0 < r" "u\<^sup>2 + v\<^sup>2 = r\<^sup>2" using False by (simp_all add: r_def add_nonneg_pos)
    have t: "sin t = u / r" "cos t = v / r"
      using js_atan2_sin_cos [of v u] False by (simp_all add: t_def r_def)
    have "\<bar>u / - (u / r)\<bar> = r" using False r(1) by simp
    then show "circle_hit d nx ny \<longleftrightarrow> nx = dd_center_x d \<or> (u / a)\<^sup>2 + (v / b)\<^sup>2 < 1"
      unfolding hit t using circle_radius [OF ab r] False by (simp add: u_def)
  qed
qed

theorem circle_hit_ellipse_witness: "\<not> circle_hit (demo_drag 0) 97 68"
  using circle_hit_ellipse [of "demo_drag 0" 97 68] by (simp add: demo_drag_def power2_eq_square)
section \<open>What every operation keeps\<close>

lemma array_move_mset:
  "i < length xs \<Longrightarrow> j < length xs \<Longrightarrow> mset (array_move xs i j) = mset xs"
proof -
  assume "i < length xs" "j < length xs"
  have "mset (splice_in ys j x) = add_mset x (mset ys)" for ys :: "'a list" and x
    unfolding splice_in_def by (metis append_take_drop_id mset.simps(2) mset_append union_mset_add_mset_right)
  moreover have "mset xs = add_mset (xs ! i) (mset (splice_out xs i))"
    unfolding splice_out_def
    by (metis \<open>i < length xs\<close> id_take_nth_drop mset.simps(2) mset_append union_mset_add_mset_right)
  ultimately show ?thesis using \<open>i < length xs\<close> by (simp add: array_move_def)
qed

lemma array_move_last:
  "i < length xs \<Longrightarrow> last (array_move xs i (length xs - 1)) = xs ! i"
  by (simp add: array_move_def splice_in_def splice_out_def)

text \<open>All that the place of an element depends on.\<close>

definition place :: "'cb dragndrop \<Rightarrow> _" where
  "place d = ((dd_x d, dd_y d, dd_width d, dd_height d, dd_angle d, dd_center_x d, dd_center_y d),
     (dd_contain_x d, dd_contain_y d, dd_contain_width d, dd_contain_height d),
     dd_grid_active d, dd_distance d)"

definition dd_ok :: "'cb dragndrop \<Rightarrow> bool" where
  "dd_ok d \<longleftrightarrow> centred d \<and> contained_at d (dd_angle d) \<and> (dd_grid_active d \<longrightarrow> 0 < dd_distance d)"

lemma dd_ok_place: "place e = place d \<Longrightarrow> dd_ok d \<Longrightarrow> dd_ok e"
  by (simp add: place_def dd_ok_def centred_def contained_iff)

lemma place_update [simp]:
  "place (d\<lparr>dd_mouse_down_on := b\<rparr>) = place d" "place (d\<lparr>dd_selected := b\<rparr>) = place d"
  "place (d\<lparr>dd_editable := b\<rparr>) = place d" "place (d\<lparr>dd_active := b\<rparr>) = place d"
  "place (d\<lparr>dd_changed := b\<rparr>) = place d" "place (d\<lparr>dd_highlight := b\<rparr>) = place d"
  "place (d\<lparr>dd_main_highlight := s\<rparr>) = place d" "place (d\<lparr>dd_resizeable := b\<rparr>) = place d"
  "place (d\<lparr>dd_moveable := b\<rparr>) = place d" "place (d\<lparr>dd_mouse_down_action := a\<rparr>) = place d"
  "place (d\<lparr>dd_resizedirection := a\<rparr>) = place d" "place (d\<lparr>dd_displaytext := t\<rparr>) = place d"
  "place (d\<lparr>dd_drawVerticalLine := v\<rparr>) = place d" "place (d\<lparr>dd_drawHorizontalLine := w\<rparr>) = place d"
  "place (with_image i d) = place d"
  by (simp_all add: place_def with_image_def)

text \<open>A step of one element: it stays in its group, is not selected anew and stays inside.\<close>

definition keeps :: "'cb dragndrop \<Rightarrow> 'cb dragndrop \<Rightarrow> bool" where
  "keeps d e \<longleftrightarrow> dd_group_id e = dd_group_id d \<and> (dd_selected e \<longrightarrow> dd_selected d) \<and> (dd_ok d \<longrightarrow> dd_ok e)"

lemma keeps_refl [simp]: "keeps d d"
  by (simp add: keeps_def)

lemma keeps_trans [trans]: "keeps a b \<Longrightarrow> keeps b c \<Longrightarrow> keeps a c"
  by (auto simp: keeps_def)

lemma keepsI:
  "dd_group_id e = dd_group_id d \<Longrightarrow> (dd_selected e \<Longrightarrow> dd_selected d) \<Longrightarrow> place e = place d \<Longrightarrow> keeps d e"
  by (auto simp: keeps_def dest: dd_ok_place)

definition exclusive :: "'cb dragndrop list \<Rightarrow> bool" where
  "exclusive ds \<longleftrightarrow> distinct (map dd_group_id (filter dd_selected ds))"

lemma exclusive_sorted:
  "exclusive ds \<longleftrightarrow> sorted_wrt (\<lambda>d e. dd_selected d \<longrightarrow> dd_selected e \<longrightarrow> dd_group_id d \<noteq> dd_group_id e) ds"
  unfolding exclusive_def by (induction ds) auto

lemma exclusive_nth:
  "exclusive ds \<longleftrightarrow> (\<forall>i j. i < j \<longrightarrow> j < length ds \<longrightarrow> dd_selected (ds ! i) \<longrightarrow> dd_selected (ds ! j) \<longrightarrow>
     dd_group_id (ds ! i) \<noteq> dd_group_id (ds ! j))"
  unfolding exclusive_sorted sorted_wrt_iff_nth_less by blast

lemma exclusive_mset: "mset ds = mset es \<Longrightarrow> exclusive ds \<Longrightarrow> exclusive es"
  unfolding exclusive_def by (metis mset_eq_imp_distinct_iff mset_filter mset_map)

definition dnd_ok :: "'cb dragndrop list \<Rightarrow> bool" where
  "dnd_ok ds \<longleftrightarrow> (\<forall>d \<in> set ds. dd_ok d) \<and> exclusive ds"

lemma dnd_ok_keeps: "list_all2 keeps ds es \<Longrightarrow> dnd_ok ds \<Longrightarrow> dnd_ok es"
proof -
  assume k: "list_all2 keeps ds es" and ok: "dnd_ok ds"
  have len: "length es = length ds" using k by (simp add: list_all2_lengthD)
  have n: "keeps (ds ! i) (es ! i)" if "i < length ds" for i using k that by (simp add: list_all2_conv_all_nth)
  have "dd_ok d" if "d \<in> set es" for d
    using that ok n len unfolding dnd_ok_def keeps_def by (metis in_set_conv_nth nth_mem)
  moreover have "exclusive es"
    unfolding exclusive_nth
  proof (intro allI impI)
    fix i j assume ij: "i < j" "j < length es" "dd_selected (es ! i)" "dd_selected (es ! j)"
    have "keeps (ds ! i) (es ! i)" "keeps (ds ! j) (es ! j)" using ij len by (auto intro: n)
    then show "dd_group_id (es ! i) \<noteq> dd_group_id (es ! j)"
      using ok ij len unfolding dnd_ok_def exclusive_nth keeps_def by metis
  qed
  ultimately show ?thesis by (simp add: dnd_ok_def)
qed

lemma dnd_ok_mset: "mset ds = mset es \<Longrightarrow> dnd_ok ds \<Longrightarrow> dnd_ok es"
  unfolding dnd_ok_def using exclusive_mset mset_eq_setD by metis

lemma dnd_ok_map: "(\<And>d. d \<in> set ds \<Longrightarrow> keeps d (f d)) \<Longrightarrow> dnd_ok ds \<Longrightarrow> dnd_ok (map f ds)"
  by (rule dnd_ok_keeps) (auto simp: list_all2_conv_all_nth)

lemma dnd_ok_update:
  "i < length ds \<Longrightarrow> keeps (ds ! i) e \<Longrightarrow> dnd_ok ds \<Longrightarrow> dnd_ok (ds[i := e])"
  by (rule dnd_ok_keeps) (auto simp: list_all2_conv_all_nth nth_list_update)

lemma dnd_ok_for_each:
  "(\<And>i d s. keeps d (fst (f i d s))) \<Longrightarrow> dnd_ok ds \<Longrightarrow> dnd_ok (fst (for_each f i ds s))"
  by (rule dnd_ok_keeps) (rule for_each_all2)

section \<open>Elements\<close>

lemma keeps_recentre: "keeps d (recentre d)"
  by (auto simp: keeps_def dd_ok_def recentre_id)

lemma contained_fits:
  assumes "contained_at d a"
  obtains cw ch where "dd_contain_width d = Some cw" "2 * half_x (dd_width d) (dd_height d) a \<le> cw"
    "dd_contain_height d = Some ch" "2 * half_y (dd_width d) (dd_height d) a \<le> ch"
  using assms unfolding contained_iff in_range_def by fastforce

lemma keeps_drag: "keeps d (drag_to px py d)"
proof -
  have "dd_ok (drag_to px py d)" if ok: "dd_ok d"
  proof -
    obtain cw ch where "dd_contain_width d = Some cw" "2 * half_x (dd_width d) (dd_height d) (dd_angle d) \<le> cw"
      "dd_contain_height d = Some ch" "2 * half_y (dd_width d) (dd_height d) (dd_angle d) \<le> ch"
      using contained_fits ok unfolding dd_ok_def by metis
    then have "contained_at (drag_to px py d) (dd_angle d)"
      unfolding contained_iff drag_to_fields drag_to_axes using ok
      by (simp add: drag_coord_in_range half_nonneg dd_ok_def)
    then show ?thesis using ok by (simp add: dd_ok_def centred_def)
  qed
  then show ?thesis by (simp add: keeps_def)
qed

lemma keeps_turned:
  "centred d \<Longrightarrow> contained_at d (dd_angle d) \<Longrightarrow> keeps d (turned x y d)"
proof -
  have "dd_ok (d\<lparr>dd_angle := a\<rparr>)" if "dd_ok d" "contained_at d a" for a
    using that by (simp add: dd_ok_def centred_def contained_iff)
  then show ?thesis by (auto simp: turned_def Let_def keeps_def)
qed

lemma keeps_resize: "keeps d (resize_to x y d)"
proof -
  obtain nx ny where n: "rotate (dd_center_x d) (dd_center_y d) x y (dd_angle d) = (nx, ny)"
    by (cases "rotate (dd_center_x d) (dd_center_y d) x y (dd_angle d)") auto
  define e where "e = (recentre (resized d nx ny))\<lparr>dd_changed := True\<rparr>"
  show ?thesis
  proof (cases "contained_at (recentre (resized d nx ny)) (dd_angle (recentre (resized d nx ny)))")
    case True
    then have e: "contained_at e (dd_angle e)" "centred e"
      using recentre_centred [of "resized d nx ny"] by (simp_all add: e_def contained_iff centred_def)
    then have "keeps d e" by (simp add: keeps_def dd_ok_def) (simp add: e_def)
    moreover have "resize_to x y d = (if dd_mouse_down_action e = Crosshair then turned x y e else e)"
      using True by (simp add: resize_to_def n Let_def e_def)
    ultimately show ?thesis using keeps_turned [OF e(2,1), of x y] by (auto intro: keeps_trans)
  next
    case False
    then show ?thesis by (simp add: resize_to_def n Let_def)
  qed
qed

lemma keeps_change: "keeps d (fst (changeHandler d))"
  by (auto simp: changeHandler_def intro!: keepsI)

lemma keeps_up: "keeps d (fst (up_one x y i d evs))"
proof -
  define e where "e = fst (changeHandler (recentre d))"
  have "keeps d e" unfolding e_def by (rule keeps_trans [OF keeps_recentre keeps_change])
  moreover have "keeps e (fst (up_one x y i d evs)) \<or> fst (up_one x y i d evs) = d"
    by (auto simp: up_one_def Let_def split_beta e_def intro!: keepsI)
  ultimately show ?thesis by (auto intro: keeps_trans)
qed

lemma keeps_hover: "keeps d (fst (hover_one x y d))"
proof -
  define nx ny where "nx = fst (rotate (dd_center_x d) (dd_center_y d) x y (dd_angle d))"
    and "ny = snd (rotate (dd_center_x d) (dd_center_y d) x y (dd_angle d))"
  have one: "keeps (fst de) (fst (setCursorAtLocation nx ny px py a de))" for px py a
    and de :: "'a dragndrop \<times> 'a dd_call ui_event list"
    by (auto simp: setCursorAtLocation_def split_beta intro!: keepsI)
  have step: "keeps (fst de) (fst (fold (\<lambda>(px, py, a). setCursorAtLocation nx ny px py a) ps de))" for ps
    and de :: "'a dragndrop \<times> 'a dd_call ui_event list"
  proof (induction ps arbitrary: de)
    case Nil
    then show ?case by simp
  next
    case (Cons p ps)
    obtain px py a where "p = (px, py, a)" by (cases p)
    then show ?case using keeps_trans [OF one Cons.IH] by simp
  qed
  define d1 where "d1 = d\<lparr>dd_resizeable := False,
      dd_moveable := (inside_local d nx ny \<and> dd_mouse_down_action d = NoAction)\<rparr>"
  define evs :: "'a dd_call ui_event list" where
    "evs = (if inside_local d nx ny \<and> dd_mouse_down_action d = NoAction then [SetCursor (js ''move'')] else [])"
  have d1: "keeps d d1" unfolding d1_def by (intro keepsI) simp_all
  have "fst (hover_one x y d) = d1 \<or>
      fst (hover_one x y d) = fst (fold (\<lambda>(px, py, a). setCursorAtLocation nx ny px py a) (cursor_places d1) (d1, evs))"
    by (simp add: hover_one_def Let_def split_beta nx_def [symmetric] ny_def [symmetric]
        d1_def [symmetric] evs_def [symmetric])
  then show ?thesis using d1 keeps_trans [OF d1 step [of "(d1, evs)", simplified]] by auto
qed

lemma with_image_fields [simp]:
  "dd_group_id (with_image i d) = dd_group_id d" "dd_selected (with_image i d) = dd_selected d"
  by (simp_all add: with_image_def)

lemma keeps_draw: "keeps d (fst (draw_shape sha tm j d s))"
  by (cases "dd_type d"; cases s) (auto simp: draw_shape_def split_beta Let_def intro!: keepsI)
section \<open>Operations\<close>

lemma dnd_ok_others:
  assumes "dnd_ok ds" "i < length ds" "dd_group_id d = dd_group_id (ds ! i)" "dd_ok (ds ! i) \<Longrightarrow> dd_ok d"
  shows "dnd_ok (map (\<lambda>(j, e). if dd_group_id e = dd_group_id d \<and> j \<noteq> i then e\<lparr>dd_selected := False\<rparr> else e)
    (enumerate 0 (ds[i := d])))" (is "dnd_ok ?es")
proof -
  have len: "length ?es = length ds" by simp
  have nth: "?es ! k = (if k = i then d else if dd_group_id (ds ! k) = dd_group_id d
      then (ds ! k)\<lparr>dd_selected := False\<rparr> else ds ! k)" if "k < length ds" for k
    using that by (auto simp: nth_enumerate_eq)
  have ok: "dd_ok (ds ! k)" if "k < length ds" for k using assms(1) that by (auto simp: dnd_ok_def)
  have "dd_ok (?es ! k)" if k: "k < length ds" for k
  proof -
    have "dd_ok ((ds ! k)\<lparr>dd_selected := False\<rparr>)" by (rule dd_ok_place [OF place_update(2) ok [OF k]])
    moreover have "dd_ok d" by (rule assms(4) [OF ok [OF assms(2)]])
    ultimately show ?thesis unfolding nth [OF k] using ok [OF k] by (simp split: if_split)
  qed
  then have "\<forall>e \<in> set ?es. dd_ok e" unfolding all_set_conv_all_nth len by blast
  moreover have "exclusive ?es"
    unfolding exclusive_nth
  proof (intro allI impI)
    fix k j assume kj: "k < j" "j < length ?es" "dd_selected (?es ! k)" "dd_selected (?es ! j)"
    have l: "j < length ds" "k < length ds" using kj(1,2) by simp_all
    have "exclusive ds" using assms(1) by (simp add: dnd_ok_def)
    then show "dd_group_id (?es ! k) \<noteq> dd_group_id (?es ! j)"
      using kj(1,3,4) l assms(3) unfolding exclusive_nth nth [OF l(1)] nth [OF l(2)]
      by (auto split: if_splits)
  qed
  ultimately show ?thesis by (simp add: dnd_ok_def)
qed

lemma down_select_ok:
  "dnd_ok (uy_dragndrops st) \<Longrightarrow> i \<le> length (uy_dragndrops st) \<Longrightarrow>
     dnd_ok (uy_dragndrops (fst (down_select x y i st)))"
proof (induction i arbitrary: st)
  case 0
  then show ?case by simp
next
  case (Suc i)
  let ?ds = "uy_dragndrops st"
  let ?d = "?ds ! i"
  have i: "i < length ?ds" "0 < length ?ds" using Suc.prems by auto
  have move: "dnd_ok (array_move es i (length ?ds - 1))" if "dnd_ok es" "length es = length ?ds" for es :: "'a dragndrop list"
    using that i by (intro dnd_ok_mset [OF _ that(1)]) (simp add: array_move_mset)
  have r: "keeps ?d ((recentre ?d)\<lparr>dd_mouse_down_action := a\<rparr>)" for a
    by (rule keeps_trans [OF keeps_recentre]) (rule keepsI; simp)
  have k1: "keeps ?d (recentre ((recentre ?d)\<lparr>dd_mouse_down_action := a\<rparr>))" for a
    by (rule keeps_trans [OF r keeps_recentre])
  have k3: "dd_ok ?d \<Longrightarrow> dd_ok ((recentre ?d)\<lparr>dd_mouse_down_action := NoAction, dd_selected := True\<rparr>)"
    by (rule dd_ok_place [OF place_update(2)]) (use r [of NoAction] in \<open>simp add: keeps_def\<close>)
  have c1: "dnd_ok (array_move (?ds[i := recentre ((recentre ?d)\<lparr>dd_mouse_down_action := a\<rparr>)]) i (length ?ds - 1))" for a
    by (rule move) (simp_all add: dnd_ok_update [OF i(1) k1 Suc.prems(1)])
  define d3 where "d3 = (recentre ?d)\<lparr>dd_mouse_down_action := NoAction, dd_selected := True\<rparr>"
  have c2: "dnd_ok (array_move (map (\<lambda>(j, e). if dd_group_id e = dd_group_id ?d \<and> j \<noteq> i
      then e\<lparr>dd_selected := False\<rparr> else e) (enumerate 0 (?ds[i := d3]))) i (length ?ds - 1))"
  proof (rule move)
    have "dd_group_id d3 = dd_group_id ?d" by (simp add: d3_def)
    from dnd_ok_others [OF Suc.prems(1) i(1) this] k3
    show "dnd_ok (map (\<lambda>(j, e). if dd_group_id e = dd_group_id ?d \<and> j \<noteq> i
      then e\<lparr>dd_selected := False\<rparr> else e) (enumerate 0 (?ds[i := d3])))"
      by (simp add: d3_def)
  qed simp
  have c3: "dnd_ok (uy_dragndrops (fst (down_select x y i (st\<lparr>uy_dragndrops :=
      ?ds[i := (recentre ?d)\<lparr>dd_mouse_down_action := NoAction\<rparr>]\<rparr>))))"
    by (rule Suc.IH) (use dnd_ok_update [OF i(1) r Suc.prems(1)] Suc.prems in simp_all)
  have c4: "dnd_ok (uy_dragndrops (fst (down_select x y i st)))"
    by (rule Suc.IH) (use Suc.prems in simp_all)
  show ?case using c1 c2 c3 c4
    by (simp add: Let_def split_beta d3_def [symmetric])
      (simp add: d3_def)
qed

lemma onMouseDown_ok:
  "dnd_ok (uy_dragndrops st) \<Longrightarrow> dnd_ok (uy_dragndrops (fst (UIDragNDrop_onMouseDown x y st)))"
proof -
  assume ok: "dnd_ok (uy_dragndrops st)"
  let ?st1 = "st\<lparr>uy_dragndrops := map (press_hit x y) (uy_dragndrops st)\<rparr>"
  have "dnd_ok (map (press_hit x y) (uy_dragndrops st))"
    by (rule dnd_ok_map [OF _ ok]) (auto simp: press_hit_def intro!: keepsI)
  then have 1: "dnd_ok (uy_dragndrops (fst (down_select x y (length (uy_dragndrops ?st1)) ?st1)))"
    by (intro down_select_ok) simp_all
  have "dnd_ok (map (\<lambda>d. if P d then d\<lparr>dd_selected := False\<rparr> else d) ds)" if "dnd_ok ds"
    for P and ds :: "'a dragndrop list"
    by (rule dnd_ok_map [OF _ that]) (auto intro!: keepsI)
  then show ?thesis using 1 by (simp add: UIDragNDrop_onMouseDown_def Let_def split_beta)
qed

lemma onMouseUp_ok:
  "dnd_ok (uy_dragndrops st) \<Longrightarrow> dnd_ok (uy_dragndrops (fst (UIDragNDrop_onMouseUp x y st)))"
  using dnd_ok_for_each [of "up_one x y", OF keeps_up]
  by (simp add: UIDragNDrop_onMouseUp_def split_beta Let_def)

lemma hover_ok: "dnd_ok ds \<Longrightarrow> i \<le> length ds \<Longrightarrow> dnd_ok (fst (hover x y i ds evs))"
proof (induction i arbitrary: ds evs)
  case 0
  then show ?case by simp
next
  case (Suc i)
  have "dnd_ok (ds[i := fst (hover_one x y (ds ! i))])"
    using Suc.prems by (intro dnd_ok_update keeps_hover) simp_all
  then show ?case using Suc by (simp add: Let_def split_beta)
qed

lemma butlast_snoc_keeps:
  "ds \<noteq> [] \<Longrightarrow> keeps (last ds) e \<Longrightarrow> dnd_ok ds \<Longrightarrow> dnd_ok (butlast ds @ [e])"
proof -
  assume a: "ds \<noteq> []" "keeps (last ds) e" "dnd_ok ds"
  have "list_all2 keeps (butlast ds @ [last ds]) (butlast ds @ [e])"
    using a(2) by (intro list_all2_appendI) (simp_all add: list.rel_refl)
  from dnd_ok_keeps [OF this] show ?thesis using a(1,3) by simp
qed

lemma onMouseMove_ok:
  assumes "dnd_ok (uy_dragndrops st)" "UIDragNDrop_onMouseMove x y st = Inr (st', evs)"
  shows "dnd_ok (uy_dragndrops st')"
proof -
  have p: "keeps d (fst (move_pressed x y st d))" for d
    by (simp add: move_pressed_def keeps_drag keeps_resize)
  define ds1 where "ds1 = (if uy_mouse_down st
      then butlast (uy_dragndrops st) @ [fst (move_pressed x y st (last (uy_dragndrops st)))]
      else uy_dragndrops st)"
  have "dnd_ok ds1" using assms butlast_snoc_keeps [OF _ p assms(1)]
    by (auto simp: ds1_def UIDragNDrop_onMouseMove_def Let_def split: if_splits)
  from hover_ok [OF this, of "length ds1" x y] show ?thesis using assms(2)
    by (auto simp: UIDragNDrop_onMouseMove_def Let_def split_beta ds1_def split: if_splits)
qed

lemma render_ok:
  "dnd_ok (uy_dragndrops st) \<Longrightarrow> dnd_ok (uy_dragndrops (fst (UIDragNDrop_render sha tm (st, s))))"
  using dnd_ok_for_each [of "draw_shape sha tm", OF keeps_draw]
  by (cases s) (simp add: UIDragNDrop_render_def split_beta Let_def)

lemma inner_add_elements [simp]:
  "uy_dragndrops (fst (snd (inner_add sha d s))) = uy_dragndrops (fst s)"
  by (cases s; cases "dd_type d") (simp_all add: inner_add_def Let_def split_beta)

lemma inner_copy_elements [simp]:
  "uy_dragndrops (fst (inner_copy sha d s)) = uy_dragndrops (fst s)"
  "uy_dragndrops (fst (fold (inner_copy sha) ds s)) = uy_dragndrops (fst s)"
  "uy_dragndrops (fst (fold (\<lambda>_. inner_copy sha d) ds s)) = uy_dragndrops (fst s)"
  by (simp add: inner_copy_def, (induction ds arbitrary: s; simp add: inner_copy_def)+)

lemma keeps_inner_add: "keeps d (fst (inner_add sha d s))"
  by (cases s; cases "dd_type d") (auto simp: inner_add_def Let_def split_beta intro!: keepsI)
section \<open>Deleting\<close>

definition deletable :: "jsstring option \<Rightarrow> 'cb dragndrop \<Rightarrow> bool" where
  "deletable g d \<longleftrightarrow> dd_active d \<and> dd_selected d \<and> dd_group_id d = g"

lemma delete_from_none:
  "\<forall>d \<in> set (uy_dragndrops st). \<not> deletable g d \<Longrightarrow> delete_from sha g ks (st, store) = ((st, store), [], None)"
proof (induction ks)
  case Nil
  then show ?case by simp
next
  case (Cons i ks)
  then show ?case by (auto simp: deletable_def split: option.splits dest: js_get_in)
qed

lemma delete_from_one:
  assumes "length (filter (deletable g) (uy_dragndrops st)) \<le> 1"
    "\<forall>i < length (uy_dragndrops st). deletable g (uy_dragndrops st ! i) \<longrightarrow> i \<in> set ks"
  shows "uy_dragndrops (fst (fst (delete_from sha g ks (st, store)))) =
    filter (\<lambda>d. \<not> deletable g d) (uy_dragndrops st)"
  using assms
proof (induction ks)
  case Nil
  then have "\<forall>d \<in> set (uy_dragndrops st). \<not> deletable g d" by (auto simp: in_set_conv_nth)
  then show ?case by simp
next
  case (Cons i ks)
  let ?ds = "uy_dragndrops st"
  show ?case
  proof (cases "i < length ?ds \<and> deletable g (?ds ! i)")
    case True
    have split: "?ds = take i ?ds @ ?ds ! i # drop (Suc i) ?ds" using True id_take_nth_drop by blast
    have "length (filter (deletable g) (take i ?ds @ ?ds ! i # drop (Suc i) ?ds)) \<le> 1"
      using Cons.prems(1) split by simp
    then have "filter (deletable g) (take i ?ds) = []" "filter (deletable g) (drop (Suc i) ?ds) = []"
      using True by simp_all
    then have none: "\<forall>d \<in> set (take i ?ds @ drop (Suc i) ?ds). \<not> deletable g d"
      by (auto simp: filter_empty_conv)
    then have rest: "filter (\<lambda>d. \<not> deletable g d) ?ds = take i ?ds @ drop (Suc i) ?ds"
      by (subst split) (use True in \<open>simp add: filter_id_conv\<close>)
    have "uy_dragndrops (fst (fst (delete_from sha g ks s2))) = take i ?ds @ drop (Suc i) ?ds"
      if "uy_dragndrops (fst s2) = take i ?ds @ drop (Suc i) ?ds" for s2
      using delete_from_none [of "fst s2" g sha ks "snd s2"] none that by simp
    then show ?thesis using True unfolding rest
      by (simp add: js_get_def deletable_def [symmetric] Let_def split_beta splice_out_def)
  next
    case False
    then have "\<forall>j < length ?ds. deletable g (?ds ! j) \<longrightarrow> j \<in> set ks" using Cons.prems(2) by auto
    then show ?thesis using Cons.IH Cons.prems(1) False
      by (simp add: js_get_def deletable_def [symmetric])
  qed
qed

lemma exclusive_deletable: "exclusive ds \<Longrightarrow> length (filter (deletable g) ds) \<le> 1"
proof -
  assume "exclusive ds"
  have "filter (deletable g) ds = filter (\<lambda>d. dd_active d \<and> dd_group_id d = g) (filter dd_selected ds)"
    by (induction ds) (auto simp: deletable_def)
  with \<open>exclusive ds\<close> have "distinct (map dd_group_id (filter (deletable g) ds))"
    unfolding exclusive_def by (simp only: distinct_map_filter)
  moreover have "set (map dd_group_id (filter (deletable g) ds)) \<subseteq> {g}" by (auto simp: deletable_def)
  then have "card (set (map dd_group_id (filter (deletable g) ds))) \<le> 1"
    using card_mono [of "{g}"] by fastforce
  ultimately show ?thesis using distinct_card by fastforce
qed

lemma inner_clear_elements [simp]: "uy_dragndrops (inner_clear st) = uy_dragndrops st"
  by (simp add: inner_clear_def)

lemma deleteSelected_elements:
  "exclusive (uy_dragndrops st) \<Longrightarrow>
     uy_dragndrops (fst (fst (UIDragNDrop_deleteSelected sha g (st, store)))) =
       filter (\<lambda>d. \<not> deletable g d) (uy_dragndrops st)"
  using delete_from_one [of g "inner_clear st" "[0..<length (uy_dragndrops st)]" sha store]
    exclusive_deletable [of "uy_dragndrops st" g]
  by (simp add: UIDragNDrop_deleteSelected_def)

lemma dnd_ok_filter: "dnd_ok ds \<Longrightarrow> dnd_ok (filter P ds)"
  unfolding dnd_ok_def exclusive_sorted by (auto intro: sorted_wrt_filter)

section \<open>Reachable states\<close>

lemma dd_prepare_ok:
  "contained_at d (dd_angle d) \<Longrightarrow> (dd_grid_active d \<Longrightarrow> 0 < dd_distance d) \<Longrightarrow> dd_ok (dd_prepare d)"
  by (simp add: dd_ok_def centred_def contained_iff dd_prepare_def)

lemma dnd_ok_snoc: "dnd_ok ds \<Longrightarrow> dd_ok d \<Longrightarrow> \<not> dd_selected d \<Longrightarrow> dnd_ok (ds @ [d])"
  by (simp add: dnd_ok_def exclusive_def)

lemma add_ok:
  assumes "dnd_ok (uy_dragndrops (fst s))" "contained_at d (dd_angle d)"
    "dd_grid_active d \<Longrightarrow> 0 < dd_distance d"
  shows "dnd_ok (uy_dragndrops (fst (UIDragNDrop_add sha d s)))"
proof -
  have "keeps (dd_prepare d) (fst (inner_add sha (dd_prepare d) s))" by (rule keeps_inner_add)
  moreover have "\<not> dd_selected (dd_prepare d)" by (simp add: dd_prepare_def)
  ultimately show ?thesis using dnd_ok_snoc [OF assms(1)] dd_prepare_ok [OF assms(2,3)]
    by (simp add: UIDragNDrop_add_def split_beta Let_def keeps_def)
qed

text \<open>Everything that can happen to a \<open>UIDragNDrop\<close>, for elements that are added inside their
  container and grids with a positive distance. The list that replaces a group belongs to the
  group and has one selected element at most.\<close>

inductive dnd_reach :: "'cb uidragndrop \<Rightarrow> bool" where
  dr_new: "dnd_reach new_UIDragNDrop"
| dr_add: "dnd_reach st \<Longrightarrow> contained_at d (dd_angle d) \<Longrightarrow> (dd_grid_active d \<Longrightarrow> 0 < dd_distance d) \<Longrightarrow>
    dnd_reach (fst (UIDragNDrop_add sha d (st, store)))"
| dr_element: "dnd_reach st \<Longrightarrow> i < length (uy_dragndrops st) \<Longrightarrow>
    f \<in> {dd_setActive b, dd_setHighlight b, dd_setMainHighlight s, \<lambda>d. fst (dd_change d)} \<Longrightarrow>
    dnd_reach (st\<lparr>uy_dragndrops := (uy_dragndrops st)[i := f (uy_dragndrops st ! i)]\<rparr>)"
| dr_setEditable: "dnd_reach st \<Longrightarrow> dnd_reach (UIDragNDrop_setEditable b st)"
| dr_setGrid: "dnd_reach st \<Longrightarrow> (b \<Longrightarrow> 0 < e) \<Longrightarrow> dnd_reach (UIDragNDrop_setGrid b e st)"
| dr_setActive: "dnd_reach st \<Longrightarrow> dnd_reach (UIDragNDrop_setActiveByGroupID g b st)"
| dr_delete: "dnd_reach st \<Longrightarrow> dnd_reach (fst (fst (UIDragNDrop_deleteSelected sha g (st, store))))"
| dr_replace: "dnd_reach st \<Longrightarrow> dnd_ok ls \<Longrightarrow> (\<And>d. d \<in> set ls \<Longrightarrow> dd_group_id d = g) \<Longrightarrow>
    dnd_reach (fst (fst (UIDragNDrop_replaceElementsByGropID sha g ls b (st, store))))"
| dr_load: "(\<And>d. d \<in> set ls \<Longrightarrow> contained_at d (dd_angle d) \<and> (dd_grid_active d \<longrightarrow> 0 < dd_distance d)) \<Longrightarrow>
    dnd_reach st \<Longrightarrow> dnd_reach (fst (UIDragNDrop_loadSaved sha ls (st, store)))"
| dr_clear: "dnd_reach st \<Longrightarrow> dnd_reach (UIDragNDrop_clear st)"
| dr_down: "dnd_reach st \<Longrightarrow> dnd_reach (fst (UIDragNDrop_onMouseDown x y st))"
| dr_up: "dnd_reach st \<Longrightarrow> dnd_reach (fst (UIDragNDrop_onMouseUp x y st))"
| dr_move: "dnd_reach st \<Longrightarrow> UIDragNDrop_onMouseMove x y st = Inr (st', evs) \<Longrightarrow> dnd_reach st'"
| dr_render: "dnd_reach st \<Longrightarrow> dnd_reach (fst (UIDragNDrop_render sha tm (st, store, c)))"

lemma exclusive_groups:
  assumes "exclusive xs" "exclusive ys" "\<And>d e. d \<in> set xs \<Longrightarrow> e \<in> set ys \<Longrightarrow> dd_group_id d \<noteq> dd_group_id e"
  shows "exclusive (xs @ ys)"
  using assms unfolding exclusive_sorted sorted_wrt_append by blast

lemma replace_ok:
  assumes "dnd_ok (uy_dragndrops st)" "dnd_ok ls" "\<And>d. d \<in> set ls \<Longrightarrow> dd_group_id d = g"
  shows "dnd_ok (uy_dragndrops (fst (fst (UIDragNDrop_replaceElementsByGropID sha g ls b (st, store)))))"
proof -
  define added where "added = map (\<lambda>d. if b then d\<lparr>dd_active := True\<rparr> else d) ls"
  define kept where "kept = filter (\<lambda>d. dd_group_id d \<noteq> g) (uy_dragndrops st)"
  have "dnd_ok added" unfolding added_def
    by (rule dnd_ok_map [OF _ assms(2)]) (auto intro!: keepsI)
  moreover have "dnd_ok kept" unfolding kept_def by (rule dnd_ok_filter [OF assms(1)])
  moreover have "dd_group_id d \<noteq> dd_group_id e" if "d \<in> set kept" "e \<in> set added" for d e
    using that assms(3) by (auto simp: kept_def added_def split: if_splits)
  ultimately have "dnd_ok (kept @ added)"
    using exclusive_groups [of kept added] by (auto simp: dnd_ok_def)
  then show ?thesis
    by (simp add: UIDragNDrop_replaceElementsByGropID_def Let_def kept_def added_def)
qed

lemma load_ok:
  assumes "\<And>d. d \<in> set ls \<Longrightarrow> contained_at d (dd_angle d) \<and> (dd_grid_active d \<longrightarrow> 0 < dd_distance d)"
    "dnd_ok (uy_dragndrops (fst s))"
  shows "dnd_ok (uy_dragndrops (fst (fold (UIDragNDrop_add sha) ls s)))"
  using assms
proof (induction ls arbitrary: s)
  case Nil
  then show ?case by simp
next
  case (Cons d ls)
  have "dnd_ok (uy_dragndrops (fst (UIDragNDrop_add sha d s)))"
    using Cons.prems by (intro add_ok) auto
  then show ?case using Cons by simp
qed

lemma dnd_reach_ok: "dnd_reach st \<Longrightarrow> dnd_ok (uy_dragndrops st)"
proof (induction rule: dnd_reach.induct)
  case dr_new
  then show ?case by (simp add: dnd_ok_def new_UIDragNDrop_def exclusive_def)
next
  case (dr_add st d sha store)
  then show ?case using add_ok [of "(st, store)"] by simp
next
  case (dr_element st i f b s)
  have "keeps d (d\<lparr>dd_changed := True\<rparr>)" for d :: "'a dragndrop" by (rule keepsI) simp_all
  then have "keeps d (fst (dd_change d))" for d :: "'a dragndrop"
    using keeps_trans [OF _ keeps_change] by (auto simp: dd_change_def)
  moreover have "keeps d (dd_setActive b d)" "keeps d (dd_setHighlight b d)"
    "keeps d (dd_setMainHighlight s d)" for d :: "'a dragndrop"
    by (auto simp: dd_setActive_def dd_setHighlight_def dd_setMainHighlight_def intro!: keepsI)
  ultimately have "keeps d (f d)" for d using dr_element.hyps(3) by auto
  then show ?case using dr_element by (simp add: dnd_ok_update)
next
  case (dr_setEditable st b)
  then show ?case
    by (auto simp: UIDragNDrop_setEditable_def Let_def intro!: dnd_ok_map keepsI split: if_splits)
next
  case (dr_setGrid st b e)
  have "keeps d (d\<lparr>dd_grid_active := b, dd_distance := e\<rparr>)" for d :: "'a dragndrop"
    using dr_setGrid.hyps(2) by (auto simp: keeps_def dd_ok_def centred_def contained_iff)
  then show ?case using dr_setGrid by (simp add: UIDragNDrop_setGrid_def dnd_ok_map)
next
  case (dr_setActive st g b)
  then show ?case
    by (auto simp: UIDragNDrop_setActiveByGroupID_def intro!: dnd_ok_map keepsI split: if_splits)
next
  case (dr_delete st sha g store)
  then show ?case using deleteSelected_elements [of st] by (simp add: dnd_ok_def [of "uy_dragndrops st"])
      (metis dnd_ok_def dnd_ok_filter)
next
  case (dr_replace st ls g sha b store)
  then show ?case using replace_ok by blast
next
  case (dr_load ls st sha store)
  have "dnd_ok (uy_dragndrops (fst (UIDragNDrop_clear st, store)))"
    by (simp add: UIDragNDrop_clear_def dnd_ok_def exclusive_def)
  then show ?case using dr_load.hyps(1) load_ok [of ls "(UIDragNDrop_clear st, store)"]
    by (simp add: UIDragNDrop_loadSaved_def)
next
  case (dr_clear st)
  then show ?case by (simp add: UIDragNDrop_clear_def dnd_ok_def exclusive_def)
next
  case (dr_down st x y)
  then show ?case by (simp add: onMouseDown_ok)
next
  case (dr_up st x y)
  then show ?case by (simp add: onMouseUp_ok)
next
  case (dr_move st x y st' evs)
  then show ?case using onMouseMove_ok by blast
next
  case (dr_render st sha tm store c)
  then show ?case by (simp add: render_ok)
qed

text \<open>C1: In every reachable state, whatever was dragged, resized, turned, added or deleted, every
  element lies inside its container and turns about its middle.\<close>

theorem UIDragNDrop_stays_inside:
  assumes "dnd_reach st" "d \<in> set (uy_dragndrops st)"
  shows "contained_at d (dd_angle d) \<and> dd_center_x d = dd_x d + dd_width d / 2 \<and>
    dd_center_y d = dd_y d + dd_height d / 2"
  using dnd_reach_ok [OF assms(1)] assms(2) by (auto simp: dnd_ok_def dd_ok_def centred_def)

lemma demo_drag_contained: "contained_at (demo_drag 0) (dd_angle (demo_drag 0))"
  by (simp add: contained_iff in_range_def demo_drag_def half_straight)

definition demo_plan :: "nat uidragndrop" where
  "demo_plan = fst (UIDragNDrop_add (\<lambda>s. s) (demo_drag 0) (new_UIDragNDrop, empty_store))"

lemma demo_plan_reach: "dnd_reach demo_plan"
  unfolding demo_plan_def by (rule dr_add [OF dr_new demo_drag_contained]) (simp add: demo_drag_def)

lemma demo_plan_elements:
  "uy_dragndrops demo_plan = [dd_prepare (demo_drag 0)]"
  by (simp add: demo_plan_def UIDragNDrop_add_def inner_add_def dd_prepare_def demo_drag_def
      new_UIDragNDrop_def split_beta as_textbox_def)

theorem UIDragNDrop_stays_inside_witness:
  "contained_at (hd (uy_dragndrops (fst (UIDragNDrop_onMouseUp 50 50 demo_plan))))
     (dd_angle (hd (uy_dragndrops (fst (UIDragNDrop_onMouseUp 50 50 demo_plan)))))"
proof -
  have "hd (uy_dragndrops (fst (UIDragNDrop_onMouseUp 50 50 demo_plan)))
      \<in> set (uy_dragndrops (fst (UIDragNDrop_onMouseUp 50 50 demo_plan)))"
    by (rule hd_in_set) (simp add: UIDragNDrop_onMouseUp_def demo_plan_elements split_beta Let_def)
  from UIDragNDrop_stays_inside [OF dr_up [OF demo_plan_reach] this] show ?thesis by simp
qed

text \<open>C33: In every reachable state a group has at most one selected element, so that
  \<open>deleteSelected\<close>, which skips the element after a deleted one, still deletes exactly the
  selected visible element of the group and keeps the order of the others.\<close>

theorem deleteSelected_exact:
  assumes "dnd_reach st"
  shows "length (filter (\<lambda>d. dd_selected d \<and> dd_group_id d = g) (uy_dragndrops st)) \<le> 1 \<and>
    uy_dragndrops (fst (fst (UIDragNDrop_deleteSelected sha g (st, store)))) =
      filter (\<lambda>d. \<not> (dd_active d \<and> dd_selected d \<and> dd_group_id d = g)) (uy_dragndrops st)"
proof -
  have ex: "exclusive (uy_dragndrops st)" using dnd_reach_ok [OF assms] by (simp add: dnd_ok_def)
  have "length (filter (\<lambda>d. dd_selected d \<and> dd_group_id d = g) ds) \<le> 1" if "exclusive ds" for ds :: "'a dragndrop list"
  proof -
    have "exclusive (map (dd_setActive True) ds)"
      using that by (simp add: exclusive_def filter_map comp_def dd_setActive_def)
    from exclusive_deletable [OF this, of g] show ?thesis
      by (simp add: filter_map comp_def deletable_def dd_setActive_def)
  qed
  with ex deleteSelected_elements [OF ex] show ?thesis by (simp add: deletable_def)
qed

theorem deleteSelected_exact_witness:
  "uy_dragndrops (fst (fst (UIDragNDrop_deleteSelected (\<lambda>s. s) None (demo_plan, empty_store)))) =
     [dd_prepare (demo_drag 0)]"
  using deleteSelected_exact [OF demo_plan_reach, of None "\<lambda>s. s" empty_store]
  by (simp add: demo_plan_elements dd_prepare_def)
section \<open>Clicks\<close>

lemma concat_map_if: "concat (map (\<lambda>d. if P d then [f d] else []) ds) = map f (filter P ds)"
  by (induction ds) simp_all

lemma down_select_idle:
  "i \<le> length (uy_dragndrops st) \<Longrightarrow>
     \<forall>d \<in> set (uy_dragndrops st). \<not> (dd_edit_mode d \<and> dd_editable d) \<Longrightarrow>
     down_select x y i st = (st, [], False)"
proof (induction i)
  case 0
  then show ?case by simp
next
  case (Suc i)
  then have "uy_dragndrops st ! i \<in> set (uy_dragndrops st)" by simp
  then have "\<not> (dd_edit_mode (uy_dragndrops st ! i) \<and> dd_editable (uy_dragndrops st ! i))"
    using Suc.prems(2) by blast
  then show ?case using Suc by (auto simp: Let_def)
qed

lemma dd_hit_flags [simp]:
  "dd_hit (d\<lparr>dd_mouse_down_on := b\<rparr>) x y = dd_hit d x y" "dd_hit (d\<lparr>dd_selected := b\<rparr>) x y = dd_hit d x y"
  "dd_hit (d\<lparr>dd_mouse_down_action := a\<rparr>) x y = dd_hit d x y"
  "dd_hit (d\<lparr>dd_drawVerticalLine := v, dd_drawHorizontalLine := w\<rparr>) x y = dd_hit d x y"
  by (simp_all add: dd_hit_def inside_local_def circle_hit_def split: dd_type.splits)

lemma up_one_callbacks:
  assumes "centred d" "\<not> dd_changed d"
  shows "callbacks (snd (up_one x y i d evs)) = callbacks evs @
    (if dd_active d \<and> dd_hit d x y \<and> dd_mouse_down_on d
     then [DdClick (dd_callback d) (dd_displaytext d)] else [])"
  using assms by (simp add: up_one_def Let_def split_beta recentre_id changeHandler_def)

lemma up_loop_callbacks:
  "\<forall>d \<in> set ds. centred d \<and> \<not> dd_changed d \<Longrightarrow>
     callbacks (snd (for_each (up_one x y) i ds evs)) = callbacks evs @
       concat (map (\<lambda>d. if dd_active d \<and> dd_hit d x y \<and> dd_mouse_down_on d
         then [DdClick (dd_callback d) (dd_displaytext d)] else []) ds)"
proof (induction ds arbitrary: i evs)
  case Nil
  then show ?case by simp
next
  case (Cons d ds)
  then show ?case by (simp add: Let_def split_beta up_one_callbacks)
qed

text \<open>On a plan that is not edited, a press and a release call back every visible element that lies
  under both, hidden below another or not, in the order they were added, and no other.\<close>

theorem plan_click:
  assumes "\<And>d. d \<in> set (uy_dragndrops st) \<Longrightarrow>
    centred d \<and> \<not> dd_changed d \<and> \<not> dd_mouse_down_on d \<and> \<not> (dd_edit_mode d \<and> dd_editable d)"
  shows "callbacks (snd (UIDragNDrop_onMouseUp x' y' (fst (UIDragNDrop_onMouseDown x y st)))) =
    map (\<lambda>d. DdClick (dd_callback d) (dd_displaytext d))
      (filter (\<lambda>d. dd_active d \<and> dd_hit d x y \<and> dd_hit d x' y') (uy_dragndrops st))"
proof -
  let ?ds = "uy_dragndrops st"
  define D where "D = (\<lambda>d :: 'a dragndrop. if dd_active (press_hit x y d) \<and> over_container x y (press_hit x y d)
      then (press_hit x y d)\<lparr>dd_selected := False\<rparr> else press_hit x y d)"
  have "\<forall>d \<in> set (map (press_hit x y) ?ds). \<not> (dd_edit_mode d \<and> dd_editable d)"
    using assms by (auto simp: press_hit_def)
  then have "down_select x y (length ?ds) (st\<lparr>uy_dragndrops := map (press_hit x y) ?ds\<rparr>) =
      (st\<lparr>uy_dragndrops := map (press_hit x y) ?ds\<rparr>, [], False)"
    by (intro down_select_idle) simp_all
  then have down: "uy_dragndrops (fst (UIDragNDrop_onMouseDown x y st)) = map D ?ds"
    by (simp add: UIDragNDrop_onMouseDown_def Let_def comp_def D_def)
  have d: "centred (D d)" "\<not> dd_changed (D d)" "dd_active (D d) = dd_active d"
    "dd_hit (D d) x' y' = dd_hit d x' y'" "dd_mouse_down_on (D d) = (dd_active d \<and> dd_hit d x y)"
    "dd_callback (D d) = dd_callback d" "dd_displaytext (D d) = dd_displaytext d"
    if "d \<in> set ?ds" for d
    using assms [OF that] by (auto simp: press_hit_def centred_def D_def)
  have "\<forall>d \<in> set (map D ?ds). centred d \<and> \<not> dd_changed d" using d(1,2) by auto
  from up_loop_callbacks [OF this, of x' y' 0 "[]"]
  have "callbacks (snd (UIDragNDrop_onMouseUp x' y' (fst (UIDragNDrop_onMouseDown x y st)))) =
      concat (map (\<lambda>d. if dd_active d \<and> dd_hit d x' y' \<and> dd_mouse_down_on d
         then [DdClick (dd_callback d) (dd_displaytext d)] else []) (map D ?ds))"
    by (simp add: UIDragNDrop_onMouseUp_def split_beta Let_def down del: map_map)
  also have "\<dots> = concat (map (\<lambda>d. if dd_active d \<and> dd_hit d x y \<and> dd_hit d x' y'
         then [DdClick (dd_callback d) (dd_displaytext d)] else []) ?ds)"
    unfolding map_map by (rule arg_cong [of _ _ concat], rule map_cong [OF refl]) (auto simp: d)
  also have "\<dots> = map (\<lambda>d. DdClick (dd_callback d) (dd_displaytext d))
      (filter (\<lambda>d. dd_active d \<and> dd_hit d x y \<and> dd_hit d x' y') ?ds)"
    by (rule concat_map_if)
  finally show ?thesis .
qed

definition demo_table :: "nat dragndrop" where
  "demo_table = dd_prepare (demo_drag 0)\<lparr>dd_editable := False\<rparr>"

theorem plan_click_witness:
  "callbacks (snd (UIDragNDrop_onMouseUp 60 60 (fst (UIDragNDrop_onMouseDown 50 50
     (new_UIDragNDrop\<lparr>uy_dragndrops := [demo_table]\<rparr>))))) = [DdClick 1 (Some (DText (js ''T1'')))]"
proof -
  have "dd_hit demo_table x y = (40 \<le> x \<and> x \<le> 100 \<and> 40 \<le> y \<and> y \<le> 70)" for x y
    by (auto simp: dd_hit_def demo_table_def dd_prepare_def demo_drag_def inside_local_def in_box_def)
  then show ?thesis using plan_click [of "new_UIDragNDrop\<lparr>uy_dragndrops := [demo_table]\<rparr>" 60 60 50 50]
    by (simp add: centred_def) (simp add: demo_table_def dd_prepare_def demo_drag_def)
qed

section \<open>Errors and containers without a size\<close>

text \<open>When the only element of a plan is deleted while the mouse button is down, every mouse move
  until the button is released throws: \<open>onMouseMove\<close> reads the last element without a test.\<close>

theorem delete_while_pressed_throws:
  assumes "uy_dragndrops st = [d]" "dd_active d" "dd_selected d" "uy_mouse_down st"
  shows "UIDragNDrop_onMouseMove x y
      (fst (fst (UIDragNDrop_deleteSelected sha (dd_group_id d) (st, store)))) = Inl TypeError \<and>
    (\<exists>r. UIDragNDrop_onMouseMove x y (fst (UIDragNDrop_onMouseUp x' y'
      (fst (fst (UIDragNDrop_deleteSelected sha (dd_group_id d) (st, store)))))) = Inr r)"
proof -
  let ?st = "fst (fst (UIDragNDrop_deleteSelected sha (dd_group_id d) (st, store)))"
  have inner: "uy_mouse_down (fst (inner_copy sha e s)) = uy_mouse_down (fst s)"
    "uy_mouse_down (inner_clear st) = uy_mouse_down st" for e :: "'a dragndrop" and s and st :: "'a uidragndrop"
    by (cases s; cases "dd_type e")
      (simp_all add: inner_copy_def inner_add_def inner_clear_def split_beta Let_def)
  have "exclusive (uy_dragndrops st)" using assms(1) by (simp add: exclusive_def)
  then have "uy_dragndrops ?st = []" using assms by (simp add: deleteSelected_elements deletable_def)
  moreover have "uy_mouse_down ?st"
    using assms by (simp add: UIDragNDrop_deleteSelected_def js_get_def splice_out_def Let_def inner)
  ultimately show ?thesis
    by (simp add: UIDragNDrop_onMouseMove_def UIDragNDrop_onMouseUp_def split_beta Let_def)
qed

theorem delete_while_pressed_throws_witness:
  "UIDragNDrop_onMouseMove 1 2 (fst (fst (UIDragNDrop_deleteSelected (\<lambda>s. s) None
     (new_UIDragNDrop\<lparr>uy_dragndrops := [demo_drag 0], uy_mouse_down := True\<rparr>, empty_store)))) = Inl TypeError"
  using delete_while_pressed_throws [of "new_UIDragNDrop\<lparr>uy_dragndrops := [demo_drag 0], uy_mouse_down := True\<rparr>"
      "demo_drag 0" 1 2 "\<lambda>s. s" empty_store]
  by (simp add: demo_drag_def)

text \<open>An element that is added without a container width or height gets the size NaN from the
  selector string: it cannot be resized or turned at all, a click beside it never deselects it,
  and on the right or the bottom it can be dragged out of the plan.\<close>

theorem unsized_container:
  assumes "dd_contain_width d = None"
  shows "resize_to x y d = d \<and> \<not> over_container x y d \<and>
    (\<not> (dd_grid_active d \<and> dd_moveable d) \<and>
      half_x (dd_width d) (dd_height d) (dd_angle d) + dd_contain_x d \<le> px + dd_width d / 2
     \<longrightarrow> dd_x (drag_to px py d) = px)"
proof -
  obtain nx ny where n: "rotate (dd_center_x d) (dd_center_y d) x y (dd_angle d) = (nx, ny)"
    by (cases "rotate (dd_center_x d) (dd_center_y d) x y (dd_angle d)") auto
  show ?thesis using assms
    by (simp add: resize_to_def n Let_def contained_iff in_range_def over_container_def less_bound_def
        drag_to_axes drag_coord_def beyond_bound_def)
qed

theorem unsized_container_witness:
  "resize_to 500 500 ((demo_drag 0)\<lparr>dd_contain_width := None\<rparr>) = (demo_drag 0)\<lparr>dd_contain_width := None\<rparr>"
  using unsized_container [of "(demo_drag 0)\<lparr>dd_contain_width := None\<rparr>"] by simp

section \<open>Drawing\<close>

lemma well_nested_handles: "well_nested (frame_handles d)"
  unfolding frame_handles_def Let_def handle_rect_def
  by (simp add: well_nested_def [of "Save # _"] depth_after_append) (simp add: well_nested_def turn_about_def depth_after_append)

lemma UIDragNDrop_render_nested:
  "\<exists>cs. snd (snd (UIDragNDrop_render sha tm (st, store, c))) = c @ cs \<and> well_nested cs"
proof -
  have one: "\<exists>cs. snd (snd (snd (draw_shape sha tm j d s))) = snd (snd s) @ cs \<and> well_nested cs" for j d
    and s :: "'a uidragndrop \<times> image_store \<times> ctx"
    using UICircle_render_nested [of tm "(uy_circle (fst s))\<lparr>uc_circles := [as_circle d]\<rparr>"]
      UIText_render_nested [of tm "(uy_text (fst s))\<lparr>ut_texts := [as_text d]\<rparr>"]
      UITextBox_render_nested [of tm "(uy_textbox (fst s))\<lparr>ux_textboxes := [as_textbox d]\<rparr>"]
      UIImage_render_nested [of sha tm "(uy_image (fst s))\<lparr>um_images := [as_image d]\<rparr>" "fst (snd s)" "snd (snd s)"]
    by (cases s; cases "dd_type d") (simp_all add: draw_shape_def split_beta Let_def draws_nested_def)
  let ?r = "for_each (draw_shape sha tm) 0 (uy_dragndrops st) (st, store, c)"
  have "\<exists>cs. snd (snd (snd ?r)) = snd (snd (st, store, c)) @ cs \<and> well_nested cs"
    by (rule for_each_state [where R = "\<lambda>a b. \<exists>cs. snd (snd b) = snd (snd a) @ cs \<and> well_nested cs"])
      (use one in \<open>auto intro: well_nested_append\<close>)
  moreover have "well_nested (draw_selection d)" for d :: "'a dragndrop"
    by (auto simp: draw_selection_def grid_lines_def grid_line_def Let_def well_nested_handles split_beta
        intro!: well_nested_append split: vertical_line.splits horizontal_line.splits option.splits)
  ultimately show ?thesis
    by (auto simp: UIDragNDrop_render_def split_beta Let_def emit_def intro!: well_nested_append well_nested_concat)
qed

end
