(* ===== verification/ButtonRows.thy ===== *)
theory ButtonRows
  imports Lists Dialogs
begin

text \<open>
  \<open>UIButtonRow\<close> (\<open>canvasuijs/uibuttonrow.js\<close>): a row of rooms, one button each, that can be edited:
  rooms are added, renamed, recoloured, deleted and dragged to another place.

  The options \<open>i\<close> and \<open>callbackData\<close> of a room's button always agree, so the callback
  \<open>SelectRoom i\<close> stands for both. The callbacks of the buttons and of the dialogs of a row are the
  row's own closures and are carried out where the code calls them; the functions the row itself is
  given (\<open>callback\<close>, \<open>roomSelectCallback\<close>, \<open>roomDeleteCallback\<close>) are recorded as events. The array
  \<open>mouse_down_on_elements\<close> holds the button objects themselves; the copies here differ from them only
  in that a text drawn in the meantime is wrapped into an array once more; the closures that
  change a room are not called while it is dragged. Indices are compared with \<open>==\<close>, so strings and
  numbers are not told apart.
\<close>

section \<open>State\<close>

datatype row_call = SelectRoom nat | AddRoom
datatype row_closer = DialogClose | DeleteRoomConformation | RenameDialogClose
datatype row_out = RowDisable bool | RoomSelected nat | RoomDeleted "nat option"

record room =
  rm_displaytext :: "dtext option"
  rm_i :: nat
  rm_foreground :: jsstring
  rm_background :: "jsstring list"

record buttonrow =
  rw_x :: real
  rw_y :: real
  rw_gap :: real
  rw_contain_x :: real
  rw_contain_y :: real
  rw_contain_width :: real
  rw_contain_height :: real
  rw_dialog_x :: real
  rw_dialog_y :: real
  rw_dialog_width :: real
  rw_dialog_height :: real
  rw_elementOptions :: "row_call element_options"
  rw_name :: "jsstring option"
  rw_button :: "row_call button uibutton"
  rw_edit_button :: "row_call button uibutton"
  rw_add_button :: "row_call button uibutton"
  rw_change_name :: uidialog
  rw_closers :: "row_closer list"  \<comment> \<open>the callbacks of the dialogs of \<open>change_name\<close>\<close>
  rw_texts :: "dtext option list"  \<comment> \<open>their option \<open>text\<close>\<close>
  rw_editable :: bool
  rw_mouse_down_on :: "nat option"
  rw_mouse_down_on_x :: "real option"
  rw_mouse_down_on_elements :: "row_call button list option"
  rw_inputDisabled :: bool
  rw_add_room :: bool
  rw_index :: "nat option"

record uibuttonrow =
  ur_buttonrows :: "buttonrow list"

definition new_UIButtonRow :: uibuttonrow where
  "new_UIButtonRow = \<lparr>ur_buttonrows = []\<rparr>"

definition UIButtonRow_prepare :: "buttonrow \<Rightarrow> buttonrow" where
  "UIButtonRow_prepare r = r\<lparr>rw_button := new_UIButton, rw_edit_button := new_UIButton,
     rw_add_button := new_UIButton, rw_change_name := new_UIDialog, rw_closers := [],
     rw_texts := [], rw_editable := False, rw_mouse_down_on := None, rw_mouse_down_on_x := None,
     rw_mouse_down_on_elements := Some [], rw_inputDisabled := False, rw_add_room := False\<rparr>"

definition UIButtonRow_add :: "buttonrow \<Rightarrow> uibuttonrow \<Rightarrow> uibuttonrow" where
  "UIButtonRow_add r st = st\<lparr>ur_buttonrows := ur_buttonrows st @ [UIButtonRow_prepare r]\<rparr>"

section \<open>The closures of a row\<close>

definition room_of :: "row_call button \<Rightarrow> nat" where
  "room_of b = (case bt_callback b of SelectRoom i \<Rightarrow> i | AddRoom \<Rightarrow> 0)"

definition place_room :: "buttonrow \<Rightarrow> nat \<Rightarrow> row_call button \<Rightarrow> row_call button" where
  "place_room r i b = b\<lparr>bt_x := rw_x r + (bt_width b + rw_gap r) * real i, bt_y := rw_y r\<rparr>"

text \<open>\<open>addButton\<close>\<close>

definition row_addButton :: "buttonrow \<Rightarrow> buttonrow" where
  "row_addButton r =
     (let h = eo_height (rw_elementOptions r);
          b = \<lparr>bt_x = rw_x r + (eo_width (rw_elementOptions r) + rw_gap r)
                  * real (length (ub_buttons (rw_edit_button r))),
               bt_y = rw_y r, bt_width = h, bt_height = h,
               bt_background = [js ''#39f500'', js ''#32d600''], bt_foreground = js ''#000000'',
               bt_border = Some (js ''#39f500''), bt_hover_border = Some (js ''#32d600''),
               bt_border_width = Some 3, bt_border_radius = Some 10, bt_font_size = Some 50,
               bt_grd_type = Some Vertical, bt_align = None,
               bt_displaytext = Some (DText (trquote [10133])), bt_accept_keycode = [],
               bt_select_file = False, bt_selector_opened = False, bt_active = False,
               bt_name = None, bt_callback = AddRoom\<rparr>
      in r\<lparr>rw_add_button := UIButton_add b (UIButton_clear (rw_add_button r))\<rparr>)"

definition row_dialog :: "buttonrow \<Rightarrow> dialog_type \<Rightarrow> jsstring \<Rightarrow> dtext option \<Rightarrow> dialog" where
  "row_dialog r ty title txt =
     \<lparr>dg_type = ty, dg_name = Some (js ''room_name''), dg_alpha_x = rw_dialog_x r,
      dg_alpha_y = rw_dialog_y r, dg_alpha_width = rw_dialog_width r,
      dg_alpha_height = rw_dialog_height r, dg_width = 700, dg_height = 400,
      dg_border_width = Some 3, dg_background = [js ''#cecece''],
      dg_foreground = Some (js ''#a9a9a9''), dg_displaytext = Some (trquote title),
      dg_text = map_option dtext_string txt,
      dg_list_data = None, dg_button = new_UIButton, dg_textinput = new_UITextInput,
      dg_list = new_UIScrollList, dg_title = new_UIText\<rparr>"

definition row_open ::
  "int \<Rightarrow> dialog_type \<Rightarrow> jsstring \<Rightarrow> dtext option \<Rightarrow> row_closer \<Rightarrow> buttonrow \<Rightarrow> buttonrow" where
  "row_open now ty title txt closer r =
     r\<lparr>rw_change_name := UIDialog_add now (row_dialog r ty title txt) (rw_change_name r),
       rw_closers := rw_closers r @ [closer], rw_texts := rw_texts r @ [txt]\<rparr>"

definition row_close :: "buttonrow \<Rightarrow> buttonrow" where
  "row_close r = r\<lparr>rw_change_name := UIDialog_clear (rw_change_name r), rw_closers := [],
     rw_texts := []\<rparr>"

definition row_find_dialog :: "buttonrow \<Rightarrow> dialog option" where
  "row_find_dialog r = UIDialog_find (Some (js ''room_name'')) (rw_change_name r)"

text \<open>The input of a dialog that was opened with an array as text keeps that array: it cannot get
  the focus, because a press on it throws.\<close>

definition row_getText :: "buttonrow \<Rightarrow> dialog \<Rightarrow> dtext option" where
  "row_getText r d =
     (case rw_texts r of
        Some (DLines (l # ls)) # _ \<Rightarrow> Some (DLines (l # ls))
      | _ \<Rightarrow> map_option DText (dialog_getText d))"

definition row_recreateDialog :: "int \<Rightarrow> buttonrow \<Rightarrow> buttonrow" where
  "row_recreateDialog now r =
     (case row_find_dialog r of
        None \<Rightarrow> r
      | Some d \<Rightarrow>
          (if dg_type d = DlgTextInput
           then row_open now DlgTextInput (js ''Room Name'') (row_getText r d) DialogClose (row_close r)
           else row_open now DlgConformation (js ''Delete Room?'') None DeleteRoomConformation
                  (row_close r)))"

definition mark_room :: "row_call element_options \<Rightarrow> nat \<Rightarrow> row_call button \<Rightarrow> row_call button" where
  "mark_room eo room b =
     (if room_of b = room then b\<lparr>bt_border := Some (js ''#ffffff''), bt_border_width := Some 3\<rparr>
      else b\<lparr>bt_border := eo_border eo, bt_border_width := eo_border_width eo\<rparr>)"

definition row_roomSelected :: "nat \<Rightarrow> buttonrow \<Rightarrow> buttonrow \<times> row_out ui_event list" where
  "row_roomSelected room r =
     (let mark = (\<lambda>ub. ub\<lparr>ub_buttons := map (mark_room (rw_elementOptions r) room) (ub_buttons ub)\<rparr>)
      in (if \<not> rw_editable r then r\<lparr>rw_button := mark (rw_button r)\<rparr>
          else r\<lparr>rw_edit_button := mark (rw_edit_button r)\<rparr>,
          [Callback (RoomSelected room), Repaint]))"

definition row_changeColor :: "jsstring \<times> jsstring \<Rightarrow> buttonrow \<Rightarrow> buttonrow res"
  where
  "row_changeColor color r =
     (case rw_index r of
        None \<Rightarrow> Inl TypeError
      | Some i \<Rightarrow>
          (case js_get (ub_buttons (rw_edit_button r)) i of
             None \<Rightarrow> Inl TypeError
           | Some b \<Rightarrow> Inr (r\<lparr>rw_edit_button := (rw_edit_button r)
               \<lparr>ub_buttons := (ub_buttons (rw_edit_button r))
                  [i := b\<lparr>bt_background := [fst color], bt_foreground := snd color\<rparr>]\<rparr>\<rparr>)))"

text \<open>\<open>splice\<close> takes an index that is \<open>null\<close> as 0.\<close>

definition row_deleteRoomConformation ::
  "dialog_call \<Rightarrow> buttonrow \<Rightarrow> buttonrow \<times> row_out ui_event list" where
  "row_deleteRoomConformation call r =
     (if call = CallOk then
        (let place = (case rw_index r of None \<Rightarrow> 0 | Some i \<Rightarrow> i);
             bs = map (\<lambda>(i, b). place_room r i b)
                    (enumerate 0 (splice_out (ub_buttons (rw_edit_button r)) place));
             (r1, evs) = row_roomSelected (case bs of b # _ \<Rightarrow> room_of b | [] \<Rightarrow> 0)
                    (r\<lparr>rw_edit_button := (rw_edit_button r)\<lparr>ub_buttons := bs\<rparr>\<rparr>)
         in ((row_addButton (row_close (r1\<lparr>rw_index := None\<rparr>)))\<lparr>rw_inputDisabled := False\<rparr>,
             evs @ [Callback (RoomDeleted (rw_index r)), Callback (RowDisable False), Repaint]))
      else ((row_close r)\<lparr>rw_inputDisabled := False\<rparr>, [Callback (RowDisable False), Repaint]))"

definition row_deleteRoom :: "int \<Rightarrow> buttonrow \<Rightarrow> buttonrow \<times> row_out ui_event list" where
  "row_deleteRoom now r =
     (if rw_index r \<noteq> None
      then (row_open now DlgConformation (js ''Delete Room?'') None DeleteRoomConformation
              (r\<lparr>rw_inputDisabled := True\<rparr>), [Callback (RowDisable True)])
      else (r, []))"

text \<open>The button of a new room: \<open>elementOptions\<close> go over its text and colours.\<close>

definition room_button :: "dtext option \<Rightarrow> jsstring list \<Rightarrow> jsstring \<Rightarrow> row_call button" where
  "room_button txt bg fg =
     \<lparr>bt_x = 0, bt_y = 0, bt_width = 0, bt_height = 0, bt_background = bg, bt_foreground = fg,
      bt_border = None, bt_hover_border = None, bt_border_width = None, bt_border_radius = None,
      bt_font_size = None, bt_grd_type = None, bt_align = None, bt_displaytext = txt,
      bt_accept_keycode = [], bt_select_file = False, bt_selector_opened = False,
      bt_active = False, bt_name = None, bt_callback = AddRoom\<rparr>"

definition row_element :: "buttonrow \<Rightarrow> nat \<Rightarrow> row_call button \<Rightarrow> row_call button" where
  "row_element r i b =
     place_room r i ((spread_button b (rw_elementOptions r))\<lparr>bt_callback := SelectRoom i\<rparr>)"

definition row_dialogClose :: "dialog_call \<Rightarrow> buttonrow \<Rightarrow> (buttonrow \<times> row_out ui_event list) res" where
  "row_dialogClose action r =
     (let close = (\<lambda>r1. row_close (r1\<lparr>rw_inputDisabled := False\<rparr>))
      in if action = CallOk then
           (case row_find_dialog r of
              None \<Rightarrow> Inl TypeError
            | Some d \<Rightarrow>
                (let i = length (ub_buttons (rw_edit_button r));
                     b = row_element r i (room_button (row_getText r d)
                           [js ''#0000FF''] (js ''#FFFFFF''));
                     (r1, evs) = row_roomSelected i
                       (row_addButton (r\<lparr>rw_edit_button := UIButton_add b (rw_edit_button r)\<rparr>))
                 in Inr (close (r1\<lparr>rw_index := Some i\<rparr>), evs @ [Callback (RowDisable False)])))
         else Inr (close r, [Callback (RowDisable False)]))"

definition row_getList :: "buttonrow \<Rightarrow> room list" where
  "row_getList r =
     map (\<lambda>b. \<lparr>rm_displaytext = bt_displaytext b, rm_i = room_of b, rm_foreground = bt_foreground b,
              rm_background = bt_background b\<rparr>)
       (ub_buttons (if \<not> rw_editable r then rw_button r else rw_edit_button r))"

definition row_setList :: "room list \<Rightarrow> buttonrow \<Rightarrow> buttonrow" where
  "row_setList elements r =
     (let r1 = r\<lparr>rw_button := UIButton_clear (rw_button r),
                 rw_edit_button := UIButton_clear (rw_edit_button r)\<rparr>;
          bs = map (\<lambda>(i, e). row_element r i
                 (room_button (rm_displaytext e) (rm_background e) (rm_foreground e)))
                 (enumerate 0 elements)
      in if \<not> rw_editable r then r1\<lparr>rw_button := fold UIButton_add bs (rw_button r1)\<rparr>
         else r1\<lparr>rw_edit_button := fold UIButton_add bs (rw_edit_button r1)\<rparr>)"

definition row_edit :: "buttonrow \<Rightarrow> buttonrow" where
  "row_edit r =
     row_addButton ((if \<not> rw_editable r
        then r\<lparr>rw_edit_button := fold UIButton_add (ub_buttons (rw_button r)) (rw_edit_button r),
               rw_button := UIButton_clear (rw_button r)\<rparr>
        else r)\<lparr>rw_editable := True\<rparr>)"

definition row_stopEdit :: "bool \<Rightarrow> buttonrow \<Rightarrow> buttonrow" where
  "row_stopEdit save r =
     (if rw_editable r then
        row_close (r\<lparr>rw_button := (if save then fold UIButton_add (ub_buttons (rw_edit_button r)) (rw_button r)
                                   else rw_button r),
                     rw_edit_button := UIButton_clear (rw_edit_button r),
                     rw_add_button := UIButton_clear (rw_add_button r)\<rparr>)
      else r)\<lparr>rw_index := None, rw_editable := False\<rparr>"

definition row_set_text :: "nat \<Rightarrow> dtext option \<Rightarrow> buttonrow \<Rightarrow> buttonrow" where
  "row_set_text i txt r = r\<lparr>rw_edit_button := (rw_edit_button r)
     \<lparr>ub_buttons := (ub_buttons (rw_edit_button r))
        [i := (ub_buttons (rw_edit_button r) ! i)\<lparr>bt_displaytext := txt\<rparr>]\<rparr>\<rparr>"

definition row_renameDialogClose ::
  "dialog_call \<Rightarrow> buttonrow \<Rightarrow> (buttonrow \<times> row_out ui_event list) res" where
  "row_renameDialogClose action r =
     (let close = (\<lambda>r1. row_close (r1\<lparr>rw_inputDisabled := False\<rparr>));
          out = [Callback (RowDisable False)]
      in if action = CallOk then
           (case (row_find_dialog r, rw_index r) of
              (Some d, Some i) \<Rightarrow>
                (if i < length (ub_buttons (rw_edit_button r))
                 then Inr (close (row_set_text i (row_getText r d) r), out) else Inl TypeError)
            | _ \<Rightarrow> Inl TypeError)
         else Inr (close r, out))"

definition row_renameRoom :: "int \<Rightarrow> buttonrow \<Rightarrow> (buttonrow \<times> row_out ui_event list) res" where
  "row_renameRoom now r =
     (case rw_index r of
        None \<Rightarrow> Inl TypeError
      | Some i \<Rightarrow>
          (case js_get (ub_buttons (rw_edit_button r)) i of
             None \<Rightarrow> Inl TypeError
           | Some b \<Rightarrow>
               Inr ((row_open now DlgTextInput (js ''Room Name'')
                       (bt_displaytext b) RenameDialogClose r)
                      \<lparr>rw_inputDisabled := True, rw_add_room := True\<rparr>, [Callback (RowDisable True)])))"

section \<open>Calls back\<close>

definition row_call_run ::
  "int \<Rightarrow> row_call \<Rightarrow> buttonrow \<Rightarrow> buttonrow \<times> row_out ui_event list" where
  "row_call_run now call r =
     (case call of
        SelectRoom i \<Rightarrow> row_roomSelected i r
      | AddRoom \<Rightarrow>
          ((row_open now DlgTextInput (js ''Room Name'') (Some (DText [])) DialogClose r)
             \<lparr>rw_inputDisabled := True, rw_add_room := True\<rparr>, [Callback (RowDisable True)]))"

fun row_run ::
  "int \<Rightarrow> row_call ui_event list \<Rightarrow> buttonrow \<times> row_out ui_event list \<Rightarrow>
     buttonrow \<times> row_out ui_event list" where
  "row_run now [] acc = acc"
| "row_run now (Callback call # es) (r, out) =
     (let (r', out') = row_call_run now call r in row_run now es (r', out @ out'))"
| "row_run now (e # es) (r, out) = row_run now es (r, out @ part_events [e])"

text \<open>The three sets of buttons get an event one after the other; what they call back is carried
  out at once.\<close>

definition row_buttons ::
  "(row_call button uibutton \<Rightarrow> row_call button uibutton \<times> row_call ui_event list) \<Rightarrow> int \<Rightarrow>
     buttonrow \<times> row_out ui_event list \<Rightarrow> buttonrow \<times> row_out ui_event list" where
  "row_buttons h now = (\<lambda>(r, out).
     (let (ub, es) = h (rw_button r);
          (r1, out1) = row_run now es (r\<lparr>rw_button := ub\<rparr>, out);
          (ub2, es2) = h (rw_edit_button r1);
          (r2, out2) = row_run now es2 (r1\<lparr>rw_edit_button := ub2\<rparr>, out1);
          (ub3, es3) = h (rw_add_button r2)
      in row_run now es3 (r2\<lparr>rw_add_button := ub3\<rparr>, out2)))"

definition row_closer_run ::
  "row_closer \<Rightarrow> dialog_call \<Rightarrow> buttonrow \<Rightarrow> (buttonrow \<times> row_out ui_event list) res" where
  "row_closer_run cl call r =
     (case cl of
        DialogClose \<Rightarrow> row_dialogClose call r
      | DeleteRoomConformation \<Rightarrow> Inr (row_deleteRoomConformation call r)
      | RenameDialogClose \<Rightarrow> row_renameDialogClose call r)"

text \<open>A closer empties \<open>change_name\<close> in the middle of the loop over its dialogs. It runs before the
  key reaches the input of its dialog, so on the dialogs as they were; what the handler does to its
  own dialog afterwards is lost. When more dialogs follow, the loop goes on with an index that the
  new array does not have and throws.\<close>

definition row_dialogs_done ::
  "uidialog \<times> (nat \<times> dialog_call) ui_event list \<Rightarrow> buttonrow \<Rightarrow>
     (buttonrow \<times> row_out ui_event list) res" where
  "row_dialogs_done = (\<lambda>(ud, evs) r.
     (case callbacks evs of
        [] \<Rightarrow> Inr (r\<lparr>rw_change_name := ud\<rparr>, part_events evs)
      | (i, call) # _ \<Rightarrow>
          (let quiet = (\<lambda>e. callbacks [e] = [])
           in case js_get (rw_closers r) i of
                None \<Rightarrow> Inl TypeError
              | Some cl \<Rightarrow>
                  (case row_closer_run cl call r of
                     Inl e \<Rightarrow> Inl e
                   | Inr (r', out) \<Rightarrow>
                       (if Suc i < length (ud_dialogs (rw_change_name r)) then Inl TypeError
                        else Inr (r', part_events (takeWhile quiet evs) @ out
                               @ part_events (dropWhile quiet evs)))))))"

section \<open>The handlers of one row\<close>

definition row_frame :: "buttonrow \<Rightarrow> gfx list" where
  "row_frame r =
     (if rw_editable r then
        concat (map (\<lambda>(j, b). if rw_index r = Some j
          then [SetLineWidth (Some 2), SetStroke (PColor (js ''#FF0000'')),
                StrokeRect (bt_x b - 5) (bt_y b - 5) (bt_width b + 10) (bt_height b + 10)]
          else []) (enumerate 0 (ub_buttons (rw_edit_button r))))
      else [])"

definition row_render ::
  "text_measure \<Rightarrow> int \<Rightarrow> nat \<Rightarrow> buttonrow \<Rightarrow> ctx \<Rightarrow> (buttonrow \<times> ctx) option" where
  "row_render tm now i r c =
     (let (ub, c1) = UIButton_render tm (rw_button r) (emit (row_frame r) c);
          (ub2, c2) = UIButton_render tm (rw_edit_button r) c1;
          (ub3, c3) = UIButton_render tm (rw_add_button r) c2
      in case UIDialog_render tm now (rw_change_name r) c3 of
           None \<Rightarrow> None
         | Some (ud, c4) \<Rightarrow> Some (r\<lparr>rw_button := ub, rw_edit_button := ub2, rw_add_button := ub3,
             rw_change_name := ud\<rparr>, c4))"

definition row_onClick ::
  "int \<Rightarrow> real \<Rightarrow> real \<Rightarrow> buttonrow \<Rightarrow> (buttonrow \<times> row_out ui_event list) res" where
  "row_onClick now x y r =
     (let (r1, out) = (if \<not> rw_inputDisabled r then row_buttons (UIButton_onClick x y) now (r, [])
                       else (r, []))
      in case row_dialogs_done (UIDialog_onClick x y (rw_change_name r1)) r1 of
           Inl e \<Rightarrow> Inl e
         | Inr (r2, out2) \<Rightarrow> Inr (r2, out @ out2))"

text \<open>The loop over the rooms ends the whole handler at the first room that is hit.\<close>

fun row_press ::
  "real \<Rightarrow> real \<Rightarrow> nat \<Rightarrow> row_call button list \<Rightarrow> buttonrow \<times> row_out ui_event list \<Rightarrow>
     buttonrow \<times> row_out ui_event list \<times> bool" where
  "row_press x y j [] (r, out) = (r, out, False)"
| "row_press x y j (b # bs) (r, out) =
     (if button_hit x y b then
        (let (r1, es) = row_roomSelected (room_of b) (r\<lparr>rw_index := Some j\<rparr>)
         in (r1\<lparr>rw_mouse_down_on := Some j, rw_mouse_down_on_x := Some (x - bt_x b),
                rw_mouse_down_on_elements := Some (ub_buttons (rw_edit_button r1))\<rparr>,
             out @ es @ [Repaint], True))
      else if in_box (rw_contain_x r) (rw_contain_y r) (rw_contain_x r + rw_contain_width r)
                (rw_contain_y r + rw_contain_height r) x y
      then row_press x y (Suc j) bs (r\<lparr>rw_index := None\<rparr>, out @ [Repaint])
      else row_press x y (Suc j) bs (r, out))"

text \<open>A press on an input whose text is an array throws: \<open>slice\<close> of it has no \<open>substring\<close>.\<close>

definition press_throws :: "real \<Rightarrow> real \<Rightarrow> buttonrow \<Rightarrow> bool" where
  "press_throws x y r \<longleftrightarrow>
     list_ex (\<lambda>(d, t). (case t of Some (DLines (l # ls)) \<Rightarrow> True | _ \<Rightarrow> False)
         \<and> list_ex (input_hit x y) (un_textinputs (dg_textinput d)))
       (zip (ud_dialogs (rw_change_name r)) (rw_texts r))"

definition row_onMouseDown ::
  "text_measure \<Rightarrow> int \<Rightarrow> real \<Rightarrow> real \<Rightarrow> buttonrow \<Rightarrow> ctx \<times> row_out ui_event list \<Rightarrow>
     (buttonrow \<times> (ctx \<times> row_out ui_event list) \<times> bool) res" where
  "row_onMouseDown tm now x y r = (\<lambda>(c, out).
     (if press_throws x y r then Inl TypeError
      else
        (let (ud, c1, evs) = UIDialog_onMouseDown tm x y (rw_change_name r) c;
             r1 = r\<lparr>rw_change_name := ud\<rparr>;
             out1 = out @ part_events evs
         in if \<not> rw_inputDisabled r1 then
              (let (r2, out2) = row_buttons (UIButton_onMouseDown x y) now (r1, out1);
                   (r3, out3, stop) =
                     (if rw_editable r2
                      then row_press x y 0 (ub_buttons (rw_edit_button r2)) (r2, out2)
                      else (r2, out2, False))
               in Inr (r3, (c1, out3), stop))
            else Inr (r1, (c1, out1), False))))"

definition row_onMouseUp ::
  "int \<Rightarrow> real \<Rightarrow> real \<Rightarrow> nat \<Rightarrow> buttonrow \<Rightarrow> row_out ui_event list \<Rightarrow>
     buttonrow \<times> row_out ui_event list" where
  "row_onMouseUp now x y i r out =
     (let (ud, evs) = UIDialog_onMouseUp x y (rw_change_name r);
          r1 = r\<lparr>rw_change_name := ud\<rparr>;
          (r2, out2) = (if \<not> rw_inputDisabled r1
             then row_buttons (UIButton_onMouseUp x y) now (r1, out @ part_events evs)
             else (r1, out @ part_events evs))
      in (r2\<lparr>rw_mouse_down_on := None, rw_mouse_down_on_x := None,
             rw_mouse_down_on_elements := None\<rparr>, out2))"

definition moveItem :: "'a list \<Rightarrow> nat \<Rightarrow> nat \<Rightarrow> 'a list" where
  "moveItem arr itemIndex targetIndex =
     splice_in (splice_out arr itemIndex) targetIndex (arr ! itemIndex)"

text \<open>The place under the mouse: \<open>(x - buttonrow.x) / step\<close> when that is positive, at most the last
  place. A step of 0 gives an infinity or NaN.\<close>

definition row_target :: "real \<Rightarrow> real \<Rightarrow> nat \<Rightarrow> nat option" where
  "row_target dx step n =
     (if step = 0 then (if dx > 0 then Some (n - 1) else None)
      else if dx / step > 0 then Some (if dx / step \<ge> real n then n - 1 else nat \<lfloor>dx / step\<rfloor>)
      else None)"

definition row_drag :: "real \<Rightarrow> nat \<Rightarrow> row_call button list \<Rightarrow> buttonrow \<Rightarrow> buttonrow \<times> bool" where
  "row_drag x pressed elements r =
     (let step = bt_width (hd elements) + rw_gap r
      in case row_target (x - rw_x r) step (length elements) of
           None \<Rightarrow> (r, False)
         | Some t \<Rightarrow>
             (r\<lparr>rw_index := Some t,
                rw_edit_button := (rw_edit_button r)
                  \<lparr>ub_buttons := map (\<lambda>(j, b). b\<lparr>bt_x := rw_x r + step * real j\<rparr>)
                     (enumerate 0 (moveItem elements pressed t)),
                   ub_mouse_down_on := (if t \<noteq> pressed then None
                                        else ub_mouse_down_on (rw_edit_button r))\<rparr>\<rparr>, True))"

definition row_onMouseMove ::
  "int \<Rightarrow> real \<Rightarrow> real \<Rightarrow> buttonrow \<Rightarrow> (buttonrow \<times> row_out ui_event list) res" where
  "row_onMouseMove now x y r =
     (let (ud, evs) = UIDialog_onMouseMove x y (rw_change_name r);
          r1 = r\<lparr>rw_change_name := ud\<rparr>
      in if \<not> rw_inputDisabled r1 then
           (let (r2, out) = row_buttons (UIButton_onMouseMove x y) now (r1, part_events evs)
            in case rw_mouse_down_on r2 of
                 None \<Rightarrow> Inr (r2, out)
               | Some pressed \<Rightarrow>
                   (case rw_mouse_down_on_elements r2 of
                      None \<Rightarrow> Inl TypeError
                    | Some [] \<Rightarrow> Inl TypeError
                    | Some elements \<Rightarrow>
                        (let (r3, moved) = row_drag x pressed elements r2
                         in Inr (r3, out @ (if moved then [Repaint] else [])))))
         else Inr (r1, part_events evs))"

definition row_onKeyDown :: "nat \<Rightarrow> buttonrow \<Rightarrow> (buttonrow \<times> row_out ui_event list) res" where
  "row_onKeyDown keyCode r = row_dialogs_done (UIDialog_onKeyDown keyCode (rw_change_name r)) r"

definition row_onKeyUp :: "nat \<Rightarrow> buttonrow \<Rightarrow> buttonrow" where
  "row_onKeyUp keyCode r = r\<lparr>rw_change_name := UIDialog_onKeyUp keyCode (rw_change_name r)\<rparr>"

section \<open>The handlers of the class\<close>

text \<open>A loop whose body may throw.\<close>

fun each_row ::
  "(buttonrow \<Rightarrow> (buttonrow \<times> row_out ui_event list) res) \<Rightarrow> buttonrow list \<Rightarrow>
     (buttonrow list \<times> row_out ui_event list) res" where
  "each_row f [] = Inr ([], [])"
| "each_row f (r # rs) =
     (case f r of
        Inl e \<Rightarrow> Inl e
      | Inr (r', out) \<Rightarrow>
          (case each_row f rs of
             Inl e \<Rightarrow> Inl e
           | Inr (rs', out') \<Rightarrow> Inr (r' # rs', out @ out')))"

definition row_handler ::
  "(buttonrow \<Rightarrow> (buttonrow \<times> row_out ui_event list) res) \<Rightarrow> uibuttonrow \<Rightarrow>
     (uibuttonrow \<times> row_out ui_event list) res" where
  "row_handler f st =
     (case each_row f (ur_buttonrows st) of
        Inl e \<Rightarrow> Inl e
      | Inr (rs, out) \<Rightarrow> Inr (st\<lparr>ur_buttonrows := rs\<rparr>, out))"

definition UIButtonRow_render ::
  "text_measure \<Rightarrow> int \<Rightarrow> uibuttonrow \<Rightarrow> ctx \<Rightarrow> (uibuttonrow \<times> ctx) option" where
  "UIButtonRow_render tm now st c =
     (case for_each_opt (row_render tm now) 0 (ur_buttonrows st) c of
        None \<Rightarrow> None
      | Some (rs, c') \<Rightarrow> Some (st\<lparr>ur_buttonrows := rs\<rparr>, c'))"

definition UIButtonRow_onClick where
  "UIButtonRow_onClick now x y = row_handler (row_onClick now x y)"

fun down_rows ::
  "text_measure \<Rightarrow> int \<Rightarrow> real \<Rightarrow> real \<Rightarrow> buttonrow list \<Rightarrow> ctx \<times> row_out ui_event list \<Rightarrow>
     (buttonrow list \<times> ctx \<times> row_out ui_event list) res" where
  "down_rows tm now x y [] acc = Inr ([], acc)"
| "down_rows tm now x y (r # rs) acc =
     (case row_onMouseDown tm now x y r acc of
        Inl e \<Rightarrow> Inl e
      | Inr (r', acc', stop) \<Rightarrow>
          (if stop then Inr (r' # rs, acc')
           else (case down_rows tm now x y rs acc' of
                   Inl e \<Rightarrow> Inl e
                 | Inr (rs', acc'') \<Rightarrow> Inr (r' # rs', acc''))))"

definition UIButtonRow_onMouseDown ::
  "text_measure \<Rightarrow> int \<Rightarrow> real \<Rightarrow> real \<Rightarrow> uibuttonrow \<Rightarrow> ctx \<Rightarrow>
     (uibuttonrow \<times> ctx \<times> row_out ui_event list) res" where
  "UIButtonRow_onMouseDown tm now x y st c =
     (case down_rows tm now x y (ur_buttonrows st) (c, []) of
        Inl e \<Rightarrow> Inl e
      | Inr (rs, c', out) \<Rightarrow> Inr (st\<lparr>ur_buttonrows := rs\<rparr>, c', out))"

definition UIButtonRow_onMouseUp ::
  "int \<Rightarrow> real \<Rightarrow> real \<Rightarrow> uibuttonrow \<Rightarrow> uibuttonrow \<times> row_out ui_event list" where
  "UIButtonRow_onMouseUp now x y st =
     (let (rs, out) = for_each (row_onMouseUp now x y) 0 (ur_buttonrows st) []
      in (st\<lparr>ur_buttonrows := rs\<rparr>, out))"

definition UIButtonRow_onMouseMove where
  "UIButtonRow_onMouseMove now x y = row_handler (row_onMouseMove now x y)"

definition UIButtonRow_onKeyDown where
  "UIButtonRow_onKeyDown keyCode = row_handler (row_onKeyDown keyCode)"

definition UIButtonRow_onKeyUp :: "nat \<Rightarrow> uibuttonrow \<Rightarrow> uibuttonrow" where
  "UIButtonRow_onKeyUp keyCode st =
     st\<lparr>ur_buttonrows := map (row_onKeyUp keyCode) (ur_buttonrows st)\<rparr>"

definition UIButtonRow_find :: "jsstring option \<Rightarrow> uibuttonrow \<Rightarrow> buttonrow option" where
  "UIButtonRow_find name st = List.find (\<lambda>r. rw_name r = name) (ur_buttonrows st)"

end
