(* ===== verification/Rooms.thy ===== *)
theory Rooms
  imports ButtonRows
begin

text \<open>
  What holds of the rows of rooms of \<open>ButtonRows\<close>: the invariant of a row (its rooms stand in a row
  with one gap between them, in one of the two sets of buttons), kept by every handler and closure;
  what dragging, editing, adding and deleting do to the rooms; the dialogs of a row.
\<close>

section \<open>The invariant of a row\<close>

definition place_of :: "row_call button \<Rightarrow> real \<times> real \<times> real" where
  "place_of b = (bt_x b, bt_y b, bt_width b)"

definition geom :: "row_call button \<Rightarrow> (real \<times> real \<times> real) \<times> row_call" where
  "geom b = (place_of b, bt_callback b)"

definition spot :: "buttonrow \<Rightarrow> nat \<Rightarrow> real \<times> real \<times> real" where
  "spot r k = (rw_x r + (eo_width (rw_elementOptions r) + rw_gap r) * real k, rw_y r,
     eo_width (rw_elementOptions r))"

definition laid_out :: "buttonrow \<Rightarrow> row_call button list \<Rightarrow> bool" where
  "laid_out r bs \<longleftrightarrow> map place_of bs = map (spot r) [0..<length bs] \<and> AddRoom \<notin> bt_callback ` set bs"

definition row_ok :: "buttonrow \<Rightarrow> bool" where
  "row_ok r \<longleftrightarrow> laid_out r (ub_buttons (rw_button r)) \<and> laid_out r (ub_buttons (rw_edit_button r)) \<and>
     (rw_editable r \<longrightarrow> ub_buttons (rw_button r) = []) \<and>
     (\<not> rw_editable r \<longrightarrow> ub_buttons (rw_edit_button r) = [] \<and> ub_buttons (rw_add_button r) = [] \<and>
        ud_dialogs (rw_change_name r) = [] \<and> rw_mouse_down_on r = None \<and> rw_index r = None) \<and>
     (\<forall>j. rw_mouse_down_on r = Some j \<longrightarrow>
        (\<exists>es. rw_mouse_down_on_elements r = Some es \<and> j < length es \<and> laid_out r es))"

lemma laid_out_Nil [simp]: "laid_out r []"
  by (simp add: laid_out_def)

lemma laid_out_geom: "map geom bs = map geom bs' \<Longrightarrow> laid_out r bs \<longleftrightarrow> laid_out r bs'"
proof -
  assume g: "map geom bs = map geom bs'"
  have "map place_of xs = map fst (map geom xs)" "bt_callback ` set xs = set (map snd (map geom xs))"
    for xs by (auto simp: geom_def image_iff)
  then show ?thesis using g map_eq_imp_length_eq [OF g] by (simp only: laid_out_def)
qed

definition frame_of where
  "frame_of r = (rw_x r, rw_y r, rw_gap r, rw_elementOptions r, rw_editable r, rw_mouse_down_on r,
     rw_mouse_down_on_elements r)"

lemma laid_out_frame: "frame_of r' = frame_of r \<Longrightarrow> laid_out r' = laid_out r"
proof -
  assume "frame_of r' = frame_of r"
  then have s: "spot r' = spot r" by (simp add: frame_of_def spot_def fun_eq_iff)
  show ?thesis by (rule ext) (simp only: laid_out_def s)
qed

lemma row_ok_frame:
  assumes "row_ok r" "frame_of r' = frame_of r"
    and "map geom (ub_buttons (rw_button r')) = map geom (ub_buttons (rw_button r))"
    and "map geom (ub_buttons (rw_edit_button r')) = map geom (ub_buttons (rw_edit_button r))"
    and "\<not> rw_editable r \<Longrightarrow> ub_buttons (rw_add_button r') = [] \<and>
      ud_dialogs (rw_change_name r') = [] \<and> rw_index r' = None"
  shows "row_ok r'"
proof -
  have f: "rw_editable r' = rw_editable r" "rw_mouse_down_on r' = rw_mouse_down_on r"
    "rw_mouse_down_on_elements r' = rw_mouse_down_on_elements r"
    using assms(2) by (simp_all add: frame_of_def)
  have "ub_buttons (rw_button r') = [] \<longleftrightarrow> ub_buttons (rw_button r) = []"
    "ub_buttons (rw_edit_button r') = [] \<longleftrightarrow> ub_buttons (rw_edit_button r) = []"
    using map_eq_imp_length_eq [OF assms(3)] map_eq_imp_length_eq [OF assms(4)] by force+
  then show ?thesis
    using assms(1,5) unfolding row_ok_def laid_out_frame [OF assms(2)] f
      laid_out_geom [OF assms(3)] laid_out_geom [OF assms(4)] by simp
qed

section \<open>Handlers of buttons\<close>

text \<open>What the row relies on: a handler of \<open>UIButton\<close> moves no button and calls back only its
  own.\<close>

locale button_handler =
  fixes h :: "row_call button uibutton \<Rightarrow> row_call button uibutton \<times> row_call ui_event list"
  assumes geom_kept: "map geom (ub_buttons (fst (h ub))) = map geom (ub_buttons ub)"
    and calls_own: "set (callbacks (snd (h ub))) \<subseteq> bt_callback ` set (ub_buttons ub)"

lemma geom_same: "list_all2 same_button bs bs' \<Longrightarrow> map geom bs' = map geom bs"
proof (induction rule: list_all2_induct)
  case (Cons b bs b' bs')
  then have "bt_x b' = bt_x b \<and> bt_y b' = bt_y b \<and> bt_width b' = bt_width b \<and> bt_callback b' = bt_callback b"
    unfolding same_button_def by (cases b; cases b') simp
  with Cons.IH show ?case by (simp add: geom_def place_of_def)
qed simp

lemma geom_mark [simp]: "geom (mark_room eo room b) = geom b"
  by (simp add: geom_def place_of_def mark_room_def)

lemma geom_marks [simp]: "map (geom \<circ> mark_room eo room) bs = map geom bs"
  by simp

interpretation click: button_handler "UIButton_onClick x y" for x y
proof
  show "map geom (ub_buttons (fst (UIButton_onClick x y ub))) = map geom (ub_buttons ub)" for ub
    by (rule geom_same [OF click_keeps_buttons])
  show "set (callbacks (snd (UIButton_onClick x y ub))) \<subseteq> bt_callback ` set (ub_buttons ub)" for ub
    by (auto simp: click_events clicked_def split: option.splits if_splits)
qed

interpretation down: button_handler "UIButton_onMouseDown x y" for x y
  by unfold_locales (auto simp: UIButton_onMouseDown_def split: option.splits)

interpretation up: button_handler "UIButton_onMouseUp x y" for x y
  by unfold_locales (auto simp: UIButton_onMouseUp_def)

interpretation move: button_handler "UIButton_onMouseMove x y" for x y
  by unfold_locales (auto simp: UIButton_onMouseMove_def split: option.splits)

lemma roomSelected_frame:
  "frame_of (fst (row_roomSelected room r)) = frame_of r"
  "map geom (ub_buttons (rw_button (fst (row_roomSelected room r)))) = map geom (ub_buttons (rw_button r))"
  "map geom (ub_buttons (rw_edit_button (fst (row_roomSelected room r)))) =
     map geom (ub_buttons (rw_edit_button r))"
  "rw_add_button (fst (row_roomSelected room r)) = rw_add_button r"
  "rw_change_name (fst (row_roomSelected room r)) = rw_change_name r"
  "rw_index (fst (row_roomSelected room r)) = rw_index r"
  "rw_inputDisabled (fst (row_roomSelected room r)) = rw_inputDisabled r"
  "rw_closers (fst (row_roomSelected room r)) = rw_closers r"
  by (simp_all add: row_roomSelected_def Let_def frame_of_def)

lemma roomSelected_ok: "row_ok r \<Longrightarrow> row_ok (fst (row_roomSelected room r))"
  by (rule row_ok_frame [of r]) (simp_all add: roomSelected_frame, simp add: row_ok_def)

lemma call_run_ok:
  assumes "row_ok r" "call = AddRoom \<Longrightarrow> rw_editable r"
  shows "row_ok (fst (row_call_run now call r)) \<and>
    frame_of (fst (row_call_run now call r)) = frame_of r \<and>
    map geom (ub_buttons (rw_add_button (fst (row_call_run now call r)))) = map geom (ub_buttons (rw_add_button r))"
proof (cases call)
  case (SelectRoom i)
  then show ?thesis using assms by (simp add: row_call_run_def roomSelected_ok roomSelected_frame)
next
  case AddRoom
  then show ?thesis using assms
    by (auto simp: row_call_run_def row_open_def frame_of_def intro!: row_ok_frame [OF assms(1)])
qed

lemma run_ok:
  assumes "row_ok r" "AddRoom \<in> set (callbacks es) \<Longrightarrow> rw_editable r"
  shows "row_ok (fst (row_run now es (r, out))) \<and>
    frame_of (fst (row_run now es (r, out))) = frame_of r \<and>
    map geom (ub_buttons (rw_add_button (fst (row_run now es (r, out))))) =
      map geom (ub_buttons (rw_add_button r))"
  using assms
proof (induction es arbitrary: r out)
  case Nil
  then show ?case by simp
next
  case (Cons e es)
  show ?case
  proof (cases e)
    case (Callback call)
    obtain r' o' where c: "row_call_run now call r = (r', o')" by fastforce
    with call_run_ok [of r call now] Cons.prems Callback
    have r': "row_ok r'" "frame_of r' = frame_of r"
      "map geom (ub_buttons (rw_add_button r')) = map geom (ub_buttons (rw_add_button r))" by auto
    then have "rw_editable r' = rw_editable r" by (simp add: frame_of_def)
    with Cons.IH [of r' "out @ o'"] Cons.prems r' Callback c show ?thesis by auto
  qed (use Cons in auto)
qed

context button_handler
begin

lemma buttons_ok:
  assumes "row_ok r"
  shows "row_ok (fst (row_buttons h now (r, out))) \<and> frame_of (fst (row_buttons h now (r, out))) = frame_of r"
proof -
  obtain ub es where h1: "h (rw_button r) = (ub, es)" by fastforce
  define r0 where "r0 = r\<lparr>rw_button := ub\<rparr>"
  obtain r1 o1 where c1: "row_run now es (r0, out) = (r1, o1)" by fastforce
  obtain ub2 es2 where h2: "h (rw_edit_button r1) = (ub2, es2)" by fastforce
  define r2 where "r2 = r1\<lparr>rw_edit_button := ub2\<rparr>"
  obtain r3 o3 where c3: "row_run now es2 (r2, o1) = (r3, o3)" by fastforce
  obtain ub3 es3 where h3: "h (rw_add_button r3) = (ub3, es3)" by fastforce
  define r4 where "r4 = r3\<lparr>rw_add_button := ub3\<rparr>"
  have g: "map geom (ub_buttons ub) = map geom (ub_buttons (rw_button r))"
    "map geom (ub_buttons ub2) = map geom (ub_buttons (rw_edit_button r1))"
    "map geom (ub_buttons ub3) = map geom (ub_buttons (rw_add_button r3))"
    using geom_kept [of "rw_button r"] geom_kept [of "rw_edit_button r1"]
      geom_kept [of "rw_add_button r3"] by (simp_all add: h1 h2 h3)
  have c: "set (callbacks es) \<subseteq> bt_callback ` set (ub_buttons (rw_button r))"
    "set (callbacks es2) \<subseteq> bt_callback ` set (ub_buttons (rw_edit_button r1))"
    "set (callbacks es3) \<subseteq> bt_callback ` set (ub_buttons (rw_add_button r3))"
    using calls_own [of "rw_button r"] calls_own [of "rw_edit_button r1"]
      calls_own [of "rw_add_button r3"] by (simp_all add: h1 h2 h3)
  have ok: "row_ok s \<Longrightarrow> AddRoom \<notin> bt_callback ` set (ub_buttons (rw_button s)) \<and>
      AddRoom \<notin> bt_callback ` set (ub_buttons (rw_edit_button s)) \<and>
      (rw_editable s \<or> ub_buttons (rw_add_button s) = [] \<and> ud_dialogs (rw_change_name s) = []
         \<and> rw_index s = None)" for s
    by (auto simp: row_ok_def laid_out_def)
  have ok0: "row_ok r0" "frame_of r0 = frame_of r"
    using ok [OF assms] g(1)
    by (auto simp: r0_def frame_of_def intro!: row_ok_frame [OF assms])
  have ok1: "row_ok r1 \<and> frame_of r1 = frame_of r0"
    using run_ok [OF ok0(1), of es now out] c(1) ok [OF assms] by (auto simp: c1)
  then have ok1': "row_ok r1" by simp
  have ok2: "row_ok r2" "frame_of r2 = frame_of r1"
    using ok [OF ok1'] g(2)
    by (auto simp: r2_def frame_of_def intro!: row_ok_frame [OF ok1'])
  have ok3: "row_ok r3 \<and> frame_of r3 = frame_of r2"
    using run_ok [OF ok2(1), of es2 now o1] c(2) ok [OF ok1'] by (auto simp: c3)
  then have ok3': "row_ok r3" by simp
  have ok4: "row_ok r4" "frame_of r4 = frame_of r3"
    using ok [OF ok3'] g(3)
    by (auto simp: r4_def frame_of_def intro!: row_ok_frame [OF ok3'])
  have "AddRoom \<in> set (callbacks es3) \<Longrightarrow> rw_editable r4"
    using c(3) ok [OF ok3'] by (auto simp: r4_def)
  with run_ok [OF ok4(1), of es3 now o3] ok0 ok1 ok2 ok3 ok4
  show ?thesis
    by (simp add: row_buttons_def h1 h2 h3 c1 c3 r0_def [symmetric] r2_def [symmetric] r4_def [symmetric])
qed

end

section \<open>Closures and dialogs\<close>

lemma geom_prepare [simp]: "geom (UIButton_prepare b) = geom b"
  by (simp add: UIButton_prepare_def geom_def place_of_def Let_def)

lemma ub_buttons_add [simp]: "ub_buttons (UIButton_add b st) = ub_buttons st @ [UIButton_prepare b]"
  by (simp add: UIButton_add_def)

lemma ub_buttons_clear [simp]: "ub_buttons (UIButton_clear st) = []"
  by (simp add: UIButton_clear_def)

lemma ub_buttons_fold_add [simp]:
  "ub_buttons (fold UIButton_add bs st) = ub_buttons st @ map UIButton_prepare bs"
  by (induction bs arbitrary: st) simp_all

lemma addButton_frame:
  "frame_of (row_addButton r) = frame_of r" "rw_button (row_addButton r) = rw_button r"
  "rw_edit_button (row_addButton r) = rw_edit_button r"
  "rw_change_name (row_addButton r) = rw_change_name r" "rw_index (row_addButton r) = rw_index r"
  "rw_closers (row_addButton r) = rw_closers r"
  by (simp_all add: row_addButton_def Let_def frame_of_def)

lemma close_frame:
  "frame_of (row_close r) = frame_of r" "rw_button (row_close r) = rw_button r"
  "rw_edit_button (row_close r) = rw_edit_button r" "rw_add_button (row_close r) = rw_add_button r"
  "ud_dialogs (rw_change_name (row_close r)) = []" "rw_index (row_close r) = rw_index r"
  "rw_inputDisabled (row_close r) = rw_inputDisabled r" "rw_closers (row_close r) = []"
  by (simp_all add: row_close_def frame_of_def UIDialog_clear_def)

lemma open_frame:
  "frame_of (row_open now ty title text cl r) = frame_of r"
  "rw_button (row_open now ty title text cl r) = rw_button r"
  "rw_edit_button (row_open now ty title text cl r) = rw_edit_button r"
  "rw_add_button (row_open now ty title text cl r) = rw_add_button r"
  "rw_index (row_open now ty title text cl r) = rw_index r"
  "rw_closers (row_open now ty title text cl r) = rw_closers r @ [cl]"
  by (simp_all add: row_open_def frame_of_def)

section \<open>Every operation keeps the invariant\<close>

lemma map_upt_iff: "map f xs = map g [0..<length xs] \<longleftrightarrow> (\<forall>k < length xs. f (xs ! k) = g k)"
proof
  assume e: "map f xs = map g [0..<length xs]"
  show "\<forall>k < length xs. f (xs ! k) = g k"
  proof (intro allI impI)
    fix k assume k: "k < length xs"
    then have "f (xs ! k) = map f xs ! k" by simp
    also have "\<dots> = g k" unfolding e using k by simp
    finally show "f (xs ! k) = g k" .
  qed
next
  assume "\<forall>k < length xs. f (xs ! k) = g k"
  then show "map f xs = map g [0..<length xs]" by (intro nth_equalityI) simp_all
qed

lemma laid_out_nth:
  "laid_out r bs \<longleftrightarrow> (\<forall>k < length bs. place_of (bs ! k) = spot r k \<and> bt_callback (bs ! k) \<noteq> AddRoom)"
proof -
  have "AddRoom \<notin> bt_callback ` set bs \<longleftrightarrow> (\<forall>b \<in> set bs. bt_callback b \<noteq> AddRoom)" by force
  then have "AddRoom \<notin> bt_callback ` set bs \<longleftrightarrow> (\<forall>k < length bs. bt_callback (bs ! k) \<noteq> AddRoom)"
    by (simp only: all_set_conv_all_nth)
  moreover have "map place_of bs = map (spot r) [0..<length bs] \<longleftrightarrow>
      (\<forall>k < length bs. place_of (bs ! k) = spot r k)"
    by (rule map_upt_iff)
  ultimately show ?thesis unfolding laid_out_def by blast
qed

lemma laid_out_snoc [simp]:
  "laid_out r (bs @ [b]) \<longleftrightarrow>
     laid_out r bs \<and> place_of b = spot r (length bs) \<and> bt_callback b \<noteq> AddRoom"
  by (auto simp: laid_out_def)

lemma laid_out_member:
  "laid_out r bs \<Longrightarrow> b \<in> set bs \<Longrightarrow>
     bt_width b = eo_width (rw_elementOptions r) \<and> bt_y b = rw_y r \<and> bt_callback b \<noteq> AddRoom"
  by (auto simp: laid_out_nth in_set_conv_nth place_of_def spot_def)

lemma laid_out_placed:
  assumes "\<And>b. b \<in> set bs \<Longrightarrow> bt_width b = eo_width (rw_elementOptions r) \<and> bt_callback b \<noteq> AddRoom"
  shows "laid_out r (map (\<lambda>(i, b). place_room r i b) (enumerate 0 bs))"
  using assms by (simp add: laid_out_nth nth_enumerate_eq place_room_def place_of_def spot_def)

lemma laid_out_moved:
  assumes "\<And>b. b \<in> set bs \<Longrightarrow>
      bt_width b = eo_width (rw_elementOptions r) \<and> bt_y b = rw_y r \<and> bt_callback b \<noteq> AddRoom"
  shows "laid_out r (map (\<lambda>(j, b). b\<lparr>bt_x := rw_x r + (eo_width (rw_elementOptions r) + rw_gap r) * real j\<rparr>)
     (enumerate 0 bs))"
  using assms by (simp add: laid_out_nth nth_enumerate_eq place_of_def spot_def)

lemma element_place [simp]:
  "place_of (row_element r i b) = spot r i" "bt_callback (row_element r i b) = SelectRoom i"
  by (simp_all add: row_element_def place_room_def place_of_def spot_def spread_button_def)

lemma element_prepared [simp]:
  "place_of (UIButton_prepare b) = place_of b" "bt_callback (UIButton_prepare b) = bt_callback b"
  by (simp_all add: UIButton_prepare_def place_of_def Let_def)

lemma laid_out_elements:
  "laid_out r (map (\<lambda>(i, e). row_element r i (f e)) (enumerate 0 es))"
  by (simp add: laid_out_nth nth_enumerate_eq)

lemma laid_out_prepared [simp]: "laid_out r (map UIButton_prepare bs) = laid_out r bs"
  by (rule laid_out_geom) simp

text \<open>An operation that replaces the rooms of an edited row.\<close>

lemma row_ok_rooms:
  assumes "row_ok r" "rw_editable r" "frame_of r' = frame_of r"
    and "laid_out r (ub_buttons (rw_edit_button r'))"
    and "map geom (ub_buttons (rw_button r')) = map geom (ub_buttons (rw_button r))"
  shows "row_ok r'"
proof -
  have f: "rw_editable r' = rw_editable r" "rw_mouse_down_on r' = rw_mouse_down_on r"
    "rw_mouse_down_on_elements r' = rw_mouse_down_on_elements r"
    using assms(3) by (simp_all add: frame_of_def)
  have "ub_buttons (rw_button r) = []" using assms(1,2) by (simp add: row_ok_def)
  with assms(5) have "ub_buttons (rw_button r') = []" by simp
  then show ?thesis
    using assms(1,2,4) unfolding row_ok_def laid_out_frame [OF assms(3)] f by simp
qed

lemma inputDisabled_frame [simp]: "frame_of (r\<lparr>rw_inputDisabled := v\<rparr>) = frame_of r"
  "frame_of (r\<lparr>rw_index := i\<rparr>) = frame_of r" "frame_of (r\<lparr>rw_edit_button := e\<rparr>) = frame_of r"
  "frame_of (r\<lparr>rw_add_room := v\<rparr>) = frame_of r" "frame_of (r\<lparr>rw_change_name := u\<rparr>) = frame_of r"
  by (simp_all add: frame_of_def)

lemma deleteRoomConformation_ok:
  assumes "row_ok r" "rw_editable r"
  shows "row_ok (fst (row_deleteRoomConformation call r))"
proof -
  have m: "laid_out r (ub_buttons (rw_edit_button r))" using assms(1) by (simp add: row_ok_def)
  define bs where "bs = map (\<lambda>(i, b). place_room r i b) (enumerate 0
    (splice_out (ub_buttons (rw_edit_button r)) (case rw_index r of None \<Rightarrow> 0 | Some i \<Rightarrow> i)))"
  have bs: "laid_out r bs" unfolding bs_def
    by (rule laid_out_placed) (use laid_out_member [OF m] set_splice_out in fast)
  define room where "room = (case bs of b # _ \<Rightarrow> room_of b | [] \<Rightarrow> 0)"
  define r0 where "r0 = r\<lparr>rw_edit_button := (rw_edit_button r)\<lparr>ub_buttons := bs\<rparr>\<rparr>"
  define r1 where "r1 = fst (row_roomSelected room r0)"
  note s = roomSelected_frame [of room r0, folded r1_def]
  have b: "map geom (ub_buttons (rw_edit_button r1)) = map geom bs"
    "map geom (ub_buttons (rw_button r1)) = map geom (ub_buttons (rw_button r))"
    "frame_of r1 = frame_of r"
    using s by (simp_all add: r0_def)
  have ok: "row_ok ((row_addButton (row_close (r1\<lparr>rw_index := None\<rparr>)))\<lparr>rw_inputDisabled := False\<rparr>)"
    by (rule row_ok_rooms [OF assms])
      (simp_all add: addButton_frame close_frame b laid_out_geom [OF b(1)] bs)
  have no: "row_ok ((row_close r)\<lparr>rw_inputDisabled := False\<rparr>)"
    by (rule row_ok_rooms [OF assms]) (simp_all add: close_frame m)
  show ?thesis
    using ok no unfolding row_deleteRoomConformation_def bs_def [symmetric] Let_def
      room_def [symmetric] r0_def [symmetric] r1_def
    by (simp add: split_beta)
qed

lemma dialogClose_ok:
  assumes "row_ok r" "rw_editable r" "row_dialogClose call r = Inr (r', out)"
  shows "row_ok r'"
proof -
  have m: "laid_out r (ub_buttons (rw_edit_button r))" using assms(1) by (simp add: row_ok_def)
  have no: "row_ok (row_close (r\<lparr>rw_inputDisabled := False\<rparr>))"
    by (rule row_ok_rooms [OF assms(1,2)]) (simp_all add: close_frame m)
  have yes: "row_ok (row_close ((fst (row_roomSelected i (row_addButton
       (r\<lparr>rw_edit_button := UIButton_add (row_element r (length (ub_buttons (rw_edit_button r))) b)
          (rw_edit_button r)\<rparr>))))\<lparr>rw_index := k, rw_inputDisabled := False\<rparr>))" for i k b
    by (rule row_ok_rooms [OF assms(1,2)])
      (simp_all add: close_frame roomSelected_frame addButton_frame m
        laid_out_geom [OF roomSelected_frame(3)])
  show ?thesis
    using assms(3) no yes
    by (auto simp: row_dialogClose_def Let_def split_beta split: if_splits option.splits)
qed
lemma set_text_geom [simp]:
  "map geom (ub_buttons (rw_edit_button (row_set_text i tx r))) = map geom (ub_buttons (rw_edit_button r))"
proof -
  have "geom (b\<lparr>bt_displaytext := t\<rparr>) = geom b" for b t by (simp add: geom_def place_of_def)
  then show ?thesis
    by (cases "i < length (ub_buttons (rw_edit_button r))")
      (simp_all add: row_set_text_def map_update list_update_beyond,
        metis list_update_id nth_map)
qed

lemma set_text_frame [simp]:
  "frame_of (row_set_text i tx r) = frame_of r" "rw_button (row_set_text i tx r) = rw_button r"
  by (simp_all add: row_set_text_def)

lemma renameDialogClose_ok:
  assumes "row_ok r" "rw_editable r" "row_renameDialogClose call r = Inr (r', out)"
  shows "row_ok r'"
proof -
  have m: "laid_out r (ub_buttons (rw_edit_button r))" using assms(1) by (simp add: row_ok_def)
  have no: "row_ok (row_close (r\<lparr>rw_inputDisabled := False\<rparr>))"
    by (rule row_ok_rooms [OF assms(1,2)]) (simp_all add: close_frame m)
  have yes: "row_ok (row_close ((row_set_text i tx r)\<lparr>rw_inputDisabled := False\<rparr>))" for i tx
    by (rule row_ok_rooms [OF assms(1,2)])
      (simp_all add: close_frame m laid_out_geom [OF set_text_geom])
  show ?thesis
    using assms(3) no yes
    by (auto simp: row_renameDialogClose_def Let_def split: if_splits option.splits)
qed

lemma closer_ok:
  assumes "row_ok r" "rw_editable r" "row_closer_run cl call r = Inr (r', out)"
  shows "row_ok r'"
proof (cases cl)
  case DialogClose
  then show ?thesis
    using assms(3) dialogClose_ok [OF assms(1,2)] by (simp add: row_closer_run_def)
next
  case DeleteRoomConformation
  then have "r' = fst (row_deleteRoomConformation call r)"
    using assms(3) by (simp add: row_closer_run_def)
  then show ?thesis using deleteRoomConformation_ok [OF assms(1,2)] by simp
next
  case RenameDialogClose
  then show ?thesis
    using assms(3) renameDialogClose_ok [OF assms(1,2)] by (simp add: row_closer_run_def)
qed

text \<open>The dialogs get an event: without a dialog nothing happens.\<close>

lemma dialogs_done_ok:
  assumes "row_ok r" "row_dialogs_done (ud, evs) r = Inr (r', out)"
    and "ud_dialogs (rw_change_name r) = [] \<Longrightarrow> ud_dialogs ud = [] \<and> evs = []"
  shows "row_ok r'"
proof (cases "callbacks evs")
  case Nil
  have "row_ok (r\<lparr>rw_change_name := ud\<rparr>)"
    using assms(1,3) by (intro row_ok_frame [OF assms(1)]) (auto simp: row_ok_def)
  then show ?thesis using assms(2) Nil by (auto simp: row_dialogs_done_def)
next
  case (Cons c cs)
  then have "evs \<noteq> []" by auto
  then have "rw_editable r" using assms(1,3) by (auto simp: row_ok_def)
  then show ?thesis
    using assms(2) Cons closer_ok [OF assms(1)]
    by (cases c) (auto simp: row_dialogs_done_def Let_def split: option.splits sum.splits if_splits)
qed

lemma no_dialog:
  assumes "ud_dialogs u = []"
  shows "UIDialog_onClick x y u = (u, [])"
    "UIDialog_onMouseDown tm x y u c = (u, c, [])" "UIDialog_onMouseUp x y u = (u, [])"
    "UIDialog_onMouseMove x y u = (u, [])" "UIDialog_onKeyDown k u = (u, [])"
    "UIDialog_onKeyUp k u = u" "UIDialog_render tm now u c = Some (u, c)"
  using assms
  by (simp_all add: UIDialog_onClick_def UIDialog_onMouseDown_def UIDialog_onMouseUp_def
      UIDialog_onMouseMove_def UIDialog_onKeyDown_def UIDialog_onKeyUp_def UIDialog_render_def)

section \<open>The handlers keep the invariant\<close>

lemma row_onClick_ok:
  assumes "row_ok r" "row_onClick now x y r = Inr (r', out)"
  shows "row_ok r'"
proof -
  obtain r1 o1 where r1: "(if \<not> rw_inputDisabled r then row_buttons (UIButton_onClick x y) now (r, [])
      else (r, [])) = (r1, o1)" by fastforce
  have ok: "row_ok r1"
    using r1 assms(1) click.buttons_ok [OF assms(1), of x y now "[]"] by (auto split: if_splits)
  obtain ud evs where d: "UIDialog_onClick x y (rw_change_name r1) = (ud, evs)" by fastforce
  show ?thesis
    using assms(2) dialogs_done_ok [OF ok, of ud evs] d no_dialog(1) [of "rw_change_name r1" x y]
    by (auto simp: row_onClick_def r1 Let_def split: sum.splits)
qed

lemma row_onKeyDown_ok: "row_ok r \<Longrightarrow> row_onKeyDown k r = Inr (r', out) \<Longrightarrow> row_ok r'"
  using dialogs_done_ok [of r "fst (UIDialog_onKeyDown k (rw_change_name r))"
      "snd (UIDialog_onKeyDown k (rw_change_name r))" r' out] no_dialog(5) [of "rw_change_name r" k]
  by (simp add: row_onKeyDown_def)

lemma change_name_ok:
  assumes "row_ok r" "ud_dialogs (rw_change_name r) = [] \<Longrightarrow> ud_dialogs ud = []"
  shows "row_ok (r\<lparr>rw_change_name := ud\<rparr>)"
  using assms by (intro row_ok_frame [OF assms(1)]) (auto simp: row_ok_def)

lemma row_onKeyUp_ok: "row_ok r \<Longrightarrow> row_ok (row_onKeyUp k r)"
  unfolding row_onKeyUp_def by (rule change_name_ok) (simp_all add: no_dialog)

lemma press_ok:
  assumes "row_ok r" "rw_editable r"
    and "j + length bs \<le> length (ub_buttons (rw_edit_button r))"
  shows "row_ok (fst (row_press x y j bs (r, out)))"
  using assms
proof (induction bs arbitrary: j r out)
  case Nil
  then show ?case by simp
next
  case (Cons b bs)
  have i: "row_ok (r\<lparr>rw_index := k\<rparr>)" for k
    using Cons.prems by (intro row_ok_frame [OF Cons.prems(1)]) auto
  obtain r1 es where s: "row_roomSelected (room_of b) (r\<lparr>rw_index := Some j\<rparr>) = (r1, es)"
    by fastforce
  note f = roomSelected_frame [of "room_of b" "r\<lparr>rw_index := Some j\<rparr>", unfolded s, simplified]
  have r1: "row_ok r1" using roomSelected_ok [OF i, of "room_of b" "Some j"] s by simp
  have "length (ub_buttons (rw_edit_button r1)) = length (ub_buttons (rw_edit_button r))"
    using f(3) by (rule map_eq_imp_length_eq)
  moreover have "rw_editable r1" using f(1) Cons.prems(2) by (simp add: frame_of_def)
  ultimately have "row_ok (r1\<lparr>rw_mouse_down_on := Some j, rw_mouse_down_on_x := d,
      rw_mouse_down_on_elements := Some (ub_buttons (rw_edit_button r1))\<rparr>)" for d
    using r1 Cons.prems(3) by (auto simp: row_ok_def laid_out_nth spot_def)
  then show ?case
    using Cons.IH [of "r\<lparr>rw_index := None\<rparr>" "Suc j"] Cons.IH [of r "Suc j"] Cons.prems i
    by (simp add: s Let_def)
qed

lemma row_onMouseDown_ok:
  assumes "row_ok r" "row_onMouseDown tm now x y r (c, out) = Inr (r', acc)"
  shows "row_ok r'"
proof -
  obtain ud c1 evs where d: "UIDialog_onMouseDown tm x y (rw_change_name r) c = (ud, c1, evs)"
    by (cases "UIDialog_onMouseDown tm x y (rw_change_name r) c")
  define r1 where "r1 = r\<lparr>rw_change_name := ud\<rparr>"
  have r1: "row_ok r1" unfolding r1_def
    using d by (intro change_name_ok [OF assms(1)]) (simp add: no_dialog)
  obtain r2 o2 where r2: "row_buttons (UIButton_onMouseDown x y) now (r1, out @ part_events evs) = (r2, o2)"
    by fastforce
  have ok2: "row_ok r2"
    using down.buttons_ok [OF r1, of x y now "out @ part_events evs"] by (simp add: r2)
  show ?thesis
    using assms(2) r1 ok2 press_ok [OF ok2, of 0 "ub_buttons (rw_edit_button r2)" x y o2]
    by (auto simp: row_onMouseDown_def d r1_def [symmetric] r2 Let_def split_beta split: if_splits)
qed

lemma row_onMouseUp_ok:
  assumes "row_ok r"
  shows "row_ok (fst (row_onMouseUp now x y i r out))"
proof -
  obtain ud evs where d: "UIDialog_onMouseUp x y (rw_change_name r) = (ud, evs)" by fastforce
  define r1 where "r1 = r\<lparr>rw_change_name := ud\<rparr>"
  have r1: "row_ok r1" unfolding r1_def
    using d by (intro change_name_ok [OF assms]) (simp add: no_dialog)
  have up: "row_ok s \<Longrightarrow> row_ok (s\<lparr>rw_mouse_down_on := None, rw_mouse_down_on_x := None,
      rw_mouse_down_on_elements := None\<rparr>)" for s
    by (auto simp: row_ok_def laid_out_nth spot_def)
  show ?thesis
    using up [OF r1] up [OF up.buttons_ok [OF r1, THEN conjunct1]]
    by (simp add: row_onMouseUp_def d Let_def r1_def [symmetric] split_beta)
qed
lemma set_moveItem: "i < length xs \<Longrightarrow> set (moveItem xs i t) \<subseteq> set xs"
  using set_splice_out [of xs i]
  by (auto simp: moveItem_def splice_in_def dest: in_set_takeD in_set_dropD)

lemma drag_ok:
  assumes "row_ok r" "rw_mouse_down_on r = Some p" "rw_mouse_down_on_elements r = Some es"
  shows "row_ok (fst (row_drag x p es r))"
proof -
  have e: "rw_editable r" "p < length es" "laid_out r es"
    using assms by (auto simp: row_ok_def)
  then have "hd es \<in> set es" by (cases es) auto
  then have hd: "bt_width (hd es) = eo_width (rw_elementOptions r)"
    using laid_out_member [OF e(3)] by blast
  have "laid_out r (map (\<lambda>(j, b). b\<lparr>bt_x := rw_x r + (eo_width (rw_elementOptions r) + rw_gap r) * real j\<rparr>)
      (enumerate 0 (moveItem es p t)))" for t
    using set_moveItem [OF e(2)] laid_out_member [OF e(3)] by (intro laid_out_moved) blast
  then show ?thesis
    using assms(1) e(1) by (auto simp: row_drag_def hd Let_def split: option.splits intro!: row_ok_rooms [OF assms(1)])
qed

lemma row_onMouseMove_ok:
  assumes "row_ok r"
  shows "\<exists>r' out. row_onMouseMove now x y r = Inr (r', out) \<and> row_ok r'"
proof -
  obtain ud evs where d: "UIDialog_onMouseMove x y (rw_change_name r) = (ud, evs)" by fastforce
  define r1 where "r1 = r\<lparr>rw_change_name := ud\<rparr>"
  have r1: "row_ok r1" unfolding r1_def
    using d by (intro change_name_ok [OF assms]) (simp add: no_dialog)
  obtain r2 o2 where r2: "row_buttons (UIButton_onMouseMove x y) now (r1, part_events evs) = (r2, o2)"
    by fastforce
  have ok2: "row_ok r2"
    using move.buttons_ok [OF r1, of x y now "part_events evs"] by (simp add: r2)
  show ?thesis
  proof (cases "rw_inputDisabled r1")
    case True
    then show ?thesis using r1 by (simp add: row_onMouseMove_def d Let_def r1_def)
  next
    case False
    then have u: "row_onMouseMove now x y r = (case rw_mouse_down_on r2 of
        None \<Rightarrow> Inr (r2, o2)
      | Some pressed \<Rightarrow>
          (case rw_mouse_down_on_elements r2 of
             None \<Rightarrow> Inl TypeError
           | Some [] \<Rightarrow> Inl TypeError
           | Some elements \<Rightarrow>
               (let (r3, moved) = row_drag x pressed elements r2
                in Inr (r3, o2 @ (if moved then [Repaint] else [])))))"
      unfolding row_onMouseMove_def d Let_def prod.case r1_def [symmetric] by (simp add: r2)
    show ?thesis
    proof (cases "rw_mouse_down_on r2")
      case None
      then show ?thesis using u ok2 by simp
    next
      case (Some p)
      then obtain es where es: "rw_mouse_down_on_elements r2 = Some es" "p < length es"
        using ok2 by (auto simp: row_ok_def)
      then show ?thesis
        using u Some drag_ok [OF ok2 Some es(1), of x] by (cases es) (simp_all add: split_beta)
    qed
  qed
qed

lemma render_one_ok:
  assumes "row_ok r" "row_render tm now i r c = Some (r', c')"
  shows "row_ok r'"
proof -
  have g: "map geom (ub_buttons (fst (UIButton_render tm ub d))) = map geom (ub_buttons ub)"
    for ub :: "row_call button uibutton" and d
    by (rule geom_same [OF render_keeps_buttons])
  have n: "ub_buttons (fst (UIButton_render tm ub d)) = [] \<longleftrightarrow> ub_buttons ub = []"
    for ub :: "row_call button uibutton" and d
    using list_all2_lengthD [OF render_keeps_buttons [of ub tm d]] by (metis length_0_conv)
  obtain ub c1 where b1: "UIButton_render tm (rw_button r) (emit (row_frame r) c) = (ub, c1)" by fastforce
  obtain ub2 c2 where b2: "UIButton_render tm (rw_edit_button r) c1 = (ub2, c2)" by fastforce
  obtain ub3 c3 where b3: "UIButton_render tm (rw_add_button r) c2 = (ub3, c3)" by fastforce
  obtain ud c4 where d: "UIDialog_render tm now (rw_change_name r) c3 = Some (ud, c4)"
      "r' = r\<lparr>rw_button := ub, rw_edit_button := ub2, rw_add_button := ub3, rw_change_name := ud\<rparr>"
    using assms(2) by (auto simp: row_render_def b1 b2 b3 Let_def split: option.splits)
  have "ud_dialogs (rw_change_name r) = [] \<Longrightarrow> ud_dialogs ud = []"
    using d(1) no_dialog(7) [of "rw_change_name r" tm now c3] by simp
  moreover have "map geom (ub_buttons ub) = map geom (ub_buttons (rw_button r))"
    "map geom (ub_buttons ub2) = map geom (ub_buttons (rw_edit_button r))"
    "ub_buttons ub3 = [] \<longleftrightarrow> ub_buttons (rw_add_button r) = []"
    using g [of "rw_button r" "emit (row_frame r) c"] g [of "rw_edit_button r" c1]
      n [of "rw_add_button r" c2] by (simp_all add: b1 b2 b3)
  ultimately show ?thesis
    using assms(1) unfolding d(2)
    by (intro row_ok_frame [OF assms(1)]) (auto simp: frame_of_def row_ok_def)
qed

lemma laid_out_prepared' [simp]: "laid_out r (map (UIButton_prepare \<circ> f) xs) = laid_out r (map f xs)"
  by (rule laid_out_geom) simp

section \<open>The closures keep the invariant\<close>

lemma setList_ok:
  assumes "row_ok r" shows "row_ok (row_setList rooms r)"
proof -
  have f: "frame_of (row_setList rooms r) = frame_of r" "rw_editable (row_setList rooms r) = rw_editable r"
    "rw_mouse_down_on (row_setList rooms r) = rw_mouse_down_on r"
    "rw_mouse_down_on_elements (row_setList rooms r) = rw_mouse_down_on_elements r"
    "rw_add_button (row_setList rooms r) = rw_add_button r" "rw_index (row_setList rooms r) = rw_index r"
    "rw_change_name (row_setList rooms r) = rw_change_name r"
    by (simp_all add: row_setList_def Let_def frame_of_def)
  have row: "row_element (r\<lparr>rw_button := u, rw_edit_button := v\<rparr>) = row_element r" for u v
    by (simp add: row_element_def place_room_def fun_eq_iff)
  have "laid_out r (ub_buttons (rw_button (row_setList rooms r)))"
    "laid_out r (ub_buttons (rw_edit_button (row_setList rooms r)))"
    "rw_editable r \<Longrightarrow> ub_buttons (rw_button (row_setList rooms r)) = []"
    "\<not> rw_editable r \<Longrightarrow> ub_buttons (rw_edit_button (row_setList rooms r)) = []"
    using laid_out_elements [of r "\<lambda>e. room_button (rm_displaytext e) (rm_background e) (rm_foreground e)" rooms]
    by (simp_all add: row_setList_def Let_def row)
  then show ?thesis
    using assms by (simp add: row_ok_def laid_out_frame [OF f(1)] f)
qed

lemma edit_ok: "row_ok r \<Longrightarrow> row_ok (row_edit r)"
  by (auto simp: row_edit_def row_addButton_def Let_def row_ok_def laid_out_nth spot_def)

lemma stopEdit_ok: "row_ok r \<Longrightarrow> rw_mouse_down_on r = None \<Longrightarrow> row_ok (row_stopEdit save r)"
  by (auto simp: row_stopEdit_def row_close_def UIDialog_clear_def row_ok_def laid_out_nth spot_def)

lemma index_editable: "row_ok r \<Longrightarrow> rw_index r = Some i \<Longrightarrow> rw_editable r"
  by (auto simp: row_ok_def)

lemma renameRoom_ok:
  assumes "row_ok r" "row_renameRoom now r = Inr (r', out)"
  shows "row_ok r'"
proof -
  obtain i b where ib: "rw_index r = Some i" "js_get (ub_buttons (rw_edit_button r)) i = Some b"
    using assms(2) by (auto simp: row_renameRoom_def split: option.splits)
  have e: "rw_editable r" by (rule index_editable [OF assms(1) ib(1)])
  show ?thesis
    using assms(2) ib e by (intro row_ok_frame [OF assms(1)]) (auto simp: row_renameRoom_def open_frame)
qed

lemma changeColor_ok:
  assumes "row_ok r" "row_changeColor color r = Inr r'"
  shows "row_ok r'"
proof -
  obtain i b where ib: "rw_index r = Some i" "js_get (ub_buttons (rw_edit_button r)) i = Some b"
    using assms(2) by (auto simp: row_changeColor_def split: option.splits)
  have e: "rw_editable r" by (rule index_editable [OF assms(1) ib(1)])
  have b: "i < length (ub_buttons (rw_edit_button r))" "b = ub_buttons (rw_edit_button r) ! i"
    using ib(2) by (auto simp: js_get_def split: if_splits)
  have "geom (b\<lparr>bt_background := v, bt_foreground := w\<rparr>) = geom b" for v w
    by (simp add: geom_def place_of_def)
  then have "map geom ((ub_buttons (rw_edit_button r))[i := b\<lparr>bt_background := v, bt_foreground := w\<rparr>]) =
      map geom (ub_buttons (rw_edit_button r))" for v w
    using b by (simp add: map_update list_update_same_conv)
  then show ?thesis
    using assms(2) ib e by (intro row_ok_frame [OF assms(1)]) (auto simp: row_changeColor_def)
qed

lemma deleteRoom_ok:
  assumes "row_ok r"
  shows "row_ok (fst (row_deleteRoom now r))"
proof (cases "rw_index r")
  case None
  then show ?thesis using assms by (simp add: row_deleteRoom_def)
next
  case (Some i)
  then show ?thesis using index_editable [OF assms Some]
    by (intro row_ok_frame [OF assms]) (simp_all add: row_deleteRoom_def open_frame)
qed

lemma recreateDialog_ok:
  assumes "row_ok r"
  shows "row_ok (row_recreateDialog now r)"
proof (cases "row_find_dialog r")
  case None
  then show ?thesis using assms by (simp add: row_recreateDialog_def)
next
  case (Some d)
  then have "ud_dialogs (rw_change_name r) \<noteq> []"
    by (auto simp: row_find_dialog_def UIDialog_find_def)
  then have "rw_editable r" using assms by (auto simp: row_ok_def)
  then show ?thesis
    by (intro row_ok_frame [OF assms]) (simp_all add: row_recreateDialog_def Some open_frame close_frame)
qed

section \<open>Reachable rows\<close>

text \<open>The closures that the page calls, and the handlers. Editing is not stopped while a room is
  dragged.\<close>

inductive row_reach :: "buttonrow \<Rightarrow> bool" where
  rr_new: "rw_index r = None \<Longrightarrow> row_reach (UIButtonRow_prepare r)"
| rr_setList: "row_reach r \<Longrightarrow> row_reach (row_setList rooms r)"
| rr_edit: "row_reach r \<Longrightarrow> row_reach (row_edit r)"
| rr_stopEdit: "row_reach r \<Longrightarrow> rw_mouse_down_on r = None \<Longrightarrow> row_reach (row_stopEdit save r)"
| rr_select: "row_reach r \<Longrightarrow> row_reach (fst (row_roomSelected room r))"
| rr_color: "row_reach r \<Longrightarrow> row_changeColor color r = Inr r' \<Longrightarrow> row_reach r'"
| rr_delete: "row_reach r \<Longrightarrow> row_reach (fst (row_deleteRoom now r))"
| rr_rename: "row_reach r \<Longrightarrow> row_renameRoom now r = Inr (r', out) \<Longrightarrow> row_reach r'"
| rr_recreate: "row_reach r \<Longrightarrow> row_reach (row_recreateDialog now r)"
| rr_click: "row_reach r \<Longrightarrow> row_onClick now x y r = Inr (r', out) \<Longrightarrow> row_reach r'"
| rr_down: "row_reach r \<Longrightarrow> row_onMouseDown tm now x y r (c, out) = Inr (r', acc) \<Longrightarrow> row_reach r'"
| rr_up: "row_reach r \<Longrightarrow> row_reach (fst (row_onMouseUp now x y i r out))"
| rr_move: "row_reach r \<Longrightarrow> row_onMouseMove now x y r = Inr (r', out) \<Longrightarrow> row_reach r'"
| rr_key: "row_reach r \<Longrightarrow> row_onKeyDown k r = Inr (r', out) \<Longrightarrow> row_reach r'"
| rr_keyup: "row_reach r \<Longrightarrow> row_reach (row_onKeyUp k r)"
| rr_render: "row_reach r \<Longrightarrow> row_render tm now i r c = Some (r', c') \<Longrightarrow> row_reach r'"

lemma new_row_ok: "rw_index r0 = None \<Longrightarrow> row_ok (UIButtonRow_prepare r0)"
  by (simp add: UIButtonRow_prepare_def row_ok_def new_UIButton_def new_UIDialog_def)

lemma reach_ok: "row_reach r \<Longrightarrow> row_ok r"
proof (induction rule: row_reach.induct)
  case (rr_move r now x y r' out)
  then show ?case using row_onMouseMove_ok [of r now x y] by auto
qed (auto intro: new_row_ok setList_ok edit_ok stopEdit_ok roomSelected_ok changeColor_ok deleteRoom_ok
    renameRoom_ok recreateDialog_ok row_onClick_ok row_onMouseDown_ok row_onMouseUp_ok row_onKeyDown_ok row_onKeyUp_ok
    render_one_ok)

text \<open>C9: In every reachable state the rooms of a row are in one of its two sets of buttons, the other
  is empty; the k-th room stands at the k-th place, one gap behind the room before it, whatever was
  added, deleted or dragged. Moving the mouse never throws.\<close>

theorem row_layout:
  assumes "row_reach r"
  shows "let bs = ub_buttons (rw_button r) @ ub_buttons (rw_edit_button r)
    in (if rw_editable r then ub_buttons (rw_button r) = [] else ub_buttons (rw_edit_button r) = []) \<and>
       (\<forall>k < length bs. bt_x (bs ! k) = rw_x r + (bt_width (bs ! k) + rw_gap r) * real k \<and>
          bt_y (bs ! k) = rw_y r) \<and>
       (\<exists>r' out. row_onMouseMove now x y r = Inr (r', out))"
proof -
  have ok: "row_ok r" by (rule reach_ok [OF assms])
  then have "laid_out r (ub_buttons (rw_button r) @ ub_buttons (rw_edit_button r))"
    by (cases "rw_editable r") (auto simp: row_ok_def)
  then show ?thesis
    using ok row_onMouseMove_ok [OF ok, of now x y]
    by (auto simp: Let_def laid_out_nth place_of_def spot_def row_ok_def)
qed

definition demo_row :: buttonrow where
  "demo_row = UIButtonRow_prepare
     \<lparr>rw_x = 10, rw_y = 20, rw_gap = 5, rw_contain_x = 0, rw_contain_y = 0, rw_contain_width = 800,
      rw_contain_height = 600, rw_dialog_x = 0, rw_dialog_y = 0, rw_dialog_width = 800,
      rw_dialog_height = 600,
      rw_elementOptions = \<lparr>eo_width = 100, eo_height = 40, eo_gap = 5, eo_background = None,
        eo_foreground = None, eo_border = None, eo_hover_border = None, eo_border_width = None,
        eo_border_radius = None, eo_font_size = None, eo_grd_type = None, eo_align = None,
        eo_displaytext = None, eo_callback = None\<rparr>,
      rw_name = None, rw_button = new_UIButton, rw_edit_button = new_UIButton,
      rw_add_button = new_UIButton, rw_change_name = new_UIDialog, rw_closers = [], rw_texts = [],
      rw_editable = False, rw_mouse_down_on = None, rw_mouse_down_on_x = None,
      rw_mouse_down_on_elements = None, rw_inputDisabled = False, rw_add_room = False,
      rw_index = None\<rparr>"

definition demo_room :: "nat \<Rightarrow> room" where
  "demo_room k = \<lparr>rm_displaytext = Some (DText [65 + k]), rm_i = k, rm_foreground = js ''#FFFFFF'',
     rm_background = [js ''#0000FF'']\<rparr>"

definition demo_rooms :: buttonrow where
  "demo_rooms = row_edit (row_setList (map demo_room [0, 1, 2]) demo_row)"

lemma demo_reach: "row_reach demo_rooms"
  unfolding demo_rooms_def demo_row_def by (intro rr_edit rr_setList rr_new) simp

theorem row_layout_witness:
  "\<exists>r' out. row_onMouseMove 0 130 30 demo_rooms = Inr (r', out)"
  using row_layout [OF demo_reach, of 0 130 30] by (simp add: Let_def)

section \<open>What the operations do to the rooms\<close>

text \<open>A room without its place.\<close>

definition unplaced :: "row_call button \<Rightarrow> row_call button" where
  "unplaced b = b\<lparr>bt_x := 0, bt_y := 0\<rparr>"

lemma row_target_bounds:
  assumes "0 < step" "0 < dx" "0 < n"
  shows "\<exists>t. row_target dx step n = Some t \<and> t < n \<and> step * real t \<le> dx \<and>
    (dx < step * (real t + 1) \<or> t = n - 1)"
proof (cases "real n \<le> dx / step")
  case True
  then have "step * real (n - 1) \<le> dx"
    using assms by (simp add: of_nat_diff field_simps)
  then show ?thesis using assms True by (simp add: row_target_def)
next
  case False
  define t where "t = nat \<lfloor>dx / step\<rfloor>"
  have q: "0 \<le> dx / step" using assms by simp
  have t: "real t \<le> dx / step" "dx / step < real t + 1"
    using q by (simp_all add: t_def)
  have "t < n" using t(1) False by simp
  moreover have "step * real t \<le> dx" "dx < step * (real t + 1)"
    using t assms(1) by (simp_all add: field_simps)
  ultimately show ?thesis using assms False by (simp add: row_target_def t_def [symmetric])
qed

text \<open>C19: Dragging a room to the right of the row's start takes it to the place under the mouse, the
  last one at most; the other rooms keep their order, and nothing but the places changes.\<close>

theorem row_drag_moves_one:
  assumes "row_reach r" "rw_mouse_down_on r = Some p" "rw_mouse_down_on_elements r = Some es"
    and "0 < eo_width (rw_elementOptions r) + rw_gap r" "rw_x r < x"
  shows "\<exists>t r'. row_drag x p es r = (r', True) \<and> rw_index r' = Some t \<and> t < length es \<and>
    (let step = eo_width (rw_elementOptions r) + rw_gap r; bs = ub_buttons (rw_edit_button r')
     in rw_x r + step * real t \<le> x \<and> (x < rw_x r + step * (real t + 1) \<or> t = length es - 1) \<and>
        length bs = length es \<and> unplaced (bs ! t) = unplaced (es ! p) \<and>
        splice_out (map unplaced bs) t = splice_out (map unplaced es) p)"
proof -
  have e: "p < length es" "laid_out r es"
    using reach_ok [OF assms(1)] assms(2,3) by (auto simp: row_ok_def)
  then have "hd es \<in> set es" by (cases es) auto
  then have hd: "bt_width (hd es) = eo_width (rw_elementOptions r)"
    using laid_out_member [OF e(2)] by blast
  define step where "step = eo_width (rw_elementOptions r) + rw_gap r"
  obtain t where t: "row_target (x - rw_x r) step (length es) = Some t" "t < length es"
      "step * real t \<le> x - rw_x r" "x - rw_x r < step * (real t + 1) \<or> t = length es - 1"
    using row_target_bounds [of step "x - rw_x r" "length es"] assms(4,5) le_less_trans [OF le0 e(1)]
    unfolding step_def by auto
  define r' where "r' = fst (row_drag x p es r)"
  have d: "row_drag x p es r = (r', True)" "rw_index r' = Some t"
    by (simp_all add: r'_def row_drag_def hd step_def [symmetric] t(1) Let_def)
  have bs: "ub_buttons (rw_edit_button r') =
      map (\<lambda>(j, b). b\<lparr>bt_x := rw_x r + step * real j\<rparr>) (enumerate 0 (moveItem es p t))"
    by (simp add: r'_def row_drag_def hd step_def [symmetric] t(1) Let_def)
  have "map unplaced (map (\<lambda>(j, b). b\<lparr>bt_x := f j\<rparr>) (enumerate n xs)) = map unplaced xs" for f n xs
    by (rule nth_equalityI) (simp_all add: nth_enumerate_eq unplaced_def)
  then have m: "map unplaced (ub_buttons (rw_edit_button r')) = map unplaced (moveItem es p t)"
    by (simp add: bs)
  have n: "length (moveItem es p t) = length es" using e(1) by (simp add: moveItem_def)
  have l: "t \<le> length (splice_out es p)" using t(2) e(1) by simp
  have at: "moveItem es p t ! t = es ! p"
    using l by (simp add: moveItem_def splice_in_def nth_append)
  have out: "splice_out (moveItem es p t) t = splice_out es p"
    using l by (simp add: moveItem_def splice_in_def splice_out_def [of _ t])
  have map_out: "map f (splice_out xs i) = splice_out (map f xs) i" for f :: "row_call button \<Rightarrow> row_call button" and xs i
    by (simp add: splice_out_def take_map drop_map)
  have len: "length (ub_buttons (rw_edit_button r')) = length es" using m n map_eq_imp_length_eq by metis
  have "unplaced (ub_buttons (rw_edit_button r') ! t) = unplaced (es ! p)"
    using arg_cong [OF m, of "\<lambda>xs. xs ! t"] t(2) len n at by simp
  moreover have "splice_out (map unplaced (ub_buttons (rw_edit_button r'))) t = splice_out (map unplaced es) p"
    unfolding m by (simp only: map_out [symmetric] out)
  moreover have "rw_x r + step * real t \<le> x" "x < rw_x r + step * (real t + 1) \<or> t = length es - 1"
    using t(3,4) by auto
  ultimately show ?thesis
    unfolding step_def [symmetric] Let_def using d t(2) len by blast
qed
lemma demo_rooms_fields:
  "rw_x demo_rooms = 10" "rw_gap demo_rooms = 5" "eo_width (rw_elementOptions demo_rooms) = 100"
  "rw_editable demo_rooms" "\<not> rw_inputDisabled demo_rooms" "ud_dialogs (rw_change_name demo_rooms) = []"
  "ub_buttons (rw_button demo_rooms) = []" "rw_texts demo_rooms = []"
  "map room_of (ub_buttons (rw_edit_button demo_rooms)) = [0, 1, 2]"
  "map geom (ub_buttons (rw_edit_button demo_rooms)) =
     [((10, 20, 100), SelectRoom 0), ((115, 20, 100), SelectRoom 1), ((220, 20, 100), SelectRoom 2)]"
  by (simp_all add: demo_rooms_def row_edit_def row_setList_def demo_row_def UIButtonRow_prepare_def
      new_UIButton_def new_UIDialog_def row_addButton_def Let_def demo_room_def row_element_def
      room_button_def spread_button_def place_room_def room_of_def UIButton_prepare_def geom_def
      place_of_def)
definition demo_pressed :: buttonrow where
  "demo_pressed = (case row_onMouseDown (\<lambda>_ _. 0) 0 130 30 demo_rooms ([], []) of
     Inr (r, _) \<Rightarrow> r | Inl _ \<Rightarrow> demo_rooms)"

lemmas row_eval = row_onMouseDown_def press_throws_def UIDialog_onMouseDown_def row_buttons_def
  UIButton_onMouseDown_def button_hit_def in_box_def row_roomSelected_def mark_room_def room_of_def
  demo_rooms_def row_edit_def row_setList_def demo_row_def UIButtonRow_prepare_def
  new_UIButton_def new_UIDialog_def row_addButton_def Let_def demo_room_def row_element_def
  room_button_def spread_button_def place_room_def UIButton_prepare_def

lemma demo_press:
  "row_onMouseDown (\<lambda>_ _. 0) 0 130 30 demo_rooms ([], []) \<noteq> Inl e"
  by (simp add: row_eval)

lemma demo_pressed_reach: "row_reach demo_pressed"
proof (cases "row_onMouseDown (\<lambda>_ _. 0) 0 130 30 demo_rooms ([], [])")
  case (Inl e)
  then show ?thesis using demo_press by simp
next
  case (Inr b)
  then obtain r acc where r: "row_onMouseDown (\<lambda>_ _. 0) 0 130 30 demo_rooms ([], []) = Inr (r, acc)"
    by (cases b) simp
  then show ?thesis using rr_down [OF demo_reach r] by (simp add: demo_pressed_def)
qed

lemma demo_pressed_fields:
  "rw_mouse_down_on demo_pressed = Some 1" "rw_x demo_pressed = 10" "rw_gap demo_pressed = 5"
  "eo_width (rw_elementOptions demo_pressed) = 100"
  "\<exists>es. rw_mouse_down_on_elements demo_pressed = Some es \<and> map room_of es = [0, 1, 2]"
  by (simp_all add: demo_pressed_def row_eval)

theorem row_drag_moves_one_witness:
  "\<exists>es t r'. row_drag 400 1 es demo_pressed = (r', True) \<and> map room_of es = [0, 1, 2] \<and>
     rw_index r' = Some t \<and> (t = 2 \<or> 400 < 10 + 105 * (real t + 1))"
proof -
  obtain es where es: "rw_mouse_down_on_elements demo_pressed = Some es" "map room_of es = [0, 1, 2]"
    using demo_pressed_fields(5) by (elim exE conjE)
  have "length (map room_of es) = 3" unfolding es(2) by simp
  then have n: "length es = 3" by simp
  have s: "0 < eo_width (rw_elementOptions demo_pressed) + rw_gap demo_pressed" "rw_x demo_pressed < 400"
    by (simp_all add: demo_pressed_fields)
  obtain t r' where t: "row_drag 400 1 es demo_pressed = (r', True)" "rw_index r' = Some t"
      "400 < rw_x demo_pressed + (eo_width (rw_elementOptions demo_pressed) + rw_gap demo_pressed) * (real t + 1)
        \<or> t = length es - 1"
    using row_drag_moves_one [OF demo_pressed_reach demo_pressed_fields(1) es(1) s] unfolding Let_def by blast
  then have "t = 2 \<or> 400 < 10 + 105 * (real t + 1)" by (auto simp: n demo_pressed_fields)
  then show ?thesis by (intro exI conjI) (rule t(1) es(2) t(2))+
qed

text \<open>C32: Saving an edited row gives the rooms that were edited; leaving the editor without saving does
  not go back to the rooms of before but loses all of them.\<close>

theorem row_edit_save:
  assumes "row_reach r"
  shows "row_getList (row_edit r) = row_getList r \<and>
    row_getList (row_stopEdit True (row_edit r)) = row_getList r \<and>
    row_getList (row_stopEdit False (row_edit r)) = [] \<and>
    (\<not> rw_editable r \<longrightarrow> ub_buttons (rw_edit_button (row_edit r)) = map UIButton_prepare (ub_buttons (rw_button r)))"
proof -
  have p: "row_getList r' = row_getList r''"
    if "map UIButton_prepare (ub_buttons (if \<not> rw_editable r' then rw_button r' else rw_edit_button r')) =
      map UIButton_prepare (ub_buttons (if \<not> rw_editable r'' then rw_button r'' else rw_edit_button r''))"
    for r' r''
  proof -
    define f where "f = (\<lambda>b :: row_call button. \<lparr>rm_displaytext = bt_displaytext b, rm_i = room_of b,
      rm_foreground = bt_foreground b, rm_background = bt_background b\<rparr>)"
    have "f (UIButton_prepare b) = f b" for b
      by (simp add: f_def UIButton_prepare_def room_of_def Let_def)
    then have "map f bs = map f (map UIButton_prepare bs)" for bs by simp
    then show ?thesis using that unfolding row_getList_def f_def [symmetric] by metis
  qed
  have idem: "UIButton_prepare (UIButton_prepare b) = UIButton_prepare b" for b :: "row_call button"
    by (simp add: UIButton_prepare_def Let_def)
  have e: "row_getList (row_edit r) = row_getList r"
    "row_getList (row_stopEdit True (row_edit r)) = row_getList r"
    using reach_ok [OF assms]
    by (intro p; auto simp: row_edit_def addButton_frame row_stopEdit_def row_close_def row_ok_def
        row_addButton_def Let_def idem comp_def)+
  show ?thesis
    using e reach_ok [OF assms]
    by (auto simp: row_edit_def row_addButton_def row_stopEdit_def row_close_def row_ok_def row_getList_def Let_def)
qed

theorem row_edit_save_witness:
  "row_getList (row_stopEdit False (row_edit demo_rooms)) = []"
  using row_edit_save [OF demo_reach] by simp

text \<open>What \<open>getList\<close> gives for the rooms that \<open>setList\<close> got, as long as the options of the row say
  nothing about texts and colours: the rooms, numbered anew by their places.\<close>

theorem row_setList_getList:
  assumes "eo_displaytext (rw_elementOptions r) = None" "eo_background (rw_elementOptions r) = None"
    "eo_foreground (rw_elementOptions r) = None"
  shows "row_getList (row_setList rooms r) = map (\<lambda>(i, e). e\<lparr>rm_i := i\<rparr>) (enumerate 0 rooms)"
proof -
  define f where "f = (\<lambda>b :: row_call button. \<lparr>rm_displaytext = bt_displaytext b, rm_i = room_of b,
      rm_foreground = bt_foreground b, rm_background = bt_background b\<rparr>)"
  have f: "f (UIButton_prepare (row_element r i (room_button (rm_displaytext e) (rm_background e) (rm_foreground e))))
      = e\<lparr>rm_i := i\<rparr>" for i e
    using assms by (simp add: f_def UIButton_prepare_def row_element_def place_room_def room_button_def
        spread_button_def room_of_def Let_def)
  have row: "row_element (r\<lparr>rw_button := u, rw_edit_button := v\<rparr>) = row_element r" for u v
    by (simp add: row_element_def place_room_def fun_eq_iff)
  show ?thesis
    unfolding row_getList_def f_def [symmetric]
    by (simp add: row_setList_def Let_def row) (simp add: f split_beta comp_def)
qed

theorem row_setList_getList_witness:
  "row_getList (row_setList [demo_room 2, demo_room 1] demo_row) =
     [(demo_room 2)\<lparr>rm_i := 0\<rparr>, (demo_room 1)\<lparr>rm_i := 1\<rparr>]"
  using row_setList_getList [of demo_row "[demo_room 2, demo_room 1]"]
  by (simp add: demo_row_def UIButtonRow_prepare_def)

lemma room_of_geom: "map geom bs = map geom bs' \<Longrightarrow> map room_of bs = map room_of bs'"
proof -
  assume g: "map geom bs = map geom bs'"
  have "room_of b = (case snd (geom b) of SelectRoom i \<Rightarrow> i | AddRoom \<Rightarrow> 0)" for b
    by (simp add: room_of_def geom_def)
  then have "map room_of xs = map (\<lambda>g. case snd g of SelectRoom i \<Rightarrow> i | AddRoom \<Rightarrow> 0) (map geom xs)" for xs
    by simp
  then show ?thesis using g by metis
qed

lemma room_of_simps [simp]:
  "room_of (place_room r i b) = room_of b" "room_of (UIButton_prepare b) = room_of b"
  "room_of (row_element r i b) = i" "room_of (mark_room eo k b) = room_of b"
  by (simp_all add: room_of_def place_room_def UIButton_prepare_def row_element_def mark_room_def Let_def)

lemma splice_out_map: "map f (splice_out xs i) = splice_out (map f xs) i"
  by (simp add: splice_out_def take_map drop_map)

lemma map_enumerate_snd: "map (\<lambda>(i, b). f b) (enumerate n xs) = map f xs"
  by (rule nth_equalityI) (simp_all add: nth_enumerate_eq)

lemma deleted_rooms:
  "map room_of (ub_buttons (rw_edit_button (fst (row_deleteRoomConformation CallOk r)))) =
     splice_out (map room_of (ub_buttons (rw_edit_button r))) (case rw_index r of None \<Rightarrow> 0 | Some i \<Rightarrow> i)"
proof -
  have "map room_of (map (\<lambda>(i, b). place_room r i b) (enumerate 0 xs)) = map room_of xs" for xs
    by (rule nth_equalityI) (simp_all add: nth_enumerate_eq)
  then show ?thesis
    by (simp add: row_deleteRoomConformation_def Let_def split_beta addButton_frame close_frame
        room_of_geom [OF roomSelected_frame(3)] splice_out_map)
qed

lemma find_opened: "row_find_dialog (row_open now ty title tx cl r) \<noteq> None"
proof (cases "UIDialog_find (Some (js ''room_name'')) (rw_change_name r)")
  case None
  then show ?thesis
    using ud.find_add_same [of "row_dialog r ty title tx" "rw_change_name r" now]
    by (simp add: row_find_dialog_def row_open_def row_dialog_def)
next
  case (Some d)
  then show ?thesis
    using ud.find_add_old [of "Some (js ''room_name'')" "rw_change_name r" d now]
    by (simp add: row_find_dialog_def row_open_def)
qed

lemma added_room:
  assumes "row_find_dialog r \<noteq> None"
  shows "\<exists>r' out. row_dialogClose CallOk r = Inr (r', out) \<and>
    map room_of (ub_buttons (rw_edit_button r')) =
      map room_of (ub_buttons (rw_edit_button r)) @ [length (ub_buttons (rw_edit_button r))]"
  using assms
  by (auto simp: row_dialogClose_def Let_def split_beta close_frame addButton_frame
      room_of_geom [OF roomSelected_frame(3)])

text \<open>Rooms are numbered by the number of rooms there are when they are added: deleting any room but
  the last and adding one gives two rooms the same number, so that selecting one marks both.\<close>

theorem delete_add_same_number:
  assumes "map room_of (ub_buttons (rw_edit_button r)) = [0..<n]" "rw_index r = Some k" "Suc k < n"
  shows "\<exists>r' out. row_dialogClose CallOk (fst (row_call_run now AddRoom
      (fst (row_deleteRoomConformation CallOk r)))) = Inr (r', out) \<and>
    count_list (map room_of (ub_buttons (rw_edit_button r'))) (n - 1) = 2"
proof -
  define r1 where "r1 = fst (row_deleteRoomConformation CallOk r)"
  define r2 where "r2 = fst (row_call_run now AddRoom r1)"
  have m: "map room_of (ub_buttons (rw_edit_button r1)) = splice_out [0..<n] k"
    using deleted_rooms [of r] assms(1,2) by (simp add: r1_def)
  have "length (map room_of (ub_buttons (rw_edit_button r1))) = length (splice_out [0..<n] k)"
    by (simp only: m)
  then have l: "length (ub_buttons (rw_edit_button r1)) = n - 1" using assms(3) by simp
  have "row_find_dialog r2 \<noteq> None"
    using find_opened by (simp add: r2_def row_call_run_def row_find_dialog_def)
  moreover have "rw_edit_button r2 = rw_edit_button r1"
    by (simp add: r2_def row_call_run_def open_frame)
  ultimately obtain r' out where r': "row_dialogClose CallOk r2 = Inr (r', out)"
      "map room_of (ub_buttons (rw_edit_button r')) = splice_out [0..<n] k @ [n - 1]"
    using added_room [of r2] m l by auto
  have "count_list (splice_out [0..<n] k) (n - 1) = 1"
  proof -
    have "splice_out [0..<n] k = [0..<k] @ [Suc k..<n]"
      using assms(3) by (simp add: splice_out_def)
    moreover have "[Suc k..<n] = [Suc k..<n - 1] @ [n - 1]"
      using assms(3) upt_Suc_append [of "Suc k" "n - 1"] by simp
    ultimately show ?thesis
      using assms(3) by (simp add: count_list_0_iff)
  qed
  then show ?thesis using r' by (auto simp: r1_def r2_def)
qed

theorem delete_add_same_number_witness:
  "\<exists>r' out. row_dialogClose CallOk (fst (row_call_run 0 AddRoom
      (fst (row_deleteRoomConformation CallOk (demo_rooms\<lparr>rw_index := Some 0\<rparr>))))) = Inr (r', out) \<and>
    count_list (map room_of (ub_buttons (rw_edit_button r'))) 2 = 2"
  using delete_add_same_number [of "demo_rooms\<lparr>rw_index := Some 0\<rparr>" 3 0 0] demo_rooms_fields(9)
  by (simp add: upt_rec)

text \<open>When editing is stopped while a dialog is open, the dialog goes but the input of the row stays
  disabled: from then on the row ignores every click, press, movement and key.\<close>

theorem stopEdit_locks:
  assumes "rw_editable r" "rw_inputDisabled r"
  shows "let r' = row_stopEdit save r
    in rw_inputDisabled r' \<and> row_onClick now x y r' = Inr (r', []) \<and>
       row_onMouseDown tm now x y r' (c, []) = Inr (r', (c, []), False) \<and>
       row_onMouseMove now x y r' = Inr (r', []) \<and> row_onKeyDown k r' = Inr (r', [])"
proof -
  define r' where "r' = row_stopEdit save r"
  have r': "rw_inputDisabled r'" "ud_dialogs (rw_change_name r') = []"
    using assms by (simp_all add: r'_def row_stopEdit_def row_close_def UIDialog_clear_def)
  have same: "r'\<lparr>rw_change_name := rw_change_name r'\<rparr> = r'" by simp
  have "row_dialogs_done (rw_change_name r', []) r' = Inr (r', [])"
    by (simp add: row_dialogs_done_def part_events_def)
  then show ?thesis
    using r' unfolding r'_def [symmetric] Let_def
    by (simp add: row_onClick_def row_onMouseDown_def row_onMouseMove_def row_onKeyDown_def
        press_throws_def no_dialog part_events_def Let_def)
qed

theorem stopEdit_locks_witness:
  "row_onClick 0 60 30 (row_stopEdit True (fst (row_call_run 0 AddRoom demo_rooms))) =
     Inr (row_stopEdit True (fst (row_call_run 0 AddRoom demo_rooms)), [])"
proof -
  have "rw_editable (fst (row_call_run 0 AddRoom demo_rooms))"
    "rw_inputDisabled (fst (row_call_run 0 AddRoom demo_rooms))"
    using demo_rooms_fields(4) by (simp_all add: row_call_run_def row_open_def)
  from stopEdit_locks [OF this, of True 0 60 30 "\<lambda>_ _. 0" "[]" 0] show ?thesis
    by (simp add: Let_def)
qed

text \<open>Confirming the dialog of \<open>renameRoom\<close> renames: the number of rooms stays. Once the dialog has
  been made anew by \<open>recreateDialog\<close>, as on every resize, confirming it adds a room instead.\<close>

theorem recreated_rename_adds:
  assumes "row_renameRoom now r = Inr (r1, out1)" "rw_closers r = []"
  shows "(\<exists>r2 out. row_closer_run (hd (rw_closers r1)) CallOk r1 = Inr (r2, out) \<and>
      map room_of (ub_buttons (rw_edit_button r2)) = map room_of (ub_buttons (rw_edit_button r))) \<and>
    (rw_change_name r = new_UIDialog \<longrightarrow>
      (\<exists>r2 out. row_closer_run (hd (rw_closers (row_recreateDialog now' r1))) CallOk
          (row_recreateDialog now' r1) = Inr (r2, out) \<and>
        map room_of (ub_buttons (rw_edit_button r2)) =
          map room_of (ub_buttons (rw_edit_button r)) @ [length (ub_buttons (rw_edit_button r))]))"
proof -
  obtain i b where ib: "rw_index r = Some i" "js_get (ub_buttons (rw_edit_button r)) i = Some b"
      "r1 = (row_open now DlgTextInput (js ''Room Name'') (bt_displaytext b) RenameDialogClose r)
              \<lparr>rw_inputDisabled := True, rw_add_room := True\<rparr>"
    using assms(1) by (auto simp: row_renameRoom_def split: option.splits)
  have i: "i < length (ub_buttons (rw_edit_button r))"
    using ib(2) by (simp add: js_get_def split: if_splits)
  have f: "row_find_dialog r1 \<noteq> None"
    using find_opened by (simp add: ib(3) row_find_dialog_def)
  then obtain d where d: "row_find_dialog r1 = Some d" by blast
  have c: "rw_closers r1 = [RenameDialogClose]" "rw_edit_button r1 = rw_edit_button r" "rw_index r1 = Some i"
    using ib assms(2) by (simp_all add: open_frame)
  have "map room_of (ub_buttons (rw_edit_button (row_set_text i tx r1))) =
      map room_of (ub_buttons (rw_edit_button r))" for tx
    using room_of_geom [OF set_text_geom [of i tx r1]] by (simp add: c)
  then have renamed: "\<exists>r2 out. row_closer_run (hd (rw_closers r1)) CallOk r1 = Inr (r2, out) \<and>
      map room_of (ub_buttons (rw_edit_button r2)) = map room_of (ub_buttons (rw_edit_button r))"
    using i by (simp add: c d row_closer_run_def row_renameDialogClose_def close_frame)
  have added: "\<exists>r2 out. row_closer_run (hd (rw_closers (row_recreateDialog now' r1))) CallOk
          (row_recreateDialog now' r1) = Inr (r2, out) \<and>
        map room_of (ub_buttons (rw_edit_button r2)) =
          map room_of (ub_buttons (rw_edit_button r)) @ [length (ub_buttons (rw_edit_button r))]"
    if "rw_change_name r = new_UIDialog"
  proof -
    have "ud_dialogs (rw_change_name r1) =
        [dialog_parts now (row_dialog r DlgTextInput (js ''Room Name'') (bt_displaytext b))]"
      using that by (simp add: ib(3) row_open_def UIDialog_add_def new_UIDialog_def)
    then have "d \<in> {dialog_parts now (row_dialog r DlgTextInput (js ''Room Name'') (bt_displaytext b))}"
      using d by (auto simp: row_find_dialog_def UIDialog_find_def split: if_splits)
    then have t: "dg_type d = DlgTextInput"
      by (simp add: dialog_parts_def row_dialog_def Let_def)
    define r3 where "r3 = row_recreateDialog now' r1"
    have r3: "r3 = row_open now' DlgTextInput (js ''Room Name'') (row_getText r1 d) DialogClose (row_close r1)"
      by (simp add: r3_def row_recreateDialog_def d t)
    have "rw_closers r3 = [DialogClose]" "rw_edit_button r3 = rw_edit_button r"
      by (simp_all add: r3 open_frame close_frame c)
    moreover have "row_find_dialog r3 \<noteq> None" unfolding r3 by (rule find_opened)
    ultimately show ?thesis
      using added_room [of r3] by (simp add: row_closer_run_def r3_def [symmetric])
  qed
  show ?thesis using renamed added by blast
qed

theorem recreated_rename_adds_witness:
  "\<exists>r1 out1 r2 out. row_renameRoom 0 (demo_rooms\<lparr>rw_index := Some 1\<rparr>) = Inr (r1, out1) \<and>
     row_closer_run (hd (rw_closers (row_recreateDialog 0 r1))) CallOk (row_recreateDialog 0 r1) = Inr (r2, out) \<and>
     map room_of (ub_buttons (rw_edit_button r2)) = [0, 1, 2, 3]"
proof -
  let ?r = "demo_rooms\<lparr>rw_index := Some 1\<rparr>"
  have l: "length (map room_of (ub_buttons (rw_edit_button demo_rooms))) = 3"
    unfolding demo_rooms_fields(9) by simp
  obtain r1 out1 where r1: "row_renameRoom 0 ?r = Inr (r1, out1)"
    using l by (auto simp: row_renameRoom_def js_get_def)
  have "rw_closers ?r = []" "rw_change_name ?r = new_UIDialog"
    by (simp_all add: row_eval)
  then show ?thesis
    using recreated_rename_adds [OF r1, of 0] l demo_rooms_fields(9) r1 by auto
qed

section \<open>Drawing\<close>

lemma row_frame_nested: "well_nested (row_frame r)"
  by (auto simp: row_frame_def well_nested_def [of "[_, _, _]"] intro!: well_nested_concat split: if_splits)

lemma row_render_nested:
  assumes "row_render tm now i r c = Some (r', c')"
  shows "\<exists>cs. c' = c @ cs \<and> well_nested cs"
proof -
  define c3 where "c3 = snd (UIButton_render tm (rw_add_button r) (snd (UIButton_render tm (rw_edit_button r)
      (snd (UIButton_render tm (rw_button r) (emit (row_frame r) c))))))"
  have "draws_nested (emit (row_frame r))" by (rule draws_nested_emit [OF row_frame_nested])
  from draws_nested_comp [OF draws_nested_comp [OF draws_nested_comp [OF this UIButton_render_nested]
        UIButton_render_nested] UIButton_render_nested]
  obtain cs where cs: "c3 = c @ cs" "well_nested cs" unfolding c3_def draws_nested_def by blast
  obtain ud where "UIDialog_render tm now (rw_change_name r) c3 = Some (ud, c')"
    using assms by (auto simp: row_render_def c3_def Let_def split_beta split: option.splits)
  from UIDialog_render_nested [OF this] show ?thesis
    using cs by (auto intro: well_nested_append)
qed

lemma UIButtonRow_render_nested:
  assumes "UIButtonRow_render tm now st c = Some (st', c')"
  shows "\<exists>cs. c' = c @ cs \<and> well_nested cs"
proof -
  obtain rs where "for_each_opt (row_render tm now) 0 (ur_buttonrows st) c = Some (rs, c')"
    using assms by (auto simp: UIButtonRow_render_def split: option.splits)
  then show ?thesis
    by (rule for_each_opt_state [where R = "\<lambda>c d. \<exists>cs. d = c @ cs \<and> well_nested cs", rotated 3])
      (auto intro: well_nested_append row_render_nested)
qed

end
