(* ===== verification/Views.thy ===== *)
theory Views
  imports Rooms DragMoves Panels
begin

text \<open>
  \<open>CanvasUIJs\<close> and \<open>UIView\<close> (\<open>canvasuijs/uiview.js\<close>): the register of element classes, and a view
  with one object of each class that passes the events of the page on to them.

  The page's callbacks are recorded as events and run after the handler. The place of the canvas on
  the page is \<open>vw_left\<close>, \<open>vw_top\<close>; the image store and the hash function are those of \<open>UIImage\<close>. A
  handler that a class does not have, and one that it has with an empty body, leave the object as
  it is. The objects' canvas is a selector string.
\<close>

section \<open>The classes and their objects\<close>

datatype ui_class =
  ClsTextBox | ClsText | ClsLine | ClsList | ClsNumpad | ClsArrowButton | ClsButtonRow
  | ClsScrollList | ClsListItem | ClsDragNDrop | ClsCircle | ClsColorPalet | ClsImage | ClsCheckBox
  | ClsTextInput | ClsButton | ClsDialog

datatype 'cb ui_object =
  ObjTextBox "unit uitextbox" | ObjText uitext | ObjLine uiline | ObjList "'cb uilist"
  | ObjNumpad "'cb uinumpad" | ObjArrowButton "'cb button uiarrowbutton" | ObjButtonRow uibuttonrow
  | ObjScrollList uiscrolllist | ObjListItem uilistitem | ObjDragNDrop "'cb uidragndrop"
  | ObjCircle uicircle | ObjColorPalet uicolorpalet | ObjImage uiimage | ObjCheckBox uicheckbox
  | ObjTextInput uitextinput | ObjButton "'cb button uibutton" | ObjDialog uidialog

fun new_object :: "ui_class \<Rightarrow> 'cb ui_object" where
  "new_object ClsTextBox = ObjTextBox new_UITextBox"
| "new_object ClsText = ObjText new_UIText"
| "new_object ClsLine = ObjLine new_UILine"
| "new_object ClsList = ObjList new_UIList"
| "new_object ClsNumpad = ObjNumpad new_UINumpad"
| "new_object ClsArrowButton = ObjArrowButton new_UIArrowButton"
| "new_object ClsButtonRow = ObjButtonRow new_UIButtonRow"
| "new_object ClsScrollList = ObjScrollList new_UIScrollList"
| "new_object ClsListItem = ObjListItem new_UIListItem"
| "new_object ClsDragNDrop = ObjDragNDrop new_UIDragNDrop"
| "new_object ClsCircle = ObjCircle new_UICircle"
| "new_object ClsColorPalet = ObjColorPalet new_UIColorPalet"
| "new_object ClsImage = ObjImage new_UIImage"
| "new_object ClsCheckBox = ObjCheckBox new_UICheckBox"
| "new_object ClsTextInput = ObjTextInput new_UITextInput"
| "new_object ClsButton = ObjButton new_UIButton"
| "new_object ClsDialog = ObjDialog new_UIDialog"

record canvasuijs =
  cj_canvas :: jsstring
  cj_register :: "(jsstring \<times> ui_class) list"
  cj_lateregister :: "(jsstring \<times> ui_class) list"

definition new_CanvasUIJs :: canvasuijs where
  "new_CanvasUIJs = \<lparr>cj_canvas = [], cj_register = [], cj_lateregister = []\<rparr>"

definition setCanvas :: "jsstring \<Rightarrow> canvasuijs \<Rightarrow> canvasuijs" where
  "setCanvas canvas cj = cj\<lparr>cj_canvas := canvas\<rparr>"

definition addType :: "jsstring \<Rightarrow> ui_class \<Rightarrow> canvasuijs \<Rightarrow> canvasuijs" where
  "addType typename classname cj = cj\<lparr>cj_register := cj_register cj @ [(typename, classname)]\<rparr>"

definition addLateType :: "jsstring \<Rightarrow> ui_class \<Rightarrow> canvasuijs \<Rightarrow> canvasuijs" where
  "addLateType typename classname cj =
     cj\<lparr>cj_lateregister := cj_lateregister cj @ [(typename, classname)]\<rparr>"

text \<open>The objects are made for the canvas; their models do not depend on it.\<close>

definition getTypes :: "canvasuijs \<Rightarrow> (jsstring \<times> 'cb ui_object) list" where
  "getTypes cj =
     map (\<lambda>(typename, classname). (typename, new_object classname)) (cj_register cj)
     @ map (\<lambda>(typename, classname). (typename, new_object classname)) (cj_lateregister cj)"

text \<open>The classes register themselves when their files are loaded; this is the order in which
  \<open>devscripts/compilecanvasuijs.pl\<close> puts the files together.\<close>

definition loaded_types :: canvasuijs where
  "loaded_types =
     fold (\<lambda>(n, c). addLateType n c) [(js ''Button'', ClsButton), (js ''Dialog'', ClsDialog)]
       (fold (\<lambda>(n, c). addType n c)
         [(js ''TextBox'', ClsTextBox), (js ''Text'', ClsText), (js ''Line'', ClsLine),
          (js ''List'', ClsList), (js ''Numpad'', ClsNumpad), (js ''ArrowButton'', ClsArrowButton),
          (js ''ButtonRow'', ClsButtonRow), (js ''ScrollList'', ClsScrollList),
          (js ''ListItem'', ClsListItem), (js ''DragNDrop'', ClsDragNDrop),
          (js ''Circle'', ClsCircle), (js ''ColorPalet'', ClsColorPalet), (js ''Image'', ClsImage),
          (js ''CheckBox'', ClsCheckBox), (js ''TextInput'', ClsTextInput)] new_CanvasUIJs)"

section \<open>What the objects do with an event\<close>

text \<open>The callbacks of the classes, told apart by the class.\<close>

datatype 'cb view_call =
  CallPage 'cb | CallInput "nat \<times> jsstring" | CallCheck "nat \<times> bool" | CallRow row_out
  | CallDialog "nat \<times> dialog_call" | CallDrag "'cb dd_call" | CallScroll "nat \<times> nat"
  | CallItem nat | CallColor color_call

type_synonym 'cb outcome = "('cb ui_object \<times> ctx \<times> 'cb view_call ui_event list) res"

definition handled ::
  "('s \<Rightarrow> 'cb ui_object) \<Rightarrow> ('c \<Rightarrow> 'cb view_call) \<Rightarrow> ctx \<Rightarrow> 's \<times> 'c ui_event list \<Rightarrow> 'cb outcome" where
  "handled C call c = (\<lambda>(s, evs). Inr (C s, c, map (map_ui_event call) evs))"

definition handled_res where
  "handled_res C call c r = (case r of Inl e \<Rightarrow> Inl e | Inr p \<Rightarrow> handled C call c p)"

definition ignored :: "'cb ui_object \<Rightarrow> ctx \<Rightarrow> 'cb outcome" where
  "ignored ob c = Inr (ob, c, [])"

fun object_onClick :: "int \<Rightarrow> real \<Rightarrow> real \<Rightarrow> 'cb ui_object \<Rightarrow> ctx \<Rightarrow> 'cb outcome" where
  "object_onClick now x y (ObjList u) c = handled ObjList CallPage c (UIList_onClick x y u)"
| "object_onClick now x y (ObjNumpad u) c = handled ObjNumpad CallPage c (UINumpad_onClick x y u)"
| "object_onClick now x y (ObjArrowButton u) c =
     handled ObjArrowButton CallPage c (UIArrowButton_onClick x y u)"
| "object_onClick now x y (ObjButtonRow u) c =
     handled_res ObjButtonRow CallRow c (UIButtonRow_onClick now x y u)"
| "object_onClick now x y (ObjScrollList u) c =
     handled ObjScrollList CallScroll c (UIScrollList_onClick x y u)"
| "object_onClick now x y (ObjListItem u) c = handled ObjListItem CallItem c (UIListItem_onClick x y u)"
| "object_onClick now x y (ObjColorPalet u) c =
     handled ObjColorPalet CallColor c (UIColorPalet_onClick x y u)"
| "object_onClick now x y (ObjButton u) c = handled ObjButton CallPage c (UIButton_onClick x y u)"
| "object_onClick now x y (ObjDialog u) c = handled ObjDialog CallDialog c (UIDialog_onClick x y u)"
| "object_onClick now x y ob c = ignored ob c"

fun object_onMouseDown ::
  "text_measure \<Rightarrow> int \<Rightarrow> real \<Rightarrow> real \<Rightarrow> 'cb ui_object \<Rightarrow> ctx \<Rightarrow> 'cb outcome" where
  "object_onMouseDown tm now x y (ObjList u) c = handled ObjList CallPage c (UIList_onMouseDown x y u)"
| "object_onMouseDown tm now x y (ObjNumpad u) c =
     handled ObjNumpad CallPage c (UINumpad_onMouseDown x y u)"
| "object_onMouseDown tm now x y (ObjArrowButton u) c =
     handled ObjArrowButton CallPage c (UIArrowButton_onMouseDown x y u)"
| "object_onMouseDown tm now x y (ObjButtonRow u) c =
     (case UIButtonRow_onMouseDown tm now x y u c of
        Inl e \<Rightarrow> Inl e
      | Inr (u', c', evs) \<Rightarrow> handled ObjButtonRow CallRow c' (u', evs))"
| "object_onMouseDown tm now x y (ObjScrollList u) c =
     handled ObjScrollList CallScroll c (UIScrollList_onMouseDown x y u)"
| "object_onMouseDown tm now x y (ObjListItem u) c = ignored (ObjListItem (UIListItem_onMouseDown x y u)) c"
| "object_onMouseDown tm now x y (ObjDragNDrop u) c =
     handled ObjDragNDrop CallDrag c (UIDragNDrop_onMouseDown x y u)"
| "object_onMouseDown tm now x y (ObjColorPalet u) c =
     handled ObjColorPalet CallColor c (UIColorPalet_onMouseDown x y u)"
| "object_onMouseDown tm now x y (ObjCheckBox u) c = ignored (ObjCheckBox (UICheckBox_onMouseDown x y u)) c"
| "object_onMouseDown tm now x y (ObjTextInput u) c =
     (let (u', c', evs) = UITextInput_onMouseDown tm x y u c
      in handled ObjTextInput CallInput c' (u', evs))"
| "object_onMouseDown tm now x y (ObjButton u) c = handled ObjButton CallPage c (UIButton_onMouseDown x y u)"
| "object_onMouseDown tm now x y (ObjDialog u) c =
     (let (u', c', evs) = UIDialog_onMouseDown tm x y u c
      in handled ObjDialog CallDialog c' (u', evs))"
| "object_onMouseDown tm now x y ob c = ignored ob c"

fun object_onMouseUp :: "int \<Rightarrow> real \<Rightarrow> real \<Rightarrow> 'cb ui_object \<Rightarrow> ctx \<Rightarrow> 'cb outcome" where
  "object_onMouseUp now x y (ObjList u) c = handled ObjList CallPage c (UIList_onMouseUp x y u)"
| "object_onMouseUp now x y (ObjNumpad u) c = handled ObjNumpad CallPage c (UINumpad_onMouseUp x y u)"
| "object_onMouseUp now x y (ObjArrowButton u) c =
     handled ObjArrowButton CallPage c (UIArrowButton_onMouseUp x y u)"
| "object_onMouseUp now x y (ObjButtonRow u) c =
     handled ObjButtonRow CallRow c (UIButtonRow_onMouseUp now x y u)"
| "object_onMouseUp now x y (ObjScrollList u) c =
     handled ObjScrollList CallScroll c (UIScrollList_onMouseUp x y u)"
| "object_onMouseUp now x y (ObjListItem u) c = ignored (ObjListItem (UIListItem_onMouseUp x y u)) c"
| "object_onMouseUp now x y (ObjDragNDrop u) c =
     handled ObjDragNDrop CallDrag c (UIDragNDrop_onMouseUp x y u)"
| "object_onMouseUp now x y (ObjColorPalet u) c =
     handled ObjColorPalet CallColor c (UIColorPalet_onMouseUp x y u)"
| "object_onMouseUp now x y (ObjCheckBox u) c = handled ObjCheckBox CallCheck c (UICheckBox_onMouseUp x y u)"
| "object_onMouseUp now x y (ObjButton u) c = handled ObjButton CallPage c (UIButton_onMouseUp x y u)"
| "object_onMouseUp now x y (ObjDialog u) c = handled ObjDialog CallDialog c (UIDialog_onMouseUp x y u)"
| "object_onMouseUp now x y ob c = ignored ob c"

fun object_onMouseMove :: "int \<Rightarrow> real \<Rightarrow> real \<Rightarrow> 'cb ui_object \<Rightarrow> ctx \<Rightarrow> 'cb outcome" where
  "object_onMouseMove now x y (ObjList u) c = handled ObjList CallPage c (UIList_onMouseMove x y u)"
| "object_onMouseMove now x y (ObjNumpad u) c = handled ObjNumpad CallPage c (UINumpad_onMouseMove x y u)"
| "object_onMouseMove now x y (ObjArrowButton u) c =
     handled ObjArrowButton CallPage c (UIArrowButton_onMouseMove x y u)"
| "object_onMouseMove now x y (ObjButtonRow u) c =
     handled_res ObjButtonRow CallRow c (UIButtonRow_onMouseMove now x y u)"
| "object_onMouseMove now x y (ObjScrollList u) c =
     handled ObjScrollList CallScroll c (UIScrollList_onMouseMove x y u)"
| "object_onMouseMove now x y (ObjListItem u) c = ignored (ObjListItem (UIListItem_onMouseMove x y u)) c"
| "object_onMouseMove now x y (ObjDragNDrop u) c =
     handled_res ObjDragNDrop CallDrag c (UIDragNDrop_onMouseMove x y u)"
| "object_onMouseMove now x y (ObjColorPalet u) c =
     handled ObjColorPalet CallColor c (UIColorPalet_onMouseMove x y u)"
| "object_onMouseMove now x y (ObjTextInput u) c =
     handled ObjTextInput CallInput c (UITextInput_onMouseMove x y u)"
| "object_onMouseMove now x y (ObjButton u) c = handled ObjButton CallPage c (UIButton_onMouseMove x y u)"
| "object_onMouseMove now x y (ObjDialog u) c = handled ObjDialog CallDialog c (UIDialog_onMouseMove x y u)"
| "object_onMouseMove now x y ob c = ignored ob c"

fun object_onKeyDown :: "nat \<Rightarrow> 'cb ui_object \<Rightarrow> ctx \<Rightarrow> 'cb outcome" where
  "object_onKeyDown k (ObjNumpad u) c = handled ObjNumpad CallPage c (u, UINumpad_onKeyDown k u)"
| "object_onKeyDown k (ObjButtonRow u) c = handled_res ObjButtonRow CallRow c (UIButtonRow_onKeyDown k u)"
| "object_onKeyDown k (ObjTextInput u) c = handled ObjTextInput CallInput c (UITextInput_onKeyDown k u)"
| "object_onKeyDown k (ObjButton u) c = handled ObjButton CallPage c (u, UIButton_onKeyDown k u)"
| "object_onKeyDown k (ObjDialog u) c = handled ObjDialog CallDialog c (UIDialog_onKeyDown k u)"
| "object_onKeyDown k ob c = ignored ob c"

fun object_onKeyUp :: "nat \<Rightarrow> 'cb ui_object \<Rightarrow> ctx \<Rightarrow> 'cb outcome" where
  "object_onKeyUp k (ObjButtonRow u) c = ignored (ObjButtonRow (UIButtonRow_onKeyUp k u)) c"
| "object_onKeyUp k (ObjTextInput u) c = ignored (ObjTextInput (UITextInput_onKeyUp k u)) c"
| "object_onKeyUp k (ObjDialog u) c = ignored (ObjDialog (UIDialog_onKeyUp k u)) c"
| "object_onKeyUp k ob c = ignored ob c"

fun object_onFileInput :: "'cb ui_object \<Rightarrow> ctx \<Rightarrow> 'cb outcome" where
  "object_onFileInput (ObjButton u) c = handled ObjButton CallPage c (UIButton_onFileInput u)"
| "object_onFileInput ob c = ignored ob c"

fun object_render ::
  "(jsstring \<Rightarrow> jsstring) \<Rightarrow> text_measure \<Rightarrow> int \<Rightarrow> 'cb ui_object \<Rightarrow> image_store \<times> ctx \<Rightarrow>
     ('cb ui_object \<times> image_store \<times> ctx) option" where
  "object_render sha tm now (ObjTextBox u) (m, c) = Some (ObjTextBox u, m, UITextBox_render tm u c)"
| "object_render sha tm now (ObjText u) (m, c) = Some (ObjText u, m, UIText_render tm u c)"
| "object_render sha tm now (ObjLine u) (m, c) = Some (ObjLine u, m, UILine_render u c)"
| "object_render sha tm now (ObjList u) (m, c) =
     (let (u', c') = UIList_render tm u c in Some (ObjList u', m, c'))"
| "object_render sha tm now (ObjNumpad u) (m, c) =
     (let (u', c') = UINumpad_render tm u c in Some (ObjNumpad u', m, c'))"
| "object_render sha tm now (ObjArrowButton u) (m, c) =
     (let (u', c') = UIArrowButton_render tm u c in Some (ObjArrowButton u', m, c'))"
| "object_render sha tm now (ObjButtonRow u) (m, c) =
     (case UIButtonRow_render tm now u c of None \<Rightarrow> None | Some (u', c') \<Rightarrow> Some (ObjButtonRow u', m, c'))"
| "object_render sha tm now (ObjScrollList u) (m, c) =
     (case UIScrollList_render tm u c of None \<Rightarrow> None | Some (u', c') \<Rightarrow> Some (ObjScrollList u', m, c'))"
| "object_render sha tm now (ObjListItem u) (m, c) =
     (case UIListItem_render tm u c of None \<Rightarrow> None | Some (u', c') \<Rightarrow> Some (ObjListItem u', m, c'))"
| "object_render sha tm now (ObjDragNDrop u) (m, c) =
     (let (u', m', c') = UIDragNDrop_render sha tm (u, m, c) in Some (ObjDragNDrop u', m', c'))"
| "object_render sha tm now (ObjCircle u) (m, c) =
     (let (u', c') = UICircle_render tm u c in Some (ObjCircle u', m, c'))"
| "object_render sha tm now (ObjColorPalet u) (m, c) =
     (let (u', c') = UIColorPalet_render tm u c in Some (ObjColorPalet u', m, c'))"
| "object_render sha tm now (ObjImage u) (m, c) =
     (let (u', m', c') = UIImage_render sha tm u (m, c) in Some (ObjImage u', m', c'))"
| "object_render sha tm now (ObjCheckBox u) (m, c) =
     (let (u', c') = UICheckBox_render tm u c in Some (ObjCheckBox u', m, c'))"
| "object_render sha tm now (ObjTextInput u) (m, c) =
     (let (u', c') = UITextInput_render tm now u c in Some (ObjTextInput u', m, c'))"
| "object_render sha tm now (ObjButton u) (m, c) =
     (let (u', c') = UIButton_render tm u c in Some (ObjButton u', m, c'))"
| "object_render sha tm now (ObjDialog u) (m, c) =
     (case UIDialog_render tm now u c of None \<Rightarrow> None | Some (u', c') \<Rightarrow> Some (ObjDialog u', m, c'))"

section \<open>Finding and adding elements\<close>

datatype 'cb found =
  FoundTextBox "unit textbox_scheme" | FoundText textelem | FoundLine lineelem | FoundList "'cb ulist"
  | FoundNumpad "'cb numpad" | FoundArrow "'cb button" | FoundRow buttonrow | FoundScroll scrolllist
  | FoundItem listitem | FoundDrag "'cb dragndrop" | FoundCircle circle | FoundPalet colorpalet
  | FoundImage imageelem | FoundCheck checkbox | FoundInput textinput | FoundButton "'cb button"
  | FoundDialog dialog

fun object_find :: "jsstring option \<Rightarrow> 'cb ui_object \<Rightarrow> 'cb found option" where
  "object_find n (ObjTextBox u) = map_option FoundTextBox (UITextBox_find n u)"
| "object_find n (ObjText u) = map_option FoundText (UIText_find n u)"
| "object_find n (ObjLine u) = map_option FoundLine (UILine_find n u)"
| "object_find n (ObjList u) = map_option FoundList (UIList_find n u)"
| "object_find n (ObjNumpad u) = map_option FoundNumpad (UINumpad_find n u)"
| "object_find n (ObjArrowButton u) = map_option FoundArrow (UIArrowButton_find n u)"
| "object_find n (ObjButtonRow u) = map_option FoundRow (UIButtonRow_find n u)"
| "object_find n (ObjScrollList u) = map_option FoundScroll (UIScrollList_find n u)"
| "object_find n (ObjListItem u) = map_option FoundItem (UIListItem_find n u)"
| "object_find n (ObjDragNDrop u) = map_option FoundDrag (UIDragNDrop_find n u)"
| "object_find n (ObjCircle u) = map_option FoundCircle (UICircle_find n u)"
| "object_find n (ObjColorPalet u) = map_option FoundPalet (UIColorPalet_find n u)"
| "object_find n (ObjImage u) = map_option FoundImage (UIImage_find n u)"
| "object_find n (ObjCheckBox u) = map_option FoundCheck (UICheckBox_find n u)"
| "object_find n (ObjTextInput u) = map_option FoundInput (UITextInput_find n u)"
| "object_find n (ObjButton u) = map_option FoundButton (UIButton_find n u)"
| "object_find n (ObjDialog u) = map_option FoundDialog (UIDialog_find n u)"

section \<open>UIView\<close>

record 'cb uiview =
  vw_is_active :: bool
  vw_canvas :: jsstring     \<comment> \<open>the \<open>id\<close> of the element in \<open>this._canvas\<close>\<close>
  vw_left :: real
  vw_top :: real
  vw_ui_types :: "(jsstring \<times> 'cb ui_object) list"
  vw_ctx :: ctx
  vw_images :: image_store

definition new_UIView :: "canvasuijs \<Rightarrow> jsstring \<Rightarrow> real \<Rightarrow> real \<Rightarrow> ctx \<Rightarrow> image_store \<Rightarrow> 'cb uiview" where
  "new_UIView cj canvas left_edge top_edge c m =
     \<lparr>vw_is_active = False, vw_canvas = canvas, vw_left = left_edge, vw_top = top_edge,
      vw_ui_types = getTypes cj, vw_ctx = c, vw_images = m\<rparr>"

fun first_found :: "jsstring option \<Rightarrow> (jsstring \<times> 'cb ui_object) list \<Rightarrow> 'cb found option" where
  "first_found n [] = None"
| "first_found n ((_, ob) # ts) =
     (case object_find n ob of None \<Rightarrow> first_found n ts | Some f \<Rightarrow> Some f)"

definition view_element :: "jsstring option \<Rightarrow> 'cb uiview \<Rightarrow> 'cb found option" where
  "view_element n v = first_found n (vw_ui_types v)"

text \<open>\<open>addElement\<close>: \<open>add\<close> is the \<open>add\<close> of the class with the options, which changes the object.\<close>

fun add_to ::
  "jsstring \<Rightarrow> ('cb ui_object \<Rightarrow> 'cb ui_object) \<Rightarrow> (jsstring \<times> 'cb ui_object) list \<Rightarrow>
     (jsstring \<times> 'cb ui_object) list" where
  "add_to ty add [] = []"
| "add_to ty add ((n, ob) # ts) = (if n = ty then (n, add ob) # ts else (n, ob) # add_to ty add ts)"

definition view_addElement ::
  "jsstring \<Rightarrow> ('cb ui_object \<Rightarrow> 'cb ui_object) \<Rightarrow> 'cb uiview \<Rightarrow> 'cb uiview" where
  "view_addElement ty add v = v\<lparr>vw_ui_types := add_to ty add (vw_ui_types v)\<rparr>"

fun render_types ::
  "(jsstring \<Rightarrow> jsstring) \<Rightarrow> text_measure \<Rightarrow> int \<Rightarrow> (jsstring \<times> 'cb ui_object) list \<Rightarrow> image_store \<times> ctx \<Rightarrow>
     ((jsstring \<times> 'cb ui_object) list \<times> image_store \<times> ctx) option" where
  "render_types sha tm now [] s = Some ([], s)"
| "render_types sha tm now ((n, ob) # ts) s =
     (case object_render sha tm now ob s of
        None \<Rightarrow> None
      | Some (ob', s') \<Rightarrow>
          (case render_types sha tm now ts s' of
             None \<Rightarrow> None
           | Some (ts', s'') \<Rightarrow> Some ((n, ob') # ts', s'')))"

definition view_render ::
  "(jsstring \<Rightarrow> jsstring) \<Rightarrow> text_measure \<Rightarrow> int \<Rightarrow> 'cb uiview \<Rightarrow> 'cb uiview option" where
  "view_render sha tm now v =
     (if vw_is_active v then
        (case render_types sha tm now (vw_ui_types v) (vw_images v, vw_ctx v) of
           None \<Rightarrow> None
         | Some (ts, m, c) \<Rightarrow> Some (v\<lparr>vw_ui_types := ts, vw_images := m, vw_ctx := c\<rparr>))
      else Some v)"

definition view_setActive :: "bool \<Rightarrow> 'cb uiview \<Rightarrow> 'cb uiview \<times> 'cb view_call ui_event list" where
  "view_setActive state v = (v\<lparr>vw_is_active := state\<rparr>, [Repaint])"

definition view_getDialogActive :: "'cb uiview \<Rightarrow> bool" where
  "view_getDialogActive v \<longleftrightarrow>
     list_ex (\<lambda>(n, ob). n = js ''Dialog'' \<and>
         (case ob of ObjDialog u \<Rightarrow> ud_dialogs u \<noteq> [] | _ \<Rightarrow> False)) (vw_ui_types v)"

text \<open>The loop that all handlers have: while a dialog is open only the type \<open>Dialog\<close> gets the event.\<close>

fun each_type ::
  "bool \<Rightarrow> ('cb ui_object \<Rightarrow> ctx \<Rightarrow> 'cb outcome) \<Rightarrow> (jsstring \<times> 'cb ui_object) list \<Rightarrow> ctx \<Rightarrow>
     ((jsstring \<times> 'cb ui_object) list \<times> ctx \<times> 'cb view_call ui_event list) res" where
  "each_type dialog_active h [] c = Inr ([], c, [])"
| "each_type dialog_active h ((n, ob) # ts) c =
     (case (if \<not> dialog_active \<or> n = js ''Dialog'' then h ob c else Inr (ob, c, [])) of
        Inl e \<Rightarrow> Inl e
      | Inr (ob', c', evs) \<Rightarrow>
          (case each_type dialog_active h ts c' of
             Inl e \<Rightarrow> Inl e
           | Inr (ts', c'', evs') \<Rightarrow> Inr ((n, ob') # ts', c'', evs @ evs')))"

type_synonym 'cb view_result = "('cb uiview \<times> 'cb view_call ui_event list) res"

definition view_send ::
  "bool \<Rightarrow> ('cb ui_object \<Rightarrow> ctx \<Rightarrow> 'cb outcome) \<Rightarrow> 'cb uiview \<Rightarrow> 'cb view_result" where
  "view_send dialog_active h v =
     (case each_type dialog_active h (vw_ui_types v) (vw_ctx v) of
        Inl e \<Rightarrow> Inl e
      | Inr (ts, c, evs) \<Rightarrow> Inr (v\<lparr>vw_ui_types := ts, vw_ctx := c\<rparr>, evs))"

text \<open>An event of a pointer: its type, its place, and for a touch the places that changed.\<close>

record pointer =
  pe_type :: jsstring
  pe_pageX :: real
  pe_pageY :: real
  pe_changedTouches :: "(real \<times> real) list option"

text \<open>Where the event is on the canvas: in whole pixels for an event of the type of the handler, at
  the first touch otherwise; the handler returns for any other event.\<close>

definition canvas_point :: "'cb uiview \<Rightarrow> real \<Rightarrow> real \<Rightarrow> real \<times> real" where
  "canvas_point v px py = (real_of_int \<lfloor>px - vw_left v\<rfloor>, real_of_int \<lfloor>py - vw_top v\<rfloor>)"

definition touch_point :: "'cb uiview \<Rightarrow> (real \<times> real) list \<Rightarrow> (real \<times> real) res" where
  "touch_point v touches =
     (case touches of [] \<Rightarrow> Inl TypeError | (px, py) # _ \<Rightarrow> Inr (canvas_point v px py))"

text \<open>\<open>document.fullscreenElement.id === this._canvas\<close>: a string is compared with an element.\<close>

datatype js_ref = JString jsstring | JElement jsstring

definition fullscreen_here :: "jsstring option \<Rightarrow> 'cb uiview \<Rightarrow> bool" where
  "fullscreen_here fullscreenElement v =
     (case fullscreenElement of None \<Rightarrow> False | Some i \<Rightarrow> JString i = JElement (vw_canvas v))"

definition view_scaled :: "jsstring option \<Rightarrow> real \<Rightarrow> 'cb uiview \<Rightarrow> real \<times> real \<Rightarrow> real \<times> real" where
  "view_scaled fullscreenElement size_multiplier v = (\<lambda>(x, y).
     if fullscreen_here fullscreenElement v then (x * size_multiplier, y * size_multiplier) else (x, y))"

definition event_point :: "jsstring \<Rightarrow> pointer \<Rightarrow> 'cb uiview \<Rightarrow> (real \<times> real) option res" where
  "event_point kind e v =
     (if pe_type e = kind then Inr (Some (canvas_point v (pe_pageX e) (pe_pageY e)))
      else (case pe_changedTouches e of
              None \<Rightarrow> Inr None
            | Some touches \<Rightarrow>
                (case touch_point v touches of Inl err \<Rightarrow> Inl err | Inr p \<Rightarrow> Inr (Some p))))"

definition is_touch :: "jsstring \<Rightarrow> pointer \<Rightarrow> bool" where
  "is_touch kind e \<longleftrightarrow> pe_type e \<noteq> kind \<and> pe_changedTouches e \<noteq> None"

definition preceded ::
  "'cb view_call ui_event list \<Rightarrow> 'cb view_result \<Rightarrow> 'cb view_result" where
  "preceded evs r = (case r of Inl e \<Rightarrow> Inl e | Inr (v, evs') \<Rightarrow> Inr (v, evs @ evs'))"

definition view_onClick ::
  "int \<Rightarrow> jsstring option \<Rightarrow> real \<Rightarrow> pointer \<Rightarrow> 'cb uiview \<Rightarrow> 'cb view_result" where
  "view_onClick now fs m e v =
     preceded [PreventDefault]
       (if \<not> vw_is_active v then Inr (v, [])
        else (case event_point (js ''click'') e v of
                Inl err \<Rightarrow> Inl err
              | Inr None \<Rightarrow> Inr (v, [])
              | Inr (Some p) \<Rightarrow>
                  (let (x, y) = view_scaled fs m v p
                   in view_send (view_getDialogActive v) (object_onClick now x y) v)))"

text \<open>A touch that ends is a click first.\<close>

definition view_onMouseUp ::
  "int \<Rightarrow> jsstring option \<Rightarrow> real \<Rightarrow> pointer \<Rightarrow> 'cb uiview \<Rightarrow> 'cb view_result" where
  "view_onMouseUp now fs m e v =
     preceded [PreventDefault]
       (if \<not> vw_is_active v then Inr (v, [])
        else (case event_point (js ''mouseup'') e v of
                Inl err \<Rightarrow> Inl err
              | Inr None \<Rightarrow> Inr (v, [])
              | Inr (Some p) \<Rightarrow>
                  (case (if is_touch (js ''mouseup'') e then view_onClick now fs m e v
                         else Inr (v, [])) of
                     Inl err \<Rightarrow> Inl err
                   | Inr (v1, evs) \<Rightarrow>
                       (let (x, y) = view_scaled fs m v1 p
                        in preceded evs
                             (view_send (view_getDialogActive v) (object_onMouseUp now x y) v1)))))"

definition view_onMouseMove ::
  "int \<Rightarrow> jsstring option \<Rightarrow> real \<Rightarrow> pointer \<Rightarrow> 'cb uiview \<Rightarrow> 'cb view_result" where
  "view_onMouseMove now fs m e v =
     preceded [PreventDefault]
       (if \<not> vw_is_active v then Inr (v, [])
        else (case event_point (js ''mousemove'') e v of
                Inl err \<Rightarrow> Inl err
              | Inr None \<Rightarrow> Inr (v, [])
              | Inr (Some p) \<Rightarrow>
                  (let (x, y) = view_scaled fs m v p
                   in view_send (view_getDialogActive v) (object_onMouseMove now x y) v)))"

text \<open>A touch that starts is a movement first.\<close>

definition view_onMouseDown ::
  "text_measure \<Rightarrow> int \<Rightarrow> jsstring option \<Rightarrow> real \<Rightarrow> pointer \<Rightarrow> 'cb uiview \<Rightarrow> 'cb view_result" where
  "view_onMouseDown tm now fs m e v =
     preceded [PreventDefault]
       (if \<not> vw_is_active v then Inr (v, [])
        else (case (if is_touch (js ''mousedown'') e then view_onMouseMove now fs m e v
                    else Inr (v, [])) of
                Inl err \<Rightarrow> Inl err
              | Inr (v1, evs) \<Rightarrow>
                  (case event_point (js ''mousedown'') e v1 of
                     Inl err \<Rightarrow> Inl err
                   | Inr None \<Rightarrow> Inr (v1, evs)
                   | Inr (Some p) \<Rightarrow>
                       (let (x, y) = view_scaled fs m v1 p
                        in preceded evs
                             (view_send (view_getDialogActive v) (object_onMouseDown tm now x y) v1)))))"

definition view_onKeyDown :: "nat \<Rightarrow> 'cb uiview \<Rightarrow> 'cb view_result" where
  "view_onKeyDown k v =
     (if vw_is_active v then view_send (view_getDialogActive v) (object_onKeyDown k) v
      else Inr (v, []))"

definition view_onKeyUp :: "nat \<Rightarrow> 'cb uiview \<Rightarrow> 'cb view_result" where
  "view_onKeyUp k v =
     (if vw_is_active v then view_send (view_getDialogActive v) (object_onKeyUp k) v
      else Inr (v, []))"

definition view_onFileInput :: "'cb uiview \<Rightarrow> 'cb view_result" where
  "view_onFileInput v =
     (if vw_is_active v then view_send (view_getDialogActive v) object_onFileInput v
      else Inr (v, []))"

definition view_clear :: "canvasuijs \<Rightarrow> 'cb uiview \<Rightarrow> 'cb uiview" where
  "view_clear cj v = v\<lparr>vw_ui_types := getTypes cj\<rparr>"

section \<open>Any event\<close>

text \<open>What the page binds to the handlers.\<close>

datatype view_event =
  EvClick pointer | EvUp pointer | EvDown pointer | EvMove pointer | EvKeyDown nat | EvKeyUp nat
  | EvFile

fun handle_event ::
  "text_measure \<Rightarrow> int \<Rightarrow> jsstring option \<Rightarrow> real \<Rightarrow> view_event \<Rightarrow> 'cb uiview \<Rightarrow> 'cb view_result" where
  "handle_event tm now fs m (EvClick e) v = view_onClick now fs m e v"
| "handle_event tm now fs m (EvUp e) v = view_onMouseUp now fs m e v"
| "handle_event tm now fs m (EvDown e) v = view_onMouseDown tm now fs m e v"
| "handle_event tm now fs m (EvMove e) v = view_onMouseMove now fs m e v"
| "handle_event tm now fs m (EvKeyDown k) v = view_onKeyDown k v"
| "handle_event tm now fs m (EvKeyUp k) v = view_onKeyUp k v"
| "handle_event tm now fs m EvFile v = view_onFileInput v"

section \<open>Modality\<close>

text \<open>The type \<open>Dialog\<close> is registered for \<open>UIDialog\<close>, and nothing else is.\<close>

definition typed_view :: "'cb uiview \<Rightarrow> bool" where
  "typed_view v \<longleftrightarrow> (\<forall>(n, ob) \<in> set (vw_ui_types v).
     (n = js ''Dialog'') = (case ob of ObjDialog u \<Rightarrow> True | _ \<Rightarrow> False))"

definition dialog_only :: "'cb view_call ui_event list \<Rightarrow> bool" where
  "dialog_only evs \<longleftrightarrow> (\<forall>call \<in> set (callbacks evs). case call of CallDialog p \<Rightarrow> True | _ \<Rightarrow> False)"

definition others :: "'cb uiview \<Rightarrow> (jsstring \<times> 'cb ui_object) list" where
  "others v = filter (\<lambda>(n, ob). n \<noteq> js ''Dialog'') (vw_ui_types v)"

lemma dialog_only_simps [simp]:
  "dialog_only []" "dialog_only (a @ b) \<longleftrightarrow> dialog_only a \<and> dialog_only b"
  "dialog_only [PreventDefault]"
  by (auto simp: dialog_only_def)

lemma callbacks_map: "callbacks (map (map_ui_event f) evs) = map f (callbacks evs)"
  by (induction evs) (auto simp: callbacks_def split: ui_event.splits)

lemma dialog_events_only [simp]: "dialog_only (map (map_ui_event CallDialog) evs)"
  by (auto simp: dialog_only_def callbacks_map)

lemma preceded_Inr:
  "preceded evs r = Inr (v, es) \<longleftrightarrow> (\<exists>es'. r = Inr (v, es') \<and> es = evs @ es')"
  by (auto simp: preceded_def split: sum.splits)

text \<open>A result that leaves every other type as it was and calls back dialogs only.\<close>

definition modal_result :: "'cb uiview \<Rightarrow> 'cb view_result \<Rightarrow> bool" where
  "modal_result v r \<longleftrightarrow>
     (\<forall>v' evs. r = Inr (v', evs) \<longrightarrow> others v' = others v \<and> dialog_only evs \<and> typed_view v')"

lemma modal_trans:
  assumes "modal_result v (Inr (v1, evs))" "typed_view v1 \<Longrightarrow> modal_result v1 r"
  shows "modal_result v (preceded evs r)"
  using assms by (auto simp: modal_result_def preceded_Inr)

lemma modal_prevent: "modal_result v r \<Longrightarrow> modal_result v (preceded [PreventDefault] r)"
  unfolding modal_result_def preceded_Inr using dialog_only_simps(2,3) by metis

lemma modal_same: "typed_view v \<Longrightarrow> modal_result v (Inr (v, []))"
  by (simp add: modal_result_def)

lemma modal_Inl [simp]: "modal_result v (Inl e)"
  by (simp add: modal_result_def)

text \<open>What the view relies on: the handler of a dialog's object gives a dialog's object again and
  calls back dialogs only.\<close>

locale dialog_handler =
  fixes h :: "'cb ui_object \<Rightarrow> ctx \<Rightarrow> 'cb outcome"
  assumes dialog_kept: "h (ObjDialog u) c = Inr (ob, c', evs) \<Longrightarrow>
      (\<exists>u'. ob = ObjDialog u') \<and> dialog_only evs"
begin

lemma each_type_modal:
  assumes "each_type True h ts c = Inr (ts', c', evs)"
    and "\<forall>(n, ob) \<in> set ts. (n = js ''Dialog'') = (case ob of ObjDialog u \<Rightarrow> True | _ \<Rightarrow> False)"
  shows "filter (\<lambda>(n, ob). n \<noteq> js ''Dialog'') ts' = filter (\<lambda>(n, ob). n \<noteq> js ''Dialog'') ts \<and>
    dialog_only evs \<and>
    (\<forall>(n, ob) \<in> set ts'. (n = js ''Dialog'') = (case ob of ObjDialog u \<Rightarrow> True | _ \<Rightarrow> False))"
  using assms
proof (induction ts arbitrary: c ts' evs)
  case Nil
  then show ?case by simp
next
  case (Cons p ts)
  obtain n ob where p: "p = (n, ob)" by fastforce
  obtain ob1 c1 e1 where h1: "(if n = js ''Dialog'' then h ob c else Inr (ob, c, [])) = Inr (ob1, c1, e1)"
    using Cons.prems(1) by (auto simp: p split: sum.splits)
  obtain ts1 e2 where r: "each_type True h ts c1 = Inr (ts1, c', e2)" "ts' = (n, ob1) # ts1" "evs = e1 @ e2"
    using Cons.prems(1) h1 by (auto simp: p split: sum.splits)
  have IH: "filter (\<lambda>(n, ob). n \<noteq> js ''Dialog'') ts1 = filter (\<lambda>(n, ob). n \<noteq> js ''Dialog'') ts \<and>
      dialog_only e2 \<and>
      (\<forall>(n, ob) \<in> set ts1. (n = js ''Dialog'') = (case ob of ObjDialog u \<Rightarrow> True | _ \<Rightarrow> False))"
    using Cons.IH [OF r(1)] Cons.prems(2) by (simp add: p)
  show ?case
  proof (cases "n = js ''Dialog''")
    case True
    then obtain u where u: "ob = ObjDialog u"
      using Cons.prems(2) by (auto simp: p split: ui_object.splits)
    then have "h (ObjDialog u) c = Inr (ob1, c1, e1)" using h1 True by simp
    from dialog_kept [OF this] show ?thesis using IH r(2,3) True by (auto simp: p)
  next
    case False
    then show ?thesis using IH r(2,3) h1 Cons.prems(2) by (auto simp: p)
  qed
qed

lemma modal:
  assumes "typed_view v"
  shows "modal_result v (view_send True h v)"
  unfolding modal_result_def
proof (intro allI impI)
  fix v' evs assume sent: "view_send True h v = Inr (v', evs)"
  obtain ts c where e: "each_type True h (vw_ui_types v) (vw_ctx v) = Inr (ts, c, evs)"
      "v' = v\<lparr>vw_ui_types := ts, vw_ctx := c\<rparr>"
    using sent by (auto simp: view_send_def split: sum.splits)
  from each_type_modal [OF e(1) assms [unfolded typed_view_def]]
  show "others v' = others v \<and> dialog_only evs \<and> typed_view v'"
    by (simp add: others_def typed_view_def e(2))
qed

end

interpretation modal_click: dialog_handler "object_onClick now x y" for now x y
  by unfold_locales (auto simp: handled_def split: prod.splits)

interpretation modal_up: dialog_handler "object_onMouseUp now x y" for now x y
  by unfold_locales (auto simp: handled_def split: prod.splits)

interpretation modal_down: dialog_handler "object_onMouseDown tm now x y" for tm now x y
  by unfold_locales (auto simp: handled_def split: prod.splits)

interpretation modal_move: dialog_handler "object_onMouseMove now x y" for now x y
  by unfold_locales (auto simp: handled_def split: prod.splits)

interpretation modal_key: dialog_handler "object_onKeyDown k" for k
  by unfold_locales (auto simp: handled_def split: prod.splits)

interpretation modal_keyup: dialog_handler "object_onKeyUp k" for k
  by unfold_locales (auto simp: ignored_def)

interpretation modal_file: dialog_handler object_onFileInput
  by unfold_locales (auto simp: ignored_def)

lemma modal_onClick:
  assumes "typed_view v" "view_getDialogActive v"
  shows "modal_result v (view_onClick now fs m e v)"
  unfolding view_onClick_def
  by (intro modal_prevent)
    (simp add: assms modal_same modal_click.modal split_beta split: sum.split option.split)

lemma modal_onMouseMove:
  assumes "typed_view v" "view_getDialogActive v"
  shows "modal_result v (view_onMouseMove now fs m e v)"
  unfolding view_onMouseMove_def
  by (intro modal_prevent)
    (simp add: assms modal_same modal_move.modal split_beta split: sum.split option.split)

lemma modal_onMouseUp:
  assumes "typed_view v" "view_getDialogActive v"
  shows "modal_result v (view_onMouseUp now fs m e v)"
proof -
  let ?first = "if is_touch (js ''mouseup'') e then view_onClick now fs m e v else Inr (v, [])"
  have first: "modal_result v ?first"
    by (simp add: assms modal_onClick modal_same)
  define rest where "rest = (\<lambda>p. case ?first of Inl err \<Rightarrow> Inl err
      | Inr (v1, evs) \<Rightarrow> (let (x, y) = view_scaled fs m v1 p
          in preceded evs (view_send (view_getDialogActive v) (object_onMouseUp now x y) v1)))"
  have "modal_result v (rest p)" for p
    unfolding rest_def using assms(2) first
    by (auto simp: split_beta split: sum.split intro!: modal_trans modal_up.modal)
  then show ?thesis
    unfolding view_onMouseUp_def rest_def [symmetric]
    by (intro modal_prevent) (simp add: assms(1) modal_same split: sum.split option.split)
qed

lemma modal_onMouseDown:
  assumes "typed_view v" "view_getDialogActive v"
  shows "modal_result v (view_onMouseDown tm now fs m e v)"
proof -
  let ?first = "if is_touch (js ''mousedown'') e then view_onMouseMove now fs m e v else Inr (v, [])"
  have first: "modal_result v ?first"
    by (simp add: assms modal_onMouseMove modal_same)
  define rest where "rest = (\<lambda>(v1 :: 'a uiview) evs. case event_point (js ''mousedown'') e v1 of
       Inl err \<Rightarrow> Inl err
     | Inr None \<Rightarrow> Inr (v1, evs)
     | Inr (Some p) \<Rightarrow> (let (x, y) = view_scaled fs m v1 p
         in preceded evs (view_send (view_getDialogActive v) (object_onMouseDown tm now x y) v1)))"
  have "modal_result v (rest v1 evs)" if "?first = Inr (v1, evs)" for v1 evs
    using first assms(2) unfolding that rest_def
    by (auto simp: split_beta split: sum.split option.split intro!: modal_trans modal_down.modal)
  then have "modal_result v (case ?first of Inl err \<Rightarrow> Inl err | Inr (v1, evs) \<Rightarrow> rest v1 evs)"
    by (cases ?first) auto
  then show ?thesis
    unfolding view_onMouseDown_def rest_def [symmetric]
    by (intro modal_prevent) (cases "vw_is_active v", simp_all only: if_True if_False not_True_eq_False not_False_eq_True modal_same [OF assms(1)])
qed

text \<open>C4: While a dialog is open, no event of the page, whatever it is, changes an element of another
  class or calls one back.\<close>

theorem dialog_is_modal:
  assumes "typed_view v" "view_getDialogActive v" "handle_event tm now fs m e v = Inr (v', evs)"
  shows "others v' = others v \<and> dialog_only evs \<and> typed_view v'"
proof -
  have "modal_result v (handle_event tm now fs m e v)"
  proof (cases e)
    case (EvClick p)
    then show ?thesis using modal_onClick [OF assms(1,2)] by simp
  next
    case (EvUp p)
    then show ?thesis using modal_onMouseUp [OF assms(1,2)] by simp
  next
    case (EvDown p)
    then show ?thesis using modal_onMouseDown [OF assms(1,2)] by simp
  next
    case (EvMove p)
    then show ?thesis using modal_onMouseMove [OF assms(1,2)] by simp
  next
    case (EvKeyDown k)
    then show ?thesis using modal_key.modal [OF assms(1), of k] assms(1,2)
      by (simp add: view_onKeyDown_def modal_same)
  next
    case (EvKeyUp k)
    then show ?thesis using modal_keyup.modal [OF assms(1), of k] assms(1,2)
      by (simp add: view_onKeyUp_def modal_same)
  next
    case EvFile
    then show ?thesis using modal_file.modal [OF assms(1)] assms(1,2)
      by (simp add: view_onFileInput_def modal_same)
  qed
  then show ?thesis using assms(3) by (simp add: modal_result_def)
qed

section \<open>What a view does with its events\<close>

text \<open>A view that is not active changes nothing, whatever the event is, and draws nothing; all it
  does is to take the events of the pointer away from the page.\<close>

theorem inactive_view:
  assumes "\<not> vw_is_active v"
  shows "(\<exists>evs. handle_event tm now fs m e v = Inr (v, evs) \<and> set evs \<subseteq> {PreventDefault}) \<and>
    view_render sha tm now v = Some v"
proof
  show "view_render sha tm now v = Some v" using assms by (simp add: view_render_def)
  show "\<exists>evs. handle_event tm now fs m e v = Inr (v, evs) \<and> set evs \<subseteq> {PreventDefault}"
  proof (cases e)
    case (EvDown p)
    then show ?thesis using assms
      by (simp add: view_onMouseDown_def preceded_def)
  qed (use assms in \<open>simp_all add: view_onClick_def view_onMouseUp_def view_onMouseMove_def
        view_onKeyDown_def view_onKeyUp_def view_onFileInput_def preceded_def\<close>)
qed

text \<open>The pointer's leaving the canvas is bound to the handlers of a release and of a click, but both
  return for it: what was pressed stays pressed.\<close>

theorem leaving_releases_nothing:
  assumes "pe_type e = js ''mouseleave''" "pe_changedTouches e = None"
  shows "view_onMouseUp now fs m e v = Inr (v, [PreventDefault]) \<and>
    view_onClick now fs m e v = Inr (v, [PreventDefault])"
  using assms
  by (simp add: view_onMouseUp_def view_onClick_def event_point_def preceded_def)

text \<open>No position is ever scaled: the \<open>id\<close> of the full screen element is compared with an element,
  so the handlers get the position in page pixels, in full screen too.\<close>

theorem never_scaled: "view_scaled fullscreenElement size_multiplier v (x, y) = (x, y)"
  by (simp add: view_scaled_def fullscreen_here_def split: option.splits)

lemma object_nested:
  assumes "object_render sha tm now ob (m, c) = Some (ob', m', c')"
  shows "\<exists>cs. c' = c @ cs \<and> well_nested cs"
proof -
  have pure: "\<exists>cs. f c = c @ cs \<and> well_nested cs" if "draws_nested f" for f
    using that by (simp add: draws_nested_def)
  show ?thesis
  proof (cases ob)
    case (ObjTextBox u)
    then show ?thesis using assms pure [OF UITextBox_render_nested [of tm u]] by simp
  next
    case (ObjText u)
    then show ?thesis using assms pure [OF UIText_render_nested [of tm u]] by simp
  next
    case (ObjLine u)
    then show ?thesis using assms pure [OF UILine_render_nested [of u]] by simp
  next
    case (ObjList u)
    then show ?thesis using assms pure [OF UIList_render_nested [of tm u]] by (simp add: split_beta)
  next
    case (ObjNumpad u)
    then show ?thesis using assms pure [OF UINumpad_render_nested [of tm u]] by (simp add: split_beta)
  next
    case (ObjArrowButton u)
    then show ?thesis using assms pure [OF UIArrowButton_render_nested [of tm u]] by (simp add: split_beta)
  next
    case (ObjButtonRow u)
    then show ?thesis using assms UIButtonRow_render_nested [of tm now u c] by (auto split: option.splits)
  next
    case (ObjScrollList u)
    then show ?thesis using assms UIScrollList_render_nested [of tm u c] by (auto split: option.splits)
  next
    case (ObjListItem u)
    then show ?thesis using assms UIListItem_render_nested [of tm u c] by (auto split: option.splits)
  next
    case (ObjDragNDrop u)
    then show ?thesis using assms UIDragNDrop_render_nested [of sha tm u m c] by (simp add: split_beta)
  next
    case (ObjCircle u)
    then show ?thesis using assms pure [OF UICircle_render_nested [of tm u]] by (simp add: split_beta)
  next
    case (ObjColorPalet u)
    then show ?thesis using assms pure [OF UIColorPalet_render_nested [of tm u]] by (simp add: split_beta)
  next
    case (ObjImage u)
    then show ?thesis using assms UIImage_render_nested [of sha tm u m c] by (simp add: split_beta)
  next
    case (ObjCheckBox u)
    then show ?thesis using assms pure [OF UICheckBox_render_nested [of tm u]] by (simp add: split_beta)
  next
    case (ObjTextInput u)
    then show ?thesis using assms pure [OF UITextInput_render_nested [of tm now u]] by (simp add: split_beta)
  next
    case (ObjButton u)
    then show ?thesis using assms pure [OF UIButton_render_nested [of tm u]] by (simp add: split_beta)
  next
    case (ObjDialog u)
    then show ?thesis using assms UIDialog_render_nested [of tm now u c] by (auto split: option.splits)
  qed
qed

lemma render_types_nested:
  "render_types sha tm now ts (m, c) = Some (ts', m', c') \<Longrightarrow> \<exists>cs. c' = c @ cs \<and> well_nested cs"
proof (induction ts arbitrary: m c ts')
  case Nil
  then show ?case by simp
next
  case (Cons p ts)
  obtain n ob where p: "p = (n, ob)" by fastforce
  obtain ob1 m1 c1 where o1: "object_render sha tm now ob (m, c) = Some (ob1, m1, c1)"
    using Cons.prems by (auto simp: p split: option.splits)
  obtain ts1 where r: "render_types sha tm now ts (m1, c1) = Some (ts1, m', c')"
    using Cons.prems o1 by (auto simp: p split: option.splits)
  show ?case using object_nested [OF o1] Cons.IH [OF r] by (auto intro: well_nested_append)
qed

text \<open>Drawing a whole view only appends to the context and leaves no state of it saved: no class can
  disturb the drawing of the classes after it.\<close>

theorem view_render_nested:
  assumes "view_render sha tm now v = Some v'"
  shows "\<exists>cs. vw_ctx v' = vw_ctx v @ cs \<and> well_nested cs"
proof (cases "vw_is_active v")
  case True
  then obtain ts m c where r: "render_types sha tm now (vw_ui_types v) (vw_images v, vw_ctx v) = Some (ts, m, c)"
      "vw_ctx v' = c"
    using assms by (auto simp: view_render_def split: option.splits)
  from render_types_nested [OF r(1)] show ?thesis by (simp add: r(2))
next
  case False
  then show ?thesis using assms by (auto simp: view_render_def)
qed

section \<open>The classes of the objects\<close>

fun class_of :: "'cb ui_object \<Rightarrow> ui_class" where
  "class_of (ObjTextBox u) = ClsTextBox" | "class_of (ObjText u) = ClsText"
| "class_of (ObjLine u) = ClsLine" | "class_of (ObjList u) = ClsList"
| "class_of (ObjNumpad u) = ClsNumpad" | "class_of (ObjArrowButton u) = ClsArrowButton"
| "class_of (ObjButtonRow u) = ClsButtonRow" | "class_of (ObjScrollList u) = ClsScrollList"
| "class_of (ObjListItem u) = ClsListItem" | "class_of (ObjDragNDrop u) = ClsDragNDrop"
| "class_of (ObjCircle u) = ClsCircle" | "class_of (ObjColorPalet u) = ClsColorPalet"
| "class_of (ObjImage u) = ClsImage" | "class_of (ObjCheckBox u) = ClsCheckBox"
| "class_of (ObjTextInput u) = ClsTextInput" | "class_of (ObjButton u) = ClsButton"
| "class_of (ObjDialog u) = ClsDialog"

definition classes :: "'cb uiview \<Rightarrow> (jsstring \<times> ui_class) list" where
  "classes v = map (apsnd class_of) (vw_ui_types v)"

locale class_handler =
  fixes h :: "'cb ui_object \<Rightarrow> ctx \<Rightarrow> 'cb outcome"
  assumes class_kept: "h ob c = Inr (ob', c', evs) \<Longrightarrow> class_of ob' = class_of ob"
begin

lemma each_type_classes:
  "each_type da h ts c = Inr (ts', c', evs) \<Longrightarrow> map (apsnd class_of) ts' = map (apsnd class_of) ts"
proof (induction ts arbitrary: c ts' evs)
  case Nil
  then show ?case by simp
next
  case (Cons p ts)
  obtain n ob where p: "p = (n, ob)" by fastforce
  obtain ob1 c1 e1 where h1: "(if \<not> da \<or> n = js ''Dialog'' then h ob c else Inr (ob, c, [])) = Inr (ob1, c1, e1)"
    using Cons.prems by (auto simp: p split: sum.splits)
  obtain ts1 e2 where r: "each_type da h ts c1 = Inr (ts1, c', e2)" "ts' = (n, ob1) # ts1"
    using Cons.prems h1 by (auto simp: p split: sum.splits)
  have "class_of ob1 = class_of ob" using h1 class_kept by (auto split: if_splits)
  then show ?case using Cons.IH [OF r(1)] r(2) by (simp add: p)
qed

lemma send_classes: "view_send da h v = Inr (v', evs) \<Longrightarrow> classes v' = classes v"
  using each_type_classes by (auto simp: view_send_def classes_def split: sum.splits)

end

lemma handled_class:
  "handled C call c p = Inr (ob', c', evs) \<Longrightarrow> \<exists>u. ob' = C u"
  "handled_res C call c r = Inr (ob', c', evs) \<Longrightarrow> \<exists>u. ob' = C u"
  by (auto simp: handled_def handled_res_def split: prod.splits sum.splits)

interpretation class_click: class_handler "object_onClick now x y" for now x y
proof
  show "class_of ob' = class_of ob" if "object_onClick now x y ob c = Inr (ob', c', evs)" for ob ob' :: "'a ui_object" and c c' evs
    using that by (cases ob) (auto simp: ignored_def dest!: handled_class)
qed

interpretation class_up: class_handler "object_onMouseUp now x y" for now x y
proof
  show "class_of ob' = class_of ob" if "object_onMouseUp now x y ob c = Inr (ob', c', evs)" for ob ob' :: "'a ui_object" and c c' evs
    using that by (cases ob) (auto simp: ignored_def dest!: handled_class)
qed

interpretation class_down: class_handler "object_onMouseDown tm now x y" for tm now x y
proof
  show "class_of ob' = class_of ob" if "object_onMouseDown tm now x y ob c = Inr (ob', c', evs)" for ob ob' :: "'a ui_object" and c c' evs
    using that by (cases ob) (auto simp: ignored_def split_beta dest!: handled_class split: sum.splits)
qed

interpretation class_move: class_handler "object_onMouseMove now x y" for now x y
proof
  show "class_of ob' = class_of ob" if "object_onMouseMove now x y ob c = Inr (ob', c', evs)" for ob ob' :: "'a ui_object" and c c' evs
    using that by (cases ob) (auto simp: ignored_def dest!: handled_class)
qed

interpretation class_key: class_handler "object_onKeyDown k" for k
proof
  show "class_of ob' = class_of ob" if "object_onKeyDown k ob c = Inr (ob', c', evs)" for ob ob' :: "'a ui_object" and c c' evs
    using that by (cases ob) (auto simp: ignored_def dest!: handled_class)
qed

interpretation class_keyup: class_handler "object_onKeyUp k" for k
proof
  show "class_of ob' = class_of ob" if "object_onKeyUp k ob c = Inr (ob', c', evs)" for ob ob' :: "'a ui_object" and c c' evs
    using that by (cases ob) (auto simp: ignored_def)
qed

interpretation class_file: class_handler object_onFileInput
proof
  show "class_of ob' = class_of ob" if "object_onFileInput ob c = Inr (ob', c', evs)" for ob ob' :: "'a ui_object" and c c' evs
    using that by (cases ob) (auto simp: ignored_def dest!: handled_class)
qed

lemma render_types_classes:
  "render_types sha tm now ts s = Some (ts', s') \<Longrightarrow> map (apsnd class_of) ts' = map (apsnd class_of) ts"
proof (induction ts arbitrary: s ts')
  case Nil
  then show ?case by simp
next
  case (Cons p ts)
  obtain n ob where p: "p = (n, ob)" by fastforce
  obtain ob1 s1 where o1: "object_render sha tm now ob s = Some (ob1, s1)"
    using Cons.prems by (auto simp: p split: option.splits)
  obtain ts1 where r: "render_types sha tm now ts s1 = Some (ts1, s')" "ts' = (n, ob1) # ts1"
    using Cons.prems o1 by (auto simp: p split: option.splits)
  have "class_of ob1 = class_of ob"
    using o1 by (cases s; cases ob) (auto simp: Let_def split_beta split: option.splits)
  then show ?case using Cons.IH [OF r(1)] r(2) by (simp add: p)
qed

lemma click_classes: "view_onClick now fs m e v = Inr (v', evs) \<Longrightarrow> classes v' = classes v"
  using class_click.send_classes
  by (auto simp: view_onClick_def preceded_Inr split_beta split: if_splits sum.splits option.splits)

lemma move_classes: "view_onMouseMove now fs m e v = Inr (v', evs) \<Longrightarrow> classes v' = classes v"
  using class_move.send_classes
  by (auto simp: view_onMouseMove_def preceded_Inr split_beta split: if_splits sum.splits option.splits)

lemma up_classes:
  assumes "view_onMouseUp now fs m e v = Inr (v', evs)"
  shows "classes v' = classes v"
proof -
  have "v' = v \<or> (\<exists>v1 evs1 da x y es. (v1 = v \<or> view_onClick now fs m e v = Inr (v1, evs1)) \<and>
      view_send da (object_onMouseUp now x y) v1 = Inr (v', es))"
    using assms
    by (fastforce simp: view_onMouseUp_def preceded_Inr split_beta split: if_splits sum.splits option.splits)
  then show ?thesis
    by (elim disjE exE conjE) (simp, drule class_up.send_classes, simp,
        drule class_up.send_classes, drule click_classes, simp)
qed

lemma down_classes:
  assumes "view_onMouseDown tm now fs m e v = Inr (v', evs)"
  shows "classes v' = classes v"
proof -
  have "\<exists>v1 evs1. (v1 = v \<or> view_onMouseMove now fs m e v = Inr (v1, evs1)) \<and>
      (v' = v1 \<or> (\<exists>da x y es. view_send da (object_onMouseDown tm now x y) v1 = Inr (v', es)))"
    using assms
    by (fastforce simp: view_onMouseDown_def preceded_Inr split_beta split: if_splits sum.splits option.splits)
  then show ?thesis
    by (elim disjE exE conjE) (simp, drule class_down.send_classes, simp,
        drule move_classes, simp, drule class_down.send_classes, drule move_classes, simp)
qed

lemma typed_classes:
  "typed_view v \<longleftrightarrow> (\<forall>(n, c) \<in> set (classes v). (n = js ''Dialog'') = (c = ClsDialog))"
proof -
  have "(case ob of ObjDialog u \<Rightarrow> True | _ \<Rightarrow> False) = (class_of ob = ClsDialog)" for ob :: "'a ui_object"
    by (cases ob) simp_all
  then show ?thesis by (auto simp: typed_view_def classes_def)
qed

lemma loaded_classes: "\<forall>(n, c) \<in> set (classes (view_clear loaded_types v)). (n = js ''Dialog'') = (c = ClsDialog)"
  by (simp add: classes_def view_clear_def loaded_types_def new_CanvasUIJs_def addType_def
      addLateType_def getTypes_def)

text \<open>Whatever event a view gets and however it is drawn, it keeps under each type name an object of
  the class that was registered for it. So \<open>typed_view\<close>, which \<open>dialog_is_modal\<close> asks for, holds in every
  view of the registered classes: the type \<open>Dialog\<close>, and only it, is a \<open>UIDialog\<close>.\<close>

theorem view_keeps_classes:
  assumes "handle_event tm now fs m e v = Inr (v1, evs)" "view_render sha tm now v1 = Some v2"
  shows "classes v1 = classes v \<and> classes v2 = classes v \<and>
    (classes v = classes (view_clear loaded_types v) \<longrightarrow> typed_view v2)"
proof -
  have c1: "classes v1 = classes v"
    using assms(1)
  proof (cases e)
    case (EvKeyDown k)
    then show ?thesis using assms(1) class_key.send_classes by (auto simp: view_onKeyDown_def split: if_splits)
  next
    case (EvKeyUp k)
    then show ?thesis using assms(1) class_keyup.send_classes by (auto simp: view_onKeyUp_def split: if_splits)
  next
    case EvFile
    then show ?thesis using assms(1) class_file.send_classes by (auto simp: view_onFileInput_def split: if_splits)
  qed (use assms(1) in \<open>auto dest: click_classes move_classes up_classes down_classes\<close>)
  have c2: "classes v2 = classes v1"
    using assms(2) render_types_classes
    by (fastforce simp: view_render_def classes_def split: if_splits option.splits)
  show ?thesis using c1 c2 loaded_classes [of v] by (simp add: typed_classes)
qed

section \<open>Adding and finding\<close>

lemma first_found_added:
  assumes "first_found n ts = None" "(ty, ob) \<in> set ts" "\<And>ob. (ty, ob) \<in> set ts \<Longrightarrow> object_find n ob = None \<Longrightarrow>
      object_find n (add ob) = Some f"
  shows "first_found n (add_to ty add ts) = Some f"
  using assms
proof (induction ts)
  case Nil
  then show ?case by simp
next
  case (Cons p ts)
  obtain n' ob' where p: "p = (n', ob')" by fastforce
  have none: "object_find n ob' = None" "first_found n ts = None"
    using Cons.prems(1) by (auto simp: p split: option.splits)
  show ?case
  proof (cases "n' = ty")
    case True
    then show ?thesis using Cons.prems(3) [of ob'] none by (simp add: p)
  next
    case False
    then show ?thesis using Cons.IH none Cons.prems(2,3) by (auto simp: p)
  qed
qed

fun add_button :: "'cb button \<Rightarrow> 'cb ui_object \<Rightarrow> 'cb ui_object" where
  "add_button b (ObjButton u) = ObjButton (UIButton_add b u)"
| "add_button b ob = ob"

fun add_dialog :: "int \<Rightarrow> dialog \<Rightarrow> 'cb ui_object \<Rightarrow> 'cb ui_object" where
  "add_dialog now d (ObjDialog u) = ObjDialog (UIDialog_add now d u)"
| "add_dialog now d ob = ob"

text \<open>After \<open>addElement\<close> has added a button or a dialog under a name that nothing had, \<open>element\<close>
  finds it by that name.\<close>

theorem added_element_found:
  assumes "\<And>n ob. (n, ob) \<in> set (vw_ui_types v) \<Longrightarrow>
      (n = js ''Button'' \<longrightarrow> (\<exists>u. ob = ObjButton u)) \<and> (n = js ''Dialog'' \<longrightarrow> (\<exists>u. ob = ObjDialog u))"
    and "js ''Button'' \<in> fst ` set (vw_ui_types v)" "js ''Dialog'' \<in> fst ` set (vw_ui_types v)"
  shows "(view_element (bt_name b) v = None \<longrightarrow>
      view_element (bt_name b) (view_addElement (js ''Button'') (add_button b) v) =
        Some (FoundButton (UIButton_prepare b))) \<and>
    (view_element (dg_name d) v = None \<longrightarrow>
      view_element (dg_name d) (view_addElement (js ''Dialog'') (add_dialog now d) v) =
        Some (FoundDialog (dialog_parts now d)))"
proof -
  obtain ob1 where b: "(js ''Button'', ob1) \<in> set (vw_ui_types v)" using assms(2) by auto
  obtain ob2 where d: "(js ''Dialog'', ob2) \<in> set (vw_ui_types v)" using assms(3) by auto
  have "object_find (bt_name b) (add_button b ob) = Some (FoundButton (UIButton_prepare b))"
    if "(js ''Button'', ob) \<in> set (vw_ui_types v)" "object_find (bt_name b) ob = None" for ob
    using assms(1) [OF that(1)] that(2) ub.find_add_same [of b] by auto
  moreover have "object_find (dg_name d) (add_dialog now d ob) = Some (FoundDialog (dialog_parts now d))"
    if "(js ''Dialog'', ob) \<in> set (vw_ui_types v)" "object_find (dg_name d) ob = None" for ob
    using assms(1) [OF that(1)] that(2) ud.find_add_same [of d _ now] by auto
  ultimately show ?thesis
    using first_found_added [OF _ b] first_found_added [OF _ d]
    by (auto simp: view_element_def view_addElement_def)
qed

section \<open>Witnesses\<close>

definition demo_view :: "nat uiview" where
  "demo_view = new_UIView loaded_types (js ''canvas'') 0 0 [] empty_store"

definition modal_view :: "nat uiview" where
  "modal_view = (view_addElement (js ''Dialog'') (add_dialog 0 (row_dialog demo_row DlgAlert (js ''Done'') None))
     demo_view)\<lparr>vw_is_active := True\<rparr>"

lemmas view_eval = demo_view_def new_UIView_def loaded_types_def new_CanvasUIJs_def addType_def
  addLateType_def getTypes_def view_addElement_def

lemma modal_view_facts:
  "typed_view modal_view" "view_getDialogActive modal_view"
  "\<exists>v evs. handle_event tm 0 None 1 (EvKeyUp 13) modal_view = Inr (v, evs)"
  by (simp_all add: modal_view_def view_eval typed_view_def view_getDialogActive_def new_UIDialog_def
      UIDialog_add_def view_onKeyUp_def view_send_def ignored_def)

theorem dialog_is_modal_witness:
  "\<exists>v evs. handle_event (\<lambda>_ _. 0) 0 None 1 (EvKeyUp 13) modal_view = Inr (v, evs) \<and>
     others v = others modal_view"
  using modal_view_facts(3) [of "\<lambda>_ _. 0"]
    dialog_is_modal [OF modal_view_facts(1,2), of "\<lambda>_ _. 0" 0 None 1 "EvKeyUp 13"] by blast

theorem inactive_view_witness: "view_render id (\<lambda>_ _. 0) 0 demo_view = Some demo_view"
  using inactive_view [of demo_view] by (simp add: demo_view_def new_UIView_def)

theorem leaving_releases_nothing_witness:
  "view_onMouseUp 0 None 1 \<lparr>pe_type = js ''mouseleave'', pe_pageX = 3, pe_pageY = 4, pe_changedTouches = None\<rparr>
     modal_view = Inr (modal_view, [PreventDefault])"
  by (rule leaving_releases_nothing [THEN conjunct1]) simp_all

definition small_view :: "nat uiview" where
  "small_view = (new_UIView (addLateType (js ''Dialog'') ClsDialog (addLateType (js ''Button'') ClsButton
     new_CanvasUIJs)) (js ''canvas'') 0 0 [] empty_store)\<lparr>vw_is_active := True\<rparr>"

lemma small_view_renders: "\<exists>v'. view_render id (\<lambda>_ _. 0) 0 small_view = Some v'"
  by (simp add: view_render_def view_eval small_view_def UIDialog_render_def new_UIDialog_def
      split_beta Let_def)

lemma small_view_event:
  "\<exists>v1 evs v2. handle_event tm 0 None 1 (EvKeyUp 13) small_view = Inr (v1, evs) \<and>
     view_render id tm 0 v1 = Some v2"
  by (simp add: view_render_def view_eval small_view_def UIDialog_render_def new_UIDialog_def
      view_onKeyUp_def view_send_def ignored_def UIDialog_onKeyUp_def split_beta Let_def)

theorem view_keeps_classes_witness:
  "\<exists>v1 evs v2. handle_event (\<lambda>_ _. 0) 0 None 1 (EvKeyUp 13) small_view = Inr (v1, evs) \<and>
     view_render id (\<lambda>_ _. 0) 0 v1 = Some v2 \<and> classes v2 = classes small_view"
  using small_view_event [of "\<lambda>_ _. 0"] view_keeps_classes by blast

theorem view_render_nested_witness:
  "\<exists>v' cs. view_render id (\<lambda>_ _. 0) 0 small_view = Some v' \<and>
     vw_ctx v' = vw_ctx small_view @ cs \<and> well_nested cs"
  using small_view_renders view_render_nested by blast

theorem added_element_found_witness:
  "view_element (Some (js ''room_name''))
     (view_addElement (js ''Dialog'') (add_dialog 0 (row_dialog demo_row DlgAlert [] None)) demo_view) =
   Some (FoundDialog (dialog_parts 0 (row_dialog demo_row DlgAlert [] None)))"
proof -
  let ?d = "row_dialog demo_row DlgAlert [] None"
  have n: "dg_name ?d = Some (js ''room_name'')" by (simp add: row_dialog_def)
  have e: "view_element (dg_name ?d) demo_view = None"
    by (simp add: n view_eval view_element_def UITextBox_find_def new_UITextBox_def UIText_find_def
        new_UIText_def UILine_find_def UIList_find_def new_UIList_def UINumpad_find_def
        UIArrowButton_find_def UIButtonRow_find_def new_UIButtonRow_def UIScrollList_find_def
        new_UIScrollList_def UIListItem_find_def UIDragNDrop_find_def UICircle_find_def
        UIColorPalet_find_def new_UIColorPalet_def UIImage_find_def UICheckBox_find_def
        UITextInput_find_def new_UITextInput_def UIButton_find_def new_UIButton_def UIDialog_find_def
        new_UIDialog_def)
  have t: "(n = js ''Button'' \<longrightarrow> (\<exists>u. ob = ObjButton u)) \<and> (n = js ''Dialog'' \<longrightarrow> (\<exists>u. ob = ObjDialog u))"
    if "(n, ob) \<in> set (vw_ui_types demo_view)" for n ob
    using that by (auto simp: view_eval)
  have m: "js ''Button'' \<in> fst ` set (vw_ui_types demo_view)" "js ''Dialog'' \<in> fst ` set (vw_ui_types demo_view)"
    by (simp_all add: view_eval)
  show ?thesis using added_element_found [OF t m, where d = ?d and now = 0] e n by simp
qed

end
