(* ===== verification/SqlEngine.thy ===== *)
theory SqlEngine
  imports Prelude "HOL-Library.Word" "HOL-Library.Multiset"
begin

text \<open>
  The SQL engine the client's local database runs on. The engine itself (sql.js, compiled to
  WebAssembly) and the compressors are not translated: they are a record of functions, an
  argument of the definitions of Sqlite and Websocket. This theory states what the code relies
  on as two locales: \<open>image_codec\<close> for \<open>pchelpers/src/sqlite.js\<close> (export and open,
  compress and decompress, statements that read or fail) and \<open>outbox_table\<close> for the six
  statements of \<open>pchelpers/src/websocket.js\<close>. The statements' texts are translated, and
  \<open>table_engine\<close>, a table of rows with a byte dump, satisfies both contracts.
\<close>

section \<open>The engine as a parameter\<close>

type_synonym byte = "8 word"

text \<open>A value bound to a statement or read from a column; \<open>WUndef\<close> is \<open>undefined\<close>.\<close>

datatype wsval = WNum int | WText jsstring | WUndef

type_synonym sqlrow = "(jsstring \<times> wsval) list"

text \<open>What \<open>bind\<close> and the \<open>step\<close> loop of a prepared statement do: all rows and the new
  contents, or an exception. After an exception \<open>getAsObject(args)\<close> is called once more,
  which gives a row object or throws again.\<close>

datatype 'db sql_outcome = SqlDone "sqlrow list" 'db | SqlFail "sqlrow option" 'db

record 'db engine =
  eng_new :: 'db
  eng_open :: "byte list \<Rightarrow> 'db"
  eng_export :: "'db \<Rightarrow> byte list"
  eng_prepare :: "jsstring \<Rightarrow> 'db \<Rightarrow> bool"
  eng_run :: "jsstring \<Rightarrow> wsval list \<Rightarrow> 'db \<Rightarrow> 'db sql_outcome"
  eng_deflate :: "byte list \<Rightarrow> byte list"
  eng_inflate :: "byte list \<Rightarrow> byte list"

text \<open>\<open>statement.match(/^select /i)\<close>: the flag \<open>i\<close> folds the ASCII letters only.\<close>

definition ascii_upper :: "jschar \<Rightarrow> jschar" where
  "ascii_upper c = (if 97 \<le> c \<and> c \<le> 122 then c - 32 else c)"

definition is_select :: "jsstring \<Rightarrow> bool" where
  "is_select q \<longleftrightarrow> map ascii_upper (take 7 q) = js ''SELECT ''"

section \<open>What the code relies on of the engine\<close>

text \<open>An exported image opens to the database it was taken from; decompression inverts
  compression; a \<open>SELECT\<close> does not write; a statement that fails leaves the database as it
  was (SQLite rolls the statement back).\<close>

locale image_codec =
  fixes eng :: "'db engine"
  assumes open_export: "eng_open eng (eng_export eng db) = db"
    and inflate_deflate: "eng_inflate eng (eng_deflate eng bs) = bs"
    and select_reads: "is_select q \<Longrightarrow> eng_run eng q args db = SqlDone rows db' \<Longrightarrow> db' = db"
    and fail_atomic: "eng_run eng q args db = SqlFail r db' \<Longrightarrow> db' = db"
section \<open>The statements of the outbox\<close>

definition outbox_name :: jsstring where
  "outbox_name = js ''wsoutbox''"

definition createtablesql :: jsstring where
  "createtablesql =
     js ''CREATE TABLE IF NOT EXISTS '' @ outbox_name @ js '' (dbid INT, msg TEXT, data TEXT);''"

definition droptablesql :: jsstring where
  "droptablesql = js ''DROP TABLE '' @ outbox_name @ js '';''"

definition getrowsql :: jsstring where
  "getrowsql =
     js ''SELECT dbid, msg, data FROM '' @ outbox_name @ js '' ORDER BY dbid LIMIT 1;''"

definition deleterowsql :: jsstring where
  "deleterowsql = js ''DELETE FROM '' @ outbox_name @ js '' WHERE dbid = ?;''"

definition insertrowsql :: jsstring where
  "insertrowsql =
     js ''INSERT INTO '' @ outbox_name @ js ''(dbid, msg, data) VALUES (?, ?, ?);''"

definition countcacheditemssql :: jsstring where
  "countcacheditemssql = js ''SELECT count(*) as num FROM '' @ outbox_name @ js '';''"

lemmas outbox_sql_defs = createtablesql_def droptablesql_def getrowsql_def deleterowsql_def
  insertrowsql_def countcacheditemssql_def outbox_name_def

lemma outbox_selects [simp]:
  "is_select getrowsql" "is_select countcacheditemssql" "\<not> is_select insertrowsql"
  "\<not> is_select deleterowsql" "\<not> is_select createtablesql" "\<not> is_select droptablesql"
  by (simp_all add: is_select_def outbox_sql_defs ascii_upper_def)

lemma outbox_sql_distinct [simp]:
  "createtablesql \<noteq> droptablesql" "createtablesql \<noteq> getrowsql" "createtablesql \<noteq> deleterowsql"
  "createtablesql \<noteq> insertrowsql" "createtablesql \<noteq> countcacheditemssql"
  "droptablesql \<noteq> getrowsql" "droptablesql \<noteq> deleterowsql" "droptablesql \<noteq> insertrowsql"
  "droptablesql \<noteq> countcacheditemssql" "getrowsql \<noteq> deleterowsql" "getrowsql \<noteq> insertrowsql"
  "getrowsql \<noteq> countcacheditemssql" "deleterowsql \<noteq> insertrowsql"
  "deleterowsql \<noteq> countcacheditemssql" "insertrowsql \<noteq> countcacheditemssql"
  by (simp_all add: outbox_sql_defs)

lemmas outbox_sql_distinct_sym [simp] = outbox_sql_distinct [symmetric]

text \<open>A row of the outbox: the identifier, the message name, the data. A value is equal to an
  identifier in the integer column when it is that number or its decimal string.\<close>

type_synonym outrow = "nat \<times> jsstring \<times> jsstring"

definition id_value :: "wsval \<Rightarrow> nat \<Rightarrow> bool" where
  "id_value v n \<longleftrightarrow> v = WNum (int n) \<or> v = WText (nat_to_string 10 n)"

definition row_object :: "outrow \<Rightarrow> sqlrow" where
  "row_object r = (case r of (n, m, d) \<Rightarrow>
     [(js ''dbid'', WNum (int n)), (js ''msg'', WText m), (js ''data'', WText d)])"

definition count_object :: "nat \<Rightarrow> sqlrow" where
  "count_object n = [(js ''num'', WNum (int n))]"

text \<open>The contract of the six statements, over the multiset of rows of the table (\<open>None\<close>
  when there is no table). Rows with the smallest identifier come first, in no promised order
  among themselves.\<close>

locale outbox_table =
  fixes eng :: "'db engine" and tbl :: "'db \<Rightarrow> outrow multiset option"
  assumes prepare_create: "eng_prepare eng createtablesql db"
    and prepare_rows: "q \<in> {droptablesql, getrowsql, deleterowsql, insertrowsql, countcacheditemssql}
        \<Longrightarrow> eng_prepare eng q db = (tbl db \<noteq> None)"
    and run_create: "\<exists>db'. eng_run eng createtablesql [] db = SqlDone [] db' \<and>
        tbl db' = Some (case tbl db of None \<Rightarrow> {#} | Some t \<Rightarrow> t)"
    and run_drop: "tbl db = Some t \<Longrightarrow>
        \<exists>db'. eng_run eng droptablesql [] db = SqlDone [] db' \<and> tbl db' = None"
    and run_insert: "tbl db = Some t \<Longrightarrow>
        \<exists>db'. eng_run eng insertrowsql [WText (nat_to_string 10 n), WText m, WText d] db
          = SqlDone [] db' \<and> tbl db' = Some (add_mset (n, m, d) t)"
    and run_getrow_empty: "tbl db = Some {#} \<Longrightarrow> eng_run eng getrowsql [] db = SqlDone [] db"
    and run_getrow: "tbl db = Some t \<Longrightarrow> t \<noteq> {#} \<Longrightarrow>
        \<exists>r \<in># t. (\<forall>r' \<in># t. fst r \<le> fst r') \<and>
          eng_run eng getrowsql [] db = SqlDone [row_object r] db"
    and run_delete: "tbl db = Some t \<Longrightarrow> id_value v n \<Longrightarrow>
        \<exists>db'. eng_run eng deleterowsql [v] db = SqlDone [] db' \<and>
          tbl db' = Some (filter_mset (\<lambda>r. fst r \<noteq> n) t)"
    and run_count: "tbl db = Some t \<Longrightarrow>
        eng_run eng countcacheditemssql [] db = SqlDone [count_object (size t)] db"
    and new_no_table: "tbl (eng_new eng) = None"

section \<open>A table with a byte dump\<close>

text \<open>A number as groups of seven bits, a table as a list of numbers.\<close>

fun put_nat :: "nat \<Rightarrow> byte list" where
  "put_nat n = (if n < 128 then [word_of_nat n]
     else word_of_nat (128 + n mod 128) # put_nat (n div 128))"

declare put_nat.simps [simp del]

fun get_nats :: "byte list \<Rightarrow> nat \<Rightarrow> nat \<Rightarrow> nat list" where
  "get_nats [] m a = []"
| "get_nats (b # bs) m a =
     (if unat b < 128 then (a + m * unat b) # get_nats bs 1 0
      else get_nats bs (m * 128) (a + m * (unat b - 128)))"

lemma unat_byte: "n < 256 \<Longrightarrow> unat (word_of_nat n :: byte) = n"
  by (simp add: unat_of_nat)

lemma get_put_nat: "get_nats (put_nat n @ bs) m a = (a + m * n) # get_nats bs 1 0"
proof (induction n arbitrary: m a rule: put_nat.induct)
  case (1 n)
  show ?case
  proof (cases "n < 128")
    case True
    then show ?thesis by (simp add: put_nat.simps [of n] unat_byte)
  next
    case False
    have "n mod 128 < 128" by simp
    then have u: "unat (word_of_nat (128 + n mod 128) :: byte) = 128 + n mod 128"
      by (intro unat_byte) linarith
    have "get_nats (put_nat n @ bs) m a
        = (a + m * (n mod 128) + m * 128 * (n div 128)) # get_nats bs 1 0"
      using False 1 by (simp add: put_nat.simps [of n] u del: of_nat_add)
    also have "a + m * (n mod 128) + m * 128 * (n div 128) = a + m * (n mod 128 + 128 * (n div 128))"
      by (simp only: distrib_left mult.assoc add.assoc)
    finally show ?thesis by (simp only: mod_mult_div_eq)
  qed
qed

lemma get_put_nats: "get_nats (concat (map put_nat ns)) 1 0 = ns"
  by (induction ns) (simp_all add: get_put_nat)

fun put_rows :: "outrow list \<Rightarrow> nat list" where
  "put_rows [] = []"
| "put_rows ((n, m, d) # rs) = n # length m # m @ length d # d @ put_rows rs"

function get_rows :: "nat list \<Rightarrow> outrow list" where
  "get_rows ns =
     (case ns of
        n # k # rest \<Rightarrow>
          (case drop k rest of
             l # rest' \<Rightarrow> (n, take k rest, take l rest') # get_rows (drop l rest')
           | [] \<Rightarrow> [])
      | _ \<Rightarrow> [])"
  by pat_completeness auto
termination
proof (relation "measure length", goal_cases)
  case (2 ns n ns' k rest l rest')
  from 2(3) have "length rest - k = Suc (length rest')" by (metis length_drop length_Cons)
  with 2(1,2) show ?case by simp
qed simp

declare get_rows.simps [simp del]

lemma get_put_rows: "get_rows (put_rows rs) = rs"
  by (induction rs rule: put_rows.induct) (simp_all add: get_rows.simps)

type_synonym table = "outrow list option"

definition dump_table :: "table \<Rightarrow> byte list" where
  "dump_table t =
     (case t of None \<Rightarrow> [] | Some rs \<Rightarrow> concat (map put_nat (0 # put_rows rs)))"

definition open_dump :: "byte list \<Rightarrow> table" where
  "open_dump bs =
     (case get_nats bs 1 0 of [] \<Rightarrow> None | n # ns \<Rightarrow> Some (get_rows ns))"

lemma open_dump_table: "open_dump (dump_table t) = t"
proof (cases t)
  case (Some rs)
  have "get_nats (concat (map put_nat (0 # put_rows rs))) 1 0 = 0 # put_rows rs"
    by (rule get_put_nats)
  with Some show ?thesis by (simp add: open_dump_def dump_table_def get_put_rows)
qed (simp add: open_dump_def dump_table_def)

text \<open>The first row with the smallest identifier.\<close>

fun first_row :: "outrow \<Rightarrow> outrow list \<Rightarrow> outrow" where
  "first_row r [] = r"
| "first_row r (x # xs) = (if fst x < fst r then first_row x xs else first_row r xs)"

lemma first_row_in: "first_row r rs \<in> set (r # rs)"
  by (induction r rs rule: first_row.induct) auto

lemma first_row_least: "x \<in> set (r # rs) \<Longrightarrow> fst (first_row r rs) \<le> fst x"
proof (induction r rs arbitrary: x rule: first_row.induct)
  case (2 r y ys)
  show ?case
  proof (cases "fst y < fst r")
    case True
    with 2(1) [OF True, of y] 2(1) [OF True, of x] 2(3) show ?thesis by auto
  next
    case False
    with 2(2) [OF False, of r] 2(2) [OF False, of x] 2(3) show ?thesis by auto
  qed
qed simp

text \<open>The statements on that table. Anything else is a syntax error for this engine, and an
  insert of other values than three strings is refused.\<close>

fun table_insert :: "wsval list \<Rightarrow> outrow list \<Rightarrow> table sql_outcome" where
  "table_insert [WText i, WText m, WText d] rs
     = SqlDone [] (Some (rs @ [(num_of_digits 10 i, m, d)]))"
| "table_insert args rs = SqlFail (Some []) (Some rs)"

fun table_delete :: "wsval list \<Rightarrow> outrow list \<Rightarrow> table sql_outcome" where
  "table_delete [v] rs = SqlDone [] (Some (filter (\<lambda>r. \<not> id_value v (fst r)) rs))"
| "table_delete args rs = SqlFail (Some []) (Some rs)"

lemma table_update_fails:
  "table_insert args rs = SqlFail r t \<Longrightarrow> t = Some rs"
  "table_delete args rs = SqlFail r t \<Longrightarrow> t = Some rs"
  by (cases "(args, rs)" rule: table_insert.cases; simp)
    (cases "(args, rs)" rule: table_delete.cases; simp)

definition table_run :: "jsstring \<Rightarrow> wsval list \<Rightarrow> table \<Rightarrow> table sql_outcome" where
  "table_run q args t =
     (if q = createtablesql then SqlDone [] (Some (case t of None \<Rightarrow> [] | Some rs \<Rightarrow> rs))
      else case t of
        None \<Rightarrow> SqlFail None t
      | Some rs \<Rightarrow>
          if q = droptablesql then SqlDone [] None
          else if q = getrowsql
          then SqlDone (case rs of [] \<Rightarrow> [] | x # xs \<Rightarrow> [row_object (first_row x xs)]) t
          else if q = countcacheditemssql then SqlDone [count_object (length rs)] t
          else if q = insertrowsql
          then table_insert args rs
          else if q = deleterowsql
          then table_delete args rs
          else SqlFail None t)"

lemma table_run_fails: "table_run q args t = SqlFail r t' \<Longrightarrow> t' = t"
  by (cases t) (auto simp: table_run_def dest: table_update_fails split: if_split_asm)

definition table_engine :: "table engine" where
  "table_engine =
     \<lparr>eng_new = None, eng_open = open_dump, eng_export = dump_table,
      eng_prepare = (\<lambda>q t. q = createtablesql \<or> (t \<noteq> None \<and>
        q \<in> {droptablesql, getrowsql, deleterowsql, insertrowsql, countcacheditemssql})),
      eng_run = table_run, eng_deflate = (\<lambda>bs. bs), eng_inflate = (\<lambda>bs. bs)\<rparr>"

definition table_rows :: "table \<Rightarrow> outrow multiset option" where
  "table_rows t = map_option mset t"

lemma table_engine_simps [simp]:
  "eng_new table_engine = None" "eng_open table_engine = open_dump"
  "eng_export table_engine = dump_table" "eng_run table_engine = table_run"
  "eng_deflate table_engine bs = bs" "eng_inflate table_engine bs = bs"
  "eng_prepare table_engine q t \<longleftrightarrow> q = createtablesql \<or> (t \<noteq> None \<and>
     q \<in> {droptablesql, getrowsql, deleterowsql, insertrowsql, countcacheditemssql})"
  by (simp_all add: table_engine_def)

lemma select_not_create: "is_select q \<Longrightarrow> q \<noteq> createtablesql \<and> q \<noteq> droptablesql \<and>
  q \<noteq> insertrowsql \<and> q \<noteq> deleterowsql"
  by auto

interpretation table_image: image_codec table_engine
proof (unfold_locales, goal_cases)
  case (3 q args db rows db')
  then show ?case
    using select_not_create [of q] by (auto simp: table_run_def split: option.splits if_splits)
next
  case (4 q args db r db')
  then show ?case using table_run_fails by simp
qed (simp_all add: open_dump_table)

lemma nat_to_string_inj: "nat_to_string 10 k = nat_to_string 10 n \<Longrightarrow> k = n"
proof -
  assume "nat_to_string 10 k = nat_to_string 10 n"
  then have "num_of_digits 10 (nat_to_string 10 k) = num_of_digits 10 (nat_to_string 10 n)"
    by (rule arg_cong)
  then show "k = n" by (simp add: num_of_nat_to_string)
qed

lemma id_value_unique: "id_value v n \<Longrightarrow> id_value v k \<Longrightarrow> k = n"
  unfolding id_value_def by (elim disjE) (simp_all add: nat_to_string_inj)

interpretation table_outbox: outbox_table table_engine table_rows
proof (unfold_locales, goal_cases)
  case (7 db t)
  then obtain x xs where db: "db = Some (x # xs)" "t = mset (x # xs)"
    by (auto simp: table_rows_def neq_Nil_conv)
  have "first_row x xs \<in># t" using first_row_in [of x xs] db by simp
  moreover have "\<forall>r' \<in># t. fst (first_row x xs) \<le> fst r'"
    using first_row_least [of _ x xs] db by simp
  ultimately show ?case using db by (auto simp: table_run_def intro!: bexI [of _ "first_row x xs"])
next
  case (8 db t v n)
  then have "(\<lambda>r. \<not> id_value v (fst r)) = (\<lambda>r :: outrow. fst r \<noteq> n)"
    using id_value_unique by (auto simp: fun_eq_iff)
  with 8 show ?case by (auto simp: table_run_def table_rows_def mset_filter)
qed (auto simp: table_run_def table_rows_def num_of_nat_to_string split: option.splits)

end
