(* ===== verification/LzString.thy ===== *)
theory LzString
  imports Prelude "HOL-Library.Word"
begin

text \<open>
  \<open>lz-string.js\<close>: the compression that \<open>pchelpers/src/sqlite.js\<close> reads in records of older versions.
  The code repeats one loop that writes the bits of a number and one that reads them; here they are
  \<open>lz_put\<close> and \<open>lz_read\<close>. A string has fewer than \<open>2 ^ 30\<close> units in every engine, so that codes stay
  below \<open>2 ^ 31\<close> and the operations on 32-bit integers are those on numbers.
  The main theorems: what was compressed comes back, for each of the alphabets; decompression
  returns for every input.
\<close>

unbundle bit_operations_syntax

section \<open>Writing bits\<close>

text \<open>\<open>context_data\<close>, \<open>context_data_val\<close>, \<open>context_data_position\<close>.\<close>

record lz_out =
  lo_data :: jsstring
  lo_val :: nat
  lo_position :: nat

definition new_lz_out :: lz_out where
  "new_lz_out = \<lparr>lo_data = [], lo_val = 0, lo_position = 0\<rparr>"

text \<open>The body of the loops: shift, add the bit, push the character when it is full.\<close>

definition lz_put_bit :: "nat \<Rightarrow> (nat \<Rightarrow> jschar) \<Rightarrow> nat \<Rightarrow> lz_out \<Rightarrow> lz_out" where
  "lz_put_bit bitsPerChar getCharFromInt b s =
     (let v = push_bit 1 (lo_val s) OR b
      in if lo_position s = bitsPerChar - 1
         then s\<lparr>lo_position := 0, lo_data := lo_data s @ [getCharFromInt v], lo_val := 0\<rparr>
         else s\<lparr>lo_val := v, lo_position := Suc (lo_position s)\<rparr>)"

text \<open>The loop over \<open>n\<close> bits of \<open>value\<close>, the lowest one first. The two loops that write the codes 0
  and 1 of a new character set \<open>value\<close> to 0 themselves, which the shift does.\<close>

fun lz_put :: "nat \<Rightarrow> (nat \<Rightarrow> jschar) \<Rightarrow> nat \<Rightarrow> nat \<Rightarrow> lz_out \<Rightarrow> lz_out" where
  "lz_put bpc f 0 v s = s"
| "lz_put bpc f (Suc n) v s = lz_put bpc f n (drop_bit 1 v) (lz_put_bit bpc f (v AND 1) s)"

text \<open>\<open>Flush the last char\<close>: the position never exceeds \<open>bitsPerChar - 1\<close> (\<open>holds_bits_flush\<close>).\<close>

function lz_flush :: "nat \<Rightarrow> (nat \<Rightarrow> jschar) \<Rightarrow> lz_out \<Rightarrow> lz_out" where
  "lz_flush bpc f s =
     (let v = push_bit 1 (lo_val s)
      in if lo_position s < bpc - 1
         then lz_flush bpc f (s\<lparr>lo_val := v, lo_position := Suc (lo_position s)\<rparr>)
         else s\<lparr>lo_val := v, lo_data := lo_data s @ [f v]\<rparr>)"
  by pat_completeness auto
termination
  by (relation "measure (\<lambda>(bpc, f, s). bpc - lo_position s)") auto

declare lz_flush.simps [simp del]

section \<open>Compression\<close>

text \<open>The local variables of \<open>_compress\<close>. Its objects map strings to numbers and to \<open>true\<close>.\<close>

record lz_ctx =
  lz_dictionary :: "jsstring \<rightharpoonup> nat"
  lz_dictionaryToCreate :: "jsstring set"
  lz_w :: jsstring
  lz_enlargeIn :: nat
  lz_dictSize :: nat
  lz_numBits :: nat
  lz_out :: lz_out

definition new_lz_ctx :: lz_ctx where
  "new_lz_ctx = \<lparr>lz_dictionary = Map.empty, lz_dictionaryToCreate = {}, lz_w = [], lz_enlargeIn = 2,
     lz_dictSize = 3, lz_numBits = 2, lz_out = new_lz_out\<rparr>"

text \<open>\<open>context_dictionary[key] = n\<close>: the key \<open>__proto__\<close> is the one that an object does not take; a
  number assigned to it is dropped.\<close>

definition proto_key :: jsstring where "proto_key = js ''__proto__''"

definition lz_set_key :: "jsstring \<Rightarrow> nat \<Rightarrow> (jsstring \<rightharpoonup> nat) \<Rightarrow> (jsstring \<rightharpoonup> nat)" where
  "lz_set_key key n d = (if key = proto_key then d else d(key \<mapsto> n))"

text \<open>\<open>context_enlargeIn--\<close> and the test after it; the counter is positive before.\<close>

definition lz_tick :: "lz_ctx \<Rightarrow> lz_ctx" where
  "lz_tick s =
     (let e = lz_enlargeIn s - 1
      in if e = 0 then s\<lparr>lz_enlargeIn := 2 ^ lz_numBits s, lz_numBits := Suc (lz_numBits s)\<rparr>
         else s\<lparr>lz_enlargeIn := e\<rparr>)"

definition lz_write :: "nat \<Rightarrow> (nat \<Rightarrow> jschar) \<Rightarrow> nat \<Rightarrow> nat \<Rightarrow> lz_ctx \<Rightarrow> lz_ctx" where
  "lz_write bpc f n v s = s\<lparr>lz_out := lz_put bpc f n v (lz_out s)\<rparr>"

text \<open>The block that outputs the code for \<open>w\<close>, in the loop and after it: a string that was not output
  yet is a single character, written after the code 0 or 1.\<close>

definition lz_emit :: "nat \<Rightarrow> (nat \<Rightarrow> jschar) \<Rightarrow> lz_ctx \<Rightarrow> lz_ctx" where
  "lz_emit bpc f s =
     lz_tick
       (if lz_w s \<in> lz_dictionaryToCreate s
        then (let s1 = (if hd (lz_w s) < 256
                        then lz_write bpc f 8 (hd (lz_w s)) (lz_write bpc f (lz_numBits s) 0 s)
                        else lz_write bpc f 16 (hd (lz_w s)) (lz_write bpc f (lz_numBits s) 1 s));
                  s2 = lz_tick s1
              in s2\<lparr>lz_dictionaryToCreate := lz_dictionaryToCreate s2 - {lz_w s2}\<rparr>)
        else lz_write bpc f (lz_numBits s)
               (case lz_dictionary s (lz_w s) of None \<Rightarrow> 0 | Some n \<Rightarrow> n) s)"

text \<open>A character that was not seen before gets a number.\<close>

definition lz_enter :: "jschar \<Rightarrow> lz_ctx \<Rightarrow> lz_ctx" where
  "lz_enter c s =
     (if lz_dictionary s [c] = None
      then s\<lparr>lz_dictionary := lz_set_key [c] (lz_dictSize s) (lz_dictionary s),
             lz_dictSize := Suc (lz_dictSize s),
             lz_dictionaryToCreate := insert [c] (lz_dictionaryToCreate s)\<rparr>
      else s)"

text \<open>The body of the loop over the characters.\<close>

definition lz_char :: "nat \<Rightarrow> (nat \<Rightarrow> jschar) \<Rightarrow> jschar \<Rightarrow> lz_ctx \<Rightarrow> lz_ctx" where
  "lz_char bpc f c s =
     (let s1 = lz_enter c s;
          wc = lz_w s1 @ [c]
      in if lz_dictionary s1 wc \<noteq> None then s1\<lparr>lz_w := wc\<rparr>
         else (let s2 = lz_emit bpc f s1
               in s2\<lparr>lz_dictionary := lz_set_key wc (lz_dictSize s2) (lz_dictionary s2),
                     lz_dictSize := Suc (lz_dictSize s2), lz_w := [c]\<rparr>))"

definition lz_finish :: "nat \<Rightarrow> (nat \<Rightarrow> jschar) \<Rightarrow> lz_ctx \<Rightarrow> lz_ctx" where
  "lz_finish bpc f s =
     (let s1 = (if lz_w s \<noteq> [] then lz_emit bpc f s else s)
      in lz_write bpc f (lz_numBits s1) 2 s1)"

definition compress_with :: "nat \<Rightarrow> (nat \<Rightarrow> jschar) \<Rightarrow> jsstring \<Rightarrow> jsstring" where
  "compress_with bpc f uncompressed =
     lo_data (lz_flush bpc f (lz_out (lz_finish bpc f (fold (lz_char bpc f) uncompressed new_lz_ctx))))"

section \<open>Reading bits\<close>

text \<open>The object \<open>data\<close>: the current character, the mask of its next bit, the index of the next one.
  \<open>getNextValue\<close> beyond the end gives \<open>NaN\<close> or \<open>undefined\<close>, whose bits are 0.\<close>

record lz_in =
  li_val :: int
  li_position :: nat
  li_index :: nat

definition lz_get_bit :: "(nat \<Rightarrow> int) \<Rightarrow> nat \<Rightarrow> lz_in \<Rightarrow> bool \<times> lz_in" where
  "lz_get_bit getNextValue resetValue d =
     (let resb = li_val d AND int (li_position d);
          p = drop_bit 1 (li_position d)
      in (0 < resb,
          if p = 0 then \<lparr>li_val = getNextValue (li_index d), li_position = resetValue,
                         li_index = Suc (li_index d)\<rparr>
          else d\<lparr>li_position := p\<rparr>))"

text \<open>The loop \<open>while (power != maxpower)\<close>, with as many doublings of \<open>power\<close> ahead.\<close>

fun lz_read :: "(nat \<Rightarrow> int) \<Rightarrow> nat \<Rightarrow> nat \<Rightarrow> nat \<Rightarrow> nat \<Rightarrow> lz_in \<Rightarrow> nat \<times> lz_in" where
  "lz_read g r 0 pw bits d = (bits, d)"
| "lz_read g r (Suc n) pw bits d =
     (case lz_get_bit g r d of
        (b, d') \<Rightarrow> lz_read g r n (push_bit 1 pw) (bits OR (if b then 1 else 0) * pw) d')"

abbreviation lz_bits :: "(nat \<Rightarrow> int) \<Rightarrow> nat \<Rightarrow> nat \<Rightarrow> lz_in \<Rightarrow> nat \<times> lz_in" where
  "lz_bits g r n d \<equiv> lz_read g r n (Suc 0) 0 d"

section \<open>Decompression\<close>

text \<open>The local variables of the loop of \<open>_decompress\<close>. The entries 0, 1 and 2 of \<open>dictionary\<close> are
  never read. \<open>None\<close> of \<open>ld_w\<close> is \<open>undefined\<close>, which a first code 3 leaves there.\<close>

record lz_dec =
  ld_dictionary :: "nat \<rightharpoonup> jsstring"
  ld_enlargeIn :: nat
  ld_dictSize :: nat
  ld_numBits :: nat
  ld_w :: "jsstring option"
  ld_result :: jsstring
  ld_data :: lz_in

definition ld_enlarge :: "lz_dec \<Rightarrow> lz_dec" where
  "ld_enlarge s =
     (if ld_enlargeIn s = 0
      then s\<lparr>ld_enlargeIn := 2 ^ ld_numBits s, ld_numBits := Suc (ld_numBits s)\<rparr> else s)"

text \<open>A value that is concatenated: \<open>undefined\<close> becomes a text.\<close>

definition lz_text :: "jsstring option \<Rightarrow> jsstring" where
  "lz_text w = (case w of None \<Rightarrow> js ''undefined'' | Some s \<Rightarrow> s)"

text \<open>The cases 0 and 1 of the loop: a new character.\<close>

definition lz_new_char :: "(nat \<Rightarrow> int) \<Rightarrow> nat \<Rightarrow> nat \<Rightarrow> lz_dec \<Rightarrow> nat \<times> lz_dec" where
  "lz_new_char g r n s =
     (case lz_bits g r n (ld_data s) of
        (bits, d) \<Rightarrow> (ld_dictSize s,
          s\<lparr>ld_dictionary := (ld_dictionary s)(ld_dictSize s \<mapsto> [bits]),
            ld_dictSize := Suc (ld_dictSize s), ld_enlargeIn := ld_enlargeIn s - 1, ld_data := d\<rparr>))"

text \<open>The rest of the loop body, for the code \<open>c\<close>. \<open>Inl\<close> is what \<open>_decompress\<close> gives: an exception,
  \<open>null\<close> or a string.\<close>

definition lz_entry :: "nat \<Rightarrow> lz_dec \<Rightarrow> jsstring option res + lz_dec" where
  "lz_entry c s0 =
     (let s = ld_enlarge s0;
          go = (\<lambda>entry. Inr (ld_enlarge (s\<lparr>ld_result := ld_result s @ entry,
             ld_dictionary := (ld_dictionary s)(ld_dictSize s \<mapsto> lz_text (ld_w s) @ take 1 entry),
             ld_dictSize := Suc (ld_dictSize s), ld_enlargeIn := ld_enlargeIn s - 1,
             ld_w := Some entry\<rparr>)))
      in case ld_dictionary s c of
           Some (x # xs) \<Rightarrow> go (x # xs)
         | _ \<Rightarrow>
             if c = ld_dictSize s
             then (case ld_w s of
                     None \<Rightarrow> Inl (Inl TypeError)
                   | Some w \<Rightarrow> go (w @ take 1 w))
             else Inl (Inr None))"

definition lz_step :: "(nat \<Rightarrow> int) \<Rightarrow> nat \<Rightarrow> lz_dec \<Rightarrow> jsstring option res + lz_dec" where
  "lz_step g r s =
     (case lz_bits g r (ld_numBits s) (ld_data s) of
        (c, d) \<Rightarrow>
          (let s1 = s\<lparr>ld_data := d\<rparr>
           in if c = 0 then (case lz_new_char g r 8 s1 of (c1, s2) \<Rightarrow> lz_entry c1 s2)
              else if c = 1 then (case lz_new_char g r 16 s1 of (c1, s2) \<Rightarrow> lz_entry c1 s2)
              else if c = 2 then Inl (Inr (Some (ld_result s1)))
              else lz_entry c s1))"

text \<open>How many bits are left up to the length, at most: the measure of the loop.\<close>

definition lz_left :: "nat \<Rightarrow> nat \<Rightarrow> lz_in \<Rightarrow> nat" where
  "lz_left len r d =
     (if len < li_index d then 0 else (Suc len - li_index d) * Suc r + li_position d)"

lemma lz_left_get_bit:
  "lz_left len r (snd (lz_get_bit g r d)) \<le> lz_left len r d"
  "li_index d \<le> len \<Longrightarrow> lz_left len r (snd (lz_get_bit g r d)) < lz_left len r d"
proof -
  have "Suc len - li_index d = Suc (len - li_index d)" "Suc len - Suc (li_index d) = len - li_index d"
    if "li_index d \<le> len" using that by auto
  then show "li_index d \<le> len \<Longrightarrow> lz_left len r (snd (lz_get_bit g r d)) < lz_left len r d"
    by (auto simp: lz_left_def lz_get_bit_def Let_def drop_bit_Suc)
  then show "lz_left len r (snd (lz_get_bit g r d)) \<le> lz_left len r d"
    by (cases "li_index d \<le> len") (auto simp: lz_left_def lz_get_bit_def Let_def)
qed

lemma lz_left_read: "lz_left len r (snd (lz_read g r n pw bits d)) \<le> lz_left len r d"
proof (induction n arbitrary: pw bits d)
  case (Suc n)
  obtain b d' where b: "lz_get_bit g r d = (b, d')" by fastforce
  show ?case using Suc [of "push_bit 1 pw" _ d'] lz_left_get_bit(1) [of len r g d]
    by (force simp: b intro: order_trans)
qed simp

lemma lz_left_bits:
  assumes "li_index d \<le> len" "0 < n"
  shows "lz_left len r (snd (lz_bits g r n d)) < lz_left len r d"
proof -
  obtain m where m: "n = Suc m" using assms(2) by (cases n) auto
  obtain b d' where b: "lz_get_bit g r d = (b, d')" by fastforce
  have "lz_left len r d' < lz_left len r d" using lz_left_get_bit(2) [OF assms(1), of r g] by (simp add: b)
  then show ?thesis
    using lz_left_read [of len r g m "push_bit 1 (Suc 0)" "0 OR (if b then 1 else 0) * Suc 0" d'] by (simp add: m b)
qed

lemma ld_enlarge_data [simp]: "ld_data (ld_enlarge s) = ld_data s"
  by (simp add: ld_enlarge_def)

lemma lz_entry_data: "lz_entry c s = Inr s' \<Longrightarrow> ld_data s' = ld_data s"
  by (auto simp: lz_entry_def Let_def split: option.splits list.splits if_splits)

lemma lz_left_step:
  assumes "lz_step g r s = Inr s'" "li_index (ld_data s) \<le> len"
  shows "lz_left len r (ld_data s') < lz_left len r (ld_data s)"
proof -
  obtain c d where c: "lz_bits g r (ld_numBits s) (ld_data s) = (c, d)" by fastforce
  have le: "lz_left len r d \<le> lz_left len r (ld_data s)"
    using lz_left_read [of len r g "ld_numBits s" "Suc 0" 0 "ld_data s"] by (simp add: c)
  have new: "lz_entry c1 s2 = Inr s' \<Longrightarrow> lz_new_char g r n (s\<lparr>ld_data := d\<rparr>) = (c1, s2) \<Longrightarrow>
      ld_data s' = snd (lz_bits g r n d)" for n c1 s2
    by (auto simp: lz_new_char_def lz_entry_data split: prod.splits)
  show ?thesis
  proof (cases "0 < ld_numBits s")
    case True
    have "lz_left len r d < lz_left len r (ld_data s)"
      using lz_left_bits [OF assms(2) True, of r g] by (simp add: c)
    moreover have "lz_left len r (ld_data s') \<le> lz_left len r d"
      using assms(1) new lz_left_read [of len r g _ "Suc 0" 0 d]
      by (auto simp: lz_step_def c Let_def lz_entry_data split: if_splits prod.splits)
    ultimately show ?thesis by simp
  next
    case False
    then have "c = 0" "d = ld_data s" using c by auto
    then show ?thesis
      using assms new [of _ _ 8] lz_left_bits [OF assms(2), of 8 r g]
      by (auto simp: lz_step_def c Let_def split: prod.splits)
  qed
qed

text \<open>The loop \<open>while (true)\<close>.\<close>

function lz_loop :: "(nat \<Rightarrow> int) \<Rightarrow> nat \<Rightarrow> nat \<Rightarrow> lz_dec \<Rightarrow> jsstring option res" where
  "lz_loop g r len s =
     (if len < li_index (ld_data s) then Inr (Some [])
      else (case lz_step g r s of Inl res \<Rightarrow> res | Inr s' \<Rightarrow> lz_loop g r len s'))"
  by pat_completeness auto
termination
  by (relation "measure (\<lambda>(g, r, len, s). lz_left len r (ld_data s))") (auto intro: lz_left_step)

declare lz_loop.simps [simp del]

text \<open>\<open>_decompress\<close>: the first code stands on two bits, and a code 3 is not looked at.\<close>

definition lz_first :: "jsstring option \<Rightarrow> lz_in \<Rightarrow> lz_dec" where
  "lz_first c d =
     \<lparr>ld_dictionary = (case c of None \<Rightarrow> Map.empty | Some e \<Rightarrow> [3 \<mapsto> e]), ld_enlargeIn = 4, ld_dictSize = 4,
      ld_numBits = 3, ld_w = c, ld_result = (case c of None \<Rightarrow> [] | Some e \<Rightarrow> e), ld_data = d\<rparr>"

definition decompress_with :: "nat \<Rightarrow> nat \<Rightarrow> (nat \<Rightarrow> int) \<Rightarrow> jsstring option res" where
  "decompress_with len resetValue getNextValue =
     (let loop = lz_loop getNextValue resetValue len
      in case lz_bits getNextValue resetValue 2
                \<lparr>li_val = getNextValue 0, li_position = resetValue, li_index = 1\<rparr> of
           (next, d) \<Rightarrow>
             if next = 0 then (case lz_bits getNextValue resetValue 8 d of
                                 (bits, d1) \<Rightarrow> loop (lz_first (Some [bits]) d1))
             else if next = 1 then (case lz_bits getNextValue resetValue 16 d of
                                      (bits, d1) \<Rightarrow> loop (lz_first (Some [bits]) d1))
             else if next = 2 then Inr (Some [])
             else loop (lz_first None d))"

section \<open>The alphabets\<close>

definition keyStrBase64 :: jsstring where
  "keyStrBase64 = js ''ABCDEFGHIJKLMNOPQRSTUVWXYZabcdefghijklmnopqrstuvwxyz0123456789+/=''"

definition keyStrUriSafe :: jsstring where
  "keyStrUriSafe = js ''ABCDEFGHIJKLMNOPQRSTUVWXYZabcdefghijklmnopqrstuvwxyz0123456789+-$''"

text \<open>\<open>getBaseValue(alphabet, input.charAt(index))\<close>; \<open>undefined\<close> has no bits. The table that it keeps
  only saves time.\<close>

definition getBaseValue :: "jsstring \<Rightarrow> jsstring \<Rightarrow> nat \<Rightarrow> int" where
  "getBaseValue alphabet input i =
     (case js_get input i of None \<Rightarrow> 0
      | Some c \<Rightarrow> (case js_indexOf alphabet c of None \<Rightarrow> 0 | Some k \<Rightarrow> int k))"

text \<open>\<open>charCodeAt(index) - off\<close>.\<close>

definition unit_value :: "nat \<Rightarrow> jsstring \<Rightarrow> nat \<Rightarrow> int" where
  "unit_value off input i = (case js_get input i of None \<Rightarrow> 0 | Some c \<Rightarrow> int c - int off)"

text \<open>\<open>None\<close> as an argument is \<open>null\<close>, as a result \<open>null\<close>.\<close>

definition LZ_compress :: "jsstring option \<Rightarrow> jsstring" where
  "LZ_compress input = (case input of None \<Rightarrow> [] | Some s \<Rightarrow> compress_with 16 (\<lambda>a. a) s)"

definition LZ_decompress :: "jsstring option \<Rightarrow> jsstring option res" where
  "LZ_decompress input =
     (case input of None \<Rightarrow> Inr (Some []) | Some [] \<Rightarrow> Inr None
      | Some s \<Rightarrow> decompress_with (length s) 32768 (unit_value 0 s))"

definition LZ_compressToBase64 :: "jsstring option \<Rightarrow> jsstring" where
  "LZ_compressToBase64 input =
     (case input of None \<Rightarrow> []
      | Some s \<Rightarrow> (let res = compress_with 6 (\<lambda>a. keyStrBase64 ! a) s
                  in if length res mod 4 = 1 then res @ js ''===''
                     else if length res mod 4 = 2 then res @ js ''==''
                     else if length res mod 4 = 3 then res @ js ''='' else res))"

definition LZ_decompressFromBase64 :: "jsstring option \<Rightarrow> jsstring option res" where
  "LZ_decompressFromBase64 input =
     (case input of None \<Rightarrow> Inr (Some []) | Some [] \<Rightarrow> Inr None
      | Some s \<Rightarrow> decompress_with (length s) 32 (getBaseValue keyStrBase64 s))"

definition LZ_compressToUTF16 :: "jsstring option \<Rightarrow> jsstring" where
  "LZ_compressToUTF16 input =
     (case input of None \<Rightarrow> [] | Some s \<Rightarrow> compress_with 15 (\<lambda>a. a + 32) s @ js '' '')"

definition LZ_decompressFromUTF16 :: "jsstring option \<Rightarrow> jsstring option res" where
  "LZ_decompressFromUTF16 input =
     (case input of None \<Rightarrow> Inr (Some []) | Some [] \<Rightarrow> Inr None
      | Some s \<Rightarrow> decompress_with (length s) 16384 (unit_value 32 s))"

definition LZ_compressToEncodedURIComponent :: "jsstring option \<Rightarrow> jsstring" where
  "LZ_compressToEncodedURIComponent input =
     (case input of None \<Rightarrow> [] | Some s \<Rightarrow> compress_with 6 (\<lambda>a. keyStrUriSafe ! a) s)"

definition LZ_decompressFromEncodedURIComponent :: "jsstring option \<Rightarrow> jsstring option res" where
  "LZ_decompressFromEncodedURIComponent input =
     (case input of None \<Rightarrow> Inr (Some []) | Some [] \<Rightarrow> Inr None
      | Some s \<Rightarrow> (let t = map (\<lambda>c. if c = 32 then 43 else c) s
                  in decompress_with (length t) 32 (getBaseValue keyStrUriSafe t)))"

text \<open>Two bytes for each character, the high one first; \<open>new Array\<close> of half an odd length throws.\<close>

definition LZ_compressToUint8Array :: "jsstring option \<Rightarrow> 8 word list" where
  "LZ_compressToUint8Array uncompressed =
     concat (map (\<lambda>v. [word_of_nat (drop_bit 8 v), word_of_nat (v mod 256)]) (LZ_compress uncompressed))"

definition LZ_decompressFromUint8Array :: "8 word list option \<Rightarrow> jsstring option res" where
  "LZ_decompressFromUint8Array compressed =
     (case compressed of
        None \<Rightarrow> LZ_decompress None
      | Some bs \<Rightarrow>
          if odd (length bs) then Inl RangeError
          else LZ_decompress (Some (map (\<lambda>i. unat (bs ! (i * 2)) * 256 + unat (bs ! (i * 2 + 1)))
                 [0..<length bs div 2])))"

section \<open>Bits of a number\<close>

text \<open>The lowest bit first, as numbers are written, and the highest bit first, as characters hold them.\<close>

fun vbits :: "nat \<Rightarrow> nat \<Rightarrow> bool list" where
  "vbits 0 v = []"
| "vbits (Suc n) v = odd v # vbits n (v div 2)"

definition cbits :: "nat \<Rightarrow> nat \<Rightarrow> bool list" where
  "cbits n v = rev (vbits n v)"

lemma vbits_snoc: "vbits (Suc n) v = vbits n v @ [bit v n]"
proof (induction n arbitrary: v)
  case (Suc n)
  have "vbits (Suc (Suc n)) v = odd v # vbits (Suc n) (v div 2)" by (rule vbits.simps)
  also have "\<dots> = odd v # vbits n (v div 2) @ [bit (v div 2) n]" by (simp only: Suc.IH)
  also have "\<dots> = vbits (Suc n) v @ [bit v (Suc n)]" by (simp add: bit_Suc)
  finally show ?case .
qed (simp add: bit_0)

lemma cbits_Suc: "cbits (Suc n) v = bit v n # cbits n v"
  by (simp only: cbits_def vbits_snoc rev_append) simp

lemma cbits_0 [simp]: "cbits 0 v = []"
  by (simp add: cbits_def)

lemma cbits_double:
  assumes "b < 2"
  shows "cbits (Suc n) (2 * v + b) = cbits n v @ [b = 1]"
  using assms by (auto simp: cbits_def less_2_cases_iff)

lemma double_or: "b < 2 \<Longrightarrow> v * 2 OR b = 2 * v + (b :: nat)"
  by (auto simp: less_2_cases_iff push_bit_eq_mult or_Suc_0_eq mult.commute)

text \<open>What an output holds: the bits of its full characters and those of the one it fills.\<close>

definition holds_bits :: "nat \<Rightarrow> (nat \<Rightarrow> jschar) \<Rightarrow> lz_out \<Rightarrow> bool list \<Rightarrow> bool" where
  "holds_bits bpc f s B \<longleftrightarrow> lo_position s < bpc \<and> lo_val s < 2 ^ lo_position s \<and>
     (\<exists>vs. lo_data s = map f vs \<and> (\<forall>v\<in>set vs. v < 2 ^ bpc) \<and>
           B = concat (map (cbits bpc) vs) @ cbits (lo_position s) (lo_val s))"

lemma holds_bits_new: "0 < bpc \<Longrightarrow> holds_bits bpc f new_lz_out []"
  by (auto simp: holds_bits_def new_lz_out_def intro: exI [of _ "[]"])

lemma holds_bits_put_bit:
  assumes "holds_bits bpc f s B" "b < 2"
  shows "holds_bits bpc f (lz_put_bit bpc f b s) (B @ [b = 1])"
proof -
  let ?v = "2 * lo_val s + b"
  obtain vs where vs: "lo_position s < bpc" "lo_val s < 2 ^ lo_position s" "lo_data s = map f vs"
    "\<forall>v\<in>set vs. v < 2 ^ bpc" "B = concat (map (cbits bpc) vs) @ cbits (lo_position s) (lo_val s)"
    using assms(1) by (auto simp: holds_bits_def)
  have v: "?v < 2 ^ Suc (lo_position s)" using vs(2) assms(2) by simp
  have bits: "cbits (Suc (lo_position s)) ?v = cbits (lo_position s) (lo_val s) @ [b = 1]"
    by (rule cbits_double [OF assms(2)])
  show ?thesis
  proof (cases "lo_position s = bpc - 1")
    case True
    then have bpc: "bpc = Suc (lo_position s)" using vs(1) by simp
    have "lz_put_bit bpc f b s = s\<lparr>lo_position := 0, lo_data := map f (vs @ [?v]), lo_val := 0\<rparr>"
      using True vs(3) by (simp add: lz_put_bit_def Let_def double_or [OF assms(2)])
    moreover have "\<forall>v\<in>set (vs @ [?v]). v < 2 ^ bpc" using vs(4) v by (auto simp: bpc)
    moreover have "B @ [b = 1] = concat (map (cbits bpc) (vs @ [?v]))" using vs(5) bits by (simp add: bpc)
    ultimately show ?thesis unfolding holds_bits_def using vs(1)
      by (intro conjI exI [of _ "vs @ [?v]"]) simp_all
  next
    case False
    show ?thesis unfolding holds_bits_def
      by (intro conjI exI [of _ vs])
        (use vs v False bits in \<open>simp_all add: lz_put_bit_def Let_def double_or [OF assms(2)]\<close>)
  qed
qed

lemma holds_bits_put:
  "holds_bits bpc f s B \<Longrightarrow> holds_bits bpc f (lz_put bpc f n v s) (B @ vbits n v)"
proof (induction n arbitrary: v s B)
  case (Suc n)
  have "holds_bits bpc f (lz_put_bit bpc f (v AND 1) s) (B @ [odd v])"
    using holds_bits_put_bit [OF Suc.prems, of "v AND 1"] by (simp add: and_one_eq odd_iff_mod_2_eq_one)
  from Suc.IH [OF this, of "v div 2"] show ?case by (simp add: drop_bit_Suc)
qed simp

text \<open>The last character is filled up with zeros.\<close>

lemma holds_bits_flush:
  assumes "holds_bits bpc f s B"
  shows "\<exists>vs k. lo_data (lz_flush bpc f s) = map f vs \<and> (\<forall>v\<in>set vs. v < 2 ^ bpc) \<and>
    concat (map (cbits bpc) vs) = B @ replicate k False"
  using assms
proof (induction bpc f s arbitrary: B rule: lz_flush.induct)
  case (1 bpc f s)
  let ?s = "lz_put_bit bpc f 0 s"
  have put: "holds_bits bpc f ?s (B @ [False])" using holds_bits_put_bit [OF 1(2), of 0] by simp
  show ?case
  proof (cases "lo_position s < bpc - 1")
    case True
    then have s: "?s = s\<lparr>lo_val := push_bit 1 (lo_val s), lo_position := Suc (lo_position s)\<rparr>"
      by (simp add: lz_put_bit_def Let_def)
    obtain vs k where "lo_data (lz_flush bpc f ?s) = map f vs" "\<forall>v\<in>set vs. v < 2 ^ bpc"
      "concat (map (cbits bpc) vs) = (B @ [False]) @ replicate k False"
      using 1(1) [OF refl True] put by (simp only: s) blast
    moreover have "lz_flush bpc f s = lz_flush bpc f ?s"
      using True by (simp add: lz_flush.simps [of bpc f s] s)
    ultimately show ?thesis by (intro exI [of _ vs] exI [of _ "Suc k"]) simp
  next
    case False
    moreover have "lo_position s < bpc" using 1(2) by (simp add: holds_bits_def)
    ultimately have "lo_position s = bpc - 1" by simp
    then have "lo_data (lz_flush bpc f s) = lo_data ?s" "lo_position ?s = 0"
      by (simp_all add: lz_flush.simps [of bpc f s] lz_put_bit_def Let_def)
    then show ?thesis using put unfolding holds_bits_def
      by (metis append.right_neutral cbits_0 replicate.simps(1) replicate_Suc append_assoc)
  qed
qed

section \<open>The bits a reader sees\<close>

fun sees :: "(nat \<Rightarrow> int) \<Rightarrow> nat \<Rightarrow> nat \<Rightarrow> lz_in \<Rightarrow> bool list \<Rightarrow> bool" where
  "sees g r len d [] \<longleftrightarrow> True"
| "sees g r len d (b # bs) \<longleftrightarrow> li_index d \<le> len \<and> fst (lz_get_bit g r d) = b \<and>
     sees g r len (snd (lz_get_bit g r d)) bs"

lemma sees_append: "sees g r len d (as @ bs) \<Longrightarrow> sees g r len d as"
  by (induction as arbitrary: d) auto

lemma add_high_bit:
  assumes "bits < (2 :: nat) ^ k"
  shows "bits OR (if b then 1 else 0) * 2 ^ k = bits + (if b then 1 else 0) * 2 ^ k"
proof -
  have "bits AND 2 ^ k = 0" using assms by (simp add: and_exp_eq_0_iff_not_bit bit_iff_odd)
  then show ?thesis by (simp add: disjunctive_add_eq_or)
qed

lemma read_sees:
  assumes "sees g r len d (vbits n v @ bs)" "v < 2 ^ n" "bits < 2 ^ k"
  shows "\<exists>d'. lz_read g r n (2 ^ k) bits d = (bits + 2 ^ k * v, d') \<and> sees g r len d' bs"
  using assms
proof (induction n arbitrary: d v k bits)
  case (Suc n)
  obtain b d' where b: "lz_get_bit g r d = (b, d')" by fastforce
  have d': "sees g r len d' (vbits n (v div 2) @ bs)" "b = odd v" using Suc.prems(1) by (simp_all add: b)
  let ?bits = "bits + (if b then 1 else 0) * 2 ^ k"
  have v2: "v div 2 < 2 ^ n" using Suc.prems(2) by simp
  have bits2: "?bits < 2 ^ Suc k" using Suc.prems(3) by simp
  obtain d'' where d'': "lz_read g r n (2 ^ Suc k) ?bits d' = (?bits + 2 ^ Suc k * (v div 2), d'')"
    "sees g r len d'' bs"
    using Suc.IH [OF d'(1) v2 bits2] by auto
  have "?bits + 2 ^ Suc k * (v div 2) = bits + 2 ^ k * v"
    by (cases "odd v") (auto simp: d'(2) algebra_simps elim!: oddE evenE)
  moreover have push: "push_bit 1 (2 ^ k) = (2 :: nat) ^ Suc k" by (simp add: push_bit_eq_mult)
  have "lz_read g r (Suc n) (2 ^ k) bits d = lz_read g r n (2 ^ Suc k) ?bits d'"
    by (simp only: lz_read.simps b prod.case add_high_bit [OF Suc.prems(3)] push)
  ultimately show ?case using d'' by metis
qed simp

lemma bits_sees:
  assumes "sees g r len d (vbits n v @ bs)" "v < 2 ^ n"
  shows "\<exists>d'. lz_bits g r n d = (v, d') \<and> sees g r len d' bs"
  using read_sees [OF assms, of 0 0] by simp

text \<open>A reader that starts on characters of known values sees their bits.\<close>

lemma get_bit_inside:
  assumes "li_val d = int v" "li_position d = 2 ^ k"
  shows "lz_get_bit g r d = (bit v k, if k = 0 then \<lparr>li_val = g (li_index d), li_position = r,
    li_index = Suc (li_index d)\<rparr> else d\<lparr>li_position := 2 ^ (k - 1)\<rparr>)"
proof -
  have "int v AND int (2 ^ k) = int (v AND 2 ^ k)" by (simp add: of_nat_and_eq)
  moreover have "0 < v AND 2 ^ k \<longleftrightarrow> bit v k" by (simp add: and_exp_eq_0_iff_not_bit zero_less_iff_neq_zero)
  moreover have "drop_bit 1 (2 ^ k :: nat) = (if k = 0 then 0 else 2 ^ (k - 1))"
    by (cases k) (simp_all add: drop_bit_Suc)
  ultimately show ?thesis using assms by (simp add: lz_get_bit_def Let_def del: of_nat_power)
qed

lemma sees_characters:
  assumes "\<forall>i<length vs. g i = int (vs ! i)" "length vs \<le> len" "j < length vs" "k < bpc"
  shows "sees g (2 ^ (bpc - 1)) len \<lparr>li_val = int (vs ! j), li_position = 2 ^ k, li_index = Suc j\<rparr>
    (cbits (Suc k) (vs ! j) @ concat (map (cbits bpc) (drop (Suc j) vs)))"
  using assms(3,4)
proof (induction "length vs - j" arbitrary: j k rule: less_induct)
  case less
  note outer = less(1) and j = less(2)
  show ?case using less(3)
  proof (induction k)
    case 0
    show ?case
    proof (cases "Suc j < length vs")
      case True
      then have next_j: "g (Suc j) = int (vs ! Suc j)" "drop (Suc j) vs = vs ! Suc j # drop (Suc (Suc j)) vs"
        using assms(1) by (simp_all add: Cons_nth_drop_Suc)
      have "Suc (bpc - 1) = bpc" using 0 by simp
      then show ?thesis using outer [of "Suc j" "bpc - 1"] True 0 j assms(2)
        by (simp add: cbits_Suc get_bit_inside [where k = 0, simplified] next_j)
    next
      case False
      then show ?thesis using j assms(2) by (simp add: cbits_Suc get_bit_inside [where k = 0, simplified])
    qed
  next
    case (Suc k)
    then show ?case using j assms(2)
      by (simp add: cbits_Suc [of "Suc k"] get_bit_inside [where k = "Suc k"] del: power_Suc)
  qed
qed

section \<open>The bits of a compressed text\<close>

definition emit_bits :: "lz_ctx \<Rightarrow> bool list" where
  "emit_bits s =
     (if lz_w s \<in> lz_dictionaryToCreate s
      then (if hd (lz_w s) < 256 then vbits (lz_numBits s) 0 @ vbits 8 (hd (lz_w s))
            else vbits (lz_numBits s) 1 @ vbits 16 (hd (lz_w s)))
      else vbits (lz_numBits s) (case lz_dictionary s (lz_w s) of None \<Rightarrow> 0 | Some n \<Rightarrow> n))"

fun tail_bits :: "nat \<Rightarrow> (nat \<Rightarrow> jschar) \<Rightarrow> lz_ctx \<Rightarrow> jsstring \<Rightarrow> bool list" where
  "tail_bits bpc f s [] =
     (if lz_w s \<noteq> [] then emit_bits s @ vbits (lz_numBits (lz_emit bpc f s)) 2 else vbits (lz_numBits s) 2)"
| "tail_bits bpc f s (x # xs) =
     (if lz_dictionary (lz_enter x s) (lz_w s @ [x]) = None then emit_bits (lz_enter x s) else [])
     @ tail_bits bpc f (lz_char bpc f x s) xs"

lemma lz_tick_fields [simp]:
  "lz_out (lz_tick s) = lz_out s" "lz_dictionary (lz_tick s) = lz_dictionary s"
  "lz_dictSize (lz_tick s) = lz_dictSize s" "lz_w (lz_tick s) = lz_w s"
  "lz_dictionaryToCreate (lz_tick s) = lz_dictionaryToCreate s"
  by (simp_all add: lz_tick_def Let_def)

lemma lz_write_fields [simp]:
  "lz_dictionary (lz_write bpc f n v s) = lz_dictionary s" "lz_dictSize (lz_write bpc f n v s) = lz_dictSize s"
  "lz_w (lz_write bpc f n v s) = lz_w s" "lz_enlargeIn (lz_write bpc f n v s) = lz_enlargeIn s"
  "lz_numBits (lz_write bpc f n v s) = lz_numBits s"
  "lz_dictionaryToCreate (lz_write bpc f n v s) = lz_dictionaryToCreate s"
  "lz_out (lz_write bpc f n v s) = lz_put bpc f n v (lz_out s)"
  by (simp_all add: lz_write_def)

lemma lz_emit_fields [simp]:
  "lz_dictionary (lz_emit bpc f s) = lz_dictionary s" "lz_dictSize (lz_emit bpc f s) = lz_dictSize s"
  "lz_w (lz_emit bpc f s) = lz_w s"
  "lz_dictionaryToCreate (lz_emit bpc f s) = lz_dictionaryToCreate s - {lz_w s}"
  by (auto simp: lz_emit_def Let_def)

lemma lz_enter_fields [simp]:
  "lz_w (lz_enter c s) = lz_w s" "lz_enlargeIn (lz_enter c s) = lz_enlargeIn s"
  "lz_numBits (lz_enter c s) = lz_numBits s" "lz_out (lz_enter c s) = lz_out s"
  by (simp_all add: lz_enter_def)

lemma holds_bits_emit:
  assumes "holds_bits bpc f (lz_out s) B"
  shows "holds_bits bpc f (lz_out (lz_emit bpc f s)) (B @ emit_bits s)"
  using assms
  by (auto simp: lz_emit_def emit_bits_def Let_def holds_bits_put simp flip: append_assoc split: option.splits)

lemma holds_bits_char:
  assumes "holds_bits bpc f (lz_out s) B"
  shows "holds_bits bpc f (lz_out (lz_char bpc f x s)) (B @
    (if lz_dictionary (lz_enter x s) (lz_w s @ [x]) = None then emit_bits (lz_enter x s) else []))"
  using assms holds_bits_emit [of bpc f "lz_enter x s" B] by (auto simp: lz_char_def Let_def)

lemma holds_bits_tail:
  "holds_bits bpc f (lz_out s) B \<Longrightarrow>
    holds_bits bpc f (lz_out (lz_finish bpc f (fold (lz_char bpc f) xs s))) (B @ tail_bits bpc f s xs)"
proof (induction xs arbitrary: s B)
  case Nil
  then show ?case using holds_bits_emit [OF Nil] holds_bits_put [of bpc f]
    by (simp add: lz_finish_def Let_def flip: append_assoc)
next
  case (Cons x xs)
  show ?case using Cons.IH [OF holds_bits_char [OF Cons.prems, of x]] by simp
qed

lemma compress_bits:
  assumes "0 < bpc"
  shows "\<exists>vs k. compress_with bpc f s = map f vs \<and> (\<forall>v\<in>set vs. v < 2 ^ bpc) \<and>
    concat (map (cbits bpc) vs) = tail_bits bpc f new_lz_ctx s @ replicate k False"
proof -
  have "holds_bits bpc f (lz_out new_lz_ctx) []" using holds_bits_new [OF assms] by (simp add: new_lz_ctx_def)
  from holds_bits_flush [OF holds_bits_tail [OF this, of s]] show ?thesis by (simp add: compress_with_def)
qed

section \<open>The two dictionaries\<close>

text \<open>What holds of the dictionary of \<open>_compress\<close>: it is closed under characters, \<open>w\<close> is in it, and only
  \<open>w\<close> may be still to be output, when nothing else starts with its character.\<close>

definition enc_ok :: "lz_ctx \<Rightarrow> bool" where
  "enc_ok s \<longleftrightarrow> lz_w s \<noteq> [] \<and> lz_w s \<in> dom (lz_dictionary s) \<and> lz_dictionaryToCreate s \<subseteq> {lz_w s} \<and>
     (\<forall>u\<in>dom (lz_dictionary s). u \<noteq> [] \<and> (\<forall>x\<in>set u. x < 65536 \<and> [x] \<in> dom (lz_dictionary s))) \<and>
     (lz_dictionaryToCreate s \<noteq> {} \<longrightarrow> length (lz_w s) = 1 \<and>
        (\<forall>u\<in>dom (lz_dictionary s). hd u = hd (lz_w s) \<longrightarrow> u = lz_w s))"

text \<open>A dictionary of size \<open>n\<close> and the counter fill the codes of the present width.\<close>

definition lz_room :: "nat \<Rightarrow> nat \<Rightarrow> nat \<Rightarrow> bool" where
  "lz_room n e nb \<longleftrightarrow> 2 ^ nb = n + e \<and> 0 < e"

text \<open>The dictionary of \<open>_decompress\<close> after it has read the code of \<open>w\<close>, and before.\<close>

definition caught_up :: "lz_ctx \<Rightarrow> lz_dec \<Rightarrow> bool" where
  "caught_up s a \<longleftrightarrow> ld_w a = Some (lz_w s) \<and> ld_dictSize a = lz_dictSize s \<and> 4 \<le> ld_dictSize a \<and>
     ld_enlargeIn a = lz_enlargeIn (lz_emit 1 id s) \<and> ld_numBits a = lz_numBits (lz_emit 1 id s) \<and>
     lz_room (ld_dictSize a) (ld_enlargeIn a) (ld_numBits a) \<and>
     (\<forall>u n. lz_dictionary s u = Some n \<longrightarrow> 3 \<le> n \<and> n < ld_dictSize a \<and> ld_dictionary a n = Some u) \<and>
     (\<forall>n\<ge>ld_dictSize a. ld_dictionary a n = None)"

definition behind :: "lz_ctx \<Rightarrow> lz_dec \<Rightarrow> bool" where
  "behind s a \<longleftrightarrow>
     (let d = ld_dictSize a; p = (lz_w s \<in> lz_dictionaryToCreate s)
      in \<exists>w'. ld_w a = Some w' \<and> w' \<noteq> [] \<and> 4 \<le> d \<and> lz_dictSize s = d + 1 + of_bool p \<and>
           ld_enlargeIn a = lz_enlargeIn s \<and> ld_numBits a = lz_numBits s \<and>
           lz_room d (ld_enlargeIn a) (ld_numBits a) \<and>
           (\<forall>u n. lz_dictionary s u = Some n \<longrightarrow> 3 \<le> n \<and>
              (n < d \<and> ld_dictionary a n = Some u \<or> p \<and> n = d \<and> u = lz_w s
               \<or> n = d + of_bool p \<and> u = w' @ [hd (lz_w s)])) \<and>
           (\<forall>n\<ge>d. ld_dictionary a n = None))"

lemma lz_emit_numBits:
  "lz_enlargeIn (lz_emit bpc f s) = lz_enlargeIn (lz_emit 1 id s)"
  "lz_numBits (lz_emit bpc f s) = lz_numBits (lz_emit 1 id s)"
  by (simp_all add: lz_emit_def lz_tick_def Let_def)

lemma proto_not_single [simp]: "[c] \<noteq> proto_key" "proto_key \<noteq> [c]"
  by (simp_all add: proto_key_def)

lemma lz_set_key_other [simp]: "u \<noteq> k \<Longrightarrow> lz_set_key k n d u = d u"
  by (simp add: lz_set_key_def)

lemma lz_set_key_Some: "lz_set_key k n d u = Some m \<longleftrightarrow> (if u = k \<and> k \<noteq> proto_key then m = n else d u = Some m)"
  by (auto simp: lz_set_key_def)

lemma lz_set_key_single [simp]: "lz_set_key [c] n d = d([c] \<mapsto> n)"
  by (simp add: lz_set_key_def)

section \<open>Compression keeps its dictionary\<close>

lemma enter_new: "lz_dictionary s [c] = None \<Longrightarrow>
    lz_dictionary (lz_enter c s) = (lz_dictionary s)([c] \<mapsto> lz_dictSize s) \<and>
    lz_dictSize (lz_enter c s) = Suc (lz_dictSize s) \<and>
    lz_dictionaryToCreate (lz_enter c s) = insert [c] (lz_dictionaryToCreate s)"
  by (simp add: lz_enter_def)

lemma enter_known: "lz_dictionary s [c] = Some n \<Longrightarrow> lz_enter c s = s"
  by (simp add: lz_enter_def)

lemma enc_ok_closed:
  assumes "enc_ok s" "u \<in> dom (lz_dictionary s)"
  shows "u \<noteq> []" "y \<in> set u \<Longrightarrow> y < 65536" "y \<in> set u \<Longrightarrow> [y] \<in> dom (lz_dictionary s)"
  using assms by (simp_all add: enc_ok_def)

text \<open>Whether the longer string is known does not depend on the new character, and then nothing is
  to be output.\<close>

lemma known_longer:
  assumes "enc_ok s" "lz_dictionary (lz_enter x s) (lz_w s @ [x]) = Some n"
  shows "lz_enter x s = s" "lz_dictionaryToCreate s = {}" "lz_dictionary s (lz_w s @ [x]) = Some n"
proof -
  have ne: "lz_w s @ [x] \<noteq> [x]" using assms(1) by (simp add: enc_ok_def)
  have D: "lz_dictionary s (lz_w s @ [x]) = Some n"
    using assms(2) ne by (cases "lz_dictionary s [x]") (auto simp: enter_new enter_known)
  have "[x] \<in> dom (lz_dictionary s)"
    by (rule enc_ok_closed(3) [OF assms(1), of "lz_w s @ [x]"]) (simp_all add: D domIff)
  then show "lz_enter x s = s" by (auto simp: enter_known)
  show "lz_dictionary s (lz_w s @ [x]) = Some n" by (rule D)
  show "lz_dictionaryToCreate s = {}"
  proof (rule ccontr)
    assume "lz_dictionaryToCreate s \<noteq> {}"
    then have "\<forall>u\<in>dom (lz_dictionary s). hd u = hd (lz_w s) \<longrightarrow> u = lz_w s" using assms(1) by (simp add: enc_ok_def)
    moreover have "lz_w s @ [x] \<in> dom (lz_dictionary s)" "hd (lz_w s @ [x]) = hd (lz_w s)"
      using D assms(1) by (auto simp: enc_ok_def)
    ultimately have "lz_w s @ [x] = lz_w s" by blast
    then show False by simp
  qed
qed

lemma char_known:
  assumes "enc_ok s" "lz_dictionary (lz_enter x s) (lz_w s @ [x]) = Some n"
  shows "lz_char bpc f x s = s\<lparr>lz_w := lz_w s @ [x]\<rparr>"
  using known_longer [OF assms] by (simp add: lz_char_def)

lemma char_emits:
  assumes "lz_dictionary (lz_enter x s) (lz_w s @ [x]) = None"
  shows "lz_w (lz_char bpc f x s) = [x]"
    "lz_dictionary (lz_char bpc f x s) =
      lz_set_key (lz_w s @ [x]) (lz_dictSize (lz_enter x s)) (lz_dictionary (lz_enter x s))"
    "lz_dictSize (lz_char bpc f x s) = Suc (lz_dictSize (lz_enter x s))"
    "lz_dictionaryToCreate (lz_char bpc f x s) = lz_dictionaryToCreate (lz_enter x s) - {lz_w s}"
  using assms by (simp_all add: lz_char_def Let_def)

lemma enc_ok_char:
  assumes ok: "enc_ok s" and x: "x < 65536"
  shows "enc_ok (lz_char bpc f x s)"
proof (cases "lz_dictionary (lz_enter x s) (lz_w s @ [x])")
  case (Some n)
  show ?thesis using ok known_longer [OF ok Some] by (auto simp: char_known [OF ok Some] enc_ok_def)
next
  case None
  note e = char_emits [OF None, of bpc f]
  have w: "lz_w s \<noteq> []" "lz_w s \<in> dom (lz_dictionary s)" "lz_dictionaryToCreate s \<subseteq> {lz_w s}"
    using ok by (simp_all add: enc_ok_def)
  have dom: "dom (lz_dictionary (lz_char bpc f x s)) \<subseteq> insert (lz_w s @ [x]) (insert [x] (dom (lz_dictionary s)))"
    "insert [x] (dom (lz_dictionary s)) \<subseteq> dom (lz_dictionary (lz_char bpc f x s))"
    unfolding e(2)
    by (cases "lz_dictionary s [x]"; auto simp: enter_new enter_known lz_set_key_def split: if_splits)+
  have closed': "u \<noteq> [] \<and> (\<forall>y\<in>set u. y < 65536 \<and> [y] \<in> dom (lz_dictionary (lz_char bpc f x s)))"
    if du: "u \<in> dom (lz_dictionary (lz_char bpc f x s))" for u
  proof -
    note mono = subsetD [OF dom(2)]
    consider "u = lz_w s @ [x]" | "u = [x]" | "u \<in> dom (lz_dictionary s)" using dom(1) du by blast
    then show ?thesis
    proof cases
      case 3
      then show ?thesis using enc_ok_closed [OF ok 3] mono by blast
    next
      case 1
      then show ?thesis using enc_ok_closed [OF ok w(2)] mono x by auto
    next
      case 2
      then show ?thesis using mono x by simp
    qed
  qed
  have pend: "u = [x]" if "lz_dictionary s [x] = None" "u \<in> dom (lz_dictionary (lz_char bpc f x s))" "hd u = x" for u
  proof -
    have no: "x \<notin> set v" if "v \<in> dom (lz_dictionary s)" for v
      using enc_ok_closed(3) [OF ok that, of x] \<open>lz_dictionary s [x] = None\<close> by auto
    have "u \<in> dom (lz_dictionary s) \<Longrightarrow> False" using no that(3) enc_ok_closed(1) [OF ok] hd_in_set by metis
    moreover have "u = lz_w s @ [x] \<Longrightarrow> False" using no [OF w(2)] w(1) that(3) by (metis hd_append2 hd_in_set)
    ultimately show ?thesis using dom(1) that(2) by blast
  qed
  have tc: "lz_dictionaryToCreate (lz_char bpc f x s) \<subseteq> {[x]} \<and>
      (lz_dictionaryToCreate (lz_char bpc f x s) \<noteq> {} \<longrightarrow> lz_dictionary s [x] = None)"
    using w(3) unfolding e(4) by (cases "lz_dictionary s [x]") (auto simp: enter_new enter_known)
  show ?thesis unfolding enc_ok_def e(1)
    using closed' pend tc dom(2) by auto
qed

section \<open>One code read\<close>

lemma ld_enlarge_fields [simp]:
  "ld_dictionary (ld_enlarge s) = ld_dictionary s" "ld_dictSize (ld_enlarge s) = ld_dictSize s"
  "ld_w (ld_enlarge s) = ld_w s" "ld_result (ld_enlarge s) = ld_result s"
  by (simp_all add: ld_enlarge_def)

lemma behind_room:
  assumes "behind s a"
  shows "2 ^ lz_numBits s = ld_dictSize a + lz_enlargeIn s" "0 < lz_enlargeIn s" "4 \<le> ld_dictSize a"
  using assms by (auto simp: behind_def Let_def lz_room_def)

lemma tick_room:
  assumes "lz_room n e nb"
  shows "lz_room (Suc n) (if e - 1 = 0 then 2 ^ nb else e - 1) (if e - 1 = 0 then Suc nb else nb)"
  using assms by (auto simp: lz_room_def)

lemma step_bits:
  assumes "sees g r len (ld_data a) (vbits (ld_numBits a) c @ bs)" "c < 2 ^ ld_numBits a" "0 < ld_numBits a"
  shows "\<exists>d. lz_bits g r (ld_numBits a) (ld_data a) = (c, d) \<and> sees g r len d bs \<and> li_index (ld_data a) \<le> len"
proof -
  have "li_index (ld_data a) \<le> len" using assms(1,3) by (cases "ld_numBits a") auto
  then show ?thesis using bits_sees [OF assms(1,2)] by auto
qed

text \<open>A known string: its code stands in the dictionary, or it is the one that is about to be added.\<close>

lemma step_known:
  assumes behind: "behind s a" and ok: "enc_ok s" and w: "lz_w s \<notin> lz_dictionaryToCreate s"
    and sees: "sees g r len (ld_data a) (emit_bits s @ bs)"
  shows "\<exists>a'. li_index (ld_data a) \<le> len \<and> lz_step g r a = Inr a' \<and> caught_up s a' \<and>
    ld_result a' = ld_result a @ lz_w s \<and> sees g r len (ld_data a') bs"
proof -
  obtain w' where w': "ld_w a = Some w'" "w' \<noteq> []" "4 \<le> ld_dictSize a" "lz_dictSize s = Suc (ld_dictSize a)"
    "ld_enlargeIn a = lz_enlargeIn s" "ld_numBits a = lz_numBits s"
    "lz_room (ld_dictSize a) (ld_enlargeIn a) (ld_numBits a)"
    and D: "\<And>u n. lz_dictionary s u = Some n \<Longrightarrow> 3 \<le> n \<and>
      (n < ld_dictSize a \<and> ld_dictionary a n = Some u \<or> n = ld_dictSize a \<and> u = w' @ [hd (lz_w s)])"
    and E: "\<And>n. ld_dictSize a \<le> n \<Longrightarrow> ld_dictionary a n = None"
    using behind w by (auto simp: behind_def Let_def)
  obtain c where c: "lz_dictionary s (lz_w s) = Some c" using ok by (auto simp: enc_ok_def)
  have room: "2 ^ ld_numBits a = ld_dictSize a + ld_enlargeIn a" "0 < ld_enlargeIn a"
    using w'(7) by (simp_all add: lz_room_def)
  have c2: "c < 2 ^ ld_numBits a" "3 \<le> c" using D [OF c] room by auto
  have nb: "0 < ld_numBits a" using c2 by (cases "ld_numBits a") auto
  obtain d where d: "lz_bits g r (ld_numBits a) (ld_data a) = (c, d)" "sees g r len d bs"
    "li_index (ld_data a) \<le> len"
    using step_bits [OF _ c2(1) nb, of g r len bs] sees w'(6) by (auto simp: emit_bits_def w c)
  define e where "e = w' @ [hd (lz_w s)]"
  have wne: "lz_w s \<noteq> []" using ok by (simp add: enc_ok_def)
  define a' where "a' = ld_enlarge (a\<lparr>ld_data := d, ld_result := ld_result a @ lz_w s,
    ld_dictionary := (ld_dictionary a)(ld_dictSize a \<mapsto> e), ld_dictSize := Suc (ld_dictSize a),
    ld_enlargeIn := ld_enlargeIn a - 1, ld_w := Some (lz_w s)\<rparr>)"
  have still: "ld_enlarge (a\<lparr>ld_data := d\<rparr>) = a\<lparr>ld_data := d\<rparr>" using room(2) by (simp add: ld_enlarge_def)
  have step: "lz_step g r a = Inr a'"
  proof (cases "c < ld_dictSize a")
    case True
    then have "ld_dictionary a c = Some (lz_w s)" using D [OF c] by auto
    then show ?thesis using c2 wne
      by (cases "lz_w s") (auto simp: lz_step_def d lz_entry_def still a'_def e_def w'(1) lz_text_def Let_def)
  next
    case False
    then have c': "c = ld_dictSize a" "lz_w s = w' @ [hd (lz_w s)]" using D [OF c] by auto
    then have "hd (lz_w s) = hd w'" using w'(2) by (metis hd_append2)
    then have "w' @ take 1 w' = lz_w s" "e = w' @ take 1 (lz_w s)"
      using c'(2) w'(2) wne by (cases w'; cases "lz_w s"; simp add: e_def)+
    then show ?thesis using c2 E [of c] c'(1)
      by (auto simp: lz_step_def d lz_entry_def still a'_def w'(1) lz_text_def Let_def)
  qed
  have "caught_up s a'" unfolding caught_up_def
  proof (intro conjI allI impI)
    show "lz_room (ld_dictSize a') (ld_enlargeIn a') (ld_numBits a')"
      using tick_room [OF w'(7)] by (auto simp: a'_def ld_enlarge_def)
    show "ld_enlargeIn a' = lz_enlargeIn (lz_emit 1 id s)" "ld_numBits a' = lz_numBits (lz_emit 1 id s)"
      using w by (auto simp: a'_def ld_enlarge_def lz_emit_def lz_tick_def w'(5,6) Let_def)
    fix u n assume "lz_dictionary s u = Some n"
    then show "3 \<le> n" "n < ld_dictSize a'" "ld_dictionary a' n = Some u"
      using D [of u n] by (auto simp: a'_def e_def)
  next
    fix n assume "ld_dictSize a' \<le> n"
    then show "ld_dictionary a' n = None" using E by (auto simp: a'_def)
  qed (use w' in \<open>auto simp: a'_def\<close>)
  moreover have "ld_result a' = ld_result a @ lz_w s" "ld_data a' = d" by (simp_all add: a'_def)
  ultimately show ?thesis using step d by auto
qed

text \<open>A new character: it gets its number when its code is read.\<close>

lemma step_new:
  assumes behind: "behind s a" and ok: "enc_ok s" and w: "lz_w s \<in> lz_dictionaryToCreate s"
    and sees: "sees g r len (ld_data a) (emit_bits s @ bs)"
  shows "\<exists>a'. li_index (ld_data a) \<le> len \<and> lz_step g r a = Inr a' \<and> caught_up s a' \<and>
    ld_result a' = ld_result a @ lz_w s \<and> sees g r len (ld_data a') bs"
proof -
  obtain w' where w': "ld_w a = Some w'" "w' \<noteq> []" "4 \<le> ld_dictSize a" "lz_dictSize s = Suc (Suc (ld_dictSize a))"
    "ld_enlargeIn a = lz_enlargeIn s" "ld_numBits a = lz_numBits s"
    "lz_room (ld_dictSize a) (ld_enlargeIn a) (ld_numBits a)"
    and D: "\<And>u n. lz_dictionary s u = Some n \<Longrightarrow> 3 \<le> n \<and>
      (n < ld_dictSize a \<and> ld_dictionary a n = Some u \<or> n = ld_dictSize a \<and> u = lz_w s
       \<or> n = Suc (ld_dictSize a) \<and> u = w' @ [hd (lz_w s)])"
    and E: "\<And>n. ld_dictSize a \<le> n \<Longrightarrow> ld_dictionary a n = None"
    using behind w by (auto simp: behind_def Let_def)
  have "length (lz_w s) = 1" using ok w by (auto simp: enc_ok_def)
  then obtain c where c: "lz_w s = [c]" by (cases "lz_w s") auto
  have c3: "c < 65536" using enc_ok_closed(2) [OF ok, of "lz_w s" c] ok by (simp add: c enc_ok_def)
  have room: "2 ^ ld_numBits a = ld_dictSize a + ld_enlargeIn a" "0 < ld_enlargeIn a"
    using w'(7) by (simp_all add: lz_room_def)
  define code :: nat where "code = of_bool (256 \<le> c)"
  define n :: nat where "n = (if c < 256 then 8 else 16)"
  have c2: "code < 2 ^ ld_numBits a" using room w'(3) by (simp add: code_def)
  have nb: "0 < ld_numBits a" using room w'(3) by (cases "ld_numBits a") auto
  have bits: "emit_bits s = vbits (ld_numBits a) code @ vbits n c"
    using w by (auto simp: emit_bits_def c code_def n_def w'(6))
  obtain d where d: "lz_bits g r (ld_numBits a) (ld_data a) = (code, d)" "sees g r len d (vbits n c @ bs)"
    "li_index (ld_data a) \<le> len"
    using step_bits [OF _ c2 nb, of g r len "vbits n c @ bs"] sees by (auto simp: bits)
  have "c < 2 ^ n" using c3 by (simp add: n_def)
  then obtain d' where d': "lz_bits g r n d = (c, d')" "sees g r len d' bs" using bits_sees [OF d(2)] by auto
  define a1 where "a1 = ld_enlarge (a\<lparr>ld_dictionary := (ld_dictionary a)(ld_dictSize a \<mapsto> [c]),
    ld_dictSize := Suc (ld_dictSize a), ld_enlargeIn := ld_enlargeIn a - 1, ld_data := d'\<rparr>)"
  define a' where "a' = ld_enlarge (a1\<lparr>ld_result := ld_result a1 @ [c],
    ld_dictionary := (ld_dictionary a1)(ld_dictSize a1 \<mapsto> w' @ [c]), ld_dictSize := Suc (ld_dictSize a1),
    ld_enlargeIn := ld_enlargeIn a1 - 1, ld_w := Some [c]\<rparr>)"
  have new: "lz_entry c1 s2 = Inr a'" if "lz_new_char g r n (a\<lparr>ld_data := d\<rparr>) = (c1, s2)" for c1 s2
  proof -
    have "c1 = ld_dictSize a" "ld_enlarge s2 = a1"
      using that by (auto simp: lz_new_char_def d' a1_def)
    moreover have "ld_dictionary a1 (ld_dictSize a) = Some [c]" "ld_w a1 = Some w'" by (simp_all add: a1_def w'(1))
    ultimately show ?thesis by (simp add: lz_entry_def Let_def a'_def lz_text_def)
  qed
  have step: "lz_step g r a = Inr a'"
    using new by (cases "c < 256") (auto simp: lz_step_def d code_def n_def Let_def split: prod.split)
  have room1: "lz_room (Suc (ld_dictSize a)) (ld_enlargeIn a1) (ld_numBits a1)"
    using tick_room [OF w'(7)] by (auto simp: a1_def ld_enlarge_def)
  have "caught_up s a'" unfolding caught_up_def
  proof (intro conjI allI impI)
    show "lz_room (ld_dictSize a') (ld_enlargeIn a') (ld_numBits a')"
      using tick_room [OF room1] by (auto simp: a'_def a1_def ld_enlarge_def)
    show "ld_enlargeIn a' = lz_enlargeIn (lz_emit 1 id s)" "ld_numBits a' = lz_numBits (lz_emit 1 id s)"
      using w by (auto simp: a'_def a1_def ld_enlarge_def lz_emit_def lz_tick_def w'(5,6) Let_def)
    fix u n assume "lz_dictionary s u = Some n"
    then show "3 \<le> n" "n < ld_dictSize a'" "ld_dictionary a' n = Some u"
      using D [of u n] by (auto simp: a'_def a1_def c)
  next
    fix n assume "ld_dictSize a' \<le> n"
    then show "ld_dictionary a' n = None" using E by (auto simp: a'_def a1_def)
  qed (use w' in \<open>auto simp: a'_def a1_def c\<close>)
  moreover have "ld_result a' = ld_result a @ lz_w s" "ld_data a' = d'" by (simp_all add: a'_def a1_def c)
  ultimately show ?thesis using step d d' by auto
qed

lemma step_catches_up:
  assumes "behind s a" "enc_ok s" "sees g r len (ld_data a) (emit_bits s @ bs)"
  shows "\<exists>a'. li_index (ld_data a) \<le> len \<and> lz_step g r a = Inr a' \<and> caught_up s a' \<and>
    ld_result a' = ld_result a @ lz_w s \<and> sees g r len (ld_data a') bs"
  using step_known [OF assms(1,2) _ assms(3)] step_new [OF assms(1,2) _ assms(3)] by blast

text \<open>What the next character adds, the reader does not have yet.\<close>

lemma enter_emit:
  assumes "enc_ok s"
  shows "emit_bits (lz_enter x s) = emit_bits s"
    "lz_enlargeIn (lz_emit 1 id (lz_enter x s)) = lz_enlargeIn (lz_emit 1 id s)"
    "lz_numBits (lz_emit 1 id (lz_enter x s)) = lz_numBits (lz_emit 1 id s)"
proof -
  have "lz_w s \<in> lz_dictionaryToCreate (lz_enter x s) \<longleftrightarrow> lz_w s \<in> lz_dictionaryToCreate s"
    "lz_dictionary (lz_enter x s) (lz_w s) = lz_dictionary s (lz_w s)"
    using assms by (cases "lz_dictionary s [x]"; auto simp: enter_new enter_known enc_ok_def)+
  then show "emit_bits (lz_enter x s) = emit_bits s"
    "lz_enlargeIn (lz_emit 1 id (lz_enter x s)) = lz_enlargeIn (lz_emit 1 id s)"
    "lz_numBits (lz_emit 1 id (lz_enter x s)) = lz_numBits (lz_emit 1 id s)"
    by (simp_all add: emit_bits_def lz_emit_def lz_tick_def Let_def)
qed

lemma falls_behind:
  assumes ok: "enc_ok s" and up: "caught_up s a"
    and new: "lz_dictionary (lz_enter x s) (lz_w s @ [x]) = None"
  shows "behind (lz_char bpc f x s) a"
proof -
  note e = char_emits [OF new, of bpc f]
  have w: "lz_w s \<noteq> []" "lz_dictionaryToCreate s \<subseteq> {lz_w s}" "lz_w s \<in> dom (lz_dictionary s)"
    using ok by (simp_all add: enc_ok_def)
  have counters: "lz_enlargeIn (lz_char bpc f x s) = ld_enlargeIn a" "lz_numBits (lz_char bpc f x s) = ld_numBits a"
    using new up enter_emit [OF ok, of x] lz_emit_numBits [of bpc f "lz_enter x s"]
    by (simp_all add: lz_char_def Let_def caught_up_def)
  have p: "[x] \<in> lz_dictionaryToCreate (lz_char bpc f x s) \<longleftrightarrow> lz_dictionary s [x] = None"
    using w unfolding e(4) by (cases "lz_dictionary s [x]") (auto simp: enter_new enter_known)
  have size: "lz_dictSize (lz_char bpc f x s) = ld_dictSize a + 1 + of_bool (lz_dictionary s [x] = None)"
    using up unfolding e(3) by (cases "lz_dictionary s [x]") (auto simp: enter_new enter_known caught_up_def)
  have D: "3 \<le> n \<and> (n < ld_dictSize a \<and> ld_dictionary a n = Some u
      \<or> lz_dictionary s [x] = None \<and> n = ld_dictSize a \<and> u = [x]
      \<or> n = ld_dictSize a + of_bool (lz_dictionary s [x] = None) \<and> u = lz_w s @ [x])"
    if "lz_dictionary (lz_char bpc f x s) u = Some n" for u n
    using that up unfolding e(2)
    by (cases "lz_dictionary s [x]")
      (auto simp: enter_new enter_known lz_set_key_Some caught_up_def split: if_splits)
  show ?thesis unfolding behind_def Let_def e(1) p
    using up D counters size w(1) by (intro exI [of _ "lz_w s"]) (auto simp: caught_up_def)
qed

lemma stays_behind:
  assumes ok: "enc_ok s" and behind: "behind s a"
    and known: "lz_dictionary (lz_enter x s) (lz_w s @ [x]) = Some n"
  shows "behind (lz_char bpc f x s) a"
  using known_longer [OF ok known] ok behind
  by (auto simp: char_known [OF ok known] behind_def enc_ok_def Let_def)

section \<open>Decompression undoes compression\<close>

lemma loop_step:
  "li_index (ld_data a) \<le> len \<Longrightarrow> lz_step g r a = Inr a' \<Longrightarrow> lz_loop g r len a = lz_loop g r len a'"
  by (simp add: lz_loop.simps [of g r len a])

lemma loop_stops:
  assumes "sees g r len (ld_data a) (vbits (ld_numBits a) 2 @ bs)" "2 < (2 :: nat) ^ ld_numBits a"
  shows "lz_loop g r len a = Inr (Some (ld_result a))"
proof -
  have "0 < ld_numBits a" using assms(2) by (cases "ld_numBits a") auto
  then obtain d where "lz_bits g r (ld_numBits a) (ld_data a) = (2, d)" "li_index (ld_data a) \<le> len"
    using step_bits [OF assms] by auto
  then show ?thesis by (simp add: lz_loop.simps [of g r len a] lz_step_def)
qed

lemma loop_end:
  assumes "caught_up s a" "sees g r len (ld_data a) (vbits (lz_numBits (lz_emit bpc f s)) 2)"
  shows "lz_loop g r len a = Inr (Some (ld_result a))"
proof (rule loop_stops)
  show "sees g r len (ld_data a) (vbits (ld_numBits a) 2 @ [])"
    using assms lz_emit_numBits(2) [of bpc f s] by (simp add: caught_up_def)
  show "2 < (2 :: nat) ^ ld_numBits a" using assms(1) by (auto simp: caught_up_def lz_room_def)
qed

lemma loop_decodes:
  assumes "enc_ok s" "\<forall>x\<in>set xs. x < 65536" "behind s a" "sees g r len (ld_data a) (tail_bits bpc f s xs)"
  shows "lz_loop g r len a = Inr (Some (ld_result a @ lz_w s @ xs))"
  using assms
proof (induction xs arbitrary: s a)
  case Nil
  have "lz_w s \<noteq> []" using Nil.prems(1) by (simp add: enc_ok_def)
  then obtain a' where "li_index (ld_data a) \<le> len" "lz_step g r a = Inr a'" "caught_up s a'"
    "ld_result a' = ld_result a @ lz_w s" "sees g r len (ld_data a') (vbits (lz_numBits (lz_emit bpc f s)) 2)"
    using step_catches_up [OF Nil.prems(3,1)] Nil.prems(4) by fastforce
  then show ?case using loop_step loop_end by simp
next
  case (Cons x xs)
  note ok = enc_ok_char [OF Cons.prems(1), of x bpc f]
  show ?case
  proof (cases "lz_dictionary (lz_enter x s) (lz_w s @ [x])")
    case (Some n)
    then show ?thesis
      using Cons.IH [OF ok _ stays_behind [OF Cons.prems(1,3) Some]] Cons.prems
      by (simp add: char_known [OF Cons.prems(1) Some])
  next
    case None
    then obtain a' where a': "li_index (ld_data a) \<le> len" "lz_step g r a = Inr a'" "caught_up s a'"
      "ld_result a' = ld_result a @ lz_w s"
      "sees g r len (ld_data a') (tail_bits bpc f (lz_char bpc f x s) xs)"
      using step_catches_up [OF Cons.prems(3,1)] Cons.prems(4) enter_emit(1) [OF Cons.prems(1)] by fastforce
    then show ?thesis
      using Cons.IH [OF ok _ falls_behind [OF Cons.prems(1) a'(3) None] a'(5)] Cons.prems(2)
      by (simp add: loop_step [OF a'(1,2)] char_emits(1) [OF None])
  qed
qed

lemma first_caught_up:
  fixes c :: jschar and bpc :: nat and f :: "nat \<Rightarrow> jschar"
  defines "s1 \<equiv> lz_char bpc f c new_lz_ctx"
  assumes "c < 65536"
  shows "enc_ok s1" "caught_up s1 (lz_first (Some [c]) d)" "lz_w s1 = [c]"
    "emit_bits s1 = vbits 2 (of_bool (256 \<le> c)) @ vbits (if c < 256 then 8 else 16) c"
    "lz_dictionary (lz_enter x s1) [c, x] = None"
proof -
  have s1: "lz_dictionary s1 = [[c] \<mapsto> 3]" "lz_dictionaryToCreate s1 = {[c]}" "lz_w s1 = [c]"
    "lz_enlargeIn s1 = 2" "lz_dictSize s1 = 4" "lz_numBits s1 = 2"
    by (simp_all add: s1_def lz_char_def lz_enter_def new_lz_ctx_def Let_def)
  show "enc_ok s1" using assms(2) by (simp add: enc_ok_def s1)
  show "caught_up s1 (lz_first (Some [c]) d)"
    by (auto simp: caught_up_def s1 lz_first_def lz_emit_def lz_tick_def lz_room_def Let_def)
  show "lz_w s1 = [c]" by (rule s1(3))
  show "emit_bits s1 = vbits 2 (of_bool (256 \<le> c)) @ vbits (if c < 256 then 8 else 16) c"
    by (simp add: emit_bits_def s1)
  show "lz_dictionary (lz_enter x s1) [c, x] = None" by (simp add: lz_enter_def s1)
qed

lemma tail_first:
  assumes "c < 65536"
  shows "\<exists>bs. tail_bits bpc f new_lz_ctx (c # cs) = vbits 2 (of_bool (256 \<le> c)) @
      vbits (if c < 256 then 8 else 16) c @ bs \<and>
    ((\<forall>x\<in>set cs. x < 65536) \<longrightarrow> (\<forall>g r len d bs'. sees g r len d (bs @ bs') \<longrightarrow>
      lz_loop g r len (lz_first (Some [c]) d) = Inr (Some (c # cs))))"
proof -
  let ?s1 = "lz_char bpc f c new_lz_ctx"
  note first = first_caught_up [OF assms, where bpc = bpc and f = f]
  have start: "tail_bits bpc f new_lz_ctx (c # cs) = tail_bits bpc f ?s1 cs"
    by (simp add: new_lz_ctx_def lz_enter_def)
  show ?thesis
  proof (cases cs)
    case Nil
    have "lz_loop g r len (lz_first (Some [c]) d) = Inr (Some [c])"
      if "sees g r len d (vbits (lz_numBits (lz_emit bpc f ?s1)) 2 @ bs')" for g r len d bs'
      using loop_end [OF first(2)] sees_append [OF that] by (simp add: lz_first_def)
    then show ?thesis unfolding start using first(3,4) by (intro exI [of _ "vbits (lz_numBits (lz_emit bpc f ?s1)) 2"])
        (simp add: Nil)
  next
    case (Cons x xs)
    have none: "lz_dictionary (lz_enter x ?s1) (lz_w ?s1 @ [x]) = None" using first(3,5) by simp
    have "lz_loop g r len (lz_first (Some [c]) d) = Inr (Some (c # x # xs))"
      if "\<forall>x\<in>set cs. x < 65536" "sees g r len d (tail_bits bpc f (lz_char bpc f x ?s1) xs @ bs')" for g r len d bs'
      using loop_decodes [OF enc_ok_char [OF first(1)] _ falls_behind [OF first(1,2) none]] that
        sees_append [OF that(2)] by (simp add: Cons char_emits(1) [OF none] lz_first_def)
    then show ?thesis unfolding start using none first(4) enter_emit(1) [OF first(1)]
      by (intro exI [of _ "tail_bits bpc f (lz_char bpc f x ?s1) xs"]) (simp add: Cons)
  qed
qed

text \<open>The first code of a text.\<close>

lemma decompress_first:
  assumes "sees g r len \<lparr>li_val = g 0, li_position = r, li_index = 1\<rparr>
      (vbits 2 (of_bool (256 \<le> c)) @ vbits (if c < 256 then 8 else 16) c @ bs)" "c < 65536"
  shows "\<exists>d. decompress_with len r g = lz_loop g r len (lz_first (Some [c]) d) \<and> sees g r len d bs"
proof -
  let ?code = "of_bool (256 \<le> c) :: nat" and ?n = "if c < 256 then 8 else 16"
  have "?code < 2 ^ 2" by simp
  then obtain d where d: "lz_bits g r 2 \<lparr>li_val = g 0, li_position = r, li_index = 1\<rparr> = (?code, d)"
    "sees g r len d (vbits ?n c @ bs)" using bits_sees [OF assms(1)] by blast
  have "c < 2 ^ ?n" using assms(2) by simp
  then obtain d' where d': "lz_bits g r ?n d = (c, d')" "sees g r len d' bs" using bits_sees [OF d(2)] by blast
  show ?thesis
    by (intro exI [of _ d'] conjI d'(2), cases "c < 256")
      (use d(1) d'(1) in \<open>simp_all add: decompress_with_def Let_def\<close>)
qed

lemma sees_start:
  assumes "\<forall>i<length vs. g i = int (vs ! i)" "length vs \<le> len" "0 < bpc" "vs \<noteq> []"
  shows "sees g (2 ^ (bpc - 1)) len \<lparr>li_val = g 0, li_position = 2 ^ (bpc - 1), li_index = 1\<rparr>
    (concat (map (cbits bpc) vs))"
proof -
  have "g 0 = int (vs ! 0)" "vs = vs ! 0 # drop 1 vs" using assms(1,4) by (cases vs; simp)+
  then have "concat (map (cbits bpc) vs) = cbits bpc (vs ! 0) @ concat (map (cbits bpc) (drop 1 vs))" by (metis concat.simps(2) list.simps(9))
  then show ?thesis
    using sees_characters [OF assms(1,2), of 0 "bpc - 1" bpc] assms(3,4) \<open>g 0 = int (vs ! 0)\<close> by simp
qed

lemma decompress_compress:
  assumes g: "\<And>vs. compress_with bpc f s = map f vs \<Longrightarrow> \<forall>v\<in>set vs. v < 2 ^ bpc \<Longrightarrow> \<forall>i<length vs. g i = int (vs ! i)"
    and len: "length (compress_with bpc f s) \<le> len" and bpc: "0 < bpc" and s: "\<forall>x\<in>set s. x < 65536"
  shows "decompress_with len (2 ^ (bpc - 1)) g = Inr (Some s)"
proof -
  obtain vs k where vs: "compress_with bpc f s = map f vs" "\<forall>v\<in>set vs. v < 2 ^ bpc"
    "concat (map (cbits bpc) vs) = tail_bits bpc f new_lz_ctx s @ replicate k False"
    using compress_bits [OF bpc] by blast
  show ?thesis
  proof (cases s)
    case Nil
    then have bits: "concat (map (cbits bpc) vs) = vbits 2 2 @ replicate k False" using vs(3) by (simp add: new_lz_ctx_def)
    then have "vs \<noteq> []" by (auto simp: numeral_2_eq_2)
    have "sees g (2 ^ (bpc - 1)) len \<lparr>li_val = g 0, li_position = 2 ^ (bpc - 1), li_index = 1\<rparr>
        (vbits 2 2 @ replicate k False)"
      using sees_start [OF g [OF vs(1,2)] _ bpc \<open>vs \<noteq> []\<close>, of len] len by (simp only: bits vs(1) length_map)
    from bits_sees [OF this]
    obtain d where "lz_bits g (2 ^ (bpc - 1)) 2 \<lparr>li_val = g 0, li_position = 2 ^ (bpc - 1), li_index = 1\<rparr> = (2, d)"
      by auto
    then show ?thesis by (simp add: decompress_with_def Nil Let_def)
  next
    case (Cons c cs)
    obtain bs where bs: "tail_bits bpc f new_lz_ctx s = vbits 2 (of_bool (256 \<le> c)) @ vbits (if c < 256 then 8 else 16) c @ bs"
      "\<And>g r len d bs'. sees g r len d (bs @ bs') \<Longrightarrow> lz_loop g r len (lz_first (Some [c]) d) = Inr (Some s)"
      using tail_first [of c bpc f cs] s by (simp add: Cons del: tail_bits.simps) blast
    have "vs \<noteq> []" using vs(3) bs(1) by (auto simp: numeral_2_eq_2)
    from sees_start [OF g [OF vs(1,2)] _ bpc this, of len] len
    have "sees g (2 ^ (bpc - 1)) len \<lparr>li_val = g 0, li_position = 2 ^ (bpc - 1), li_index = 1\<rparr>
        (vbits 2 (of_bool (256 \<le> c)) @ vbits (if c < 256 then 8 else 16) c @ (bs @ replicate k False))"
      by (simp add: vs(1) vs(3) bs(1))
    from decompress_first [OF this] s Cons bs(2) show ?thesis by auto
  qed
qed

lemma lz_flush_nonempty: "lo_data (lz_flush bpc f s) \<noteq> []"
  by (induction bpc f s rule: lz_flush.induct) (simp add: lz_flush.simps Let_def)

lemma compress_nonempty [simp]: "compress_with bpc f s \<noteq> []"
  by (simp add: compress_with_def lz_flush_nonempty)

section \<open>The alphabets as instances of one contract\<close>

text \<open>What the two routines need of an alphabet: a number of that many bits is read back from its
  character, whatever follows the characters.\<close>

locale lz_alphabet =
  fixes bpc :: nat and f :: "nat \<Rightarrow> jschar" and value_at :: "jsstring \<Rightarrow> nat \<Rightarrow> int"
  assumes some_bits: "0 < bpc"
    and reads_back: "\<forall>v\<in>set vs. v < 2 ^ bpc \<Longrightarrow> i < length vs \<Longrightarrow> value_at (map f vs @ pad) i = int (vs ! i)"
begin

lemma roundtrip:
  assumes "\<forall>x\<in>set s. x < 65536"
  shows "decompress_with (length (compress_with bpc f s @ pad)) (2 ^ (bpc - 1))
    (value_at (compress_with bpc f s @ pad)) = Inr (Some s)"
  by (rule decompress_compress [where f = f, OF _ _ some_bits assms]) (simp_all add: reads_back)

lemma characters: "set (compress_with bpc f s) \<subseteq> f ` {0..<2 ^ bpc}"
  using compress_bits [OF some_bits, of f s] by auto

end

lemma js_indexOf_nth: "distinct xs \<Longrightarrow> k < length xs \<Longrightarrow> js_indexOf xs (xs ! k) = Some k"
  by (induction xs arbitrary: k) (auto simp: nth_Cons split: nat.split)

lemma base_alphabet:
  assumes "distinct key" "length key = 65" "\<forall>v\<in>set vs. v < 64" "i < length vs"
  shows "getBaseValue key (map (\<lambda>a. key ! a) vs @ pad) i = int (vs ! i)"
proof -
  have "vs ! i < 64" using assms(3,4) by simp
  then have "vs ! i < length key" using assms(2) by simp
  then show ?thesis using assms(1,4) by (simp add: getBaseValue_def js_get_def nth_append js_indexOf_nth)
qed

lemma keys_distinct: "distinct keyStrBase64" "length keyStrBase64 = 65" "distinct keyStrUriSafe" "length keyStrUriSafe = 65"
  by (simp_all add: keyStrBase64_def keyStrUriSafe_def)

interpretation units: lz_alphabet 16 "\<lambda>a. a" "unit_value 0"
  by unfold_locales (auto simp: unit_value_def js_get_def nth_append)

interpretation utf16_units: lz_alphabet 15 "\<lambda>a. a + 32" "unit_value 32"
  by unfold_locales (auto simp: unit_value_def js_get_def nth_append)

interpretation base64: lz_alphabet 6 "\<lambda>a. keyStrBase64 ! a" "getBaseValue keyStrBase64"
  by unfold_locales (auto intro!: base_alphabet keys_distinct)

interpretation uri_safe: lz_alphabet 6 "\<lambda>a. keyStrUriSafe ! a" "getBaseValue keyStrUriSafe"
  by unfold_locales (auto intro!: base_alphabet keys_distinct)

lemma compress_units: "c \<in> set (compress_with 16 (\<lambda>a. a) s) \<Longrightarrow> c < 65536"
  using units.characters [of s] by auto

lemma uri_no_space: "32 \<notin> set (compress_with 6 (\<lambda>a. keyStrUriSafe ! a) s)"
proof -
  have "set (compress_with 6 (\<lambda>a. keyStrUriSafe ! a) s) \<subseteq> set keyStrUriSafe"
    using uri_safe.characters [of s] keys_distinct(4) by (force simp: set_conv_nth)
  moreover have "32 \<notin> set keyStrUriSafe" by (simp add: keyStrUriSafe_def)
  ultimately show ?thesis by blast
qed

lemma decompress_nonempty: "s \<noteq> [] \<Longrightarrow> LZ_decompress (Some s) = decompress_with (length s) 32768 (unit_value 0 s)"
  by (cases s) (simp_all add: LZ_decompress_def)

lemma LZ_units_roundtrip: "\<forall>x\<in>set s. x < 65536 \<Longrightarrow> LZ_decompress (Some (LZ_compress (Some s))) = Inr (Some s)"
  using units.roundtrip [of s "[]"] by (simp add: LZ_compress_def decompress_nonempty)

lemma LZ_base64_roundtrip:
  assumes "\<forall>x\<in>set s. x < 65536"
  shows "LZ_decompressFromBase64 (Some (LZ_compressToBase64 (Some s))) = Inr (Some s)"
proof -
  obtain pad where pad: "LZ_compressToBase64 (Some s) = compress_with 6 (\<lambda>a. keyStrBase64 ! a) s @ pad"
    unfolding LZ_compressToBase64_def Let_def option.case by (metis append.right_neutral)
  have "LZ_decompressFromBase64 (Some t) = decompress_with (length t) 32 (getBaseValue keyStrBase64 t)"
    if "t \<noteq> []" for t using that by (cases t) (simp_all add: LZ_decompressFromBase64_def)
  then show ?thesis using base64.roundtrip [OF assms, of pad] by (simp add: pad)
qed

lemma LZ_utf16_roundtrip:
  assumes "\<forall>x\<in>set s. x < 65536"
  shows "LZ_decompressFromUTF16 (Some (LZ_compressToUTF16 (Some s))) = Inr (Some s)"
proof -
  have "LZ_decompressFromUTF16 (Some t) = decompress_with (length t) 16384 (unit_value 32 t)"
    if "t \<noteq> []" for t using that by (cases t) (simp_all add: LZ_decompressFromUTF16_def)
  then show ?thesis using utf16_units.roundtrip [OF assms, of "js '' ''"] by (simp add: LZ_compressToUTF16_def)
qed

lemma LZ_uri_roundtrip:
  assumes "\<forall>x\<in>set s. x < 65536"
  shows "LZ_decompressFromEncodedURIComponent (Some (LZ_compressToEncodedURIComponent (Some s))) = Inr (Some s)"
proof -
  let ?t = "compress_with 6 (\<lambda>a. keyStrUriSafe ! a) s"
  have "map (\<lambda>c. if c = 32 then 43 else c) ?t = ?t"
    using uri_no_space [of s] by (auto intro!: map_idI)
  moreover have "LZ_decompressFromEncodedURIComponent (Some t) =
      (let t = map (\<lambda>c. if c = 32 then 43 else c) t in decompress_with (length t) 32 (getBaseValue keyStrUriSafe t))"
    if "t \<noteq> []" for t using that by (cases t) (simp_all add: LZ_decompressFromEncodedURIComponent_def Let_def)
  ultimately show ?thesis using uri_safe.roundtrip [OF assms, of "[]"]
    by (simp add: LZ_compressToEncodedURIComponent_def)
qed

lemma two_bytes:
  assumes "\<forall>c\<in>set t. c < 65536"
  defines "bs \<equiv> concat (map (\<lambda>v. [word_of_nat (drop_bit 8 v), word_of_nat (v mod 256)]) t) :: 8 word list"
  shows "length bs = 2 * length t \<and>
    map (\<lambda>i. unat (bs ! (i * 2)) * 256 + unat (bs ! (i * 2 + 1))) [0..<length t] = t"
  using assms(1) unfolding bs_def
proof (induction t)
  case (Cons c t)
  define bs' where "bs' = concat (map (\<lambda>v. [word_of_nat (drop_bit 8 v), word_of_nat (v mod 256)]) t) @ ([] :: 8 word list)"
  have IH: "length bs' = 2 * length t"
    "map (\<lambda>i. unat (bs' ! (i * 2)) * 256 + unat (bs' ! (i * 2 + 1))) [0..<length t] = t"
    using Cons by (simp_all add: bs'_def)
  have "unat (word_of_nat (drop_bit 8 c) :: 8 word) = c div 256" "unat (word_of_nat (c mod 256) :: 8 word) = c mod 256"
    using Cons.prems by (auto simp: unat_of_nat take_bit_eq_mod drop_bit_eq_div less_mult_imp_div_less)
  then show ?case using IH
    by (simp add: bs'_def upt_conv_Cons map_Suc_upt [symmetric] comp_def del: upt_Suc)
qed simp

lemma LZ_uint8_roundtrip:
  assumes "\<forall>x\<in>set s. x < 65536"
  shows "LZ_decompressFromUint8Array (Some (LZ_compressToUint8Array (Some s))) = Inr (Some s)"
proof -
  have "\<forall>c\<in>set (LZ_compress (Some s)). c < 65536" by (simp add: LZ_compress_def compress_units)
  from two_bytes [OF this] show ?thesis
    using LZ_units_roundtrip [OF assms]
    by (simp add: LZ_decompressFromUint8Array_def LZ_compressToUint8Array_def)
qed

section \<open>Inputs that were not compressed\<close>

text \<open>Only the first code can leave \<open>w\<close> undefined.\<close>

lemma entry_keeps_w:
  "ld_w s \<noteq> None \<Longrightarrow> lz_entry c s = Inl q \<Longrightarrow> \<exists>r. q = Inr r"
  "lz_entry c s = Inr s' \<Longrightarrow> ld_w s' \<noteq> None"
  by (auto simp: lz_entry_def Let_def split: option.splits list.splits if_splits)

lemma new_char_w: "lz_new_char g r n s = (c, s') \<Longrightarrow> ld_w s' = ld_w s"
  by (auto simp: lz_new_char_def split: prod.splits)

lemma step_keeps_w:
  assumes "ld_w s \<noteq> None"
  shows "lz_step g r s = Inl q \<Longrightarrow> \<exists>res. q = Inr res" "lz_step g r s = Inr s' \<Longrightarrow> ld_w s' \<noteq> None"
proof -
  obtain c d where c: "lz_bits g r (ld_numBits s) (ld_data s) = (c, d)" by fastforce
  have new: "ld_w s2 \<noteq> None" if "lz_new_char g r n (s\<lparr>ld_data := d\<rparr>) = (c1, s2)" for n c1 s2
    using new_char_w [OF that] assms by simp
  show "lz_step g r s = Inl q \<Longrightarrow> \<exists>res. q = Inr res"
    using entry_keeps_w(1) [OF new] entry_keeps_w(1) [of "s\<lparr>ld_data := d\<rparr>"] assms
    by (auto simp: lz_step_def c Let_def split: if_splits prod.splits)
  show "lz_step g r s = Inr s' \<Longrightarrow> ld_w s' \<noteq> None"
    using entry_keeps_w(2) by (auto simp: lz_step_def c Let_def split: if_splits prod.splits)
qed

lemma loop_no_throw: "ld_w s \<noteq> None \<Longrightarrow> \<exists>res. lz_loop g r len s = Inr res"
proof (induction g r len s rule: lz_loop.induct)
  case (1 g r len s)
  then show ?case
    using step_keeps_w [OF 1(2), of g r] by (auto simp: lz_loop.simps [of g r len s] split: sum.split)
qed

lemma vbits_2: "vbits 2 v = [odd v, odd (v div 2)]"
proof -
  have "vbits (Suc (Suc 0)) v = [odd v, odd (v div 2)]" by simp
  then show ?thesis by (simp only: numeral_2_eq_2 [symmetric])
qed

lemma sees_first_unit:
  "sees (unit_value 0 (c # s)) 32768 (Suc (length s)) \<lparr>li_val = int c, li_position = 32768, li_index = 1\<rparr> (cbits 16 c)"
  using sees_start [of "[c]" "unit_value 0 (c # s)" "Suc (length s)" 16]
  by (simp add: unit_value_def js_get_def)

text \<open>decompressing throws only when the first unit is 49152 or more: then the first code is 3, which no
  compressed text starts with.\<close>

theorem decompress_throws_only:
  assumes "c < 49152"
  shows "\<exists>res. LZ_decompress (Some (c # s)) = Inr res"
proof -
  let ?g = "unit_value 0 (c # s)" and ?v = "of_bool (bit c 15) + 2 * of_bool (bit c 14) :: nat"
  define q where "q = c div 16384"
  have q: "q < 3" "c div 32768 = q div 2"
    using assms by (simp_all add: q_def less_mult_imp_div_less flip: div_mult2_eq)
  have "\<not> (odd (q div 2) \<and> odd q)" using q(1) by presburger
  then have "\<not> (bit c 15 \<and> bit c 14)" by (simp add: bit_iff_odd q(2) flip: q_def)
  then have v: "?v < 3" by auto
  have "cbits 16 c = vbits 2 ?v @ cbits 14 c"
    using cbits_Suc [of 15 c] cbits_Suc [of 14 c] by (cases "bit c 15"; cases "bit c 14") (simp_all add: vbits_2)
  then obtain d where "lz_bits ?g 32768 2 \<lparr>li_val = int c, li_position = 32768, li_index = 1\<rparr> = (?v, d)"
    using bits_sees [of ?g 32768 "Suc (length s)" _ 2 ?v "cbits 14 c"] sees_first_unit [of c s] v by fastforce
  moreover have "?g 0 = int c" by (simp add: unit_value_def js_get_def)
  moreover have "\<exists>res. lz_loop ?g 32768 (Suc (length s)) (lz_first (Some [b]) e) = Inr res" for b e
    by (rule loop_no_throw) (simp add: lz_first_def)
  ultimately show ?thesis using v
    by (auto simp: LZ_decompress_def decompress_with_def Let_def split: prod.splits)
qed

theorem decompress_throws_only_witness: "\<exists>res. LZ_decompress (Some (js ''GZIP'')) = Inr res"
  using decompress_throws_only [of 71 "js ''ZIP''"] by simp

text \<open>A text that starts with the letter S, as every uncompressed image of a database does, is taken for
  a compressed text of one character.\<close>

lemma decompress_S: "LZ_decompress (Some (83 # s)) = Inr (Some [128])"
proof -
  let ?g = "unit_value 0 (83 # s)" and ?len = "Suc (length s)"
  have "cbits 16 83 = vbits 2 0 @ vbits 8 128 @ (vbits 3 2 @ [False, True, True])"
    by code_simp
  then have "sees ?g 32768 ?len \<lparr>li_val = ?g 0, li_position = 32768, li_index = 1\<rparr>
      (vbits 2 (of_bool (256 \<le> (128 :: nat))) @ vbits (if (128 :: nat) < 256 then 8 else 16) 128 @ (vbits 3 2 @ [False, True, True]))"
    using sees_first_unit [of 83 s] by (simp add: unit_value_def js_get_def)
  then obtain d where d: "decompress_with ?len 32768 ?g = lz_loop ?g 32768 ?len (lz_first (Some [128]) d)"
    "sees ?g 32768 ?len d (vbits 3 2 @ [False, True, True])"
    using decompress_first [of ?g 32768 ?len 128] by auto
  then have "lz_loop ?g 32768 ?len (lz_first (Some [128]) d) = Inr (Some [128])"
    using loop_stops [of ?g 32768 ?len "lz_first (Some [128]) d"] by (simp add: lz_first_def)
  then show ?thesis using d(1) by (simp add: LZ_decompress_def)
qed

lemma vbits_length [simp]: "length (vbits n v) = n"
  by (induction n arbitrary: v) auto

lemma vbits_inj: "vbits n u = vbits n v \<Longrightarrow> u < 2 ^ n \<Longrightarrow> v < 2 ^ n \<Longrightarrow> u = v"
proof (induction n arbitrary: u v)
  case (Suc n)
  then have "odd u = odd v" "u div 2 = v div 2" using Suc.IH [of "u div 2" "v div 2"] by auto
  then show ?case by (metis odd_two_times_div_two_succ even_two_times_div_two)
qed simp

text \<open>A compressed text does not look like a record of the newer format, which starts with G.\<close>

lemma compress_head:
  assumes "c < 256" "c \<noteq> 128"
  shows "hd (LZ_compress (Some (c # s))) \<noteq> 71"
proof
  assume G: "hd (LZ_compress (Some (c # s))) = 71"
  obtain vs k where vs: "compress_with 16 (\<lambda>a. a) (c # s) = vs"
    "concat (map (cbits 16) vs) = tail_bits 16 (\<lambda>a. a) new_lz_ctx (c # s) @ replicate k False"
    using compress_bits [of 16 "\<lambda>a. a" "c # s"] by auto
  have v: "vs = 71 # tl vs" using G vs(1) compress_nonempty [of 16 "\<lambda>a. a" "c # s"]
    by (cases vs) (auto simp: LZ_compress_def)
  obtain bs where "tail_bits 16 (\<lambda>a. a) new_lz_ctx (c # s) = vbits 2 0 @ vbits 8 c @ bs"
    using tail_first [of c 16 "\<lambda>a. a" s] assms(1) by (auto simp del: tail_bits.simps)
  moreover have "concat (map (cbits 16) vs) = cbits 16 71 @ concat (map (cbits 16) (tl vs))"
    by (subst v) simp
  moreover have "cbits 16 71 = vbits 2 0 @ vbits 8 128 @ [False, False, False, True, True, True]" by code_simp
  ultimately have "vbits 8 c = vbits 8 128" using vs(2) by simp
  then show False using vbits_inj [of 8 c 128] assms by simp
qed

section \<open>Round trips\<close>

text \<open>C8: a text comes back from each of its compressed forms.\<close>

theorem lz_roundtrip:
  assumes "\<forall>c\<in>set s. c < 65536"
  shows "LZ_decompress (Some (LZ_compress (Some s))) = Inr (Some s) \<and>
    LZ_decompressFromBase64 (Some (LZ_compressToBase64 (Some s))) = Inr (Some s) \<and>
    LZ_decompressFromUTF16 (Some (LZ_compressToUTF16 (Some s))) = Inr (Some s) \<and>
    LZ_decompressFromEncodedURIComponent (Some (LZ_compressToEncodedURIComponent (Some s))) = Inr (Some s) \<and>
    LZ_decompressFromUint8Array (Some (LZ_compressToUint8Array (Some s))) = Inr (Some s)"
  using assms LZ_units_roundtrip LZ_base64_roundtrip LZ_utf16_roundtrip LZ_uri_roundtrip LZ_uint8_roundtrip
  by blast

theorem lz_roundtrip_witness:
  "LZ_decompressFromBase64 (Some (js ''BYUwNmD2Q==='')) = Inr (Some (js ''hello''))"
proof -
  have "LZ_compressToBase64 (Some (js ''hello'')) = js ''BYUwNmD2Q===''" by code_simp
  then show ?thesis using lz_roundtrip [of "js ''hello''"] by simp
qed

text \<open>C24: the characters of the compressed forms: in UTF-16 none is a surrogate, in Base64 they are
  letters of the alphabet, in groups of four.\<close>

theorem lz_characters:
  "set (LZ_compressToUTF16 (Some s)) \<subseteq> {32..32799} \<and>
   set (LZ_compressToBase64 (Some s)) \<subseteq> set keyStrBase64 \<and> length (LZ_compressToBase64 (Some s)) mod 4 = 0 \<and>
   set (LZ_compressToEncodedURIComponent (Some s)) \<subseteq> set keyStrUriSafe"
proof (intro conjI)
  show "set (LZ_compressToUTF16 (Some s)) \<subseteq> {32..32799}"
    using utf16_units.characters [of s] by (auto simp: LZ_compressToUTF16_def)
  have "set (compress_with 6 (\<lambda>a. keyStrBase64 ! a) s) \<subseteq> set keyStrBase64"
    using base64.characters [of s] keys_distinct(2) by (force simp: set_conv_nth)
  moreover have "61 \<in> set keyStrBase64" by (simp add: keyStrBase64_def)
  ultimately show "set (LZ_compressToBase64 (Some s)) \<subseteq> set keyStrBase64"
    by (auto simp: LZ_compressToBase64_def Let_def)
  show "length (LZ_compressToBase64 (Some s)) mod 4 = 0"
  proof -
    define n where "n = length (compress_with 6 (\<lambda>a. keyStrBase64 ! a) s)"
    have "n mod 4 = 0 \<or> n mod 4 = 1 \<and> (n + 3) mod 4 = 0 \<or> n mod 4 = 2 \<and> (n + 2) mod 4 = 0
        \<or> n mod 4 = 3 \<and> (n + 1) mod 4 = 0" by presburger
    then show ?thesis by (elim disjE conjE) (simp_all add: LZ_compressToBase64_def Let_def add.commute flip: n_def)
  qed
  show "set (LZ_compressToEncodedURIComponent (Some s)) \<subseteq> set keyStrUriSafe"
    using uri_safe.characters [of s] keys_distinct(4)
    by (force simp: LZ_compressToEncodedURIComponent_def set_conv_nth)
qed

end
