(* ===== verification/Sqlite.thy ===== *)
theory Sqlite
  imports SqlEngine LzString
begin

text \<open>
  The local database of the client (\<open>pchelpers/src/sqlite.js\<close>, class \<open>PCSqlite\<close>), its
  conversion worker (\<open>pchelpers/src/SQLtoBinWorker.js\<close>) and the IndexedDB record the
  converted image is written to.

  The SQL engine and the compressors are an argument of the definitions, the record
  \<open>engine\<close> of theory SqlEngine, and what the code relies on is its locale
  \<open>image_codec\<close>. The main thread, the worker and IndexedDB
  exchange messages through queues; \<open>db_step\<close> is the relation of their interleavings, and
  its invariant says which image the newest save in flight carries.
\<close>

section \<open>The database object\<close>

text \<open>Messages to the worker: \<open>postMessage([command, data, id])\<close>.\<close>

datatype wmsg = WStart | WStop | WConvert "byte list option" nat

text \<open>The prepared statement of a multi-row insert is kept with a flag that says whether the
  engine has already closed it: \<open>export\<close> closes every open statement of its database, and a
  database that was replaced takes its statements with it.\<close>

record 'db pcsqlite =
  sq_db :: "'db option"
  sq_dbloaded :: bool
  sq_SQL :: bool
  sq_autocommit :: bool
  sq_isdebug :: bool
  sq_multi :: "(jsstring \<times> bool) option"
  sq_currentSaveID :: nat
  sq_seenSaveID :: nat
  sq_toworker :: "wmsg list"

text \<open>The constructor; the asynchronous \<open>_initialize\<close> has not run yet.\<close>

definition new_PCSqlite :: "bool \<Rightarrow> 'db pcsqlite" where
  "new_PCSqlite debug =
     \<lparr>sq_db = None, sq_dbloaded = False, sq_SQL = False, sq_autocommit = True,
      sq_isdebug = debug, sq_multi = None, sq_currentSaveID = 0, sq_seenSaveID = 0,
      sq_toworker = [WStart]\<rparr>"

definition sq_set_autocommit :: "bool \<Rightarrow> 'db pcsqlite \<Rightarrow> 'db pcsqlite" where
  "sq_set_autocommit ac s = s\<lparr>sq_autocommit := ac\<rparr>"

definition close_multi :: "(jsstring \<times> bool) option \<Rightarrow> (jsstring \<times> bool) option" where
  "close_multi m = map_option (\<lambda>(q, _). (q, True)) m"

definition sq_save :: "'db engine \<Rightarrow> 'db pcsqlite \<Rightarrow> 'db pcsqlite" where
  "sq_save eng s =
     s\<lparr>sq_currentSaveID := Suc (sq_currentSaveID s),
       sq_toworker := sq_toworker s
         @ [WConvert (map_option (eng_export eng) (sq_db s)) (Suc (sq_currentSaveID s))],
       sq_multi := (if sq_db s = None then sq_multi s else close_multi (sq_multi s))\<rparr>"

text \<open>\<open>executeSQL\<close> throws, returns \<open>null\<close>, or returns the rows. An exception while the
  statement runs is logged and answered with one row.\<close>

datatype sql_result = SqlThrow | SqlNull | SqlRows "sqlrow list"

definition sq_autosave :: "'db engine \<Rightarrow> jsstring \<Rightarrow> 'db pcsqlite \<Rightarrow> 'db pcsqlite" where
  "sq_autosave eng q s = (if \<not> is_select q \<and> sq_autocommit s then sq_save eng s else s)"

definition executeSQL ::
  "'db engine \<Rightarrow> jsstring \<Rightarrow> wsval list \<Rightarrow> 'db pcsqlite \<Rightarrow> sql_result \<times> 'db pcsqlite" where
  "executeSQL eng q args s =
     (case sq_db s of
        None \<Rightarrow> (SqlNull, s)
      | Some db \<Rightarrow>
          if \<not> sq_dbloaded s then (SqlNull, s)
          else if \<not> eng_prepare eng q db then (SqlThrow, s)
          else (case eng_run eng q args db of
                  SqlDone rows db' \<Rightarrow> (SqlRows rows, sq_autosave eng q (s\<lparr>sq_db := Some db'\<rparr>))
                | SqlFail (Some r) db' \<Rightarrow>
                    (SqlRows [r], sq_autosave eng q (s\<lparr>sq_db := Some db'\<rparr>))
                | SqlFail None db' \<Rightarrow> (SqlThrow, s\<lparr>sq_db := Some db'\<rparr>)))"

definition multiInsert_Start ::
  "'db engine \<Rightarrow> jsstring \<Rightarrow> 'db pcsqlite \<Rightarrow> sql_result \<times> 'db pcsqlite" where
  "multiInsert_Start eng q s =
     (case sq_db s of
        None \<Rightarrow> (SqlNull, s)
      | Some db \<Rightarrow>
          if \<not> sq_dbloaded s then (SqlNull, s)
          else if \<not> eng_prepare eng q db then (SqlThrow, s)
          else (SqlNull, s\<lparr>sq_multi := Some (q, False)\<rparr>))"

definition multiInsert_End :: "'db engine \<Rightarrow> 'db pcsqlite \<Rightarrow> sql_result \<times> 'db pcsqlite" where
  "multiInsert_End eng s =
     (if sq_db s \<noteq> None \<and> sq_dbloaded s \<and> sq_multi s \<noteq> None
      then let s1 = s\<lparr>sq_multi := None\<rparr>
           in (SqlNull, if sq_autocommit s then sq_save eng s1 else s1)
      else (SqlNull, s))"

text \<open>Every exception in here is caught: no statement, a statement the engine has closed,
  a failing insert.\<close>

definition multiInsert_Execute ::
  "'db engine \<Rightarrow> wsval list \<Rightarrow> 'db pcsqlite \<Rightarrow> sql_result \<times> 'db pcsqlite" where
  "multiInsert_Execute eng args s =
     (case sq_db s of
        None \<Rightarrow> (SqlNull, s)
      | Some db \<Rightarrow>
          if \<not> sq_dbloaded s then (SqlNull, s)
          else (case sq_multi s of
                  None \<Rightarrow> (SqlNull, s)
                | Some (q, shut) \<Rightarrow>
                    if shut then (SqlNull, s)
                    else (case eng_run eng q args db of
                            SqlDone rows db' \<Rightarrow> (SqlNull, s\<lparr>sq_db := Some db'\<rparr>)
                          | SqlFail r db' \<Rightarrow> (SqlNull, s\<lparr>sq_db := Some db'\<rparr>))))"

definition sq_reset :: "'db engine \<Rightarrow> 'db pcsqlite \<Rightarrow> bool \<times> 'db pcsqlite" where
  "sq_reset eng s =
     (if sq_SQL s
      then (True, sq_save eng (s\<lparr>sq_db := Some (eng_new eng), sq_multi := close_multi (sq_multi s)\<rparr>))
      else (False, s))"

definition sq_isAllSaved :: "'db pcsqlite \<Rightarrow> bool" where
  "sq_isAllSaved s \<longleftrightarrow> sq_currentSaveID s = sq_seenSaveID s"

section \<open>Binary images as strings\<close>

text \<open>\<open>arr[i] = str.charCodeAt(i)\<close> keeps the low eight bits of each unit.\<close>

definition SQLtoBinArray :: "jsstring \<Rightarrow> byte list" where
  "SQLtoBinArray str = map (\<lambda>c. word_of_nat c) str"

definition fromCharCode :: "byte list \<Rightarrow> jsstring" where
  "fromCharCode bs = map (\<lambda>b. unat b) bs"

text \<open>The chunk loop of \<open>_SQLtoBinString\<close> and of the worker, from chunk \<open>i\<close> on.\<close>

function bin_chunks :: "nat \<Rightarrow> byte list \<Rightarrow> nat \<Rightarrow> jsstring list" where
  "bin_chunks n arr i =
     (if n = 0 then [] else
      if i * n < length arr
      then fromCharCode (js_slice arr (i * n) (Suc i * n)) # bin_chunks n arr (Suc i)
      else [])"
  by pat_completeness auto
termination
  by (relation "measure (\<lambda>(n, arr, i). length arr - i * n)")
    (auto intro!: diff_less_mono2 simp: algebra_simps)

declare bin_chunks.simps [simp del]

definition SQLtoBinString :: "byte list \<Rightarrow> jsstring" where
  "SQLtoBinString arr = concat (bin_chunks 65535 arr 0)"

definition dbstring :: "'db engine \<Rightarrow> 'db pcsqlite \<Rightarrow> jsstring" where
  "dbstring eng s =
     (case sq_db s of None \<Rightarrow> [] | Some db \<Rightarrow> SQLtoBinString (eng_export eng db))"

section \<open>The conversion worker\<close>

record wworker =
  wk_running :: bool
  wk_nextSave :: "byte list option"
  wk_nextSaveID :: nat
  wk_hasnextSave :: bool

definition new_worker :: wworker where
  "new_worker =
     \<lparr>wk_running = False, wk_nextSave = None, wk_nextSaveID = 0, wk_hasnextSave = False\<rparr>"

fun wk_onmessage :: "wmsg \<Rightarrow> wworker \<Rightarrow> wworker" where
  "wk_onmessage WStart w = w\<lparr>wk_running := True\<rparr>"
| "wk_onmessage WStop w = w\<lparr>wk_running := False\<rparr>"
| "wk_onmessage (WConvert d i) w =
     w\<lparr>wk_nextSave := d, wk_nextSaveID := i, wk_hasnextSave := True\<rparr>"

definition gzip_prefix :: jsstring where
  "gzip_prefix = js ''GZIP:''"

text \<open>\<open>new Uint8Array(undefined)\<close> is the empty array.\<close>

definition wk_convert :: "'db engine \<Rightarrow> byte list option \<Rightarrow> jsstring" where
  "wk_convert eng d =
     (let compressed = eng_deflate eng (case d of None \<Rightarrow> [] | Some bs \<Rightarrow> bs)
      in concat (gzip_prefix # bin_chunks 255 compressed 0))"

definition dataConverter ::
  "'db engine \<Rightarrow> wworker \<Rightarrow> (jsstring \<times> nat) option \<times> wworker" where
  "dataConverter eng w =
     (if \<not> wk_hasnextSave w then (None, w)
      else (Some (wk_convert eng (wk_nextSave w), wk_nextSaveID w),
            w\<lparr>wk_hasnextSave := False\<rparr>))"

section \<open>IndexedDB\<close>

text \<open>The browser's database under \<open>_dbname\<close>: its version (0 when there is none) and the
  object store of that name: missing, empty, or with the record 1. The code opens version 2;
  a lower version is upgraded by making an empty store, a higher one is an error.\<close>

record idb =
  idb_version :: nat
  idb_store :: "jsstring option option"

definition idb_open :: "idb \<Rightarrow> idb option" where
  "idb_open d =
     (if idb_version d < 2 then Some \<lparr>idb_version = 2, idb_store = Some None\<rparr>
      else if idb_version d = 2 then Some d
      else None)"

definition idb_deleted :: idb where
  "idb_deleted = \<lparr>idb_version = 0, idb_store = None\<rparr>"

definition saveToIndexedDB :: "jsstring \<Rightarrow> idb \<Rightarrow> idb" where
  "saveToIndexedDB data d =
     (case idb_open d of
        None \<Rightarrow> d
      | Some d1 \<Rightarrow>
          (case idb_store d1 of
             None \<Rightarrow> idb_deleted
           | Some _ \<Rightarrow> d1\<lparr>idb_store := Some (Some data)\<rparr>))"

text \<open>\<open>db.transaction\<close> on a missing store throws inside the event handler, before the test
  that would have resolved the promise: it stays pending.\<close>

datatype load_result = LoadPending | LoadResolved "jsstring option"

definition loadFromIndexedDB :: "idb \<Rightarrow> load_result \<times> idb" where
  "loadFromIndexedDB d =
     (case idb_open d of
        None \<Rightarrow> (LoadResolved None, d)
      | Some d1 \<Rightarrow>
          (case idb_store d1 of
             None \<Rightarrow> (LoadPending, d1)
           | Some r \<Rightarrow> (LoadResolved r, d1)))"

text \<open>\<open>_initialize\<close>, once the engine is there: the database from the stored string, in the
  three formats the code knows. The flag says whether the promise is resolved.\<close>

definition image_of :: "'db engine \<Rightarrow> jsstring \<Rightarrow> 'db res" where
  "image_of eng data =
     (if take 5 data = gzip_prefix
      then Inr (eng_open eng (eng_inflate eng (SQLtoBinArray (drop 5 data))))
      else (case LZ_decompress (Some data) of
              Inl e \<Rightarrow> Inl e
            | Inr (Some d) \<Rightarrow> if d \<noteq> [] then Inr (eng_open eng (SQLtoBinArray d))
                             else Inr (eng_open eng (SQLtoBinArray data))
            | Inr None \<Rightarrow> Inr (eng_open eng (SQLtoBinArray data))))"

text \<open>An exception leaves the object without a database and the promise pending.\<close>

definition sq_loaded ::
  "'db engine \<Rightarrow> jsstring option \<Rightarrow> 'db pcsqlite \<Rightarrow> bool \<times> 'db pcsqlite" where
  "sq_loaded eng data s =
     (case data of
        Some (c # cs) \<Rightarrow>
          (case image_of eng (c # cs) of
             Inl e \<Rightarrow> (False, s)
           | Inr db \<Rightarrow> (sq_isdebug s, s\<lparr>sq_db := Some db, sq_dbloaded := True\<rparr>))
      | _ \<Rightarrow> (sq_isdebug s, (sq_save eng (s\<lparr>sq_db := Some (eng_new eng)\<rparr>))\<lparr>sq_dbloaded := True\<rparr>))"

definition sq_initialize ::
  "'db engine \<Rightarrow> idb \<Rightarrow> 'db pcsqlite \<Rightarrow> bool \<times> 'db pcsqlite \<times> idb" where
  "sq_initialize eng d s =
     (case loadFromIndexedDB d of
        (LoadPending, d1) \<Rightarrow> (False, s\<lparr>sq_SQL := True\<rparr>, d1)
      | (LoadResolved data, d1) \<Rightarrow>
          (let (ok, s1) = sq_loaded eng data (s\<lparr>sq_SQL := True\<rparr>) in (ok, s1, d1)))"
section \<open>The three parties and their interleavings\<close>

text \<open>\<open>ds_tomain\<close> holds the answers \<open>SAVEDB\<close> on their way to the main thread and
  \<open>ds_puts\<close> the images whose IndexedDB requests are pending, oldest first: the browser runs
  the transactions of one store in the order of their creation.\<close>

record 'db dbsys =
  ds_main :: "'db pcsqlite"
  ds_worker :: wworker
  ds_tomain :: "(jsstring \<times> nat) list"
  ds_puts :: "jsstring list"
  ds_idb :: idb

text \<open>\<open>_binWorker.onmessage\<close> of a \<open>SAVEDB\<close> answer.\<close>

definition sq_onmessage :: "jsstring \<times> nat \<Rightarrow> 'db dbsys \<Rightarrow> 'db dbsys" where
  "sq_onmessage m s =
     s\<lparr>ds_main := (ds_main s)\<lparr>sq_seenSaveID := snd m\<rparr>, ds_puts := ds_puts s @ [fst m]\<rparr>"

definition db_start :: "'db engine \<Rightarrow> bool \<Rightarrow> idb \<Rightarrow> 'db dbsys" where
  "db_start eng debug d =
     (let (ok, m, d1) = sq_initialize eng d (new_PCSqlite debug)
      in \<lparr>ds_main = m, ds_worker = new_worker, ds_tomain = [], ds_puts = [], ds_idb = d1\<rparr>)"

text \<open>The steps nobody calls: the worker takes a message, its interval fires, the main thread
  takes an answer, IndexedDB finishes a request.\<close>

inductive db_background :: "'db engine \<Rightarrow> 'db dbsys \<Rightarrow> 'db dbsys \<Rightarrow> bool"
  for eng :: "'db engine" where
  bg_receive: "sq_toworker (ds_main s) = m # ms \<Longrightarrow>
    db_background eng s (s\<lparr>ds_main := (ds_main s)\<lparr>sq_toworker := ms\<rparr>,
                           ds_worker := wk_onmessage m (ds_worker s)\<rparr>)"
| bg_tick: "wk_running (ds_worker s) \<Longrightarrow> dataConverter eng (ds_worker s) = (out, w) \<Longrightarrow>
    db_background eng s (s\<lparr>ds_worker := w,
                           ds_tomain := ds_tomain s @ (case out of None \<Rightarrow> [] | Some x \<Rightarrow> [x])\<rparr>)"
| bg_answer: "ds_tomain s = m # ms \<Longrightarrow>
    db_background eng s (sq_onmessage m (s\<lparr>ds_tomain := ms\<rparr>))"
| bg_commit: "ds_puts s = p # ps \<Longrightarrow>
    db_background eng s (s\<lparr>ds_puts := ps, ds_idb := saveToIndexedDB p (ds_idb s)\<rparr>)"

text \<open>The calls of the page on the database object, \<open>autocommit\<close> left as it is.\<close>

inductive db_call :: "'db engine \<Rightarrow> 'db pcsqlite \<Rightarrow> 'db pcsqlite \<Rightarrow> bool"
  for eng :: "'db engine" where
  call_execute: "db_call eng m (snd (executeSQL eng q args m))"
| call_start: "db_call eng m (snd (multiInsert_Start eng q m))"
| call_insert: "db_call eng m (snd (multiInsert_Execute eng args m))"
| call_end: "db_call eng m (snd (multiInsert_End eng m))"
| call_save: "db_call eng m (sq_save eng m)"
| call_reset: "db_call eng m (snd (sq_reset eng m))"

inductive db_step :: "'db engine \<Rightarrow> 'db dbsys \<Rightarrow> 'db dbsys \<Rightarrow> bool"
  for eng :: "'db engine" where
  step_call: "db_call eng (ds_main s) m \<Longrightarrow> db_step eng s (s\<lparr>ds_main := m\<rparr>)"
| step_background: "db_background eng s s' \<Longrightarrow> db_step eng s s'"

inductive db_reach :: "'db engine \<Rightarrow> 'db dbsys \<Rightarrow> 'db dbsys \<Rightarrow> bool"
  for eng :: "'db engine" and s0 :: "'db dbsys" where
  reach_start: "db_reach eng s0 s0"
| reach_step: "db_reach eng s0 s \<Longrightarrow> db_step eng s s' \<Longrightarrow> db_reach eng s0 s'"

section \<open>The images in flight\<close>

text \<open>What the browser holds, or will hold once the pending requests are done.\<close>

definition db_durable :: "'db dbsys \<Rightarrow> jsstring option" where
  "db_durable s =
     (if ds_puts s \<noteq> [] then Some (last (ds_puts s))
      else case idb_store (ds_idb s) of None \<Rightarrow> None | Some r \<Rightarrow> r)"

fun conversions :: "'db engine \<Rightarrow> wmsg list \<Rightarrow> (nat \<times> jsstring option) list" where
  "conversions eng [] = []"
| "conversions eng (WConvert d i # ms) = (i, Some (wk_convert eng d)) # conversions eng ms"
| "conversions eng (m # ms) = conversions eng ms"

text \<open>Every image between the database object and the browser with the number of its save,
  oldest first: the stored one, the answers, the one the worker holds, the requests.\<close>

definition db_pipe :: "'db engine \<Rightarrow> 'db dbsys \<Rightarrow> (nat \<times> jsstring option) list" where
  "db_pipe eng s =
     (sq_seenSaveID (ds_main s), db_durable s)
     # map (\<lambda>(d, i). (i, Some d)) (ds_tomain s)
     @ (if wk_hasnextSave (ds_worker s)
        then [(wk_nextSaveID (ds_worker s), Some (wk_convert eng (wk_nextSave (ds_worker s))))]
        else [])
     @ conversions eng (sq_toworker (ds_main s))"

text \<open>The database a stored string stands for.\<close>

definition image_db :: "'db engine \<Rightarrow> jsstring option \<Rightarrow> 'db option" where
  "image_db eng r =
     (case r of
        Some (c # cs) \<Rightarrow> (case image_of eng (c # cs) of Inl e \<Rightarrow> None | Inr db \<Rightarrow> Some db)
      | _ \<Rightarrow> None)"

text \<open>A record that can be read: no exception.\<close>

definition record_readable :: "jsstring \<Rightarrow> bool" where
  "record_readable data \<longleftrightarrow>
     data = [] \<or> take 5 data = gzip_prefix \<or> \<not> isl (LZ_decompress (Some data))"

text \<open>No open multi-row insert, so nothing is unsaved.\<close>

definition multi_closed :: "'db pcsqlite \<Rightarrow> bool" where
  "multi_closed m \<longleftrightarrow> (case sq_multi m of None \<Rightarrow> True | Some (q, shut) \<Rightarrow> shut)"

definition db_inv :: "'db engine \<Rightarrow> 'db dbsys \<Rightarrow> bool" where
  "db_inv eng s \<longleftrightarrow>
     sq_db (ds_main s) \<noteq> None \<and> sq_dbloaded (ds_main s) \<and> sq_SQL (ds_main s) \<and>
     sq_autocommit (ds_main s) \<and>
     idb_version (ds_idb s) = 2 \<and> idb_store (ds_idb s) \<noteq> None \<and>
     sorted_wrt (<) (map fst (db_pipe eng s)) \<and>
     fst (last (db_pipe eng s)) = sq_currentSaveID (ds_main s) \<and>
     (multi_closed (ds_main s) \<longrightarrow>
        image_db eng (snd (last (db_pipe eng s))) = sq_db (ds_main s)) \<and>
     (wk_running (ds_worker s) \<or> WStart \<in> set (sq_toworker (ds_main s))) \<and>
     WStop \<notin> set (sq_toworker (ds_main s))"
section \<open>Round trips of the binary images\<close>

lemma SQLtoBinArray_fromCharCode [simp]: "SQLtoBinArray (fromCharCode bs) = bs"
  by (simp add: SQLtoBinArray_def fromCharCode_def comp_def)

lemma SQLtoBinArray_append [simp]:
  "SQLtoBinArray (a @ b) = SQLtoBinArray a @ SQLtoBinArray b"
  by (simp add: SQLtoBinArray_def)

lemma fromCharCode_append: "fromCharCode (a @ b) = fromCharCode a @ fromCharCode b"
  by (simp add: fromCharCode_def)

lemma concat_bin_chunks:
  "0 < n \<Longrightarrow> concat (bin_chunks n arr i) = fromCharCode (drop (i * n) arr)"
proof (induction n arr i rule: bin_chunks.induct)
  case (1 n arr i)
  show ?case
  proof (cases "i * n < length arr")
    case True
    then have "concat (bin_chunks n arr i)
        = fromCharCode (js_slice arr (i * n) (Suc i * n)) @ fromCharCode (drop (Suc i * n) arr)"
      using 1 by (simp add: bin_chunks.simps [of n arr i])
    also have "\<dots> = fromCharCode (take n (drop (i * n) arr) @ drop n (drop (i * n) arr))"
      by (simp add: js_slice_def fromCharCode_append add.commute)
    finally show ?thesis by (simp only: append_take_drop_id)
  next
    case False
    then show ?thesis by (simp add: bin_chunks.simps [of n arr i] fromCharCode_def)
  qed
qed

lemma wk_convert_eq:
  "wk_convert eng d
     = gzip_prefix @ fromCharCode (eng_deflate eng (case d of None \<Rightarrow> [] | Some bs \<Rightarrow> bs))"
  by (simp add: wk_convert_def Let_def concat_bin_chunks)

lemma length_gzip_prefix [simp]: "length gzip_prefix = 5"
  by (simp add: gzip_prefix_def)

lemma SQLtoBinString_eq: "SQLtoBinString arr = fromCharCode arr"
  by (simp add: SQLtoBinString_def concat_bin_chunks)

lemma image_of_readable:
  "record_readable data \<Longrightarrow> data \<noteq> [] \<Longrightarrow> \<exists>db. image_of eng data = Inr db"
  by (cases "LZ_decompress (Some data)") (auto simp: record_readable_def image_of_def split: option.split)

lemma record_readable_converted [simp]: "record_readable (wk_convert eng b)"
  by (cases b) (simp_all add: record_readable_def wk_convert_def Let_def concat_bin_chunks)

section \<open>Images under the laws of the engine\<close>

context image_codec begin

lemma image_of_convert: "image_of eng (wk_convert eng (Some (eng_export eng db))) = Inr db"
  by (simp add: image_of_def wk_convert_eq open_export inflate_deflate)

lemma image_db_convert [simp]:
  "image_db eng (Some (wk_convert eng (Some (eng_export eng db)))) = Some db"
proof -
  have "wk_convert eng (Some (eng_export eng db)) \<noteq> []"
    by (auto simp: wk_convert_eq gzip_prefix_def)
  then show ?thesis
    using image_of_convert [of db] by (cases "wk_convert eng (Some (eng_export eng db))")
      (auto simp: image_db_def)
qed

end
section \<open>The invariant of the images in flight\<close>

lemma conversions_append [simp]:
  "conversions eng (a @ b) = conversions eng a @ conversions eng b"
  by (induction eng a rule: conversions.induct) auto

lemma sorted_wrt_snocI:
  "sorted_wrt (<) (xs :: nat list) \<Longrightarrow> xs \<noteq> [] \<Longrightarrow> last xs < x \<Longrightarrow> sorted_wrt (<) (xs @ [x])"
  by (cases xs rule: rev_cases) (auto simp: sorted_wrt_append)

lemma last_map_fst: "xs \<noteq> [] \<Longrightarrow> last (map fst xs) = fst (last xs)"
  by (simp add: last_map)

lemma db_pipe_nonempty [simp]: "db_pipe eng s \<noteq> []"
  by (simp add: db_pipe_def)

text \<open>A save adds its image at the end; other changes of the object leave the images alone.\<close>

lemma db_pipe_save:
  "db_pipe eng (s\<lparr>ds_main := sq_save eng m\<rparr>)
     = db_pipe eng (s\<lparr>ds_main := m\<rparr>)
       @ [(Suc (sq_currentSaveID m), Some (wk_convert eng (map_option (eng_export eng) (sq_db m))))]"
  by (simp add: db_pipe_def sq_save_def db_durable_def)

lemma db_pipe_frame:
  "sq_seenSaveID m = sq_seenSaveID (ds_main s) \<Longrightarrow>
   sq_toworker m = sq_toworker (ds_main s) \<Longrightarrow>
   db_pipe eng (s\<lparr>ds_main := m\<rparr>) = db_pipe eng s"
  by (simp add: db_pipe_def db_durable_def)

text \<open>The shape every change of the main thread has: the images as before, or one more.\<close>

definition main_ok :: "'db engine \<Rightarrow> 'db pcsqlite \<Rightarrow> 'db pcsqlite \<Rightarrow> bool" where
  "main_ok eng m m' \<longleftrightarrow>
     sq_db m' \<noteq> None \<and> sq_dbloaded m' \<and> sq_SQL m' \<and> sq_autocommit m' \<and>
     ((sq_seenSaveID m' = sq_seenSaveID m \<and> sq_toworker m' = sq_toworker m \<and>
       sq_currentSaveID m' = sq_currentSaveID m \<and>
       (multi_closed m' \<longrightarrow> multi_closed m \<and> sq_db m' = sq_db m)) \<or>
      (\<exists>m1. m' = sq_save eng m1 \<and> sq_seenSaveID m1 = sq_seenSaveID m \<and>
         sq_toworker m1 = sq_toworker m \<and> sq_currentSaveID m1 = sq_currentSaveID m))"

lemma sq_save_simps [simp]:
  "sq_db (sq_save eng m) = sq_db m" "sq_dbloaded (sq_save eng m) = sq_dbloaded m"
  "sq_SQL (sq_save eng m) = sq_SQL m" "sq_autocommit (sq_save eng m) = sq_autocommit m"
  "sq_seenSaveID (sq_save eng m) = sq_seenSaveID m"
  "sq_currentSaveID (sq_save eng m) = Suc (sq_currentSaveID m)"
  "set (sq_toworker (sq_save eng m))
     = insert (WConvert (map_option (eng_export eng) (sq_db m)) (Suc (sq_currentSaveID m)))
         (set (sq_toworker m))"
  by (auto simp: sq_save_def)

lemma main_ok_save:
  "sq_db m1 \<noteq> None \<Longrightarrow> sq_dbloaded m1 \<Longrightarrow> sq_SQL m1 \<Longrightarrow> sq_autocommit m1 \<Longrightarrow>
   sq_seenSaveID m1 = sq_seenSaveID m \<Longrightarrow> sq_toworker m1 = sq_toworker m \<Longrightarrow>
   sq_currentSaveID m1 = sq_currentSaveID m \<Longrightarrow> main_ok eng m (sq_save eng m1)"
  unfolding main_ok_def by (intro conjI disjI2 exI [of _ m1]) auto

lemma pcsqlite_db_same: "sq_db m = Some db \<Longrightarrow> m\<lparr>sq_db := Some db\<rparr> = m"
  by (cases m) simp

lemma main_ok_refl:
  "sq_db m \<noteq> None \<Longrightarrow> sq_dbloaded m \<Longrightarrow> sq_SQL m \<Longrightarrow> sq_autocommit m \<Longrightarrow> main_ok eng m m"
  by (simp add: main_ok_def)

lemma db_inv_main:
  assumes codec: "image_codec eng" and inv: "db_inv eng s" and ok: "main_ok eng (ds_main s) m"
  shows "db_inv eng (s\<lparr>ds_main := m\<rparr>)"
proof (cases "\<exists>m1. m = sq_save eng m1 \<and> sq_seenSaveID m1 = sq_seenSaveID (ds_main s) \<and>
    sq_toworker m1 = sq_toworker (ds_main s) \<and>
    sq_currentSaveID m1 = sq_currentSaveID (ds_main s)")
  case True
  then obtain m1 where m1: "m = sq_save eng m1" "sq_seenSaveID m1 = sq_seenSaveID (ds_main s)"
    "sq_toworker m1 = sq_toworker (ds_main s)"
    "sq_currentSaveID m1 = sq_currentSaveID (ds_main s)" by blast
  have pipe: "db_pipe eng (s\<lparr>ds_main := m\<rparr>) = db_pipe eng s
      @ [(Suc (sq_currentSaveID m1), Some (wk_convert eng (map_option (eng_export eng) (sq_db m1))))]"
    unfolding m1(1) db_pipe_save using m1 by (simp add: db_pipe_frame)
  obtain db where db: "sq_db m1 = Some db" using ok m1(1) by (auto simp: main_ok_def)
  have "sorted_wrt (<) (map fst (db_pipe eng s) @ [Suc (sq_currentSaveID m1)])"
    using inv m1 by (intro sorted_wrt_snocI) (auto simp: db_inv_def last_map_fst)
  moreover have "sq_db m \<noteq> None" "sq_dbloaded m" "sq_SQL m" "sq_autocommit m"
    using ok by (simp_all add: main_ok_def)
  moreover have "sq_db m = Some db" "sq_currentSaveID m = Suc (sq_currentSaveID m1)"
    "set (sq_toworker m) = insert (WConvert (Some (eng_export eng db)) (Suc (sq_currentSaveID m1)))
       (set (sq_toworker (ds_main s)))"
    using m1 db by simp_all
  ultimately show ?thesis
    using inv image_codec.image_db_convert [OF codec, of db] unfolding db_inv_def pipe
    by (simp add: db)
next
  case False
  then have same: "sq_seenSaveID m = sq_seenSaveID (ds_main s)"
    "sq_toworker m = sq_toworker (ds_main s)"
    "sq_currentSaveID m = sq_currentSaveID (ds_main s)"
    "multi_closed m \<longrightarrow> multi_closed (ds_main s) \<and> sq_db m = sq_db (ds_main s)"
    using ok by (auto simp: main_ok_def)
  then show ?thesis
    using inv ok by (auto simp: db_inv_def main_ok_def db_pipe_frame)
qed

context image_codec begin

lemma main_ok_execute:
  assumes "sq_db m \<noteq> None" "sq_dbloaded m" "sq_SQL m" "sq_autocommit m"
  shows "main_ok eng m (snd (executeSQL eng q args m))"
proof -
  obtain db where db: "sq_db m = Some db" using assms(1) by blast
  show ?thesis
  proof (cases "is_select q")
    case True
    then have "snd (executeSQL eng q args m) = m"
      using db assms select_reads [of q args db] fail_atomic [of q args db]
      by (auto simp: executeSQL_def sq_autosave_def split: sql_outcome.splits option.splits)
    with assms show ?thesis by (simp add: main_ok_refl)
  next
    case False
    show ?thesis
      using db assms False fail_atomic [of q args db] main_ok_refl [OF assms, of eng]
      by (auto simp: executeSQL_def sq_autosave_def pcsqlite_db_same
          intro!: main_ok_save split: sql_outcome.splits option.splits)
  qed
qed

lemma main_ok_call:
  assumes "sq_db m \<noteq> None" "sq_dbloaded m" "sq_SQL m" "sq_autocommit m" "db_call eng m m'"
  shows "main_ok eng m m'"
  using assms(5)
proof cases
  case (call_execute q args)
  then show ?thesis using assms by (simp add: main_ok_execute)
next
  case (call_start q)
  then show ?thesis
    using assms(1-4) unfolding call_start
    by (cases "eng_prepare eng q (the (sq_db m))") (auto simp: multiInsert_Start_def main_ok_refl main_ok_def multi_closed_def)
next
  case (call_insert args)
  then show ?thesis
    using assms
    by (auto simp: multiInsert_Execute_def main_ok_refl main_ok_def multi_closed_def
        split: sql_outcome.splits option.splits)
next
  case call_end
  then show ?thesis
    using assms by (auto simp: multiInsert_End_def Let_def main_ok_refl intro!: main_ok_save)
next
  case call_save
  then show ?thesis using assms by (auto intro!: main_ok_save)
next
  case call_reset
  then show ?thesis using assms by (auto simp: sq_reset_def intro!: main_ok_save)
qed

end
lemma db_inv_receive:
  assumes inv: "db_inv eng s" and q: "sq_toworker (ds_main s) = m # ms"
  shows "db_inv eng (s\<lparr>ds_main := (ds_main s)\<lparr>sq_toworker := ms\<rparr>,
                        ds_worker := wk_onmessage m (ds_worker s)\<rparr>)"
proof (cases m)
  case (WConvert d i)
  then show ?thesis
    using inv q
    by (auto simp: db_inv_def db_pipe_def db_durable_def sorted_wrt_append multi_closed_def
        cong: if_cong split: if_splits)
qed (use inv q in \<open>auto simp: db_inv_def db_pipe_def db_durable_def multi_closed_def\<close>)

lemma db_pipe_tick:
  "dataConverter eng (ds_worker s) = (out, w) \<Longrightarrow>
   db_pipe eng (s\<lparr>ds_worker := w,
                  ds_tomain := ds_tomain s @ (case out of None \<Rightarrow> [] | Some x \<Rightarrow> [x])\<rparr>)
     = db_pipe eng s"
  by (auto simp: dataConverter_def db_pipe_def db_durable_def split: if_splits)

lemma dataConverter_running:
  "dataConverter eng w = (out, w') \<Longrightarrow> wk_running w' = wk_running w"
  by (auto simp: dataConverter_def split: if_splits)

lemma db_inv_answer:
  assumes inv: "db_inv eng s" and q: "ds_tomain s = m # ms"
  shows "db_inv eng (sq_onmessage m (s\<lparr>ds_tomain := ms\<rparr>))"
proof -
  have "db_pipe eng s = (sq_seenSaveID (ds_main s), db_durable s)
      # db_pipe eng (sq_onmessage m (s\<lparr>ds_tomain := ms\<rparr>))"
    using q by (cases m) (simp add: db_pipe_def sq_onmessage_def db_durable_def)
  with inv show ?thesis
    by (auto simp: db_inv_def sq_onmessage_def multi_closed_def)
qed

lemma db_durable_commit:
  "ds_puts s = p # ps \<Longrightarrow> idb_version (ds_idb s) = 2 \<Longrightarrow> idb_store (ds_idb s) \<noteq> None \<Longrightarrow>
   db_durable (s\<lparr>ds_puts := ps, ds_idb := saveToIndexedDB p (ds_idb s)\<rparr>) = db_durable s"
  by (auto simp: db_durable_def saveToIndexedDB_def idb_open_def)

lemma saveToIndexedDB_present:
  "idb_version d = 2 \<Longrightarrow> idb_store d \<noteq> None \<Longrightarrow>
   saveToIndexedDB p d = \<lparr>idb_version = 2, idb_store = Some (Some p)\<rparr>"
  by (cases d) (auto simp: saveToIndexedDB_def idb_open_def)

lemma db_inv_background:
  assumes step: "db_background eng s s'" and inv: "db_inv eng s"
  shows "db_inv eng s'"
  using step
proof cases
  case (bg_receive m ms)
  with inv show ?thesis by (simp add: db_inv_receive)
next
  case (bg_tick out w)
  with inv show ?thesis
    using dataConverter_running [OF bg_tick(3)] by (simp add: db_inv_def db_pipe_tick)
next
  case (bg_answer m ms)
  with inv show ?thesis by (simp add: db_inv_answer)
next
  case (bg_commit p ps)
  then have dur: "db_durable s' = db_durable s"
    using inv by (simp add: db_durable_commit db_inv_def)
  then have "db_pipe eng s' = db_pipe eng s"
    using bg_commit(1) by (simp add: db_pipe_def)
  with inv bg_commit show ?thesis
    by (simp add: db_inv_def saveToIndexedDB_present)
qed

lemma db_inv_start:
  assumes codec: "image_codec eng" and start: "idb_open d \<noteq> None" "idb_store d \<noteq> None \<or> idb_version d < 2"
    and readable: "\<forall>data. idb_version d = 2 \<longrightarrow> idb_store d = Some (Some data) \<longrightarrow> record_readable data"
  shows "db_inv eng (db_start eng debug d)"
proof -
  obtain d1 r where d1: "idb_open d = Some d1" "idb_version d1 = 2" "idb_store d1 = Some r"
    "loadFromIndexedDB d = (LoadResolved r, d1)"
    using start by (auto simp: idb_open_def loadFromIndexedDB_def split: if_splits)
  show ?thesis
  proof (cases "\<exists>c cs. r = Some (c # cs)")
    case True
    then obtain c cs where r: "r = Some (c # cs)" by blast
    have "idb_version d = 2 \<and> d1 = d"
      using d1(1,3) r unfolding idb_open_def by (cases "idb_version d < 2"; cases "idb_version d = 2") auto
    then have "record_readable (c # cs)" using readable [rule_format, of "c # cs"] d1(2,3) r by simp
    from image_of_readable [OF this, of eng] obtain db where "image_of eng (c # cs) = Inr db" by auto
    with d1 r show ?thesis
      by (auto simp: db_start_def sq_initialize_def sq_loaded_def new_PCSqlite_def db_inv_def
          db_pipe_def db_durable_def new_worker_def image_db_def multi_closed_def)
  next
    case False
    then have "r = None \<or> r = Some []" by (metis list.exhaust option.exhaust)
    with d1 show ?thesis
      using image_codec.image_db_convert [OF codec, of "eng_new eng"]
      by (auto simp: db_start_def sq_initialize_def sq_loaded_def new_PCSqlite_def db_inv_def
          db_pipe_def db_durable_def new_worker_def multi_closed_def sq_save_def)
  qed
qed

lemma db_inv_step:
  assumes codec: "image_codec eng" and inv: "db_inv eng s" and step: "db_step eng s s'"
  shows "db_inv eng s'"
  using step
proof cases
  case (step_call m)
  then show ?thesis
    using db_inv_main [OF codec inv, of m] image_codec.main_ok_call [OF codec _ _ _ _ step_call(2)] inv
    by (auto simp: db_inv_def)
next
  case step_background
  then show ?thesis using db_inv_background inv by blast
qed

lemma db_inv_reach:
  assumes codec: "image_codec eng" and start: "db_inv eng s0" and reach: "db_reach eng s0 s"
  shows "db_inv eng s"
  using reach by induction (use codec start db_inv_step in blast)+

section \<open>Everything saved means everything durable\<close>

text \<open>When the two numbers agree there is no image in flight but the stored one.\<close>

lemma all_saved_pipe:
  assumes inv: "db_inv eng s" and saved: "sq_isAllSaved (ds_main s)"
  shows "db_pipe eng s = [(sq_seenSaveID (ds_main s), db_durable s)]"
proof (cases "tl (db_pipe eng s)")
  case Nil
  then show ?thesis by (simp add: db_pipe_def)
next
  case (Cons p ps)
  then have eq: "db_pipe eng s = (sq_seenSaveID (ds_main s), db_durable s) # tl (db_pipe eng s)"
    by (simp add: db_pipe_def)
  have "last (db_pipe eng s) \<in> set (tl (db_pipe eng s))"
    using Cons by (subst eq) simp
  moreover have "sorted_wrt (<) (map fst ((sq_seenSaveID (ds_main s), db_durable s) # tl (db_pipe eng s)))"
    using inv eq by (simp add: db_inv_def)
  ultimately have "sq_seenSaveID (ds_main s) < fst (last (db_pipe eng s))" by auto
  with inv saved show ?thesis by (simp add: db_inv_def sq_isAllSaved_def)
qed

text \<open>Starting the client again on the browser's record.\<close>

definition reloaded :: "'db engine \<Rightarrow> 'db dbsys \<Rightarrow> 'db option" where
  "reloaded eng s = sq_db (ds_main (db_start eng True (ds_idb s)))"

lemma reloaded_durable:
  assumes inv: "db_inv eng s" and puts: "ds_puts s = []" and db: "image_db eng (db_durable s) = Some db"
  shows "reloaded eng s = Some db"
proof -
  obtain r where r: "idb_store (ds_idb s) = Some r" "idb_version (ds_idb s) = 2"
    using inv by (auto simp: db_inv_def)
  then have "db_durable s = r" using puts by (simp add: db_durable_def)
  with db obtain c cs where "r = Some (c # cs)" "image_of eng (c # cs) = Inr db"
    by (auto simp: image_db_def split: option.splits list.splits sum.splits)
  with r show ?thesis
    by (simp add: reloaded_def db_start_def sq_initialize_def loadFromIndexedDB_def idb_open_def
        sq_loaded_def)
qed
text \<open>How much background work a state still has.\<close>

definition db_work :: "'db dbsys \<Rightarrow> nat" where
  "db_work s =
     4 * length (sq_toworker (ds_main s)) + (if wk_hasnextSave (ds_worker s) then 3 else 0)
     + 2 * length (ds_tomain s) + length (ds_puts s)"

lemma wk_onmessage_work:
  "(if wk_hasnextSave (wk_onmessage m w) then 3 else 0) < Suc (4 + (if wk_hasnextSave w then 3 else (0::nat)))"
  by (cases m) auto

lemma db_background_progress:
  assumes inv: "db_inv eng s" and work: "db_work s \<noteq> 0"
  shows "\<exists>s'. db_background eng s s' \<and> db_work s' < db_work s"
proof -
  consider (receive) m ms where "sq_toworker (ds_main s) = m # ms"
    | (answer) m ms where "ds_tomain s = m # ms"
    | (commit) p ps where "ds_puts s = p # ps"
    | (tick) "sq_toworker (ds_main s) = []" "wk_hasnextSave (ds_worker s)"
    using work
    by (cases "sq_toworker (ds_main s)"; cases "ds_tomain s"; cases "ds_puts s")
      (auto simp: db_work_def split: if_splits)
  then show ?thesis
  proof cases
    case receive
    show ?thesis
      by (rule exI, rule conjI, rule bg_receive [OF receive])
        (use wk_onmessage_work [of m "ds_worker s"] receive in \<open>auto simp: db_work_def\<close>)
  next
    case answer
    show ?thesis
      by (rule exI, rule conjI, rule bg_answer [OF answer])
        (use answer in \<open>simp add: db_work_def sq_onmessage_def\<close>)
  next
    case commit
    show ?thesis
      by (rule exI, rule conjI, rule bg_commit [OF commit]) (use commit in \<open>simp add: db_work_def\<close>)
  next
    case tick
    then have run: "wk_running (ds_worker s)" using inv by (auto simp: db_inv_def)
    have "dataConverter eng (ds_worker s)
        = (Some (wk_convert eng (wk_nextSave (ds_worker s)), wk_nextSaveID (ds_worker s)),
           (ds_worker s)\<lparr>wk_hasnextSave := False\<rparr>)"
      using tick by (simp add: dataConverter_def)
    note tick_step = bg_tick [OF run this]
    show ?thesis
      by (rule exI, rule conjI, rule tick_step) (use tick in \<open>simp add: db_work_def\<close>)
  qed
qed

lemma db_background_frame:
  "db_background eng s s' \<Longrightarrow>
   sq_db (ds_main s') = sq_db (ds_main s) \<and> sq_multi (ds_main s') = sq_multi (ds_main s)"
  by (cases rule: db_background.cases) (auto simp: sq_onmessage_def)

lemma db_drains:
  "db_inv eng s \<Longrightarrow>
   \<exists>s'. (db_background eng)\<^sup>*\<^sup>* s s' \<and> db_work s' = 0 \<and> db_inv eng s' \<and>
        sq_db (ds_main s') = sq_db (ds_main s) \<and> sq_multi (ds_main s') = sq_multi (ds_main s)"
proof (induction "db_work s" arbitrary: s rule: less_induct)
  case less
  show ?case
  proof (cases "db_work s = 0")
    case True
    with less.prems show ?thesis by blast
  next
    case False
    from db_background_progress [OF less.prems False] obtain s1
      where s1: "db_background eng s s1" "db_work s1 < db_work s" by blast
    from less.hyps [OF s1(2) db_inv_background [OF s1(1) less.prems]]
    obtain s' where "(db_background eng)\<^sup>*\<^sup>* s1 s'" "db_work s' = 0" "db_inv eng s'"
      "sq_db (ds_main s') = sq_db (ds_main s1)" "sq_multi (ds_main s') = sq_multi (ds_main s1)"
      by blast
    with s1 db_background_frame [OF s1(1)] show ?thesis
      by (metis converse_rtranclp_into_rtranclp)
  qed
qed

lemma no_work_all_saved:
  "db_inv eng s \<Longrightarrow> db_work s = 0 \<Longrightarrow> sq_isAllSaved (ds_main s) \<and> ds_puts s = []"
  by (auto simp: db_inv_def db_work_def db_pipe_def sq_isAllSaved_def split: if_splits)

text \<open>A browser the code can work with: no database yet, or one of version 2 with its store and a
  record that can be read.\<close>

definition idb_usable :: "idb \<Rightarrow> bool" where
  "idb_usable d \<longleftrightarrow> idb_version d < 2 \<or> (idb_version d = 2 \<and>
     (case idb_store d of None \<Rightarrow> False | Some None \<Rightarrow> True | Some (Some data) \<Rightarrow> record_readable data))"

lemma db_inv_reachable:
  "image_codec eng \<Longrightarrow> idb_usable d \<Longrightarrow> db_reach eng (db_start eng debug d) s \<Longrightarrow> db_inv eng s"
  by (rule db_inv_reach [OF _ db_inv_start]) (auto simp: idb_usable_def idb_open_def split: option.splits)

lemma saved_state_reloads:
  assumes inv: "db_inv eng s" and saved: "sq_isAllSaved (ds_main s)" and puts: "ds_puts s = []"
    and multi: "multi_closed (ds_main s)"
  shows "reloaded eng s = sq_db (ds_main s)"
proof -
  obtain db where db: "sq_db (ds_main s) = Some db" using inv by (auto simp: db_inv_def)
  have "image_db eng (db_durable s) = Some db"
    using inv multi db all_saved_pipe [OF inv saved] by (simp add: db_inv_def)
  from reloaded_durable [OF inv puts this] db show ?thesis by simp
qed

text \<open>C3: in every reachable state of the page, the worker and the browser, when the database
  object reports that all is saved, no request is pending and no multi-row insert is open, a
  client that starts again on the browser's record has exactly the database of this one.\<close>

theorem all_saved_survives_restart:
  assumes "image_codec eng" and "idb_usable d" and "db_reach eng (db_start eng debug d) s"
    and "sq_isAllSaved (ds_main s)" and "ds_puts s = []" and "multi_closed (ds_main s)"
  shows "reloaded eng s = sq_db (ds_main s)"
  using assms by (intro saved_state_reloads db_inv_reachable [of eng d debug s])

lemma drained_restart:
  assumes "image_codec eng" and "idb_usable d" and "db_reach eng (db_start eng debug d) s"
    and "multi_closed (ds_main s)"
  shows "\<exists>s'. (db_background eng)\<^sup>*\<^sup>* s s' \<and> sq_isAllSaved (ds_main s') \<and> ds_puts s' = [] \<and>
    sq_db (ds_main s') = sq_db (ds_main s) \<and> reloaded eng s' = sq_db (ds_main s)"
proof -
  have "db_inv eng s" using assms by (intro db_inv_reachable)
  from db_drains [OF this] obtain s' where s': "(db_background eng)\<^sup>*\<^sup>* s s'" "db_work s' = 0"
    "db_inv eng s'" "sq_db (ds_main s') = sq_db (ds_main s)"
    "sq_multi (ds_main s') = sq_multi (ds_main s)" by blast
  moreover have "sq_isAllSaved (ds_main s')" "ds_puts s' = []"
    using no_work_all_saved s' by blast+
  moreover have "multi_closed (ds_main s')"
    using assms(4) s'(5) by (simp add: multi_closed_def)
  ultimately show ?thesis using saved_state_reloads by metis
qed

text \<open>C13: from every reachable state in which no multi-row insert is open the background steps alone (no
  further call) lead to a state in which all is saved, nothing is pending and a restart finds the
  database the page had: no save is lost, however many were dropped by the worker for a later one.
  The rows of a multi-row insert that is still open are in no image, and nothing saves them before
  it is ended.\<close>

theorem saves_complete:
  assumes "image_codec eng" and "idb_usable d" and "db_reach eng (db_start eng debug d) s"
    and "multi_closed (ds_main s)"
  shows "\<exists>s'. (db_background eng)\<^sup>*\<^sup>* s s' \<and> sq_isAllSaved (ds_main s') \<and> ds_puts s' = [] \<and>
    sq_db (ds_main s') = sq_db (ds_main s) \<and> reloaded eng s' = sq_db (ds_main s)"
  using assms by (rule drained_restart)

text \<open>whatever requests reach the worker between two ticks, the tick converts the last one
  only, under its own number.\<close>

theorem only_latest_converted:
  "fst (dataConverter eng (fold wk_onmessage (map (\<lambda>(d, i). WConvert d i) (ms @ [(d, i)])) w))
    = Some (wk_convert eng d, i)"
  by (simp add: dataConverter_def)

text \<open>the promise of \<open>initialize\<close> is resolved only by an object made with \<open>debug\<close>: without it
  \<open>pagecamelDBInit\<close> never passes the database to the socket, whatever the browser holds.\<close>

theorem initialize_needs_debug:
  "fst (sq_initialize eng d (new_PCSqlite debug)) \<longrightarrow> debug"
  by (auto simp: sq_initialize_def sq_loaded_def new_PCSqlite_def Let_def
      split: prod.splits load_result.splits option.splits list.splits sum.splits)

text \<open>a store missing from a version 2 database is never repaired by loading: the promise
  stays pending and the object without a database, whatever \<open>debug\<close> says.\<close>

theorem missing_store_pends:
  "sq_initialize eng \<lparr>idb_version = 2, idb_store = None\<rparr> (new_PCSqlite debug)
     = (False, (new_PCSqlite debug)\<lparr>sq_SQL := True\<rparr>, \<lparr>idb_version = 2, idb_store = None\<rparr>)"
  by (simp add: sq_initialize_def loadFromIndexedDB_def idb_open_def)

text \<open>C38: a write through \<open>executeSQL\<close> closes the statement of an open multi-row insert, and the
  rows inserted after it are dropped without an error.\<close>

theorem multi_insert_interrupted:
  assumes "sq_db m = Some db" "sq_dbloaded m" "sq_autocommit m" "\<not> is_select q"
    and "eng_prepare eng q db" "eng_run eng q args db = SqlDone rows db'"
    and "sq_multi m = Some (ins, shut)"
  shows "multiInsert_Execute eng values (snd (executeSQL eng q args m))
    = (SqlNull, snd (executeSQL eng q args m))"
  using assms
  by (simp add: executeSQL_def sq_autosave_def sq_save_def multiInsert_Execute_def close_multi_def)
section \<open>Records of older versions\<close>

text \<open>A browser with this record.\<close>

definition idb_with :: "jsstring \<Rightarrow> idb" where
  "idb_with data = \<lparr>idb_version = 2, idb_store = Some (Some data)\<rparr>"

lemma initialize_with:
  assumes "image_of eng data = Inr db" "data \<noteq> []"
  shows "sq_db (fst (snd (sq_initialize eng (idb_with data) (new_PCSqlite debug)))) = Some db"
  using assms by (cases data)
    (simp_all add: sq_initialize_def loadFromIndexedDB_def idb_open_def idb_with_def sq_loaded_def)

text \<open>C23: the record that an older version wrote with LZString still loads: a client that starts on it has
  the database of the image, whose first byte is the S of the header of SQLite.\<close>

theorem legacy_record_loads:
  "sq_db (fst (snd (sq_initialize eng (idb_with (LZ_compress (Some (SQLtoBinString (83 # bs)))))
     (new_PCSqlite debug)))) = Some (eng_open eng (83 # bs))"
proof (rule initialize_with)
  let ?s = "SQLtoBinString (83 # bs)"
  have s: "?s = 83 # fromCharCode bs" by (simp add: SQLtoBinString_eq fromCharCode_def)
  have ne: "LZ_compress (Some ?s) \<noteq> []" by (simp add: LZ_compress_def)
  have "\<forall>c\<in>set ?s. c < 65536"
    unfolding SQLtoBinString_eq fromCharCode_def by (auto intro: less_trans [OF unsigned_less])
  then have "LZ_decompress (Some (LZ_compress (Some ?s))) = Inr (Some ?s)" by (rule LZ_units_roundtrip)
  moreover have "take 5 (LZ_compress (Some ?s)) \<noteq> gzip_prefix"
    using compress_head [of 83 "fromCharCode bs"] ne
    by (cases "LZ_compress (Some ?s)") (auto simp: gzip_prefix_def s)
  ultimately show "image_of eng (LZ_compress (Some ?s)) = Inr (eng_open eng (83 # bs))"
    by (simp add: image_of_def SQLtoBinString_eq) (simp add: fromCharCode_def)
  show "LZ_compress (Some ?s) \<noteq> []" by (rule ne)
qed

text \<open>C39: the record of a version that did not compress is lost: the client opens a database of the one
  byte 128 in its place, although the code has a branch for such records.\<close>

theorem uncompressed_record_lost:
  "sq_db (fst (snd (sq_initialize eng (idb_with (SQLtoBinString (83 # bs))) (new_PCSqlite debug))))
     = Some (eng_open eng [128])"
proof (rule initialize_with)
  have s: "SQLtoBinString (83 # bs) = 83 # fromCharCode bs" by (simp add: SQLtoBinString_eq fromCharCode_def)
  show "SQLtoBinString (83 # bs) \<noteq> []" by (simp add: s)
  have "LZ_decompress (Some (SQLtoBinString (83 # bs))) = Inr (Some [128])" unfolding s
    by (rule decompress_S)
  then show "image_of eng (SQLtoBinString (83 # bs)) = Inr (eng_open eng [128])"
    by (simp add: image_of_def s gzip_prefix_def SQLtoBinArray_def)
qed

section \<open>The properties at concrete states\<close>

text \<open>A browser that holds one row, and a browser that holds nothing.\<close>

definition sample_idb :: idb where
  "sample_idb = \<lparr>idb_version = 2, idb_store = Some (Some
     (wk_convert table_engine (Some (dump_table (Some [(7, [65], [66])])))))\<rparr>"

lemma sample_start:
  "sq_db (ds_main (db_start table_engine True sample_idb)) = Some (Some [(7, [65], [66])])"
  "sq_isAllSaved (ds_main (db_start table_engine True sample_idb))"
  "ds_puts (db_start table_engine True sample_idb) = []"
  "multi_closed (ds_main (db_start table_engine True sample_idb))"
proof -
  let ?w = "wk_convert table_engine (Some (dump_table (Some [(7, [65], [66])])))"
  have "image_db table_engine (Some ?w) = Some (Some [(7, [65], [66])])"
    using table_image.image_db_convert [of "Some [(7, [65], [66])]"] by simp
  then obtain c cs where "?w = c # cs" "image_of table_engine (c # cs) = Inr (Some [(7, [65], [66])])"
    by (cases ?w) (auto simp: image_db_def split: sum.splits)
  then show
    "sq_db (ds_main (db_start table_engine True sample_idb)) = Some (Some [(7, [65], [66])])"
    "sq_isAllSaved (ds_main (db_start table_engine True sample_idb))"
    "ds_puts (db_start table_engine True sample_idb) = []"
    "multi_closed (ds_main (db_start table_engine True sample_idb))"
    by (simp_all add: db_start_def sq_initialize_def loadFromIndexedDB_def idb_open_def
        sample_idb_def sq_loaded_def new_PCSqlite_def sq_isAllSaved_def multi_closed_def)
qed

theorem all_saved_survives_restart_witness:
  "reloaded table_engine (db_start table_engine True sample_idb) = Some (Some [(7, [65], [66])])"
  using all_saved_survives_restart [of table_engine sample_idb True, OF table_image.image_codec_axioms
      _ reach_start sample_start(2) sample_start(3) sample_start(4)] sample_start(1)
  by (simp add: sample_idb_def idb_usable_def)

theorem saves_complete_witness:
  "\<exists>s'. (db_background table_engine)\<^sup>*\<^sup>* (db_start table_engine False idb_deleted) s' \<and>
     sq_isAllSaved (ds_main s') \<and> reloaded table_engine s' = Some None"
proof -
  have "multi_closed (ds_main (db_start table_engine False idb_deleted))"
    "sq_db (ds_main (db_start table_engine False idb_deleted)) = Some None"
    by (simp_all add: db_start_def sq_initialize_def loadFromIndexedDB_def idb_open_def
        idb_deleted_def sq_loaded_def new_PCSqlite_def multi_closed_def sq_save_def
        close_multi_def)
  then show ?thesis
    using saves_complete [of table_engine idb_deleted False, OF table_image.image_codec_axioms
        _ reach_start] by (auto simp: idb_usable_def idb_deleted_def)
qed

theorem initialize_needs_debug_witness:
  "\<not> fst (sq_initialize table_engine idb_deleted (new_PCSqlite False))"
  using initialize_needs_debug [of table_engine idb_deleted False] by simp

definition open_insert :: "table pcsqlite" where
  "open_insert = (new_PCSqlite True)\<lparr>sq_db := Some (Some []), sq_dbloaded := True,
     sq_multi := Some (insertrowsql, False)\<rparr>"

theorem multi_insert_interrupted_witness:
  "snd (multiInsert_Execute table_engine [WText [49], WText [65], WText [66]] open_insert)
     \<noteq> open_insert \<and>
   multiInsert_Execute table_engine [WText [49], WText [65], WText [66]]
     (snd (executeSQL table_engine createtablesql [] open_insert))
   = (SqlNull, snd (executeSQL table_engine createtablesql [] open_insert))"
proof
  show "snd (multiInsert_Execute table_engine [WText [49], WText [65], WText [66]] open_insert)
     \<noteq> open_insert"
    by (simp add: multiInsert_Execute_def open_insert_def new_PCSqlite_def table_run_def)
  show "multiInsert_Execute table_engine [WText [49], WText [65], WText [66]]
     (snd (executeSQL table_engine createtablesql [] open_insert))
   = (SqlNull, snd (executeSQL table_engine createtablesql [] open_insert))"
    by (rule multi_insert_interrupted [of _ "Some []" _ _ _ "[]" "Some []" insertrowsql False])
      (simp_all add: open_insert_def new_PCSqlite_def table_run_def)
qed

text \<open>C22: binary images and their strings: every image comes back from its string, whatever
  its length, although the strings are built in chunks.\<close>

theorem binary_string_roundtrip:
  "SQLtoBinArray (SQLtoBinString arr) = arr \<and>
   SQLtoBinArray (drop 5 (wk_convert eng (Some arr))) = eng_deflate eng arr \<and>
   (\<forall>c \<in> set (SQLtoBinString arr). c < 256)"
proof -
  have "\<forall>b :: byte. unat b < 256" using unsigned_less [where 'b = 8 and 'a = nat] by simp
  then show ?thesis
    by (auto simp: SQLtoBinString_eq wk_convert_eq fromCharCode_def
        SQLtoBinArray_fromCharCode [unfolded fromCharCode_def])
qed

theorem binary_string_roundtrip_witness:
  "SQLtoBinArray (SQLtoBinString [1, 255, 0]) = [1, 255, 0]"
  using binary_string_roundtrip [of "[1, 255, 0]" table_engine] by simp

text \<open>\<open>isAllSaved\<close> runs ahead of the browser: a reachable state reports that all is saved
  while IndexedDB still holds nothing.\<close>

theorem all_saved_too_early:
  "\<exists>s. db_reach eng (db_start eng True idb_deleted) s \<and> sq_isAllSaved (ds_main s) \<and>
     idb_store (ds_idb s) = Some None \<and> ds_puts s \<noteq> []"
proof -
  let ?s0 = "db_start eng True idb_deleted"
  obtain d where q0: "sq_toworker (ds_main ?s0) = [WStart, WConvert d 1]"
    "ds_worker ?s0 = new_worker" "ds_tomain ?s0 = []" "sq_currentSaveID (ds_main ?s0) = 1"
    "idb_store (ds_idb ?s0) = Some None"
    by (simp add: db_start_def sq_initialize_def loadFromIndexedDB_def idb_open_def
        idb_deleted_def sq_loaded_def new_PCSqlite_def sq_save_def)
  let ?s1 = "?s0\<lparr>ds_main := (ds_main ?s0)\<lparr>sq_toworker := [WConvert d 1]\<rparr>,
     ds_worker := wk_onmessage WStart (ds_worker ?s0)\<rparr>"
  let ?s2 = "?s1\<lparr>ds_main := (ds_main ?s1)\<lparr>sq_toworker := []\<rparr>,
     ds_worker := wk_onmessage (WConvert d 1) (ds_worker ?s1)\<rparr>"
  let ?w = "(ds_worker ?s2)\<lparr>wk_hasnextSave := False\<rparr>"
  let ?s3 = "?s2\<lparr>ds_worker := ?w,
     ds_tomain := ds_tomain ?s2 @ (case Some (wk_convert eng d, 1 :: nat) of None \<Rightarrow> [] | Some x \<Rightarrow> [x])\<rparr>"
  let ?s4 = "sq_onmessage (wk_convert eng d, 1) (?s3\<lparr>ds_tomain := []\<rparr>)"
  have "db_background eng ?s0 ?s1" using q0 by (intro bg_receive) simp
  moreover have "db_background eng ?s1 ?s2" by (intro bg_receive) simp
  moreover have "db_background eng ?s2 ?s3"
    using q0 by (intro bg_tick) (simp_all add: dataConverter_def)
  moreover have "db_background eng ?s3 ?s4" using q0 by (intro bg_answer) simp
  ultimately have "db_reach eng ?s0 ?s4"
    by (meson db_reach.intros step_background)
  moreover have "sq_isAllSaved (ds_main ?s4)" "idb_store (ds_idb ?s4) = Some None" "ds_puts ?s4 \<noteq> []"
    using q0 by (simp_all add: sq_onmessage_def sq_isAllSaved_def)
  ultimately show ?thesis by blast
qed

end
