(* ===== verification/Websocket.thy ===== *)
theory Websocket
  imports Sqlite
begin

text \<open>
  The socket object of the client (\<open>pchelpers/src/websocket.js\<close>, class \<open>PCWebsocket\<close>):
  registered callbacks, the outbox of cached messages in the local database with its
  acknowledgements and retries, and the queue of incoming messages. The clock, the random
  number of an identifier and the page's \<open>wstransmit\<close> are the environment of a call;
  callbacks are external functions whose calls are recorded in order. Callback arrays are
  references into a store, because \<open>deregister\<close> changes the caller's arrays in place.
\<close>

section \<open>Environment, callbacks, state\<close>

datatype tx = TxTrue | TxFalse | TxThrow

text \<open>\<open>Date.now()\<close>, \<open>Math.floor(Math.random() * 10000)\<close> and what \<open>wstransmit\<close> answers.\<close>

record wenv =
  env_now :: nat
  env_rand :: nat
  env_tx :: "wsval \<Rightarrow> wsval \<Rightarrow> wsval option \<Rightarrow> tx"

datatype ws_out =
    Transmit wsval wsval "wsval option"
  | CallBack nat jsstring wsval
  | ConnectionChanged bool

record wsitem =
  wi_messagename :: jsstring
  wi_modulename :: jsstring
  wi_callbacks :: nat

record 'db ws =
  ws_heap :: "nat \<Rightarrow> nat list"
  ws_messageList :: "wsitem list"
  ws_msgqueue :: "(jsstring \<times> wsval) list"
  ws_msgqueueexcept :: "jsstring list"
  ws_msgqueueenabled :: bool
  ws_iscaching :: bool
  ws_isconnected :: bool
  ws_dbcaching :: bool
  ws_db :: "'db pcsqlite option"
  ws_last_cache_sent :: nat
  ws_log :: "ws_out list"

definition msg_outboxempty :: jsstring where "msg_outboxempty = js ''OUTBOXEMPTY''"
definition msg_recieved :: jsstring where "msg_recieved = js ''RECIEVED''"
definition msg_isconnected :: jsstring where "msg_isconnected = js ''ISCONNECTED''"
definition cache_delta_time :: nat where "cache_delta_time = 1000"

definition new_PCWebsocket :: "(nat \<Rightarrow> nat list) \<Rightarrow> bool \<Rightarrow> 'db ws" where
  "new_PCWebsocket h caching =
     \<lparr>ws_heap = h, ws_messageList = [], ws_msgqueue = [], ws_msgqueueexcept = [],
      ws_msgqueueenabled = False, ws_iscaching = caching, ws_isconnected = False,
      ws_dbcaching = False, ws_db = None, ws_last_cache_sent = 0, ws_log = []\<rparr>"

definition ws_emit :: "ws_out \<Rightarrow> 'db ws \<Rightarrow> 'db ws" where
  "ws_emit e s = s\<lparr>ws_log := ws_log s @ [e]\<rparr>"

definition flag_text :: "bool \<Rightarrow> wsval" where
  "flag_text b = WText (if b then [49] else [48])"

section \<open>Identifiers of cached messages\<close>

text \<open>The nearest double of a whole number, halves to the even significand: the exponent of the
  last place, then the rounding.\<close>

fun ulp_exp :: "nat \<Rightarrow> nat" where
  "ulp_exp n = (if n < 9007199254740992 then 0 else Suc (ulp_exp (n div 2)))"

declare ulp_exp.simps [simp del]

definition dbl :: "nat \<Rightarrow> nat" where
  "dbl n =
     (let u = 2 ^ ulp_exp n; q = n div u; r = n mod u
      in if 2 * r < u \<or> (2 * r = u \<and> even q) then q * u else (q + 1) * u)"

definition ws_dbid :: "nat \<Rightarrow> nat \<Rightarrow> nat" where
  "ws_dbid timestamp randidx = dbl (dbl (timestamp * 10000) + randidx)"

section \<open>Callbacks and the message queue\<close>

definition ws_handleMsg :: "wsitem \<Rightarrow> jsstring \<Rightarrow> wsval \<Rightarrow> 'db ws \<Rightarrow> 'db ws" where
  "ws_handleMsg it m d s =
     (if m = wi_messagename it
      then (if (ws_msgqueueenabled s \<and> m \<in> set (ws_msgqueueexcept s)) \<or> \<not> ws_msgqueueenabled s
            then fold (\<lambda>c. ws_emit (CallBack c m d)) (ws_heap s (wi_callbacks it)) s
            else s\<lparr>ws_msgqueue := ws_msgqueue s @ [(m, d)]\<rparr>)
      else s)"

definition ws_dispatch :: "jsstring \<Rightarrow> wsval \<Rightarrow> 'db ws \<Rightarrow> 'db ws" where
  "ws_dispatch m d s = fold (\<lambda>it. ws_handleMsg it m d) (ws_messageList s) s"

definition startMessageQueueing :: "jsstring list \<Rightarrow> 'db ws \<Rightarrow> 'db ws" where
  "startMessageQueueing whitelist s =
     s\<lparr>ws_msgqueueexcept := whitelist, ws_msgqueueenabled := True\<rparr>"

definition stopMessageQueueing :: "'db ws \<Rightarrow> 'db ws" where
  "stopMessageQueueing s =
     (let s1 = s\<lparr>ws_msgqueueenabled := False\<rparr>;
          s2 = fold (\<lambda>(m, d). ws_dispatch m d) (ws_msgqueue s1) s1
      in s2\<lparr>ws_msgqueue := []\<rparr>)"

definition ws_register :: "jsstring \<Rightarrow> jsstring \<Rightarrow> nat \<Rightarrow> 'db ws \<Rightarrow> 'db ws" where
  "ws_register name0 modname cb s =
     (let name = js_toUpperCase name0;
          same = (\<lambda>it. wi_messagename it = name \<and> wi_modulename it = modname);
          msgexist = list_ex same (ws_messageList s);
          s1 = s\<lparr>ws_messageList :=
                   map (\<lambda>it. if same it then it\<lparr>wi_callbacks := cb\<rparr> else it) (ws_messageList s)\<rparr>;
          it = \<lparr>wi_messagename = name, wi_modulename = modname, wi_callbacks = cb\<rparr>;
          s2 = (if msgexist then s1 else s1\<lparr>ws_messageList := ws_messageList s1 @ [it]\<rparr>)
      in if name = msg_isconnected \<and> \<not> msgexist
         then ws_handleMsg it name (flag_text (ws_isconnected s)) s2
         else s2)"

text \<open>The inner loop of \<open>deregister\<close>: \<open>p\<close> is the caller's array, \<open>r\<close> the registered one;
  they may be the same array, whose length is read again in every round.\<close>

function dereg_callbacks :: "nat \<Rightarrow> nat \<Rightarrow> nat \<Rightarrow> (nat \<Rightarrow> nat list) \<Rightarrow> (nat \<Rightarrow> nat list)" where
  "dereg_callbacks r p c h =
     (if c < length (h p)
      then dereg_callbacks r p (Suc c)
             (case js_indexOf (h r) (h p ! c) of
                None \<Rightarrow> h
              | Some i \<Rightarrow> h(r := splice_out (h r) i))
      else h)"
  by pat_completeness auto
termination
  by (relation "measure (\<lambda>(r, p, c, h). length (h p) - c)")
    (auto split: option.splits dest: js_indexOf_Some)

declare dereg_callbacks.simps [simp del]

text \<open>The outer loop: an entry left without callbacks is spliced out, and the index still moves
  on.\<close>

function dereg_items :: "jsstring \<Rightarrow> nat \<Rightarrow> nat \<Rightarrow> (nat \<Rightarrow> nat list) \<Rightarrow> wsitem list
    \<Rightarrow> (nat \<Rightarrow> nat list) \<times> wsitem list" where
  "dereg_items name p i h items =
     (if i < length items
      then (if wi_messagename (items ! i) = name
            then (let h1 = dereg_callbacks (wi_callbacks (items ! i)) p 0 h
                  in dereg_items name p (Suc i) h1
                       (if h1 (wi_callbacks (items ! i)) = [] then splice_out items i else items))
            else dereg_items name p (Suc i) h items)
      else (h, items))"
  by pat_completeness auto
termination
  by (relation "measure (\<lambda>(name, p, i, h, items). length items - i)") auto

declare dereg_items.simps [simp del]

definition ws_deregister :: "jsstring \<Rightarrow> nat \<Rightarrow> 'db ws \<Rightarrow> 'db ws" where
  "ws_deregister name0 p s =
     (if ws_messageList s = [] then s
      else let (h, items) = dereg_items (js_toUpperCase name0) p 0 (ws_heap s) (ws_messageList s)
           in s\<lparr>ws_heap := h, ws_messageList := items\<rparr>)"

section \<open>Sending\<close>

definition ws_sendmsg :: "wenv \<Rightarrow> wsval \<Rightarrow> wsval \<Rightarrow> wsval \<Rightarrow> 'db ws \<Rightarrow> tx \<times> 'db ws" where
  "ws_sendmsg env m d i s =
     (if ws_isconnected s
      then (let io = (if i = WText [] then None else Some i)
            in (env_tx env m d io, ws_emit (Transmit m d io) s))
      else (TxFalse, s))"

text \<open>\<open>this._db.executeSQL(...)\<close>; on \<open>null\<close> a TypeError.\<close>

definition ws_exec ::
  "'db engine \<Rightarrow> jsstring \<Rightarrow> wsval list \<Rightarrow> 'db ws \<Rightarrow> sql_result \<times> 'db ws" where
  "ws_exec eng q args s =
     (case ws_db s of
        None \<Rightarrow> (SqlThrow, s)
      | Some sq \<Rightarrow> (let (r, sq') = executeSQL eng q args sq in (r, s\<lparr>ws_db := Some sq'\<rparr>)))"

definition ws_col :: "sqlrow \<Rightarrow> jsstring \<Rightarrow> wsval" where
  "ws_col row k = (case map_of row k of None \<Rightarrow> WUndef | Some v \<Rightarrow> v)"

text \<open>\<open>_sendmsg(row[0]["msg"], row[0]["data"], row[0]["dbid"])\<close>.\<close>

definition ws_sendrow :: "wenv \<Rightarrow> sqlrow \<Rightarrow> 'db ws \<Rightarrow> tx \<times> 'db ws" where
  "ws_sendrow env row s =
     ws_sendmsg env (ws_col row (js ''msg'')) (ws_col row (js ''data''))
       (ws_col row (js ''dbid'')) s"

definition ws_send_cached :: "'db engine \<Rightarrow> wenv \<Rightarrow> 'db ws \<Rightarrow> 'db ws" where
  "ws_send_cached eng env s =
     (if ws_db s \<noteq> None \<and> ws_dbcaching s \<and>
         int (env_now env) - int (ws_last_cache_sent s) \<ge> int cache_delta_time
      then (case ws_exec eng getrowsql [] s of
              (SqlRows [row], s1) \<Rightarrow>
                (case ws_sendrow env row s1 of
                   (TxThrow, s2) \<Rightarrow> s2
                 | (_, s2) \<Rightarrow> s2\<lparr>ws_last_cache_sent := env_now env\<rparr>)
            | (_, s1) \<Rightarrow> s1)
      else s)"

datatype send_result = Sent bool | SendThrows

definition ws_send ::
  "'db engine \<Rightarrow> wenv \<Rightarrow> jsstring \<Rightarrow> wsval \<Rightarrow> bool \<Rightarrow> 'db ws \<Rightarrow> send_result \<times> 'db ws" where
  "ws_send eng env name d caching s =
     (let m = js_toUpperCase name in
      if ws_iscaching s \<and> caching
      then (let (sent, s1) =
                  (if ws_db s \<noteq> None \<and> ws_dbcaching s
                   then (case ws_exec eng insertrowsql
                            [WText (nat_to_string 10 (ws_dbid (env_now env) (env_rand env))), WText m, d] s of
                           (SqlThrow, s1) \<Rightarrow> (False, s1)
                         | (_, s1) \<Rightarrow> (True, s1))
                   else (False, s))
            in (Sent sent, ws_send_cached eng env s1))
      else (case ws_sendmsg env (WText m) d (WText []) s of
              (TxTrue, s1) \<Rightarrow> (Sent True, s1)
            | (TxFalse, s1) \<Rightarrow> (Sent False, s1)
            | (TxThrow, s1) \<Rightarrow> (SendThrows, s1)))"

text \<open>\<open>num[0].num == 0\<close> for what a \<open>count\<close> column can hold.\<close>

definition loose_zero :: "wsval \<Rightarrow> bool" where
  "loose_zero v \<longleftrightarrow> v = WNum 0 \<or> v = WText [] \<or> v = WText [48]"

definition ws_delete_cached :: "'db engine \<Rightarrow> wenv \<Rightarrow> wsval \<Rightarrow> 'db ws \<Rightarrow> 'db ws" where
  "ws_delete_cached eng env msgid s =
     (if ws_db s \<noteq> None \<and> ws_dbcaching s
      then (case ws_exec eng deleterowsql [msgid] s of
              (SqlThrow, s1) \<Rightarrow> s1
            | (_, s1) \<Rightarrow>
                (case ws_exec eng countcacheditemssql [] s1 of
                   (SqlRows (row # rows), s2) \<Rightarrow>
                     (if loose_zero (ws_col row (js ''num''))
                      then (case ws_send eng env msg_outboxempty (WText []) False s2 of
                              (SendThrows, s3) \<Rightarrow> s3
                            | (Sent b, s3) \<Rightarrow> s3\<lparr>ws_last_cache_sent := 0\<rparr>)
                      else s2\<lparr>ws_last_cache_sent := 0\<rparr>)
                 | (_, s2) \<Rightarrow> s2))
      else s)"

definition ws_spoolincoming ::
  "'db engine \<Rightarrow> wenv \<Rightarrow> jsstring \<Rightarrow> wsval \<Rightarrow> 'db ws \<Rightarrow> 'db ws" where
  "ws_spoolincoming eng env name d s =
     (let m = js_toUpperCase name;
          s1 = (if m = msg_recieved
                then ws_send_cached eng env (ws_delete_cached eng env d s)
                else s)
      in ws_dispatch m d s1)"

definition ws_timerfunc :: "'db engine \<Rightarrow> wenv \<Rightarrow> 'db ws \<Rightarrow> 'db ws" where
  "ws_timerfunc eng env s = ws_send_cached eng env s"

definition flushOutbox :: "'db engine \<Rightarrow> wenv \<Rightarrow> 'db ws \<Rightarrow> bool \<times> 'db ws" where
  "flushOutbox eng env s =
     (if ws_db s \<noteq> None \<and> ws_dbcaching s \<and> ws_isconnected s
      then (case ws_exec eng getrowsql [] s of
              (SqlRows [row], s1) \<Rightarrow>
                (case ws_sendrow env row s1 of
                   (TxThrow, s2) \<Rightarrow> (False, s2)
                 | (_, s2) \<Rightarrow> (True, s2\<lparr>ws_last_cache_sent := env_now env\<rparr>))
            | (_, s1) \<Rightarrow> (False, s1))
      else (False, s))"

text \<open>\<open>None\<close> is the TypeError of reading \<open>num[0]\<close>, or an exception of the statement.\<close>

definition checkOutboxEmpty :: "'db engine \<Rightarrow> 'db ws \<Rightarrow> bool option \<times> 'db ws" where
  "checkOutboxEmpty eng s =
     (if ws_db s = None then (Some False, s)
      else (case ws_exec eng countcacheditemssql [] s of
              (SqlRows (row # rows), s1) \<Rightarrow> (Some (loose_zero (ws_col row (js ''num''))), s1)
            | (_, s1) \<Rightarrow> (None, s1)))"

definition ws_isAllSaved :: "'db ws \<Rightarrow> bool" where
  "ws_isAllSaved s = (case ws_db s of None \<Rightarrow> False | Some sq \<Rightarrow> sq_isAllSaved sq)"

section \<open>Set-up, connection, reset\<close>

text \<open>The argument of \<open>initializeSQL\<close>: a database object, \<open>null\<close> (whose \<open>typeof\<close> is
  \<open>object\<close> too), or anything else.\<close>

datatype 'db db_arg = DbObject "'db pcsqlite" | DbNull | DbOther

definition initializeSQL :: "'db engine \<Rightarrow> 'db db_arg \<Rightarrow> 'db ws \<Rightarrow> bool \<times> 'db ws" where
  "initializeSQL eng arg s =
     (let s' = (case arg of
           DbOther \<Rightarrow> s\<lparr>ws_dbcaching := False\<rparr>
         | DbNull \<Rightarrow> s\<lparr>ws_db := None, ws_dbcaching := False\<rparr>
         | DbObject sq \<Rightarrow>
             (case ws_exec eng createtablesql [] (s\<lparr>ws_db := Some sq\<rparr>) of
                (SqlThrow, s1) \<Rightarrow> s1\<lparr>ws_dbcaching := False\<rparr>
              | (_, s1) \<Rightarrow> if ws_iscaching s1 then s1\<lparr>ws_dbcaching := True\<rparr> else s1))
      in (ws_dbcaching s', s'))"

text \<open>The setter; \<open>None\<close> is a value that is not a boolean.\<close>

definition set_isconnected :: "bool option \<Rightarrow> 'db ws \<Rightarrow> 'db ws" where
  "set_isconnected v s =
     (case v of
        None \<Rightarrow> s
      | Some b \<Rightarrow> ws_dispatch msg_isconnected (flag_text b)
          (ws_emit (ConnectionChanged b) (s\<lparr>ws_isconnected := b\<rparr>)))"

text \<open>\<open>reset\<close>: \<open>None\<close> when a statement throws.\<close>

definition ws_reset :: "'db engine \<Rightarrow> 'db ws \<Rightarrow> unit option \<times> 'db ws" where
  "ws_reset eng s0 =
     (let s = s0\<lparr>ws_messageList := []\<rparr> in
      case ws_db s of
        None \<Rightarrow> (Some (), s)
      | Some sq \<Rightarrow>
          (case sq_reset eng sq of
             (True, sq1) \<Rightarrow>
               (case ws_exec eng createtablesql [] (s\<lparr>ws_db := Some sq1\<rparr>) of
                  (SqlThrow, s1) \<Rightarrow> (None, s1) | (_, s1) \<Rightarrow> (Some (), s1))
           | (False, sq1) \<Rightarrow>
               (case ws_exec eng droptablesql [] (s\<lparr>ws_db := Some sq1\<rparr>) of
                  (SqlThrow, s1) \<Rightarrow> (None, s1)
                | (_, s1) \<Rightarrow>
                    (case ws_exec eng createtablesql [] s1 of
                       (SqlThrow, s2) \<Rightarrow> (None, s2) | (_, s2) \<Rightarrow> (Some (), s2)))))"

section \<open>What a message does to the callbacks\<close>

lemma ws_db_emit [simp]:
  "ws_db (ws_emit e s) = ws_db s" "ws_isconnected (ws_emit e s) = ws_isconnected s"
  "ws_dbcaching (ws_emit e s) = ws_dbcaching s" "ws_iscaching (ws_emit e s) = ws_iscaching s"
  "ws_last_cache_sent (ws_emit e s) = ws_last_cache_sent s"
  "ws_log (ws_emit e s) = ws_log s @ [e]"
  "ws_messageList (ws_emit e s) = ws_messageList s" "ws_heap (ws_emit e s) = ws_heap s"
  "ws_msgqueueenabled (ws_emit e s) = ws_msgqueueenabled s"
  "ws_msgqueueexcept (ws_emit e s) = ws_msgqueueexcept s"
  "ws_msgqueue (ws_emit e s) = ws_msgqueue s"
  by (simp_all add: ws_emit_def)

text \<open>What a message does to the callback side: calls in the order of registration, or one
  queue entry for every registration of its name.\<close>

definition ws_live :: "'db ws \<Rightarrow> jsstring \<Rightarrow> bool" where
  "ws_live s m \<longleftrightarrow> ws_msgqueueenabled s \<longrightarrow> m \<in> set (ws_msgqueueexcept s)"

definition deliveries ::
  "(nat \<Rightarrow> nat list) \<Rightarrow> wsitem list \<Rightarrow> jsstring \<Rightarrow> wsval \<Rightarrow> ws_out list" where
  "deliveries h its m d = concat (map (\<lambda>it. map (\<lambda>c. CallBack c m d) (h (wi_callbacks it)))
     (filter (\<lambda>it. wi_messagename it = m) its))"

lemma fold_emit:
  "fold (\<lambda>c. ws_emit (CallBack c m d)) cs s
     = s\<lparr>ws_log := ws_log s @ map (\<lambda>c. CallBack c m d) cs\<rparr>"
  by (induction cs arbitrary: s) (simp_all add: ws_emit_def)

lemma fold_handleMsg:
  "fold (\<lambda>it. ws_handleMsg it m d) its s =
     s\<lparr>ws_log := ws_log s @ (if ws_live s m then deliveries (ws_heap s) its m d else []),
       ws_msgqueue := ws_msgqueue s
         @ (if ws_live s m then [] else map (\<lambda>it. (m, d)) (filter (\<lambda>it. wi_messagename it = m) its))\<rparr>"
  by (induction its arbitrary: s)
    (auto simp: ws_handleMsg_def fold_emit ws_live_def deliveries_def)

lemmas dispatch_eq = fold_handleMsg [of m d "ws_messageList s" s for m d s, folded ws_dispatch_def]

lemma handleMsg_frame [simp]:
  "ws_db (ws_handleMsg it m d s) = ws_db s"
  "ws_dbcaching (ws_handleMsg it m d s) = ws_dbcaching s"
  "ws_iscaching (ws_handleMsg it m d s) = ws_iscaching s"
  using fold_handleMsg [of m d "[it]" s] by simp_all

lemma dispatch_frame [simp]:
  "ws_db (ws_dispatch m d s) = ws_db s" "ws_dbcaching (ws_dispatch m d s) = ws_dbcaching s"
  "ws_iscaching (ws_dispatch m d s) = ws_iscaching s"
  "ws_isconnected (ws_dispatch m d s) = ws_isconnected s"
  "ws_last_cache_sent (ws_dispatch m d s) = ws_last_cache_sent s"
  by (simp_all add: dispatch_eq)

text \<open>Working off a queue when queueing is off.\<close>

lemma fold_dispatch:
  "\<not> ws_msgqueueenabled s \<Longrightarrow>
   fold (\<lambda>(m, d). ws_dispatch m d) q s =
     s\<lparr>ws_log := ws_log s
         @ concat (map (\<lambda>(m, d). deliveries (ws_heap s) (ws_messageList s) m d) q)\<rparr>"
  by (induction q arbitrary: s) (auto simp: dispatch_eq ws_live_def)

lemma stop_eq:
  "stopMessageQueueing s =
     s\<lparr>ws_msgqueueenabled := False, ws_msgqueue := [], ws_log := ws_log s
         @ concat (map (\<lambda>(m, d). deliveries (ws_heap s) (ws_messageList s) m d) (ws_msgqueue s))\<rparr>"
  by (simp add: stopMessageQueueing_def Let_def fold_dispatch)

section \<open>Registration and deregistration\<close>

text \<open>The key of a registration.\<close>

definition wi_key :: "wsitem \<Rightarrow> jsstring \<times> jsstring" where
  "wi_key it = (wi_messagename it, wi_modulename it)"

lemma exec_frame [simp]:
  "ws_messageList (snd (ws_exec eng q args s)) = ws_messageList s"
  by (simp add: ws_exec_def split: option.splits prod.splits)

lemma ws_sendmsg_list [simp]:
  "ws_messageList (snd (ws_sendmsg env m d i s)) = ws_messageList s"
  by (simp add: ws_sendmsg_def Let_def)

lemma exec_list: "ws_exec eng q args s = (r, s') \<Longrightarrow> ws_messageList s' = ws_messageList s"
  by (metis exec_frame snd_conv)

lemma sendmsg_list: "ws_sendmsg env m d i s = (r, s') \<Longrightarrow> ws_messageList s' = ws_messageList s"
  by (metis ws_sendmsg_list snd_conv)

lemma sendrow_list: "ws_sendrow env row s = (r, s') \<Longrightarrow> ws_messageList s' = ws_messageList s"
  unfolding ws_sendrow_def by (rule sendmsg_list)

lemma send_cached_list [simp]: "ws_messageList (ws_send_cached eng env s) = ws_messageList s"
  by (auto simp: ws_send_cached_def split: prod.splits sql_result.splits list.splits tx.splits
      dest!: exec_list sendrow_list)

lemma send_list: "ws_send eng env m d c s = (r, s') \<Longrightarrow> ws_messageList s' = ws_messageList s"
  by (auto simp: ws_send_def Let_def split: prod.splits sql_result.splits tx.splits if_splits
      dest!: exec_list sendmsg_list)

lemma delete_cached_list [simp]:
  "ws_messageList (ws_delete_cached eng env v s) = ws_messageList s"
  by (auto simp: ws_delete_cached_def split: prod.splits sql_result.splits list.splits
      send_result.splits if_splits dest!: exec_list send_list)

lemma flush_list: "flushOutbox eng env s = (r, s') \<Longrightarrow> ws_messageList s' = ws_messageList s"
  by (auto simp: flushOutbox_def split: prod.splits sql_result.splits list.splits tx.splits if_splits
      dest!: exec_list sendrow_list)

lemma handleMsg_list [simp]: "ws_messageList (ws_handleMsg it m d s) = ws_messageList s"
  using fold_handleMsg [of m d "[it]" s] by simp

lemma distinct_splice_out: "distinct (map f xs) \<Longrightarrow> distinct (map f (splice_out xs i))"
proof -
  assume "distinct (map f xs)"
  then have d: "distinct (take i (map f xs) @ drop i (map f xs))" by simp
  have "set (drop (Suc i) (map f xs)) \<subseteq> set (drop i (map f xs))"
    by (simp add: set_drop_subset_set_drop)
  then have "distinct (take i (map f xs) @ drop (Suc i) (map f xs))"
    using d distinct_drop [of "map f xs" "Suc i"] \<open>distinct (map f xs)\<close>
    unfolding distinct_append by (auto simp del: drop_map take_map)
  then show ?thesis by (simp add: splice_out_def take_map drop_map)
qed

lemma dereg_items_distinct:
  "distinct (map wi_key items) \<Longrightarrow> distinct (map wi_key (snd (dereg_items name p i h items)))"
proof (induction name p i h items rule: dereg_items.induct)
  case (1 name p i h items)
  then show ?case
    by (subst dereg_items.simps) (simp add: Let_def distinct_splice_out)
qed

lemma register_distinct:
  "distinct (map wi_key (ws_messageList s)) \<Longrightarrow>
   distinct (map wi_key (ws_messageList (ws_register name md cb s)))"
proof -
  have keys: "wi_key \<circ> (\<lambda>it. if wi_messagename it = k \<and> wi_modulename it = md'
      then it\<lparr>wi_callbacks := cb\<rparr> else it) = wi_key" for k md'
    by (auto simp: fun_eq_iff wi_key_def)
  have key_eq: "wi_key it = (k, md') \<longleftrightarrow> wi_messagename it = k \<and> wi_modulename it = md'" for it k md'
    by (auto simp: wi_key_def)
  have key_eq': "(k, md') = wi_key it \<longleftrightarrow> wi_messagename it = k \<and> wi_modulename it = md'" for it k md'
    by (auto simp: wi_key_def)
  have new: "wi_key \<lparr>wi_messagename = k, wi_modulename = md', wi_callbacks = cb\<rparr> = (k, md')" for k md'
    by (simp add: wi_key_def)
  assume "distinct (map wi_key (ws_messageList s))"
  then show ?thesis
    by (auto simp: ws_register_def Let_def list_ex_iff keys new key_eq key_eq' image_iff)
qed

text \<open>Deregistering with another array removes the first occurrence of every listed callback;
  with the registered array itself every second callback stays.\<close>

fun odd_places :: "'a list \<Rightarrow> 'a list" where
  "odd_places [] = []"
| "odd_places [x] = []"
| "odd_places (x # y # zs) = y # odd_places zs"

lemma indexOf_in: "js_indexOf xs x = Some i \<Longrightarrow> x \<in> set xs"
  by (metis js_indexOf_None option.distinct(1))

lemma indexOf_notin: "x \<notin> set xs \<Longrightarrow> js_indexOf xs x = None"
  by simp

lemma indexOf_remove1:
  "(case js_indexOf xs x of None \<Rightarrow> xs | Some i \<Rightarrow> splice_out xs i) = remove1 x xs"
proof (induction xs)
  case (Cons a xs)
  then show ?case by (cases "js_indexOf xs x") (auto simp: splice_out_def indexOf_notin dest: indexOf_in)
qed simp

lemma indexOf_distinct: "x \<notin> set ks \<Longrightarrow> js_indexOf (ks @ x # xs) x = Some (length ks)"
  by (induction ks) auto

lemma dereg_other_gen:
  assumes "p \<noteq> r"
  shows "dereg_callbacks r p c h = h(r := fold remove1 (drop c (h p)) (h r))"
proof (induction "length (h p) - c" arbitrary: c h)
  case 0
  then show ?case by (simp add: dereg_callbacks.simps [of r p c h])
next
  case (Suc k)
  then have c: "c < length (h p)" by simp
  let ?h = "h(r := remove1 (h p ! c) (h r))"
  have step: "(case js_indexOf (h r) (h p ! c) of None \<Rightarrow> h
      | Some i \<Rightarrow> h(r := splice_out (h r) i)) = ?h"
    using indexOf_remove1 [of "h r" "h p ! c"]
    by (cases "js_indexOf (h r) (h p ! c)") (auto simp: fun_upd_idem_iff indexOf_notin dest: sym)
  have "k = length (?h p) - Suc c" using Suc.hyps(2) assms by simp
  from Suc.hyps(1) [of ?h "Suc c", OF this] show ?case
    using c assms by (simp add: dereg_callbacks.simps [of r p c h] step Cons_nth_drop_Suc [symmetric])
qed

lemma dereg_own_gen:
  "h r = ks @ xs \<Longrightarrow> distinct (h r) \<Longrightarrow>
   dereg_callbacks r r (length ks) h = h(r := ks @ odd_places xs)"
proof (induction xs arbitrary: ks h rule: odd_places.induct)
  case 1
  then show ?case by (subst dereg_callbacks.simps) auto
next
  case (2 x)
  then have step: "js_indexOf (h r) (h r ! length ks) = Some (length ks)"
    using indexOf_distinct [of x ks "[]"] by simp
  with 2 show ?case
    by (subst dereg_callbacks.simps)
      (simp add: splice_out_def dereg_callbacks.simps [of r r "Suc (length ks)"])
next
  case (3 x y zs)
  then have step: "js_indexOf (h r) (h r ! length ks) = Some (length ks)"
    using indexOf_distinct [of x ks "y # zs"] by simp
  let ?h = "h(r := ks @ y # zs)"
  have "dereg_callbacks r r (length (ks @ [y])) ?h = ?h(r := (ks @ [y]) @ odd_places zs)"
    using 3(2,3) by (intro 3(1)) auto
  with 3 step show ?case
    by (subst dereg_callbacks.simps) (simp add: splice_out_def)
qed

section \<open>Properties of the callback side\<close>

text \<open>Incoming messages while queueing, and while not.\<close>

definition listed :: "jsstring list \<Rightarrow> jsstring \<times> wsval \<Rightarrow> bool" where
  "listed whitelist = (\<lambda>(m, d). js_toUpperCase m \<in> set whitelist)"

lemma spool_queued:
  "ws_msgqueueenabled s \<Longrightarrow>
   \<forall>(m, d) \<in> set ms. js_toUpperCase m \<noteq> msg_recieved \<Longrightarrow>
   fold (\<lambda>(m, d). ws_spoolincoming eng env m d) ms s =
     s\<lparr>ws_log := ws_log s
         @ concat (map (\<lambda>(m, d). deliveries (ws_heap s) (ws_messageList s) (js_toUpperCase m) d)
             (filter (listed (ws_msgqueueexcept s)) ms)),
       ws_msgqueue := ws_msgqueue s
         @ concat (map (\<lambda>(m, d). map (\<lambda>it. (js_toUpperCase m, d))
             (filter (\<lambda>it. wi_messagename it = js_toUpperCase m) (ws_messageList s)))
             (filter (Not \<circ> listed (ws_msgqueueexcept s)) ms))\<rparr>"
  by (induction ms arbitrary: s)
    (auto simp: ws_spoolincoming_def Let_def dispatch_eq ws_live_def listed_def split: prod.splits)

lemma listed_nil [simp]: "listed [] = (\<lambda>_. False)"
  by (simp add: listed_def fun_eq_iff)

lemma spool_direct:
  "\<not> ws_msgqueueenabled s \<Longrightarrow>
   \<forall>(m, d) \<in> set ms. js_toUpperCase m \<noteq> msg_recieved \<Longrightarrow>
   fold (\<lambda>(m, d). ws_spoolincoming eng env m d) ms s =
     s\<lparr>ws_log := ws_log s
         @ concat (map (\<lambda>(m, d). deliveries (ws_heap s) (ws_messageList s) (js_toUpperCase m) d) ms)\<rparr>"
  by (induction ms arbitrary: s)
    (auto simp: ws_spoolincoming_def Let_def dispatch_eq ws_live_def split: prod.splits)

lemma concat_map_const: "concat (map f (map (\<lambda>x. y) xs)) = concat (replicate (length xs) (f y))"
  by (induction xs) auto

lemma queue_replayed:
  "concat (map (\<lambda>(m, d). deliveries h its m d)
      (concat (map (\<lambda>(m, d). map (\<lambda>it. (js_toUpperCase m, d))
        (filter (\<lambda>it. wi_messagename it = js_toUpperCase m) its)) ms)))
   = concat (map (\<lambda>(m, d). concat (replicate
        (length (filter (\<lambda>it. wi_messagename it = js_toUpperCase m) its))
        (deliveries h its (js_toUpperCase m) d))) ms)"
  by (induction ms) (auto simp: concat_map_const [unfolded map_map comp_def] comp_def)

text \<open>C40: a queue that is started and stopped around incoming messages calls the callbacks of
  a message as many times as the message has registrations: every registration put the message
  into the queue, and every entry is delivered to all registrations.\<close>

theorem queued_messages_multiplied:
  assumes "ws_msgqueue s = []" and "\<forall>(m, d) \<in> set ms. js_toUpperCase m \<noteq> msg_recieved"
  shows "ws_log (stopMessageQueueing (fold (\<lambda>(m, d). ws_spoolincoming eng env m d) ms
      (startMessageQueueing [] s)))
    = ws_log s @ concat (map (\<lambda>(m, d). concat (replicate
        (length (filter (\<lambda>it. wi_messagename it = js_toUpperCase m) (ws_messageList s)))
        (deliveries (ws_heap s) (ws_messageList s) (js_toUpperCase m) d))) ms)"
proof -
  have "fold (\<lambda>(m, d). ws_spoolincoming eng env m d) ms (startMessageQueueing [] s)
      = (startMessageQueueing [] s)\<lparr>ws_msgqueue := concat (map (\<lambda>(m, d). map (\<lambda>it. (js_toUpperCase m, d))
             (filter (\<lambda>it. wi_messagename it = js_toUpperCase m) (ws_messageList s))) ms)\<rparr>"
    using assms spool_queued [of "startMessageQueueing [] s" ms eng env]
    by (simp add: startMessageQueueing_def comp_def)
  then show ?thesis by (simp add: stop_eq startMessageQueueing_def queue_replayed)
qed

lemma distinct_filter_length:
  "distinct (map f xs) \<Longrightarrow> length (filter (\<lambda>x. f x = k) xs) \<le> 1"
proof (induction xs)
  case (Cons a xs)
  then have "f a = k \<Longrightarrow> filter (\<lambda>x. f x = k) xs = []"
    by (auto simp: filter_empty_conv rev_image_eqI)
  with Cons show ?case by auto
qed simp

text \<open>C14: as long as no message name is registered twice and \<open>RECIEVED\<close> is not among the messages, queueing
  with a whitelist, the messages and working the queue off end in the state of handling first the messages of
  the whitelist and then the others, each at once, both in their order: the same calls in the same order (and
  the whitelist is remembered). With an empty whitelist the queue only delays.\<close>

theorem queue_only_delays:
  assumes "distinct (map wi_messagename (ws_messageList s))" and "\<not> ws_msgqueueenabled s"
    and "ws_msgqueue s = []" and "\<forall>(m, d) \<in> set ms. js_toUpperCase m \<noteq> msg_recieved"
  shows "stopMessageQueueing (fold (\<lambda>(m, d). ws_spoolincoming eng env m d) ms
      (startMessageQueueing whitelist s))
    = (fold (\<lambda>(m, d). ws_spoolincoming eng env m d)
        (filter (\<lambda>(m, d). js_toUpperCase m \<in> set whitelist) ms @
         filter (\<lambda>(m, d). js_toUpperCase m \<notin> set whitelist) ms) s)\<lparr>ws_msgqueueexcept := whitelist\<rparr>"
proof -
  let ?n = "\<lambda>m. length (filter (\<lambda>it. wi_messagename it = js_toUpperCase m) (ws_messageList s))"
  let ?D = "\<lambda>m d. deliveries (ws_heap s) (ws_messageList s) (js_toUpperCase m) d"
  let ?now = "filter (listed whitelist) ms" and ?later = "filter (Not \<circ> listed whitelist) ms"
  have l: "(\<lambda>(m, d). js_toUpperCase m \<in> set whitelist) = listed whitelist"
    "(\<lambda>(m, d). js_toUpperCase m \<notin> set whitelist) = Not \<circ> listed whitelist"
    by (simp_all add: listed_def fun_eq_iff)
  have one: "concat (replicate (?n m) (?D m d)) = ?D m d" for m d
  proof (cases "?n m = 0")
    case True
    then have "?D m d = []" by (simp add: deliveries_def)
    with True show ?thesis by simp
  next
    case False
    then have "?n m = 1"
      using distinct_filter_length [OF assms(1), of "js_toUpperCase m"] by linarith
    then show ?thesis by simp
  qed
  have "fold (\<lambda>(m, d). ws_spoolincoming eng env m d) ms (startMessageQueueing whitelist s)
      = (startMessageQueueing whitelist s)\<lparr>ws_log := ws_log s @ concat (map (\<lambda>(m, d). ?D m d) ?now),
         ws_msgqueue := concat (map (\<lambda>(m, d). map (\<lambda>it. (js_toUpperCase m, d))
             (filter (\<lambda>it. wi_messagename it = js_toUpperCase m) (ws_messageList s))) ?later)\<rparr>"
    using assms spool_queued [of "startMessageQueueing whitelist s" ms eng env]
    by (simp add: startMessageQueueing_def)
  moreover have "\<forall>(m, d) \<in> set (?now @ ?later). js_toUpperCase m \<noteq> msg_recieved" using assms(4) by auto
  note spool_direct [OF assms(2) this, of eng env]
  ultimately show ?thesis
    using assms(2,3) unfolding l by (intro ws.equality)
      (simp_all add: stop_eq startMessageQueueing_def queue_replayed one)
qed

text \<open>the callback loop of \<open>deregister\<close> with an array of its own removes one occurrence of
  every listed callback; with the array that was registered it skips every second callback,
  because the array shrinks under the loop.\<close>

theorem deregister_callbacks:
  "(p \<noteq> r \<longrightarrow> dereg_callbacks r p 0 h r = fold remove1 (h p) (h r)) \<and>
   (distinct (h r) \<longrightarrow> dereg_callbacks r r 0 h r = odd_places (h r))"
  using dereg_other_gen [of p r 0 h] dereg_own_gen [of h r "[]" "h r"] by auto

text \<open>when an entry is left without callbacks and removed, \<open>deregister\<close> skips the entry
  after it: a second module that registered the same callback right after the first keeps it.\<close>

theorem deregister_skips_next:
  assumes "wi_messagename a = name" and "h (wi_callbacks a) = [c]" and "h p = [c]"
    and "p \<noteq> wi_callbacks a" and "\<forall>it \<in> set its. wi_messagename it \<noteq> name"
  shows "dereg_items name p 0 h (a # b # its) = (h(wi_callbacks a := []), b # its)"
proof -
  have rest: "dereg_items name p i h' xs = (h', xs)"
    if "\<forall>j. i \<le> j \<and> j < length xs \<longrightarrow> wi_messagename (xs ! j) \<noteq> name" for i h' xs
    using that
  proof (induction "length xs - i" arbitrary: i)
    case (Suc k)
    then show ?case by (subst dereg_items.simps) simp
  qed (subst dereg_items.simps, simp)
  have "wi_messagename ((b # its) ! j) \<noteq> name" if "1 \<le> j" "j < length (b # its)" for j
    using that assms(5) by (cases j) auto
  then have "dereg_items name p 1 (h(wi_callbacks a := [])) (b # its)
      = (h(wi_callbacks a := []), b # its)"
    by (intro rest) blast
  then show ?thesis
    using assms dereg_other_gen [of p "wi_callbacks a" 0 h]
    by (subst dereg_items.simps) (simp add: splice_out_def)
qed

lemma dbl_ulp1:
  "ulp_exp n = 1 \<Longrightarrow>
   dbl n = (if n mod 2 = 0 \<or> even (n div 2) then n div 2 * 2 else (n div 2 + 1) * 2)"
  by (auto simp: dbl_def Let_def)

lemma dbid_bound:
  assumes "900719925475 \<le> ts" "ts < 1801439850948" "r < 10000"
  shows "ws_dbid ts r = ts * 10000 + (if r mod 4 = 2 then r else 4 * ((r + 1) div 4))"
proof -
  have ulp: "ulp_exp n = 1" if "9007199254740992 \<le> n" "n < 18014398509481984" for n
  proof -
    have "n div 2 < 9007199254740992" using that by simp
    then show ?thesis using that by (simp add: ulp_exp.simps [of n] ulp_exp.simps [of "n div 2"])
  qed
  have base: "9007199254740992 \<le> ts * 10000" "ts * 10000 + r < 18014398509481984"
    using assms by linarith+
  have ulps: "ulp_exp (ts * 10000) = 1" "ulp_exp (ts * 10000 + r) = 1"
    by (rule ulp; use base in linarith)+
  have "even (ts * 10000)" by simp
  then have first: "dbl (ts * 10000) = ts * 10000"
    unfolding dbl_ulp1 [OF ulps(1)] by simp
  note sum = dbl_ulp1 [OF ulps(2)]
  obtain k where k: "ts * 10000 = 4 * k" by (rule that [of "ts * 2500"]) simp
  obtain q c where q: "r = 4 * q + c" "c < 4"
    by (rule that [of "r div 4" "r mod 4"]) simp_all
  have halves: "(ts * 10000 + r) div 2 = 2 * (k + q) + c div 2" "(ts * 10000 + r) mod 2 = c mod 2"
    unfolding k q(1) by presburger+
  have quarters: "r mod 4 = c" "(r + 1) div 4 = q + (c + 1) div 4"
    using q by presburger+
  have goal: "ws_dbid ts r = (if c mod 2 = 0 \<or> even (2 * (k + q) + c div 2)
      then (2 * (k + q) + c div 2) * 2 else (2 * (k + q) + c div 2 + 1) * 2)"
    unfolding ws_dbid_def first sum halves ..
  from q(2) consider "c = 0" | "c = 1" | "c = 2" | "c = 3" by linarith
  then show ?thesis
    unfolding goal quarters k by cases (simp_all add: q(1))
qed

text \<open>the identifiers of the years 1998 to 2027 (products between \<open>2 ^ 53\<close> and \<open>2 ^ 54\<close>): the
  sum of the scaled time and the random number is rounded to an even number, odd random
  numbers to the neighbouring multiple of four. So only every second of the ten thousand
  identifiers of a millisecond exists, and half of the random numbers fall on a quarter of
  them.\<close>

theorem dbid_precision:
  assumes "900719925475 \<le> ts" "ts < 1801439850948" "r < 10000"
  shows "ws_dbid ts r = ts * 10000 + (if r mod 4 = 2 then r else 4 * ((r + 1) div 4))"
  using assms by (rule dbid_bound)

section \<open>The properties at concrete states\<close>

definition sample_env :: wenv where
  "sample_env = \<lparr>env_now = 5000, env_rand = 3, env_tx = (\<lambda>m d i. TxTrue)\<rparr>"

definition sample_ws :: "outrow list \<Rightarrow> table ws" where
  "sample_ws rows = (new_PCWebsocket (\<lambda>i. [i]) True)\<lparr>ws_isconnected := True, ws_dbcaching := True,
     ws_db := Some ((new_PCSqlite True)\<lparr>sq_db := Some (Some rows), sq_dbloaded := True\<rparr>)\<rparr>"

lemma recieved_upper [simp]: "js_toUpperCase msg_recieved = msg_recieved"
  by (simp add: msg_recieved_def js_toUpperCase_def upper_units_def upper_unit_def)

lemma letter_not_recieved [simp]: "js_toUpperCase [c] \<noteq> msg_recieved"
  by (simp add: msg_recieved_def js_toUpperCase_def upper_units_def)

definition two_modules :: "wsitem list" where
  "two_modules = [\<lparr>wi_messagename = [65], wi_modulename = [49], wi_callbacks = 1\<rparr>,
     \<lparr>wi_messagename = [65], wi_modulename = [50], wi_callbacks = 2\<rparr>]"

theorem queued_messages_multiplied_witness:
  "ws_log (stopMessageQueueing (fold (\<lambda>(m, d). ws_spoolincoming table_engine sample_env m d)
      [([97], WText [])] (startMessageQueueing [] ((sample_ws [])\<lparr>ws_messageList := two_modules\<rparr>))))
    = [CallBack 1 [65] (WText []), CallBack 2 [65] (WText []),
       CallBack 1 [65] (WText []), CallBack 2 [65] (WText [])]"
  using queued_messages_multiplied [of "(sample_ws [])\<lparr>ws_messageList := two_modules\<rparr>"
      "[([97], WText [])]" table_engine sample_env]
  by (simp add: two_modules_def sample_ws_def new_PCWebsocket_def deliveries_def js_toUpperCase_def upper_units_def
      upper_unit_def msg_recieved_def)

theorem queue_only_delays_witness:
  "stopMessageQueueing (fold (\<lambda>(m, d). ws_spoolincoming table_engine sample_env m d)
      [([97], WText [49]), ([98], WText []), ([97], WText [50])]
      (startMessageQueueing [[66]] ((sample_ws [])\<lparr>ws_messageList := [hd two_modules]\<rparr>)))
    = (fold (\<lambda>(m, d). ws_spoolincoming table_engine sample_env m d)
        [([98], WText []), ([97], WText [49]), ([97], WText [50])]
        ((sample_ws [])\<lparr>ws_messageList := [hd two_modules]\<rparr>))\<lparr>ws_msgqueueexcept := [[66]]\<rparr>"
proof -
  let ?s = "(sample_ws [])\<lparr>ws_messageList := [hd two_modules]\<rparr>"
  let ?ms = "[([97], WText [49]), ([98], WText []), ([97], WText [50])]"
  have "js_toUpperCase [97] = [65]" "js_toUpperCase [98] = [66]"
    by (simp_all add: js_toUpperCase_def upper_units_def upper_unit_def)
  then have f: "filter (\<lambda>(m, d). js_toUpperCase m \<in> set [[66]]) ?ms @
      filter (\<lambda>(m, d). js_toUpperCase m \<notin> set [[66]]) ?ms =
      [([98], WText []), ([97], WText [49]), ([97], WText [50])]" by simp
  show ?thesis unfolding f [symmetric]
    by (rule queue_only_delays) (simp_all add: sample_ws_def new_PCWebsocket_def)
qed

theorem deregister_callbacks_witness:
  "dereg_callbacks 1 1 0 ((\<lambda>i. [])(1 := [10, 11, 12])) 1 = [11]"
  using deregister_callbacks [of 2 1 "(\<lambda>i. [])(1 := [10, 11, 12])"] by simp

theorem deregister_skips_next_witness:
  "dereg_items [65] 9 0 (\<lambda>i. [5]) two_modules = ((\<lambda>i. [5])(1 := []), [two_modules ! 1])"
  using deregister_skips_next [of "two_modules ! 0" "[65]" "\<lambda>i. [5]" 5 9 "[]" "two_modules ! 1"]
  by (simp add: two_modules_def)

theorem dbid_precision_witness:
  "ws_dbid 1753000000000 4999 = 17530000000005000"
  using dbid_precision [of 1753000000000 4999] by simp

end
