(* ===== verification/Outbox.thy ===== *)
theory Outbox
  imports Websocket
begin

text \<open>
  The outbox of the socket object, proved against the contract \<open>outbox_table\<close> of the SQL
  engine: the table refines a multiset of unacknowledged messages over all events, messages
  are kept until they are acknowledged, a working connection drains the outbox in the order of
  the identifiers, and the outbox survives a restart of the client together with the saves of
  theory Sqlite.
\<close>

section \<open>The outbox in the database\<close>

text \<open>The rows the socket's database holds, when it is open and has the table.\<close>

definition outbox_rows ::
  "('db \<Rightarrow> outrow multiset option) \<Rightarrow> 'db pcsqlite option \<Rightarrow> outrow multiset option" where
  "outbox_rows tbl dbo =
     (case dbo of
        None \<Rightarrow> None
      | Some sq \<Rightarrow> (case sq_db sq of
            None \<Rightarrow> None
          | Some db \<Rightarrow> if sq_dbloaded sq then tbl db else None))"

definition row_transmit :: "outrow \<Rightarrow> ws_out" where
  "row_transmit r = (case r of (n, m, d) \<Rightarrow> Transmit (WText m) (WText d) (Some (WNum (int n))))"

text \<open>Sending a row: nothing when there is no connection.\<close>

definition row_answer :: "wenv \<Rightarrow> outrow \<Rightarrow> tx" where
  "row_answer env r =
     (case r of (n, m, d) \<Rightarrow> env_tx env (WText m) (WText d) (Some (WNum (int n))))"

lemma ws_sendrow_object:
  "ws_sendrow env (row_object r) s =
     (if ws_isconnected s then (row_answer env r, ws_emit (row_transmit r) s) else (TxFalse, s))"
  by (cases r) (simp add: ws_sendrow_def ws_sendmsg_def row_object_def ws_col_def row_answer_def
      row_transmit_def Let_def)

lemma sq_autosave_db [simp]:
  "sq_db (sq_autosave eng q m) = sq_db m" "sq_dbloaded (sq_autosave eng q m) = sq_dbloaded m"
  by (simp_all add: sq_autosave_def)

lemma outbox_rows_Some:
  "outbox_rows tbl dbo = Some t \<longleftrightarrow>
     (\<exists>sq db. dbo = Some sq \<and> sq_db sq = Some db \<and> sq_dbloaded sq \<and> tbl db = Some t)"
  by (auto simp: outbox_rows_def split: option.splits if_splits)

lemma ws_exec_done:
  assumes "ws_db s = Some sq" "sq_db sq = Some db" "sq_dbloaded sq" "eng_prepare eng q db"
    and "eng_run eng q args db = SqlDone rows db'"
  shows "ws_exec eng q args s
    = (SqlRows rows, s\<lparr>ws_db := Some (sq_autosave eng q (sq\<lparr>sq_db := Some db'\<rparr>))\<rparr>)"
  using assms by (simp add: ws_exec_def executeSQL_def)

lemma ws_exec_select:
  assumes "ws_db s = Some sq" "sq_db sq = Some db" "sq_dbloaded sq" "eng_prepare eng q db"
    and "eng_run eng q args db = SqlDone rows db" and "is_select q"
  shows "ws_exec eng q args s = (SqlRows rows, s)"
  using assms by (simp add: ws_exec_def executeSQL_def sq_autosave_def pcsqlite_db_same)

context outbox_table begin

lemma exec_update:
  assumes rows: "outbox_rows tbl (ws_db s) = Some t"
    and q: "q \<in> {droptablesql, getrowsql, deleterowsql, insertrowsql, countcacheditemssql}"
    and run: "\<And>db. tbl db = Some t \<Longrightarrow>
      \<exists>db'. eng_run eng q args db = SqlDone rs db' \<and> tbl db' = Some t'"
  shows "\<exists>sq. ws_exec eng q args s = (SqlRows rs, s\<lparr>ws_db := Some sq\<rparr>) \<and>
    outbox_rows tbl (Some sq) = Some t'"
proof -
  from rows obtain sq db where db: "ws_db s = Some sq" "sq_db sq = Some db" "sq_dbloaded sq"
    "tbl db = Some t" by (auto simp: outbox_rows_Some)
  with run obtain db' where "eng_run eng q args db = SqlDone rs db'" "tbl db' = Some t'" by blast
  with db q show ?thesis
    using ws_exec_done [of s sq db eng q args rs db'] prepare_rows [OF q, of db]
    by (auto simp: outbox_rows_Some)
qed

lemma exec_insert:
  "outbox_rows tbl (ws_db s) = Some t \<Longrightarrow>
   \<exists>sq. ws_exec eng insertrowsql [WText (nat_to_string 10 n), WText m, WText d] s
      = (SqlRows [], s\<lparr>ws_db := Some sq\<rparr>) \<and>
    outbox_rows tbl (Some sq) = Some (add_mset (n, m, d) t)"
  by (rule exec_update) (auto intro: run_insert)

lemma exec_delete:
  "outbox_rows tbl (ws_db s) = Some t \<Longrightarrow> id_value v n \<Longrightarrow>
   \<exists>sq. ws_exec eng deleterowsql [v] s = (SqlRows [], s\<lparr>ws_db := Some sq\<rparr>) \<and>
    outbox_rows tbl (Some sq) = Some (filter_mset (\<lambda>r. fst r \<noteq> n) t)"
  by (rule exec_update) (auto intro: run_delete)

lemma exec_count:
  assumes "outbox_rows tbl (ws_db s) = Some t"
  shows "ws_exec eng countcacheditemssql [] s = (SqlRows [count_object (size t)], s)"
  using assms run_count prepare_rows [of countcacheditemssql]
  by (auto simp: outbox_rows_Some intro!: ws_exec_select)

lemma exec_getrow:
  assumes "outbox_rows tbl (ws_db s) = Some t" and "t \<noteq> {#}"
  shows "\<exists>r \<in># t. (\<forall>r' \<in># t. fst r \<le> fst r') \<and>
    ws_exec eng getrowsql [] s = (SqlRows [row_object r], s)"
proof -
  from assms(1) obtain sq db where db: "ws_db s = Some sq" "sq_db sq = Some db" "sq_dbloaded sq"
    "tbl db = Some t" by (auto simp: outbox_rows_Some)
  from run_getrow [OF db(4) assms(2)] obtain r where "r \<in># t" "\<forall>r' \<in># t. fst r \<le> fst r'"
    "eng_run eng getrowsql [] db = SqlDone [row_object r] db" by blast
  with db ws_exec_select [OF db(1-3), of eng getrowsql "[]"] prepare_rows [of getrowsql db]
  show ?thesis by auto
qed

lemma exec_getrow_empty:
  assumes "outbox_rows tbl (ws_db s) = Some {#}"
  shows "ws_exec eng getrowsql [] s = (SqlRows [], s)"
  using assms run_getrow_empty prepare_rows [of getrowsql]
  by (auto simp: outbox_rows_Some intro!: ws_exec_select)

text \<open>One attempt to send: nothing before the delay has passed or from an empty outbox,
  otherwise a row with the smallest identifier.\<close>

lemma send_cached_cases:
  assumes rows: "outbox_rows tbl (ws_db s) = Some t" and caching: "ws_dbcaching s"
  shows "(env_now env < ws_last_cache_sent s + cache_delta_time \<or> t = {#}) \<and>
      ws_send_cached eng env s = s
    \<or> ws_last_cache_sent s + cache_delta_time \<le> env_now env \<and>
      (\<exists>r \<in># t. (\<forall>r' \<in># t. fst r \<le> fst r') \<and>
        ws_send_cached eng env s =
          (if \<not> ws_isconnected s then s\<lparr>ws_last_cache_sent := env_now env\<rparr>
           else if row_answer env r = TxThrow then ws_emit (row_transmit r) s
           else (ws_emit (row_transmit r) s)\<lparr>ws_last_cache_sent := env_now env\<rparr>))"
proof (cases "ws_last_cache_sent s + cache_delta_time \<le> env_now env \<and> t \<noteq> {#}")
  case False
  then show ?thesis
    using rows caching exec_getrow_empty [of s] by (auto simp: ws_send_cached_def)
next
  case True
  with exec_getrow [OF rows] obtain r where r: "r \<in># t" "\<forall>r' \<in># t. fst r \<le> fst r'"
    "ws_exec eng getrowsql [] s = (SqlRows [row_object r], s)" by blast
  have "ws_db s \<noteq> None" using rows by (auto simp: outbox_rows_Some)
  with True r caching show ?thesis
    by (intro disjI2 conjI bexI [of _ r])
      (auto simp: ws_send_cached_def ws_sendrow_object split: tx.splits)
qed

end
section \<open>The outbox refines a multiset of unacknowledged messages\<close>

text \<open>What can happen to a socket object after set-up, with the environment of the moment.\<close>

datatype ws_event =
    EvSend jsstring wsval bool
  | EvIncoming jsstring wsval
  | EvConnected "bool option"
  | EvTimer
  | EvFlush
  | EvRegister jsstring jsstring nat
  | EvDeregister jsstring nat
  | EvStartQueue "jsstring list"
  | EvStopQueue

fun ws_apply :: "'db engine \<Rightarrow> wenv \<times> ws_event \<Rightarrow> 'db ws \<Rightarrow> 'db ws" where
  "ws_apply eng (env, EvSend m d c) s = snd (ws_send eng env m d c s)"
| "ws_apply eng (env, EvIncoming m d) s = ws_spoolincoming eng env m d s"
| "ws_apply eng (env, EvConnected v) s = set_isconnected v s"
| "ws_apply eng (env, EvTimer) s = ws_timerfunc eng env s"
| "ws_apply eng (env, EvFlush) s = snd (flushOutbox eng env s)"
| "ws_apply eng (env, EvRegister m md cb) s = ws_register m md cb s"
| "ws_apply eng (env, EvDeregister m p) s = ws_deregister m p s"
| "ws_apply eng (env, EvStartQueue w) s = startMessageQueueing w s"
| "ws_apply eng (env, EvStopQueue) s = stopMessageQueueing s"

text \<open>The abstract outbox: a cached send adds a message under its identifier, an
  acknowledgement removes the messages with the identifier it names, nothing else matters.\<close>

fun outbox_spec :: "wenv \<times> ws_event \<Rightarrow> outrow multiset \<Rightarrow> outrow multiset" where
  "outbox_spec (env, EvSend m (WText d) True) t =
     add_mset (ws_dbid (env_now env) (env_rand env), js_toUpperCase m, d) t"
| "outbox_spec (env, EvIncoming m v) t =
     (if js_toUpperCase m = msg_recieved then filter_mset (\<lambda>r. \<not> id_value v (fst r)) t else t)"
| "outbox_spec _ t = t"

text \<open>Data sent through the outbox is a string and an acknowledgement names an identifier.\<close>

fun outbox_event :: "ws_event \<Rightarrow> bool" where
  "outbox_event (EvSend m d c) = (c \<longrightarrow> (case d of WText x \<Rightarrow> True | _ \<Rightarrow> False))"
| "outbox_event (EvIncoming m v) =
     (js_toUpperCase m = msg_recieved \<longrightarrow>
        (case v of WNum i \<Rightarrow> 0 \<le> i
         | WText x \<Rightarrow> x = nat_to_string 10 (num_of_digits 10 x) | WUndef \<Rightarrow> False))"
| "outbox_event _ = True"

definition outbox_ready :: "('db \<Rightarrow> outrow multiset option) \<Rightarrow> 'db ws \<Rightarrow> outrow multiset \<Rightarrow> bool" where
  "outbox_ready tbl s t \<longleftrightarrow>
     outbox_rows tbl (ws_db s) = Some t \<and> ws_dbcaching s \<and> ws_iscaching s"

lemma outbox_event_ack:
  "outbox_event (EvIncoming m v) \<Longrightarrow> js_toUpperCase m = msg_recieved \<Longrightarrow> \<exists>n. id_value v n"
  by (cases v) (auto simp: id_value_def intro: exI [of _ "num_of_digits 10 s" for s]
      intro: nat_0_le [symmetric])

lemma id_value_filter:
  "id_value v n \<Longrightarrow> filter_mset (\<lambda>r. fst r \<noteq> n) t = filter_mset (\<lambda>r. \<not> id_value v (fst r)) (t :: outrow multiset)"
  by (intro filter_mset_cong refl) (use id_value_unique in blast)

context outbox_table begin

lemma send_cached_frame:
  assumes "outbox_ready tbl s t"
  shows "ws_db (ws_send_cached eng env s) = ws_db s \<and>
    ws_dbcaching (ws_send_cached eng env s) = ws_dbcaching s \<and>
    ws_iscaching (ws_send_cached eng env s) = ws_iscaching s \<and>
    ws_isconnected (ws_send_cached eng env s) = ws_isconnected s"
proof -
  have "outbox_rows tbl (ws_db s) = Some t" "ws_dbcaching s"
    using assms by (simp_all add: outbox_ready_def)
  from send_cached_cases [OF this, of env] show ?thesis
    by (elim disjE conjE bexE) simp_all
qed

lemma send_cached_ready:
  "outbox_ready tbl s t \<Longrightarrow> outbox_ready tbl (ws_send_cached eng env s) t"
  using send_cached_frame [of s t env] by (simp add: outbox_ready_def)

lemma sendmsg_frame:
  "ws_db (snd (ws_sendmsg env m d i s)) = ws_db s"
  "ws_dbcaching (snd (ws_sendmsg env m d i s)) = ws_dbcaching s"
  "ws_iscaching (snd (ws_sendmsg env m d i s)) = ws_iscaching s"
  by (simp_all add: ws_sendmsg_def Let_def)

lemma send_direct:
  "ws_send eng env m d False s =
     (case ws_sendmsg env (WText (js_toUpperCase m)) d (WText []) s of
        (TxTrue, s1) \<Rightarrow> (Sent True, s1)
      | (TxFalse, s1) \<Rightarrow> (Sent False, s1)
      | (TxThrow, s1) \<Rightarrow> (SendThrows, s1))"
  by (simp add: ws_send_def Let_def)

lemma send_direct_ready:
  "outbox_ready tbl s t \<Longrightarrow> outbox_ready tbl (snd (ws_send eng env m d False s)) t"
  using sendmsg_frame [of env "WText (js_toUpperCase m)" d "WText []" s]
  by (auto simp: send_direct outbox_ready_def split: prod.splits tx.splits)

lemma send_caching_eq:
  assumes "outbox_ready tbl s t"
  shows "\<exists>sq. ws_send eng env m (WText d) True s
      = (Sent True, ws_send_cached eng env (s\<lparr>ws_db := Some sq\<rparr>)) \<and>
    outbox_ready tbl (s\<lparr>ws_db := Some sq\<rparr>)
      (add_mset (ws_dbid (env_now env) (env_rand env), js_toUpperCase m, d) t)"
proof -
  let ?n = "ws_dbid (env_now env) (env_rand env)"
  from assms exec_insert [of s t ?n "js_toUpperCase m" d] obtain sq where sq:
    "ws_exec eng insertrowsql [WText (nat_to_string 10 ?n), WText (js_toUpperCase m), WText d] s
       = (SqlRows [], s\<lparr>ws_db := Some sq\<rparr>)"
    "outbox_rows tbl (Some sq) = Some (add_mset (?n, js_toUpperCase m, d) t)"
    by (auto simp: outbox_ready_def)
  have "ws_db s \<noteq> None" using assms by (auto simp: outbox_ready_def outbox_rows_Some)
  with assms sq show ?thesis by (intro exI [of _ sq]) (simp add: ws_send_def outbox_ready_def)
qed

lemma send_caching_ready:
  assumes "outbox_ready tbl s t"
  shows "outbox_ready tbl (snd (ws_send eng env m (WText d) True s))
    (add_mset (ws_dbid (env_now env) (env_rand env), js_toUpperCase m, d) t)"
    and "fst (ws_send eng env m (WText d) True s) = Sent True"
  using send_caching_eq [OF assms, of env m d] send_cached_ready by auto

text \<open>An acknowledgement: the rows with its identifier go, the empty outbox is announced, the
  next message may be sent at once.\<close>

lemma delete_cached:
  assumes ready: "outbox_ready tbl s t" and v: "id_value v n"
  defines "t' \<equiv> filter_mset (\<lambda>r. fst r \<noteq> n) t"
  shows "outbox_ready tbl (ws_delete_cached eng env v s) t'"
    and "\<exists>sq. outbox_rows tbl (Some sq) = Some t' \<and>
      ws_delete_cached eng env v s =
        (let s1 = s\<lparr>ws_db := Some sq\<rparr> in
         if t' \<noteq> {#} \<or> \<not> ws_isconnected s then s1\<lparr>ws_last_cache_sent := 0\<rparr>
         else let s2 = ws_emit (Transmit (WText msg_outboxempty) (WText []) None) s1 in
              if env_tx env (WText msg_outboxempty) (WText []) None = TxThrow then s2
              else s2\<lparr>ws_last_cache_sent := 0\<rparr>)"
proof -
  have up: "js_toUpperCase msg_outboxempty = msg_outboxempty"
    by (simp add: msg_outboxempty_def js_toUpperCase_def upper_units_def upper_unit_def)
  have db: "ws_db s \<noteq> None" "ws_dbcaching s" "ws_iscaching s" "outbox_rows tbl (ws_db s) = Some t"
    using ready by (auto simp: outbox_ready_def outbox_rows_Some)
  from exec_delete [OF db(4) v] obtain sq where sq:
    "ws_exec eng deleterowsql [v] s = (SqlRows [], s\<lparr>ws_db := Some sq\<rparr>)"
    "outbox_rows tbl (Some sq) = Some t'" by (auto simp: t'_def)
  let ?s1 = "s\<lparr>ws_db := Some sq\<rparr>"
  have count: "ws_exec eng countcacheditemssql [] ?s1 = (SqlRows [count_object (size t')], ?s1)"
    using exec_count [of ?s1 t'] sq by simp
  have zero: "loose_zero (ws_col (count_object (size t')) (js ''num'')) \<longleftrightarrow> t' = {#}"
    by (simp add: loose_zero_def ws_col_def count_object_def)
  have eq: "ws_delete_cached eng env v s =
        (let s1 = s\<lparr>ws_db := Some sq\<rparr> in
         if t' \<noteq> {#} \<or> \<not> ws_isconnected s then s1\<lparr>ws_last_cache_sent := 0\<rparr>
         else let s2 = ws_emit (Transmit (WText msg_outboxempty) (WText []) None) s1 in
              if env_tx env (WText msg_outboxempty) (WText []) None = TxThrow then s2
              else s2\<lparr>ws_last_cache_sent := 0\<rparr>)"
    using db sq(1) count zero
    by (cases "env_tx env (WText msg_outboxempty) (WText []) None")
      (auto simp: ws_delete_cached_def send_direct ws_sendmsg_def up Let_def)
  with sq(2) show "\<exists>sq. outbox_rows tbl (Some sq) = Some t' \<and>
      ws_delete_cached eng env v s =
        (let s1 = s\<lparr>ws_db := Some sq\<rparr> in
         if t' \<noteq> {#} \<or> \<not> ws_isconnected s then s1\<lparr>ws_last_cache_sent := 0\<rparr>
         else let s2 = ws_emit (Transmit (WText msg_outboxempty) (WText []) None) s1 in
              if env_tx env (WText msg_outboxempty) (WText []) None = TxThrow then s2
              else s2\<lparr>ws_last_cache_sent := 0\<rparr>)" by blast
  show "outbox_ready tbl (ws_delete_cached eng env v s) t'"
    using db sq(2) by (simp add: eq outbox_ready_def Let_def)
qed

lemma flush_ready:
  assumes "outbox_ready tbl s t"
  shows "outbox_ready tbl (snd (flushOutbox eng env s)) t"
proof (cases "ws_isconnected s \<and> t \<noteq> {#}")
  case True
  with exec_getrow [of s t] assms obtain r where
    "ws_exec eng getrowsql [] s = (SqlRows [row_object r], s)" by (auto simp: outbox_ready_def)
  with True assms show ?thesis
    by (auto simp: flushOutbox_def ws_sendrow_object outbox_ready_def split: tx.splits)
next
  case False
  with exec_getrow_empty [of s] assms show ?thesis
    by (auto simp: flushOutbox_def outbox_ready_def)
qed

lemma register_ready: "outbox_ready tbl s t \<Longrightarrow> outbox_ready tbl (ws_register m md cb s) t"
  by (simp add: ws_register_def Let_def outbox_ready_def)

lemma deregister_ready: "outbox_ready tbl s t \<Longrightarrow> outbox_ready tbl (ws_deregister m p s) t"
  by (simp add: ws_deregister_def outbox_ready_def split: prod.splits)

lemma connected_ready: "outbox_ready tbl s t \<Longrightarrow> outbox_ready tbl (set_isconnected v s) t"
  by (cases v) (simp_all add: set_isconnected_def outbox_ready_def)

lemma incoming_ready:
  assumes ready: "outbox_ready tbl s t" and ok: "outbox_event (EvIncoming m v)"
  shows "outbox_ready tbl (ws_spoolincoming eng env m v s) (outbox_spec (env, EvIncoming m v) t)"
proof (cases "js_toUpperCase m = msg_recieved")
  case True
  with outbox_event_ack [OF ok] obtain n where n: "id_value v n" by blast
  from send_cached_ready [OF delete_cached(1) [OF ready n]] True show ?thesis
    by (simp add: ws_spoolincoming_def Let_def outbox_ready_def id_value_filter [OF n])
next
  case False
  with ready show ?thesis by (simp add: ws_spoolincoming_def outbox_ready_def)
qed

lemma apply_ready:
  assumes ready: "outbox_ready tbl s t" and ok: "outbox_event ev"
  shows "outbox_ready tbl (ws_apply eng (env, ev) s) (outbox_spec (env, ev) t)"
proof (cases ev)
  case (EvSend m d c)
  with ready ok send_direct_ready send_caching_ready show ?thesis
    by (cases c; cases d) auto
qed (use ready ok incoming_ready send_cached_ready connected_ready flush_ready register_ready
    deregister_ready in \<open>auto simp: ws_timerfunc_def startMessageQueueing_def stop_eq outbox_ready_def\<close>)

lemma run_ready:
  "outbox_ready tbl s t \<Longrightarrow> \<forall>(env, ev) \<in> set es. outbox_event ev \<Longrightarrow>
   outbox_ready tbl (fold (ws_apply eng) es s) (fold outbox_spec es t)"
  by (induction es arbitrary: s t) (auto simp: apply_ready)

end
section \<open>Draining the outbox\<close>

definition is_transmit :: "ws_out \<Rightarrow> bool" where
  "is_transmit e = (case e of Transmit m d i \<Rightarrow> True | _ \<Rightarrow> False)"

definition ws_sent :: "'db ws \<Rightarrow> ws_out list" where
  "ws_sent s = filter is_transmit (ws_log s)"

lemma is_transmit_simps [simp]: "is_transmit (Transmit m d i)" "\<not> is_transmit (CallBack c n d)"
  by (simp_all add: is_transmit_def)

lemma deliveries_not_sent [simp]: "filter is_transmit (deliveries h its m d) = []"
  by (auto simp: filter_empty_conv deliveries_def is_transmit_def)

lemma row_transmit_sent [simp]: "is_transmit (row_transmit r)"
  by (simp add: is_transmit_def row_transmit_def split: prod.splits)

text \<open>The identifier of the last cached message the server has got, and a server that
  acknowledges it.\<close>

fun last_id :: "ws_out list \<Rightarrow> wsval option" where
  "last_id [] = None"
| "last_id (e # es) =
     (case last_id es of
        Some v \<Rightarrow> Some v
      | None \<Rightarrow> (case e of Transmit m d i \<Rightarrow> i | _ \<Rightarrow> None))"

definition server_ack :: "'db engine \<Rightarrow> wenv \<Rightarrow> 'db ws \<Rightarrow> 'db ws" where
  "server_ack eng env s =
     (case last_id (ws_log s) of
        None \<Rightarrow> s
      | Some v \<Rightarrow> ws_spoolincoming eng env msg_recieved v s)"

lemma last_id_append: "last_id (a @ b) = (case last_id b of Some v \<Rightarrow> Some v | None \<Rightarrow> last_id a)"
  by (induction a) (auto split: option.splits)

lemma last_id_deliveries [simp]: "last_id (deliveries h its m d) = None"
proof -
  have "\<forall>e \<in> set es. \<not> is_transmit e \<Longrightarrow> last_id es = None" for es
    by (induction es) (auto simp: is_transmit_def split: ws_out.splits)
  moreover have "\<forall>e \<in> set (deliveries h its m d). \<not> is_transmit e"
    by (auto simp: deliveries_def is_transmit_def)
  ultimately show ?thesis by blast
qed

lemma last_id_row [simp]:
  "(case row_transmit r of Transmit m d i \<Rightarrow> i | _ \<Rightarrow> None) = Some (WNum (int (fst r)))"
  by (cases r) (simp add: row_transmit_def)

text \<open>Every message reaches the server.\<close>

definition net_up :: "wenv \<Rightarrow> 'db ws \<Rightarrow> bool" where
  "net_up env s \<longleftrightarrow> ws_isconnected s \<and> cache_delta_time \<le> env_now env \<and>
     env_tx env = (\<lambda>m d i. TxTrue)"

context outbox_table begin

lemma send_cached_first:
  assumes ready: "outbox_ready tbl s (mset (r # rs))" and up: "net_up env s"
    and due: "ws_last_cache_sent s + cache_delta_time \<le> env_now env"
    and sorted: "sorted_wrt (\<lambda>a b. fst a < fst b) (r # rs)"
  shows "ws_send_cached eng env s
    = (ws_emit (row_transmit r) s)\<lparr>ws_last_cache_sent := env_now env\<rparr>"
proof -
  have "outbox_rows tbl (ws_db s) = Some (mset (r # rs))" "ws_dbcaching s"
    using ready by (simp_all add: outbox_ready_def)
  from send_cached_cases [OF this, of env]
  have "\<exists>r' \<in># mset (r # rs). (\<forall>x \<in># mset (r # rs). fst r' \<le> fst x) \<and>
    ws_send_cached eng env s =
       (if \<not> ws_isconnected s then s\<lparr>ws_last_cache_sent := env_now env\<rparr>
        else if row_answer env r' = TxThrow then ws_emit (row_transmit r') s
        else (ws_emit (row_transmit r') s)\<lparr>ws_last_cache_sent := env_now env\<rparr>)"
    using due by (elim disjE conjE) simp_all
  then obtain r' where r':
    "r' \<in># mset (r # rs)" "\<forall>x \<in># mset (r # rs). fst r' \<le> fst x"
    "ws_send_cached eng env s =
       (if \<not> ws_isconnected s then s\<lparr>ws_last_cache_sent := env_now env\<rparr>
        else if row_answer env r' = TxThrow then ws_emit (row_transmit r') s
        else (ws_emit (row_transmit r') s)\<lparr>ws_last_cache_sent := env_now env\<rparr>)"
    by blast
  then have "fst r' \<le> fst r" by simp
  with r'(1) sorted have "r' = r" by auto
  with r'(3) up show ?thesis by (simp add: net_up_def row_answer_def split: prod.splits)
qed

lemma ack_first:
  assumes ready: "outbox_ready tbl s (mset (r # rs))" and up: "net_up env s"
    and sorted: "sorted_wrt (\<lambda>a b. fst a < fst b) (r # rs)"
    and got: "last_id (ws_log s) = Some (WNum (int (fst r)))"
  shows "outbox_ready tbl (server_ack eng env s) (mset rs)"
    and "net_up env (server_ack eng env s)"
    and "ws_sent (server_ack eng env s) = ws_sent s
      @ [case rs of [] \<Rightarrow> Transmit (WText msg_outboxempty) (WText []) None | r' # _ \<Rightarrow> row_transmit r']"
    and "rs \<noteq> [] \<Longrightarrow> last_id (ws_log (server_ack eng env s)) = Some (WNum (int (fst (hd rs))))"
proof -
  let ?v = "WNum (int (fst r))"
  have v: "id_value ?v (fst r)" by (simp add: id_value_def)
  have rest: "filter_mset (\<lambda>x. fst x \<noteq> fst r) (mset (r # rs)) = mset rs"
    using sorted by (auto simp: filter_mset_eq_conv intro: multiset_eqI)
  let ?d = "ws_delete_cached eng env ?v s"
  have upm: "js_toUpperCase msg_recieved = msg_recieved"
    by (simp add: msg_recieved_def js_toUpperCase_def upper_units_def upper_unit_def)
  have ack: "server_ack eng env s = ws_dispatch msg_recieved ?v (ws_send_cached eng env ?d)"
    using got by (simp add: server_ack_def ws_spoolincoming_def upm)
  have d_ready: "outbox_ready tbl ?d (mset rs)"
    using delete_cached(1) [OF ready v, of env] unfolding rest .
  from delete_cached(2) [OF ready v, of env, unfolded rest] obtain sq where d:
    "?d = (if rs \<noteq> [] then s\<lparr>ws_db := Some sq, ws_last_cache_sent := 0\<rparr>
       else (ws_emit (Transmit (WText msg_outboxempty) (WText []) None)
               (s\<lparr>ws_db := Some sq\<rparr>))\<lparr>ws_last_cache_sent := 0\<rparr>)"
    using up by (cases "rs = []") (auto simp: net_up_def Let_def)
  have sc: "ws_send_cached eng env ?d =
      (case rs of [] \<Rightarrow> ?d
       | r' # _ \<Rightarrow> (ws_emit (row_transmit r') ?d)\<lparr>ws_last_cache_sent := env_now env\<rparr>)"
  proof (cases rs)
    case Nil
    with d_ready have "outbox_rows tbl (ws_db ?d) = Some {#}" "ws_dbcaching ?d"
      by (simp_all add: outbox_ready_def)
    from send_cached_cases [OF this, of env] Nil show ?thesis by auto
  next
    case (Cons r' rs')
    have "net_up env ?d" "ws_last_cache_sent ?d = 0" using up d Cons by (simp_all add: net_up_def)
    with d_ready sorted Cons up show ?thesis
      using send_cached_first [of ?d r' rs' env] by (simp add: net_up_def)
  qed
  show "outbox_ready tbl (server_ack eng env s) (mset rs)"
    using send_cached_ready [OF d_ready, of env] by (simp add: ack outbox_ready_def)
  note fin = ack [unfolded sc]
  show "net_up env (server_ack eng env s)"
    using up by (cases rs) (simp_all add: fin d net_up_def)
  show "ws_sent (server_ack eng env s) = ws_sent s
      @ [case rs of [] \<Rightarrow> Transmit (WText msg_outboxempty) (WText []) None | r' # _ \<Rightarrow> row_transmit r']"
    by (cases rs) (auto simp: fin d dispatch_eq ws_sent_def)
  show "rs \<noteq> [] \<Longrightarrow> last_id (ws_log (server_ack eng env s)) = Some (WNum (int (fst (hd rs))))"
    by (cases rs) (auto simp: fin d dispatch_eq last_id_append)
qed

lemma acks_drain:
  assumes "outbox_ready tbl s (mset (r # rs))" and "net_up env s"
    and "sorted_wrt (\<lambda>a b. fst a < fst b) (r # rs)"
    and "last_id (ws_log s) = Some (WNum (int (fst r)))"
  shows "outbox_ready tbl ((server_ack eng env ^^ length (r # rs)) s) {#} \<and>
    ws_sent ((server_ack eng env ^^ length (r # rs)) s) = ws_sent s @ map row_transmit rs
      @ [Transmit (WText msg_outboxempty) (WText []) None]"
  using assms
proof (induction rs arbitrary: r s)
  case Nil
  from ack_first [OF Nil] show ?case by simp
next
  case (Cons r' rs)
  note step = ack_first [OF Cons.prems]
  have "outbox_ready tbl ((server_ack eng env ^^ length (r' # rs)) (server_ack eng env s)) {#} \<and>
    ws_sent ((server_ack eng env ^^ length (r' # rs)) (server_ack eng env s))
      = ws_sent (server_ack eng env s) @ map row_transmit rs
        @ [Transmit (WText msg_outboxempty) (WText []) None]"
    using step Cons.prems(3) by (intro Cons.IH) auto
  moreover have "(server_ack eng env ^^ length (r # r' # rs)) s
      = (server_ack eng env ^^ length (r' # rs)) (server_ack eng env s)"
    by (simp only: length_Cons [of r] funpow.simps(2) funpow_swap1 comp_apply)
  ultimately show ?case using step(3) by simp
qed

lemma timer_drains:
  assumes ready: "outbox_ready tbl s (mset rs)" and "rs \<noteq> []" and up: "net_up env s"
    and sorted: "sorted_wrt (\<lambda>a b. fst a < fst b) rs"
    and due: "ws_last_cache_sent s + cache_delta_time \<le> env_now env"
  shows "outbox_ready tbl ((server_ack eng env ^^ length rs) (ws_timerfunc eng env s)) {#} \<and>
    ws_sent ((server_ack eng env ^^ length rs) (ws_timerfunc eng env s))
      = ws_sent s @ map row_transmit rs @ [Transmit (WText msg_outboxempty) (WText []) None]"
proof -
  from assms(2) obtain r rs' where rs: "rs = r # rs'" by (cases rs) auto
  have first: "ws_timerfunc eng env s = (ws_emit (row_transmit r) s)\<lparr>ws_last_cache_sent := env_now env\<rparr>"
    using send_cached_first [of s r rs' env] assms rs by (simp add: ws_timerfunc_def)
  have "ws_sent (ws_timerfunc eng env s) = ws_sent s @ [row_transmit r]"
    by (simp add: first ws_sent_def)
  moreover have "outbox_ready tbl (ws_timerfunc eng env s) (mset (r # rs'))"
    using send_cached_ready [OF ready] rs by (simp add: ws_timerfunc_def)
  moreover have "net_up env (ws_timerfunc eng env s)" using up by (simp add: first net_up_def)
  moreover have "last_id (ws_log (ws_timerfunc eng env s)) = Some (WNum (int (fst r)))"
    by (simp add: first last_id_append)
  ultimately show ?thesis
    using acks_drain [of "ws_timerfunc eng env s" r rs' env] sorted rs by simp
qed

end

section \<open>The events keep the registrations\<close>

lemma apply_distinct:
  assumes "distinct (map wi_key (ws_messageList s))"
  shows "distinct (map wi_key (ws_messageList (ws_apply eng (env, ev) s)))"
proof (cases ev)
  case (EvSend m d c)
  then show ?thesis using assms by (cases "ws_send eng env m d c s") (auto dest: send_list)
next
  case EvFlush
  then show ?thesis using assms by (cases "flushOutbox eng env s") (auto dest: flush_list)
next
  case (EvDeregister m p)
  then show ?thesis
    using assms dereg_items_distinct [of "ws_messageList s" "js_toUpperCase m" p 0 "ws_heap s"]
    by (auto simp: ws_deregister_def split: prod.splits)
qed (use assms in \<open>simp_all add: ws_spoolincoming_def Let_def dispatch_eq set_isconnected_def
    ws_timerfunc_def register_distinct startMessageQueueing_def stop_eq split: option.splits\<close>)

section \<open>Properties\<close>

text \<open>C2: the outbox of the database refines a multiset of unacknowledged messages: over every
  sequence of sends, incoming messages, connection changes, timer ticks, flushes,
  registrations and queueing, the rows of the table are exactly the cached messages that were
  added and whose identifier no acknowledgement has named, whatever \<open>wstransmit\<close> answers and
  whether or not there is a connection.\<close>

theorem outbox_refines:
  assumes "outbox_table eng tbl" and "outbox_ready tbl s t"
    and "\<forall>(env, ev) \<in> set es. outbox_event ev"
  shows "outbox_ready tbl (fold (ws_apply eng) es s) (fold outbox_spec es t)"
  using outbox_table.run_ready [OF assms(1,2,3)] .

lemma spec_keeps:
  "r \<in># t \<Longrightarrow>
   \<forall>(env, ev) \<in> set es. \<forall>m v. ev = EvIncoming m v \<longrightarrow> js_toUpperCase m = msg_recieved
     \<longrightarrow> \<not> id_value v (fst r) \<Longrightarrow>
   r \<in># fold outbox_spec es t"
proof (induction es arbitrary: t)
  case (Cons e es)
  obtain env ev where e: "e = (env, ev)" by (cases e)
  have "r \<in># outbox_spec (env, ev) t"
  proof (cases ev)
    case (EvSend m d c)
    with Cons.prems(1) show ?thesis by (cases c; cases d) auto
  qed (use Cons.prems e in auto)
  with Cons show ?case by (simp add: e)
qed simp

text \<open>C12: a message sent with caching is in the outbox as soon as \<open>send\<close> returns, which then
  returns true, and stays there through every later sequence of events in which no
  acknowledgement names its identifier: it cannot be lost, whatever the connection does.\<close>

theorem cached_message_kept:
  assumes "outbox_table eng tbl" and "outbox_ready tbl s t"
    and "\<forall>(env, ev) \<in> set es. outbox_event ev"
    and "\<forall>(env, ev) \<in> set es. \<forall>m v. ev = EvIncoming m v \<longrightarrow> js_toUpperCase m = msg_recieved
      \<longrightarrow> \<not> id_value v (ws_dbid (env_now e0) (env_rand e0))"
  shows "fst (ws_send eng e0 name (WText d) True s) = Sent True \<and>
    (\<exists>t'. outbox_ready tbl (fold (ws_apply eng) es (snd (ws_send eng e0 name (WText d) True s))) t' \<and>
       (ws_dbid (env_now e0) (env_rand e0), js_toUpperCase name, d) \<in># t')"
proof -
  note sent = outbox_table.send_caching_ready [OF assms(1,2), of e0 name d]
  let ?r = "(ws_dbid (env_now e0) (env_rand e0), js_toUpperCase name, d)"
  have "?r \<in># fold outbox_spec es (add_mset ?r t)"
    by (rule spec_keeps) (use assms(4) in auto)
  with outbox_table.run_ready [OF assms(1) sent(1) assms(3)] sent(2) show ?thesis by blast
qed

text \<open>C11: an outbox with a working connection drains: one timer tick after the delay sends the
  first message, every acknowledgement of the last message sent brings the next one at once,
  and after as many acknowledgements as there are messages the outbox is empty; the server got
  each message once, in the order of the identifiers, and then \<open>OUTBOXEMPTY\<close>.\<close>

theorem outbox_drains:
  assumes "outbox_table eng tbl" and "outbox_ready tbl s (mset rs)" and "rs \<noteq> []"
    and "net_up env s" and "sorted_wrt (\<lambda>a b. fst a < fst b) rs"
    and "ws_last_cache_sent s + cache_delta_time \<le> env_now env"
  shows "outbox_ready tbl ((server_ack eng env ^^ length rs) (ws_timerfunc eng env s)) {#} \<and>
    ws_sent ((server_ack eng env ^^ length rs) (ws_timerfunc eng env s))
      = ws_sent s @ map row_transmit rs @ [Transmit (WText msg_outboxempty) (WText []) None]"
  using outbox_table.timer_drains [OF assms] .

text \<open>two cached messages with the same identifier (the same millisecond and the same random
  number) share their fate: the acknowledgement of the first removes both, the outbox is
  announced as empty, and the second is lost although the server never got it.\<close>

theorem equal_ids_lost:
  assumes table: "outbox_table eng tbl" and ready: "outbox_ready tbl s {#}" and up: "net_up env s"
    and due: "ws_last_cache_sent s + cache_delta_time \<le> env_now env"
  defines "n \<equiv> ws_dbid (env_now env) (env_rand env)"
  shows "outbox_ready tbl
      (fold (ws_apply eng) [(env, EvSend m1 (WText d1) True), (env, EvSend m2 (WText d2) True),
         (env, EvIncoming msg_recieved (WNum (int n)))] s) {#} \<and>
    ws_sent
      (fold (ws_apply eng) [(env, EvSend m1 (WText d1) True), (env, EvSend m2 (WText d2) True),
         (env, EvIncoming msg_recieved (WNum (int n)))] s)
      = ws_sent s @ [row_transmit (n, js_toUpperCase m1, d1),
          Transmit (WText msg_outboxempty) (WText []) None]"
proof -
  have upm: "js_toUpperCase msg_recieved = msg_recieved"
    by (simp add: msg_recieved_def js_toUpperCase_def upper_units_def upper_unit_def)
  let ?r1 = "(n, js_toUpperCase m1, d1)" and ?r2 = "(n, js_toUpperCase m2, d2)"
  let ?s1 = "snd (ws_send eng env m1 (WText d1) True s)"
  let ?s2 = "snd (ws_send eng env m2 (WText d2) True ?s1)"
  let ?s3 = "ws_spoolincoming eng env msg_recieved (WNum (int n)) ?s2"
  obtain sq1 where s1: "?s1 = ws_send_cached eng env (s\<lparr>ws_db := Some sq1\<rparr>)"
    "outbox_ready tbl (s\<lparr>ws_db := Some sq1\<rparr>) (mset [?r1])"
    using outbox_table.send_caching_eq [OF table ready, of env m1 d1] by (auto simp: n_def)
  have e1: "?s1 = (ws_emit (row_transmit ?r1) (s\<lparr>ws_db := Some sq1\<rparr>))\<lparr>ws_last_cache_sent := env_now env\<rparr>"
    unfolding s1(1) using s1(2) up due
    by (intro outbox_table.send_cached_first [OF table, where rs = "[]"]) (simp_all add: net_up_def)
  have r1: "outbox_ready tbl ?s1 (mset [?r1])"
    unfolding s1(1) by (rule outbox_table.send_cached_ready [OF table s1(2)])
  obtain sq2 where s2: "?s2 = ws_send_cached eng env (?s1\<lparr>ws_db := Some sq2\<rparr>)"
    "outbox_ready tbl (?s1\<lparr>ws_db := Some sq2\<rparr>) (mset [?r2, ?r1])"
    using outbox_table.send_caching_eq [OF table r1, of env m2 d2] by (auto simp: n_def)
  have e2: "?s2 = ?s1\<lparr>ws_db := Some sq2\<rparr>"
    unfolding s2(1) by (simp add: e1 ws_send_cached_def cache_delta_time_def)
  have r2: "outbox_ready tbl ?s2 (mset [?r2, ?r1])" using s2(2) by (simp add: e2)
  let ?v = "WNum (int n)"
  have v: "id_value ?v n" by (simp add: id_value_def)
  let ?d = "ws_delete_cached eng env ?v ?s2"
  have rd: "outbox_ready tbl ?d {#}"
    using outbox_table.delete_cached(1) [OF table r2 v, of env] by simp
  have f1: "ws_isconnected ?s1" "ws_log ?s1 = ws_log s @ [row_transmit ?r1]"
    using up unfolding e1 by (simp_all add: net_up_def)
  have f2: "ws_isconnected ?s2" "ws_log ?s2 = ws_log s @ [row_transmit ?r1]"
    using f1 unfolding e2 by simp_all
  have sd: "ws_sent ?d = ws_sent ?s2 @ [Transmit (WText msg_outboxempty) (WText []) None]"
    using outbox_table.delete_cached(2) [OF table r2 v, of env] up
    by (auto simp: f2 net_up_def ws_sent_def Let_def)
  have "ws_send_cached eng env ?d = ?d"
    using outbox_table.send_cached_cases [OF table, of ?d "{#}" env] rd
    by (auto simp: outbox_ready_def)
  then have s3: "?s3 = ws_dispatch msg_recieved ?v ?d"
    by (simp add: ws_spoolincoming_def upm)
  have "outbox_ready tbl ?s3 {#}" using rd by (simp add: s3 outbox_ready_def)
  moreover have "ws_sent ?s3 = ws_sent s @ [row_transmit ?r1, Transmit (WText msg_outboxempty) (WText []) None]"
    using sd f2(2) by (simp add: s3 ws_sent_def dispatch_eq)
  ultimately show ?thesis by simp
qed

text \<open>no event registers a pair of message name and module twice.\<close>

theorem registrations_unique:
  assumes "distinct (map wi_key (ws_messageList s))"
  shows "distinct (map wi_key (ws_messageList (fold (ws_apply eng) es s)))"
  using assms
proof (induction es arbitrary: s)
  case (Cons e es)
  obtain env ev where "e = (env, ev)" by (cases e)
  with Cons apply_distinct [OF Cons.prems, of eng env ev] show ?case by simp
qed simp

text \<open>the return value of a cached send does not say that the message is stored: it is true
  when the database object answers \<open>null\<close> because it is not open, and true when the insert
  failed and was only logged.\<close>

theorem send_true_without_row:
  assumes "ws_iscaching s" "ws_dbcaching s" "ws_db s = Some sq"
    and "sq_db sq = None \<or> \<not> sq_dbloaded sq \<or>
      (\<exists>db r. sq_db sq = Some db \<and> sq_dbloaded sq \<and> eng_prepare eng insertrowsql db \<and>
         eng_run eng insertrowsql
           [WText (nat_to_string 10 (ws_dbid (env_now env) (env_rand env))),
            WText (js_toUpperCase name), d] db = SqlFail (Some r) db)"
  shows "fst (ws_send eng env name d True s) = Sent True \<and>
    (\<exists>sq'. snd (ws_send eng env name d True s) = ws_send_cached eng env (s\<lparr>ws_db := Some sq'\<rparr>) \<and>
       sq_db sq' = sq_db sq)"
proof -
  let ?args = "[WText (nat_to_string 10 (ws_dbid (env_now env) (env_rand env))),
            WText (js_toUpperCase name), d]"
  have "\<exists>res sq'. ws_exec eng insertrowsql ?args s = (res, s\<lparr>ws_db := Some sq'\<rparr>) \<and>
      res \<noteq> SqlThrow \<and> sq_db sq' = sq_db sq"
    using assms(3,4) by (elim disjE exE) (auto simp: ws_exec_def executeSQL_def split: option.splits)
  then obtain res sq' where "ws_exec eng insertrowsql ?args s = (res, s\<lparr>ws_db := Some sq'\<rparr>)"
    "res \<noteq> SqlThrow" "sq_db sq' = sq_db sq" by blast
  with assms(1-3) show ?thesis
    by (cases res) (auto simp: ws_send_def Let_def)
qed
text \<open>two messages cached in one millisecond leave in the order of their random numbers, not
  in the order they were sent: with a smaller random number the later one is sent first.\<close>

theorem same_millisecond_reordered:
  assumes "outbox_table eng tbl" and "outbox_ready tbl s (mset [r1, r2])" and "net_up env s"
    and "ws_last_cache_sent s + cache_delta_time \<le> env_now env"
    and "r1 = (ws_dbid ts 7, m1, d1)" and "r2 = (ws_dbid ts 2, m2, d2)"
    and "900719925475 \<le> ts" "ts < 1801439850948"
  shows "ws_sent (ws_timerfunc eng env s) = ws_sent s @ [row_transmit r2]"
proof -
  have ids: "ws_dbid ts 7 = ts * 10000 + 8" "ws_dbid ts 2 = ts * 10000 + 2"
    using dbid_bound [of ts 7] dbid_bound [of ts 2] assms(7,8) by simp_all
  have "ws_send_cached eng env s = (ws_emit (row_transmit r2) s)\<lparr>ws_last_cache_sent := env_now env\<rparr>"
    using assms(2-6) ids
    by (intro outbox_table.send_cached_first [OF assms(1), where rs = "[r1]"])
      (simp_all add: add_mset_commute)
  then show ?thesis by (simp add: ws_timerfunc_def ws_sent_def)
qed

section \<open>The properties at concrete states\<close>

lemma sample_ready [simp]: "outbox_ready table_rows (sample_ws rows) (mset rows)"
  by (simp add: outbox_ready_def sample_ws_def outbox_rows_def new_PCWebsocket_def new_PCSqlite_def
      table_rows_def)

lemma sample_up [simp]: "net_up sample_env (sample_ws rows)"
  by (simp add: net_up_def sample_ws_def sample_env_def cache_delta_time_def new_PCWebsocket_def)

lemma sample_due [simp]:
  "ws_last_cache_sent (sample_ws rows) + cache_delta_time \<le> env_now sample_env"
  by (simp add: sample_ws_def sample_env_def cache_delta_time_def new_PCWebsocket_def)

lemma sample_log [simp]: "ws_log (sample_ws rows) = []" "ws_sent (sample_ws rows) = []"
  by (simp_all add: sample_ws_def new_PCWebsocket_def ws_sent_def)

lemma sample_dbid [simp]: "ws_dbid (env_now sample_env) (env_rand sample_env) = 50000003"
  by (simp add: ws_dbid_def sample_env_def dbl_def ulp_exp.simps [of 50000000]
      ulp_exp.simps [of 50000003])

theorem outbox_refines_witness:
  "outbox_ready table_rows
     (fold (ws_apply table_engine)
        [(sample_env, EvSend [97] (WText [66]) True), (sample_env, EvStartQueue []),
         (sample_env, EvIncoming msg_recieved (WNum 4))] (sample_ws [(4, [65], [])]))
     {#(50000003, [65], [66])#}"
  using outbox_refines [OF table_outbox.outbox_table_axioms sample_ready [of "[(4, [65], [])]"],
      where es = "[(sample_env, EvSend [97] (WText [66]) True), (sample_env, EvStartQueue []),
         (sample_env, EvIncoming msg_recieved (WNum 4))]"]
  by (simp add: id_value_def js_toUpperCase_def [of "[97]"] upper_units_def upper_unit_def)

theorem cached_message_kept_witness:
  "\<exists>t'. outbox_ready table_rows
      (fold (ws_apply table_engine)
        [(sample_env, EvTimer), (sample_env, EvIncoming msg_recieved (WNum 4)),
         (sample_env, EvConnected (Some False))]
        (snd (ws_send table_engine sample_env [97] (WText [66]) True (sample_ws [(4, [65], [])])))) t' \<and>
    (50000003, [65], [66]) \<in># t'"
  using cached_message_kept [OF table_outbox.outbox_table_axioms sample_ready [of "[(4, [65], [])]"],
      where es = "[(sample_env, EvTimer), (sample_env, EvIncoming msg_recieved (WNum 4)),
         (sample_env, EvConnected (Some False))]" and ?e0.0 = sample_env and name = "[97]" and d = "[66]"]
  by (simp add: id_value_def js_toUpperCase_def [of "[97]"] upper_units_def upper_unit_def)

theorem outbox_drains_witness:
  "ws_sent ((server_ack table_engine sample_env ^^ 2)
       (ws_timerfunc table_engine sample_env (sample_ws [(4, [65], []), (9, [66], [])])))
     = [row_transmit (4, [65], []), row_transmit (9, [66], []),
        Transmit (WText msg_outboxempty) (WText []) None]"
  using outbox_drains [OF table_outbox.outbox_table_axioms sample_ready _ sample_up _ sample_due,
      of "[(4, [65], []), (9, [66], [])]"]
  by (simp add: numeral_2_eq_2)

theorem equal_ids_lost_witness:
  "ws_sent
      (fold (ws_apply table_engine) [(sample_env, EvSend [65] (WText [49]) True),
         (sample_env, EvSend [65] (WText [50]) True),
         (sample_env, EvIncoming msg_recieved (WNum (int (ws_dbid (env_now sample_env) (env_rand sample_env)))))]
         (sample_ws []))
      = [row_transmit (50000003, [65], [49]), Transmit (WText msg_outboxempty) (WText []) None]"
  using equal_ids_lost [OF table_outbox.outbox_table_axioms sample_ready [of "[]", unfolded mset.simps]
      sample_up sample_due, of "[65]" "[49]" "[65]" "[50]"]
  by (simp add: js_toUpperCase_def upper_units_def upper_unit_def del: fold_simps)

theorem same_millisecond_reordered_witness:
  "ws_sent (ws_timerfunc table_engine sample_env
      (sample_ws [(ws_dbid 1753000000000 7, [65], []), (ws_dbid 1753000000000 2, [66], [])]))
    = [row_transmit (ws_dbid 1753000000000 2, [66], [])]"
  using same_millisecond_reordered [OF table_outbox.outbox_table_axioms sample_ready sample_up
      sample_due refl refl, of 1753000000000 "[65]" "[]" "[66]" "[]"] by simp

theorem registrations_unique_witness:
  "distinct (map wi_key (ws_messageList (fold (ws_apply table_engine)
     [(sample_env, EvRegister [97] [49] 1), (sample_env, EvRegister [65] [49] 2)] (sample_ws []))))"
  by (rule registrations_unique) (simp add: sample_ws_def new_PCWebsocket_def)

theorem send_true_without_row_witness:
  "fst (ws_send table_engine sample_env [65] (WNum 1) True (sample_ws [])) = Sent True"
  using send_true_without_row [of "sample_ws []" "(new_PCSqlite True)\<lparr>sq_db := Some (Some []),
      sq_dbloaded := True\<rparr>" table_engine sample_env "[65]" "WNum 1"]
  by (simp add: sample_ws_def new_PCWebsocket_def new_PCSqlite_def table_run_def)
section \<open>Set-up, and the outbox across a restart\<close>

context outbox_table begin

text \<open>Setting up on an open database keeps the outbox it holds, or makes an empty one.\<close>

lemma initialize_ready:
  assumes "sq_db sq = Some db" and "sq_dbloaded sq"
  shows "fst (initializeSQL eng (DbObject sq) (new_PCWebsocket h True)) \<and>
    outbox_ready tbl (snd (initializeSQL eng (DbObject sq) (new_PCWebsocket h True)))
      (case tbl db of None \<Rightarrow> {#} | Some t \<Rightarrow> t)"
proof -
  let ?s = "(new_PCWebsocket h True)\<lparr>ws_db := Some sq\<rparr>"
  from run_create [of db] obtain db' where db': "eng_run eng createtablesql [] db = SqlDone [] db'"
    "tbl db' = Some (case tbl db of None \<Rightarrow> {#} | Some t \<Rightarrow> t)" by blast
  have "ws_exec eng createtablesql [] ?s = (SqlRows [],
      ?s\<lparr>ws_db := Some (sq_autosave eng createtablesql (sq\<lparr>sq_db := Some db'\<rparr>))\<rparr>)"
    using ws_exec_done [of ?s sq db eng createtablesql "[]" "[]" db'] assms db' prepare_create by simp
  then show ?thesis
    using assms db' by (simp add: initializeSQL_def new_PCWebsocket_def outbox_ready_def outbox_rows_def)
qed

lemma check_empty:
  "outbox_rows tbl (ws_db s) = Some t \<Longrightarrow> checkOutboxEmpty eng s = (Some (t = {#}), s)"
  using exec_count [of s t]
  by (auto simp: checkOutboxEmpty_def outbox_rows_Some loose_zero_def ws_col_def count_object_def)

lemma reset_empties:
  assumes "ws_db s = Some sq" and "sq_SQL sq" and "sq_dbloaded sq" and "ws_dbcaching s" and "ws_iscaching s"
  shows "fst (ws_reset eng s) = Some () \<and> ws_messageList (snd (ws_reset eng s)) = [] \<and>
    outbox_ready tbl (snd (ws_reset eng s)) {#}"
proof -
  obtain sq1 where sq1: "sq_reset eng sq = (True, sq1)" "sq_db sq1 = Some (eng_new eng)"
    "sq_dbloaded sq1" using assms by (simp add: sq_reset_def)
  let ?s = "s\<lparr>ws_messageList := [], ws_db := Some sq1\<rparr>"
  from run_create [of "eng_new eng"] obtain db' where
    db': "eng_run eng createtablesql [] (eng_new eng) = SqlDone [] db'" "tbl db' = Some {#}"
    by (auto simp: new_no_table)
  have "ws_exec eng createtablesql [] ?s = (SqlRows [],
      ?s\<lparr>ws_db := Some (sq_autosave eng createtablesql (sq1\<lparr>sq_db := Some db'\<rparr>))\<rparr>)"
    using ws_exec_done [of ?s sq1 "eng_new eng" eng createtablesql "[]" "[]" db'] sq1 db' prepare_create
    by simp
  then show ?thesis
    using assms sq1 db' by (simp add: ws_reset_def outbox_ready_def outbox_rows_def)
qed

end

lemma db_start_loaded:
  "sq_db (ds_main (db_start eng debug d)) \<noteq> None \<Longrightarrow> sq_dbloaded (ds_main (db_start eng debug d))"
  by (auto simp: db_start_def sq_initialize_def sq_loaded_def new_PCSqlite_def
      split: prod.splits load_result.splits option.splits list.splits sum.splits)

text \<open>C5: the outbox survives the client: from every reachable state of the page, the worker and
  the browser in which the socket has unacknowledged messages and no multi-row insert is open
  (its rows are not in an image before it is ended), the background steps lead to a
  browser record on which a new client, set up by \<open>initialize\<close> and \<open>initializeSQL\<close>, has
  the same outbox and caching switched on.\<close>

theorem outbox_survives_restart:
  assumes table: "outbox_table eng tbl" and codec: "image_codec eng"
    and d: "idb_usable d" and reach: "db_reach eng (db_start eng debug d) ds"
    and multi: "multi_closed (ds_main ds)"
    and s: "ws_db s = Some (ds_main ds)" "outbox_ready tbl s t"
  shows "\<exists>ds'. (db_background eng)\<^sup>*\<^sup>* ds ds' \<and> sq_isAllSaved (ds_main ds') \<and>
    (let (ok, s') = initializeSQL eng (DbObject (ds_main (db_start eng True (ds_idb ds'))))
       (new_PCWebsocket h True) in ok \<and> outbox_ready tbl s' t)"
proof -
  from drained_restart [OF codec d reach multi] obtain ds' where
    ds': "(db_background eng)\<^sup>*\<^sup>* ds ds'" "sq_isAllSaved (ds_main ds')"
    "reloaded eng ds' = sq_db (ds_main ds)" by blast
  from s obtain db where db: "sq_db (ds_main ds) = Some db" "tbl db = Some t"
    by (auto simp: outbox_ready_def outbox_rows_Some)
  let ?sq = "ds_main (db_start eng True (ds_idb ds'))"
  have sq: "sq_db ?sq = Some db" using ds'(3) db by (simp add: reloaded_def)
  then have "sq_dbloaded ?sq" by (intro db_start_loaded) simp
  from outbox_table.initialize_ready [OF table sq this, of h] db ds' show ?thesis
    by (auto simp: split_beta)
qed

text \<open>\<open>reset\<close> of a socket whose engine is there removes every registration and leaves an
  empty outbox that works; \<open>checkOutboxEmpty\<close> then says so.\<close>

theorem reset_clears:
  assumes "outbox_table eng tbl" and "ws_db s = Some sq" and "sq_SQL sq" and "sq_dbloaded sq"
    and "ws_dbcaching s" and "ws_iscaching s"
  shows "ws_messageList (snd (ws_reset eng s)) = [] \<and>
    outbox_ready tbl (snd (ws_reset eng s)) {#} \<and>
    fst (checkOutboxEmpty eng (snd (ws_reset eng s))) = Some True"
proof -
  note r = outbox_table.reset_empties [OF assms]
  from outbox_table.check_empty [OF assms(1), of "snd (ws_reset eng s)" "{#}"] r show ?thesis
    by (auto simp: outbox_ready_def)
qed

theorem outbox_survives_restart_witness:
  "\<exists>ds'. (db_background table_engine)\<^sup>*\<^sup>* (db_start table_engine True sample_idb) ds' \<and>
     outbox_ready table_rows
       (snd (initializeSQL table_engine (DbObject (ds_main (db_start table_engine True (ds_idb ds'))))
          (new_PCWebsocket (\<lambda>i. []) True))) {#(7, [65], [66])#}"
proof -
  let ?ds = "db_start table_engine True sample_idb"
  let ?s = "(sample_ws [])\<lparr>ws_db := Some (ds_main ?ds)\<rparr>"
  have "outbox_ready table_rows ?s {#(7, [65], [66])#}"
    using sample_start(1) db_start_loaded [of table_engine True sample_idb]
    by (simp add: outbox_ready_def outbox_rows_def sample_ws_def table_rows_def new_PCWebsocket_def)
  then show ?thesis
    using outbox_survives_restart [OF table_outbox.outbox_table_axioms
        table_image.image_codec_axioms _ reach_start sample_start(4), of ?s "{#(7, [65], [66])#}" "\<lambda>i. []"]
    by (force simp: sample_idb_def idb_usable_def split_beta)
qed

theorem reset_clears_witness:
  "fst (checkOutboxEmpty table_engine (snd (ws_reset table_engine
     ((sample_ws [(4, [], [])])\<lparr>ws_db := Some ((new_PCSqlite True)\<lparr>sq_db := Some (Some [(4, [], [])]),
        sq_dbloaded := True, sq_SQL := True\<rparr>)\<rparr>)))) = Some True"
  using reset_clears [OF table_outbox.outbox_table_axioms, of "(sample_ws [(4, [], [])])\<lparr>ws_db :=
      Some ((new_PCSqlite True)\<lparr>sq_db := Some (Some [(4, [], [])]), sq_dbloaded := True,
        sq_SQL := True\<rparr>)\<rparr>"]
  by (simp add: sample_ws_def new_PCWebsocket_def)

end
