(* ===== verification/CanvasJs.thy ===== *)
theory CanvasJs
  imports Canvas
begin

text \<open>
  The older canvas elements (\<open>canvasjs/\<close>): the drawing helpers, \<open>CanvasButtons\<close>,
  \<open>CanvasItemlist\<close>, \<open>CanvasTouchItemlist\<close> (a copy of it with two large arrows) and
  \<open>Canvas7Segment\<close>. Drawing is the history of the context of theory Canvas; callbacks are
  external functions whose calls are recorded. Coordinates that come out of a division are
  extended numbers.
\<close>

section \<open>Drawing helpers\<close>

definition cj_roundRect :: "real \<Rightarrow> real \<Rightarrow> real \<Rightarrow> real \<Rightarrow> real \<Rightarrow> gfx list" where
  "cj_roundRect x y w h radius =
     (let r = x + w; b = y + h in
      [BeginPath, MoveTo (x + radius) y, LineTo (r - radius) y, QuadTo r y r (y + radius),
       LineTo r (y + h - radius), QuadTo r b (r - radius) b, LineTo (x + radius) b,
       QuadTo x b x (b - radius), LineTo x (y + radius), QuadTo x y (x + radius) y, Fill, Stroke])"

datatype cj_direction = DirDown | DirUp | DirRight | DirLeft | DirOther

definition cj_arrow_points ::
  "real \<Rightarrow> real \<Rightarrow> cj_direction \<Rightarrow> ((real \<times> real) \<times> (real \<times> real) \<times> (real \<times> real)) option" where
  "cj_arrow_points width height dir =
     (case dir of
        DirDown \<Rightarrow> Some ((0, 0), (width, 0), (width / 2, height))
      | DirUp \<Rightarrow> Some ((0, height), (width, height), (width / 2, 0))
      | DirRight \<Rightarrow> Some ((0, 0), (width, height / 2), (0, height))
      | DirLeft \<Rightarrow> Some ((width, 0), (width, height), (0, height / 2))
      | DirOther \<Rightarrow> None)"

definition cj_drawArrow :: "real \<Rightarrow> real \<Rightarrow> real \<Rightarrow> real \<Rightarrow> cj_direction \<Rightarrow> gfx list" where
  "cj_drawArrow x y width height dir =
     (case cj_arrow_points width height dir of
        None \<Rightarrow> []
      | Some ((ax, ay), (bx, by'), (cx, cy)) \<Rightarrow>
          [BeginPath, MoveTo (x + ax) (y + ay), LineTo (x + bx) (y + by'), LineTo (x + cx) (y + cy),
           Fill])"

section \<open>CanvasButtons\<close>

record cbutton =
  cb_startx :: real
  cb_starty :: real
  cb_endx :: real
  cb_endy :: real
  cb_displaytext :: jsstring
  cb_callback :: nat
  cb_callbackData :: jsstring

record cbuttons =
  cbs_buttonlist :: "cbutton list"
  cbs_ctx :: ctx

definition new_CanvasButtons :: cbuttons where
  "new_CanvasButtons = \<lparr>cbs_buttonlist = [], cbs_ctx = []\<rparr>"

definition cbs_clearButtons :: "cbuttons \<Rightarrow> cbuttons" where
  "cbs_clearButtons s = s\<lparr>cbs_buttonlist := []\<rparr>"

fun cbs_lines :: "real \<Rightarrow> real \<Rightarrow> jsstring list \<Rightarrow> gfx list" where
  "cbs_lines x yoffs [] = []"
| "cbs_lines x yoffs (l # ls) = FillText l (x + 8) yoffs # cbs_lines x (yoffs + 18) ls"

definition cbs_text :: "real \<Rightarrow> real \<Rightarrow> real \<Rightarrow> jsstring \<Rightarrow> gfx list" where
  "cbs_text x y height buttontext =
     (if 10 \<notin> set buttontext then [FillText buttontext (x + 8) (y + height / 2)]
      else let blines = js_split 10 buttontext
           in cbs_lines x (y + (height / 2 - 9 * (real (length blines) - 1))) blines)"

definition cbs_addButton ::
  "real \<Rightarrow> real \<Rightarrow> real \<Rightarrow> real \<Rightarrow> jsstring \<Rightarrow> jsstring \<Rightarrow> jsstring \<Rightarrow> nat \<Rightarrow> jsstring \<Rightarrow> real option
     \<Rightarrow> cbuttons \<Rightarrow> cbuttons" where
  "cbs_addButton x y width height buttontext textcolor buttoncolor callback callbackData roundCorner s =
     (let corner = (case roundCorner of None \<Rightarrow> 0 | Some r \<Rightarrow> r);
          box = (if corner = 0 then [FillRect x y width height, StrokeRect x y width height]
                 else cj_roundRect x y width height corner)
      in s\<lparr>cbs_ctx := cbs_ctx s
             @ [SetStroke (PColor (js ''#000000'')), SetFill (PColor buttoncolor)] @ box
             @ [SetFill (PColor textcolor), SetStroke (PColor textcolor)]
             @ cbs_text x y height buttontext,
           cbs_buttonlist := cbs_buttonlist s
             @ [\<lparr>cb_startx = x, cb_starty = y, cb_endx = x + width, cb_endy = y + height,
                 cb_displaytext = buttontext, cb_callback = callback,
                 cb_callbackData = callbackData\<rparr>]\<rparr>)"

definition cbs_addInvisibleButton ::
  "real \<Rightarrow> real \<Rightarrow> real \<Rightarrow> real \<Rightarrow> nat \<Rightarrow> jsstring \<Rightarrow> cbuttons \<Rightarrow> cbuttons" where
  "cbs_addInvisibleButton x y width height callback callbackData s =
     s\<lparr>cbs_buttonlist := cbs_buttonlist s
         @ [\<lparr>cb_startx = x, cb_starty = y, cb_endx = x + width, cb_endy = y + height,
             cb_displaytext = [], cb_callback = callback, cb_callbackData = callbackData\<rparr>]\<rparr>"

text \<open>Page coordinates of an event relative to the canvas, rounded down.\<close>

definition page_point :: "real \<times> real \<Rightarrow> real \<times> real \<Rightarrow> int \<times> int" where
  "page_point page offs = (\<lfloor>fst page - fst offs\<rfloor>, \<lfloor>snd page - snd offs\<rfloor>)"

definition cb_hit :: "int \<Rightarrow> int \<Rightarrow> cbutton \<Rightarrow> bool" where
  "cb_hit x y b \<longleftrightarrow> cb_startx b \<le> x \<and> x \<le> cb_endx b \<and> cb_starty b \<le> y \<and> y \<le> cb_endy b"

text \<open>The calls of a click, in order: every button under the point.\<close>

definition cbs_checkButtonClick :: "real \<times> real \<Rightarrow> real \<times> real \<Rightarrow> cbuttons \<Rightarrow> (nat \<times> jsstring) list" where
  "cbs_checkButtonClick page offs s =
     (let (x, y) = page_point page offs
      in map (\<lambda>b. (cb_callback b, cb_callbackData b)) (filter (cb_hit x y) (cbs_buttonlist s)))"

section \<open>CanvasItemlist\<close>

datatype li_event = SelectItem int | ScrollTo int | DragBar

record hotspot =
  hs_startx :: real
  hs_starty :: jsnum
  hs_endx :: real
  hs_endy :: jsnum
  hs_event :: li_event

datatype li_call = ScrollCall int | SelectCall int

record itemlist =
  il_buttonlist :: "hotspot list"
  il_mousedown :: bool
  il_mousey :: jsnum
  il_itemoffset :: int
  il_itemsizepixels :: jsnum
  il_calls :: "li_call list"
  il_ctx :: ctx

definition new_CanvasItemlist :: itemlist where
  "new_CanvasItemlist =
     \<lparr>il_buttonlist = [], il_mousedown = False, il_mousey = Fin 0, il_itemoffset = 0,
      il_itemsizepixels = Fin 0, il_calls = [], il_ctx = []\<rparr>"

definition hs_hit :: "int \<Rightarrow> int \<Rightarrow> hotspot \<Rightarrow> bool" where
  "hs_hit x y b \<longleftrightarrow> hs_startx b \<le> x \<and> x \<le> hs_endx b \<and>
     js_le (hs_starty b) (Fin y) \<and> js_le (Fin y) (hs_endy b)"

definition il_canvasMouseDown :: "real \<times> real \<Rightarrow> real \<times> real \<Rightarrow> itemlist \<Rightarrow> itemlist" where
  "il_canvasMouseDown page offs s =
     (let (x, y) = page_point page offs
      in if list_ex (\<lambda>b. hs_hit x y b \<and> hs_event b = DragBar) (il_buttonlist s)
         then s\<lparr>il_mousedown := True\<rparr> else s)"

definition il_canvasMouseUp :: "itemlist \<Rightarrow> itemlist" where
  "il_canvasMouseUp s = s\<lparr>il_mousedown := False\<rparr>"

fun js_add :: "jsnum \<Rightarrow> jsnum \<Rightarrow> jsnum" where
  "js_add (Fin a) n = js_shift a n"
| "js_add PosInf (Fin b) = PosInf"
| "js_add PosInf PosInf = PosInf"
| "js_add NegInf (Fin b) = NegInf"
| "js_add NegInf NegInf = NegInf"
| "js_add _ _ = NaN"

text \<open>The element whose offset is read is always the one named \<open>poscanvas\<close>; on a page without
  it (\<open>None\<close>) the handler throws.\<close>

definition il_canvasMouseMove :: "real \<Rightarrow> real option \<Rightarrow> itemlist \<Rightarrow> itemlist res" where
  "il_canvasMouseMove pageY pos_top s =
     (if \<not> il_mousedown s then Inr s
      else case pos_top of
        None \<Rightarrow> Inl TypeError
      | Some t \<Rightarrow>
          (let newmousey = pageY - t;
               diff = js_shift (- newmousey) (il_mousey s);
               px = il_itemsizepixels s
           in if js_less px diff \<and> il_itemoffset s > 0
              then Inr (s\<lparr>il_mousey := js_add (il_mousey s) (js_neg px),
                          il_itemoffset := il_itemoffset s - 1,
                          il_calls := il_calls s @ [ScrollCall (il_itemoffset s - 1)]\<rparr>)
              else if js_less diff (js_neg px)
              then Inr (s\<lparr>il_mousey := js_add (il_mousey s) px,
                          il_itemoffset := il_itemoffset s + 1,
                          il_calls := il_calls s @ [ScrollCall (il_itemoffset s + 1)]\<rparr>)
              else Inr s))"

definition il_clearButtons :: "itemlist \<Rightarrow> itemlist" where
  "il_clearButtons s = s\<lparr>il_buttonlist := []\<rparr>"

definition il_checkButtonClick :: "real \<times> real \<Rightarrow> real \<times> real \<Rightarrow> itemlist \<Rightarrow> itemlist" where
  "il_checkButtonClick page offs s =
     (let (x, y) = page_point page offs in
      fold (\<lambda>b s. case hs_event b of
                    SelectItem i \<Rightarrow> s\<lparr>il_calls := il_calls s @ [SelectCall i]\<rparr>
                  | ScrollTo i \<Rightarrow> s\<lparr>il_calls := il_calls s @ [ScrollCall i]\<rparr>
                  | DragBar \<Rightarrow> s)
        (filter (hs_hit x y) (il_buttonlist s)) s)"

subsection \<open>Drawing the list\<close>

abbreviation (input) il_draw :: "gfx list \<Rightarrow> itemlist \<Rightarrow> itemlist" where
  "il_draw cmds s \<equiv> s\<lparr>il_ctx := il_ctx s @ cmds\<rparr>"

definition il_push :: "real \<Rightarrow> jsnum \<Rightarrow> real \<Rightarrow> jsnum \<Rightarrow> li_event \<Rightarrow> itemlist \<Rightarrow> itemlist" where
  "il_push sx sy ex ey ev s =
     s\<lparr>il_buttonlist := il_buttonlist s
         @ [\<lparr>hs_startx = sx, hs_starty = sy, hs_endx = ex, hs_endy = ey, hs_event = ev\<rparr>]\<rparr>"

abbreviation (input) black :: paint where "black \<equiv> PColor (js ''#000000'')"
abbreviation (input) white :: paint where "white \<equiv> PColor (js ''#FFFFFF'')"

definition list_count :: "real \<Rightarrow> int" where
  "list_count height = \<lfloor>(height - 10) / 24\<rfloor>"

text \<open>The offset that is shown: the end of the list for -1 or beyond it.\<close>

definition il_needs_clamp :: "int \<Rightarrow> int \<Rightarrow> int \<Rightarrow> bool" where
  "il_needs_clamp scrollOffset len listCount \<longleftrightarrow> scrollOffset = - 1 \<or> scrollOffset > len - listCount"

definition il_clamped :: "int \<Rightarrow> int \<Rightarrow> int \<Rightarrow> int" where
  "il_clamped scrollOffset len listCount =
     (if il_needs_clamp scrollOffset len listCount then max 0 (len - listCount) else scrollOffset)"

definition il_selection :: "real \<Rightarrow> real \<Rightarrow> real \<Rightarrow> real \<Rightarrow> int \<Rightarrow> int \<Rightarrow> gfx list" where
  "il_selection x y width height selectedItem off =
     (if selectedItem \<noteq> - 1
      then let selector = of_int (selectedItem - off);
               ystart = y + 1 + selector * 24;
               yend = ystart + 24
           in if ystart > y \<and> yend < y + height
              then [SetFill (PColor (js ''#F8FC03'')), FillRect (x + 1) (y + 1 + selector * 24) (width - 25) 24]
              else []
      else [])"

text \<open>One row: a text that starts with \<open>^#\<close> carries its colour in the next units.\<close>

definition il_row_text :: "real \<Rightarrow> real \<Rightarrow> nat \<Rightarrow> jsstring \<Rightarrow> gfx list" where
  "il_row_text x y i t =
     (if take 2 t = js ''^#''
      then [SetFill (PColor (js_substr t 1 7)), FillText (drop 8 t) (x + 5) (y + 20 + real i * 24)]
      else [SetFill black, FillText t (x + 5) (y + 20 + real i * 24)])"

text \<open>The rows from row \<open>i\<close> on, \<open>n\<close> of them; \<open>itemList[k]\<close> out of range is
  \<open>undefined\<close>, and calling \<open>match\<close> on it throws.\<close>

fun il_rows :: "real \<Rightarrow> real \<Rightarrow> real \<Rightarrow> jsstring list \<Rightarrow> int \<Rightarrow> nat \<Rightarrow> nat \<Rightarrow> itemlist \<Rightarrow> itemlist \<times> bool" where
  "il_rows x y width items off i 0 s = (s, True)"
| "il_rows x y width items off i (Suc n) s =
     (let k = int i + off in
      if k < 0 \<or> int (length items) \<le> k then (s, False)
      else il_rows x y width items off (Suc i) n
             (il_push (x + 1) (Fin (y + 1 + real i * 24)) (x + 1 + width - 24)
                (Fin (y + 1 + real i * 24 + 23)) (SelectItem k)
                (il_draw (il_row_text x y i (items ! nat k)) s)))"

fun js_floor :: "jsnum \<Rightarrow> jsnum" where
  "js_floor (Fin r) = Fin (of_int \<lfloor>r\<rfloor>)"
| "js_floor n = n"

text \<open>The bar: its start and length. Its place comes from the page's global variables
  \<open>invoicelistoffset\<close> and \<open>invoicelist.length\<close>, \<open>None\<close> when the page has not defined
  them, and then the method throws.\<close>

definition il_bar ::
  "real \<Rightarrow> real \<Rightarrow> int \<Rightarrow> int \<Rightarrow> (real \<times> nat) option \<Rightarrow> (jsnum \<times> jsnum) option" where
  "il_bar y height len listCount globals =
     (let totallen = y + height - 23 - (y + 23) - 4 in
      if len > listCount
      then (case globals of
              None \<Rightarrow> None
            | Some (off, n) \<Rightarrow>
                Some (js_shift (y + 25) (js_floor (js_scale totallen (js_div off (real n)))),
                      js_floor (js_scale totallen (js_div (of_int listCount) (of_int len)))))
      else Some (Fin (y + 25), Fin totallen))"

definition bar_rect :: "real \<Rightarrow> jsnum \<Rightarrow> jsnum \<Rightarrow> gfx list" where
  "bar_rect x start len =
     (case (start, len) of (Fin a, Fin b) \<Rightarrow> [FillRect x a 20 b] | _ \<Rightarrow> [])"

fun jsnum_over :: "jsnum \<Rightarrow> real \<Rightarrow> jsnum" where
  "jsnum_over (Fin a) r = js_div a r"
| "jsnum_over n r = (if r < 0 then js_neg n else n)"

datatype li_result = ListCount int | RowTypeError | NameError

text \<open>The arrows of the scroll bar.\<close>

definition il_arrows ::
  "real \<Rightarrow> real \<Rightarrow> real \<Rightarrow> real \<Rightarrow> int \<Rightarrow> int \<Rightarrow> int \<Rightarrow> itemlist \<Rightarrow> itemlist" where
  "il_arrows x y width height off len listCount s =
     (let s1 = il_draw ([SetStroke black, SetFill (PColor (js ''#A0A0A0'')),
                 FillRect (x + width - 23) (y + 23) 20 (height - 46), SetFill black, SetFont (Some 20),
                 StrokeRect (x + width - 23) (y + 3) 20 20]
                 @ cj_drawArrow (x + width - 22) (y + 4) 18 18 DirUp) s;
          s2 = (if off > 0
                then il_push (x + width - 23) (Fin (y + 3)) (x + width - 23 + 20) (Fin (y + 3 + 20))
                       (ScrollTo (off - 1)) s1
                else s1);
          s3 = il_draw (StrokeRect (x + width - 23) (y + height - 23) 20 20
                 # cj_drawArrow (x + width - 22) (y + height - 22) 18 18 DirDown) s2
      in if off < len - listCount
         then il_push (x + width - 23) (Fin (y + height - 23)) (x + width - 23 + 20)
                (Fin (y + height - 23 + 20)) (ScrollTo (off + 1)) s3
         else s3)"

text \<open>The bar and the areas above and below it.\<close>

definition il_bar_buttons ::
  "real \<Rightarrow> real \<Rightarrow> real \<Rightarrow> real \<Rightarrow> int \<Rightarrow> int \<Rightarrow> int \<Rightarrow> jsnum \<Rightarrow> jsnum \<Rightarrow> itemlist \<Rightarrow> itemlist" where
  "il_bar_buttons x y width height off len listCount barstart barlen s =
     (let totallen = y + height - 23 - (y + 23) - 4;
          barend = js_add barstart barlen;
          s1 = il_draw (SetFill black # bar_rect (x + width - 23) barstart barlen) s;
          s2 = (if js_less (Fin (y + 25)) barstart
                then il_push (x + width - 23) (Fin (y + 25)) (x + width - 23 + 20) barstart
                       (ScrollTo (max 0 (off - 10))) s1
                else s1);
          s3 = s2\<lparr>il_itemoffset := off,
                  il_itemsizepixels := js_scale (of_int listCount) (jsnum_over barlen totallen)\<rparr>;
          s4 = (if js_less barend (Fin (y + 25 + totallen))
                then il_push (x + width - 23) barend (x + width - 23 + 20) (Fin (y + 25 + totallen))
                       (ScrollTo (min (off + 10) (len - listCount))) s3
                else s3)
      in il_push (x + width - 23) barstart (x + width - 23 + 20) barend DragBar s4)"

text \<open>Everything before the rows: the frame, the callback of a corrected offset, the mark of the
  selected item.\<close>

definition il_head ::
  "real \<Rightarrow> real \<Rightarrow> real \<Rightarrow> real \<Rightarrow> int \<Rightarrow> int \<Rightarrow> int \<Rightarrow> itemlist \<Rightarrow> itemlist" where
  "il_head x y width height len scrollOffset selectedItem s =
     (let listCount = list_count height;
          off = il_clamped scrollOffset len listCount;
          s1 = il_draw [SetFill white, SetStroke black, FillRect x y (width - 1) (height - 1),
                        StrokeRect x y (width - 1) (height - 1)] s;
          s2 = (if il_needs_clamp scrollOffset len listCount
                then s1\<lparr>il_calls := il_calls s1 @ [ScrollCall off]\<rparr> else s1)
      in il_draw (il_selection x y width height selectedItem off @ [SetFont (Some 20), SetFill black]) s2)"

definition il_addScrollList ::
  "real \<Rightarrow> real \<Rightarrow> real \<Rightarrow> real \<Rightarrow> jsstring list \<Rightarrow> int \<Rightarrow> int \<Rightarrow> (real \<times> nat) option
     \<Rightarrow> itemlist \<Rightarrow> li_result \<times> itemlist" where
  "il_addScrollList x y width height items scrollOffset selectedItem globals s =
     (let listCount = list_count height;
          len = int (length items);
          off = il_clamped scrollOffset len listCount;
          s3 = il_head x y width height len scrollOffset selectedItem s;
          (s4, ok) = il_rows x y width items off 0 (nat (min len listCount)) s3
      in if \<not> ok then (RowTypeError, s4)
         else let s5 = il_arrows x y width height off len listCount s4 in
           (case il_bar y height len listCount globals of
              None \<Rightarrow> (NameError, s5)
            | Some (barstart, barlen) \<Rightarrow>
                (ListCount listCount,
                 il_bar_buttons x y width height off len listCount barstart barlen s5)))"

section \<open>CanvasTouchItemlist\<close>

text \<open>The class is a copy of \<open>CanvasItemlist\<close> whose list is 50 pixels lower and which adds two
  buttons below it.\<close>

definition cti_touchbar ::
  "real \<Rightarrow> real \<Rightarrow> real \<Rightarrow> real \<Rightarrow> int \<Rightarrow> int \<Rightarrow> int \<Rightarrow> itemlist \<Rightarrow> itemlist" where
  "cti_touchbar x y width height off len listCount s =
     (let ystart = y + height + 5;
          bwidth = width / 2 - 5;
          bheight = 40;
          s1 = il_draw ([SetFill white, SetStroke black, FillRect x ystart bwidth bheight,
                 StrokeRect x ystart bwidth bheight, SetFill black]
                 @ cj_drawArrow (x + bwidth / 2 - 30) (ystart + 5) 60 30 DirUp) s;
          s2 = (if off > 0
                then il_push x (Fin ystart) (x + bwidth - 1) (Fin (ystart + bheight - 1))
                       (ScrollTo (max 0 (off - 10))) s1
                else s1);
          xstart = x + bwidth + 10;
          s3 = il_draw ([SetFill white, SetStroke black, FillRect xstart ystart bwidth bheight,
                 StrokeRect xstart ystart bwidth bheight, SetFill black]
                 @ cj_drawArrow (xstart + bwidth / 2 - 30) (ystart + 5) 60 30 DirDown) s2
      in if off < len - listCount
         then il_push xstart (Fin ystart) (xstart + bwidth - 1) (Fin (ystart + bheight - 1))
                (ScrollTo (if off + 10 \<ge> len then len - 1 else off + 10)) s3
         else s3)"

definition cti_addScrollList ::
  "real \<Rightarrow> real \<Rightarrow> real \<Rightarrow> real \<Rightarrow> jsstring list \<Rightarrow> int \<Rightarrow> int \<Rightarrow> (real \<times> nat) option
     \<Rightarrow> itemlist \<Rightarrow> li_result \<times> itemlist" where
  "cti_addScrollList x y width height0 items scrollOffset selectedItem globals s =
     (let height = height0 - 50;
          len = int (length items);
          off = il_clamped scrollOffset len (list_count height)
      in case il_addScrollList x y width height items scrollOffset selectedItem globals s of
           (ListCount n, s1) \<Rightarrow> (ListCount n, cti_touchbar x y width height off len n s1)
         | r \<Rightarrow> r)"

definition new_CanvasTouchItemlist :: itemlist where
  "new_CanvasTouchItemlist = new_CanvasItemlist"

definition cti_canvasMouseDown :: "real \<times> real \<Rightarrow> real \<times> real \<Rightarrow> itemlist \<Rightarrow> itemlist" where
  "cti_canvasMouseDown = il_canvasMouseDown"

definition cti_canvasMouseUp :: "itemlist \<Rightarrow> itemlist" where
  "cti_canvasMouseUp = il_canvasMouseUp"

definition cti_canvasMouseMove :: "real \<Rightarrow> real option \<Rightarrow> itemlist \<Rightarrow> itemlist res" where
  "cti_canvasMouseMove = il_canvasMouseMove"

definition cti_clearButtons :: "itemlist \<Rightarrow> itemlist" where
  "cti_clearButtons = il_clearButtons"

definition cti_checkButtonClick :: "real \<times> real \<Rightarrow> real \<times> real \<Rightarrow> itemlist \<Rightarrow> itemlist" where
  "cti_checkButtonClick = il_checkButtonClick"

section \<open>Canvas7Segment\<close>

definition segmentcoords :: "int list list" where
  "segmentcoords =
     [[24, 25, 31, 16, 118, 16, 126, 25, 118, 34, 32, 34],
      [21, 28, 30, 36, 30, 94, 21, 103, 12, 95, 12, 37],
      [128, 28, 137, 36, 137, 94, 128, 103, 121, 95, 121, 37],
      [21, 110, 29, 117, 29, 175, 21, 184, 13, 175, 12, 118],
      [129, 109, 137, 117, 137, 176, 129, 184, 120, 176, 120, 118],
      [24, 187, 33, 178, 117, 178, 125, 187, 118, 196, 32, 196],
      [24, 106, 32, 97, 118, 97, 125, 105, 118, 114, 32, 114],
      [125, 200, 141, 186, 151, 210],
      [64, 55, 78, 55, 78, 68, 64, 68, -1, -1, 64, 148, 78, 148, 78, 161, 64, 161]]"

text \<open>The coordinate loop: pairs, a pair of -1 closes a path and starts another.\<close>

fun seg_path :: "real \<Rightarrow> real \<Rightarrow> real \<Rightarrow> bool \<Rightarrow> int list \<Rightarrow> gfx list" where
  "seg_path startx starty scale isfirst (a # b # cs) =
     (if a = - 1 \<and> b = - 1
      then [ClosePath, Fill, Stroke, BeginPath] @ seg_path startx starty scale True cs
      else let x = (of_int a - 20) * scale / 16 + startx;
               y = (of_int b - 15) * scale / 16 + starty
           in (if isfirst then MoveTo x y else LineTo x y) # seg_path startx starty scale False cs)"
| "seg_path startx starty scale isfirst _ = []"

definition sevensegmentDrawSegment :: "real \<Rightarrow> real \<Rightarrow> nat \<Rightarrow> real \<Rightarrow> gfx list" where
  "sevensegmentDrawSegment startx starty segment scale =
     BeginPath # seg_path startx starty scale True (segmentcoords ! (segment - 1))
       @ [ClosePath, Fill, Stroke]"

text \<open>The segments of a character, as the digits of the string the code splits.\<close>

definition segments_of :: "jschar \<Rightarrow> nat list" where
  "segments_of c =
     (if c = 32 then []
      else if c = 48 then [1, 2, 3, 4, 5, 6]
      else if c = 49 then [3, 5]
      else if c = 50 then [1, 3, 7, 4, 6]
      else if c = 51 then [1, 3, 7, 5, 6]
      else if c = 52 then [2, 7, 3, 5]
      else if c = 53 then [1, 2, 7, 5, 6]
      else if c = 54 then [1, 2, 7, 4, 5, 6]
      else if c = 55 then [1, 3, 5]
      else if c = 56 then [1, 2, 3, 4, 5, 6, 7]
      else if c = 57 then [1, 2, 3, 5, 6, 7]
      else if c = 46 then [8]
      else if c = 58 then [9]
      else if c = 45 then [7]
      else [])"

definition sevensegmentDrawDigit :: "real \<Rightarrow> real \<Rightarrow> jschar \<Rightarrow> real \<Rightarrow> gfx list" where
  "sevensegmentDrawDigit x y digit scale =
     concat (map (\<lambda>sg. sevensegmentDrawSegment x y sg scale) (segments_of digit))"

fun seg_chars :: "real \<Rightarrow> real \<Rightarrow> real \<Rightarrow> nat \<Rightarrow> jsstring \<Rightarrow> gfx list" where
  "seg_chars x y scale i [] = []"
| "seg_chars x y scale i (c # cs) =
     sevensegmentDrawDigit (x + real i * 11 * scale) y c scale @ seg_chars x y scale (Suc i) cs"

definition sevensegmentDrawText :: "real \<Rightarrow> real \<Rightarrow> jsstring \<Rightarrow> real \<Rightarrow> gfx list" where
  "sevensegmentDrawText x y seventext scale = seg_chars x y scale 0 seventext"
section \<open>The rows and the hot spots\<close>

definition row_spot :: "real \<Rightarrow> real \<Rightarrow> real \<Rightarrow> int \<Rightarrow> nat \<Rightarrow> hotspot" where
  "row_spot x y width off i =
     \<lparr>hs_startx = x + 1, hs_starty = Fin (y + 1 + real i * 24), hs_endx = x + 1 + width - 24,
      hs_endy = Fin (y + 1 + real i * 24 + 23), hs_event = SelectItem (int i + off)\<rparr>"

lemma il_push_frame [simp]:
  "il_buttonlist (il_push sx sy ex ey ev s) = il_buttonlist s
     @ [\<lparr>hs_startx = sx, hs_starty = sy, hs_endx = ex, hs_endy = ey, hs_event = ev\<rparr>]"
  "il_calls (il_push sx sy ex ey ev s) = il_calls s"
  "il_mousedown (il_push sx sy ex ey ev s) = il_mousedown s"
  "il_mousey (il_push sx sy ex ey ev s) = il_mousey s"
  "il_itemoffset (il_push sx sy ex ey ev s) = il_itemoffset s"
  "il_itemsizepixels (il_push sx sy ex ey ev s) = il_itemsizepixels s"
  by (simp_all add: il_push_def)

lemma il_rows_in_range:
  "0 \<le> off \<Longrightarrow> (0 < n \<Longrightarrow> int (i + n) + off \<le> int (length items)) \<Longrightarrow>
   \<exists>s'. il_rows x y width items off i n s = (s', True) \<and>
     il_buttonlist s' = il_buttonlist s @ map (row_spot x y width off) [i..<i + n] \<and>
     il_calls s' = il_calls s"
proof (induction n arbitrary: i s)
  case (Suc n)
  let ?s = "il_push (x + 1) (Fin (y + 1 + real i * 24)) (x + 1 + width - 24)
     (Fin (y + 1 + real i * 24 + 23)) (SelectItem (int i + off))
     (s\<lparr>il_ctx := il_ctx s @ il_row_text x y i (items ! nat (int i + off))\<rparr>)"
  from Suc.IH [of "Suc i" ?s] Suc.prems obtain s' where
    s': "il_rows x y width items off (Suc i) n ?s = (s', True)"
    "il_buttonlist s' = il_buttonlist ?s @ map (row_spot x y width off) [Suc i..<Suc i + n]"
    "il_calls s' = il_calls ?s" by auto
  have "[i..<i + Suc n] = i # [Suc i..<Suc i + n]" by (simp add: upt_conv_Cons)
  with s' Suc.prems show ?case by (simp add: Let_def row_spot_def)
qed simp

lemma clamped_in_range:
  assumes "- 1 \<le> scrollOffset"
  shows "0 \<le> il_clamped scrollOffset len lc"
    and "0 < nat (min len lc) \<Longrightarrow> int (nat (min len lc)) + il_clamped scrollOffset len lc \<le> len"
    and "il_clamped scrollOffset len lc \<le> max 0 (len - lc)"
  using assms by (auto simp: il_clamped_def il_needs_clamp_def)

text \<open>The hot spots of the scroll bar, and that they lie right of the rows' own columns.\<close>

definition bar_spots :: "real \<Rightarrow> real \<Rightarrow> int \<Rightarrow> hotspot list \<Rightarrow> bool" where
  "bar_spots x width bound bs \<longleftrightarrow>
     (\<forall>b \<in> set bs. hs_startx b = x + width - 23 \<and>
        (case hs_event b of SelectItem i \<Rightarrow> False | ScrollTo t \<Rightarrow> 0 \<le> t \<and> t \<le> bound | DragBar \<Rightarrow> True))"

lemma bar_spots_simps [simp]:
  "bar_spots x width bound (as @ bs) \<longleftrightarrow> bar_spots x width bound as \<and> bar_spots x width bound bs"
  "bar_spots x width bound (b # bs) \<longleftrightarrow> hs_startx b = x + width - 23 \<and>
     (case hs_event b of SelectItem i \<Rightarrow> False | ScrollTo t \<Rightarrow> 0 \<le> t \<and> t \<le> bound | DragBar \<Rightarrow> True) \<and>
     bar_spots x width bound bs"
  "bar_spots x width bound []"
  by (auto simp: bar_spots_def)

lemma il_arrows_spots:
  assumes "0 \<le> off" "off \<le> max 0 (len - lc)"
  shows "\<exists>bs. il_buttonlist (il_arrows x y width height off len lc s) = il_buttonlist s @ bs \<and>
    bar_spots x width (max 0 (len - lc)) bs"
  using assms by (cases "0 < off"; cases "off < len - lc") (simp_all add: il_arrows_def Let_def)

lemma il_arrows_calls [simp]: "il_calls (il_arrows x y width height off len lc s) = il_calls s"
  by (simp add: il_arrows_def Let_def)

text \<open>Below the bar there is something to scroll to only when there are more items than rows.\<close>

lemma bar_below:
  assumes "il_bar y height len lc globals = Some (st, bl)"
    and "js_less (js_add st bl) (Fin (y + 25 + (y + height - 23 - (y + 23) - 4)))"
  shows "lc < len"
  using assms by (auto simp: il_bar_def Let_def split: if_splits)

lemma il_bar_spots:
  assumes "0 \<le> off" "off \<le> max 0 (len - lc)" "il_bar y height len lc globals = Some (st, bl)"
  shows "\<exists>bs. il_buttonlist (il_bar_buttons x y width height off len lc st bl s) = il_buttonlist s @ bs \<and>
    bar_spots x width (max 0 (len - lc)) bs"
  using assms bar_below [OF assms(3)]
  by (cases "js_less (Fin (y + 25)) st";
      cases "js_less (js_add st bl) (Fin (y + 25 + (y + height - 23 - (y + 23) - 4)))")
    (simp_all add: il_bar_buttons_def Let_def)

lemma il_bar_calls [simp]: "il_calls (il_bar_buttons x y width height off len lc st bl s) = il_calls s"
  by (simp add: il_bar_buttons_def Let_def)

text \<open>The hot spots after drawing: the rows, then the scroll bar.\<close>

lemma addScrollList_spots:
  assumes off: "- 1 \<le> scrollOffset" and "il_buttonlist s = []"
    and "il_addScrollList x y width height items scrollOffset sel globals s = (r, s')"
  defines "lc \<equiv> list_count height" and "len \<equiv> int (length items)"
  shows "r \<noteq> RowTypeError"
    and "\<exists>bs. il_buttonlist s' = map (row_spot x y width (il_clamped scrollOffset len lc))
        [0..<nat (min len lc)] @ bs \<and> bar_spots x width (max 0 (len - lc)) bs"
    and "il_calls s' = il_calls s
      @ (if il_needs_clamp scrollOffset len lc then [ScrollCall (il_clamped scrollOffset len lc)] else [])"
proof -
  let ?off = "il_clamped scrollOffset len lc" and ?n = "nat (min len lc)"
  note range = clamped_in_range [OF off, of len lc]
  have rows: "\<exists>s4. il_rows x y width items ?off 0 ?n t = (s4, True) \<and>
     il_buttonlist s4 = il_buttonlist t @ map (row_spot x y width ?off) [0..<?n] \<and>
     il_calls s4 = il_calls t" for t
  proof -
    have "0 < ?n \<Longrightarrow> int (0 + ?n) + ?off \<le> int (length items)"
      using range(2) unfolding add_0 len_def .
    from il_rows_in_range [OF range(1) this, of x y width t] show ?thesis by simp
  qed
  let ?u = "il_head x y width height len scrollOffset sel s"
  obtain s4 where s4: "il_rows x y width items ?off 0 ?n ?u = (s4, True)"
    "il_buttonlist s4 = il_buttonlist ?u @ map (row_spot x y width ?off) [0..<?n]"
    "il_calls s4 = il_calls ?u" using rows by blast
  have u: "il_buttonlist ?u = []" "il_calls ?u = il_calls s
      @ (if il_needs_clamp scrollOffset len lc then [ScrollCall ?off] else [])"
    using assms(2) by (auto simp: il_head_def Let_def lc_def)
  let ?s5 = "il_arrows x y width height ?off len lc s4"
  have res: "(r, s') = (case il_bar y height len lc globals of
        None \<Rightarrow> (NameError, ?s5)
      | Some (st, bl) \<Rightarrow> (ListCount lc, il_bar_buttons x y width height ?off len lc st bl ?s5))"
    using assms(3) s4(1) unfolding il_addScrollList_def Let_def lc_def len_def
    by (auto split: option.splits)
  then show "r \<noteq> RowTypeError" by (auto split: option.splits)
  from res s4(3) u show "il_calls s' = il_calls s
      @ (if il_needs_clamp scrollOffset len lc then [ScrollCall ?off] else [])"
    by (auto split: option.splits)
  obtain as where as: "il_buttonlist ?s5 = il_buttonlist s4 @ as" "bar_spots x width (max 0 (len - lc)) as"
    using il_arrows_spots [OF range(1,3)] by blast
  show "\<exists>bs. il_buttonlist s' = map (row_spot x y width ?off) [0..<?n] @ bs \<and>
      bar_spots x width (max 0 (len - lc)) bs"
  proof (cases "il_bar y height len lc globals")
    case None
    with res as s4(2) u(1) show ?thesis by auto
  next
    case (Some p)
    obtain st bl where p: "p = (st, bl)" by (cases p)
    with res Some have s': "s' = il_bar_buttons x y width height ?off len lc st bl ?s5" by simp
    obtain bs where "il_buttonlist s' = il_buttonlist ?s5 @ bs" "bar_spots x width (max 0 (len - lc)) bs"
      using il_bar_spots [OF range(1,3) Some [unfolded p]] s' by blast
    with as s4(2) u(1) show ?thesis by auto
  qed
qed

text \<open>The up arrow is one of the hot spots of a scrolled list.\<close>

lemma il_bar_keeps:
  "set (il_buttonlist s) \<subseteq> set (il_buttonlist (il_bar_buttons x y width height off len lc st bl s))"
  by (auto simp: il_bar_buttons_def Let_def)

lemma addScrollList_up:
  assumes off: "- 1 \<le> scrollOffset" and "il_buttonlist s = []"
    and "il_addScrollList x y width height items scrollOffset sel globals s = (r, s')"
    and "0 < il_clamped scrollOffset (int (length items)) (list_count height)"
  shows "\<lparr>hs_startx = x + width - 23, hs_starty = Fin (y + 3), hs_endx = x + width - 23 + 20,
      hs_endy = Fin (y + 3 + 20),
      hs_event = ScrollTo (il_clamped scrollOffset (int (length items)) (list_count height) - 1)\<rparr>
    \<in> set (il_buttonlist s')"
proof -
  have arrows: "\<lparr>hs_startx = x + width - 23, hs_starty = Fin (y + 3), hs_endx = x + width - 23 + 20,
      hs_endy = Fin (y + 3 + 20), hs_event = ScrollTo (o' - 1)\<rparr>
      \<in> set (il_buttonlist (il_arrows x y width height o' len lc t))" if "0 < o'" for o' len lc t
    using that by (simp add: il_arrows_def Let_def)
  have "r \<noteq> RowTypeError" using addScrollList_spots(1) [OF assms(1-3)] .
  with assms(3) show ?thesis
    using arrows [OF assms(4)] il_bar_keeps
    by (auto simp: il_addScrollList_def Let_def split: prod.splits if_splits option.splits) blast+
qed
section \<open>Clicks on a drawn list\<close>

definition spot_call :: "hotspot \<Rightarrow> li_call list" where
  "spot_call b = (case hs_event b of SelectItem i \<Rightarrow> [SelectCall i] | ScrollTo i \<Rightarrow> [ScrollCall i] | DragBar \<Rightarrow> [])"

lemma click_calls:
  "il_calls (il_checkButtonClick page offs s) = il_calls s
     @ concat (map spot_call (filter (hs_hit (fst (page_point page offs)) (snd (page_point page offs)))
         (il_buttonlist s)))"
proof -
  have "il_calls (fold (\<lambda>b s. case hs_event b of
                    SelectItem i \<Rightarrow> s\<lparr>il_calls := il_calls s @ [SelectCall i]\<rparr>
                  | ScrollTo i \<Rightarrow> s\<lparr>il_calls := il_calls s @ [ScrollCall i]\<rparr>
                  | DragBar \<Rightarrow> s) bs t) = il_calls t @ concat (map spot_call bs)" for bs t
    by (induction bs arbitrary: t) (auto simp: spot_call_def split: li_event.splits)
  then show ?thesis by (simp add: il_checkButtonClick_def split_beta)
qed

lemma row_spot_hit:
  "hs_hit px py (row_spot x y width off i) \<longleftrightarrow>
     x + 1 \<le> px \<and> px \<le> x + width - 23 \<and> y + 1 + real i * 24 \<le> py \<and> py \<le> y + 24 + real i * 24"
  by (auto simp: hs_hit_def row_spot_def)

lemma only_row_hit:
  assumes "j < n" and "x + 1 \<le> px" "px \<le> x + width - 23"
    and "y + 1 + real j * 24 \<le> py" "py < y + 1 + real (Suc j) * 24" "py \<le> y + 24 + real j * 24"
  shows "filter (hs_hit px py) (map (row_spot x y width off) [0..<n]) = [row_spot x y width off j]"
proof -
  have "hs_hit px py (row_spot x y width off i) \<longleftrightarrow> i = j" for i
  proof (cases i j rule: linorder_cases)
    case less
    then have "real i + 1 \<le> real j" by simp
    with assms show ?thesis by (auto simp: row_spot_hit)
  next
    case greater
    then have "real j + 1 \<le> real i" by simp
    with assms show ?thesis by (auto simp: row_spot_hit)
  qed (use assms in \<open>simp add: row_spot_hit\<close>)
  then have "filter (hs_hit px py \<circ> row_spot x y width off) [0..<n] = filter (\<lambda>i. i = j) [0..<n]"
    by (simp add: comp_def)
  also have "\<dots> = [j]" using assms(1) by (induction n) auto
  finally show ?thesis by (simp add: filter_map)
qed

lemma bar_not_hit:
  "bar_spots x width bound bs \<Longrightarrow> real_of_int px < x + width - 23 \<Longrightarrow> filter (hs_hit px py) bs = []"
  by (induction bs) (auto simp: hs_hit_def)

text \<open>C20: a drawn item list: with an offset of -1 or more no row is read out of range, a click
  on pixel row \<open>j\<close> left of the scroll bar selects exactly item \<open>j\<close> of the shown part, and
  calls nothing else.\<close>

theorem item_click_selects:
  assumes "- 1 \<le> scrollOffset" and "il_buttonlist s = []"
    and "il_addScrollList x y width height items scrollOffset sel globals s = (r, s')"
    and "page_point page offs = (px, py)"
    and "int j < min (int (length items)) (list_count height)"
    and "x + 1 \<le> px" "px < x + width - 23"
    and "y + 1 + real j * 24 \<le> py" "py \<le> y + 24 + real j * 24"
  shows "r \<noteq> RowTypeError \<and>
    il_calls (il_checkButtonClick page offs s') = il_calls s'
      @ [SelectCall (int j + il_clamped scrollOffset (int (length items)) (list_count height))] \<and>
    int j + il_clamped scrollOffset (int (length items)) (list_count height) < int (length items)"
proof -
  let ?lc = "list_count height" and ?len = "int (length items)"
  let ?off = "il_clamped scrollOffset ?len ?lc" and ?n = "nat (min (int (length items)) (list_count height))"
  note spots = addScrollList_spots [OF assms(1-3)]
  from spots(2) obtain bs where bs: "il_buttonlist s' = map (row_spot x y width ?off) [0..<?n] @ bs"
    "bar_spots x width (max 0 (?len - ?lc)) bs" by blast
  have j: "j < ?n" using assms(5) by linarith
  have "filter (hs_hit px py) (map (row_spot x y width ?off) [0..<?n]) = [row_spot x y width ?off j]"
    using assms by (intro only_row_hit [OF j]) auto
  moreover have "filter (hs_hit px py) bs = []" using bar_not_hit [OF bs(2) assms(7)] .
  ultimately have "il_calls (il_checkButtonClick page offs s') = il_calls s' @ [SelectCall (int j + ?off)]"
    by (simp add: click_calls assms(4) bs(1) spot_call_def row_spot_def)
  moreover have "0 < ?n" using j by linarith
  from clamped_in_range(2) [OF assms(1) this] have "int ?n + ?off \<le> ?len" .
  then have "int j + ?off < ?len" using j by linarith
  ultimately show ?thesis using spots(1) by blast
qed

text \<open>C21: every place the scroll bar of a drawn list can scroll to is an offset the list can show:
  from zero to the number of items without a row.\<close>

theorem scroll_targets_in_range:
  assumes "- 1 \<le> scrollOffset" and "il_buttonlist s = []"
    and "il_addScrollList x y width height items scrollOffset sel globals s = (r, s')"
    and "b \<in> set (il_buttonlist s')" and "hs_event b = ScrollTo t"
  shows "0 \<le> t \<and> t \<le> max 0 (int (length items) - list_count height)"
proof -
  from addScrollList_spots(2) [OF assms(1-3)] obtain bs where
    bs: "il_buttonlist s' = map (row_spot x y width (il_clamped scrollOffset (int (length items)) (list_count height)))
        [0..<nat (min (int (length items)) (list_count height))] @ bs"
    "bar_spots x width (max 0 (int (length items) - list_count height)) bs" by blast
  with assms(4,5) have "b \<in> set bs" by (auto simp: row_spot_def)
  with bs(2) assms(5) show ?thesis by (auto simp: bar_spots_def)
qed

text \<open>a list shorter than its area calls the scroll callback with 0 each time it is drawn,
  even when the offset is 0 already: a callback that draws the list again never ends.\<close>

theorem short_list_calls_back:
  assumes "int (length items) < list_count height" and "- 1 \<le> scrollOffset" and "il_buttonlist s = []"
    and "il_addScrollList x y width height items scrollOffset sel globals s = (r, s')"
  shows "il_calls s' = il_calls s @ [ScrollCall 0]"
  using addScrollList_spots(3) [OF assms(2-4)] assms(1,2)
  by (auto simp: il_clamped_def il_needs_clamp_def)

text \<open>a press on the bar does not remember where it was: the first move after the first press
  compares with 0 and scrolls by one although the pointer did not move, and no upper bound
  stops the offset.\<close>

theorem press_without_move_scrolls:
  assumes "il_mousey s = Fin 0" and "il_itemsizepixels s = Fin p" and "0 \<le> p"
    and "list_ex (\<lambda>b. hs_hit (fst (page_point (px, py) offs)) (snd (page_point (px, py) offs)) b \<and>
        hs_event b = DragBar) (il_buttonlist s)"
    and "p < py - snd offs"
  shows "\<exists>s'. il_canvasMouseMove py (Some (snd offs)) (il_canvasMouseDown (px, py) offs s) = Inr s' \<and>
    il_itemoffset s' = il_itemoffset s + 1 \<and> il_calls s' = il_calls s @ [ScrollCall (il_itemoffset s + 1)]"
  using assms by (simp add: il_canvasMouseDown_def il_canvasMouseMove_def split_beta Let_def)

text \<open>the rows and the scroll bar share a pixel column: a click there on the first row of a
  scrolled list selects an item and scrolls up.\<close>

theorem shared_column:
  assumes "0 < scrollOffset" "scrollOffset \<le> int (length items) - list_count height"
    and "0 < list_count height" and "il_buttonlist s = []"
    and "il_addScrollList x y width height items scrollOffset sel globals s = (r, s')"
    and "page_point page offs = (px, py)" and "px = x + width - 23" "24 \<le> width"
    and "y + 3 \<le> py" "py \<le> y + 23"
  shows "SelectCall scrollOffset \<in> set (il_calls (il_checkButtonClick page offs s')) \<and>
    ScrollCall (scrollOffset - 1) \<in> set (il_calls (il_checkButtonClick page offs s'))"
proof -
  let ?lc = "list_count height" and ?len = "int (length items)"
  have off: "il_clamped scrollOffset ?len ?lc = scrollOffset"
    using assms(1,2) by (simp add: il_clamped_def il_needs_clamp_def)
  have n: "0 < nat (min ?len ?lc)" using assms(1-3) by simp
  have row: "row_spot x y width scrollOffset 0 \<in> set (il_buttonlist s')"
    using addScrollList_spots(2) [OF _ assms(4,5)] assms(1) n off by force
  have up: "\<lparr>hs_startx = x + width - 23, hs_starty = Fin (y + 3), hs_endx = x + width - 23 + 20,
      hs_endy = Fin (y + 3 + 20), hs_event = ScrollTo (scrollOffset - 1)\<rparr> \<in> set (il_buttonlist s')"
    using addScrollList_up [OF _ assms(4,5)] assms(1) off by simp
  have "hs_hit px py (row_spot x y width scrollOffset 0)"
    using assms(7-10) by (simp add: row_spot_hit)
  moreover have "hs_hit px py \<lparr>hs_startx = x + width - 23, hs_starty = Fin (y + 3), hs_endx = x + width - 23 + 20,
      hs_endy = Fin (y + 3 + 20), hs_event = ScrollTo (scrollOffset - 1)\<rparr>"
    using assms(7-10) by (simp add: hs_hit_def)
  ultimately show ?thesis
    using row up by (force simp: click_calls assms(6) spot_call_def row_spot_def)
qed

section \<open>Seven segments\<close>

text \<open>The horizontal coordinates of a drawing.\<close>

fun gfx_xs :: "gfx list \<Rightarrow> real list" where
  "gfx_xs [] = []"
| "gfx_xs (MoveTo a b # cs) = a # gfx_xs cs"
| "gfx_xs (LineTo a b # cs) = a # gfx_xs cs"
| "gfx_xs (c # cs) = gfx_xs cs"

lemma gfx_xs_append [simp]: "gfx_xs (a @ b) = gfx_xs a @ gfx_xs b"
  by (induction a rule: gfx_xs.induct) auto

text \<open>Pairs with a first coordinate of 12 to 151, or the mark.\<close>

fun coords_ok :: "int list \<Rightarrow> bool" where
  "coords_ok (a # b # cs) \<longleftrightarrow> ((a = - 1 \<and> b = - 1) \<or> (12 \<le> a \<and> a \<le> 151)) \<and> coords_ok cs"
| "coords_ok _ \<longleftrightarrow> True"

lemma seg_path_bounds:
  "coords_ok cs \<Longrightarrow> 0 < scale \<Longrightarrow> p \<in> set (gfx_xs (seg_path sx sy scale f cs)) \<Longrightarrow>
   sx - scale / 2 \<le> p \<and> p \<le> sx + scale * 131 / 16"
proof (induction sx sy scale f cs rule: seg_path.induct)
  case (1 sx sy scale f a b cs)
  show ?case
  proof (cases "a = - 1 \<and> b = - 1")
    case True
    with 1 show ?thesis by auto
  next
    case False
    then have a: "12 \<le> a" "a \<le> 151" using 1(3) by auto
    have "- 8 * scale \<le> (of_int a - 20) * scale" "(of_int a - 20) * scale \<le> 131 * scale"
      using a 1(4) by (intro mult_right_mono; simp)+
    then have "sx - scale / 2 \<le> (of_int a - 20) * scale / 16 + sx \<and>
        (of_int a - 20) * scale / 16 + sx \<le> sx + scale * 131 / 16" by linarith
    with 1 False show ?thesis by (cases f) (auto simp: Let_def)
  qed
qed auto

lemma segments_ok: "sg \<in> set (segments_of c) \<Longrightarrow> coords_ok (segmentcoords ! (sg - 1))"
proof -
  have "\<forall>k \<in> {1, 2, 3, 4, 5, 6, 7, 8, 9 :: nat}. coords_ok (segmentcoords ! (k - 1))"
    by (simp add: segmentcoords_def)
  moreover assume "sg \<in> set (segments_of c)"
  then have "sg \<in> {1, 2, 3, 4, 5, 6, 7, 8, 9}"
    by (auto simp: segments_of_def split: if_splits)
  ultimately show ?thesis by blast
qed

lemma digit_bounds:
  assumes "0 < scale" and "p \<in> set (gfx_xs (sevensegmentDrawDigit x y c scale))"
  shows "x - scale / 2 \<le> p \<and> p \<le> x + scale * 131 / 16"
proof -
  have "gfx_xs (concat xs) = concat (map gfx_xs xs)" for xs by (induction xs) auto
  then obtain sg where sg: "sg \<in> set (segments_of c)"
    "p \<in> set (gfx_xs (sevensegmentDrawSegment x y sg scale))"
    using assms(2) by (auto simp: sevensegmentDrawDigit_def)
  then have "p \<in> set (gfx_xs (seg_path x y scale True (segmentcoords ! (sg - 1))))"
    by (simp add: sevensegmentDrawSegment_def)
  from seg_path_bounds [OF segments_ok [OF sg(1)] assms(1) this] show ?thesis .
qed

text \<open>characters of a seven segment text do not overlap: every point of a character lies
  left of every point of each later one, at every positive scale.\<close>

theorem digits_do_not_overlap:
  assumes "0 < scale" and "i < j"
    and "p \<in> set (gfx_xs (sevensegmentDrawDigit (x + real i * 11 * scale) y c scale))"
    and "q \<in> set (gfx_xs (sevensegmentDrawDigit (x + real j * 11 * scale) y d scale))"
  shows "p < q"
proof -
  have "(real i + 1) * (11 * scale) \<le> real j * (11 * scale)"
    using assms(1,2) by (intro mult_right_mono) auto
  then have "real i * 11 * scale + 11 * scale \<le> real j * 11 * scale" by (simp add: algebra_simps)
  with digit_bounds [OF assms(1,3)] digit_bounds [OF assms(1,4)] assms(1) show ?thesis by linarith
qed

text \<open>different characters of the display light different segments.\<close>

theorem digits_distinguishable:
  assumes "c \<in> set (js '' 0123456789.:-'')" and "d \<in> set (js '' 0123456789.:-'')"
    and "set (segments_of c) = set (segments_of d)"
  shows "c = d"
proof -
  have "distinct (map (\<lambda>c. sort (segments_of c)) (js '' 0123456789.:-''))"
    by (simp add: segments_of_def)
  then have inj: "inj_on (\<lambda>c. sort (segments_of c)) (set (js '' 0123456789.:-''))"
    by (simp only: distinct_map)
  have "sort (segments_of c) = sort (segments_of d)"
  proof -
    have "distinct (segments_of c)" for c by (simp add: segments_of_def)
    then show ?thesis
      using assms(3) by (metis sorted_list_of_set_sort_remdups distinct_remdups_id)
  qed
  from inj_onD [OF inj this assms(1,2)] show ?thesis .
qed
section \<open>The properties at concrete states\<close>

definition sample_list :: itemlist where
  "sample_list = snd (il_addScrollList 0 0 200 82 [[65], [66], [67], [68], [69]] 1 (- 1) (Some (1, 5))
     new_CanvasItemlist)"

lemma sample_count: "list_count 82 = 3"
  by (simp add: list_count_def)

theorem item_click_selects_witness:
  "il_calls (il_checkButtonClick (50, 60) (0, 0) sample_list) = il_calls sample_list @ [SelectCall 3]"
  using item_click_selects [of 1 new_CanvasItemlist 0 0 200 82 "[[65], [66], [67], [68], [69]]" "- 1"
      "Some (1, 5)" "fst (il_addScrollList 0 0 200 82 [[65], [66], [67], [68], [69]] 1 (- 1)
        (Some (1, 5)) new_CanvasItemlist)" sample_list "(50, 60)" "(0, 0)" 50 60 2]
  by (simp add: new_CanvasItemlist_def sample_list_def page_point_def sample_count il_clamped_def
      il_needs_clamp_def)

theorem scroll_targets_in_range_witness:
  "\<exists>b \<in> set (il_buttonlist sample_list). \<exists>t. hs_event b = ScrollTo t \<and> 0 \<le> t \<and> t \<le> 2"
proof -
  let ?r = "il_addScrollList 0 0 200 82 [[65], [66], [67], [68], [69]] 1 (- 1) (Some (1, 5)) new_CanvasItemlist"
  have eq: "?r = (fst ?r, sample_list)" by (simp add: sample_list_def)
  have nil: "il_buttonlist new_CanvasItemlist = []" by (simp add: new_CanvasItemlist_def)
  let ?b = "\<lparr>hs_startx = 0 + 200 - 23, hs_starty = Fin (0 + 3), hs_endx = 0 + 200 - 23 + 20,
      hs_endy = Fin (0 + 3 + 20), hs_event = ScrollTo (1 - 1)\<rparr>"
  have b: "?b \<in> set (il_buttonlist sample_list)"
    using addScrollList_up [OF _ nil eq] by (simp add: il_clamped_def il_needs_clamp_def sample_count)
  from scroll_targets_in_range [OF _ nil eq b, of 0] b show ?thesis
    by (intro bexI [OF _ b] exI [of _ 0]) (simp add: sample_count)
qed

theorem short_list_calls_back_witness:
  "il_calls (snd (il_addScrollList 0 0 200 82 [[65]] 0 (- 1) None new_CanvasItemlist)) = [ScrollCall 0]"
  using short_list_calls_back [of "[[65]]" 82 0 new_CanvasItemlist 0 0 200 "- 1" None
      "fst (il_addScrollList 0 0 200 82 [[65]] 0 (- 1) None new_CanvasItemlist)"
      "snd (il_addScrollList 0 0 200 82 [[65]] 0 (- 1) None new_CanvasItemlist)"]
  by (simp add: new_CanvasItemlist_def sample_count)

definition pressed_list :: itemlist where
  "pressed_list = new_CanvasItemlist\<lparr>il_itemsizepixels := Fin 2, il_buttonlist :=
     [\<lparr>hs_startx = 177, hs_starty = Fin 25, hs_endx = 197, hs_endy = Fin 50, hs_event = DragBar\<rparr>]\<rparr>"

theorem press_without_move_scrolls_witness:
  "\<exists>s'. il_canvasMouseMove 30 (Some 0) (il_canvasMouseDown (180, 30) (0, 0) pressed_list) = Inr s' \<and>
    il_itemoffset s' = 1"
  using press_without_move_scrolls [of pressed_list 2 180 30 "(0, 0)"]
  by (force simp: pressed_list_def new_CanvasItemlist_def page_point_def hs_hit_def)

theorem shared_column_witness:
  "SelectCall 1 \<in> set (il_calls (il_checkButtonClick (177, 10) (0, 0) sample_list)) \<and>
   ScrollCall 0 \<in> set (il_calls (il_checkButtonClick (177, 10) (0, 0) sample_list))"
  using shared_column [of 1 "[[65], [66], [67], [68], [69]]" 82 new_CanvasItemlist 0 0 200 "- 1"
      "Some (1, 5)" "fst (il_addScrollList 0 0 200 82 [[65], [66], [67], [68], [69]] 1 (- 1)
        (Some (1, 5)) new_CanvasItemlist)" sample_list "(177, 10)" "(0, 0)" 177 10]
  by (simp add: new_CanvasItemlist_def sample_list_def page_point_def sample_count)

theorem digits_do_not_overlap_witness:
  "(3::real) + 0 * 11 * 2 + (32 - 20) * 2 / 16 < (3::real) + 1 * 11 * 2 + (24 - 20) * 2 / 16"
  using digits_do_not_overlap [of 2 0 1 "3 + (32 - 20) * 2 / 16" 3 0 56 "25 + (24 - 20) * 2 / 16" 48]
  by (simp add: sevensegmentDrawDigit_def segments_of_def sevensegmentDrawSegment_def
      segmentcoords_def Let_def)

theorem digits_distinguishable_witness:
  "set (segments_of 54) \<noteq> set (segments_of 56)"
  using digits_distinguishable [of 54 56] by auto

end
