(* ===== verification/Unicode.thy ===== *)
theory Unicode
  imports Prelude
begin

text \<open>
  Strings as bytes: the Base64 functions of \<open>pagecameldefaultlayout.js\<close>, which carry the
  configuration of a page, and the UTF-8 functions of \<open>unicodehelpers.js\<close>. Both are built from
  \<open>encodeURIComponent\<close>, \<open>decodeURIComponent\<close>, \<open>escape\<close>, \<open>unescape\<close>, \<open>btoa\<close> and \<open>atob\<close> of the
  language, which are modelled here. \<open>None\<close> is the exception that they throw.
\<close>

section \<open>Code points, octets, percent signs\<close>

definition is_high :: "jschar \<Rightarrow> bool" where "is_high c \<longleftrightarrow> 55296 \<le> c \<and> c < 56320"
definition is_low :: "jschar \<Rightarrow> bool" where "is_low c \<longleftrightarrow> 56320 \<le> c \<and> c < 57344"

text \<open>The code points of a string; a surrogate without its partner is an error.\<close>

fun code_points :: "jsstring \<Rightarrow> nat list option" where
  "code_points [] = Some []"
| "code_points (c # cs) =
     (if is_low c then None
      else if is_high c
      then (case cs of [] \<Rightarrow> None
            | d # ds \<Rightarrow> if is_low d
                then map_option ((#) (65536 + (c - 55296) * 1024 + (d - 56320))) (code_points ds)
                else None)
      else map_option ((#) c) (code_points cs))"

definition utf16 :: "nat \<Rightarrow> jsstring" where
  "utf16 c =
     (if c < 65536 then [c] else [55296 + (c - 65536) div 1024, 56320 + (c - 65536) mod 1024])"

definition utf8 :: "nat \<Rightarrow> nat list" where
  "utf8 c =
     (if c < 128 then [c]
      else if c < 2048 then [192 + c div 64, 128 + c mod 64]
      else if c < 65536 then [224 + c div 4096, 128 + c div 64 mod 64, 128 + c mod 64]
      else [240 + c div 262144, 128 + c div 4096 mod 64, 128 + c div 64 mod 64, 128 + c mod 64])"

text \<open>The code point of two to four octets; overlong forms, surrogates and values beyond the last
  code point are errors.\<close>

definition utf8_value :: "nat list \<Rightarrow> nat option" where
  "utf8_value bs =
     (case bs of
        [a, b] \<Rightarrow> (let v = (a - 192) * 64 + (b - 128) in if 128 \<le> v then Some v else None)
      | [a, b, c] \<Rightarrow>
          (let v = (a - 224) * 4096 + (b - 128) * 64 + (c - 128)
           in if 2048 \<le> v \<and> \<not> (55296 \<le> v \<and> v < 57344) then Some v else None)
      | [a, b, c, d] \<Rightarrow>
          (let v = (a - 240) * 262144 + (b - 128) * 4096 + (c - 128) * 64 + (d - 128)
           in if 65536 \<le> v \<and> v \<le> 1114111 then Some v else None)
      | _ \<Rightarrow> None)"

definition upper_hex :: "nat \<Rightarrow> jschar" where
  "upper_hex d = (if d < 10 then 48 + d else 55 + d)"

definition percent_upper :: "nat \<Rightarrow> jsstring" where
  "percent_upper b = [37, upper_hex (b div 16), upper_hex (b mod 16)]"

definition hex_digit :: "jschar \<Rightarrow> nat option" where
  "hex_digit c = (case digit_value c of None \<Rightarrow> None | Some d \<Rightarrow> if d < 16 then Some d else None)"

text \<open>The number of the next two hexadecimal digits, and what comes after them.\<close>

fun hex2 :: "jsstring \<Rightarrow> (nat \<times> jsstring) option" where
  "hex2 (a # b # cs) =
     (case (hex_digit a, hex_digit b) of (Some x, Some y) \<Rightarrow> Some (16 * x + y, cs) | _ \<Rightarrow> None)"
| "hex2 _ = None"

section \<open>encodeURIComponent and decodeURIComponent\<close>

definition is_alnum :: "jschar \<Rightarrow> bool" where
  "is_alnum c \<longleftrightarrow> (48 \<le> c \<and> c \<le> 57) \<or> (65 \<le> c \<and> c \<le> 90) \<or> (97 \<le> c \<and> c \<le> 122)"

definition uri_unreserved :: "jschar \<Rightarrow> bool" where
  "uri_unreserved c \<longleftrightarrow> is_alnum c \<or> c \<in> {45, 95, 46, 33, 126, 42, 39, 40, 41}"

definition encodeURIComponent :: "jsstring \<Rightarrow> jsstring option" where
  "encodeURIComponent s =
     map_option (\<lambda>cs. concat (map (\<lambda>c. if uri_unreserved c then [c]
                                     else concat (map percent_upper (utf8 c))) cs))
       (code_points s)"

fun continuation :: "nat \<Rightarrow> jsstring \<Rightarrow> (nat list \<times> jsstring) option" where
  "continuation 0 s = Some ([], s)"
| "continuation (Suc n) s =
     (case s of [] \<Rightarrow> None
      | c # cs \<Rightarrow>
          if c \<noteq> 37 then None
          else (case hex2 cs of None \<Rightarrow> None
                | Some (b, r) \<Rightarrow>
                    if 128 \<le> b \<and> b < 192
                    then map_option (\<lambda>(bs, r'). (b # bs, r')) (continuation n r)
                    else None))"

text \<open>The number of continuation octets after a first octet.\<close>

definition followers :: "nat \<Rightarrow> nat option" where
  "followers b =
     (if b < 192 then None else if b < 224 then Some 1 else if b < 240 then Some 2
      else if b < 248 then Some 3 else None)"

lemma hex2_shorter: "hex2 s = Some (b, r) \<Longrightarrow> length r < length s"
  by (cases s rule: hex2.cases) (auto split: option.splits)

lemma continuation_shorter: "continuation n s = Some (bs, r) \<Longrightarrow> length r \<le> length s"
  by (induction n arbitrary: s bs r) (fastforce split: list.splits option.splits if_splits dest: hex2_shorter)+

function decodeURIComponent :: "jsstring \<Rightarrow> jsstring option" where
  "decodeURIComponent [] = Some []"
| "decodeURIComponent (c # cs) =
     (if c \<noteq> 37 then map_option ((#) c) (decodeURIComponent cs)
      else (case hex2 cs of None \<Rightarrow> None
            | Some (b, r) \<Rightarrow>
                if b < 128 then map_option ((#) b) (decodeURIComponent r)
                else (case followers b of None \<Rightarrow> None
                      | Some n \<Rightarrow>
                          (case continuation n r of None \<Rightarrow> None
                           | Some (bs, r') \<Rightarrow>
                               (case utf8_value (b # bs) of None \<Rightarrow> None
                                | Some cp \<Rightarrow> map_option ((@) (utf16 cp)) (decodeURIComponent r'))))))"
  by pat_completeness auto
termination
  by (relation "measure length") (auto dest!: hex2_shorter continuation_shorter)

section \<open>escape and unescape\<close>

definition escape_kept :: "jschar \<Rightarrow> bool" where
  "escape_kept c \<longleftrightarrow> is_alnum c \<or> c \<in> {64, 42, 95, 43, 45, 46, 47}"

definition escape_unit :: "jschar \<Rightarrow> jsstring" where
  "escape_unit c =
     (if escape_kept c then [c]
      else if c < 256 then percent_upper c
      else [37, 117, upper_hex (c div 4096), upper_hex (c div 256 mod 16), upper_hex (c div 16 mod 16),
            upper_hex (c mod 16)])"

definition js_escape :: "jsstring \<Rightarrow> jsstring" where
  "js_escape s = concat (map escape_unit s)"

text \<open>\<open>%uXXXX\<close>, \<open>%XX\<close>, or the unit itself.\<close>

definition unescape_head :: "jschar \<Rightarrow> jsstring \<Rightarrow> jschar \<times> jsstring" where
  "unescape_head c cs =
     (if c \<noteq> 37 then (c, cs)
      else (case (case cs of d # ds \<Rightarrow> if d = 117 then hex2 ds else None | [] \<Rightarrow> None) of
              Some (hi, r) \<Rightarrow> (case hex2 r of Some (lo, r') \<Rightarrow> (256 * hi + lo, r') | None \<Rightarrow> (c, cs))
            | None \<Rightarrow> (case hex2 cs of Some (b, r) \<Rightarrow> (b, r) | None \<Rightarrow> (c, cs))))"

lemma unescape_head_shorter: "length (snd (unescape_head c cs)) \<le> length cs"
  by (auto simp: unescape_head_def split: option.splits list.splits if_splits dest!: hex2_shorter)

function js_unescape :: "jsstring \<Rightarrow> jsstring" where
  "js_unescape [] = []"
| "js_unescape (c # cs) = (case unescape_head c cs of (d, r) \<Rightarrow> d # js_unescape r)"
  by pat_completeness auto
termination
  by (relation "measure length") (auto, metis le_imp_less_Suc snd_conv unescape_head_shorter)

section \<open>btoa and atob\<close>

definition b64_unit :: "nat \<Rightarrow> jschar" where
  "b64_unit n =
     (if n < 26 then 65 + n else if n < 52 then 71 + n else if n < 62 then n - 4
      else if n = 62 then 43 else 47)"

definition b64_value :: "jschar \<Rightarrow> nat option" where
  "b64_value c =
     (if 65 \<le> c \<and> c \<le> 90 then Some (c - 65) else if 97 \<le> c \<and> c \<le> 122 then Some (c - 71)
      else if 48 \<le> c \<and> c \<le> 57 then Some (c + 4) else if c = 43 then Some 62
      else if c = 47 then Some 63 else None)"

text \<open>The sextets of the bytes, and the bytes of sextets; left-over bits are dropped.\<close>

fun sextets :: "nat list \<Rightarrow> nat list" where
  "sextets (a # b # c # bs) =
     a div 4 # (a mod 4 * 16 + b div 16) # (b mod 16 * 4 + c div 64) # c mod 64 # sextets bs"
| "sextets [a, b] = [a div 4, a mod 4 * 16 + b div 16, b mod 16 * 4]"
| "sextets [a] = [a div 4, a mod 4 * 16]"
| "sextets [] = []"

fun octets :: "nat list \<Rightarrow> nat list" where
  "octets (w # x # y # z # ss) =
     (w * 4 + x div 16) # (x mod 16 * 16 + y div 4) # (y mod 4 * 64 + z) # octets ss"
| "octets [w, x, y] = [w * 4 + x div 16, x mod 16 * 16 + y div 4]"
| "octets [w, x] = [w * 4 + x div 16]"
| "octets _ = []"

definition btoa :: "jsstring \<Rightarrow> jsstring option" where
  "btoa s =
     (if list_ex (\<lambda>c. 256 \<le> c) s then None
      else Some (map b64_unit (sextets s) @ replicate ((3 - length s mod 3) mod 3) 61))"

definition drop_last_pad :: "jsstring \<Rightarrow> jsstring" where
  "drop_last_pad s = (if s \<noteq> [] \<and> last s = 61 then butlast s else s)"

definition atob :: "jsstring \<Rightarrow> jsstring option" where
  "atob s =
     (let t = filter (\<lambda>c. c \<notin> {9, 10, 12, 13, 32}) s;
          t1 = (if length t mod 4 = 0 then drop_last_pad (drop_last_pad t) else t)
      in if length t1 mod 4 = 1 \<or> list_ex (\<lambda>c. b64_value c = None) t1 then None
         else Some (octets (map (\<lambda>c. the (b64_value c)) t1)))"

section \<open>The functions of the page\<close>

definition is_upper_hex :: "jschar \<Rightarrow> bool" where
  "is_upper_hex c \<longleftrightarrow> (48 \<le> c \<and> c \<le> 57) \<or> (65 \<le> c \<and> c \<le> 70)"

text \<open>\<open>replace(/%([0-9A-F]{2})/g, ...)\<close> with \<open>String.fromCharCode('0x' + p1)\<close>.\<close>

fun toSolidBytes :: "jsstring \<Rightarrow> jsstring" where
  "toSolidBytes [] = []"
| "toSolidBytes (c # cs) =
     (case cs of
        a # b # r \<Rightarrow>
          if c = 37 \<and> is_upper_hex a \<and> is_upper_hex b
          then num_of_digits 16 [a, b] # toSolidBytes r
          else c # toSolidBytes cs
      | _ \<Rightarrow> c # toSolidBytes cs)"

definition b64EncodeUnicode :: "jsstring \<Rightarrow> jsstring option" where
  "b64EncodeUnicode s =
     (case encodeURIComponent s of None \<Rightarrow> None | Some u \<Rightarrow> btoa (toSolidBytes u))"

text \<open>\<open>'%' + ('00' + c.charCodeAt(0).toString(16)).slice(-2)\<close>.\<close>

definition percent_byte :: "jschar \<Rightarrow> jsstring" where
  "percent_byte c = (let h = [48, 48] @ nat_to_string 16 c in 37 # drop (length h - 2) h)"

definition b64DecodeUnicode :: "jsstring \<Rightarrow> jsstring option" where
  "b64DecodeUnicode str =
     (case atob str of None \<Rightarrow> None
      | Some bytes \<Rightarrow> decodeURIComponent (concat (map percent_byte bytes)))"

definition encode_utf8 :: "jsstring \<Rightarrow> jsstring option" where
  "encode_utf8 s = map_option js_unescape (encodeURIComponent s)"

definition decode_utf8 :: "jsstring \<Rightarrow> jsstring option" where
  "decode_utf8 s = decodeURIComponent (js_escape s)"

section \<open>Code points and their octets\<close>

definition scalar :: "nat \<Rightarrow> bool" where
  "scalar c \<longleftrightarrow> c < 55296 \<or> 57344 \<le> c \<and> c \<le> 1114111"

lemma surrogate_pair:
  assumes "is_high c" "is_low d"
  defines "v \<equiv> 65536 + (c - 55296) * 1024 + (d - 56320)"
  shows "scalar v" "utf16 v = [c, d]"
proof -
  from assms(1) obtain x where x: "c = 55296 + x" "x < 1024"
    by (intro that [of "c - 55296"]) (auto simp: is_high_def)
  from assms(2) obtain y where y: "d = 56320 + y" "y < 1024"
    by (intro that [of "d - 56320"]) (auto simp: is_low_def)
  have v: "v = 65536 + (x * 1024 + y)" by (simp add: v_def x y)
  have "x * 1024 + y < 1048576" using x y by linarith
  then show "scalar v" by (simp add: v scalar_def)
  show "utf16 v = [c, d]" using x y by (simp add: v utf16_def)
qed

lemma code_points_scalar:
  "code_points s = Some cs \<Longrightarrow> \<forall>c\<in>set s. c < 65536 \<Longrightarrow>
    list_all scalar cs \<and> concat (map utf16 cs) = s"
proof (induction s arbitrary: cs rule: code_points.induct)
  case (2 c xs)
  show ?case
  proof (cases "is_high c")
    case False
    then show ?thesis using 2 False
      by (auto simp: scalar_def is_high_def is_low_def utf16_def split: if_splits)
  next
    case True
    then obtain d ds where ds: "xs = d # ds" "is_low d" "code_points ds \<noteq> None"
      using "2.prems" by (auto simp: is_high_def is_low_def split: if_splits list.splits)
    then obtain es where es: "code_points ds = Some es" by auto
    have n: "\<not> is_low c" using True by (auto simp: is_high_def is_low_def)
    have "list_all scalar es \<and> concat (map utf16 es) = ds"
      using "2.IH"(1) [OF n True ds(1)] ds es "2.prems" by simp
    then show ?thesis using "2.prems"(1) True ds es n surrogate_pair [OF True ds(2)] by auto
  qed
qed simp

lemma utf8_octets: "scalar c \<Longrightarrow> b \<in> set (utf8 c) \<Longrightarrow> b < 256"
  by (auto simp: utf8_def scalar_def split: if_splits)

lemma utf8_ascii: "c < 128 \<Longrightarrow> utf8 c = [c]"
  by (simp add: utf8_def)

lemma split_octets:
  "c div 4096 * 4096 + c div 64 mod 64 * 64 + c mod 64 = (c :: nat)"
  "c div 262144 * 262144 + c div 4096 mod 64 * 4096 + c div 64 mod 64 * 64 + c mod 64 = c"
proof -
  have "c = c div 64 * 64 + c mod 64" by simp
  moreover have "c div 64 = c div 4096 * 64 + c div 64 mod 64"
    using div_mod_decomp [of "c div 64" 64] by (simp add: div_mult2_eq [symmetric])
  moreover have "c div 4096 = c div 262144 * 64 + c div 4096 mod 64"
    using div_mod_decomp [of "c div 4096" 64] by (simp add: div_mult2_eq [symmetric])
  ultimately show "c div 4096 * 4096 + c div 64 mod 64 * 64 + c mod 64 = c"
    "c div 262144 * 262144 + c div 4096 mod 64 * 4096 + c div 64 mod 64 * 64 + c mod 64 = c"
    by linarith+
qed

text \<open>The octets of a code point beyond ASCII: a first one that tells their number, continuation
  octets, and the code point again.\<close>

lemma utf8_parts:
  assumes "scalar c" "128 \<le> c"
  obtains b bs where "utf8 c = b # bs" "128 \<le> b" "b < 256" "followers b = Some (length bs)"
    "\<forall>x\<in>set bs. 128 \<le> x \<and> x < 192" "utf8_value (b # bs) = Some c"
proof -
  consider "c < 2048" | "2048 \<le> c" "c < 65536" | "65536 \<le> c" by linarith
  then show ?thesis
  proof cases
    case 1
    have "c div 64 * 64 + c mod 64 = c" by simp
    moreover have "2 \<le> c div 64" "c div 64 < 32" using assms 1 by (simp_all add: div_greater_zero_iff less_mult_imp_div_less)
    ultimately show ?thesis using assms 1
      by (intro that [of "192 + c div 64" "[128 + c mod 64]"]) (simp_all add: utf8_def followers_def utf8_value_def)
  next
    case 2
    have "c div 4096 * 4096 + c div 64 mod 64 * 64 + c mod 64 = c"
      by (rule split_octets(1))
    moreover have "c div 4096 < 16" using 2 by (simp add: less_mult_imp_div_less)
    ultimately show ?thesis using assms 2
      by (intro that [of "224 + c div 4096" "[128 + c div 64 mod 64, 128 + c mod 64]"])
        (auto simp: utf8_def followers_def utf8_value_def scalar_def)
  next
    case 3
    have "c div 262144 * 262144 + c div 4096 mod 64 * 4096 + c div 64 mod 64 * 64 + c mod 64 = c"
      by (rule split_octets(2))
    moreover have "c div 262144 < 8" using assms by (intro less_mult_imp_div_less) (auto simp: scalar_def)
    ultimately show ?thesis using assms 3
      by (intro that [of "240 + c div 262144" "[128 + c div 4096 mod 64, 128 + c div 64 mod 64, 128 + c mod 64]"])
        (simp_all add: utf8_def followers_def utf8_value_def scalar_def)
  qed
qed

section \<open>Codes of octets\<close>

lemma hex_digit_unit: "d < 16 \<Longrightarrow> hex_digit (upper_hex d) = Some d \<and> hex_digit (digit_unit d) = Some d"
  by (auto simp: hex_digit_def digit_value_def upper_hex_def digit_unit_def)

lemma hex2_upper: "b < 256 \<Longrightarrow> hex2 (upper_hex (b div 16) # upper_hex (b mod 16) # r) = Some (b, r)"
  by (simp add: hex_digit_unit)

text \<open>A code of octets that \<open>decodeURIComponent\<close> reads: an octet stands for itself, when it is
  ASCII but not the percent sign, or is a percent sign and two digits.\<close>

locale octet_code =
  fixes p :: "nat \<Rightarrow> jsstring"
  assumes code: "b < 256 \<Longrightarrow> (b < 128 \<and> b \<noteq> 37 \<and> p b = [b]) \<or>
    (\<exists>x y. p b = [37, x, y] \<and> (\<forall>r. hex2 (x # y # r) = Some (b, r)))"
begin

abbreviation coded :: "nat list \<Rightarrow> jsstring" where
  "coded bs \<equiv> concat (map p bs)"

lemma continuation_coded:
  "\<forall>b\<in>set bs. 128 \<le> b \<and> b < 192 \<Longrightarrow> continuation (length bs) (coded bs @ r) = Some (bs, r)"
proof (induction bs)
  case (Cons b bs)
  then obtain x y where "p b = [37, x, y]" "\<forall>r. hex2 (x # y # r) = Some (b, r)"
    using code [of b] by fastforce
  then show ?case using Cons by simp
qed simp

lemma decode_ascii: "b < 128 \<Longrightarrow> decodeURIComponent (p b @ r) = map_option ((#) b) (decodeURIComponent r)"
  using code [of b] by fastforce

lemma decode_scalar:
  assumes "scalar c"
  shows "decodeURIComponent (coded (utf8 c) @ r) = map_option ((@) (utf16 c)) (decodeURIComponent r)"
proof (cases "c < 128")
  case True
  then have "(@) (utf16 c) = (#) c" by (auto simp: utf16_def)
  then show ?thesis using True by (simp add: utf8_ascii decode_ascii)
next
  case False
  then obtain b bs where u: "utf8 c = b # bs" "128 \<le> b" "b < 256" "followers b = Some (length bs)"
    "\<forall>x\<in>set bs. 128 \<le> x \<and> x < 192" "utf8_value (b # bs) = Some c"
    using utf8_parts [of c] assms by (metis not_le)
  obtain x y where "p b = [37, x, y]" "\<forall>r. hex2 (x # y # r) = Some (b, r)"
    using code [of b] u(2,3) by fastforce
  then show ?thesis using u continuation_coded [OF u(5), of r] by simp
qed

lemma decode_scalars:
  "list_all scalar cs \<Longrightarrow> decodeURIComponent (coded (concat (map utf8 cs))) = Some (concat (map utf16 cs))"
  by (induction cs) (simp_all add: decode_scalar)

end

interpretation esc: octet_code escape_unit
  using hex2_upper by unfold_locales (auto simp: escape_unit_def escape_kept_def is_alnum_def percent_upper_def)

lemma nat_to_string_hex: "b < 256 \<Longrightarrow> nat_to_string 16 b =
    (if b < 16 then [digit_unit b] else [digit_unit (b div 16), digit_unit (b mod 16)])"
  using less_mult_imp_div_less [of b 16 16]
  by (simp add: nat_to_string_def digits_of.simps [of 16 b] digits_of.simps [of 16 "b div 16"])

lemma percent_byte_eq: "b < 256 \<Longrightarrow> percent_byte b = [37, digit_unit (b div 16), digit_unit (b mod 16)]"
  by (simp add: percent_byte_def nat_to_string_hex Let_def digit_unit_def)

interpretation pct: octet_code percent_byte
  using hex_digit_unit by unfold_locales (auto simp: percent_byte_eq)

text \<open>The octets of an encoded component: each stands for itself or is percent-encoded.\<close>

definition uri_octet :: "nat \<Rightarrow> jsstring" where
  "uri_octet b = (if uri_unreserved b then [b] else percent_upper b)"

lemma unreserved_ascii: "uri_unreserved c \<Longrightarrow> c < 128 \<and> c \<noteq> 37"
  by (auto simp: uri_unreserved_def is_alnum_def)

lemma utf8_reserved: "\<not> c < 128 \<Longrightarrow> scalar c \<Longrightarrow> b \<in> set (utf8 c) \<Longrightarrow> \<not> uri_unreserved b"
  using utf8_parts [of c] by (metis not_le order_trans set_ConsD unreserved_ascii not_less)

lemma encode_octets:
  assumes "code_points s = Some cs" "list_all scalar cs"
  shows "encodeURIComponent s = Some (concat (map uri_octet (concat (map utf8 cs))))"
proof -
  have "(if uri_unreserved c then [c] else concat (map percent_upper (utf8 c))) = concat (map uri_octet (utf8 c))"
    if "scalar c" for c
  proof (cases "c < 128")
    case True
    then show ?thesis by (simp add: utf8_ascii uri_octet_def)
  next
    case False
    then have "map uri_octet (utf8 c) = map percent_upper (utf8 c)"
      using utf8_reserved [OF False that] by (simp add: uri_octet_def)
    then have "concat (map uri_octet (utf8 c)) = concat (map percent_upper (utf8 c))" by (simp only:)
    then show ?thesis using False unreserved_ascii [of c] by auto
  qed
  then have "map (\<lambda>c. if uri_unreserved c then [c] else concat (map percent_upper (utf8 c))) cs
      = map (\<lambda>c. concat (map uri_octet (utf8 c))) cs"
    using assms(2) by (simp add: list_all_iff)
  moreover have "concat (map uri_octet (concat (map utf8 cs))) = concat (map (\<lambda>c. concat (map uri_octet (utf8 c))) cs)"
    by (induction cs) simp_all
  ultimately show ?thesis using assms(1) by (simp only: encodeURIComponent_def option.map)
qed

lemma upper_hex_digit: "d < 16 \<Longrightarrow> is_upper_hex (upper_hex d)"
  by (simp add: is_upper_hex_def upper_hex_def)

lemma num_of_percent: "b < 256 \<Longrightarrow> num_of_digits 16 [upper_hex (b div 16), upper_hex (b mod 16)] = b"
  using hex_digit_unit [of "b div 16"] hex_digit_unit [of "b mod 16"] less_mult_imp_div_less [of b 16 16]
  by (auto simp: num_of_digits_def hex_digit_def split: option.splits if_splits)

lemma toSolidBytes_keep: "c \<noteq> 37 \<Longrightarrow> toSolidBytes (c # cs) = c # toSolidBytes cs"
  by (cases cs rule: hex2.cases) simp_all

lemma toSolidBytes_octets:
  "\<forall>b\<in>set bs. b < 256 \<Longrightarrow> toSolidBytes (concat (map uri_octet bs)) = bs"
proof (induction bs)
  case (Cons b bs)
  then show ?case
    using unreserved_ascii [of b] less_mult_imp_div_less [of b 16 16] num_of_percent [of b]
    by (auto simp: uri_octet_def percent_upper_def toSolidBytes_keep upper_hex_digit
        simp del: toSolidBytes.simps(2)) (simp add: percent_upper_def upper_hex_digit)
qed simp

lemma unescape_keep: "c \<noteq> 37 \<Longrightarrow> js_unescape (c # cs) = c # js_unescape cs"
  by (simp add: unescape_head_def)

lemma unescape_percent: "b < 256 \<Longrightarrow> js_unescape (percent_upper b @ r) = b # js_unescape r"
  using hex2_upper [of b r] less_mult_imp_div_less [of b 16 16]
  by (auto simp: percent_upper_def unescape_head_def upper_hex_def simp del: hex2.simps)

lemma unescape_octets:
  "\<forall>b\<in>set bs. b < 256 \<Longrightarrow> js_unescape (concat (map uri_octet bs)) = bs"
proof (induction bs)
  case (Cons b bs)
  then show ?case
    using unreserved_ascii [of b] by (auto simp: uri_octet_def unescape_percent unescape_keep simp del: js_unescape.simps(2))
qed simp

section \<open>Base64\<close>

lemma b64_value_unit: "n < 64 \<Longrightarrow> b64_value (b64_unit n) = Some n"
  by (auto simp: b64_value_def b64_unit_def)

lemma b64_unit_letter: "n < 64 \<Longrightarrow> b64_unit n \<noteq> 61 \<and> b64_unit n \<notin> {9, 10, 12, 13, 32}"
  by (auto simp: b64_unit_def)

lemma sextets_small: "\<forall>b\<in>set bs. b < 256 \<Longrightarrow> x \<in> set (sextets bs) \<Longrightarrow> x < 64"
proof (induction bs rule: sextets.induct)
  case (1 a b c bs)
  then show ?case by (auto simp: less_mult_imp_div_less)
qed (auto simp: less_mult_imp_div_less)

lemma octets_sextets: "\<forall>b\<in>set bs. b < 256 \<Longrightarrow> octets (sextets bs) = bs"
  by (induction bs rule: sextets.induct) auto

lemma sextets_length: "(length (sextets bs) + (3 - length bs mod 3) mod 3) mod 4 = 0
    \<and> length (sextets bs) mod 4 \<noteq> 1"
  by (induction bs rule: sextets.induct) auto

lemma drop_last_pad_append: "drop_last_pad (s @ [61]) = s"
  by (simp add: drop_last_pad_def)

lemma drop_last_pad_keep: "s = [] \<or> last s \<noteq> 61 \<Longrightarrow> drop_last_pad s = s"
  by (auto simp: drop_last_pad_def)

lemma strip_pad:
  assumes "n \<le> 2" "\<forall>c\<in>set s. c \<noteq> 61"
  shows "drop_last_pad (drop_last_pad (s @ replicate n 61)) = s"
proof -
  have k: "drop_last_pad s = s" using assms(2) by (intro drop_last_pad_keep) (metis last_in_set)
  consider "n = 0" | "n = 1" | "n = 2" using assms(1) by linarith
  then show ?thesis
    using k drop_last_pad_append [of s] drop_last_pad_append [of "s @ [61]"]
    by cases (simp_all add: numeral_2_eq_2)
qed

lemma atob_btoa:
  assumes "\<forall>b\<in>set bs. b < 256"
  obtains e where "btoa bs = Some e" "atob e = Some bs" "\<forall>c\<in>set e. b64_value c \<noteq> None \<or> c = 61"
proof -
  define n where "n = (3 - length bs mod 3) mod 3"
  define body where "body = map b64_unit (sextets bs)"
  have small: "\<forall>x\<in>set (sextets bs). x < 64" using sextets_small [OF assms] by blast
  have letters: "\<forall>c\<in>set body. b64_value c \<noteq> None \<and> c \<noteq> 61 \<and> c \<notin> {9, 10, 12, 13, 32}"
    using small b64_value_unit b64_unit_letter by (auto simp: body_def)
  have vals: "map (\<lambda>c. the (b64_value c)) body = sextets bs"
    using small b64_value_unit by (simp add: body_def map_idI)
  have len: "(length body + n) mod 4 = 0" "length body mod 4 \<noteq> 1"
    using sextets_length [of bs] by (simp_all add: body_def n_def)
  have f: "filter (\<lambda>c. c \<notin> {9, 10, 12, 13, 32}) (body @ replicate n 61) = body @ replicate n 61"
    by (rule filter_True) (use letters in \<open>simp add: ball_Un set_replicate_conv_if\<close>)
  have "atob (body @ replicate n 61) = Some (octets (sextets bs))"
  proof -
    have "drop_last_pad (drop_last_pad (body @ replicate n 61)) = body"
      using letters by (intro strip_pad) (auto simp: n_def)
    moreover have "\<not> list_ex (\<lambda>c. b64_value c = None) body"
      using letters by (auto simp: list_ex_iff)
    ultimately show ?thesis using f len vals by (simp add: atob_def Let_def)
  qed
  moreover have "btoa bs = Some (body @ replicate n 61)"
    using assms by (auto simp: btoa_def list_ex_iff body_def n_def)
  ultimately show ?thesis using letters octets_sextets [OF assms]
    by (intro that) (auto simp: octets_sextets [OF assms])
qed

section \<open>The functions of the page\<close>

lemma encoded_bytes:
  assumes "\<forall>c\<in>set s. c < 65536" "code_points s = Some cs"
  shows "encodeURIComponent s = Some (concat (map uri_octet (concat (map utf8 cs))))"
    and "\<forall>b\<in>set (concat (map utf8 cs)). b < 256"
    and "list_all scalar cs" and "concat (map utf16 cs) = s"
proof -
  have sc: "list_all scalar cs \<and> concat (map utf16 cs) = s" using code_points_scalar assms by blast
  then show "encodeURIComponent s = Some (concat (map uri_octet (concat (map utf8 cs))))"
    using encode_octets [OF assms(2)] by blast
  show "\<forall>b\<in>set (concat (map utf8 cs)). b < 256"
    using sc utf8_octets by (fastforce simp: list_all_iff)
qed (use code_points_scalar assms in blast)+

text \<open>C25: a string whose surrogates are paired comes back from its Base64 form, which consists of the
  letters of Base64 and padding only.\<close>

theorem b64_unicode_roundtrip:
  assumes "\<forall>c\<in>set s. c < 65536" "code_points s \<noteq> None"
  shows "\<exists>e. b64EncodeUnicode s = Some e \<and> b64DecodeUnicode e = Some s \<and>
    (\<forall>c\<in>set e. b64_value c \<noteq> None \<or> c = 61)"
proof -
  obtain cs where cs: "code_points s = Some cs" using assms(2) by blast
  note B = encoded_bytes [OF assms(1) cs]
  obtain e where e: "btoa (concat (map utf8 cs)) = Some e" "atob e = Some (concat (map utf8 cs))"
    "\<forall>c\<in>set e. b64_value c \<noteq> None \<or> c = 61"
    using atob_btoa [OF B(2)] by blast
  have "b64EncodeUnicode s = Some e"
    using e(1) B(1) toSolidBytes_octets [OF B(2)] by (simp add: b64EncodeUnicode_def)
  moreover have "b64DecodeUnicode e = Some s"
    using e(2) pct.decode_scalars [OF B(3)] B(4) by (simp add: b64DecodeUnicode_def)
  ultimately show ?thesis using e(3) by blast
qed

text \<open>\<open>encode_utf8\<close> gives the octets of the code points, one unit each, and \<open>decode_utf8\<close>
  takes them back.\<close>

theorem utf8_roundtrip:
  assumes "\<forall>c\<in>set s. c < 65536" "code_points s = Some cs"
  shows "encode_utf8 s = Some (concat (map utf8 cs)) \<and> decode_utf8 (concat (map utf8 cs)) = Some s"
proof -
  note B = encoded_bytes [OF assms]
  show ?thesis
    using B(1,4) unescape_octets [OF B(2)] esc.decode_scalars [OF B(3)]
    by (simp add: encode_utf8_def decode_utf8_def js_escape_def)
qed

text \<open>encoding fails exactly on a string with a surrogate without its partner.\<close>

theorem encoding_fails_iff:
  assumes "\<forall>c\<in>set s. c < 65536"
  shows "b64EncodeUnicode s = None \<longleftrightarrow> code_points s = None"
    and "encode_utf8 s = None \<longleftrightarrow> code_points s = None"
proof -
  have "b64EncodeUnicode s \<noteq> None" if c: "code_points s = Some cs" for cs
  proof -
    note B = encoded_bytes [OF assms c]
    obtain e where "btoa (concat (map utf8 cs)) = Some e" using atob_btoa [OF B(2)] by blast
    then show ?thesis using B(1) toSolidBytes_octets [OF B(2)] by (simp add: b64EncodeUnicode_def)
  qed
  then show "b64EncodeUnicode s = None \<longleftrightarrow> code_points s = None"
    by (cases "code_points s") (auto simp: b64EncodeUnicode_def encodeURIComponent_def)
  show "encode_utf8 s = None \<longleftrightarrow> code_points s = None"
    by (simp add: encode_utf8_def encodeURIComponent_def)
qed

text \<open>A letter, a letter with an accent, the Euro sign and a code point beyond 16 bits.\<close>

definition sample_text :: jsstring where
  "sample_text = [65, 228, 8364, 55357, 56832]"

theorem b64_unicode_roundtrip_witness:
  "b64EncodeUnicode sample_text = Some (js ''QcOk4oKs8J+YgA=='') \<and>
   b64DecodeUnicode (js ''QcOk4oKs8J+YgA=='') = Some sample_text"
proof -
  have u: "encodeURIComponent sample_text = Some (js ''A%C3%A4%E2%82%AC%F0%9F%98%80'')"
    by (simp add: encodeURIComponent_def sample_text_def is_high_def is_low_def uri_unreserved_def
        is_alnum_def utf8_def percent_upper_def upper_hex_def)
  have b: "toSolidBytes (js ''A%C3%A4%E2%82%AC%F0%9F%98%80'') = [65, 195, 164, 226, 130, 172, 240, 159, 152, 128]"
    using toSolidBytes_octets [of "[65, 195, 164, 226, 130, 172, 240, 159, 152, 128]"]
    by (simp add: uri_octet_def uri_unreserved_def is_alnum_def percent_upper_def upper_hex_def
        del: toSolidBytes.simps)
  have e: "b64EncodeUnicode sample_text = Some (js ''QcOk4oKs8J+YgA=='')"
  proof -
    have "replicate 2 (61::nat) = [61, 61]" by (simp add: numeral_2_eq_2)
    then show ?thesis unfolding b64EncodeUnicode_def u option.case b by (simp add: btoa_def b64_unit_def)
  qed
  have "\<forall>c\<in>set sample_text. c < 65536" "code_points sample_text \<noteq> None"
    by (simp_all add: sample_text_def is_high_def is_low_def)
  from b64_unicode_roundtrip [OF this] e show ?thesis by simp
qed

theorem utf8_roundtrip_witness:
  "decode_utf8 [65, 195, 164, 226, 130, 172, 240, 159, 152, 128] = Some sample_text"
  using utf8_roundtrip [of sample_text "[65, 228, 8364, 128512]"]
  by (simp add: sample_text_def is_high_def is_low_def utf8_def)

theorem encoding_fails_iff_witness:
  "b64EncodeUnicode [55357] = None"
  using encoding_fails_iff(1) [of "[55357]"] by (simp add: is_high_def is_low_def)

end
