(* ===== verification/Sha256.thy ===== *)
theory Sha256
  imports Prelude "HOL-Library.Word"
begin

unbundle bit_operations_syntax

text \<open>
  The SHA-256 routine the page uses (\<open>sha256.js\<close>), translated with JavaScript's numbers: sums
  are whole numbers that are not reduced, the bit operators convert to 32 bits, the message
  schedule is computed in place in an array of 16 entries, and the state lives in three global
  arrays. The second half states the hash of FIPS 180-4 on 32-bit words, with a schedule of 64
  words, and proves that the routine computes it. The unreduced sums stay exact as numbers: a word
  of the schedule grows to at most \<open>2 ^ 43\<close> in 48 steps, and an intermediate hash by at most
  \<open>2 ^ 31\<close> per block, so that strings below \<open>2 ^ 27\<close> characters keep every sum below \<open>2 ^ 53\<close>.
\<close>

section \<open>The bit operators of JavaScript\<close>

text \<open>Operands are taken modulo \<open>2 ^ 32\<close>; the result is signed, except for \<open>>>>\<close>.\<close>

type_synonym w32 = "32 word"

abbreviation i32 :: "int \<Rightarrow> w32" where
  "i32 x \<equiv> word_of_int x"

definition i_and :: "int \<Rightarrow> int \<Rightarrow> int" where "i_and x y = sint (i32 x AND i32 y)"
definition i_or :: "int \<Rightarrow> int \<Rightarrow> int" where "i_or x y = sint (i32 x OR i32 y)"
definition i_xor :: "int \<Rightarrow> int \<Rightarrow> int" where "i_xor x y = sint (i32 x XOR i32 y)"
definition i_not :: "int \<Rightarrow> int" where "i_not x = sint (NOT (i32 x))"
definition i_shl :: "int \<Rightarrow> nat \<Rightarrow> int" where "i_shl x n = sint (push_bit n (i32 x))"
definition i_shr :: "int \<Rightarrow> nat \<Rightarrow> int" where "i_shr x n = sint (signed_drop_bit n (i32 x))"
definition i_ushr :: "int \<Rightarrow> nat \<Rightarrow> int" where "i_ushr x n = uint (drop_bit n (i32 x))"

section \<open>The routine\<close>

definition rotateRight :: "nat \<Rightarrow> int \<Rightarrow> int" where
  "rotateRight n x = i_or (i_ushr x n) (i_shl x (32 - n))"

definition choice :: "int \<Rightarrow> int \<Rightarrow> int \<Rightarrow> int" where
  "choice x y z = i_xor (i_and x y) (i_and (i_not x) z)"

definition majority :: "int \<Rightarrow> int \<Rightarrow> int \<Rightarrow> int" where
  "majority x y z = i_xor (i_xor (i_and x y) (i_and x z)) (i_and y z)"

definition sha256_Sigma0 :: "int \<Rightarrow> int" where
  "sha256_Sigma0 x = i_xor (i_xor (rotateRight 2 x) (rotateRight 13 x)) (rotateRight 22 x)"

definition sha256_Sigma1 :: "int \<Rightarrow> int" where
  "sha256_Sigma1 x = i_xor (i_xor (rotateRight 6 x) (rotateRight 11 x)) (rotateRight 25 x)"

definition sha256_sigma0 :: "int \<Rightarrow> int" where
  "sha256_sigma0 x = i_xor (i_xor (rotateRight 7 x) (rotateRight 18 x)) (i_ushr x 3)"

definition sha256_sigma1 :: "int \<Rightarrow> int" where
  "sha256_sigma1 x = i_xor (i_xor (rotateRight 17 x) (rotateRight 19 x)) (i_ushr x 10)"

text \<open>The schedule array is changed in place and its new entry returned; \<open>j & 0x0f\<close> of an
  index is its remainder by 16.\<close>

definition sha256_expand :: "int list \<Rightarrow> nat \<Rightarrow> int \<times> int list" where
  "sha256_expand W j =
     (let v = W ! (j mod 16) + (sha256_sigma1 (W ! ((j + 14) mod 16)) + W ! ((j + 9) mod 16)
                + sha256_sigma0 (W ! ((j + 1) mod 16)))
      in (v, W[j mod 16 := v]))"

definition K256 :: "int list" where
  "K256 =
     [1116352408, 1899447441, 3049323471, 3921009573, 961987163, 1508970993,
      2453635748, 2870763221, 3624381080, 310598401, 607225278, 1426881987,
      1925078388, 2162078206, 2614888103, 3248222580, 3835390401, 4022224774,
      264347078, 604807628, 770255983, 1249150122, 1555081692, 1996064986,
      2554220882, 2821834349, 2952996808, 3210313671, 3336571891, 3584528711,
      113926993, 338241895, 666307205, 773529912, 1294757372, 1396182291,
      1695183700, 1986661051, 2177026350, 2456956037, 2730485921, 2820302411,
      3259730800, 3345764771, 3516065817, 3600352804, 4094571909, 275423344,
      430227734, 506948616, 659060556, 883997877, 958139571, 1322822218,
      1537002063, 1747873779, 1955562222, 2024104815, 2227730452, 2361852424,
      2428436474, 2756734187, 3204031479, 3329325298]"

definition safe_add :: "int \<Rightarrow> int \<Rightarrow> int" where
  "safe_add x y =
     (let lsw = i_and x 65535 + i_and y 65535;
          msw = i_shr x 16 + i_shr y 16 + i_shr lsw 16
      in i_or (i_shl msw 16) (i_and lsw 65535))"

record sha =
  sha_ihash :: "int list"
  sha_count0 :: int
  sha_count1 :: int
  sha_buffer :: "int list"

text \<open>An entry of the buffer that was never written is \<open>undefined\<close>, which the bit operators
  take as 0.\<close>

definition sha256_init :: sha where
  "sha256_init =
     \<lparr>sha_ihash = [1779033703, 3144134277, 1013904242, 2773480762, 1359893119, 2600822924, 528734635, 1541459225],
      sha_count0 = 0, sha_count1 = 0, sha_buffer = replicate 64 0\<rparr>"

text \<open>The first loop of \<open>sha256_transform\<close>: 32-bit words from four bytes.\<close>

definition sha_word :: "int list \<Rightarrow> nat \<Rightarrow> int" where
  "sha_word buf i =
     i_or (i_or (i_or (buf ! (4 * i + 3)) (i_shl (buf ! (4 * i + 2)) 8))
       (i_shl (buf ! (4 * i + 1)) 16)) (i_shl (buf ! (4 * i)) 24)"

type_synonym 'a regs = "'a \<times> 'a \<times> 'a \<times> 'a \<times> 'a \<times> 'a \<times> 'a \<times> 'a"

text \<open>One round of the second loop.\<close>

definition sha_round :: "nat \<Rightarrow> int regs \<times> int list \<Rightarrow> int regs \<times> int list" where
  "sha_round j st =
     (case st of ((a, b, c, d, e, f, g, h), W) \<Rightarrow>
       let T0 = h + sha256_Sigma1 e + choice e f g + K256 ! j;
           (v, W1) = (if j < 16 then (W ! j, W) else sha256_expand W j);
           T1 = T0 + v;
           T2 = sha256_Sigma0 a + majority a b c
       in ((safe_add T1 T2, a, b, c, safe_add d T1, e, f, g), W1))"

definition sha_regs :: "'a list \<Rightarrow> 'a regs" where
  "sha_regs xs = (xs ! 0, xs ! 1, xs ! 2, xs ! 3, xs ! 4, xs ! 5, xs ! 6, xs ! 7)"

definition regs_list :: "'a regs \<Rightarrow> 'a list" where
  "regs_list r = (case r of (a, b, c, d, e, f, g, h) \<Rightarrow> [a, b, c, d, e, f, g, h])"

definition sha256_transform :: "sha \<Rightarrow> sha" where
  "sha256_transform s =
     (let W = map (sha_word (sha_buffer s)) [0..<16];
          (r, W') = fold sha_round [0..<64] (sha_regs (sha_ihash s), W)
      in s\<lparr>sha_ihash := map2 (+) (sha_ihash s) (regs_list r)\<rparr>)"

text \<open>\<open>data.charCodeAt(p)\<close>, NaN beyond the end, which the bit operators take as 0.\<close>

definition sha_char :: "jsstring \<Rightarrow> nat \<Rightarrow> int" where
  "sha_char data p = (if p < length data then int (data ! p) else 0)"

text \<open>Filling the buffer from \<open>j\<close> to the end from the data at \<open>curpos\<close>.\<close>

definition sha_fill :: "jsstring \<Rightarrow> nat \<Rightarrow> nat \<Rightarrow> nat \<Rightarrow> int list \<Rightarrow> int list" where
  "sha_fill data curpos start limit buf =
     fold (\<lambda>k buf. buf[k := sha_char data (curpos + (k - start))]) [start..<limit] buf"

function sha_blocks :: "jsstring \<Rightarrow> nat \<Rightarrow> nat \<Rightarrow> nat \<Rightarrow> nat \<Rightarrow> sha \<Rightarrow> nat \<times> sha" where
  "sha_blocks data inputLen i index curpos s =
     (if i + 63 < inputLen
      then sha_blocks data inputLen (i + 64) 0 (curpos + (64 - index))
             (sha256_transform (s\<lparr>sha_buffer := sha_fill data curpos index 64 (sha_buffer s)\<rparr>))
      else (curpos, s))"
  by pat_completeness auto
termination
  by (relation "measure (\<lambda>(data, inputLen, i, index, curpos, s). inputLen - i)") auto

declare sha_blocks.simps [simp del]

definition sha256_update :: "jsstring \<Rightarrow> nat \<Rightarrow> sha \<Rightarrow> sha" where
  "sha256_update data inputLen s =
     (let index = nat (i_and (i_shr (sha_count0 s) 3) 63);
          remainder = nat (i_and (int inputLen) 63);
          bits = i_shl (int inputLen) 3;
          c0 = sha_count0 s + bits;
          c1 = (if c0 < bits then sha_count1 s + 1 else sha_count1 s) + i_shr (int inputLen) 29;
          (curpos, s1) = sha_blocks data inputLen 0 index 0
                           (s\<lparr>sha_count0 := c0, sha_count1 := c1\<rparr>)
      in s1\<lparr>sha_buffer := sha_fill data curpos 0 remainder (sha_buffer s1)\<rparr>)"

text \<open>Zeros from one index up to another.\<close>

definition sha_zero :: "nat \<Rightarrow> nat \<Rightarrow> int list \<Rightarrow> int list" where
  "sha_zero start limit buf = fold (\<lambda>k buf. buf[k := 0]) [start..<limit] buf"

definition sha_count_bytes :: "int \<Rightarrow> int list" where
  "sha_count_bytes c =
     [i_and (i_ushr c 24) 255, i_and (i_ushr c 16) 255, i_and (i_ushr c 8) 255, i_and c 255]"

definition sha256_final :: "sha \<Rightarrow> sha" where
  "sha256_final s =
     (let index = nat (i_and (i_shr (sha_count0 s) 3) 63);
          s1 = s\<lparr>sha_buffer := (sha_buffer s)[index := 128]\<rparr>;
          index1 = index + 1;
          s2 = (if index1 \<le> 56
                then s1\<lparr>sha_buffer := sha_zero index1 56 (sha_buffer s1)\<rparr>
                else let s3 = sha256_transform (s1\<lparr>sha_buffer := sha_zero index1 64 (sha_buffer s1)\<rparr>)
                     in s3\<lparr>sha_buffer := sha_zero 0 56 (sha_buffer s3)\<rparr>)
      in sha256_transform
           (s2\<lparr>sha_buffer := take 56 (sha_buffer s2) @ sha_count_bytes (sha_count1 s)
                 @ sha_count_bytes (sha_count0 s)\<rparr>))"

definition sha256_encode_bytes :: "sha \<Rightarrow> int list" where
  "sha256_encode_bytes s = concat (map sha_count_bytes (sha_ihash s))"

text \<open>\<open>sha256_hex_digits.charAt(v & 0x0f)\<close> for the eight places of each word.\<close>

definition sha256_encode_hex :: "sha \<Rightarrow> jsstring" where
  "sha256_encode_hex s =
     concat (map (\<lambda>h. map (\<lambda>j. digit_unit (nat (i_and (i_ushr h j) 15)))
       [28, 24, 20, 16, 12, 8, 4, 0]) (sha_ihash s))"

definition sha256_digest :: "jsstring \<Rightarrow> jsstring" where
  "sha256_digest data =
     sha256_encode_hex (sha256_final (sha256_update data (length data) sha256_init))"

definition sha256_self_test :: bool where
  "sha256_self_test \<longleftrightarrow> sha256_digest (js ''message digest'')
     = js ''f7846f55cf23e14eebeab5b4e1550cad5b509e3348fbc4efa3a1413d393cb650''"

section \<open>The hash of the standard\<close>

definition spec_rotr :: "nat \<Rightarrow> w32 \<Rightarrow> w32" where
  "spec_rotr n x = drop_bit n x OR push_bit (32 - n) x"

definition spec_ch :: "w32 \<Rightarrow> w32 \<Rightarrow> w32 \<Rightarrow> w32" where
  "spec_ch x y z = (x AND y) XOR (NOT x AND z)"

definition spec_maj :: "w32 \<Rightarrow> w32 \<Rightarrow> w32 \<Rightarrow> w32" where
  "spec_maj x y z = (x AND y) XOR (x AND z) XOR (y AND z)"

definition spec_S0 :: "w32 \<Rightarrow> w32" where
  "spec_S0 x = spec_rotr 2 x XOR spec_rotr 13 x XOR spec_rotr 22 x"

definition spec_S1 :: "w32 \<Rightarrow> w32" where
  "spec_S1 x = spec_rotr 6 x XOR spec_rotr 11 x XOR spec_rotr 25 x"

definition spec_s0 :: "w32 \<Rightarrow> w32" where
  "spec_s0 x = spec_rotr 7 x XOR spec_rotr 18 x XOR drop_bit 3 x"

definition spec_s1 :: "w32 \<Rightarrow> w32" where
  "spec_s1 x = spec_rotr 17 x XOR spec_rotr 19 x XOR drop_bit 10 x"

text \<open>The message schedule of 64 words over the 16 words of a block.\<close>

fun spec_W :: "(nat \<Rightarrow> w32) \<Rightarrow> nat \<Rightarrow> w32" where
  "spec_W M t =
     (if t < 16 then M t
      else spec_s1 (spec_W M (t - 2)) + spec_W M (t - 7) + spec_s0 (spec_W M (t - 15)) + spec_W M (t - 16))"

declare spec_W.simps [simp del]

definition spec_round :: "(nat \<Rightarrow> w32) \<Rightarrow> nat \<Rightarrow> w32 regs \<Rightarrow> w32 regs" where
  "spec_round M t r =
     (case r of (a, b, c, d, e, f, g, h) \<Rightarrow>
       let T1 = h + spec_S1 e + spec_ch e f g + i32 (K256 ! t) + spec_W M t;
           T2 = spec_S0 a + spec_maj a b c
       in (T1 + T2, a, b, c, d + T1, e, f, g))"

text \<open>The big-endian words of a block of 64 bytes.\<close>

definition spec_words :: "nat list \<Rightarrow> nat \<Rightarrow> w32" where
  "spec_words bs i = of_nat (bs ! (4 * i) * 16777216 + bs ! (4 * i + 1) * 65536
     + bs ! (4 * i + 2) * 256 + bs ! (4 * i + 3))"

definition spec_compress :: "nat list \<Rightarrow> w32 list \<Rightarrow> w32 list" where
  "spec_compress block H =
     map2 (+) H (regs_list (fold (spec_round (spec_words block)) [0..<64] (sha_regs H)))"

text \<open>The padding: a one bit, zeros, and the number of bits in eight bytes.\<close>

definition spec_zeros :: "nat \<Rightarrow> nat" where
  "spec_zeros n = nat ((55 - int n) mod 64)"

definition spec_length :: "nat \<Rightarrow> nat list" where
  "spec_length n = map (\<lambda>k. 8 * n div 256 ^ k mod 256) [7, 6, 5, 4, 3, 2, 1, 0]"

definition spec_pad :: "nat list \<Rightarrow> nat list" where
  "spec_pad bs = bs @ [128] @ replicate (spec_zeros (length bs)) 0 @ spec_length (length bs)"

function spec_split :: "nat list \<Rightarrow> nat list list" where
  "spec_split bs = (if length bs < 64 then [] else take 64 bs # spec_split (drop 64 bs))"
  by pat_completeness auto
termination by (relation "measure length") auto

declare spec_split.simps [simp del]

definition spec_sha256 :: "nat list \<Rightarrow> w32 list" where
  "spec_sha256 bs = fold spec_compress (spec_split (spec_pad bs)) (map i32 (sha_ihash sha256_init))"

definition spec_hex :: "w32 \<Rightarrow> jsstring" where
  "spec_hex x = map (\<lambda>k. digit_unit (unat x div 16 ^ k mod 16)) [7, 6, 5, 4, 3, 2, 1, 0]"

text \<open>The constants of the standard: the first 32 bits of the fractional parts of the cube roots
  of the first 64 primes and of the square roots of the first 8.\<close>

definition first_primes :: "int list" where
  "first_primes =
     [2, 3, 5, 7, 11, 13, 17, 19, 23, 29, 31, 37, 41, 43, 47, 53,
      59, 61, 67, 71, 73, 79, 83, 89, 97, 101, 103, 107, 109, 113, 127, 131,
      137, 139, 149, 151, 157, 163, 167, 173, 179, 181, 191, 193, 197, 199, 211, 223,
      227, 229, 233, 239, 241, 251, 257, 263, 269, 271, 277, 281, 283, 293, 307, 311]"

definition root_bits :: "nat \<Rightarrow> int \<Rightarrow> int \<Rightarrow> bool" where
  "root_bits k p v \<longleftrightarrow>
     list_ex (\<lambda>a. (a * 2 ^ 32 + v) ^ k \<le> p * 2 ^ (32 * k) \<and> p * 2 ^ (32 * k) < (a * 2 ^ 32 + v + 1) ^ k)
       [1, 2, 3, 4, 5, 6]"

lemma round_constants: "list_all2 (root_bits 3) first_primes K256"
  by code_simp

lemma initial_constants: "list_all2 (root_bits 2) (take 8 first_primes) (sha_ihash sha256_init)"
  by code_simp

section \<open>The operators on 32-bit words\<close>

lemma i32_ops [simp]:
  "i32 (i_and x y) = i32 x AND i32 y" "i32 (i_or x y) = i32 x OR i32 y"
  "i32 (i_xor x y) = i32 x XOR i32 y" "i32 (i_not x) = NOT (i32 x)"
  "i32 (i_shl x n) = push_bit n (i32 x)" "i32 (i_ushr x n) = drop_bit n (i32 x)"
  by (simp_all add: i_and_def i_or_def i_xor_def i_not_def i_shl_def i_ushr_def)

lemma i32_functions [simp]:
  "i32 (rotateRight n x) = spec_rotr n (i32 x)"
  "i32 (choice x y z) = spec_ch (i32 x) (i32 y) (i32 z)"
  "i32 (majority x y z) = spec_maj (i32 x) (i32 y) (i32 z)"
  "i32 (sha256_Sigma0 x) = spec_S0 (i32 x)" "i32 (sha256_Sigma1 x) = spec_S1 (i32 x)"
  "i32 (sha256_sigma0 x) = spec_s0 (i32 x)" "i32 (sha256_sigma1 x) = spec_s1 (i32 x)"
  by (simp_all add: rotateRight_def spec_rotr_def choice_def spec_ch_def majority_def spec_maj_def
      sha256_Sigma0_def spec_S0_def sha256_Sigma1_def spec_S1_def sha256_sigma0_def spec_s0_def
      sha256_sigma1_def spec_s1_def xor.assoc)

lemma or_shifted_word: "take_bit n b = b \<Longrightarrow> push_bit n a OR b = push_bit n a + (b :: w32)"
proof -
  assume b: "take_bit n b = b"
  have "push_bit n a AND b = 0"
    by (subst b [symmetric], rule bit_eqI) (auto simp: bit_simps)
  then show ?thesis by (rule disjunctive_add_eq_or [symmetric])
qed

lemma sint_small: "0 \<le> x \<Longrightarrow> x < 2147483648 \<Longrightarrow> sint (i32 x) = x"
  by (simp add: signed_of_int signed_take_bit_int_eq_self)

lemma i_and_low: "i_and x 65535 = sint (i32 x) mod 65536" "i_and x 255 = sint (i32 x) mod 256"
  "i_and x 63 = sint (i32 x) mod 64" "i_and x 15 = sint (i32 x) mod 16"
proof -
  have m: "sint (i32 x) AND mask n = sint (i32 x) mod 2 ^ n" for n
    by (simp add: take_bit_eq_mask [symmetric] take_bit_eq_mod)
  have s: "sint (i32 65535) = mask 16" "sint (i32 255) = mask 8" "sint (i32 63) = mask 6"
    "sint (i32 15) = mask 4"
    by (simp_all add: sint_small mask_eq_exp_minus_1)
  show "i_and x 65535 = sint (i32 x) mod 65536" "i_and x 255 = sint (i32 x) mod 256"
    "i_and x 63 = sint (i32 x) mod 64" "i_and x 15 = sint (i32 x) mod 16"
    using m [of 16] m [of 8] m [of 6] m [of 4] unfolding i_and_def signed_and_eq s by simp_all
qed

lemma i_shr_eq: "i_shr x n = sint (i32 x) div 2 ^ n"
  by (simp add: i_shr_def sint_signed_drop_bit_eq drop_bit_eq_div)

lemma i32_safe_add [simp]: "i32 (safe_add x y) = i32 x + i32 y"
proof -
  define sx where "sx = sint (i32 x)"
  define sy where "sy = sint (i32 y)"
  define lsw where "lsw = sx mod 65536 + sy mod 65536"
  define msw where "msw = sx div 65536 + sy div 65536 + lsw div 65536"
  have lsw: "0 \<le> lsw" "lsw < 2147483648"
    using pos_mod_bound [of 65536 sx] pos_mod_bound [of 65536 sy] by (simp_all add: lsw_def)
  have sl: "sint (i32 lsw) = lsw" using sint_small [OF lsw] .
  have "safe_add x y = i_or (i_shl msw 16) (lsw mod 65536)"
    by (simp add: safe_add_def i_and_low i_shr_eq sx_def [symmetric] sy_def [symmetric]
        lsw_def [symmetric] msw_def [symmetric] sl)
  then have "i32 (safe_add x y) = push_bit 16 (i32 msw) OR i32 (lsw mod 65536)" by simp
  also have "\<dots> = push_bit 16 (i32 msw) + i32 (lsw mod 65536)"
  proof (rule or_shifted_word)
    show "take_bit 16 (i32 (lsw mod 65536)) = i32 (lsw mod 65536)"
      using take_bit_of_int [of 16 "lsw mod 65536", where 'a = w32] by (simp add: take_bit_eq_mod)
  qed
  also have "\<dots> = i32 (msw * 65536 + lsw mod 65536)"
    by (simp add: push_bit_eq_mult)
  also have "msw * 65536 + lsw mod 65536 = sx + sy"
    by (simp add: msw_def lsw_def algebra_simps)
  also have "i32 (sx + sy) = i32 x + i32 y" by (simp add: sx_def sy_def)
  finally show ?thesis .
qed

section \<open>The sums stay exact\<close>

lemma sint_bound: "\<bar>sint (w :: w32)\<bar> \<le> 2 ^ 31"
  using sint_ge [of w] sint_lt [of w] by simp

lemma i_bounds [simp]: "\<bar>i_xor x y\<bar> \<le> 2 ^ 31" "\<bar>i_or x y\<bar> \<le> 2 ^ 31"
  using sint_bound by (simp_all add: i_xor_def i_or_def)

lemma function_bounds: "\<bar>sha256_Sigma0 x\<bar> \<le> 2 ^ 31" "\<bar>sha256_Sigma1 x\<bar> \<le> 2 ^ 31"
  "\<bar>sha256_sigma0 x\<bar> \<le> 2 ^ 31" "\<bar>sha256_sigma1 x\<bar> \<le> 2 ^ 31" "\<bar>choice x y z\<bar> \<le> 2 ^ 31"
  "\<bar>majority x y z\<bar> \<le> 2 ^ 31" "\<bar>safe_add x y\<bar> \<le> 2 ^ 31" "\<bar>sha_word buf i\<bar> \<le> 2 ^ 31"
  using i_bounds unfolding sha256_Sigma0_def sha256_Sigma1_def sha256_sigma0_def sha256_sigma1_def
    choice_def majority_def safe_add_def sha_word_def Let_def by blast+

lemma K256_bound: "j < 64 \<Longrightarrow> \<bar>K256 ! j\<bar> < 2 ^ 32"
proof -
  have "list_all (\<lambda>k. \<bar>k\<bar> < 2 ^ 32) K256" "length K256 = 64" by (simp_all add: K256_def)
  then show "j < 64 \<Longrightarrow> \<bar>K256 ! j\<bar> < 2 ^ 32" by (simp add: list_all_length)
qed

section \<open>One block\<close>

lemma or_bytes: "x < 2 ^ n \<Longrightarrow> (of_nat x :: w32) OR push_bit n (of_nat y) = of_nat (y * 2 ^ n + x)"
proof -
  assume x: "x < 2 ^ n"
  then have "take_bit n (of_nat x :: w32) = of_nat x"
    by (simp add: take_bit_of_nat take_bit_nat_eq_self)
  then have "push_bit n (of_nat y) OR (of_nat x :: w32) = push_bit n (of_nat y) + of_nat x"
    by (rule or_shifted_word)
  then show ?thesis by (simp add: or.commute push_bit_eq_mult)
qed

lemma i32_sha_word:
  assumes "\<forall>b\<in>set bs. b < 256" "4 * i + 3 < length bs"
  shows "i32 (sha_word (map int bs) i) = spec_words bs i"
proof -
  define a b c d where "a = bs ! (4 * i)" and "b = bs ! (4 * i + 1)" and "c = bs ! (4 * i + 2)"
    and "d = bs ! (4 * i + 3)"
  have bytes: "a < 256" "b < 256" "c < 256" "d < 256"
    using assms by (simp_all add: a_def b_def c_def d_def)
  have "i32 (sha_word (map int bs) i)
      = ((of_nat d OR push_bit 8 (of_nat c)) OR push_bit 16 (of_nat b)) OR push_bit 24 (of_nat a)"
    using assms(2) by (simp add: sha_word_def a_def b_def c_def d_def)
  also have "\<dots> = of_nat (a * 2 ^ 24 + (b * 2 ^ 16 + (c * 2 ^ 8 + d)))"
    using bytes or_bytes [of d 8 c] or_bytes [of "c * 2 ^ 8 + d" 16 b]
      or_bytes [of "b * 2 ^ 16 + (c * 2 ^ 8 + d)" 24 a] by simp
  finally show ?thesis
    by (simp add: spec_words_def a_def b_def c_def d_def algebra_simps)
qed

definition regs_w :: "int regs \<Rightarrow> w32 regs" where
  "regs_w r = (case r of (a, b, c, d, e, f, g, h) \<Rightarrow>
     (i32 a, i32 b, i32 c, i32 d, i32 e, i32 f, i32 g, i32 h))"

text \<open>The rolling array of 16 words holds the last 16 words of the schedule: each satisfies what a
  step of the recurrence preserves.\<close>

definition word_window :: "(nat \<Rightarrow> int \<Rightarrow> bool) \<Rightarrow> nat \<Rightarrow> int list \<Rightarrow> bool" where
  "word_window P j W \<longleftrightarrow> length W = 16 \<and>
     (\<forall>t. t < max 16 j \<and> max 16 j \<le> t + 16 \<longrightarrow> P t (W ! (t mod 16)))"

lemma word_windowD: "word_window P j W \<Longrightarrow> t < max 16 j \<Longrightarrow> max 16 j \<le> t + 16 \<Longrightarrow> P t (W ! (t mod 16))"
  by (simp add: word_window_def)

lemma word_window_start: "j < 16 \<Longrightarrow> word_window P j W \<Longrightarrow> P j (W ! j) \<and> word_window P (Suc j) W"
  using word_windowD [of P j W j] by (auto simp: word_window_def max_def)

lemma word_window_expand:
  assumes r: "word_window P j W" and j: "16 \<le> j" and v: "sha256_expand W j = (v, W1)"
    and step: "\<And>a b c d. P (j - 16) a \<Longrightarrow> P (j - 7) b \<Longrightarrow> P (j - 15) c \<Longrightarrow> P (j - 2) d \<Longrightarrow>
      P j (a + (sha256_sigma1 d + b + sha256_sigma0 c))"
  shows "P j v \<and> word_window P (Suc j) W1"
proof -
  have w: "P t (W ! (t mod 16))" if "j \<le> t + 16" "t < j" for t
    using word_windowD [OF r, of t] that j by (simp add: max_def)
  have m: "(j + 14) mod 16 = (j - 2) mod 16" "(j + 9) mod 16 = (j - 7) mod 16"
    "(j + 1) mod 16 = (j - 15) mod 16" "j mod 16 = (j - 16) mod 16"
  proof -
    have "j + 14 = (j - 2) + 16" "j + 9 = (j - 7) + 16" "j + 1 = (j - 15) + 16" "j = (j - 16) + 16"
      using j by simp_all
    then show "(j + 14) mod 16 = (j - 2) mod 16" "(j + 9) mod 16 = (j - 7) mod 16"
      "(j + 1) mod 16 = (j - 15) mod 16" "j mod 16 = (j - 16) mod 16"
      by (metis mod_add_self2)+
  qed
  have v': "v = W ! (j mod 16) + (sha256_sigma1 (W ! ((j + 14) mod 16)) + W ! ((j + 9) mod 16)
                + sha256_sigma0 (W ! ((j + 1) mod 16)))" and W1: "W1 = W[j mod 16 := v]"
    using v unfolding sha256_expand_def Let_def by auto
  have iv: "P j v"
    unfolding v' m by (rule step) (use w [of "j - 16"] w [of "j - 7"] w [of "j - 15"] w [of "j - 2"] j in simp_all)
  have "P t (W1 ! (t mod 16))" if t: "t < Suc j" "Suc j \<le> t + 16" for t
  proof (cases "t = j")
    case True
    then show ?thesis using iv r by (simp add: W1 word_window_def)
  next
    case False
    then have "0 < j - t" "j - t < 16" "t \<le> j" using t by simp_all
    then have "t mod 16 \<noteq> j mod 16" by (metis mod_eq_dvd_iff_nat nat_dvd_not_less)
    then show ?thesis using w [of t] t False by (simp add: W1)
  qed
  then show ?thesis using iv r j by (simp add: word_window_def W1)
qed

text \<open>What every word of the schedule satisfies.\<close>

definition sched_word :: "(nat \<Rightarrow> w32) \<Rightarrow> nat \<Rightarrow> int \<Rightarrow> bool" where
  "sched_word M t v \<longleftrightarrow> i32 v = spec_W M t \<and> \<bar>v\<bar> \<le> 2 ^ 33 * 2 ^ (t div 7)"

lemma sched_start: "t < 16 \<Longrightarrow> i32 v = M t \<and> \<bar>v\<bar> \<le> 2 ^ 31 \<Longrightarrow> sched_word M t v"
proof -
  assume a: "t < 16" "i32 v = M t \<and> \<bar>v\<bar> \<le> 2 ^ 31"
  have "(2::int) ^ 31 \<le> 2 ^ 33 * 2 ^ (t div 7)"
    using power_increasing [of 31 "33 + t div 7" "2::int"] by (simp only: power_add)
  then have "\<bar>v\<bar> \<le> 2 ^ 33 * 2 ^ (t div 7)" using a by linarith
  then show "sched_word M t v" using a by (simp add: sched_word_def spec_W.simps [of M t])
qed

lemma sched_word_step:
  assumes "16 \<le> j" "sched_word M (j - 16) a" "sched_word M (j - 7) b" "sched_word M (j - 15) c"
    "sched_word M (j - 2) d"
  shows "sched_word M j (a + (sha256_sigma1 d + b + sha256_sigma0 c))"
proof -
  have i: "i32 (a + (sha256_sigma1 d + b + sha256_sigma0 c)) = spec_W M j"
    using assms by (subst spec_W.simps) (simp add: sched_word_def algebra_simps)
  define q where "q = j div 7 - 2"
  have q: "j div 7 = q + 2" using div_le_mono [of 14 j 7] assms(1) by (simp add: q_def)
  have "(j - 7) div 7 = q + 1" using q div_add_self2 [of 7 "j - 7"] assms(1) by simp
  moreover have "(j - 16) div 7 \<le> (j - 14) div 7" by (simp add: div_le_mono)
  moreover have "(j - 14) div 7 = q"
    using q div_add_self2 [of 7 "j - 7"] div_add_self2 [of 7 "j - 14"] assms(1) by simp
  ultimately have p: "(2::int) ^ ((j - 16) div 7) \<le> 2 ^ q" "(2::int) ^ ((j - 7) div 7) = 2 * 2 ^ q"
    "(2::int) ^ (j div 7) = 4 * 2 ^ q" "(1::int) \<le> 2 ^ q"
    using q by (simp_all add: power_add)
  have "\<bar>a\<bar> \<le> 8589934592 * 2 ^ ((j - 16) div 7)" "\<bar>b\<bar> \<le> 8589934592 * 2 ^ ((j - 7) div 7)"
    using assms by (simp_all add: sched_word_def)
  moreover have "\<bar>sha256_sigma0 c\<bar> \<le> 2147483648" "\<bar>sha256_sigma1 d\<bar> \<le> 2147483648"
    using function_bounds(3) [of c] function_bounds(4) [of d] by simp_all
  ultimately have "\<bar>a + (sha256_sigma1 d + b + sha256_sigma0 c)\<bar> \<le> 8589934592 * (4 * 2 ^ q)"
    using p unfolding p(2) by linarith
  then show ?thesis using i p(3) by (simp add: sched_word_def)
qed

lemma sha_round_spec:
  assumes r: "word_window (sched_word M) j W" and j: "j < 64" and s: "sha_round j (r, W) = (r1, W1)"
  shows "regs_w r1 = spec_round M j (regs_w r) \<and> word_window (sched_word M) (Suc j) W1"
proof -
  obtain a b c d e f g h where rr: "r = (a, b, c, d, e, f, g, h)" by (metis prod.exhaust)
  define vw where "vw = (if j < 16 then (W ! j, W) else sha256_expand W j)"
  obtain v W2 where v: "vw = (v, W2)" by fastforce
  have "sched_word M j v \<and> word_window (sched_word M) (Suc j) W2"
  proof (cases "j < 16")
    case True
    then have "v = W ! j" "W2 = W" using v unfolding vw_def by auto
    then show ?thesis using word_window_start [OF True r] by simp
  next
    case False
    then have "16 \<le> j" "sha256_expand W j = (v, W2)" using v by (simp_all add: vw_def)
    then show ?thesis using word_window_expand [OF r _ _ sched_word_step] by blast
  qed
  then show ?thesis
    using s v by (auto simp: sha_round_def rr vw_def [symmetric] regs_w_def spec_round_def Let_def sched_word_def)
qed

lemma sha_rounds_spec:
  "word_window (sched_word M) 0 W \<Longrightarrow> n \<le> 64 \<Longrightarrow>
   regs_w (fst (fold sha_round [0..<n] (r, W))) = fold (spec_round M) [0..<n] (regs_w r)
   \<and> word_window (sched_word M) n (snd (fold sha_round [0..<n] (r, W)))"
proof (induction n)
  case (Suc n)
  obtain r1 W1 where f: "fold sha_round [0..<n] (r, W) = (r1, W1)" by fastforce
  obtain r2 W2 where g: "sha_round n (r1, W1) = (r2, W2)" by fastforce
  show ?case using Suc f g sha_round_spec [of M n W1 r1 r2 W2] by simp
qed simp

lemma regs_of_list: "length xs = 8 \<Longrightarrow> map i32 (regs_list r) = regs_list (regs_w r)
  \<and> regs_w (sha_regs xs) = sha_regs (map i32 xs)"
  by (auto simp: regs_list_def regs_w_def sha_regs_def split: prod.splits)

lemma map_i32_add: "map i32 (map2 (+) xs ys) = map2 (+) (map i32 xs) (map i32 ys)"
  by (induction xs ys rule: list_induct2') simp_all

lemma regs_list_length [simp]: "length (regs_list r) = 8"
  by (simp add: regs_list_def split: prod.splits)

lemma sha256_transform_spec:
  assumes h: "length (sha_ihash s) = 8" and b: "sha_buffer s = map int bs" "length bs = 64"
    "\<forall>b\<in>set bs. b < 256"
  shows "map i32 (sha_ihash (sha256_transform s)) = spec_compress bs (map i32 (sha_ihash s))
    \<and> length (sha_ihash (sha256_transform s)) = 8"
proof -
  define W where "W = map (sha_word (sha_buffer s)) [0..<16]"
  have "i32 (W ! t) = spec_words bs t \<and> \<bar>W ! t\<bar> \<le> 2 ^ 31" if "t < 16" for t
    using that i32_sha_word [OF b(3), of t] function_bounds(8) b by (simp add: W_def)
  then have "word_window (sched_word (spec_words bs)) 0 W"
    using sched_start by (simp add: word_window_def W_def)
  note R = sha_rounds_spec [OF this, of 64 "sha_regs (sha_ihash s)"]
  obtain r W' where f: "fold sha_round [0..<64] (sha_regs (sha_ihash s), W) = (r, W')" by fastforce
  have "regs_w r = fold (spec_round (spec_words bs)) [0..<64] (sha_regs (map i32 (sha_ihash s)))"
    using R f regs_of_list [OF h] by simp
  then show ?thesis
    using f h regs_of_list [OF h, of r]
    by (simp add: sha256_transform_def W_def [symmetric] spec_compress_def map_i32_add del: map_map)
qed

lemma sha256_transform_frame [simp]:
  "sha_buffer (sha256_transform s) = sha_buffer s"
  "sha_count0 (sha256_transform s) = sha_count0 s"
  "sha_count1 (sha256_transform s) = sha_count1 s"
  by (simp_all add: sha256_transform_def Let_def split: prod.splits)

section \<open>The blocks of the data\<close>

lemma fold_update: "a \<le> b \<Longrightarrow> b \<le> length buf \<Longrightarrow>
    fold (\<lambda>k buf. buf[k := f k]) [a..<b] buf = take a buf @ map f [a..<b] @ drop b buf"
proof (induction b)
  case (Suc b)
  show ?case
  proof (cases "a = Suc b")
    case False
    then have ab: "a \<le> b" "b < length buf" using Suc.prems by simp_all
    then have "drop b buf = buf ! b # drop (Suc b) buf" by (simp add: Cons_nth_drop_Suc)
    then show ?thesis using Suc.IH ab by (simp add: list_update_append)
  qed simp
qed simp

lemma sha_fill_eq:
  assumes "length buf = 64" "a \<le> b" "b \<le> 64" "p + (b - a) \<le> length data"
  shows "sha_fill data p a b buf = take a buf @ map int (take (b - a) (drop p data)) @ drop b buf"
proof -
  have "map (\<lambda>k. sha_char data (p + (k - a))) [a..<b] = map int (take (b - a) (drop p data))"
    using assms by (intro nth_equalityI) (auto simp: sha_char_def)
  then show ?thesis using assms by (simp add: sha_fill_def fold_update)
qed

lemma sha_zero_eq: "a \<le> b \<Longrightarrow> b \<le> length buf \<Longrightarrow>
    sha_zero a b buf = take a buf @ replicate (b - a) 0 @ drop b buf"
  by (simp add: sha_zero_def fold_update map_replicate_const)

lemma spec_split_cons: "length b = 64 \<Longrightarrow> spec_split (b @ bs) = b # spec_split bs"
  by (subst spec_split.simps) simp

lemma spec_split_short: "length b < 64 \<Longrightarrow> spec_split b = []"
  by (subst spec_split.simps) simp

lemma spec_split_append: "spec_split xs @ spec_split (drop (64 * (length xs div 64)) xs @ ys) = spec_split (xs @ ys)"
proof (induction xs rule: spec_split.induct)
  case (1 xs)
  show ?case
  proof (cases "length xs < 64")
    case True
    then show ?thesis by (simp add: spec_split_short)
  next
    case False
    have q: "64 * (length xs div 64) = 64 * ((length xs - 64) div 64) + 64"
      using False by (simp add: div_if [of "length xs" 64])
    have "spec_split xs = take 64 xs # spec_split (drop 64 xs)"
      "spec_split (xs @ ys) = take 64 xs # spec_split (drop 64 xs @ ys)"
      using False by (subst spec_split.simps, simp)+
    then show ?thesis using 1 [OF False] q by (simp add: add.commute)
  qed
qed

definition sha_ok :: "sha \<Rightarrow> bool" where
  "sha_ok s \<longleftrightarrow> length (sha_ihash s) = 8 \<and> length (sha_buffer s) = 64"

lemma sha_blocks_spec:
  assumes "\<forall>b\<in>set data. b < 256"
  shows "sha_ok s \<Longrightarrow> i \<le> length data \<Longrightarrow> sha_blocks data (length data) i 0 i s = (c, s') \<Longrightarrow>
    map i32 (sha_ihash s') = fold spec_compress (spec_split (drop i data)) (map i32 (sha_ihash s))
    \<and> sha_ok s' \<and> sha_count0 s' = sha_count0 s \<and> sha_count1 s' = sha_count1 s
    \<and> c = i + 64 * ((length data - i) div 64)"
proof (induction "length data - i" arbitrary: i s rule: less_induct)
  case less
  show ?case
  proof (cases "i + 63 < length data")
    case False
    then show ?thesis using less.prems
      by (subst (asm) sha_blocks.simps) (simp add: spec_split_short)
  next
    case True
    define b where "b = take 64 (drop i data)"
    define s1 where "s1 = s\<lparr>sha_buffer := sha_fill data i 0 64 (sha_buffer s)\<rparr>"
    have b: "length b = 64" "\<forall>x\<in>set b. x < 256"
      using True assms by (auto simp: b_def dest: in_set_takeD in_set_dropD)
    have s1: "sha_buffer s1 = map int b" "length (sha_ihash s1) = 8" "sha_ihash s1 = sha_ihash s"
      "sha_count0 s1 = sha_count0 s" "sha_count1 s1 = sha_count1 s"
      using less.prems(1) True by (simp_all add: s1_def sha_ok_def sha_fill_eq b_def)
    note t = sha256_transform_spec [OF s1(2) s1(1) b]
    have ok: "sha_ok (sha256_transform s1)" using t s1(1) b(1) by (simp add: sha_ok_def)
    have step: "sha_blocks data (length data) (i + 64) 0 (i + 64) (sha256_transform s1) = (c, s')"
      using less.prems(3) True by (subst (asm) sha_blocks.simps) (simp add: s1_def)
    have d: "drop i data = b @ drop (i + 64) data"
      by (simp add: b_def add.commute [of i] flip: drop_drop)
    have q: "(length data - i) div 64 = Suc ((length data - (i + 64)) div 64)"
      using True by (simp add: div_if [of "length data - i" 64])
    show ?thesis
      using less.hyps [OF _ ok _ step] True t s1 by (simp add: d spec_split_cons b q)
  qed
qed

lemma sha256_update_spec:
  assumes "\<forall>b\<in>set data. b < 256" "length data < 2 ^ 28"
  defines "s \<equiv> sha256_update data (length data) sha256_init"
  defines "r \<equiv> length data mod 64"
  shows "map i32 (sha_ihash s) = fold spec_compress (spec_split data) (map i32 (sha_ihash sha256_init))
    \<and> length (sha_ihash s) = 8 \<and> length (sha_buffer s) = 64
    \<and> take r (sha_buffer s) = map int (drop (64 * (length data div 64)) data)
    \<and> sha_count0 s = 8 * int (length data) \<and> sha_count1 s = 0"
proof -
  let ?n = "length data"
  have c: "i_shl (int ?n) 3 = 8 * int ?n"
  proof -
    have "i_shl (int ?n) 3 = sint (i32 (8 * int ?n))" by (simp add: i_shl_def push_bit_eq_mult mult.commute)
    then show ?thesis using assms(2) sint_small [of "8 * int ?n"] by simp
  qed
  have n: "sint (i32 (int ?n)) = int ?n" using assms(2) sint_small [of "int ?n"] by simp
  have h: "i_shr (int ?n) 29 = 0" using assms(2) n by (simp add: i_shr_eq)
  have m: "nat (i_and (int ?n) 63) = r" using n by (simp add: i_and_low r_def nat_mod_distrib)
  have z: "nat (i_and (i_shr 0 3) 63) = 0" by (simp add: i_and_low i_shr_eq)
  define s0 where "s0 = sha256_init\<lparr>sha_count0 := 8 * int ?n, sha_count1 := 0\<rparr>"
  obtain cp s1 where B: "sha_blocks data ?n 0 0 0 s0 = (cp, s1)" by fastforce
  have ok: "sha_ok s0" by (simp add: s0_def sha256_init_def sha_ok_def)
  note S = sha_blocks_spec [OF assms(1) ok _ B]
  have s: "s = s1\<lparr>sha_buffer := sha_fill data cp 0 r (sha_buffer s1)\<rparr>"
    using B by (simp add: s_def sha256_update_def Let_def c h m z s0_def sha256_init_def del: of_nat_mod)
  have cp: "cp = 64 * (?n div 64)" "cp + r = ?n" "r < 64" "length (sha_buffer s1) = 64"
    using S by (simp_all add: r_def sha_ok_def)
  have f: "sha_fill data cp 0 r (sha_buffer s1) = map int (drop cp data) @ drop r (sha_buffer s1)"
    using cp by (subst sha_fill_eq) simp_all
  show ?thesis using S cp f by (simp add: s s0_def sha_ok_def)
qed

section \<open>The padding and the digest\<close>

lemma sint_mod_uint: "n \<le> 32 \<Longrightarrow> sint (w :: w32) mod 2 ^ n = uint w mod 2 ^ n"
  by (simp add: sint_uint take_bit_signed_take_bit flip: take_bit_eq_mod)

lemma i_and_uint: "i_and x 255 = uint (i32 x) mod 256" "i_and x 63 = uint (i32 x) mod 64"
  "i_and x 15 = uint (i32 x) mod 16"
  using sint_mod_uint [of 8 "i32 x"] sint_mod_uint [of 6 "i32 x"] sint_mod_uint [of 4 "i32 x"]
  by (simp_all add: i_and_low)

lemma uint_i_ushr: "uint (i32 (i_ushr x n)) = uint (i32 x) div 2 ^ n"
  using bintr_uint [of 32 "i32 x"] by (simp add: unsigned_drop_bit_eq drop_bit_eq_div [where 'a = int])

lemma uint_small: "0 \<le> x \<Longrightarrow> x < 4294967296 \<Longrightarrow> uint (i32 x) = x"
  by (simp add: uint_word_of_int_eq take_bit_int_eq_self)

lemma sha_count_bytes_eq:
  assumes "0 \<le> c" "c < 2 ^ 32"
  shows "sha_count_bytes c = map (\<lambda>k. c div 256 ^ k mod 256) [3, 2, 1, 0]"
  using assms by (simp add: sha_count_bytes_def i_and_uint uint_i_ushr uint_small del: i32_ops)

lemma count_bytes_length:
  assumes "n < 2 ^ 28"
  shows "sha_count_bytes 0 @ sha_count_bytes (8 * int n) = map int (spec_length n)"
proof -
  have "8 * n div 256 ^ k = 0" if "4 \<le> k" for k
  proof -
    have "(256 :: nat) ^ 4 \<le> 256 ^ k" using that by (intro power_increasing) simp_all
    then show ?thesis using assms by (intro div_less) simp
  qed
  note z = this [of 7, simplified] this [of 6, simplified] this [of 5, simplified] this [of 4, simplified]
  have "8 * int n < 2 ^ 31" using assms by simp
  then show ?thesis using z
    by (simp add: sha_count_bytes_eq spec_length_def zmod_int zdiv_int)
qed

lemma sha256_final_spec:
  assumes "sha_ok s" "take r (sha_buffer s) = map int t" "r < 64" "length t = r" "\<forall>b\<in>set t. b < 256"
    "sha_count0 s = 8 * int n" "sha_count1 s = 0" "n < 2 ^ 28" "r = n mod 64"
  shows "map i32 (sha_ihash (sha256_final s))
    = fold spec_compress (spec_split (t @ [128] @ replicate (spec_zeros n) 0 @ spec_length n)) (map i32 (sha_ihash s))"
proof -
  let ?buf = "sha_buffer s"
  have c: "sint (i32 (8 * int n)) = 8 * int n" using assms(8) by (intro sint_small) simp_all
  have m: "sint (i32 (int n)) = int n" using assms(8) by (intro sint_small) simp_all
  have index: "nat (i_and (i_shr (sha_count0 s) 3) 63) = r"
    using assms(6,9) c m by (simp add: i_shr_eq i_and_low nat_mod_distrib)
  have z: "spec_zeros n = (if r \<le> 55 then 55 - r else 119 - r)"
  proof -
    have "(55 - int n) mod 64 = (55 - int r) mod 64" using assms(9) by (simp add: zmod_int mod_diff_right_eq)
    also have "\<dots> = (if r \<le> 55 then 55 - int r else 119 - int r)"
      using assms(3) mod_add_self2 [of "55 - int r" 64] by (auto simp: add.commute)
    finally show ?thesis using assms(3) by (simp add: spec_zeros_def nat_diff_distrib)
  qed
  have len: "length (sha_ihash s) = 8" "length ?buf = 64" using assms(1) by (simp_all add: sha_ok_def)
  define L where "L = spec_length n"
  have L: "length L = 8" "\<forall>b\<in>set L. b < 256" by (simp_all add: L_def spec_length_def)
  have pad: "take (Suc r) (?buf[r := 128]) = map int t @ [128]"
    using assms(2,3,4) len by (simp add: take_Suc_conv_app_nth)
  have cb: "sha_count_bytes (sha_count1 s) @ sha_count_bytes (sha_count0 s) = map int L"
    using assms(6-8) count_bytes_length by (simp add: L_def)
  show ?thesis
  proof (cases "r \<le> 55")
    case True
    define b where "b = t @ 128 # replicate (55 - r) 0 @ L"
    define s1 where "s1 = s\<lparr>sha_buffer := map int b\<rparr>"
    have b: "length b = 64" "\<forall>x\<in>set b. x < 256" using assms(4,5) True L by (auto simp: b_def)
    have "56 - r = Suc (55 - r)" using True by simp
    then have "sha256_final s = sha256_transform s1"
      using True len assms(4) pad cb by (simp add: sha256_final_def index Let_def s1_def sha_zero_eq b_def)
    then show ?thesis using sha256_transform_spec [OF _ _ b, of s1] len z True b
        spec_split_cons [of b "[]"]
      by (simp add: s1_def b_def [symmetric] L_def [symmetric] spec_split_short)
  next
    case False
    define b1 where "b1 = t @ 128 # replicate (63 - r) 0"
    define b2 where "b2 = replicate 56 0 @ L"
    define s1 where "s1 = s\<lparr>sha_buffer := map int b1\<rparr>"
    define s2 where "s2 = (sha256_transform s1)\<lparr>sha_buffer := map int b2\<rparr>"
    have b1: "length b1 = 64" "\<forall>x\<in>set b1. x < 256" using assms(3-5) by (auto simp: b1_def)
    have b2: "length b2 = 64" "\<forall>x\<in>set b2. x < 256" using L by (auto simp: b2_def)
    note t1 = sha256_transform_spec [OF _ _ b1, of s1]
    have "sha256_final s = sha256_transform s2"
      using False len assms(3,4) pad cb
      by (simp add: sha256_final_def index Let_def s1_def s2_def sha_zero_eq b1_def b2_def)
    moreover have "t @ [128] @ replicate (119 - r) 0 @ L = b1 @ b2"
    proof -
      have "replicate (119 - r) (0::nat) = replicate (63 - r) 0 @ replicate 56 0"
        using assms(3) by (simp flip: replicate_add)
      then show ?thesis by (simp add: b1_def b2_def)
    qed
    ultimately show ?thesis using t1 sha256_transform_spec [OF _ _ b2, of s2] len z False
        spec_split_cons [OF b1(1), of b2] spec_split_cons [OF b2(1), of "[]"]
      by (simp add: s1_def s2_def L_def [symmetric] spec_split_short)
  qed
qed

lemma hex_place: "nat (i_and (i_ushr h j) 15) = unat (i32 h) div 2 ^ j mod 16"
proof -
  have "uint (i32 h) div 2 ^ j mod 16 = int (unat (i32 h) div 2 ^ j mod 16)"
    by (simp add: of_nat_mod of_nat_div)
  then show ?thesis by (simp only: i_and_uint uint_i_ushr nat_int)
qed

lemma sha256_encode_hex_spec: "sha256_encode_hex s = concat (map spec_hex (map i32 (sha_ihash s)))"
  by (simp add: sha256_encode_hex_def spec_hex_def hex_place comp_def)

lemma sha256_digest_hex:
  assumes "\<forall>b\<in>set data. b < 256" "length data < 2 ^ 27"
  shows "sha256_digest data = concat (map spec_hex (spec_sha256 data))"
proof -
  have len: "length data < 2 ^ 28" using assms(2) by simp
  define s where "s = sha256_update data (length data) sha256_init"
  define t where "t = drop (64 * (length data div 64)) data"
  note U = sha256_update_spec [OF assms(1) len, folded s_def t_def]
  have t: "length t = length data mod 64" "\<forall>b\<in>set t. b < 256"
    using assms(1) by (auto simp: t_def minus_mult_div_eq_mod dest: in_set_dropD)
  have "map i32 (sha_ihash (sha256_final s))
      = fold spec_compress (spec_split (t @ [128] @ replicate (spec_zeros (length data)) 0 @ spec_length (length data)))
          (map i32 (sha_ihash s))"
    using U t len by (intro sha256_final_spec) (simp_all add: sha_ok_def)
  also have "\<dots> = spec_sha256 data"
    using U by (simp add: spec_sha256_def spec_pad_def t_def spec_split_append [of data, symmetric])
  finally show ?thesis by (simp add: sha256_digest_def s_def sha256_encode_hex_spec)
qed

text \<open>C6: for every string of bytes below \<open>2 ^ 27\<close> characters, the routine returns the hexadecimal digits of
  the hash of the standard: the schedule in 16 rolling words, the sums that are not reduced, the
  additions in halves, the padding in one or two blocks and the incremental buffer all agree with
  the definition on 32-bit words.
\<close>

theorem sha256_digest_standard:
  assumes "\<forall>b\<in>set data. b < 256" "length data < 2 ^ 27"
  shows "sha256_digest data = concat (map spec_hex (spec_sha256 data))"
  by (rule sha256_digest_hex [OF assms])

theorem sha256_digest_standard_witness:
  "sha256_digest (js ''abc'') = concat (map spec_hex (spec_sha256 (js ''abc'')))"
  by (rule sha256_digest_standard) simp_all

text \<open>The unreduced sum of a round stays below \<open>2 ^ 53\<close>, and a block adds at most \<open>2 ^ 31\<close> to
  each word of the intermediate hash.\<close>

lemma round_sum_exact:
  assumes "j < 64" "sched_word M j v" "\<bar>h\<bar> \<le> 2 ^ 52"
  shows "\<bar>h + sha256_Sigma1 e + choice e f g + K256 ! j + v\<bar> < 2 ^ 53"
proof -
  have "(2::int) ^ (j div 7) \<le> 2 ^ 9"
    using assms(1) by (intro power_increasing) (simp_all add: div_le_mono [of j 63 7, simplified])
  then have "\<bar>v\<bar> \<le> 8589934592 * 512" using assms(2) by (simp add: sched_word_def)
  then show ?thesis
    using assms(3) K256_bound [OF assms(1)] function_bounds(2) [of e] function_bounds(5) [of e f g]
    by simp
qed

lemma four_rounds:
  "fold sha_round [n, Suc n, Suc (Suc n), Suc (Suc (Suc n))] st = (r, W) \<Longrightarrow>
    list_all (\<lambda>x. \<bar>x\<bar> \<le> 2 ^ 31) (regs_list r)"
  using function_bounds(7)
  by (cases st) (auto simp: sha_round_def regs_list_def Let_def split: prod.splits)

lemma sha256_transform_growth:
  assumes "length (sha_ihash s) = 8" "i < 8"
  shows "\<bar>sha_ihash (sha256_transform s) ! i\<bar> \<le> \<bar>sha_ihash s ! i\<bar> + 2 ^ 31"
proof -
  define W where "W = map (sha_word (sha_buffer s)) [0..<16]"
  define st where "st = fold sha_round [0..<60] (sha_regs (sha_ihash s), W)"
  obtain r W' where f: "fold sha_round [0..<64] (sha_regs (sha_ihash s), W) = (r, W')" by fastforce
  have "[0..<64] = [0..<60] @ [60, Suc 60, Suc (Suc 60), Suc (Suc (Suc 60))]"
    by (simp add: upt_conv_Cons flip: upt_add_eq_append [of 0 60 4, simplified])
  then have "fold sha_round [60, Suc 60, Suc (Suc 60), Suc (Suc (Suc 60))] st = (r, W')"
    using f by (simp add: st_def)
  then have "\<bar>regs_list r ! i\<bar> \<le> 2 ^ 31"
    using four_rounds assms(2) by (fastforce simp: list_all_length)
  moreover have "sha_ihash (sha256_transform s) ! i = sha_ihash s ! i + regs_list r ! i"
    using f assms by (simp add: sha256_transform_def W_def [symmetric])
  ultimately show ?thesis by linarith
qed

section \<open>A second chunk\<close>

lemma one_char:
  assumes "length data = Suc 0"
  shows "sha256_update data (Suc 0) s = s\<lparr>sha_count0 := sha_count0 s + 8,
    sha_count1 := sha_count1 s + (if sha_count0 s < 0 then 1 else 0),
    sha_buffer := (sha_buffer s)[0 := int (data ! 0)]\<rparr>"
  using assms
  by (simp add: sha256_update_def sha_blocks.simps i_and_low i_shr_eq i_shl_def sint_small sha_fill_def sha_char_def)

lemma two_chars:
  assumes "length data = 2"
  shows "sha256_update data 2 s = s\<lparr>sha_count0 := sha_count0 s + 16,
    sha_count1 := sha_count1 s + (if sha_count0 s < 0 then 1 else 0),
    sha_buffer := (sha_buffer s)[0 := int (data ! 0), 1 := int (data ! 1)]\<rparr>"
  using assms
  by (simp add: sha256_update_def sha_blocks.simps i_and_low i_shr_eq i_shl_def sint_small sha_fill_def sha_char_def
      numeral_2_eq_2)

text \<open>
  The routine cannot be fed in pieces: a second call of \<open>sha256_update\<close> writes over the characters the first
  one left in the buffer, so that the hash of \<open>x\<close> and then \<open>y\<close> does not depend on \<open>x\<close>; it is the
  hash of \<open>y\<close> and a zero.
\<close>

theorem second_chunk_overwrites:
  "sha256_update [y] 1 (sha256_update [x] 1 sha256_init) = sha256_update [y, 0] 2 sha256_init"
  using list_update_id [of "sha_buffer (sha256_init\<lparr>sha_buffer := (replicate 64 0)[0 := int y]\<rparr>)" 1]
  by (simp add: one_char two_chars sha256_init_def)

end
