(* ===== verification/PageGlue.thy ===== *)
theory PageGlue
  imports Sha256
begin

text \<open>
  State that the pages keep beside the canvas: the refresh of the session, shared by the tabs of a
  browser (\<open>ajaxhelpers.js\<close>), the fields that are updated by requests (\<open>ajaxhelpers.js\<close>), the client
  identifier of the login (\<open>formhelpers.js\<close>), the variables of a page (\<open>formhelpers.js\<close>), the page view
  statistics (\<open>pageviewstats.js\<close>), the key fob logout (\<open>pagecameldefaultlayout.js\<close>), the cache of the
  service worker (\<open>service_worker.js\<close>), the remote console (\<open>remoteconsolelog.js\<close>), check boxes
  (\<open>jquery.checkify.js\<close>) and translations (\<open>translate.js\<close>). Times are milliseconds.
\<close>

section \<open>The session refresh\<close>

text \<open>One call of \<open>doSessionRefresh\<close>: whether it sends, the delay of the next call, and the entry
  \<open>PageCamelLastSessionRefresh\<close> of the local storage, in seconds.\<close>

definition doSessionRefresh :: "nat \<Rightarrow> nat \<Rightarrow> nat option \<Rightarrow> bool \<times> nat \<times> nat option" where
  "doSessionRefresh now rnd store =
     (case store of
        None \<Rightarrow> (True, 30000 + rnd, Some 1)
      | Some lastUpdate \<Rightarrow>
          (let thisUpdate = now div 1000 in
           if int thisUpdate - int lastUpdate < 15 then (False, 20000 + rnd, store)
           else (True, 20000 + rnd, Some thisUpdate)))"

text \<open>What the answer of a refresh does: with beacons nothing, otherwise \<open>INVALID_SESSION\<close> reloads the
  page.\<close>

definition sendSessionRefresh :: "bool \<Rightarrow> nat \<Rightarrow> jsstring \<Rightarrow> bool" where
  "sendSessionRefresh has_beacon status responseText \<longleftrightarrow>
     \<not> has_beacon \<and> (status = 200 \<or> status = 204) \<and> responseText = js ''INVALID_SESSION''"

text \<open>The tabs of a browser: when the timer of each ends and whether it has called already, the shared entry,
  the times of the sent refreshes (the last one first), and the time.\<close>

record tabs =
  tb_open :: "(nat \<times> bool) list"
  tb_store :: "nat option"
  tb_sent :: "nat list"
  tb_now :: nat

definition startSessionRefresh :: "nat \<Rightarrow> nat \<Rightarrow> tabs \<Rightarrow> tabs" where
  "startSessionRefresh now rnd s = s\<lparr>tb_open := tb_open s @ [(now + (30000 + rnd), False)], tb_now := now\<rparr>"

definition tab_calls :: "nat \<Rightarrow> nat \<Rightarrow> nat \<Rightarrow> tabs \<Rightarrow> tabs" where
  "tab_calls i now rnd s =
     (let (sent, delay, store) = doSessionRefresh now rnd (tb_store s)
      in s\<lparr>tb_open := (tb_open s)[i := (now + delay, True)], tb_store := store,
           tb_sent := (if sent then now # tb_sent s else tb_sent s), tb_now := now\<rparr>)"

text \<open>A page is loaded in a new tab, a tab is closed, or a tab calls when its timer has ended or, on a busy or
  sleeping computer, any time later. A tab that loads another page, by a link or because of
  \<open>INVALID_SESSION\<close>, is closed and opened. Random delays are below three seconds.\<close>

inductive tabs_step :: "tabs \<Rightarrow> tabs \<Rightarrow> bool" where
  tab_opens: "tb_now s \<le> now \<Longrightarrow> rnd < 3000 \<Longrightarrow> tabs_step s (startSessionRefresh now rnd s)"
| tab_closes: "tb_now s \<le> now \<Longrightarrow> i < length (tb_open s) \<Longrightarrow>
    tabs_step s (s\<lparr>tb_open := take i (tb_open s) @ drop (Suc i) (tb_open s), tb_now := now\<rparr>)"
| tab_is_due: "tb_now s \<le> now \<Longrightarrow> i < length (tb_open s) \<Longrightarrow> fst (tb_open s ! i) \<le> now \<Longrightarrow> rnd < 3000 \<Longrightarrow>
    tabs_step s (tab_calls i now rnd s)"

inductive tabs_reach :: "nat option \<Rightarrow> tabs \<Rightarrow> bool" for store where
  tabs_start: "tabs_reach store \<lparr>tb_open = [], tb_store = store, tb_sent = [], tb_now = now\<rparr>"
| tabs_next: "tabs_reach store s \<Longrightarrow> tabs_step s s' \<Longrightarrow> tabs_reach store s'"

section \<open>Fields that a request updates\<close>

text \<open>\<open>ajaxUpdateInputField\<close>: all requests of a page share one request object and its handler.
  \<open>None\<close> is a request object without a handler.\<close>

record ajax_page =
  aj_value :: "jsstring \<Rightarrow> jsstring"
  aj_disabled :: "jsstring \<Rightarrow> bool"
  aj_handler :: "(jsstring \<times> jsstring \<times> (jsstring \<times> jsstring) option) option"
  aj_visible :: "jsstring \<Rightarrow> bool"

definition ajaxUpdateInputField :: "jsstring \<Rightarrow> jsstring \<Rightarrow> ajax_page \<Rightarrow> ajax_page" where
  "ajaxUpdateInputField button field s =
     s\<lparr>aj_disabled := (aj_disabled s)(button := True, field := True), aj_handler := Some (button, field, None)\<rparr>"

definition ajaxUpdateInputFieldWithCheck ::
  "jsstring \<Rightarrow> jsstring \<Rightarrow> jsstring \<Rightarrow> jsstring \<Rightarrow> ajax_page \<Rightarrow> ajax_page" where
  "ajaxUpdateInputFieldWithCheck button field elem checkvalue s =
     s\<lparr>aj_disabled := (aj_disabled s)(button := True, field := True),
       aj_handler := Some (button, field, Some (elem, checkvalue))\<rparr>"

text \<open>The answer of the request that was opened last; opening one aborts the one before.\<close>

definition ajax_answer :: "jsstring \<Rightarrow> ajax_page \<Rightarrow> ajax_page" where
  "ajax_answer response s =
     (case aj_handler s of
        None \<Rightarrow> s
      | Some (button, field, check) \<Rightarrow>
          (let s1 = s\<lparr>aj_value := (aj_value s)(field := response),
                      aj_disabled := (aj_disabled s)(field := False, button := False)\<rparr>
           in case check of
                None \<Rightarrow> s1
              | Some (elem, checkvalue) \<Rightarrow>
                  s1\<lparr>aj_visible := (aj_visible s1)(elem := response = checkvalue)\<rparr>))"

definition ajaxSetInputField :: "jsstring \<Rightarrow> jsstring \<Rightarrow> ajax_page \<Rightarrow> ajax_page" where
  "ajaxSetInputField field v s = s\<lparr>aj_value := (aj_value s)(field := v)\<rparr>"

definition setMode :: "jsstring \<Rightarrow> jsstring \<Rightarrow> ajax_page \<Rightarrow> bool \<times> ajax_page" where
  "setMode elemID modeVal s = (True, s\<lparr>aj_value := (aj_value s)(elemID := modeVal)\<rparr>)"

definition ajaxCheckHideElement :: "jsstring \<Rightarrow> jsstring \<Rightarrow> jsstring \<Rightarrow> ajax_page \<Rightarrow> ajax_page" where
  "ajaxCheckHideElement src dest enabled s =
     s\<lparr>aj_visible := (aj_visible s)(dest := aj_value s src = enabled)\<rparr>"

section \<open>The client identifier\<close>

text \<open>\<open>romoCalc\<close> runs on every movement of the pointer. \<open>None\<close> of the last field: the client
  identifier is not set yet.\<close>

record romo =
  romo_cnt :: nat
  romo_state :: jsstring
  romo_clientid :: "jsstring option"
  romo_callbacks :: nat

definition new_romo :: romo where
  "new_romo = \<lparr>romo_cnt = 0, romo_state = [], romo_clientid = None, romo_callbacks = 0\<rparr>"

definition romoCalc :: "jsstring \<Rightarrow> romo \<Rightarrow> romo" where
  "romoCalc sessionid s =
     (let s1 = (if romo_state s = [] then s\<lparr>romo_state := sessionid\<rparr> else s);
          s2 = s1\<lparr>romo_cnt := Suc (romo_cnt s1)\<rparr>
      in if romo_cnt s2 < 20
         then s2\<lparr>romo_state := sha256_digest (js_slice (romo_state s2) 1 13 @ nat_to_string 10 (romo_cnt s2))\<rparr>
         else if romo_cnt s2 = 20
         then s2\<lparr>romo_clientid := Some (js_toUpperCase (js_slice (romo_state s2) 3 11)),
                 romo_callbacks := Suc (romo_callbacks s2)\<rparr>
         else s2)"

section \<open>Variables of the page\<close>

text \<open>What \<open>data()\<close> of an element gives for an attribute: a string, or a value that jQuery has
  converted (a number, a boolean, an object). JSON texts are parsed by a parameter.\<close>

datatype 'j data_value = DataText jsstring | DataOther

record 'j ttvars =
  tt_vars :: "jsstring \<rightharpoonup> 'j data_value"
  tt_trquote :: "jsstring \<rightharpoonup> 'j data_value"
  tt_json :: "jsstring \<rightharpoonup> 'j"

text \<open>One key of \<open>loadTTVars\<close>; the exceptions are those of \<open>substring\<close> on a value that is no
  string, and of the parser.\<close>

definition load_var :: "(jsstring \<Rightarrow> 'j option) \<Rightarrow> jsstring \<times> 'j data_value \<Rightarrow> 'j ttvars \<Rightarrow> 'j ttvars res" where
  "load_var parse kv t =
     (case kv of (key, v) \<Rightarrow>
       if take 7 key = js ''trquote''
       then Inr (t\<lparr>tt_trquote := (tt_trquote t)(drop 7 key \<mapsto> v)\<rparr>)
       else if take 4 key = js ''json''
       then (case v of
               DataOther \<Rightarrow> Inl TypeError
             | DataText raw \<Rightarrow>
                 if take 5 raw \<noteq> js ''JSON:'' then Inr t
                 else if drop 5 raw = [] then Inr t
                 else (case parse (drop 5 raw) of
                         None \<Rightarrow> Inl TypeError
                       | Some j \<Rightarrow> Inr (t\<lparr>tt_json := (tt_json t)(drop 4 key \<mapsto> j)\<rparr>)))
       else Inr (t\<lparr>tt_vars := (tt_vars t)(key \<mapsto> v)\<rparr>))"

fun loadTTVars :: "(jsstring \<Rightarrow> 'j option) \<Rightarrow> (jsstring \<times> 'j data_value) list \<Rightarrow> 'j ttvars \<Rightarrow> 'j ttvars res" where
  "loadTTVars parse [] t = Inr t"
| "loadTTVars parse (kv # kvs) t =
     (case load_var parse kv t of Inl e \<Rightarrow> Inl e | Inr t' \<Rightarrow> loadTTVars parse kvs t')"

definition serializeList :: "jsstring list \<Rightarrow> jsstring" where
  "serializeList elems = js_join 59 elems"

text \<open>\<open>translateString\<close>: the first entry of the table, or the text itself.\<close>

fun translateString :: "(jsstring \<times> jsstring) list \<Rightarrow> jsstring \<Rightarrow> jsstring" where
  "translateString [] t = t"
| "translateString ((k, v) # ts) t = (if k = t then v else translateString ts t)"

section \<open>Page view statistics\<close>

text \<open>\<open>_pagecamel_visible_starttime\<close> (0 when the page is hidden), the count, the reports that were
  sent: duration, count and type. Durations are rounded to two decimals.\<close>

datatype change_type = ChHidden | ChUnload | ChBeforeunload

record pageview =
  pv_start :: real
  pv_count :: nat
  pv_reports :: "(real \<times> nat \<times> change_type) list"

definition pv_shown :: "real \<Rightarrow> pageview \<Rightarrow> pageview" where
  "pv_shown now s = s\<lparr>pv_start := now, pv_count := Suc (pv_count s)\<rparr>"

definition init_pageviewstats :: "bool \<Rightarrow> bool \<Rightarrow> real \<Rightarrow> nat \<times> pageview" where
  "init_pageviewstats has_beacon hidden now =
     (let s = \<lparr>pv_start = 0, pv_count = 0, pv_reports = []\<rparr>
      in if \<not> has_beacon then (0, s) else (1, if \<not> hidden then pv_shown now s else s))"

definition send_pageviewstats :: "change_type \<Rightarrow> real \<Rightarrow> pageview \<Rightarrow> pageview" where
  "send_pageviewstats changetype now s =
     (if pv_start s = 0 then s
      else s\<lparr>pv_reports := pv_reports s
               @ [(of_int (math_round ((now - pv_start s) * 100)) / 100, pv_count s, changetype)],
             pv_start := 0\<rparr>)"

datatype pv_event = PvVisible | PvHidden | PvUnload | PvBeforeunload

fun pv_handle :: "real \<times> pv_event \<Rightarrow> pageview \<Rightarrow> pageview" where
  "pv_handle (now, PvVisible) s = pv_shown now s"
| "pv_handle (now, PvHidden) s = send_pageviewstats ChHidden now s"
| "pv_handle (now, PvUnload) s = send_pageviewstats ChUnload now s"
| "pv_handle (now, PvBeforeunload) s = send_pageviewstats ChBeforeunload now s"

section \<open>The key fob logout\<close>

text \<open>The two flags of the code; the requests sent, how many of them are still open (sent and not answered), the
  answers with their status (0 when the request failed), and how often the browser was sent to the logout.\<close>

record fob =
  fb_active :: bool
  fb_running :: bool
  fb_requests :: nat
  fb_open :: nat
  fb_answers :: "(nat \<times> jsstring) list"
  fb_logouts :: nat

definition new_fob :: fob where
  "new_fob = \<lparr>fb_active = False, fb_running = False, fb_requests = 0, fb_open = 0, fb_answers = [], fb_logouts = 0\<rparr>"

definition runFobLogoutReader :: "fob \<Rightarrow> fob" where
  "runFobLogoutReader s =
     (if fb_running s \<or> fb_active s then s
      else s\<lparr>fb_active := True, fb_requests := Suc (fb_requests s), fb_open := Suc (fb_open s)\<rparr>)"

definition fob_answer :: "jsstring \<Rightarrow> nat \<Rightarrow> jsstring \<Rightarrow> fob \<Rightarrow> fob" where
  "fob_answer keyfobid status newfob s =
     (let s1 = s\<lparr>fb_active := False, fb_open := fb_open s - 1, fb_answers := fb_answers s @ [(status, newfob)]\<rparr>
      in if status \<noteq> 200 then s1
         else if newfob \<noteq> keyfobid then s1\<lparr>fb_running := True, fb_logouts := Suc (fb_logouts s1)\<rparr>
         else s1)"

text \<open>The interval of 100 ms, and the answers of requests that are open, however long they take.\<close>

inductive fob_step :: "jsstring \<Rightarrow> fob \<Rightarrow> fob \<Rightarrow> bool" for keyfobid where
  fob_tick: "fob_step keyfobid s (runFobLogoutReader s)"
| fob_reply: "0 < fb_open s \<Longrightarrow> fob_step keyfobid s (fob_answer keyfobid status newfob s)"

section \<open>The cache of the service worker\<close>

text \<open>The caches of the origin in the order of their creation; a cache maps requests to responses.
  \<open>net\<close> and \<open>answer\<close> are what the network answers, \<open>None\<close> when it fails. \<open>storable\<close> says which
  requests \<open>put\<close> takes; for others its promise is rejected and nothing is stored.\<close>

type_synonym ('q, 'r) caches = "(jsstring \<times> ('q \<rightharpoonup> 'r)) list"

definition sw_cacheName :: jsstring where "sw_cacheName = js ''pos-cache''"
definition sw_cacheAssets :: "jsstring list" where "sw_cacheAssets = [js ''/posuser/posmain'']"

text \<open>\<open>caches.open(cacheName)\<close> and a change of that cache.\<close>

fun sw_change :: "(('q \<rightharpoonup> 'r) \<Rightarrow> ('q \<rightharpoonup> 'r)) \<Rightarrow> ('q, 'r) caches \<Rightarrow> ('q, 'r) caches" where
  "sw_change f [] = [(sw_cacheName, f Map.empty)]"
| "sw_change f ((n, c) # cs) = (if n = sw_cacheName then (n, f c) # cs else (n, c) # sw_change f cs)"

text \<open>\<open>install\<close>: \<open>addAll\<close> stores all assets or none; the flag is \<open>skipWaiting\<close>.\<close>

definition sw_install :: "(jsstring \<Rightarrow> 'r option) \<Rightarrow> (jsstring, 'r) caches \<Rightarrow> (jsstring, 'r) caches \<times> bool" where
  "sw_install net cs =
     (if list_all (\<lambda>a. net a \<noteq> None) sw_cacheAssets
      then (sw_change (\<lambda>c. fold (\<lambda>a c. c(a := net a)) sw_cacheAssets c) cs, True)
      else (sw_change (\<lambda>c. c) cs, False))"

definition sw_activate :: "('q, 'r) caches \<Rightarrow> ('q, 'r) caches" where
  "sw_activate cs = filter (\<lambda>(n, c). n = sw_cacheName) cs"

text \<open>\<open>caches.match\<close>: the first cache that has a response.\<close>

fun caches_match :: "('q, 'r) caches \<Rightarrow> 'q \<Rightarrow> 'r option" where
  "caches_match [] q = None"
| "caches_match ((n, c) # cs) q = (case c q of None \<Rightarrow> caches_match cs q | Some r \<Rightarrow> Some r)"

definition sw_fetch :: "('q \<Rightarrow> bool) \<Rightarrow> 'q \<Rightarrow> 'r option \<Rightarrow> ('q, 'r) caches \<Rightarrow> 'r option \<times> ('q, 'r) caches" where
  "sw_fetch storable q answer cs =
     (case answer of
        Some r \<Rightarrow> (Some r, sw_change (\<lambda>c. if storable q then c(q \<mapsto> r) else c) cs)
      | None \<Rightarrow> (caches_match cs q, cs))"

section \<open>Check boxes\<close>

text \<open>The hidden input and the image that replace a check box. \<open>ck_realvalue\<close> and
  \<open>ck_realinactivevalue\<close> are the attributes of the input.\<close>

record checkify =
  ck_value :: jsstring
  ck_realvalue :: jsstring
  ck_realinactivevalue :: jsstring
  ck_image :: jsstring
  ck_checkedimage :: jsstring
  ck_uncheckedimage :: jsstring
  ck_callback :: jsstring
  ck_name :: jsstring

definition ck_call :: "(jsstring \<Rightarrow> bool) \<Rightarrow> jsstring \<Rightarrow> checkify \<Rightarrow> (jsstring \<times> jsstring \<times> jsstring) list" where
  "ck_call is_function newval c =
     (if ck_callback c \<noteq> [] \<and> is_function (ck_callback c) then [(ck_callback c, newval, ck_name c)] else [])"

definition new_checkify ::
  "(jsstring \<Rightarrow> bool) \<Rightarrow> bool \<Rightarrow> jsstring option \<Rightarrow> jsstring option \<Rightarrow> jsstring \<Rightarrow> jsstring \<Rightarrow> jsstring option \<Rightarrow> jsstring
     \<Rightarrow> checkify \<times> (jsstring \<times> jsstring \<times> jsstring) list" where
  "new_checkify is_function checked realvalue realinactivevalue checkedimage uncheckedimage callback name =
     (let realval = (case realvalue of None \<Rightarrow> js ''on'' | Some v \<Rightarrow> v);
          inactive = (case realinactivevalue of None \<Rightarrow> [] | Some v \<Rightarrow> v);
          c = \<lparr>ck_value = (if checked then realval else inactive), ck_realvalue = realval,
               ck_realinactivevalue = inactive,
               ck_image = (if checked then checkedimage else uncheckedimage),
               ck_checkedimage = checkedimage, ck_uncheckedimage = uncheckedimage,
               ck_callback = (case callback of None \<Rightarrow> [] | Some f \<Rightarrow> f), ck_name = name\<rparr>
      in (c, ck_call is_function (ck_value c) c))"

definition checkify_click ::
  "(jsstring \<Rightarrow> bool) \<Rightarrow> checkify \<Rightarrow> checkify \<times> (jsstring \<times> jsstring \<times> jsstring) list" where
  "checkify_click is_function c =
     (let c1 = (if ck_value c \<noteq> ck_realinactivevalue c
                then c\<lparr>ck_value := ck_realinactivevalue c, ck_image := ck_uncheckedimage c\<rparr>
                else c\<lparr>ck_value := ck_realvalue c, ck_image := ck_checkedimage c\<rparr>)
      in (c1, ck_call is_function (ck_value c1) c1))"

text \<open>\<open>checkifyInvertAll\<close> clicks every check box of a column, in the order of the page.\<close>

definition checkifyInvertAll ::
  "(jsstring \<Rightarrow> bool) \<Rightarrow> jsstring option \<Rightarrow> (jsstring \<times> checkify) list
     \<Rightarrow> (jsstring \<times> checkify) list \<times> (jsstring \<times> jsstring \<times> jsstring) list" where
  "checkifyInvertAll is_function colname cs =
     (let col = (case colname of None \<Rightarrow> js ''Default'' | Some n \<Rightarrow> n)
      in (map (\<lambda>(n, c). if n = col then (n, fst (checkify_click is_function c)) else (n, c)) cs,
          concat (map (\<lambda>(n, c). if n = col then snd (checkify_click is_function c) else []) cs)))"

section \<open>The remote console\<close>

text \<open>An entry of \<open>console.everything\<close> (type and value), the flag \<open>logdirect\<close>, what the browser's own
  console got, and the sent logs.\<close>

record rconsole =
  rc_everything :: "(jsstring \<times> jsstring) list"
  rc_logdirect :: bool
  rc_original :: "(jsstring \<times> jsstring) list"
  rc_beacons :: "(jsstring \<times> jsstring) list list"

definition console_call :: "jsstring \<Rightarrow> jsstring \<Rightarrow> rconsole \<Rightarrow> rconsole" where
  "console_call logType args s =
     (let s1 = (if \<not> rc_logdirect s then s\<lparr>rc_everything := rc_everything s @ [(logType, args)]\<rparr> else s)
      in s1\<lparr>rc_original := rc_original s1 @ [(logType, args)]\<rparr>)"

definition console_record :: "jsstring \<Rightarrow> jsstring \<Rightarrow> rconsole \<Rightarrow> rconsole" where
  "console_record ty v s = s\<lparr>rc_everything := rc_everything s @ [(ty, v)]\<rparr>"

definition console_keyup :: "jsstring \<Rightarrow> rconsole \<Rightarrow> rconsole" where
  "console_keyup key s =
     (if key = js ''F9''
      then let s1 = console_call (js ''log'') (js ''Sending beacon'') (s\<lparr>rc_logdirect := True\<rparr>)
           in s1\<lparr>rc_beacons := rc_beacons s1 @ [rc_everything s1], rc_logdirect := False\<rparr>
      else s)"

section \<open>The refreshes of a browser\<close>

text \<open>The entry is the second of the last refresh, and a tab that has called is due less than 38 seconds after
  that second.\<close>

definition tabs_inv :: "nat \<Rightarrow> tabs \<Rightarrow> bool" where
  "tabs_inv u s \<longleftrightarrow> (\<forall>x\<in>set (tb_sent s). x \<le> tb_now s) \<and>
     sorted_wrt (\<lambda>later earlier. earlier + 14000 < later) (tb_sent s) \<and>
     (\<exists>v. tb_store s = Some v \<and> v = (case tb_sent s of [] \<Rightarrow> u | x # _ \<Rightarrow> x div 1000) \<and>
       (\<forall>(d, called)\<in>set (tb_open s). called \<longrightarrow> d < 1000 * v + 38000))"

lemma tabs_inv_opens:
  "tabs_inv u s \<Longrightarrow> tb_now s \<le> now \<Longrightarrow> tabs_inv u (startSessionRefresh now rnd s)"
  by (auto simp: tabs_inv_def startSessionRefresh_def split: list.splits)

lemma tabs_inv_closes:
  assumes "tabs_inv u s" "tb_now s \<le> now"
  shows "tabs_inv u (s\<lparr>tb_open := take i (tb_open s) @ drop (Suc i) (tb_open s), tb_now := now\<rparr>)"
proof -
  have sub: "x \<in> set (tb_open s)" if "x \<in> set (take i (tb_open s) @ drop (Suc i) (tb_open s))" for x
    using that set_take_subset set_drop_subset by fastforce
  have old: "\<forall>x\<in>set (tb_sent s). x \<le> now" using assms by (auto simp: tabs_inv_def dest: order_trans)
  obtain v where v: "tb_store s = Some v" "v = (case tb_sent s of [] \<Rightarrow> u | x # _ \<Rightarrow> x div 1000)"
    "\<And>x. x \<in> set (tb_open s) \<Longrightarrow> (case x of (d, called) \<Rightarrow> called \<longrightarrow> d < 1000 * v + 38000)"
    using assms(1) unfolding tabs_inv_def by blast
  from v(3) sub have "\<forall>x\<in>set (take i (tb_open s) @ drop (Suc i) (tb_open s)).
      (case x of (d, called) \<Rightarrow> called \<longrightarrow> d < 1000 * v + 38000)" by blast
  with old v(1,2) assms(1) show ?thesis unfolding tabs_inv_def by simp
qed

lemma far_apart: "int (y div 1000) - int (x div 1000) \<ge> 15 \<Longrightarrow> x + 14000 < (y :: nat)"
  by linarith

lemma sorted_wrt_front:
  "sorted_wrt (\<lambda>later earlier. earlier + 14000 < (later :: nat)) (x # xs) \<Longrightarrow> x + 14000 < y \<Longrightarrow>
   sorted_wrt (\<lambda>later earlier. earlier + 14000 < later) (y # x # xs)"
  by auto

lemma tabs_inv_calls:
  assumes inv: "tabs_inv u s" and now: "tb_now s \<le> now" and rnd: "rnd < 3000"
  shows "tabs_inv u (tab_calls i now rnd s)"
proof -
  obtain v where v: "tb_store s = Some v" "v = (case tb_sent s of [] \<Rightarrow> u | x # _ \<Rightarrow> x div 1000)"
    "\<forall>(d, called)\<in>set (tb_open s). called \<longrightarrow> d < 1000 * v + 38000"
    using inv by (auto simp: tabs_inv_def)
  have old: "\<forall>x\<in>set (tb_sent s). x \<le> now" "sorted_wrt (\<lambda>later earlier. earlier + 14000 < later) (tb_sent s)"
    using inv now by (auto simp: tabs_inv_def dest: order_trans)
  have keep: "d < 1000 * w + 38000" if "(d, True) \<in> set ((tb_open s)[i := (e, True)])" "v \<le> w" "e < 1000 * w + 38000" for d e w
    using that v(3) set_update_subset_insert [of "tb_open s" i "(e, True)"] by fastforce
  show ?thesis
  proof (cases "int (now div 1000) - int v < 15")
    case True
    then have "tab_calls i now rnd s = s\<lparr>tb_open := (tb_open s)[i := (now + (20000 + rnd), True)], tb_now := now\<rparr>"
      using v(1) by (simp add: tab_calls_def doSessionRefresh_def)
    moreover have "now + (20000 + rnd) < 1000 * v + 38000" using True rnd by linarith
    ultimately show ?thesis using v(1,2) old keep [of _ "now + (20000 + rnd)" v]
      by (auto simp: tabs_inv_def)
  next
    case False
    then have r: "tab_calls i now rnd s = s\<lparr>tb_open := (tb_open s)[i := (now + (20000 + rnd), True)],
        tb_store := Some (now div 1000), tb_sent := now # tb_sent s, tb_now := now\<rparr>"
      using v(1) by (simp add: tab_calls_def doSessionRefresh_def)
    have w: "v \<le> now div 1000" "now + (20000 + rnd) < 1000 * (now div 1000) + 38000" using False rnd by linarith+
    have "sorted_wrt (\<lambda>later earlier. earlier + 14000 < later) (now # tb_sent s)"
    proof (cases "tb_sent s")
      case (Cons x xs)
      then have "x + 14000 < now" using far_apart [of x now] False v(2) by simp
      then show ?thesis using old(2) sorted_wrt_front unfolding Cons by blast
    qed simp
    then show ?thesis using r old(1) keep [OF _ w] by (auto simp: tabs_inv_def)
  qed
qed

lemma tabs_inv_reach: "tabs_reach (Some u) s \<Longrightarrow> tabs_inv u s"
proof (induction rule: tabs_reach.induct)
  case (tabs_start now)
  then show ?case by (simp add: tabs_inv_def)
next
  case (tabs_next s s')
  from tabs_next(2,3) show ?case
    by (cases rule: tabs_step.cases) (auto intro: tabs_inv_opens tabs_inv_closes tabs_inv_calls)
qed

text \<open>C26: with any number of tabs that share the entry of the local storage, opened, closed and loaded
  anew at any time and with timers as late as can be, two refreshes are more than 14 seconds apart once the
  entry exists: the server sees one stream of refreshes, not one per tab. While a tab that has called once
  stays open and its next call is not more than \<open>late\<close> overdue, less than 38 seconds and \<open>late\<close> have passed
  since the second of the last refresh, which is the entry.\<close>

theorem refresh_paced:
  assumes "tabs_reach (Some u) s"
  shows "sorted_wrt (\<lambda>later earlier. earlier + 14000 < later) (tb_sent s) \<and>
    (\<exists>v. tb_store s = Some v \<and> v = (case tb_sent s of [] \<Rightarrow> u | x # _ \<Rightarrow> x div 1000) \<and>
      (\<forall>(due, called)\<in>set (tb_open s). called \<and> tb_now s \<le> due + late \<longrightarrow>
        tb_now s < 1000 * v + 38000 + late))"
  using tabs_inv_reach [OF assms] by (fastforce simp: tabs_inv_def)

text \<open>The first call of a page comes half a minute after it is loaded: a tab that loads another page every 29
  seconds never refreshes the session by this code.\<close>

theorem loading_postpones:
  "\<exists>s. tabs_reach store s \<and> tb_now s = 29000 * n \<and> tb_sent s = [] \<and> tb_open s = [(29000 * n + 30000, False)]"
proof (induction n)
  case 0
  let ?s = "\<lparr>tb_open = [], tb_store = store, tb_sent = [], tb_now = 0\<rparr>"
  have "tabs_step ?s (startSessionRefresh 0 0 ?s)" by (rule tab_opens) simp_all
  with tabs_start have "tabs_reach store (startSessionRefresh 0 0 ?s)" by (rule tabs_next)
  then show ?case by (intro exI conjI) (assumption, simp_all add: startSessionRefresh_def)
next
  case (Suc n)
  then obtain s where s: "tabs_reach store s" "tb_now s = 29000 * n" "tb_sent s = []"
    "tb_open s = [(29000 * n + 30000, False)]" by blast
  let ?now = "29000 * Suc n"
  let ?s1 = "s\<lparr>tb_open := take 0 (tb_open s) @ drop (Suc 0) (tb_open s), tb_now := ?now\<rparr>"
  have "tabs_step s ?s1" by (rule tab_closes) (simp_all add: s)
  with s(1) have "tabs_reach store ?s1" by (rule tabs_next)
  moreover have "tabs_step ?s1 (startSessionRefresh ?now 0 ?s1)" by (rule tab_opens) simp_all
  ultimately have "tabs_reach store (startSessionRefresh ?now 0 ?s1)" by (rule tabs_next)
  then show ?case by (intro exI conjI) (assumption, simp_all add: startSessionRefresh_def s)
qed

text \<open>on a browser without the entry the first refresh stores 1 instead of the time: every other
  tab then refreshes at its next call, however short after the first.\<close>

theorem first_refresh_twice:
  "\<exists>s. tabs_reach None s \<and> tb_sent s = [30000, 30000]"
proof -
  define s0 where "s0 = \<lparr>tb_open = [], tb_store = None, tb_sent = [], tb_now = 0\<rparr>"
  define s1 where "s1 = startSessionRefresh 0 0 (startSessionRefresh 0 0 s0)"
  define s2 where "s2 = tab_calls 0 30000 0 s1"
  have "tabs_reach None s0" unfolding s0_def by (rule tabs_start)
  then have "tabs_reach None (startSessionRefresh 0 0 s0)" by (rule tabs_next) (rule tab_opens, simp_all add: s0_def)
  then have "tabs_reach None s1" unfolding s1_def
    by (rule tabs_next) (rule tab_opens, simp_all add: s0_def startSessionRefresh_def)
  then have "tabs_reach None s2" unfolding s2_def
    by (rule tabs_next) (rule tab_is_due, simp_all add: s1_def s0_def startSessionRefresh_def)
  then have "tabs_reach None (tab_calls 1 30000 0 s2)"
    by (rule tabs_next)
      (rule tab_is_due, simp_all add: s2_def s1_def s0_def startSessionRefresh_def tab_calls_def doSessionRefresh_def)
  then show ?thesis
    by (intro exI conjI)
      (assumption, simp add: s2_def s1_def s0_def startSessionRefresh_def tab_calls_def doSessionRefresh_def)
qed

section \<open>Requests and fields\<close>

text \<open>a second field that is updated before the answer for the first one takes its handler: the
  first field and its button stay disabled, whatever is answered afterwards.\<close>

theorem overlapping_updates_lock:
  fixes s :: ajax_page
  assumes "f1 \<notin> {b2, f2}" "b1 \<notin> {b2, f2}"
  shows "let s' = fold ajax_answer rs (ajaxUpdateInputField b2 f2 (ajaxUpdateInputField b1 f1 s))
    in aj_disabled s' f1 \<and> aj_disabled s' b1 \<and> aj_value s' f1 = aj_value s f1"
proof -
  define P where "P = (\<lambda>t :: ajax_page. aj_handler t = Some (b2, f2, None) \<and> aj_disabled t f1 \<and> aj_disabled t b1 \<and>
    aj_value t f1 = aj_value s f1)"
  have step: "P t \<Longrightarrow> P (ajax_answer r t)" for t r
    using assms by (auto simp: P_def ajax_answer_def)
  have "P t \<Longrightarrow> P (fold ajax_answer rs t)" for t
    by (induction rs arbitrary: t) (simp_all add: step)
  moreover have "P (ajaxUpdateInputField b2 f2 (ajaxUpdateInputField b1 f1 s))"
    by (simp add: P_def ajaxUpdateInputField_def)
  ultimately show ?thesis unfolding Let_def P_def by blast
qed

text \<open>without an overlap an update ends with the answer in the field and both enabled.\<close>

theorem update_sets_field:
  "let s' = ajax_answer r (ajaxUpdateInputField b f s)
   in aj_value s' f = r \<and> \<not> aj_disabled s' f \<and> \<not> aj_disabled s' b"
  by (simp add: ajax_answer_def ajaxUpdateInputField_def)

section \<open>The client identifier\<close>

lemma transform_length [simp]:
  "length (sha_ihash s) = 8 \<Longrightarrow> length (sha_ihash (sha256_transform s)) = 8"
  by (simp add: sha256_transform_def Let_def split: prod.splits)

lemma blocks_length:
  "length (sha_ihash s) = 8 \<Longrightarrow> length (sha_ihash (snd (sha_blocks data n i index p s))) = 8"
proof (induction data n i index p s rule: sha_blocks.induct)
  case (1 data n i index p s)
  then show ?case by (subst sha_blocks.simps) simp
qed

lemma digest_hex:
  "length (sha256_digest data) = 64" "c \<in> set (sha256_digest data) \<Longrightarrow> c \<in> {48..57} \<union> {97..102}"
proof -
  let ?u = "sha256_update data (length data) sha256_init"
  have "length (sha_ihash ?u) = 8"
    using blocks_length [of "sha256_init\<lparr>sha_count0 := c0, sha_count1 := c1\<rparr>" for c0 c1]
    by (simp add: sha256_update_def Let_def split_beta) (simp add: sha256_init_def)
  then have "length (sha_ihash (sha256_final ?u)) = 8"
    by (simp add: sha256_final_def Let_def)
  then show "length (sha256_digest data) = 64"
    by (simp add: sha256_digest_def sha256_encode_hex_def length_concat comp_def sum_list_triv)
  show "c \<in> {48..57} \<union> {97..102}" if "c \<in> set (sha256_digest data)"
  proof -
    have "digit_unit (nat (i_and x 15)) \<in> {48..57} \<union> {97..102}" for x
      using pos_mod_bound [of 16 "uint (i32 x)"] by (auto simp: digit_unit_def i_and_uint)
    then show ?thesis using that by (auto simp: sha256_digest_def sha256_encode_hex_def)
  qed
qed

text \<open>The state after \<open>n\<close> movements, up to the nineteenth.\<close>

fun romo_hash :: "jsstring \<Rightarrow> nat \<Rightarrow> jsstring" where
  "romo_hash sid 0 = sid"
| "romo_hash sid (Suc n) = sha256_digest (js_slice (romo_hash sid n) 1 13 @ nat_to_string 10 (Suc n))"

lemma romo_run:
  "0 < n \<Longrightarrow> (romoCalc sid ^^ n) new_romo =
    \<lparr>romo_cnt = n, romo_state = romo_hash sid (min n 19),
     romo_clientid = (if n < 20 then None else Some (js_toUpperCase (js_slice (romo_hash sid 19) 3 11))),
     romo_callbacks = (if n < 20 then 0 else 1)\<rparr>"
proof (induction n)
  case (Suc n)
  have ne: "romo_hash sid (Suc k) \<noteq> []" for k using digest_hex(1) by (metis list.size(3) romo_hash.simps(2) zero_neq_numeral)
  show ?case
  proof (cases "n = 0")
    case True
    then show ?thesis by (simp add: new_romo_def romoCalc_def)
  next
    case False
    then have n: "min n 19 = Suc (min n 19 - 1)" by simp
    have ne': "romo_hash sid (min n 19) \<noteq> []" using ne [of "min n 19 - 1"] n by metis
    have step: "(romoCalc sid ^^ Suc n) new_romo = romoCalc sid ((romoCalc sid ^^ n) new_romo)" by simp
    consider "n < 19" | "n = 19" | "19 < n" by linarith
    then show ?thesis
      unfolding step Suc.IH [OF False [unfolded neq0_conv]]
      using ne' by cases (simp_all add: romoCalc_def Let_def)
  qed
qed simp

lemma upper_hex:
  assumes "set x \<subseteq> {48..57} \<union> {97..102}"
  shows "js_toUpperCase x = map upper_unit x" "\<forall>c\<in>set (js_toUpperCase x). c \<in> {48..57} \<union> {65..70}"
proof -
  have "\<forall>c\<in>set x. c < 128" using assms by auto
  then show up: "js_toUpperCase x = map upper_unit x" by (rule js_toUpperCase_ascii)
  have unit: "upper_unit c \<in> {48..57} \<union> {65..70}" if "c \<in> {48..57} \<union> {97..102}" for c
  proof (cases "c \<in> {48..57}")
    case True
    then have "upper_unit c = c" by (simp add: upper_unit_def)
    then show ?thesis using True by simp
  next
    case False
    then have "97 \<le> c" "c \<le> 102" using that by auto
    then have "upper_unit c = c - 32" "65 \<le> c - 32" "c - 32 \<le> 70" by (simp_all add: upper_unit_def)
    then show ?thesis by simp
  qed
  show "\<forall>c\<in>set (js_toUpperCase x). c \<in> {48..57} \<union> {65..70}"
  proof
    fix c assume "c \<in> set (js_toUpperCase x)"
    then obtain d where d: "d \<in> set x" "c = upper_unit d" unfolding up set_map by blast
    from d(1) assms have "d \<in> {48..57} \<union> {97..102}" by blast
    then show "c \<in> {48..57} \<union> {65..70}" unfolding d(2) by (rule unit)
  qed
qed

text \<open>the client identifier is set by the twentieth movement and never again, and the callback is
  called once: eight characters of the nineteen times iterated hash of the session identifier, all
  digits or letters from A to F.\<close>

theorem romo_client_id:
  fixes sid :: jsstring
  assumes "20 \<le> n"
  defines "s \<equiv> (romoCalc sid ^^ n) new_romo"
  shows "romo_clientid s = Some (js_toUpperCase (js_slice (romo_hash sid 19) 3 11)) \<and>
    romo_callbacks s = 1 \<and> length (the (romo_clientid s)) = 8 \<and>
    (\<forall>c\<in>set (the (romo_clientid s)). c \<in> {48..57} \<union> {65..70})"
proof -
  obtain x where x: "romo_hash sid 19 = sha256_digest x"
    using romo_hash.simps(2) [of sid 18] by (simp del: romo_hash.simps)
  have "set (js_slice (romo_hash sid 19) 3 11) \<subseteq> set (sha256_digest x)"
    unfolding js_slice_def x using set_take_subset set_drop_subset by fast
  then have "set (js_slice (romo_hash sid 19) 3 11) \<subseteq> {48..57} \<union> {97..102}"
    using digest_hex(2) by fast
  note up = upper_hex [OF this]
  from up(2) have "\<forall>c\<in>set (js_toUpperCase (js_slice (romo_hash sid 19) 3 11)). c \<in> {48..57} \<union> {65..70}" .
  moreover have "length (romo_hash sid 19) = 64" using digest_hex(1) x by simp
  then have "length (js_toUpperCase (js_slice (romo_hash sid 19) 3 11)) = 8"
    unfolding up(1) by (simp add: js_slice_def)
  ultimately show ?thesis using romo_run [of n sid] assms by simp
qed

section \<open>Variables, statistics, logout, cache, check boxes, console\<close>

lemma translateString_map: "translateString ts t = (case map_of ts t of None \<Rightarrow> t | Some v \<Rightarrow> v)"
  by (induction ts) auto

lemma loadTTVars_append:
  "loadTTVars parse (xs @ ys) t = (case loadTTVars parse xs t of Inl e \<Rightarrow> Inl e | Inr t' \<Rightarrow> loadTTVars parse ys t')"
  by (induction xs arbitrary: t) (auto split: sum.splits)

lemma load_var_plain:
  "load_var parse (k', v) t = Inr t' \<Longrightarrow> take 7 k \<noteq> js ''trquote'' \<Longrightarrow> take 4 k \<noteq> js ''json'' \<Longrightarrow>
   tt_vars t' k = (if k' = k then Some v else tt_vars t k)"
  by (auto simp: load_var_def split: if_splits data_value.splits option.splits)

text \<open>loading the variables of several elements one after the other is loading all of them at
  once, and a variable without prefix has the value that was loaded last.\<close>

theorem last_variable_wins:
  assumes "loadTTVars parse kvs t = Inr t'" "take 7 k \<noteq> js ''trquote''" "take 4 k \<noteq> js ''json''"
  shows "tt_vars t' k = (case map_of (rev kvs) k of None \<Rightarrow> tt_vars t k | Some v \<Rightarrow> Some v)"
  using assms(1)
proof (induction kvs arbitrary: t)
  case (Cons kv kvs)
  obtain k1 v where kv: "kv = (k1, v)" by (cases kv)
  obtain t1 where t1: "load_var parse kv t = Inr t1" "loadTTVars parse kvs t1 = Inr t'"
    using Cons.prems by (auto split: sum.splits)
  from Cons.IH [OF t1(2)] load_var_plain [OF t1(1) [unfolded kv] assms(2,3)] show ?case
    by (auto simp: kv map_add_def split: option.splits)
qed simp

text \<open>from the moment a page is shown, one report at most is sent until it is shown again, whatever
  hides, leaves or unloads it, and its duration is the time from the start to the first of these.\<close>

theorem pageview_reported_once:
  assumes "pv_start s \<noteq> 0" "e \<noteq> PvVisible" "\<forall>(t, ev)\<in>set evs. ev \<noteq> PvVisible"
  shows "map fst (pv_reports (fold pv_handle ((now, e) # evs) s))
    = map fst (pv_reports s) @ [of_int (math_round ((now - pv_start s) * 100)) / 100]
    \<and> pv_start (fold pv_handle ((now, e) # evs) s) = 0"
proof -
  have idle: "\<forall>(t, ev)\<in>set evs. ev \<noteq> PvVisible \<Longrightarrow> pv_start u = 0 \<Longrightarrow> fold pv_handle evs u = u" for u
  proof (induction evs)
    case (Cons x xs)
    obtain t ev where "x = (t, ev)" by (cases x)
    then show ?case using Cons by (cases ev) (auto simp: send_pageviewstats_def)
  qed simp
  have "map fst (pv_reports (pv_handle (now, e) s))
      = map fst (pv_reports s) @ [of_int (math_round ((now - pv_start s) * 100)) / 100] \<and>
    pv_start (pv_handle (now, e) s) = 0"
    using assms(1,2) by (cases e) (simp_all add: send_pageviewstats_def)
  then show ?thesis using idle [OF assms(3)] by simp
qed

definition other_fob :: "jsstring \<Rightarrow> nat \<times> jsstring \<Rightarrow> bool" where
  "other_fob keyfobid = (\<lambda>(status, newfob). status = 200 \<and> newfob \<noteq> keyfobid)"

lemma fob_inv:
  assumes "(fob_step keyfobid)\<^sup>*\<^sup>* new_fob s"
  shows "fb_open s = (if fb_active s then 1 else 0) \<and> fb_requests s = length (fb_answers s) + fb_open s \<and>
    fb_logouts s = (if fb_running s then 1 else 0) \<and> (fb_running s \<longrightarrow> \<not> fb_active s) \<and>
    (fb_running s \<longleftrightarrow> list_ex (other_fob keyfobid) (fb_answers s))"
  using assms
proof (induction rule: rtranclp_induct)
  case base
  then show ?case by (simp add: new_fob_def)
next
  case (step s s')
  from step(2,3) show ?case
    by (cases rule: fob_step.cases) (auto simp: runFobLogoutReader_def fob_answer_def Let_def other_fob_def split: if_splits)
qed

text \<open>C31: At most one request of the key fob reader is open at a time and every other one sent has been answered;
  the logout is begun at most once, exactly by an answer 200 with another identifier than that of the session,
  and once it has begun nothing happens any more.\<close>

theorem fob_logout_once:
  assumes "(fob_step keyfobid)\<^sup>*\<^sup>* new_fob s"
  shows "fb_open s \<le> 1 \<and> fb_requests s = length (fb_answers s) + fb_open s \<and> fb_logouts s \<le> 1 \<and>
    (fb_running s \<longleftrightarrow> (\<exists>newfob. (200, newfob) \<in> set (fb_answers s) \<and> newfob \<noteq> keyfobid)) \<and>
    (fb_logouts s = 1 \<longleftrightarrow> fb_running s) \<and>
    (fb_running s \<longrightarrow> (\<forall>s'. (fob_step keyfobid)\<^sup>*\<^sup>* s s' \<longrightarrow> s' = s))"
proof -
  have "s' = s" if "fb_running s" "(fob_step keyfobid)\<^sup>*\<^sup>* s s'" for s'
    using that(2)
  proof (induction rule: rtranclp_induct)
    case (step u v)
    from step(2) step.IH fob_inv [OF assms] that(1) show ?case
      by (cases rule: fob_step.cases) (auto simp: runFobLogoutReader_def)
  qed simp
  then show ?thesis using fob_inv [OF assms] by (auto simp: list_ex_iff other_fob_def)
qed

lemma sw_one_cache: "sw_change f [(sw_cacheName, c)] = [(sw_cacheName, f c)]"
  by simp

text \<open>once the worker is active, a request that could be stored is answered without the network
  by the last response the network gave it, whatever else was fetched since.\<close>

theorem offline_answer:
  assumes "sw_activate cs = [(sw_cacheName, c)]" "storable q" "\<forall>(q', a)\<in>set fs. q' = q \<longrightarrow> a = None"
  shows "fst (sw_fetch storable q None
      (fold (\<lambda>(q', a) cs. snd (sw_fetch storable q' a cs)) fs
        (snd (sw_fetch storable q (Some r) (sw_activate cs))))) = Some r"
proof -
  have "\<exists>c'. fold (\<lambda>(q', a) cs. snd (sw_fetch storable q' a cs)) fs [(sw_cacheName, c)] = [(sw_cacheName, c')]
      \<and> c' q = Some r" if "c q = Some r" for c
    using assms(3) that
  proof (induction fs arbitrary: c)
    case (Cons f fs)
    obtain q' a where f: "f = (q', a)" by (cases f)
    show ?case
    proof (cases a)
      case None
      then show ?thesis using Cons f by (simp add: sw_fetch_def)
    next
      case (Some b)
      then have "q' \<noteq> q" using Cons.prems(1) f by auto
      then show ?thesis
        using Cons.IH [of "if storable q' then c(q' \<mapsto> b) else c"] Cons.prems f Some by (auto simp: sw_fetch_def)
    qed
  qed simp
  from this [of "c(q \<mapsto> r)"] show ?thesis using assms(1,2) by (auto simp: sw_fetch_def)
qed

definition checkify_ok :: "checkify \<Rightarrow> bool" where
  "checkify_ok c \<longleftrightarrow> ck_realvalue c \<noteq> ck_realinactivevalue c \<and>
     (ck_value c = ck_realvalue c \<and> ck_image c = ck_checkedimage c \<or>
      ck_value c = ck_realinactivevalue c \<and> ck_image c = ck_uncheckedimage c)"

text \<open>a check box whose two values differ shows its state, and a click turns it over: two clicks
  leave it as it was.\<close>

theorem checkify_turns:
  assumes "rv \<noteq> (case riv of None \<Rightarrow> [] | Some v \<Rightarrow> v)"
    and c: "c = fst (new_checkify is_fn checked (Some rv) riv im1 im2 cb name)"
  shows "checkify_ok c \<and> (\<forall>n. checkify_ok (((\<lambda>c. fst (checkify_click is_fn c)) ^^ n) c)) \<and>
    fst (checkify_click is_fn (fst (checkify_click is_fn c))) = c"
proof -
  have ok: "checkify_ok c" using assms(1)
    by (auto simp: c new_checkify_def checkify_ok_def Let_def)
  have step: "checkify_ok d \<Longrightarrow> checkify_ok (fst (checkify_click is_fn d))" for d
    by (auto simp: checkify_ok_def checkify_click_def Let_def)
  have "checkify_ok (((\<lambda>c. fst (checkify_click is_fn c)) ^^ n) c)" for n
    by (induction n) (simp_all add: ok step)
  moreover have "fst (checkify_click is_fn (fst (checkify_click is_fn d))) = d" if "checkify_ok d" for d
    using that by (auto simp: checkify_ok_def checkify_click_def Let_def)
  ultimately show ?thesis using ok by blast
qed

text \<open>the log that a press of F9 sends holds every console call since the page began, in order, and
  no call is kept from the console of the browser.\<close>

theorem console_log_complete:
  assumes "\<not> rc_logdirect s"
  shows "let s' = console_keyup (js ''F9'') (fold (\<lambda>(ty, v). console_call ty v) calls s)
    in rc_beacons s' = rc_beacons s @ [rc_everything s @ calls] \<and>
       rc_original s' = rc_original s @ calls @ [(js ''log'', js ''Sending beacon'')] \<and>
       rc_everything s' = rc_everything s @ calls"
proof -
  have "\<not> rc_logdirect s \<Longrightarrow> fold (\<lambda>(ty, v). console_call ty v) calls s
      = s\<lparr>rc_everything := rc_everything s @ calls, rc_original := rc_original s @ calls\<rparr>" for s
    by (induction calls arbitrary: s) (auto simp: console_call_def)
  from this [OF assms] show ?thesis by (simp add: console_keyup_def console_call_def)
qed

section \<open>The properties at concrete states\<close>

theorem refresh_paced_witness:
  "sorted_wrt (\<lambda>later earlier. earlier + 14000 < later)
    (tb_sent (tab_calls 0 100000 0 (startSessionRefresh 70000 0 \<lparr>tb_open = [], tb_store = Some 5, tb_sent = [], tb_now = 70000\<rparr>)))"
proof -
  define s0 where "s0 = \<lparr>tb_open = [], tb_store = Some 5, tb_sent = [], tb_now = 70000\<rparr>"
  have "tabs_reach (Some 5) s0" unfolding s0_def by (rule tabs_start)
  then have "tabs_reach (Some 5) (startSessionRefresh 70000 0 s0)"
    by (rule tabs_next) (rule tab_opens, simp_all add: s0_def)
  then have "tabs_reach (Some 5) (tab_calls 0 100000 0 (startSessionRefresh 70000 0 s0))"
    by (rule tabs_next) (rule tab_is_due, simp_all add: s0_def startSessionRefresh_def)
  from refresh_paced [OF this] show ?thesis unfolding s0_def by blast
qed

theorem romo_client_id_witness:
  "romo_callbacks ((romoCalc (js ''session'') ^^ 25) new_romo) = 1"
  using romo_client_id [of 25 "js ''session''"] by (simp del: funpow.simps)

theorem overlapping_updates_lock_witness:
  "aj_disabled (fold ajax_answer [[49], [50]]
     (ajaxUpdateInputField [3] [4] (ajaxUpdateInputField [1] [2]
        \<lparr>aj_value = (\<lambda>_. []), aj_disabled = (\<lambda>_. False), aj_handler = None, aj_visible = (\<lambda>_. True)\<rparr>))) [2]"
  using overlapping_updates_lock [of "[2]" "[3]" "[4]" "[1]" "[[49], [50]]"
      "\<lparr>aj_value = (\<lambda>_. []), aj_disabled = (\<lambda>_. False), aj_handler = None, aj_visible = (\<lambda>_. True)\<rparr>"]
  unfolding Let_def by simp

theorem offline_answer_witness:
  "fst (sw_fetch (\<lambda>_. True) (1::nat) None (fold (\<lambda>(q', a) cs. snd (sw_fetch (\<lambda>_. True) q' a cs)) [(2, Some (7::nat))]
      (snd (sw_fetch (\<lambda>_. True) 1 (Some 9) (sw_activate [(sw_cacheName, Map.empty), ([65], Map.empty)]))))) = Some 9"
  by (rule offline_answer [of _ Map.empty]) (simp_all add: sw_activate_def sw_cacheName_def)

theorem fob_logout_once_witness:
  "fb_logouts (fob_answer [1] 200 [2] (runFobLogoutReader new_fob)) \<le> 1 \<and>
    fb_open (fob_answer [1] 200 [2] (runFobLogoutReader new_fob)) \<le> 1"
proof -
  have "fob_step [1] new_fob (runFobLogoutReader new_fob)" by (rule fob_tick)
  moreover have "fob_step [1] (runFobLogoutReader new_fob) (fob_answer [1] 200 [2] (runFobLogoutReader new_fob))"
    by (rule fob_reply) (simp add: runFobLogoutReader_def new_fob_def)
  ultimately have "(fob_step [1])\<^sup>*\<^sup>* new_fob (fob_answer [1] 200 [2] (runFobLogoutReader new_fob))" by auto
  from fob_logout_once [OF this] show ?thesis by blast
qed

theorem pageview_reported_once_witness:
  "pv_start (fold pv_handle [(5, PvBeforeunload), (6, PvUnload)] \<lparr>pv_start = 2, pv_count = 1, pv_reports = []\<rparr>) = 0"
  using pageview_reported_once [of "\<lparr>pv_start = 2, pv_count = 1, pv_reports = []\<rparr>" PvBeforeunload "[(6, PvUnload)]" 5]
  by simp

theorem checkify_turns_witness:
  "checkify_ok (fst (new_checkify (\<lambda>_. False) True (Some [49]) None [1] [2] None [3]))"
  using checkify_turns [of "[49]" None _ "\<lambda>_. False" True "[1]" "[2]" None "[3]", OF _ refl] by simp

end
