(* ===== verification/TableSort.thy ===== *)
theory TableSort
  imports Prelude
begin

text \<open>
  \<open>jquery.dataTables.sortplugin.js\<close>: how the tables of the pages detect and compare columns of file sizes,
  of numbers in HTML and of addresses. Texts become numbers as \<open>Number\<close>, \<open>parseFloat\<close> and \<open>parseInt\<close>
  convert them. The theorems: the comparisons of a pair are converses, addresses compare by their
  parts, file sizes by their bytes, and where a column that is detected is not ordered. The smaller
  plugins \<open>jquery.dataTables.plugins.js\<close> and \<open>jquery.dataTables.filterdelay.js\<close>: hidden rows and the
  delay of the filter.
\<close>

section \<open>Numbers in texts\<close>

definition is_dec :: "jschar \<Rightarrow> bool" where
  "is_dec c \<longleftrightarrow> 48 \<le> c \<and> c \<le> 57"

text \<open>An optional sign.\<close>

fun sign_of :: "jsstring \<Rightarrow> real \<times> jsstring" where
  "sign_of (c # s) = (if c = 45 then (-1, s) else if c = 43 then (1, s) else (1, c # s))"
| "sign_of [] = (1, [])"

text \<open>An exponent counts only when digits follow.\<close>

definition exponent_of :: "jsstring \<Rightarrow> real \<times> jsstring" where
  "exponent_of s =
     (case s of
        [] \<Rightarrow> (1, s)
      | c # r \<Rightarrow>
          if c \<noteq> 101 \<and> c \<noteq> 69 then (1, s)
          else (case sign_of r of (sg, r1) \<Rightarrow>
                  (let ds = takeWhile is_dec r1; e = num_of_digits 10 ds
                   in if ds = [] then (1, s)
                      else (if sg < 0 then 1 / 10 ^ e else 10 ^ e, dropWhile is_dec r1))))"

text \<open>The longest decimal number at the start of a text, and the rest.\<close>

definition decimal_of :: "jsstring \<Rightarrow> (real \<times> jsstring) option" where
  "decimal_of s =
     (let ip = takeWhile is_dec s; r = dropWhile is_dec s;
          fp = (case r of [] \<Rightarrow> [] | c # r1 \<Rightarrow> if c = 46 then takeWhile is_dec r1 else []);
          r2 = (case r of [] \<Rightarrow> [] | c # r1 \<Rightarrow> if c = 46 then dropWhile is_dec r1 else r)
      in if ip = [] \<and> fp = [] then None
         else (case exponent_of r2 of (e, r3) \<Rightarrow>
                 Some (real (num_of_digits 10 (ip @ fp)) / 10 ^ length fp * e, r3)))"

definition js_trim :: "jsstring \<Rightarrow> jsstring" where
  "js_trim s = rev (dropWhile is_space (rev (dropWhile is_space s)))"

definition js_signed :: "real \<Rightarrow> jsnum" where
  "js_signed sg = (if sg < 0 then NegInf else PosInf)"

text \<open>\<open>Number(s)\<close>, which the multiplication of a text applies to it.\<close>

definition js_number :: "jsstring \<Rightarrow> jsnum" where
  "js_number s =
     (let t = js_trim s;
          radix = (if take 2 t \<in> {js ''0x'', js ''0X''} then 16
                   else if take 2 t \<in> {js ''0o'', js ''0O''} then 8
                   else if take 2 t \<in> {js ''0b'', js ''0B''} then 2 else 0)
      in if t = [] then Fin 0
         else if radix \<noteq> 0
         then (if drop 2 t \<noteq> [] \<and> list_all (is_digit_of radix) (drop 2 t)
               then Fin (real (num_of_digits radix (drop 2 t))) else NaN)
         else (case sign_of t of (sg, u) \<Rightarrow>
                 if u = js ''Infinity'' then js_signed sg
                 else (case decimal_of u of
                         Some (x, []) \<Rightarrow> Fin (sg * x)
                       | _ \<Rightarrow> NaN)))"

definition parseFloat :: "jsstring \<Rightarrow> jsnum" where
  "parseFloat s =
     (case sign_of (dropWhile is_space s) of (sg, u) \<Rightarrow>
        if take 8 u = js ''Infinity'' then js_signed sg
        else (case decimal_of u of Some (x, r) \<Rightarrow> Fin (sg * x) | None \<Rightarrow> NaN))"

text \<open>\<open>parseInt\<close> of a number, by way of its text: exact for zero and for numbers from \<open>10 ^ -6\<close> to
  \<open>10 ^ 21\<close>, whose texts have no exponent.\<close>

fun parseInt_num :: "jsnum \<Rightarrow> jsnum" where
  "parseInt_num (Fin x) = Fin (of_int (if 0 \<le> x then \<lfloor>x\<rfloor> else \<lceil>x\<rceil>))"
| "parseInt_num PosInf = NaN"
| "parseInt_num NegInf = NaN"
| "parseInt_num NaN = NaN"

text \<open>\<open>(x < y) ? -1 : ((x > y) ? 1 : 0)\<close> and its converse.\<close>

definition asc_num :: "jsnum \<Rightarrow> jsnum \<Rightarrow> int" where
  "asc_num x y = (if js_less x y then -1 else if js_less y x then 1 else 0)"

definition desc_num :: "jsnum \<Rightarrow> jsnum \<Rightarrow> int" where
  "desc_num x y = (if js_less x y then 1 else if js_less y x then -1 else 0)"

section \<open>File sizes\<close>

definition size_unit :: "jsstring \<Rightarrow> real" where
  "size_unit a =
     (let u = drop (length a - 2) a
      in if u = js ''MB'' then 1000 else if u = js ''GB'' then 1000000 else 1)"

definition size_key :: "jsstring \<Rightarrow> jsnum" where
  "size_key a = parseInt_num (js_mul (js_number (take (length a - 2) a)) (Fin (size_unit a)))"

definition file_size_asc :: "jsstring \<Rightarrow> jsstring \<Rightarrow> int" where
  "file_size_asc a b = asc_num (size_key a) (size_key b)"

definition file_size_desc :: "jsstring \<Rightarrow> jsstring \<Rightarrow> int" where
  "file_size_desc a b = desc_num (size_key a) (size_key b)"

text \<open>The detection looks at all characters of the number but the last.\<close>

definition detect_file_size :: "jsstring \<Rightarrow> bool" where
  "detect_file_size s \<longleftrightarrow>
     list_all is_dec (take (length s - 3) s) \<and>
     drop (length s - 2) s \<in> {js ''KB'', js ''MB'', js ''GB''}"

section \<open>Numbers in HTML\<close>

text \<open>\<open>s.replace(/<.*?>/g, '')\<close>: each tag ends at the first \<open>>\<close>; the dot does not match the ends of
  lines. \<open>tag_end\<close> is the rest after a tag whose \<open><\<close> is read.\<close>

fun tag_end :: "jsstring \<Rightarrow> jsstring option" where
  "tag_end [] = None"
| "tag_end (c # s) = (if c = 62 then Some s else if c \<in> {10, 13, 8232, 8233} then None else tag_end s)"

lemma tag_end_shorter: "tag_end s = Some t \<Longrightarrow> length t < length s"
proof (induction s arbitrary: t)
  case (Cons c s)
  then show ?case by (auto split: if_splits intro: less_SucI)
qed simp

function strip_tags :: "jsstring \<Rightarrow> jsstring" where
  "strip_tags [] = []"
| "strip_tags (c # s) =
     (if c = 60 then (case tag_end s of Some t \<Rightarrow> strip_tags t | None \<Rightarrow> c # strip_tags s)
      else c # strip_tags s)"
  by pat_completeness auto
termination
  by (relation "measure length") (auto dest: tag_end_shorter)

definition num_html_asc :: "jsstring \<Rightarrow> jsstring \<Rightarrow> int" where
  "num_html_asc a b = asc_num (parseFloat (strip_tags a)) (parseFloat (strip_tags b))"

definition num_html_desc :: "jsstring \<Rightarrow> jsstring \<Rightarrow> int" where
  "num_html_desc a b = desc_num (parseFloat (strip_tags a)) (parseFloat (strip_tags b))"

text \<open>The loop over the characters after the first; the flag says whether a point was seen. \<open>indexOf\<close> of
  an empty text is 0, so an empty cell passes the first test.\<close>

fun rest_valid :: "bool \<Rightarrow> jsstring \<Rightarrow> bool" where
  "rest_valid bDecimal [] \<longleftrightarrow> True"
| "rest_valid bDecimal (c # s) \<longleftrightarrow>
     (if c = 46 then \<not> bDecimal \<and> rest_valid True s else is_dec c \<and> rest_valid bDecimal s)"

definition detect_num_html :: "jsstring \<Rightarrow> bool" where
  "detect_num_html sData =
     (case js_trim (strip_tags sData) of
        [] \<Rightarrow> True
      | c # s \<Rightarrow> (is_dec c \<or> c = 45) \<and> rest_valid False s)"

text \<open>A cell may also hold a number: the test accepts it, but the comparisons call \<open>replace\<close> on it.\<close>

datatype table_cell = CellText jsstring | CellNumber real

definition detect_num_html_cell :: "table_cell \<Rightarrow> bool" where
  "detect_num_html_cell c = (case c of CellText s \<Rightarrow> detect_num_html s | CellNumber x \<Rightarrow> True)"

definition num_html_asc_cells :: "table_cell \<Rightarrow> table_cell \<Rightarrow> int res" where
  "num_html_asc_cells a b =
     (case (a, b) of (CellText s, CellText t) \<Rightarrow> Inr (num_html_asc s t) | _ \<Rightarrow> Inl TypeError)"

section \<open>Addresses\<close>

definition pad3 :: "jsstring \<Rightarrow> jsstring" where
  "pad3 item =
     (if length item = 1 then js ''00'' @ item else if length item = 2 then js ''0'' @ item else item)"

definition ip_key :: "jsstring \<Rightarrow> jsstring" where
  "ip_key a = concat (map pad3 (js_split 46 a))"

text \<open>The comparison of texts, unit by unit.\<close>

fun str_less :: "jsstring \<Rightarrow> jsstring \<Rightarrow> bool" where
  "str_less [] t \<longleftrightarrow> t \<noteq> []"
| "str_less (c # s) [] \<longleftrightarrow> False"
| "str_less (c # s) (d # t) \<longleftrightarrow> c < d \<or> c = d \<and> str_less s t"

definition ip_address_asc :: "jsstring \<Rightarrow> jsstring \<Rightarrow> int" where
  "ip_address_asc a b =
     (if str_less (ip_key a) (ip_key b) then -1 else if str_less (ip_key b) (ip_key a) then 1 else 0)"

definition ip_address_desc :: "jsstring \<Rightarrow> jsstring \<Rightarrow> int" where
  "ip_address_desc a b =
     (if str_less (ip_key a) (ip_key b) then 1 else if str_less (ip_key b) (ip_key a) then -1 else 0)"

text \<open>The regular expression: four parts of one to three digits.\<close>

definition detect_ip :: "jsstring \<Rightarrow> bool" where
  "detect_ip s \<longleftrightarrow>
     (let parts = js_split 46 s
      in length parts = 4 \<and> list_all (\<lambda>p. length p \<in> {1, 2, 3} \<and> list_all is_dec p) parts)"

section \<open>Rows that are not shown\<close>

text \<open>\<open>fnGetHiddenNodes\<close> (\<open>jquery.dataTables.plugins.js\<close>): the first occurrence of each displayed row
  is taken out of the array of all rows.\<close>

definition fnGetHiddenNodes :: "'n list \<Rightarrow> 'n list \<Rightarrow> 'n list" where
  "fnGetHiddenNodes anNodes anDisplay =
     fold (\<lambda>d ns. case find_index (\<lambda>x. x = d) ns of None \<Rightarrow> ns | Some i \<Rightarrow> splice_out ns i) anDisplay anNodes"

text \<open>\<open>fnSortNeutral\<close>: the two arrays of row numbers are sorted, the sorting of the columns is dropped.\<close>

record table_settings =
  aaSorting :: "(nat \<times> bool) list"
  aiDisplay :: "nat list"
  aiDisplayMaster :: "nat list"

definition fnSortNeutral :: "table_settings \<Rightarrow> table_settings" where
  "fnSortNeutral s = s\<lparr>aaSorting := [], aiDisplay := sort (aiDisplay s), aiDisplayMaster := sort (aiDisplayMaster s)\<rparr>"

section \<open>The delay of the filter\<close>

text \<open>\<open>fnSetFilteringDelay\<close> (\<open>jquery.dataTables.filterdelay.js\<close>): the text of the box, the text of the
  last search, when the timer fires, and the calls of \<open>fnFilter\<close> with their times, the last one first.\<close>

record filter_delay =
  fd_val :: jsstring
  fd_previous :: jsstring
  fd_timer :: "nat option"
  fd_filters :: "(nat \<times> jsstring) list"

definition new_filter_delay :: filter_delay where
  "new_filter_delay = \<lparr>fd_val = [], fd_previous = [], fd_timer = None, fd_filters = []\<rparr>"

text \<open>The timer up to a time.\<close>

definition fd_run :: "nat \<Rightarrow> filter_delay \<Rightarrow> filter_delay" where
  "fd_run now s =
     (case fd_timer s of
        None \<Rightarrow> s
      | Some t \<Rightarrow> if t \<le> now then s\<lparr>fd_timer := None, fd_filters := (t, fd_val s) # fd_filters s\<rparr> else s)"

text \<open>A key at a time, which leaves a text in the box.\<close>

definition fd_keyup :: "nat \<Rightarrow> nat \<times> jsstring \<Rightarrow> filter_delay \<Rightarrow> filter_delay" where
  "fd_keyup iDelay e s0 =
     (case e of (now, v) \<Rightarrow>
        (let s = (fd_run now s0)\<lparr>fd_val := v\<rparr>; sNewSearch = js_trim v
         in if fd_previous s \<noteq> sNewSearch \<or> sNewSearch = []
            then s\<lparr>fd_previous := sNewSearch, fd_timer := Some (now + iDelay)\<rparr>
            else s))"

section \<open>Comparisons\<close>

text \<open>the two comparisons of each type are converses, whatever the cells hold.\<close>

theorem desc_is_converse:
  "file_size_desc a b = file_size_asc b a \<and> num_html_desc a b = num_html_asc b a \<and>
   ip_address_desc a b = ip_address_asc b a"
proof -
  have less: "\<not> (js_less x y \<and> js_less y x)" for x y by (cases x; cases y) auto
  have str: "\<not> (str_less s t \<and> str_less t s)" for s t
  proof (induction s t rule: str_less.induct)
    case (1 t)
    then show ?case by (cases t) auto
  qed auto
  show ?thesis
    using less [of "size_key a" "size_key b"] str [of "ip_key a" "ip_key b"]
      less [of "parseFloat (strip_tags a)" "parseFloat (strip_tags b)"]
    by (auto simp: file_size_desc_def file_size_asc_def num_html_desc_def num_html_asc_def asc_num_def
        desc_num_def ip_address_desc_def ip_address_asc_def)
qed

lemma num_of_digits_snoc: "num_of_digits r (s @ [c]) = num_of_digits r s * r + (case digit_value c of None \<Rightarrow> 0 | Some d \<Rightarrow> d)"
  by (simp add: num_of_digits_def)

lemma digit_value_dec: "is_dec c \<Longrightarrow> digit_value c = Some (c - 48)"
  by (simp add: digit_value_def is_dec_def)

lemma num_of_digits_dec:
  "list_all is_dec (c # s) \<Longrightarrow> num_of_digits 10 (c # s) = (c - 48) * 10 ^ length s + num_of_digits 10 s"
proof (induction s rule: rev_induct)
  case Nil
  then show ?case by (simp add: num_of_digits_def digit_value_dec)
next
  case (snoc d s)
  then show ?case using num_of_digits_snoc [of 10 "c # s" d] num_of_digits_snoc [of 10 s d]
    by (simp add: algebra_simps)
qed

lemma num_of_digits_less: "list_all is_dec s \<Longrightarrow> num_of_digits 10 s < 10 ^ length s"
proof (induction s)
  case (Cons c s)
  have "c - 48 \<le> 9" using Cons.prems unfolding is_dec_def list.pred_inject by linarith
  then have "(c - 48) * 10 ^ length s \<le> 9 * 10 ^ length s" by (rule mult_le_mono1)
  moreover have "num_of_digits 10 s < 10 ^ length s" using Cons by simp
  ultimately have "(c - 48) * 10 ^ length s + num_of_digits 10 s < 9 * 10 ^ length s + 10 ^ length s"
    by (rule add_le_less_mono)
  then show ?case unfolding num_of_digits_dec [OF Cons.prems] by simp
qed (simp add: num_of_digits_def)

text \<open>Digits of the same length compare as their numbers.\<close>

lemma str_less_digits:
  assumes "length s = length t" "list_all is_dec s" "list_all is_dec t"
  shows "str_less s t \<longleftrightarrow> num_of_digits 10 s < num_of_digits 10 t"
    "num_of_digits 10 s = num_of_digits 10 t \<longleftrightarrow> s = t"
proof -
  have "(str_less s t \<longleftrightarrow> num_of_digits 10 s < num_of_digits 10 t) \<and>
      (num_of_digits 10 s = num_of_digits 10 t \<longleftrightarrow> s = t)"
    using assms
  proof (induction s t rule: list_induct2)
    case (Cons c s d t)
    note IH = Cons.IH and dec = Cons.prems
    have low: "num_of_digits 10 s < 10 ^ length s" "num_of_digits 10 t < 10 ^ length s"
      using num_of_digits_less [of s] num_of_digits_less [of t] dec Cons.hyps by simp_all
    have num: "num_of_digits 10 (c # s) = (c - 48) * 10 ^ length s + num_of_digits 10 s"
      "num_of_digits 10 (d # t) = (d - 48) * 10 ^ length s + num_of_digits 10 t"
      using num_of_digits_dec dec Cons.hyps by auto
    have cd: "48 \<le> c" "48 \<le> d" using dec by (simp_all add: is_dec_def)
    have high: "num_of_digits 10 (a # u) < num_of_digits 10 (b # v)"
      if "a < b" "48 \<le> a" "num_of_digits 10 u < 10 ^ length s"
        "num_of_digits 10 (a # u) = (a - 48) * 10 ^ length s + num_of_digits 10 u"
        "num_of_digits 10 (b # v) = (b - 48) * 10 ^ length s + num_of_digits 10 v" for a b u v
    proof -
      have "Suc (a - 48) * 10 ^ length s \<le> (b - 48) * 10 ^ length s"
        by (rule mult_le_mono1) (use that(1,2) in simp)
      then show ?thesis using that(3-5) by simp
    qed
    consider "c < d" | "d < c" | "c = d" by linarith
    then show ?case
    proof cases
      case 1
      then show ?thesis using high [OF 1 cd(1) low(1) num] by auto
    next
      case 2
      then show ?thesis using high [OF 2 cd(2) low(2) num(2,1)] by auto
    next
      case 3
      then show ?thesis using IH dec num by auto
    qed
  qed simp
  then show "str_less s t \<longleftrightarrow> num_of_digits 10 s < num_of_digits 10 t"
    "num_of_digits 10 s = num_of_digits 10 t \<longleftrightarrow> s = t" by simp_all
qed

lemma str_less_append:
  "length s = length t \<Longrightarrow> str_less (s @ u) (t @ v) \<longleftrightarrow> str_less s t \<or> s = t \<and> str_less u v"
  by (induction s t rule: list_induct2) auto

text \<open>A part of an address, padded to three digits.\<close>

definition is_part :: "jsstring \<Rightarrow> bool" where
  "is_part p \<longleftrightarrow> length p \<in> {1, 2, 3} \<and> list_all is_dec p"

lemma pad3_part:
  assumes "is_part p"
  shows "length (pad3 p) = 3" "list_all is_dec (pad3 p)" "num_of_digits 10 (pad3 p) = num_of_digits 10 p"
  using assms by (auto simp: pad3_def is_part_def is_dec_def num_of_digits_zero)

lemma str_less_parts:
  assumes "list_all is_part ps" "list_all is_part qs" "length ps = length qs"
  shows "str_less (concat (map pad3 ps)) (concat (map pad3 qs)) \<longleftrightarrow>
    str_less (map (num_of_digits 10) ps) (map (num_of_digits 10) qs)"
  using assms(3,1,2)
proof (induction ps qs rule: list_induct2)
  case (Cons p ps q qs)
  have part: "is_part p" "is_part q" using Cons.prems by auto
  note pad = pad3_part [OF part(1)] pad3_part [OF part(2)]
  have "length (pad3 p) = length (pad3 q)" using pad by simp
  from str_less_append [OF this] str_less_digits [OF this pad(2,5)] Cons pad show ?case by simp
qed simp

text \<open>C27: two addresses compare as the lists of their four numbers, the first one that differs deciding.\<close>

theorem ip_sort_numeric:
  assumes "detect_ip a" "detect_ip b"
  defines "parts \<equiv> \<lambda>s. map (num_of_digits 10) (js_split 46 s)"
  shows "ip_address_asc a b =
    (if str_less (parts a) (parts b) then -1 else if str_less (parts b) (parts a) then 1 else 0)"
proof -
  have "list_all is_part (js_split 46 s) \<and> length (js_split 46 s) = 4" if "detect_ip s" for s
    using that by (auto simp: detect_ip_def Let_def is_part_def list_all_iff)
  then show ?thesis using assms(1,2) str_less_parts
    by (simp add: ip_address_asc_def ip_key_def parts_def)
qed

theorem ip_sort_numeric_witness:
  "ip_address_asc (js ''10.0.0.9'') (js ''10.0.0.12'') = -1"
proof -
  have "detect_ip (js ''10.0.0.9'')" "detect_ip (js ''10.0.0.12'')" by code_simp+
  from ip_sort_numeric [OF this] show ?thesis by (simp add: num_of_digits_def digit_value_def)
qed

section \<open>Sizes\<close>

lemma takeWhile_digits: "list_all is_dec s \<Longrightarrow> takeWhile is_dec s = s" "list_all is_dec s \<Longrightarrow> dropWhile is_dec s = []"
  by (induction s) auto

lemma dec_no_space: "is_dec c \<Longrightarrow> \<not> is_space c"
  by (auto simp: is_dec_def is_space_def)

lemma js_trim_digits: "list_all is_dec s \<Longrightarrow> js_trim s = s"
proof -
  assume s: "list_all is_dec s"
  have "dropWhile is_space t = t" if "list_all is_dec t" for t
    using that by (cases t) (auto simp: dec_no_space)
  then show ?thesis using s by (simp add: js_trim_def)
qed

lemma sign_of_digits: "list_all is_dec s \<Longrightarrow> sign_of s = (1, s)"
  by (cases s) (auto simp: is_dec_def)

lemma decimal_of_digits:
  "list_all is_dec s \<Longrightarrow> s \<noteq> [] \<Longrightarrow> decimal_of s = Some (real (num_of_digits 10 s), [])"
  by (simp add: decimal_of_def takeWhile_digits exponent_of_def)

lemma js_number_digits:
  assumes "list_all is_dec s" "s \<noteq> []"
  shows "js_number s = Fin (real (num_of_digits 10 s))"
proof -
  have "take 2 s \<noteq> [48, c]" if "57 < c" for c
    using assms that by (cases s; cases "tl s") (auto simp: is_dec_def)
  moreover have "s \<noteq> js ''Infinity''" using assms by (auto simp: is_dec_def)
  ultimately show ?thesis using assms
    by (simp add: js_number_def js_trim_digits sign_of_digits decimal_of_digits Let_def)
qed

lemma parseFloat_digits:
  assumes "list_all is_dec s" "s \<noteq> []"
  shows "parseFloat s = Fin (real (num_of_digits 10 s))"
proof -
  have "dropWhile is_space s = s" using assms by (cases s) (auto simp: dec_no_space)
  moreover have "take 8 s \<noteq> js ''Infinity''" using assms by (cases s) (auto simp: is_dec_def)
  ultimately show ?thesis using assms by (simp add: parseFloat_def sign_of_digits decimal_of_digits)
qed

lemma size_key_digits:
  assumes "list_all is_dec s" "s \<noteq> []" "u \<in> {js ''KB'', js ''MB'', js ''GB''}"
  shows "size_key (s @ u) = Fin (real (num_of_digits 10 s * (if u = js ''GB'' then 1000000 else if u = js ''MB'' then 1000 else 1)))"
proof -
  have "length u = 2" using assms(3) by auto
  then show ?thesis using assms(3)
    by (auto simp: size_key_def size_unit_def js_number_digits [OF assms(1,2)] Let_def simp flip: of_nat_mult)
qed

text \<open>file sizes compare by their bytes, in thousands: the unit counts, not the text.\<close>

theorem file_size_sorts:
  assumes "list_all is_dec s" "s \<noteq> []" "u \<in> {js ''KB'', js ''MB'', js ''GB''}"
    "list_all is_dec t" "t \<noteq> []" "v \<in> {js ''KB'', js ''MB'', js ''GB''}"
  defines "kb \<equiv> \<lambda>u n. n * (if u = js ''GB'' then 1000000 else if u = js ''MB'' then 1000 else 1 :: nat)"
  shows "detect_file_size (s @ u) \<and> file_size_asc (s @ u) (t @ v) =
    (if kb u (num_of_digits 10 s) < kb v (num_of_digits 10 t) then -1
     else if kb v (num_of_digits 10 t) < kb u (num_of_digits 10 s) then 1 else 0)"
proof
  have "length u = 2" using assms(3) by auto
  then show "detect_file_size (s @ u)"
    using assms(1,3) by (auto simp: detect_file_size_def list_all_iff dest: in_set_takeD)
  show "file_size_asc (s @ u) (t @ v) = (if kb u (num_of_digits 10 s) < kb v (num_of_digits 10 t) then -1
     else if kb v (num_of_digits 10 t) < kb u (num_of_digits 10 s) then 1 else 0)"
    by (simp only: file_size_asc_def size_key_digits [OF assms(1-3)] size_key_digits [OF assms(4-6)]
        asc_num_def js_less.simps of_nat_less_iff kb_def)
qed

theorem file_size_sorts_witness: "file_size_asc (js ''2MB'') (js ''900KB'') = 1"
  using file_size_sorts [of "js ''2''" "js ''MB''" "js ''900''" "js ''KB''"]
  by (simp add: is_dec_def num_of_digits_def digit_value_def)

section \<open>Rows and filters\<close>

lemma remove_first:
  "(case find_index (\<lambda>x. x = d) ns of None \<Rightarrow> ns | Some i \<Rightarrow> splice_out ns i) = remove1 d ns"
proof (induction ns)
  case (Cons x ns)
  then show ?case by (cases "find_index (\<lambda>x. x = d) ns") (auto simp: splice_out_def)
qed simp

text \<open>the hidden rows are the rows that are not displayed, in their order: with the displayed ones the
  form that is sent has every row once.\<close>

theorem hidden_nodes_complete:
  assumes "distinct anNodes"
  shows "fnGetHiddenNodes anNodes anDisplay = filter (\<lambda>n. n \<notin> set anDisplay) anNodes"
proof -
  have "fold remove1 ds ns = filter (\<lambda>n. n \<notin> set ds) ns" if "distinct ns" for ds ns :: "'a list"
    using that
  proof (induction ds arbitrary: ns)
    case (Cons d ds)
    then show ?case by (simp add: distinct_remove1_removeAll removeAll_filter_not_eq) (metis (mono_tags, lifting))
  qed simp
  then show ?thesis using assms by (simp add: fnGetHiddenNodes_def remove_first)
qed

theorem hidden_nodes_complete_witness: "fnGetHiddenNodes [1, 2, 3, 4 :: nat] [4, 2] = [1, 3]"
  using hidden_nodes_complete [of "[1, 2, 3, 4 :: nat]" "[4, 2]"] by simp

text \<open>The search that runs or has run is the one for the text in the box.\<close>

definition fd_inv :: "filter_delay \<Rightarrow> bool" where
  "fd_inv s \<longleftrightarrow> fd_previous s = js_trim (fd_val s) \<and>
     (fd_timer s = None \<longrightarrow> (case fd_filters s of [] \<Rightarrow> False | (t, v) # fs \<Rightarrow> js_trim v = fd_previous s))"

lemma fd_inv_run: "fd_inv s \<Longrightarrow> fd_inv (fd_run now s)"
  by (auto simp: fd_inv_def fd_run_def split: option.split)

lemma fd_inv_keyup: "fd_inv s \<or> s = new_filter_delay \<Longrightarrow> fd_inv (fd_keyup d e s)"
  using fd_inv_run [of s] by (cases e)
    (auto simp: fd_inv_def fd_keyup_def fd_run_def new_filter_delay_def Let_def split: option.splits list.splits)

lemma fd_timer_bound:
  "(case fd_timer s of None \<Rightarrow> True | Some t \<Rightarrow> t \<le> now + d) \<Longrightarrow> now \<le> fst e \<Longrightarrow>
    case fd_timer (fd_keyup d e s) of None \<Rightarrow> True | Some t \<Rightarrow> t \<le> fst e + d"
  by (cases e) (auto simp: fd_keyup_def fd_run_def Let_def split: option.splits)

text \<open>C28: whatever is typed, when the delay has passed after the last key the table is filtered by the
  text that stands in the box.\<close>

theorem filter_catches_up:
  assumes "es \<noteq> []" "sorted (map fst es)" "fst (last es) + iDelay \<le> now"
  defines "s \<equiv> fd_run now (fold (fd_keyup iDelay) es new_filter_delay)"
  shows "fd_timer s = None \<and> (\<exists>t v fs. fd_filters s = (t, v) # fs \<and> js_trim v = js_trim (snd (last es)))"
proof -
  have "fd_inv (fold (fd_keyup iDelay) es new_filter_delay) \<and>
      (case fd_timer (fold (fd_keyup iDelay) es new_filter_delay) of None \<Rightarrow> True | Some t \<Rightarrow> t \<le> fst (last es) + iDelay) \<and>
      fd_val (fold (fd_keyup iDelay) es new_filter_delay) = snd (last es)"
    using assms(1,2)
  proof (induction es rule: rev_induct)
    case (snoc e es)
    let ?s = "fold (fd_keyup iDelay) es new_filter_delay"
    have val: "fd_val (fd_keyup iDelay e ?s) = snd e" by (cases e) (simp add: fd_keyup_def Let_def)
    show ?case
    proof (cases "es = []")
      case True
      then show ?thesis unfolding last_snoc using val fd_inv_keyup [of new_filter_delay] fd_timer_bound [where s = new_filter_delay and now = 0 and d = iDelay and e = e]
        by (simp add: new_filter_delay_def)
    next
      case False
      have "fst (last es) \<le> fst e" using snoc.prems(2) False by (auto simp: sorted_append)
      moreover have "sorted (map fst es)" using snoc.prems(2) by (simp add: sorted_append)
      ultimately show ?thesis unfolding last_snoc
        using snoc.IH [OF False] val fd_inv_keyup fd_timer_bound [where s = ?s and now = "fst (last es)" and d = iDelay and e = e] by simp
    qed
  qed simp
  then show ?thesis using assms(3)
    by (auto simp: s_def fd_run_def fd_inv_def split: option.splits list.splits)
qed

theorem filter_catches_up_witness:
  "\<exists>t v fs. fd_filters (fd_run 600 (fold (fd_keyup 250) [(0, js ''a''), (100, js ''ab'')] new_filter_delay)) = (t, v) # fs
     \<and> js_trim v = js_trim (js ''ab'')"
  using filter_catches_up [of "[(0, js ''a''), (100, js ''ab'')]" 250 600] by simp

text \<open>Keys that come within the delay filter once.\<close>

theorem keys_in_a_row_filter_once:
  "fd_filters (fd_run 600 (fold (fd_keyup 250) [(0, js ''a''), (100, js ''ab''), (300, js ''abc'')] new_filter_delay))
     = [(550, js ''abc'')]"
  by (simp add: fd_run_def fd_keyup_def new_filter_delay_def js_trim_def is_space_def Let_def)

section \<open>Columns that are not ordered\<close>

text \<open>an empty cell passes the test for numbers and compares as equal to every number: a column with
  one is not ordered, and the outcome of sorting it depends on the order before.\<close>

theorem empty_cell_unordered:
  "detect_num_html [] \<and> num_html_asc [] a = 0 \<and> num_html_asc a [] = 0 \<and>
   detect_num_html (js ''1'') \<and> detect_num_html (js ''2'') \<and> num_html_asc (js ''1'') (js ''2'') = -1"
proof -
  have empty: "parseFloat (strip_tags []) = NaN" by (simp add: parseFloat_def decimal_of_def)
  have "js_less x NaN = False" "js_less NaN x = False" for x by (cases x; simp)+
  moreover have "num_html_asc (js ''1'') (js ''2'') = -1"
    by (simp add: num_html_asc_def parseFloat_digits is_dec_def num_of_digits_def digit_value_def asc_num_def)
  ultimately show ?thesis
    by (simp add: num_html_asc_def asc_num_def empty [simplified] detect_num_html_def js_trim_def is_dec_def is_space_def)
qed

text \<open>A column of numbers is detected and cannot be sorted.\<close>

theorem number_cells_throw:
  "detect_num_html_cell (CellNumber x) \<and> num_html_asc_cells (CellNumber x) (CellNumber y) = Inl TypeError"
  by (simp add: detect_num_html_cell_def num_html_asc_cells_def)

text \<open>The test for file sizes does not look at the last character of the number.\<close>

theorem size_without_number: "detect_file_size (js ''xKB'') \<and> size_key (js ''xKB'') = NaN"
  by (simp add: detect_file_size_def size_key_def size_unit_def js_number_def js_trim_def is_space_def
      decimal_of_def is_dec_def Let_def)

end
