(* ===== verification/Passwords.thy ===== *)
theory Passwords
  imports Prelude
begin

text \<open>
  \<open>jquery.complexify.js\<close>: the strength of a password, from which the page decides whether a new
  password is accepted. The strength is the logarithm of the number of texts of the same length over the
  character sets that occur; \<open>Math.pow\<close> overflows only where the strength is far above both limits.
  The theorems: what is valid, that appending never weakens, how long passwords of one kind of
  character have to be, and that a banned one is never valid.
\<close>

section \<open>Character sets\<close>

definition charsets :: "(nat \<times> nat) list" where
  "charsets = [
    (32, 32), (48, 57), (65, 90), (97, 122), (33, 47), (58, 64), (91, 96), (123, 126), (128, 255),
    (256, 383), (384, 591), (592, 687), (688, 767), (768, 879), (880, 1023), (1024, 1279), (1328, 1423),
    (1424, 1535), (1536, 1791), (1792, 1871), (1920, 1983), (2304, 2431), (2432, 2559), (2560, 2687),
    (2688, 2815), (2816, 2943), (2944, 3071), (3072, 3199), (3200, 3327), (3328, 3455), (3456, 3583),
    (3584, 3711), (3712, 3839), (3840, 4095), (4096, 4255), (4256, 4351), (4352, 4607), (4608, 4991),
    (5024, 5119), (5120, 5759), (5760, 5791), (5792, 5887), (6016, 6143), (6144, 6319), (7680, 7935),
    (7936, 8191), (8192, 8303), (8304, 8351), (8352, 8399), (8400, 8447), (8448, 8527), (8528, 8591),
    (8592, 8703), (8704, 8959), (8960, 9215), (9216, 9279), (9280, 9311), (9312, 9471), (9472, 9599),
    (9600, 9631), (9632, 9727), (9728, 9983), (9984, 10175), (10240, 10495), (11904, 12031),
    (12032, 12255), (12272, 12287), (12288, 12351), (12352, 12447), (12448, 12543), (12544, 12591),
    (12592, 12687), (12688, 12703), (12704, 12735), (12800, 13055), (13056, 13311), (13312, 19893),
    (19968, 40959), (40960, 42127), (42128, 42191), (44032, 55203), (55296, 56191), (56192, 56319),
    (56320, 57343), (57344, 63743), (63744, 64255), (64256, 64335), (64336, 65023), (65056, 65071),
    (65072, 65103), (65104, 65135), (65136, 65278), (65279, 65279), (65280, 65519), (65520, 65533)]"

text \<open>The loop over the characters returns at the first one of the set.\<close>

fun charset_scan :: "nat \<times> nat \<Rightarrow> jsstring \<Rightarrow> nat" where
  "charset_scan cs [] = 0"
| "charset_scan cs (c # s) = (if fst cs \<le> c \<and> c \<le> snd cs then snd cs - fst cs + 1 else charset_scan cs s)"

definition additionalComplexityForCharset :: "jsstring \<Rightarrow> nat \<times> nat \<Rightarrow> nat" where
  "additionalComplexityForCharset str charset = charset_scan charset (rev str)"

section \<open>Banned passwords\<close>

fun js_startsWith :: "jsstring \<Rightarrow> jsstring \<Rightarrow> bool" where
  "js_startsWith s [] \<longleftrightarrow> True"
| "js_startsWith [] (c # t) \<longleftrightarrow> False"
| "js_startsWith (d # s) (c # t) \<longleftrightarrow> d = c \<and> js_startsWith s t"

text \<open>\<open>s.indexOf(t) !== -1\<close>.\<close>

fun js_contains :: "jsstring \<Rightarrow> jsstring \<Rightarrow> bool" where
  "js_contains [] t \<longleftrightarrow> t = []"
| "js_contains (c # s) t \<longleftrightarrow> js_startsWith (c # s) t \<or> js_contains s t"

definition inBanlist :: "bool \<Rightarrow> jsstring list \<Rightarrow> jsstring \<Rightarrow> bool" where
  "inBanlist strict banned str \<longleftrightarrow>
     (if strict then list_ex (\<lambda>b. js_contains (js_toLowerCase str) (js_toLowerCase b)) banned
      else str \<in> set banned)"

section \<open>The evaluation\<close>

record complexify_options =
  co_minimumChars :: nat
  co_strengthScaleFactor :: real
  co_bannedPasswords :: "jsstring list"
  co_strict :: bool

definition default_options :: "jsstring list \<Rightarrow> complexify_options" where
  "default_options banlist = \<lparr>co_minimumChars = 8, co_strengthScaleFactor = 1, co_bannedPasswords = banlist, co_strict = False\<rparr>"

text \<open>\<open>Math.log\<close> of a number that is not negative.\<close>

definition js_log :: "real \<Rightarrow> jsnum" where
  "js_log x = (if x = 0 then NegInf else Fin (ln x))"

definition raw_complexity :: "complexify_options \<Rightarrow> jsstring \<Rightarrow> nat" where
  "raw_complexity opts password =
     (if inBanlist (co_strict opts) (co_bannedPasswords opts) password then 1
      else sum_list (map (additionalComplexityForCharset password) (rev charsets)))"

text \<open>What the callback gets: whether the password is valid, and a percentage.\<close>

definition evaluateSecurity :: "complexify_options \<Rightarrow> jsstring \<Rightarrow> bool \<times> jsnum" where
  "evaluateSecurity opts password =
     (let complexity = js_mul (js_log (real (raw_complexity opts password) ^ length password))
                         (js_div 1 (co_strengthScaleFactor opts));
          valid = (js_less (Fin 49) complexity \<and> co_minimumChars opts \<le> length password);
          percent = js_mul (js_mul complexity (Fin (1 / 120))) (Fin 100)
      in (valid, if js_less (Fin 100) percent then Fin 100 else percent))"

section \<open>Validity\<close>

lemma charset_scan_eq:
  "charset_scan (l, u) s = (if \<exists>c\<in>set s. l \<le> c \<and> c \<le> u then u - l + 1 else 0)"
  by (induction s) auto

lemma additional_eq:
  "additionalComplexityForCharset s cs = (if \<exists>c\<in>set s. fst cs \<le> c \<and> c \<le> snd cs then snd cs - fst cs + 1 else 0)"
  by (cases cs) (simp add: additionalComplexityForCharset_def charset_scan_eq)

lemma additional_mono: "set s \<subseteq> set t \<Longrightarrow> additionalComplexityForCharset s cs \<le> additionalComplexityForCharset t cs"
  by (auto simp: additional_eq)

definition char_count :: "jsstring \<Rightarrow> nat" where
  "char_count s = sum_list (map (additionalComplexityForCharset s) (rev charsets))"

lemma char_count_mono: "set s \<subseteq> set t \<Longrightarrow> char_count s \<le> char_count t"
  unfolding char_count_def by (rule sum_list_mono) (rule additional_mono)

text \<open>With the options of the pages a password is valid when it is not banned, has eight characters, and
  the number of texts of its length over its character sets is more than \<open>exp 49\<close>.\<close>

lemma strength_iff:
  "fst (evaluateSecurity (default_options ban) s) \<longleftrightarrow>
     s \<notin> set ban \<and> 8 \<le> length s \<and> exp 49 < real (char_count s) ^ length s"
proof -
  have log: "js_less (Fin 49) (js_mul (js_log x) (js_div 1 1)) \<longleftrightarrow> exp 49 < x" if "0 \<le> x" for x :: real
  proof (cases "x = 0")
    case True
    have "\<not> exp 49 < (0 :: real)" using exp_gt_zero [of "49 :: real"] by linarith
    then show ?thesis using True by (simp add: js_log_def js_div_def)
  next
    case False
    then have "49 < ln x \<longleftrightarrow> exp 49 < x" using that by (metis exp_less_cancel_iff exp_ln less_eq_real_def)
    then show ?thesis using False by (simp add: js_log_def js_div_def)
  qed
  have one: "\<not> exp 49 < (1 :: real)" by simp
  show ?thesis
    using log [of "real (char_count s) ^ length s"] log [of 1] one
    by (auto simp: evaluateSecurity_def default_options_def raw_complexity_def inBanlist_def char_count_def Let_def
        split del: if_split split: if_split)
qed

lemma valid_strength:
  "fst (evaluateSecurity (default_options ban) s) \<Longrightarrow> 8 \<le> length s \<and> exp 49 < real (char_count s) ^ length s"
  by (simp add: strength_iff)

lemma strength_valid:
  "s \<notin> set ban \<Longrightarrow> 8 \<le> length s \<Longrightarrow> exp 49 < real (char_count s) ^ length s \<Longrightarrow>
    fst (evaluateSecurity (default_options ban) s)"
  by (simp add: strength_iff)

text \<open>appending characters to a valid password keeps it valid, unless the longer one is banned.\<close>

theorem append_keeps_valid:
  assumes "fst (evaluateSecurity (default_options ban) s)" "s @ t \<notin> set ban"
  shows "fst (evaluateSecurity (default_options ban) (s @ t))"
proof -
  have s: "8 \<le> length s" "exp 49 < real (char_count s) ^ length s"
    using valid_strength [OF assms(1)] by simp_all
  have "0 < char_count s" using s exp_gt_zero [of "49 :: real"] by (cases "char_count s") (auto simp: power_0_left split: if_splits)
  moreover have "char_count s \<le> char_count (s @ t)" by (rule char_count_mono) simp
  ultimately have "real (char_count s) ^ length s \<le> real (char_count (s @ t)) ^ length (s @ t)"
    by (intro order_trans [OF power_mono [of _ "real (char_count (s @ t))"] power_increasing]) simp_all
  then show ?thesis using s assms(2) by (intro strength_valid) simp_all
qed

text \<open>Bounds of the limit.\<close>

lemma exp_49_bounds: "(2697 / 1000) ^ 49 < (exp 49 :: real)" "(exp 49 :: real) < (274 / 100) ^ 49"
proof -
  have e: "exp (1 :: real) = exp (1 / 64) ^ 64" by (simp flip: exp_of_nat_mult)
  have "(1 + 1 / 64) ^ 64 \<le> exp (1 / 64 :: real) ^ 64"
    by (rule power_mono) (use exp_ge_add_one_self [of "1 / 64"] in simp_all)
  moreover have "(2697 / 1000 :: real) < (1 + 1 / 64) ^ 64" by (simp add: field_simps)
  ultimately have lower: "2697 / 1000 < exp (1 :: real)" using e by linarith
  have "exp (1 / 64 :: real) ^ 64 \<le> (1 + 1 / 64 + (1 / 64)\<^sup>2) ^ 64"
    by (rule power_mono) (use exp_bound [of "1 / 64"] in simp_all)
  moreover have "(1 + 1 / 64 + (1 / 64)\<^sup>2) ^ 64 < (274 / 100 :: real)" by (simp add: field_simps)
  ultimately have upper: "exp (1 :: real) < 274 / 100" using e by linarith
  have "exp (49 :: real) = exp 1 ^ 49" by (simp flip: exp_of_nat_mult)
  then show "(2697 / 1000) ^ 49 < (exp 49 :: real)" "(exp 49 :: real) < (274 / 100) ^ 49"
    using lower upper by (simp_all add: power_strict_mono)
qed

lemma char_count_digits: "\<forall>c\<in>set s. 48 \<le> c \<and> c \<le> 57 \<Longrightarrow> s \<noteq> [] \<Longrightarrow> char_count s = 10"
proof -
  assume s: "\<forall>c\<in>set s. 48 \<le> c \<and> c \<le> 57" "s \<noteq> []"
  have none: "additionalComplexityForCharset s (l, u) = 0" if "u < 48 \<or> 57 < l" for l u
    using s(1) that by (fastforce simp: additional_eq)
  have "additionalComplexityForCharset s (48, 57) = 10" using s by (cases s) (auto simp: additional_eq)
  then show ?thesis by (simp add: char_count_def charsets_def none)
qed

text \<open>a password of digits is valid from 22 digits on, unless it is banned.\<close>

theorem digits_valid_iff:
  assumes "\<forall>c\<in>set s. 48 \<le> c \<and> c \<le> 57"
  shows "fst (evaluateSecurity (default_options ban) s) \<longleftrightarrow> s \<notin> set ban \<and> 22 \<le> length s"
proof -
  have limit: "exp 49 < (10 :: real) ^ n \<longleftrightarrow> 22 \<le> n" for n
  proof
    assume n: "22 \<le> n"
    have "(274 / 100) ^ 49 < (10 :: real) ^ 22" by (simp add: field_simps)
    also have "(10 :: real) ^ 22 \<le> 10 ^ n" using n by (rule power_increasing) simp
    finally show "exp 49 < (10 :: real) ^ n" using exp_49_bounds(2) by linarith
  next
    assume e: "exp 49 < (10 :: real) ^ n"
    show "22 \<le> n"
    proof (rule ccontr)
      assume "\<not> 22 \<le> n"
      then have "(10 :: real) ^ n \<le> 10 ^ 21" by (intro power_increasing) simp_all
      moreover have "(10 :: real) ^ 21 < (2697 / 1000) ^ 49" by (simp add: field_simps)
      ultimately show False using e exp_49_bounds(1) by linarith
    qed
  qed
  show ?thesis
  proof (cases "s = []")
    case True
    then show ?thesis using strength_iff [of ban "[]"] by simp
  next
    case False
    then show ?thesis using strength_iff [of ban s] char_count_digits [OF assms False] limit [of "length s"] by auto
  qed
qed

theorem digits_valid_iff_witness: "\<not> fst (evaluateSecurity (default_options []) (js ''0123456789''))"
  using digits_valid_iff [of "js ''0123456789''" "[]"] by simp

text \<open>C30: as the code says, twelve characters with upper and lower case letters and digits are enough, unless
  they are banned.\<close>

theorem mixed_password_valid:
  assumes "12 \<le> length s" "s \<notin> set ban"
    and "\<exists>c\<in>set s. 48 \<le> c \<and> c \<le> 57" "\<exists>c\<in>set s. 65 \<le> c \<and> c \<le> 90" "\<exists>c\<in>set s. 97 \<le> c \<and> c \<le> 122"
  shows "fst (evaluateSecurity (default_options ban) s)"
proof (rule strength_valid)
  have "additionalComplexityForCharset s (48, 57) = 10" "additionalComplexityForCharset s (65, 90) = 26"
    "additionalComplexityForCharset s (97, 122) = 26" using assms(3-5) by (auto simp: additional_eq)
  then have "62 \<le> char_count s" by (simp add: char_count_def charsets_def)
  then have "62 ^ 12 \<le> real (char_count s) ^ length s"
    using assms(1) by (intro order_trans [OF power_mono [of _ "real (char_count s)"] power_increasing]) simp_all
  moreover have "(274 / 100) ^ 49 < (62 :: real) ^ 12" by (simp add: field_simps)
  ultimately show "exp 49 < real (char_count s) ^ length s" using exp_49_bounds(2) by linarith
qed (use assms(1,2) in simp_all)

theorem mixed_password_valid_witness: "fst (evaluateSecurity (default_options []) (js ''Passw0rdSafe''))"
  by (rule mixed_password_valid) simp_all

theorem append_keeps_valid_witness: "fst (evaluateSecurity (default_options []) (js ''Passw0rdSafe'' @ js ''x''))"
proof -
  have "fst (evaluateSecurity (default_options []) (js ''Passw0rdSafe''))"
    using strength_iff [of "[]" "js ''Passw0rdSafe''"] exp_49_bounds(2)
    by (simp add: char_count_def charsets_def additional_eq) (simp add: field_simps)
  then show ?thesis by (rule append_keeps_valid) simp
qed

text \<open>the percentage is never more than 100, and a banned password has 0 per cent and is not valid,
  whatever the other options are.\<close>

theorem banned_never_valid:
  assumes "inBanlist (co_strict opts) (co_bannedPasswords opts) s" "co_strengthScaleFactor opts \<noteq> 0"
  shows "evaluateSecurity opts s = (False, Fin 0)"
  using assms by (simp add: evaluateSecurity_def raw_complexity_def js_log_def js_div_def Let_def)

theorem banned_never_valid_witness:
  "evaluateSecurity ((default_options [js ''secret''])\<lparr>co_strict := True\<rparr>) (js ''MySecret123456'') = (False, Fin 0)"
  by (rule banned_never_valid)
    (simp_all add: default_options_def inBanlist_def js_toLowerCase_def lower_unit_def)

end
