(* ===== verification/Sha1.thy ===== *)
theory Sha1
  imports Sha256 Unicode
begin

text \<open>
  \<open>jquery.sha1.js\<close>: the hash from which \<open>jquery.hashmask.js\<close> draws its picture of a password. The text is
  encoded, packed into words, padded and run through four loops of twenty rounds. The second half states
  SHA-1 of FIPS 180-4 on 32-bit words, over the padding that theory Sha256 states, and proves that the
  routine computes it; and where the encoding is UTF-8 and where it is not.
\<close>

unbundle bit_operations_syntax

section \<open>The routine\<close>

definition rotateLeft :: "int \<Rightarrow> nat \<Rightarrow> int" where
  "rotateLeft lValue iShiftBits = i_or (i_shl lValue iShiftBits) (i_ushr lValue (32 - iShiftBits))"

text \<open>\<open>uTF8Encode\<close>: line ends first, then each unit of its own.\<close>

fun crlf_to_lf :: "jsstring \<Rightarrow> jsstring" where
  "crlf_to_lf [] = []"
| "crlf_to_lf [c] = [c]"
| "crlf_to_lf (c # d # s) = (if c = 13 \<and> d = 10 then 10 # crlf_to_lf s else c # crlf_to_lf (d # s))"

definition encode_unit :: "nat \<Rightarrow> jsstring" where
  "encode_unit c =
     (if c < 128 then [c]
      else if c < 2048 then [drop_bit 6 c OR 192, (c AND 63) OR 128]
      else [drop_bit 12 c OR 224, (drop_bit 6 c AND 63) OR 128, (c AND 63) OR 128])"

definition uTF8Encode :: "jsstring \<Rightarrow> jsstring" where
  "uTF8Encode s = concat (map encode_unit (crlf_to_lf s))"

text \<open>Four characters make a word; the switch after the loop adds the byte 128 to the characters that are
  left.\<close>

fun sha1_words :: "jsstring \<Rightarrow> int list" where
  "sha1_words (a # b # c # d # r) =
     i_or (i_or (i_or (i_shl (int a) 24) (i_shl (int b) 16)) (i_shl (int c) 8)) (int d) # sha1_words r"
| "sha1_words [] = [2147483648]"
| "sha1_words [a] = [i_or (i_shl (int a) 24) 8388608]"
| "sha1_words [a, b] = [i_or (i_or (i_shl (int a) 24) (i_shl (int b) 16)) 32768]"
| "sha1_words [a, b, c] = [i_or (i_or (i_or (i_shl (int a) 24) (i_shl (int b) 16)) (i_shl (int c) 8)) 128]"

text \<open>\<open>while((wordArray.length % 16) != 14 ) wordArray.push(0)\<close>.\<close>

function sha1_fill :: "int list \<Rightarrow> int list" where
  "sha1_fill W = (if length W mod 16 \<noteq> 14 then sha1_fill (W @ [0]) else W)"
  by pat_completeness auto
termination
proof (relation "measure (\<lambda>W. if length W mod 16 = 15 then 15 else 14 - length W mod 16)")
  fix W :: "int list" assume "length W mod 16 \<noteq> 14"
  moreover have "length W mod 16 < 16" by simp
  ultimately show "(W @ [0], W) \<in> measure (\<lambda>W. if length W mod 16 = 15 then 15 else 14 - length W mod 16)"
    by (auto simp: mod_Suc)
qed simp

declare sha1_fill.simps [simp del]

definition wordArray :: "jsstring \<Rightarrow> int list" where
  "wordArray s =
     sha1_fill (sha1_words s) @ [i_ushr (int (length s)) 29, i_and (i_shl (int (length s)) 3) 4294967295]"

definition sha1_word :: "nat \<Rightarrow> int list \<Rightarrow> int list" where
  "sha1_word i W =
     W @ [rotateLeft (i_xor (i_xor (i_xor (W ! (i - 3)) (W ! (i - 8))) (W ! (i - 14))) (W ! (i - 16))) 1]"

definition sha1_schedule :: "int list \<Rightarrow> int list" where
  "sha1_schedule block = fold sha1_word [16..<80] (take 16 block)"

type_synonym 'a regs5 = "'a \<times> 'a \<times> 'a \<times> 'a \<times> 'a"

text \<open>The functions and the constants of the four loops.\<close>

definition sha1_f :: "nat \<Rightarrow> int \<Rightarrow> int \<Rightarrow> int \<Rightarrow> int" where
  "sha1_f i B C D =
     (if i < 20 then i_or (i_and B C) (i_and (i_not B) D)
      else if i < 40 then i_xor (i_xor B C) D
      else if i < 60 then i_or (i_or (i_and B C) (i_and B D)) (i_and C D)
      else i_xor (i_xor B C) D)"

definition sha1_k :: "nat \<Rightarrow> int" where
  "sha1_k i = (if i < 20 then 1518500249 else if i < 40 then 1859775393 else if i < 60 then 2400959708 else 3395469782)"

definition sha1_round :: "int list \<Rightarrow> nat \<Rightarrow> int regs5 \<Rightarrow> int regs5" where
  "sha1_round W i r =
     (case r of (A, B, C, D, E) \<Rightarrow>
        let tempValue = i_and (rotateLeft A 5 + sha1_f i B C D + E + W ! i + sha1_k i) 4294967295
        in (tempValue, A, rotateLeft B 30, C, D))"

definition sha1_block :: "int list \<Rightarrow> int regs5 \<Rightarrow> int regs5" where
  "sha1_block block H =
     (case fold (sha1_round (sha1_schedule block)) [0..<80] H of (A, B, C, D, E) \<Rightarrow>
        case H of (H0, H1, H2, H3, H4) \<Rightarrow>
          (i_and (H0 + A) 4294967295, i_and (H1 + B) 4294967295, i_and (H2 + C) 4294967295,
           i_and (H3 + D) 4294967295, i_and (H4 + E) 4294967295))"

function sha1_blocks :: "int list \<Rightarrow> int regs5 \<Rightarrow> int regs5" where
  "sha1_blocks W H = (if W = [] then H else sha1_blocks (drop 16 W) (sha1_block W H))"
  by pat_completeness auto
termination
  by (relation "measure (\<lambda>(W, H). length W)") auto

declare sha1_blocks.simps [simp del]

definition sha1_start :: "int regs5" where
  "sha1_start = (1732584193, 4023233417, 2562383102, 271733878, 3285377520)"

definition lsbHex :: "int \<Rightarrow> jsstring" where
  "lsbHex v =
     concat (map (\<lambda>i. [digit_unit (nat (i_and (i_ushr v (i * 4 + 4)) 15)), digit_unit (nat (i_and (i_ushr v (i * 4)) 15))])
       [0, 2, 4, 6])"

definition cvtHex :: "int \<Rightarrow> jsstring" where
  "cvtHex v = map (\<lambda>i. digit_unit (nat (i_and (i_ushr v (i * 4)) 15))) [7, 6, 5, 4, 3, 2, 1, 0]"

definition sha1 :: "jsstring \<Rightarrow> jsstring" where
  "sha1 string =
     (case sha1_blocks (wordArray (uTF8Encode string)) sha1_start of (H0, H1, H2, H3, H4) \<Rightarrow>
        js_toLowerCase (cvtHex H0 @ cvtHex H1 @ cvtHex H2 @ cvtHex H3 @ cvtHex H4))"

section \<open>The hash of the standard\<close>

definition spec_rotl :: "nat \<Rightarrow> w32 \<Rightarrow> w32" where
  "spec_rotl n x = push_bit n x OR drop_bit (32 - n) x"

fun spec1_W :: "(nat \<Rightarrow> w32) \<Rightarrow> nat \<Rightarrow> w32" where
  "spec1_W M t =
     (if t < 16 then M t
      else spec_rotl 1 (spec1_W M (t - 3) XOR spec1_W M (t - 8) XOR spec1_W M (t - 14) XOR spec1_W M (t - 16)))"

declare spec1_W.simps [simp del]

definition spec1_f :: "nat \<Rightarrow> w32 \<Rightarrow> w32 \<Rightarrow> w32 \<Rightarrow> w32" where
  "spec1_f t x y z =
     (if t < 20 then spec_ch x y z else if 40 \<le> t \<and> t < 60 then spec_maj x y z else x XOR y XOR z)"

definition spec1_K :: "nat \<Rightarrow> w32" where
  "spec1_K t = (if t < 20 then 0x5a827999 else if t < 40 then 0x6ed9eba1 else if t < 60 then 0x8f1bbcdc else 0xca62c1d6)"

definition spec1_round :: "(nat \<Rightarrow> w32) \<Rightarrow> nat \<Rightarrow> w32 regs5 \<Rightarrow> w32 regs5" where
  "spec1_round M t r =
     (case r of (a, b, c, d, e) \<Rightarrow>
        (spec_rotl 5 a + spec1_f t b c d + e + spec1_K t + spec1_W M t, a, spec_rotl 30 b, c, d))"

definition add5 :: "w32 regs5 \<Rightarrow> w32 regs5 \<Rightarrow> w32 regs5" where
  "add5 r s = (case (r, s) of ((a, b, c, d, e), (f, g, h, i, j)) \<Rightarrow> (a + f, b + g, c + h, d + i, e + j))"

definition spec1_compress :: "nat list \<Rightarrow> w32 regs5 \<Rightarrow> w32 regs5" where
  "spec1_compress block H = add5 H (fold (spec1_round (spec_words block)) [0..<80] H)"

definition spec_sha1 :: "nat list \<Rightarrow> w32 list" where
  "spec_sha1 bs =
     (case fold spec1_compress (spec_split (spec_pad bs))
             (0x67452301, 0xefcdab89, 0x98badcfe, 0x10325476, 0xc3d2e1f0) of
        (a, b, c, d, e) \<Rightarrow> [a, b, c, d, e])"

section \<open>Words\<close>

lemma and_all [simp]: "(x :: w32) AND 4294967295 = x"
proof -
  have "(4294967295 :: w32) = -1" by simp
  then show ?thesis by (metis and.right_neutral)
qed

lemma i32_rotateLeft [simp]: "i32 (rotateLeft x n) = spec_rotl n (i32 x)"
  by (simp add: rotateLeft_def spec_rotl_def)

lemma ch_or: "(x AND y) OR (NOT x AND z) = spec_ch x y z"
  unfolding spec_ch_def by (rule bit_eqI) (auto simp: bit_simps)

lemma maj_or: "(x AND y) OR (x AND z) OR (y AND z) = spec_maj x y z"
  unfolding spec_maj_def by (rule bit_eqI) (auto simp: bit_simps)

lemma i32_sha1_f [simp]: "i32 (sha1_f i x y z) = spec1_f i (i32 x) (i32 y) (i32 z)"
  by (auto simp: sha1_f_def spec1_f_def ch_or maj_or xor.assoc or.assoc)

lemma i32_sha1_k [simp]: "i32 (sha1_k i) = spec1_K i"
  by (simp add: sha1_k_def spec1_K_def)

section \<open>Rounds\<close>

definition w5 :: "int regs5 \<Rightarrow> w32 regs5" where
  "w5 r = (case r of (a, b, c, d, e) \<Rightarrow> (i32 a, i32 b, i32 c, i32 d, i32 e))"

lemma schedule_prefix:
  assumes "16 \<le> length block" "\<And>t. t < 16 \<Longrightarrow> i32 (block ! t) = M t" "16 \<le> n"
  shows "length (fold sha1_word [16..<n] (take 16 block)) = n \<and>
    (\<forall>t<n. i32 (fold sha1_word [16..<n] (take 16 block) ! t) = spec1_W M t)"
  using assms(3)
proof (induction n rule: dec_induct)
  case base
  have "spec1_W M t = M t" if "t < 16" for t using that by (subst spec1_W.simps) simp
  then show ?case using assms(1,2) by simp
next
  case (step n)
  define W where "W = fold sha1_word [16..<n] (take 16 block)"
  have W: "length W = n" "\<And>t. t < n \<Longrightarrow> i32 (W ! t) = spec1_W M t" using step by (simp_all add: W_def)
  have v: "spec1_W M n = spec_rotl 1 (spec1_W M (n - 3) XOR spec1_W M (n - 8) XOR spec1_W M (n - 14) XOR spec1_W M (n - 16))"
    using step(1) by (subst spec1_W.simps) simp
  have f: "fold sha1_word [16..<Suc n] (take 16 block) = sha1_word n W" using step(1) by (simp add: W_def)
  have "i32 (sha1_word n W ! t) = spec1_W M t" if "t < Suc n" for t
  proof (cases "t = n")
    case True
    show ?thesis unfolding True v using W step(1) by (simp add: sha1_word_def nth_append xor.assoc)
  next
    case False
    then show ?thesis using W that by (simp add: sha1_word_def nth_append)
  qed
  then show ?case unfolding f using W(1) by (simp add: sha1_word_def)
qed

lemma schedule_words:
  assumes "16 \<le> length block" "\<And>t. t < 16 \<Longrightarrow> i32 (block ! t) = M t" "t < 80"
  shows "i32 (sha1_schedule block ! t) = spec1_W M t"
proof -
  have "\<forall>t<80. i32 (fold sha1_word [16..<80] (take 16 block) ! t) = spec1_W M t"
    by (rule schedule_prefix [THEN conjunct2]) (use assms in auto)
  then show ?thesis using assms(3) unfolding sha1_schedule_def by blast
qed

lemma round_words:
  "i32 (W ! i) = spec1_W M i \<Longrightarrow> w5 (sha1_round W i r) = spec1_round M i (w5 r)"
  by (cases r) (simp add: sha1_round_def spec1_round_def w5_def Let_def add_ac)

lemma rounds_words:
  assumes "\<And>t. t < 80 \<Longrightarrow> i32 (W ! t) = spec1_W M t"
  shows "n \<le> 80 \<Longrightarrow> w5 (fold (sha1_round W) [0..<n] r) = fold (spec1_round M) [0..<n] (w5 r)"
  by (induction n) (simp_all add: round_words assms)

lemma block_words:
  assumes "16 \<le> length ws" "\<And>t. t < 16 \<Longrightarrow> i32 (ws ! t) = spec_words b t"
  shows "w5 (sha1_block ws H) = spec1_compress b (w5 H)"
proof -
  obtain A B C D E where r: "fold (sha1_round (sha1_schedule ws)) [0..<80] H = (A, B, C, D, E)" by (metis prod.exhaust)
  have s: "\<And>t. t < 80 \<Longrightarrow> i32 (sha1_schedule ws ! t) = spec1_W (spec_words b) t"
    by (rule schedule_words [OF assms])
  have "fold (spec1_round (spec_words b)) [0..<80] (w5 H) = w5 (A, B, C, D, E)"
    using rounds_words [of "sha1_schedule ws" "spec_words b" 80 H] s r by simp
  then show ?thesis using r
    by (cases H) (simp add: sha1_block_def spec1_compress_def w5_def add5_def del: upt_conv_Cons)
qed

section \<open>Words of bytes\<close>

fun quads :: "nat list \<Rightarrow> w32 list" where
  "quads (a # b # c # d # r) = of_nat (a * 16777216 + b * 65536 + c * 256 + d) # quads r"
| "quads _ = []"

lemma four_more: "take (4 + n) (a # b # c # d # r) = a # b # c # d # take n r"
  "drop (4 + n) (a # b # c # d # r) = drop n r" "replicate (4 + n) x = x # x # x # x # replicate n x"
  "replicate 2 x = [x, x]" "replicate 3 x = [x, x, x]"
  by (simp_all add: numeral_eq_Suc)

lemma quads_append: "length x mod 4 = 0 \<Longrightarrow> quads (x @ y) = quads x @ quads y"
proof (induction x rule: quads.induct)
  case (1 a b c d r)
  then show ?case by (simp add: mod_Suc split: if_splits)
qed simp_all

lemma quads_nth: "t < length bs div 4 \<Longrightarrow> quads bs ! t = spec_words bs t"
proof (induction bs arbitrary: t rule: quads.induct)
  case (1 a b c d r)
  show ?case
  proof (cases t)
    case 0
    then show ?thesis by (simp add: spec_words_def)
  next
    case (Suc u)
    then have "quads r ! u = spec_words r u" using 1 by simp
    then show ?thesis by (simp add: Suc spec_words_def add.commute [of "4 * u"])
  qed
qed simp_all

lemma quads_length: "length (quads bs) = length bs div 4"
  by (induction bs rule: quads.induct) simp_all

lemma quads_zeros: "quads (replicate (4 * k) 0) = replicate k 0"
  by (induction k) (simp_all add: four_more)

lemma quads_take_drop: "quads (take (4 * k) bs) = take k (quads bs)" "quads (drop (4 * k) bs) = drop k (quads bs)"
proof -
  have "quads (take (4 * k) bs) = take k (quads bs) \<and> quads (drop (4 * k) bs) = drop k (quads bs)"
  proof (induction k arbitrary: bs)
    case (Suc k)
    show ?case using Suc by (cases bs rule: quads.cases) (simp_all add: four_more)
  qed simp
  then show "quads (take (4 * k) bs) = take k (quads bs)" "quads (drop (4 * k) bs) = drop k (quads bs)" by simp_all
qed

lemma or_word:
  assumes "b < 256" "c < 256" "d < 256"
  shows "push_bit 24 (of_nat a) OR push_bit 16 (of_nat b) OR push_bit 8 (of_nat c) OR of_nat d
    = (of_nat (a * 16777216 + b * 65536 + c * 256 + d) :: w32)"
  using assms or_bytes [of d 8 c] or_bytes [of "c * 2 ^ 8 + d" 16 b]
    or_bytes [of "b * 2 ^ 16 + (c * 2 ^ 8 + d)" 24 a]
  by (simp add: or.commute or.left_commute algebra_simps)

definition pad4 :: "nat list \<Rightarrow> nat list" where
  "pad4 s = s @ 128 # replicate (3 - length s mod 4) 0"

lemma pad4_length: "length (pad4 s) = 4 * (length s div 4 + 1)"
proof -
  define q m where "q = length s div 4" and "m = length s mod 4"
  have "length s = 4 * q + m" "m < 4" by (simp_all add: q_def m_def)
  then show ?thesis by (simp add: pad4_def flip: q_def m_def)
qed

lemma sha1_words_quads: "\<forall>b\<in>set s. b < 256 \<Longrightarrow> map i32 (sha1_words s) = quads (pad4 s)"
proof (induction s rule: sha1_words.induct)
  case (1 a b c d r)
  then show ?case using or_word [of b c d a] by (simp add: pad4_def or.assoc)
next
  case (3 a)
  then show ?case using or_word [of 128 0 0 a] by (simp add: pad4_def four_more)
next
  case (4 a b)
  then show ?case using or_word [of b 128 0 a] by (simp add: pad4_def or.assoc)
next
  case (5 a b c)
  then show ?case using or_word [of b c 128 a] by (simp add: pad4_def or.assoc)
qed (simp add: pad4_def four_more)

lemma sha1_fill_eq: "sha1_fill W = W @ replicate (nat ((14 - int (length W)) mod 16)) 0"
proof (induction W rule: sha1_fill.induct)
  case (1 W)
  define n where "n = int (length W)"
  have m: "n mod 16 = int (length W mod 16)" by (simp add: n_def zmod_int)
  show ?case
  proof (cases "length W mod 16 = 14")
    case True
    then have "n mod 16 = 14" using m by simp
    then have "(14 - n) mod 16 = 0" by presburger
    then show ?thesis using True by (subst sha1_fill.simps) (simp add: n_def)
  next
    case False
    then have "n mod 16 \<noteq> 14" using m by simp
    then have "(13 - n) mod 16 \<noteq> 15" using mod_diff_right_eq [of 13 "13 - n" 16] by auto
    then have "(14 - n) mod 16 = (13 - n) mod 16 + 1"
      using mod_add_left_eq [of "13 - n" 16 1] pos_mod_bound [of 16 "13 - n"] pos_mod_sign [of 16 "13 - n"] by simp
    moreover have "0 \<le> (13 - n) mod 16" by simp
    ultimately have "nat ((14 - n) mod 16) = Suc (nat ((13 - n) mod 16))" by simp
    then show ?thesis using 1 False by (subst sha1_fill.simps) (simp add: n_def)
  qed
qed

lemma spec_pad_quads:
  fixes s
  defines "k \<equiv> nat ((14 - int (length s div 4 + 1)) mod 16)"
  shows "spec_pad s = pad4 s @ replicate (4 * k) 0 @ spec_length (length s)"
proof -
  define q m where "q = length s div 4" and "m = length s mod 4"
  have l: "int (length s) = 4 * int q + int m" "m < 4"
    using div_mult_mod_eq [of "int (length s)" 4] by (simp_all add: q_def m_def zdiv_int zmod_int)
  define d r where "d = (13 - int q) div 16" and "r = (13 - int q) mod 16"
  have r: "13 - int q = 16 * d + r" "0 \<le> r" "r < 16" by (simp_all add: d_def r_def)
  have "55 - (4 * int q + int m) = ((3 - int m) + 4 * r) + 64 * d" using r(1) by linarith
  then have "(55 - (4 * int q + int m)) mod 64 = ((3 - int m) + 4 * r) mod 64"
    by (simp only: mod_mult_self2)
  also have "\<dots> = (3 - int m) + 4 * r" using r l(2) by (intro mod_pos_pos_trivial) simp_all
  finally have "(55 - (4 * int q + int m)) mod 64 = (3 - int m) + 4 * ((13 - int q) mod 16)"
    by (simp add: r_def)
  then have "spec_zeros (length s) = nat ((3 - int m) + 4 * ((13 - int q) mod 16))"
    by (simp add: spec_zeros_def l(1))
  also have "\<dots> = (3 - m) + 4 * k"
    using l(2) by (simp add: k_def q_def nat_add_distrib nat_mult_distrib flip: q_def)
  finally show ?thesis by (simp add: spec_pad_def pad4_def replicate_add flip: m_def)
qed

lemma cvtHex_spec: "cvtHex v = spec_hex (i32 v)"
  by (simp add: cvtHex_def spec_hex_def hex_place)

section \<open>The hash\<close>

lemma four_bytes:
  "of_nat (x div 16777216 mod 256 * 16777216 + x div 65536 mod 256 * 65536 + x div 256 mod 256 * 256 + x mod 256)
    = (of_nat x :: w32)"
proof -
  have "x div 16777216 mod 256 * 16777216 + x div 65536 mod 256 * 65536 + x div 256 mod 256 * 256 + x mod 256
      = x mod 4294967296"
    using mod_mult2_eq [of x 256 256] mod_mult2_eq [of x 65536 256] mod_mult2_eq [of x 16777216 256] by simp
  then show ?thesis by (simp only:) (simp add: word_of_nat_eq_iff take_bit_eq_mod)
qed

lemma quads_length_bytes:
  assumes "n < 2 ^ 32"
  shows "quads (spec_length n) = map i32 [i_ushr (int n) 29, i_and (i_shl (int n) 3) 4294967295]"
proof -
  define x where "x = 8 * n"
  have "x div 256 ^ 7 = 0" "x div 256 ^ 6 = 0" "x div 256 ^ 5 = 0" "x div 256 ^ 4 mod 256 = n div 536870912"
    using assms by (simp_all add: x_def)
  then have s: "spec_length n = [0, 0, 0, n div 536870912, x div 16777216 mod 256, x div 65536 mod 256,
      x div 256 mod 256, x mod 256]"
    by (simp add: spec_length_def flip: x_def)
  have "quads (spec_length n) = [of_nat (n div 536870912), of_nat x]"
    using four_bytes [of x] by (simp add: s)
  moreover have "i_ushr (int n) 29 = int (n div 536870912)"
  proof -
    have "i_ushr (int n) 29 = uint (i32 (i_ushr (int n) 29))" by (simp add: i_ushr_def)
    also have "\<dots> = int n div 2 ^ 29" unfolding uint_i_ushr using assms by (simp add: uint_small del: of_int_of_nat_eq)
    finally show ?thesis by (simp add: zdiv_int)
  qed
  moreover have "push_bit 3 (i32 (int n)) = of_nat x" by (simp add: x_def push_bit_eq_mult)
  moreover have "(of_nat (n div 536870912) :: w32) = i32 (int (n div 536870912))" by (rule of_int_of_nat_eq [symmetric])
  ultimately show ?thesis by (simp del: of_int_of_nat_eq)
qed

lemma wordArray_quads:
  assumes "\<forall>b\<in>set s. b < 256" "length s < 2 ^ 32"
  shows "map i32 (wordArray s) = quads (spec_pad s)"
proof -
  have l: "length (sha1_words s) = length s div 4 + 1"
    using arg_cong [OF sha1_words_quads [OF assms(1)], of length] by (simp add: quads_length pad4_length)
  show ?thesis
    using assms sha1_words_quads [OF assms(1)]
    by (simp add: wordArray_def sha1_fill_eq l spec_pad_quads quads_append pad4_length quads_zeros
        quads_length_bytes)
qed

lemma blocks_words:
  "map i32 W = quads bs \<Longrightarrow> length bs mod 64 = 0 \<Longrightarrow>
    w5 (sha1_blocks W H) = fold spec1_compress (spec_split bs) (w5 H)"
proof (induction W H arbitrary: bs rule: sha1_blocks.induct)
  case (1 W H)
  have lw: "length W = length bs div 4" using arg_cong [OF "1.prems"(1), of length] by (simp add: quads_length)
  show ?case
  proof (cases "length bs < 64")
    case True
    then have "bs = []" using "1.prems"(2) by simp
    then show ?thesis using "1.prems"(1) by (subst sha1_blocks.simps) (simp add: spec_split_short)
  next
    case False
    define b where "b = take 64 bs"
    define r where "r = drop 64 bs"
    have bs: "bs = b @ r" "length b = 64" using False by (simp_all add: b_def r_def)
    have W: "W \<noteq> []" "16 \<le> length W" using lw False by auto
    have "i32 (W ! t) = spec_words b t" if "t < 16" for t
    proof -
      have "i32 (W ! t) = quads bs ! t" using W(2) that "1.prems"(1) by (metis nth_map less_le_trans)
      also have "\<dots> = spec_words bs t" using that False by (intro quads_nth) simp
      also have "\<dots> = spec_words b t" using that by (simp add: spec_words_def b_def)
      finally show ?thesis .
    qed
    then have b: "w5 (sha1_block W H) = spec1_compress b (w5 H)" by (rule block_words [OF W(2)])
    have "map i32 (drop 16 W) = quads r"
      using "1.prems"(1) quads_take_drop(2) [of 16 bs] by (simp add: r_def flip: drop_map)
    moreover have "length r mod 64 = 0" using "1.prems"(2) False by (simp add: r_def le_mod_geq)
    ultimately show ?thesis using "1.IH" [OF W(1), of r] W(1) b
      by (subst sha1_blocks.simps) (simp add: bs(1) spec_split_cons [OF bs(2)])
  qed
qed

lemma spec_pad_length: "length (spec_pad s) mod 64 = 0"
proof -
  define n where "n = int (length s)"
  have "int (length (spec_pad s)) = (n + 9) + (55 - n) mod 64"
    by (simp add: spec_pad_def spec_zeros_def spec_length_def n_def)
  also have "\<dots> mod 64 = ((n + 9) + (55 - n)) mod 64" by (rule mod_add_right_eq)
  finally have "int (length (spec_pad s)) mod 64 = 0" by simp
  then show ?thesis by presburger
qed

lemma spec_hex_lower: "js_toLowerCase (spec_hex x) = spec_hex x"
proof -
  have "lower_unit (digit_unit d) = digit_unit d" if "d < 16" for d
    using that by (simp add: lower_unit_def digit_unit_def)
  then show ?thesis by (simp add: js_toLowerCase_def spec_hex_def)
qed

text \<open>\<open>lsbHex\<close>, which nothing calls, gives the bytes of the word in the opposite order.\<close>

lemma lsbHex_spec: "lsbHex v = (case spec_hex (i32 v) of [a, b, c, d, e, f, g, h] \<Rightarrow> [g, h, e, f, c, d, a, b])"
  by (simp add: lsbHex_def spec_hex_def hex_place)

lemma sha1_bytes:
  assumes "\<forall>b\<in>set s. b < 256" "length s < 2 ^ 32"
  shows "(case sha1_blocks (wordArray s) sha1_start of (H0, H1, H2, H3, H4) \<Rightarrow>
      js_toLowerCase (cvtHex H0 @ cvtHex H1 @ cvtHex H2 @ cvtHex H3 @ cvtHex H4)) = concat (map spec_hex (spec_sha1 s))"
proof -
  obtain H0 H1 H2 H3 H4 where h: "sha1_blocks (wordArray s) sha1_start = (H0, H1, H2, H3, H4)" by (metis prod.exhaust)
  have "w5 (H0, H1, H2, H3, H4) = fold spec1_compress (spec_split (spec_pad s)) (w5 sha1_start)"
    using blocks_words [OF wordArray_quads [OF assms] spec_pad_length, of sha1_start] h by simp
  moreover have "w5 sha1_start = (0x67452301, 0xefcdab89, 0x98badcfe, 0x10325476, 0xc3d2e1f0)"
    by (simp add: sha1_start_def w5_def)
  ultimately have "fold spec1_compress (spec_split (spec_pad s))
      (0x67452301, 0xefcdab89, 0x98badcfe, 0x10325476, 0xc3d2e1f0) = (i32 H0, i32 H1, i32 H2, i32 H3, i32 H4)"
    by (simp add: w5_def)
  then have "spec_sha1 s = map i32 [H0, H1, H2, H3, H4]" by (simp add: spec_sha1_def)
  moreover have "js_toLowerCase (x @ y) = js_toLowerCase x @ js_toLowerCase y" for x y
    by (simp add: js_toLowerCase_def)
  ultimately show ?thesis by (simp add: h cvtHex_spec spec_hex_lower)
qed

section \<open>The encoding\<close>

lemma or_shifted_nat: "x < 2 ^ n \<Longrightarrow> x OR y * 2 ^ n = y * 2 ^ n + (x :: nat)"
proof -
  assume "x < 2 ^ n"
  then have x: "take_bit n x = x" by (simp add: take_bit_nat_eq_self)
  have "push_bit n y AND x = 0"
    by (subst x [symmetric], rule bit_eqI) (auto simp: bit_simps)
  then have "push_bit n y + x = push_bit n y OR x" by (rule disjunctive_add_eq_or)
  then show ?thesis by (simp add: push_bit_eq_mult or.commute)
qed

lemma encode_unit_utf8: "c < 65536 \<Longrightarrow> encode_unit c = utf8 c"
proof -
  assume c: "c < 65536"
  have m: "x AND 63 = x mod 64" for x :: nat
    using take_bit_eq_mask [of 6 x] by (simp add: take_bit_eq_mod mask_eq_exp_minus_1)
  have "x < 64 \<Longrightarrow> x OR 192 = 192 + x" "x < 64 \<Longrightarrow> x OR 128 = 128 + x" "x < 32 \<Longrightarrow> x OR 224 = 224 + x" for x :: nat
    using or_shifted_nat [of x 6 3] or_shifted_nat [of x 6 2] or_shifted_nat [of x 5 7] by simp_all
  moreover have "c < 2048 \<Longrightarrow> c div 64 < 64" "c div 4096 < 32" using c by (simp_all add: less_mult_imp_div_less)
  ultimately show ?thesis using c by (simp add: encode_unit_def utf8_def m drop_bit_eq_div)
qed

lemma uTF8Encode_utf8:
  assumes "\<forall>c\<in>set s. c < 65536"
  shows "uTF8Encode s = concat (map utf8 (crlf_to_lf s))" "\<forall>b\<in>set (uTF8Encode s). b < 256"
proof -
  have s: "\<forall>c\<in>set (crlf_to_lf s). c < 65536" using assms by (induction s rule: crlf_to_lf.induct) auto
  then have m: "map encode_unit (crlf_to_lf s) = map utf8 (crlf_to_lf s)" by (simp add: encode_unit_utf8)
  then show "uTF8Encode s = concat (map utf8 (crlf_to_lf s))" unfolding uTF8Encode_def by (simp only:)
  have "b < 256" if "c < 65536" "b \<in> set (utf8 c)" for b c
    using that less_mult_imp_div_less [of c 16 4096] by (auto simp: utf8_def split: if_splits)
  then show "\<forall>b\<in>set (uTF8Encode s). b < 256" using s by (auto simp: uTF8Encode_def encode_unit_utf8)
qed

lemma no_crlf: "13 \<notin> set s \<Longrightarrow> crlf_to_lf s = s"
  by (induction s rule: crlf_to_lf.induct) auto

lemma sha1_text:
  assumes "\<forall>c\<in>set s. c < 65536" "length (uTF8Encode s) < 2 ^ 32"
  shows "sha1 s = concat (map spec_hex (spec_sha1 (concat (map utf8 (crlf_to_lf s)))))"
  using sha1_bytes [OF uTF8Encode_utf8(2) [OF assms(1)] assms(2)] uTF8Encode_utf8(1) [OF assms(1)]
  by (simp add: sha1_def)

text \<open>C7: the hash of a text is SHA-1 of the standard, in hexadecimal, of the octets that each of its units has
  in UTF-8, with every CR LF taken for LF.\<close>

theorem sha1_standard:
  assumes "\<forall>c\<in>set s. c < 65536" "length (uTF8Encode s) < 2 ^ 32"
  shows "sha1 s = concat (map spec_hex (spec_sha1 (concat (map utf8 (crlf_to_lf s)))))"
  by (rule sha1_text [OF assms])

theorem sha1_standard_witness:
  "sha1 [228, 13, 10, 8364] = concat (map spec_hex (spec_sha1 (concat (map utf8 [228, 10, 8364]))))"
  using sha1_standard [of "[228, 13, 10, 8364]"] by (simp add: uTF8Encode_def encode_unit_def)

text \<open>Without CR and surrogates that is the hash of the text in UTF-8.\<close>

theorem sha1_of_utf8:
  assumes "\<forall>c\<in>set s. c < 65536 \<and> \<not> is_high c \<and> \<not> is_low c" "13 \<notin> set s" "length (uTF8Encode s) < 2 ^ 32"
  shows "encode_utf8 s = Some (uTF8Encode s)" "sha1 s = concat (map spec_hex (spec_sha1 (uTF8Encode s)))"
proof -
  have s: "\<forall>c\<in>set s. c < 65536" using assms(1) by blast
  have "code_points s = Some s" using assms(1) by (induction s) simp_all
  from utf8_roundtrip [OF s this] show "encode_utf8 s = Some (uTF8Encode s)"
    using uTF8Encode_utf8(1) [OF s] by (simp add: no_crlf [OF assms(2)])
  show "sha1 s = concat (map spec_hex (spec_sha1 (uTF8Encode s)))"
    using sha1_text [OF s assms(3)] uTF8Encode_utf8(1) [OF s] by simp
qed

text \<open>Where it is not: the two units of a code point beyond 16 bits get six octets, which are not UTF-8, and
  texts that differ in their line ends have the same hash.\<close>

theorem sha1_surrogates:
  assumes "65536 \<le> c" "c < 1114112"
  shows "encode_utf8 (utf16 c) = Some (utf8 c)" "length (uTF8Encode (utf16 c)) = 6" "length (utf8 c) = 4"
proof -
  have r: "(c - 65536) div 1024 < 1024" using assms by (simp add: less_mult_imp_div_less)
  have "code_points (utf16 c) = Some [c]" "\<forall>d\<in>set (utf16 c). d < 65536"
    using assms r by (simp_all add: utf16_def is_high_def is_low_def)
  from utf8_roundtrip [OF this(2,1)] show "encode_utf8 (utf16 c) = Some (utf8 c)" by simp
  show "length (uTF8Encode (utf16 c)) = 6" "length (utf8 c) = 4"
    using assms by (simp_all add: utf16_def uTF8Encode_def encode_unit_def utf8_def)
qed

theorem sha1_line_ends: "sha1 (13 # 10 # s) = sha1 (10 # s)"
proof -
  have "crlf_to_lf (10 # s) = 10 # crlf_to_lf s" by (cases s) simp_all
  then show ?thesis by (simp add: sha1_def uTF8Encode_def)
qed

end
