(* ===== verification/HashMask.thy ===== *)
theory HashMask
  imports Sha1
begin

text \<open>
  \<open>jquery.hashmask.js\<close>: a sparkline over a password input, drawn from the first twenty digits of the hash of
  what is typed, half a second after the last key. The options of the sparkline are one object, which the
  plugin changes at every drawing and which all inputs share.
\<close>

section \<open>Options, inputs and sparklines\<close>

text \<open>\<open>None\<close> as the height is \<open>'auto'\<close>; the colour of the fill is missing at first, and the colours of
  spots may be \<open>false\<close>.\<close>

record sparkline_options =
  so_width :: jsstring
  so_height :: "int option"
  so_lineColor :: jsstring
  so_fillColor :: "jsstring option"
  so_spotColor :: "jsstring option"
  so_minSpotColor :: "jsstring option"
  so_maxSpotColor :: "jsstring option"

record hashmask_settings =
  hs_hashFunction :: "jsstring \<Rightarrow> jsstring"
  hs_useColorAsHint :: bool
  hs_sparklineOptions :: sparkline_options

definition hashmask_defaults :: hashmask_settings where
  "hashmask_defaults =
     \<lparr>hs_hashFunction = sha1, hs_useColorAsHint = True,
      hs_sparklineOptions = \<lparr>so_width = js ''100px'', so_height = None, so_lineColor = js ''#69C'',
        so_fillColor = None, so_spotColor = None, so_minSpotColor = None, so_maxSpotColor = None\<rparr>\<rparr>"

text \<open>An element of the page, with its place and the widths of its borders in pixels.\<close>

record mask_input =
  mi_id :: jsstring
  mi_password :: bool
  mi_top :: int
  mi_left :: int
  mi_outerWidth :: int
  mi_outerHeight :: int
  mi_borderTop :: int
  mi_borderRight :: int
  mi_borderBottom :: int
  mi_val :: jsstring

text \<open>What a call of \<open>sparkline\<close> draws: the numbers and the options at that time.\<close>

type_synonym picture = "int option list \<times> sparkline_options"

text \<open>An input that the plugin has seen, with its own timer (\<open>sparkTimeout\<close>) and sparkline. The closure
  of the timer holds the numbers and the colour.\<close>

record masked =
  mk_input :: mask_input
  mk_timer :: "(int option list \<times> jsstring option) option"
  mk_id :: jsstring
  mk_top :: int
  mk_left :: "int option"
  mk_width :: jsstring
  mk_height :: int
  mk_html :: "picture option"

record hashmask =
  hm_settings :: hashmask_settings
  hm_inputs :: "masked list"

section \<open>The plugin\<close>

definition mask_sparkline :: "hashmask_settings \<Rightarrow> mask_input \<Rightarrow> masked" where
  "mask_sparkline s i =
     \<lparr>mk_input = i, mk_timer = None, mk_id = mi_id i @ js ''-jquery-hashmask-sparkline'',
      mk_top = mi_top i + mi_borderTop i,
      mk_left = map_option (\<lambda>w. mi_left i + mi_outerWidth i - mi_borderRight i - w)
        (parseInt (so_width (hs_sparklineOptions s)) (Some 10)),
      mk_width = so_width (hs_sparklineOptions s), mk_height = mi_outerHeight i, mk_html = None\<rparr>"

text \<open>\<open>this.each\<close>: the first input of another type throws, and the inputs before it are masked. The left
  side is what is masked by then.\<close>

fun mask_each :: "hashmask_settings \<Rightarrow> mask_input list \<Rightarrow> masked list + masked list" where
  "mask_each s [] = Inr []"
| "mask_each s (i # is) =
     (if \<not> mi_password i then Inl []
      else case mask_each s is of
             Inl ms \<Rightarrow> Inl (mask_sparkline s i # ms)
           | Inr ms \<Rightarrow> Inr (mask_sparkline s i # ms))"

definition inputDecArr :: "jsstring \<Rightarrow> int option list" where
  "inputDecArr inputHash = map (\<lambda>c. parseInt [c] (Some 16)) inputHash"

text \<open>The handler of \<open>keyup\<close>; the key has changed the value.\<close>

definition mask_keyup :: "hashmask_settings \<Rightarrow> jsstring \<Rightarrow> masked \<Rightarrow> masked" where
  "mask_keyup s v m =
     (let m1 = m\<lparr>mk_input := (mk_input m)\<lparr>mi_val := v\<rparr>, mk_timer := None\<rparr>
      in if v = [] then m1\<lparr>mk_html := None\<rparr>
         else let inputHash = take 20 (hs_hashFunction s v);
                  fillColor = (if hs_useColorAsHint s then Some (35 # take 6 inputHash)
                               else so_fillColor (hs_sparklineOptions s))
              in m1\<lparr>mk_timer := Some (inputDecArr inputHash, fillColor)\<rparr>)"

text \<open>\<open>$.extend(settings.sparklineOptions, ...)\<close> changes the options themselves.\<close>

definition drawn_options :: "sparkline_options \<Rightarrow> mask_input \<Rightarrow> jsstring option \<Rightarrow> sparkline_options" where
  "drawn_options so i fillColor =
     so\<lparr>so_height := Some (case so_height so of None \<Rightarrow> mi_outerHeight i - mi_borderBottom i - mi_borderTop i
                                             | Some h \<Rightarrow> h),
        so_fillColor := (case fillColor of None \<Rightarrow> so_fillColor so | Some c \<Rightarrow> Some c)\<rparr>"

text \<open>A key in the k-th input, and the end of the interval of its timer. The timers of several inputs end in
  any order.\<close>

datatype mask_event = MaskKey nat jsstring | MaskTimer nat

fun mask_happens :: "mask_event \<Rightarrow> hashmask \<Rightarrow> hashmask" where
  "mask_happens (MaskKey k v) h =
     h\<lparr>hm_inputs := (hm_inputs h)[k := mask_keyup (hm_settings h) v (hm_inputs h ! k)]\<rparr>"
| "mask_happens (MaskTimer k) h =
     (case mk_timer (hm_inputs h ! k) of
        None \<Rightarrow> h
      | Some (vs, fillColor) \<Rightarrow>
          let so = drawn_options (hs_sparklineOptions (hm_settings h)) (mk_input (hm_inputs h ! k)) fillColor
          in h\<lparr>hm_settings := (hm_settings h)\<lparr>hs_sparklineOptions := so\<rparr>,
               hm_inputs := (hm_inputs h)[k := (hm_inputs h ! k)\<lparr>mk_timer := None, mk_html := Some (vs, so)\<rparr>]\<rparr>)"

fun mask_event_in :: "nat \<Rightarrow> mask_event \<Rightarrow> bool" where
  "mask_event_in n (MaskKey k v) \<longleftrightarrow> k < n"
| "mask_event_in n (MaskTimer k) \<longleftrightarrow> k < n"

section \<open>What is shown\<close>

definition shown_values :: "(jsstring \<Rightarrow> jsstring) \<Rightarrow> jsstring \<Rightarrow> int option list" where
  "shown_values hash v = inputDecArr (take 20 (hash v))"

text \<open>What every input satisfies: nothing is shown and nothing will be when it is empty, otherwise the values
  of its text wait for the timer or are shown.\<close>

definition masked_ok :: "(jsstring \<Rightarrow> jsstring) \<Rightarrow> masked \<Rightarrow> bool" where
  "masked_ok hash m \<longleftrightarrow>
     (if mi_val (mk_input m) = [] then mk_timer m = None \<and> mk_html m = None
      else case mk_timer m of
             Some (vs, _) \<Rightarrow> vs = shown_values hash (mi_val (mk_input m))
           | None \<Rightarrow> (\<exists>so. mk_html m = Some (shown_values hash (mi_val (mk_input m)), so)))"

lemma masked_ok_key: "masked_ok (hs_hashFunction s) (mask_keyup s v m)"
  by (simp add: masked_ok_def mask_keyup_def Let_def shown_values_def)

lemma masked_ok_drawn:
  "masked_ok hash m \<Longrightarrow> mk_timer m = Some (vs, c) \<Longrightarrow> masked_ok hash (m\<lparr>mk_timer := None, mk_html := Some (vs, so)\<rparr>)"
  by (auto simp: masked_ok_def split: if_splits)

definition hashmask_ok :: "hashmask \<Rightarrow> bool" where
  "hashmask_ok h \<longleftrightarrow> list_all (masked_ok (hs_hashFunction (hm_settings h))) (hm_inputs h)"

lemma list_all_update: "list_all P xs \<Longrightarrow> P x \<Longrightarrow> list_all P (xs[k := x])"
  by (auto simp: list_all_iff dest: set_update_subset_insert [THEN subsetD])

lemma mask_event_settings: "hs_hashFunction (hm_settings (mask_happens e h)) = hs_hashFunction (hm_settings h)"
  by (cases e) (auto simp: Let_def split: option.splits)

lemma mask_event_ok:
  assumes "hashmask_ok h" "mask_event_in (length (hm_inputs h)) e"
  shows "hashmask_ok (mask_happens e h) \<and> length (hm_inputs (mask_happens e h)) = length (hm_inputs h)"
proof (cases e)
  case (MaskKey k v)
  then show ?thesis using assms by (simp add: hashmask_ok_def list_all_update masked_ok_key)
next
  case (MaskTimer k)
  then have "masked_ok (hs_hashFunction (hm_settings h)) (hm_inputs h ! k)"
    using assms by (simp add: hashmask_ok_def list_all_length)
  then show ?thesis using assms MaskTimer
    by (auto simp: hashmask_ok_def Let_def intro: list_all_update masked_ok_drawn split: option.splits)
qed

lemma mask_events_ok:
  "hashmask_ok h \<Longrightarrow> list_all (mask_event_in (length (hm_inputs h))) es \<Longrightarrow>
    hashmask_ok (fold mask_happens es h) \<and> length (hm_inputs (fold mask_happens es h)) = length (hm_inputs h)
    \<and> hs_hashFunction (hm_settings (fold mask_happens es h)) = hs_hashFunction (hm_settings h)"
  by (induction es arbitrary: h) (use mask_event_ok mask_event_settings in auto)

lemma masked_at_start:
  "mask_each s is = Inr ms \<Longrightarrow> list_all (\<lambda>i. mi_val i = []) is \<Longrightarrow>
    list_all (masked_ok (hs_hashFunction s)) ms \<and> map mk_input ms = is"
  by (induction s "is" arbitrary: ms rule: mask_each.induct)
    (auto simp: masked_ok_def mask_sparkline_def split: if_splits sum.splits)

lemma hex_digit_values:
  "d < 16 \<Longrightarrow> parseInt [digit_unit d] (Some 16) = Some (int d)"
  by (auto simp: parseInt_def digit_unit_def is_space_def is_digit_of_def digit_value_def num_of_digits_def Let_def)

text \<open>C29: over any keys and ends of timers in any inputs, once the timer of an input has ended it shows
  nothing when it is empty, and otherwise the numbers of the first twenty digits of the hash of its text as it
  is then.\<close>

theorem mask_shows_value:
  assumes "mask_each s is = Inr ms" "list_all (\<lambda>i. mi_val i = []) is" "list_all (mask_event_in (length is)) es"
    and "k < length is"
  defines "m \<equiv> hm_inputs (fold mask_happens es \<lparr>hm_settings = s, hm_inputs = ms\<rparr>) ! k"
  assumes "mk_timer m = None"
  shows "map_option fst (mk_html m) =
    (if mi_val (mk_input m) = [] then None else Some (shown_values (hs_hashFunction s) (mi_val (mk_input m))))"
proof -
  let ?h = "\<lparr>hm_settings = s, hm_inputs = ms\<rparr>"
  have ms: "list_all (masked_ok (hs_hashFunction s)) ms" "length ms = length is"
    using masked_at_start [OF assms(1,2)] by (auto dest: arg_cong [of _ _ length])
  then have "hashmask_ok ?h" by (simp add: hashmask_ok_def)
  then have K: "hashmask_ok (fold mask_happens es ?h) \<and> length (hm_inputs (fold mask_happens es ?h)) = length is
      \<and> hs_hashFunction (hm_settings (fold mask_happens es ?h)) = hs_hashFunction s"
    using mask_events_ok [of ?h es] assms(3) ms(2) by simp
  then have "list_all (masked_ok (hs_hashFunction s)) (hm_inputs (fold mask_happens es ?h))"
    unfolding hashmask_ok_def by metis
  then have "masked_ok (hs_hashFunction s) m" using K assms(4) by (simp add: list_all_length m_def)
  then show ?thesis using assms(6) by (auto simp: masked_ok_def split: if_splits)
qed

definition sample_input :: mask_input where
  "sample_input = \<lparr>mi_id = js ''password'', mi_password = True, mi_top = 100, mi_left = 40, mi_outerWidth = 300,
    mi_outerHeight = 24, mi_borderTop = 2, mi_borderRight = 2, mi_borderBottom = 2, mi_val = []\<rparr>"

theorem mask_shows_value_witness:
  "map_option fst (mk_html (hm_inputs (fold mask_happens [MaskKey 0 (js ''x''), MaskKey 0 (js ''xy''), MaskTimer 0]
      \<lparr>hm_settings = hashmask_defaults, hm_inputs = [mask_sparkline hashmask_defaults sample_input]\<rparr>) ! 0))
    = Some (shown_values sha1 (js ''xy''))"
  using mask_shows_value [of hashmask_defaults "[sample_input]" "[mask_sparkline hashmask_defaults sample_input]"
      "[MaskKey 0 (js ''x''), MaskKey 0 (js ''xy''), MaskTimer 0]" 0]
  by (simp add: sample_input_def mask_sparkline_def mask_keyup_def hashmask_defaults_def Let_def)

text \<open>With the hash of the plugin that is twenty numbers below 16.\<close>

lemma sha1_digits:
  assumes "\<forall>c\<in>set v. c < 65536" "length (uTF8Encode v) < 2 ^ 32"
  obtains ds where "sha1 v = map digit_unit ds" "length ds = 40" "\<forall>d\<in>set ds. d < 16"
proof -
  define ws where "ws = spec_sha1 (concat (map utf8 (crlf_to_lf v)))"
  have ws: "length ws = 5" by (simp add: ws_def spec_sha1_def split: prod.splits)
  define hs where "hs = (\<lambda>x :: w32. map (\<lambda>k. unat x div 16 ^ k mod 16) [7, 6, 5, 4, 3, 2, 1, 0])"
  have "spec_hex = (\<lambda>x. map digit_unit (hs x))" by (simp add: spec_hex_def hs_def fun_eq_iff)
  then have "sha1 v = map digit_unit (concat (map hs ws))"
    using sha1_text [OF assms] by (simp add: ws_def map_concat comp_def)
  moreover have "length (concat (map hs ws)) = 40"
    using ws by (simp add: length_concat comp_def hs_def sum_list_triv map_replicate_const sum_list_replicate)
  moreover have "\<forall>d\<in>set (concat (map hs ws)). d < 16" by (auto simp: hs_def)
  ultimately show ?thesis by (rule that)
qed

theorem mask_values_of_sha1:
  assumes "\<forall>c\<in>set v. c < 65536" "length (uTF8Encode v) < 2 ^ 32"
  shows "length (shown_values sha1 v) = 20" "\<forall>x\<in>set (shown_values sha1 v). \<exists>d<16. x = Some (int d)"
proof -
  obtain ds where ds: "sha1 v = map digit_unit ds" "length ds = 40" "\<forall>d\<in>set ds. d < 16"
    using sha1_digits [OF assms] .
  have "\<forall>d\<in>set (take 20 ds). d < 16" using ds(3) by (auto dest: in_set_takeD)
  then have "shown_values sha1 v = map (\<lambda>d. Some (int d)) (take 20 ds)"
    by (simp add: shown_values_def inputDecArr_def ds(1) take_map hex_digit_values)
  then show "length (shown_values sha1 v) = 20" "\<forall>x\<in>set (shown_values sha1 v). \<exists>d<16. x = Some (int d)"
    using ds(2) \<open>\<forall>d\<in>set (take 20 ds). d < 16\<close> by auto
qed

section \<open>The height of later drawings\<close>

text \<open>The first drawing stores its height in the options, which are no longer \<open>'auto'\<close>: every later drawing
  has that height, also in an input of another height.\<close>

lemma height_kept:
  "so_height (hs_sparklineOptions (hm_settings h)) = Some x \<Longrightarrow>
    so_height (hs_sparklineOptions (hm_settings (mask_happens e h))) = Some x"
  by (cases e) (auto simp: Let_def drawn_options_def split: option.splits)

lemma heights_kept:
  "so_height (hs_sparklineOptions (hm_settings h)) = Some x \<Longrightarrow>
    so_height (hs_sparklineOptions (hm_settings (fold mask_happens es h))) = Some x"
  by (induction es arbitrary: h) (simp_all add: height_kept)

theorem mask_height_stale:
  fixes es :: "mask_event list" and h :: hashmask
  assumes "mk_timer (hm_inputs h ! j) \<noteq> None" "so_height (hs_sparklineOptions (hm_settings h)) = None"
  defines "g \<equiv> fold mask_happens es (mask_happens (MaskTimer j) h)"
  assumes "k < length (hm_inputs g)" "mk_timer (hm_inputs g ! k) \<noteq> None"
  shows "\<exists>vs so. mk_html (hm_inputs (mask_happens (MaskTimer k) g) ! k) = Some (vs, so) \<and>
    so_height so = Some (mi_outerHeight (mk_input (hm_inputs h ! j))
      - mi_borderBottom (mk_input (hm_inputs h ! j)) - mi_borderTop (mk_input (hm_inputs h ! j)))"
proof -
  let ?i = "mk_input (hm_inputs h ! j)"
  have "so_height (hs_sparklineOptions (hm_settings (mask_happens (MaskTimer j) h)))
      = Some (mi_outerHeight ?i - mi_borderBottom ?i - mi_borderTop ?i)"
    using assms(1,2) by (auto simp: Let_def drawn_options_def)
  from heights_kept [OF this, of es, folded g_def] show ?thesis
    using assms(4,5) by (auto simp: Let_def drawn_options_def)
qed

end
