(* ===== verification/Spec2Isabelle.thy ===== *)
theory Spec2Isabelle
  imports Lists ScrollLists Shapes TextInputs Editors Panels Dialogs DragMoves Rooms Views Outbox CanvasJs Unicode PageGlue TableSort Passwords HashMask
begin

text \<open>
  The browser side of the PageCamel framework: its canvas user interfaces, its socket with an outbox in
  a local database, its hash functions, and the state its pages keep beside these.

  \<^bold>\<open>The program.\<close> \<open>lib/PageCamel/Web/Static/canvasuijs/\<close> draws a user interface on one HTML canvas.
  Each file holds a class of elements (buttons, lists, text inputs, dialogs, ...). An object of a class
  keeps a list of elements, the options objects that its \<open>add\<close> got, which \<open>add\<close> fills with closures and
  with objects of other classes. All classes have the same interface: \<open>render(ctx)\<close>, \<open>onClick\<close>,
  \<open>onMouseDown\<close>, \<open>onMouseUp\<close>, \<open>onMouseMove\<close>, some of them \<open>onKeyDown\<close> and \<open>onKeyUp\<close>, \<open>find(name)\<close> and
  \<open>clear()\<close>. A \<open>UIView\<close> owns one object of each registered class and passes the events of the page to
  all of them, or to the dialogs only while one is open. \<open>canvasjs/\<close> holds older elements, drawn at once
  and clicked by their areas. \<open>pchelpers/src/\<close> is the client of the server: \<open>PCWebsocket\<close> keeps messages
  that must not be lost in a table of a \<open>PCSqlite\<close> database until the server acknowledges them; the
  database lives in memory and is exported after every write, a worker compresses the image and the
  page writes it to IndexedDB, from where the next client loads it. \<open>sha256.js\<close> gives the names under
  which \<open>UIImage\<close> stores images.

  \<^bold>\<open>The theories\<close>, in the order of the files that they model:
  \<^item> \<open>Prelude\<close>: strings as lists of UTF-16 units, numbers, arrays, \<open>parseInt\<close>, \<open>Math.round\<close>, \<open>splice\<close>, the
    results of code that throws; generic lemmas. \<open>Canvas\<close>: the calls on a 2D context as a history of
    drawing commands, and when the calls of \<open>save\<close> and \<open>restore\<close> in it are well nested.
  \<^item> \<open>CanvasHelpers\<close> (\<open>canvashelpers.js\<close>): rotation, colours, amounts of money, breaking of lines, sizes,
    keys, event propagation.
  \<^item> \<open>Widgets\<close>: events, the loops over elements, labels, gradients; the locale \<open>named_collection\<close> is the
    contract of \<open>add\<close>, \<open>find\<close> and \<open>clear\<close>, interpreted for every class that keeps it.
  \<^item> \<open>Buttons\<close> (\<open>uibutton.js\<close>, \<open>uiarrowbutton.js\<close>), \<open>Lists\<close> (\<open>uilist.js\<close>), \<open>ScrollLists\<close>
    (\<open>uilistitem.js\<close>, \<open>uiscrolllist.js\<close>; the locale \<open>scroll_closure\<close> is the contract of the closures
    that move the window of a list), \<open>Shapes\<close> (\<open>uitext.js\<close>, \<open>uitextbox.js\<close>, \<open>uiline.js\<close>, \<open>uicircle.js\<close>,
    \<open>uiimage.js\<close>, \<open>uicheckbox.js\<close>), \<open>TextInputs\<close> (\<open>uitextinput.js\<close>) with its specification in \<open>Editors\<close>,
    \<open>Panels\<close> (\<open>uinumpad.js\<close>, \<open>uicolorpalet.js\<close>), \<open>Dialogs\<close> (\<open>uidialog.js\<close>).
  \<^item> \<open>DragNDrop\<close> (\<open>uidragndrop.js\<close>): the plan whose elements are dragged, resized and turned; its theorems
    are in \<open>DragMoves\<close>. \<open>ButtonRows\<close> (\<open>uibuttonrow.js\<close>): the rows of rooms; its theorems are in
    \<open>Rooms\<close>, where the locale \<open>button_handler\<close> states what a row needs of the handlers of \<open>UIButton\<close>.
  \<^item> \<open>Views\<close> (\<open>uiview.js\<close>): the register of classes and the view; the locales \<open>dialog_handler\<close> and
    \<open>class_handler\<close> state what the view needs of the handlers of its objects and are interpreted for
    each of the seven kinds of events.
  \<^item> \<open>LzString\<close> (\<open>lz-string.js\<close>): the compression of records of older versions; \<open>enc_ok\<close>, \<open>behind\<close> and
    \<open>caught_up\<close> relate the two dictionaries, the locale \<open>lz_alphabet\<close> is the contract of the characters,
    interpreted for the four alphabets. \<open>SqlEngine\<close>: what is used of sql.js and pako, as the record \<open>engine\<close>, with the locales
    \<open>image_codec\<close> (an exported image opens to its database, inflating undoes deflating) and \<open>outbox_table\<close>
    (what the six statements of the outbox do to its rows); an engine that keeps one table in memory
    interprets both. \<open>Sqlite\<close> (\<open>sqlite.js\<close>, \<open>SQLtoBinWorker.js\<close>): the database object, the worker and
    IndexedDB, with \<open>db_step\<close> as the relation of their interleavings. \<open>Websocket\<close> (\<open>websocket.js\<close>): callbacks,
    queue, sending; \<open>Outbox\<close>: its events and the specification of the outbox as a multiset.
  \<^item> \<open>CanvasJs\<close> (\<open>canvasjs/\<close>): buttons, item lists, the seven segment display. \<open>Sha256\<close> (\<open>sha256.js\<close>): the
    routine and the hash of the standard.
  \<^item> \<open>Unicode\<close> (\<open>unicodehelpers.js\<close>, the Base64 functions of \<open>pagecameldefaultlayout.js\<close>): UTF-8,
    percent codes and Base64; the locale \<open>octet_code\<close> is the contract of an escape form that
    \<open>decodeURIComponent\<close> reads, interpreted for \<open>escape\<close> and for the form of \<open>b64DecodeUnicode\<close>.
    \<open>PageGlue\<close>: state that pages keep outside the canvas: \<open>ajaxhelpers.js\<close> (\<open>tabs_step\<close> interleaves the
    tabs of a browser), \<open>formhelpers.js\<close>, \<open>pageviewstats.js\<close>, the key fob of \<open>pagecameldefaultlayout.js\<close>,
    \<open>service_worker.js\<close>, \<open>jquery.checkify.js\<close>, \<open>remoteconsolelog.js\<close>, \<open>translate.js\<close>.
    \<open>TableSort\<close>: the plugins of the tables (\<open>jquery.dataTables.sortplugin.js\<close>, \<open>plugins.js\<close>,
    \<open>filterdelay.js\<close>). \<open>Passwords\<close> (\<open>jquery.complexify.js\<close>): which new passwords are accepted.
  \<^item> \<open>Sha1\<close> (\<open>jquery.sha1.js\<close>): the routine, its encoding and the hash of the standard, over the padding that
    \<open>Sha256\<close> states. \<open>HashMask\<close> (\<open>jquery.hashmask.js\<close>): the picture of a password that is drawn from it.

  \<^bold>\<open>How code becomes definitions.\<close> An options object is a record, an option that may be missing has an
  option type, and an object of a class is a record of the list of its elements and its own fields:
  \<open>this.buttons\<close> of a \<open>UIButton\<close> is \<open>ub_buttons\<close>, \<open>add\<close> is \<open>UIButton_add\<close>, \<open>onClick\<close> is
  \<open>UIButton_onClick\<close>. A handler takes the object and gives the new object and the list of events it
  causes, in order: calls of a callback, \<open>triggerRepaint()\<close>, \<open>preventDefault()\<close> and the like. A closure
  that \<open>add\<close> puts into the options is a definition on the record, named after the closure. Where a
  callback is one of the program's own closures it is carried out at the place of the call; the page's
  callbacks run after the handler. Drawing maps the history of the context to a longer one; the
  width of a text is a parameter that may depend on the history, as it depends on the font.
  Code that throws gives \<open>Inl\<close> of an error; what the state is after a throw is not modelled.
  A loop that may not end gives \<open>None\<close>. There is no fuel: every other loop is a structural
  recursion or has a measure.

  \<^bold>\<open>What the theorems show\<close>, by theory. \<open>Lists\<close>: a page shows its slice
  of the items at the places of the grid, without overlaps, and a reachable list whose area holds an
  element is never empty. \<open>ScrollLists\<close>: a reachable list with more items than fit shows a
  full window of them, the bar stays in its track, dragging it is proportional; drawing ends unless a
  filled line has no width. \<open>TextInputs\<close> and \<open>Editors\<close>: for any keys an input is
  the editor that keeps the text before and after the cursor apart; what an input for amounts accepts.
  \<open>Dialogs\<close>: which places and keys confirm and cancel, what survives a resize.
  \<open>DragMoves\<close>: every reachable element is inside its container and turns about its middle;
  what dragging, snapping, resizing, turning, clicking and deleting do. \<open>Rooms\<close>: the rooms of
  a reachable row stand at their places, what dragging, editing, deleting and renaming do to them.
  \<open>Views\<close>: open dialogs are modal, objects keep their classes (what
  \<open>dialog_is_modal\<close> asks for), drawing is well nested, what was added is found.
  \<open>LzString\<close>: a text comes back from each compressed form. \<open>Sqlite\<close>: what is
  reported as saved is found by the next client, and every save gets there by background steps alone.
  \<open>Websocket\<close> and \<open>Outbox\<close>: the table is the multiset of unacknowledged messages
  over any events, nothing is lost but what an acknowledgement names, a working connection drains it in
  order, it survives a restart; the queue delays only. \<open>CanvasJs\<close>: clicks select the item
  drawn under them, the bar offers places the list can show. \<open>Sha256\<close>: the routine with its
  unreduced sums, rolling schedule and padding computes the hash of the standard, whose constants are
  checked to be those of the roots of the first primes. \<open>Unicode\<close>: a string comes back from
  its Base64 and UTF-8 forms, encoding fails on lone surrogates only. \<open>PageGlue\<close>: how
  refreshes of many tabs are spaced, however tabs are opened, closed and loaded anew and timers are late,
  when the client identifier is set, what is answered offline, that a page view is reported once, that the
  key fob has one request open at a time and logs out once. \<open>TableSort\<close>: what the comparisons
  of columns order, and when they do not; the filter follows the box. \<open>Passwords\<close>: which
  passwords are valid. \<open>Sha1\<close>: the routine computes the hash of the standard on the octets of
  its encoding, and when those are UTF-8. \<open>HashMask\<close>: what is shown belongs to what is typed,
  over any order of keys and timers. Several theorems state what the code does where it does not do what
  it means to: among them \<open>setList_exact_stale\<close>, \<open>euro_input_leaks\<close>,
  \<open>dialog_getList_throws\<close>, \<open>unsized_container\<close>,
  \<open>delete_while_pressed_throws\<close>, \<open>delete_add_same_number\<close>,
  \<open>stopEdit_locks\<close>, \<open>recreated_rename_adds\<close>,
  \<open>leaving_releases_nothing\<close>, \<open>never_scaled\<close>, \<open>equal_ids_lost\<close>,
  \<open>dbid_precision\<close>, \<open>same_millisecond_reordered\<close>,
  \<open>send_true_without_row\<close>, \<open>queued_messages_multiplied\<close>,
  \<open>deregister_skips_next\<close>, \<open>multi_insert_interrupted\<close>,
  \<open>initialize_needs_debug\<close>, \<open>missing_store_pends\<close>,
  \<open>all_saved_too_early\<close>, \<open>short_list_calls_back\<close>,
  \<open>press_without_move_scrolls\<close>, \<open>shared_column\<close>,
  \<open>second_chunk_overwrites\<close>, \<open>first_refresh_twice\<close>,
  \<open>loading_postpones\<close>, \<open>overlapping_updates_lock\<close>,
  \<open>uncompressed_record_lost\<close>, \<open>empty_cell_unordered\<close>,
  \<open>number_cells_throw\<close>, \<open>sha1_surrogates\<close> and \<open>mask_height_stale\<close>.

  \<^bold>\<open>Simplifications.\<close> Coordinates are real and counts are integers: rounding of
  floating point numbers is not modelled, but a division by zero and \<open>NaN\<close> are, by the type
  \<open>jsnum\<close>, where the code can meet them. \<open>toUpperCase\<close> is exact for texts of
  code points below 384 and \<open>toLowerCase\<close> for ASCII and Latin-1; other letters stay as they
  are. An array that is given to \<open>setList\<close> or got from \<open>getList\<close> is not changed
  by the page afterwards. Indices of for-in loops are strings only where the code computes with them.
  Heights of elements are not zero and sizes of lists not negative. The options \<open>isSelected\<close>
  and \<open>callback\<close> of a dragged element are there; \<open>addToUndoable\<close> may be missing.
  A row's button has the same number in \<open>i\<close> and \<open>callbackData\<close>. A text input
  draws on its own context, which is that of the view. The clock, the random number of a message and the
  page's \<open>wstransmit\<close> are the environment of a call of the socket, the same for the whole
  call. Loading the database is one step: the page does not use it before; a record whose decompression
  throws leaves it without a database. The store of IndexedDB runs its requests in their order; it is not
  full. Data of a cached message is text in the theorems on the outbox. The identifier of a message is the
  nearest double of the product and the sum, as the code has them.

  \<^bold>\<open>Not modelled.\<close> The page: fonts, image decoding and file contents are parameters or left out. The
  store of the images, \<open>tableplanhandler\<close>, is not in the repository: it is a value of the codatatype
  \<open>image_store\<close>, which says nothing but that it has the two operations; \<open>draw_image\<close> asks it as often as the
  code does, the locale \<open>image_keeper\<close> states what a store that keeps images gives, and one that keeps them in
  a map interprets it. The hash that names images is a parameter of \<open>Shapes\<close>. The other
  JavaScript of the repository: the libraries it only uses (jQuery and its plugins, CodeMirror, Chart.js, three.js,
  hls.js, noVNC, OpenLayers, sql.js, pako and others) and what only calls them: the widgets
  of \<open>pagecameldefaultlayout.js\<close>, \<open>snow.js\<close>, \<open>cavaclogo.js\<close>, \<open>consolehelpers.js\<close>.
\<close>

end
